(* ===== verification/Prelude.thy ===== *)
theory Prelude
  imports Main "HOL-Library.Code_Target_Nat"
begin

text \<open>
  Shared vocabulary of the development: results with an error value, Python strings,
  insertion-ordered dictionaries, and the generic lemmas the components use.

  Python strings are lists of characters. HOL's \<open>char\<close> has the 256 code points
  0 to 255, so the model covers strings over those; case folding is the ASCII one
  (the identifiers the code folds are component references, net names, status words
  and paths). A Python \<open>dict\<close> is an association list in insertion order.
\<close>

named_theorems result_simps \<open>computation rules for results\<close>
named_theorems dict_simps \<open>lookup and key laws of insertion-ordered dictionaries\<close>

subsection \<open>Results\<close>

type_synonym ('e, 'a) result = "'e + 'a"

fun rbind :: "('e, 'a) result \<Rightarrow> ('a \<Rightarrow> ('e, 'b) result) \<Rightarrow> ('e, 'b) result" where
  "rbind (Inl e) f = Inl e"
| "rbind (Inr x) f = f x"

definition demand :: "bool \<Rightarrow> 'e \<Rightarrow> ('e, 'a) result \<Rightarrow> ('e, 'a) result" where
  "demand b e k = (if b then k else Inl e)"

definition is_ok :: "('e, 'a) result \<Rightarrow> bool" where
  "is_ok r = (case r of Inl _ \<Rightarrow> False | Inr _ \<Rightarrow> True)"

text \<open>A Python loop whose body may raise: stops at the first error.\<close>

fun rfold :: "('s \<Rightarrow> 'a \<Rightarrow> ('e, 's) result) \<Rightarrow> 's \<Rightarrow> 'a list \<Rightarrow> ('e, 's) result" where
  "rfold f s [] = Inr s"
| "rfold f s (x # xs) = rbind (f s x) (\<lambda>s'. rfold f s' xs)"

text \<open>A loop whose body may fail to return.\<close>

fun ofold :: "('a \<Rightarrow> 's \<Rightarrow> 's option) \<Rightarrow> 'a list \<Rightarrow> 's \<Rightarrow> 's option" where
  "ofold f [] s = Some s"
| "ofold f (x # xs) s = (case f x s of None \<Rightarrow> None | Some s' \<Rightarrow> ofold f xs s')"

fun rmap :: "('a \<Rightarrow> ('e, 'b) result) \<Rightarrow> 'a list \<Rightarrow> ('e, 'b list) result" where
  "rmap f [] = Inr []"
| "rmap f (x # xs) = rbind (f x) (\<lambda>y. rbind (rmap f xs) (\<lambda>ys. Inr (y # ys)))"

lemma rbind_Inr_iff [result_simps]:
  "rbind r f = Inr y \<longleftrightarrow> (\<exists>x. r = Inr x \<and> f x = Inr y)"
  by (cases r) auto

lemma rbind_Inl_iff [result_simps]:
  "rbind r f = Inl e \<longleftrightarrow> r = Inl e \<or> (\<exists>x. r = Inr x \<and> f x = Inl e)"
  by (cases r) auto

lemma demand_Inr_iff [result_simps]: "demand b e k = Inr y \<longleftrightarrow> b \<and> k = Inr y"
  by (simp add: demand_def)

lemma demand_Inl_iff [result_simps]: "demand b e k = Inl e' \<longleftrightarrow> (\<not> b \<and> e' = e) \<or> (b \<and> k = Inl e')"
  by (auto simp: demand_def)

lemma demand_True [simp]: "demand True e k = k"
  by (simp add: demand_def)

lemma demand_False [simp]: "demand False e k = Inl e"
  by (simp add: demand_def)

lemma is_ok_Inr [simp]: "is_ok (Inr x)"
  by (simp add: is_ok_def)

lemma is_ok_Inl [simp]: "\<not> is_ok (Inl e)"
  by (simp add: is_ok_def)

lemma rbind_assoc: "rbind (rbind r f) g = rbind r (\<lambda>x. rbind (f x) g)"
  by (cases r) auto

lemma rbind_Inr_right [simp]: "rbind r Inr = r"
  by (cases r) auto

lemma is_ok_iff: "is_ok r \<longleftrightarrow> (\<exists>x. r = Inr x)"
  by (cases r) auto

text \<open>An invariant of every successful body is an invariant of the loop.\<close>

lemma rfold_invariant:
  assumes "rfold f s xs = Inr s'" and "I s"
    and "\<And>s x s'. x \<in> set xs \<Longrightarrow> I s \<Longrightarrow> f s x = Inr s' \<Longrightarrow> I s'"
  shows "I s'"
  using assms
proof (induction xs arbitrary: s)
  case Nil
  then show ?case by simp
next
  case (Cons x xs)
  from Cons.prems(1) obtain t where t: "f s x = Inr t" "rfold f t xs = Inr s'"
    by (auto simp: result_simps)
  moreover have "I t" using Cons.prems(2) t(1) by (intro Cons.prems(3)[of x s t]) auto
  ultimately show ?case
    by (intro Cons.IH[of t]) (auto intro: Cons.prems(3))
qed

lemma rmap_all2: "rmap f xs = Inr ys \<Longrightarrow> list_all2 (\<lambda>x y. f x = Inr y) xs ys"
  by (induction xs arbitrary: ys) (auto simp: result_simps)

text \<open>An invariant that also speaks of the elements processed so far.\<close>

lemma rfold_prefix_invariant:
  assumes "rfold f s xs = Inr s'" and "I [] s"
    and "\<And>ys x s s'. x \<in> set xs \<Longrightarrow> I ys s \<Longrightarrow> f s x = Inr s' \<Longrightarrow> I (ys @ [x]) s'"
  shows "I xs s'"
proof -
  have "rfold f s zs = Inr s' \<Longrightarrow> I ys s \<Longrightarrow> set zs \<subseteq> set xs \<Longrightarrow> I (ys @ zs) s'" for ys zs s
  proof (induction zs arbitrary: ys s)
    case Nil
    then show ?case by simp
  next
    case (Cons z zs)
    then obtain t where t: "f s z = Inr t" "rfold f t zs = Inr s'" by (auto simp: result_simps)
    have "I (ys @ [z]) t" using assms(3)[OF _ Cons.prems(2) t(1)] Cons.prems(3) by simp
    from Cons.IH[OF t(2) this] Cons.prems(3) show ?case by simp
  qed
  from this[OF assms(1,2)] show ?thesis by simp
qed

text \<open>A loop whose body succeeds under an invariant it keeps returns, with the invariant.\<close>

lemma ofold_invariant:
  assumes "I [] s" and "set xs \<subseteq> A"
    and "\<And>done x s. I done s \<Longrightarrow> x \<in> A \<Longrightarrow> \<exists>s'. f x s = Some s' \<and> I (done @ [x]) s'"
  shows "\<exists>s'. ofold f xs s = Some s' \<and> I xs s'"
proof -
  have "I ys s \<Longrightarrow> set xs \<subseteq> A \<Longrightarrow> \<exists>s'. ofold f xs s = Some s' \<and> I (ys @ xs) s'" for ys s
  proof (induction xs arbitrary: ys s)
    case Nil
    then show ?case by simp
  next
    case (Cons x xs)
    then obtain t where t: "f x s = Some t" "I (ys @ [x]) t" using assms(3)[of ys s x] by auto
    with Cons.IH[OF t(2)] Cons.prems(2) show ?case by simp
  qed
  from this[OF assms(1,2)] show ?thesis by simp
qed

subsection \<open>Python strings\<close>

definition lower_char :: "char \<Rightarrow> char" where
  "lower_char c = (if 65 \<le> (of_char c :: nat) \<and> (of_char c :: nat) \<le> 90
     then char_of ((of_char c :: nat) + 32) else c)"

definition upper_char :: "char \<Rightarrow> char" where
  "upper_char c = (if 97 \<le> (of_char c :: nat) \<and> (of_char c :: nat) \<le> 122
     then char_of ((of_char c :: nat) - 32) else c)"

definition casefold :: "string \<Rightarrow> string" where
  "casefold s = map lower_char s"

definition py_upper :: "string \<Rightarrow> string" where
  "py_upper s = map upper_char s"

definition py_space :: "char \<Rightarrow> bool" where
  "py_space c = ((of_char c :: nat) \<in> {9, 10, 11, 12, 13, 28, 29, 30, 31, 32, 133, 160})"

definition py_strip :: "string \<Rightarrow> string" where
  "py_strip s = rev (dropWhile py_space (rev (dropWhile py_space s)))"

definition starts_with :: "string \<Rightarrow> string \<Rightarrow> bool" where
  "starts_with s p = (take (length p) s = p)"

definition ends_with :: "string \<Rightarrow> string \<Rightarrow> bool" where
  "ends_with s p = (length p \<le> length s \<and> drop (length s - length p) s = p)"

fun contains_sub :: "string \<Rightarrow> string \<Rightarrow> bool" where
  "contains_sub [] p = (p = [])"
| "contains_sub (c # cs) p = (starts_with (c # cs) p \<or> contains_sub cs p)"

text \<open>Length in bytes of the UTF-8 encoding (characters are code points below 256).\<close>

definition utf8_length :: "string \<Rightarrow> nat" where
  "utf8_length s = sum_list (map (\<lambda>c. if (of_char c :: nat) < 128 then 1 else 2) s)"

fun digit_char :: "nat \<Rightarrow> char" where
  "digit_char d = char_of (if d < 10 then 48 + d else 87 + d)"

text \<open>\<open>str\<close> of a non-negative integer.\<close>

fun nat_str :: "nat \<Rightarrow> string" where
  "nat_str n = (if n < 10 then [digit_char n] else nat_str (n div 10) @ [digit_char (n mod 10)])"

declare nat_str.simps [simp del]

text \<open>\<open>json.dumps\<close> of a string, in its default ASCII form.\<close>

definition json_char :: "char \<Rightarrow> string" where
  "json_char c = (let n = (of_char c :: nat) in
     if n = 0x22 then [CHR 0x5C, CHR 0x22]
     else if n = 0x5C then [CHR 0x5C, CHR 0x5C]
     else if n = 10 then [CHR 0x5C, CHR ''n'']
     else if n = 13 then [CHR 0x5C, CHR ''r'']
     else if n = 9 then [CHR 0x5C, CHR ''t'']
     else if n = 8 then [CHR 0x5C, CHR ''b'']
     else if n = 12 then [CHR 0x5C, CHR ''f'']
     else if n < 32 \<or> 126 < n then
       [CHR 0x5C, CHR ''u'', CHR ''0'', CHR ''0'', digit_char (n div 16), digit_char (n mod 16)]
     else [c])"

definition json_string :: "string \<Rightarrow> string" where
  "json_string s = CHR 0x22 # concat (map json_char s) @ [CHR 0x22]"

fun py_join :: "string \<Rightarrow> string list \<Rightarrow> string" where
  "py_join sep [] = []"
| "py_join sep [x] = x"
| "py_join sep (x # y # xs) = x @ sep @ py_join sep (y # xs)"

lemma lower_char_idem [simp]: "lower_char (lower_char c) = lower_char c"
  by (auto simp: lower_char_def)

lemma casefold_idem [simp]: "casefold (casefold s) = casefold s"
  by (simp add: casefold_def)

lemma lower_upper_char [simp]: "lower_char (upper_char c) = lower_char c"
  by (auto simp: lower_char_def upper_char_def)

lemma casefold_upper [simp]: "casefold (py_upper s) = casefold s"
  by (simp add: casefold_def py_upper_def)

lemma casefold_append [simp]: "casefold (s @ t) = casefold s @ casefold t"
  by (simp add: casefold_def)

lemma upper_lower_char [simp]: "upper_char (lower_char c) = upper_char c"
  by (auto simp: lower_char_def upper_char_def)

lemma py_upper_casefold [simp]: "py_upper (casefold s) = py_upper s"
  by (simp add: casefold_def py_upper_def)

lemma py_upper_eq_iff: "py_upper s = py_upper t \<longleftrightarrow> casefold s = casefold t"
  by (metis casefold_upper py_upper_casefold)

lemma list_all_replicate_iff [simp]: "list_all P (replicate n x) \<longleftrightarrow> n = 0 \<or> P x"
  by (auto simp: list_all_iff)

lemma map_update_same: "i < length xs \<Longrightarrow> f y = f (xs ! i) \<Longrightarrow> map f (xs[i := y]) = map f xs"
  by (metis list_update_id map_update)

subsection \<open>Insertion-ordered dictionaries\<close>

type_synonym ('k, 'v) dict = "('k \<times> 'v) list"

abbreviation dget :: "('k, 'v) dict \<Rightarrow> 'k \<Rightarrow> 'v option" where
  "dget \<equiv> map_of"

definition dkeys :: "('k, 'v) dict \<Rightarrow> 'k list" where
  "dkeys d = map fst d"

fun dset :: "'k \<Rightarrow> 'v \<Rightarrow> ('k, 'v) dict \<Rightarrow> ('k, 'v) dict" where
  "dset k v [] = [(k, v)]"
| "dset k v ((k', v') # d) = (if k' = k then (k, v) # d else (k', v') # dset k v d)"

definition ddel :: "'k \<Rightarrow> ('k, 'v) dict \<Rightarrow> ('k, 'v) dict" where
  "ddel k d = filter (\<lambda>(k', _). k' \<noteq> k) d"

definition dget_or :: "('k, 'v) dict \<Rightarrow> 'k \<Rightarrow> 'v \<Rightarrow> 'v" where
  "dget_or d k v = (case dget d k of None \<Rightarrow> v | Some w \<Rightarrow> w)"

definition dsetdefault :: "'k \<Rightarrow> 'v \<Rightarrow> ('k, 'v) dict \<Rightarrow> ('k, 'v) dict" where
  "dsetdefault k v d = (case dget d k of None \<Rightarrow> dset k v d | Some _ \<Rightarrow> d)"

definition dict_wf :: "('k, 'v) dict \<Rightarrow> bool" where
  "dict_wf d = distinct (dkeys d)"

lemma dget_dset [dict_simps]: "dget (dset k v d) = (dget d)(k \<mapsto> v)"
  by (induction k v d rule: dset.induct) (auto simp: fun_eq_iff)

lemma dget_ddel [dict_simps]: "dget (ddel k d) = (dget d)(k := None)"
  by (induction d) (auto simp: ddel_def fun_eq_iff)

lemma set_dkeys [dict_simps]: "set (dkeys d) = dom (dget d)"
  by (simp add: dkeys_def dom_map_of_conv_image_fst)

lemma dkeys_dset [dict_simps]:
  "dkeys (dset k v d) = (if k \<in> dom (dget d) then dkeys d else dkeys d @ [k])"
  by (induction k v d rule: dset.induct) (auto simp: dkeys_def)

lemma dict_wf_empty [dict_simps]: "dict_wf []"
  by (simp add: dict_wf_def dkeys_def)

lemma dict_wf_dset [dict_simps]: "dict_wf d \<Longrightarrow> dict_wf (dset k v d)"
  by (simp add: dict_wf_def dict_simps)

lemma dict_wf_ddel [dict_simps]: "dict_wf d \<Longrightarrow> dict_wf (ddel k d)"
  by (induction d) (auto simp: dict_wf_def dkeys_def ddel_def)

lemma dget_dsetdefault [dict_simps]:
  "dget (dsetdefault k v d) =
     (if k \<in> dom (dget d) then dget d else (dget d)(k \<mapsto> v))"
  by (auto simp: dsetdefault_def dict_simps split: option.splits)

lemma dget_or_dset [dict_simps]: "dget_or (dset k v d) j w = (if j = k then v else dget_or d j w)"
  by (simp add: dget_or_def dget_dset)

lemma dget_map_pair [dict_simps]:
  "dget (map (\<lambda>r. (r, f r)) rs) k = (if k \<in> set rs then Some (f k) else None)"
  by (induction rs) auto

lemma dset_map_pair [dict_simps]:
  "distinct rs \<Longrightarrow> dset k v (map (\<lambda>r. (r, f r)) rs) =
     map (\<lambda>r. (r, (f(k := v)) r)) (if k \<in> set rs then rs else rs @ [k])"
  by (induction rs) auto

text \<open>\<open>list(dict.fromkeys(xs))\<close>: duplicates dropped, first occurrence kept.\<close>

fun fromkeys :: "'a list \<Rightarrow> 'a list" where
  "fromkeys [] = []"
| "fromkeys (x # xs) = x # filter (\<lambda>y. y \<noteq> x) (fromkeys xs)"

lemma fromkeys_snoc:
  "fromkeys (xs @ [y]) = (if y \<in> set xs then fromkeys xs else fromkeys xs @ [y])"
  by (induction xs) auto

lemma set_fromkeys [simp]: "set (fromkeys xs) = set xs"
  by (induction xs) auto

lemma distinct_fromkeys [simp]: "distinct (fromkeys xs)"
  by (induction xs) auto

lemma fromkeys_distinct: "distinct xs \<Longrightarrow> fromkeys xs = xs"
  by (induction xs) (auto simp: filter_id_conv)

lemma length_fromkeys_le: "length (fromkeys xs) \<le> length xs"
  by (induction xs) (auto intro: le_trans[OF length_filter_le])

end
