(* ===== verification/Systems.thy ===== *)
theory Systems
  imports Prelude
begin

text \<open>
  Reachable states of a step relation, and the interface under which an invariant of
  every step holds in every reachable state. The components with interleaved operations
  (the run registry, the durable workflow, the repair session) interpret it.
\<close>

inductive reach :: "('s \<Rightarrow> bool) \<Rightarrow> ('s \<Rightarrow> 's \<Rightarrow> bool) \<Rightarrow> 's \<Rightarrow> bool" for init step where
  initial: "init s \<Longrightarrow> reach init step s"
| advance: "reach init step s \<Longrightarrow> step s t \<Longrightarrow> reach init step t"

locale safe_system =
  fixes init :: "'s \<Rightarrow> bool"
    and step :: "'s \<Rightarrow> 's \<Rightarrow> bool"
    and inv :: "'s \<Rightarrow> bool"
  assumes init_inv: "init s \<Longrightarrow> inv s"
    and step_inv: "inv s \<Longrightarrow> step s t \<Longrightarrow> inv t"
begin

lemma reach_inv: "reach init step s \<Longrightarrow> inv s"
  by (induction rule: reach.induct) (auto intro: init_inv step_inv)

lemma run_inv: "step\<^sup>*\<^sup>* s t \<Longrightarrow> inv s \<Longrightarrow> inv t"
  by (induction rule: rtranclp_induct) (auto intro: step_inv)

end

text \<open>A system whose steps never decrease a measure: it can be used as a version.\<close>

locale monotone_system = safe_system init step inv
  for init :: "'s \<Rightarrow> bool" and step and inv +
  fixes version :: "'s \<Rightarrow> nat"
  assumes step_version: "inv s \<Longrightarrow> step s t \<Longrightarrow> version s \<le> version t"
begin

lemma run_version: "step\<^sup>*\<^sup>* s t \<Longrightarrow> inv s \<Longrightarrow> version s \<le> version t"
proof (induction rule: rtranclp_induct)
  case base
  then show ?case by simp
next
  case (step t u)
  then have "version t \<le> version u" using step_version[OF run_inv[OF step.hyps(1)]] by blast
  then show ?case using step by simp
qed

end

text \<open>
  A writer and a reader of the same documents: what the writer prints of a well-formed
  value is read back as that value, and the reader returns only well-formed values.
\<close>

locale codec =
  fixes encode :: "'a \<Rightarrow> string"
    and decode :: "string \<Rightarrow> ('e, 'a) result"
    and wf :: "'a \<Rightarrow> bool"
  assumes round_trip: "wf v \<Longrightarrow> decode (encode v) = Inr v"
    and decode_wf: "decode s = Inr v \<Longrightarrow> wf v"
begin

lemma encode_inj: "wf v \<Longrightarrow> wf w \<Longrightarrow> encode v = encode w \<Longrightarrow> v = w"
  by (metis round_trip sum.inject(2))

lemma rewrite_stable: "decode s = Inr v \<Longrightarrow> decode (encode v) = Inr v"
  by (blast intro: round_trip decode_wf)

end

end
