(* ===== verification/Sexpr.thy ===== *)
theory Sexpr
  imports Systems
begin

text \<open>
  The S-expression engine of \<^verbatim>\<open>src/src/ratsnestpro/eda/vendor/sexpr.py\<close>: the tokenizer
  (\<^verbatim>\<open>_tokenize\<close>), the escape decoder, the recursive-descent parser (\<^verbatim>\<open>loads\<close>), the writer
  (\<^verbatim>\<open>dumps\<close>, compact and pretty) and the tag queries. A Python node is a quoted string,
  a bare \<^verbatim>\<open>Atom\<close> or a list; the parser's \<^verbatim>\<open>nonlocal pos\<close> is the remaining token list.
  The lemmas show that the parser terminates and consumes tokens, that the tokens of a
  written tree are exactly the tree's own tokens, and that parsing a written tree
  returns the tree, in both layouts.
\<close>

datatype sexpr_error =
    UnterminatedString nat
  | EmptyInput
  | UnexpectedEnd
  | MissingClose
  | UnexpectedClose
  | TrailingData

datatype node = QStr string | Atom string | Lst "node list"

abbreviation dquote :: char where "dquote \<equiv> CHR 0x22"
abbreviation bslash :: char where "bslash \<equiv> CHR 0x5C"
abbreviation lpar :: char where "lpar \<equiv> CHR ''(''"
abbreviation rpar :: char where "rpar \<equiv> CHR '')''"
abbreviation newline :: char where "newline \<equiv> CHR 0x0A"
abbreviation tab :: char where "tab \<equiv> CHR 0x09"
abbreviation creturn :: char where "creturn \<equiv> CHR 0x0D"
abbreviation blank :: char where "blank \<equiv> CHR '' ''"

subsection \<open>Tokens\<close>

definition sx_space :: "char \<Rightarrow> bool" where
  "sx_space c = (c \<in> {blank, tab, creturn, newline})"

definition bare_char :: "char \<Rightarrow> bool" where
  "bare_char c = (\<not> sx_space c \<and> c \<notin> {lpar, rpar, dquote})"

text \<open>
  The inner loop over a quoted string, entered after the opening quote: the copied text
  with its closing quote, and what follows it. \<open>None\<close> is the loop's \<open>else\<close> (no closing quote).
\<close>

fun scan_string :: "string \<Rightarrow> (string \<times> string) option" where
  "scan_string [] = None"
| "scan_string [c] = (if c = dquote then Some ([dquote], []) else None)"
| "scan_string (c # d # ds) =
     (if c = bslash then map_option (\<lambda>(b, r). (c # d # b, r)) (scan_string ds)
      else if c = dquote then Some ([dquote], d # ds)
      else map_option (\<lambda>(b, r). (c # b, r)) (scan_string (d # ds)))"

lemma scan_string_shorter:
  "scan_string s = Some (b, r) \<Longrightarrow> length r < length s"
  by (induction s arbitrary: b r rule: scan_string.induct) (auto split: if_splits)

text \<open>The outer loop; the first argument is the offset \<open>i\<close> used in the error message.\<close>

function tokenize :: "nat \<Rightarrow> string \<Rightarrow> (sexpr_error, string list) result" where
  "tokenize i [] = Inr []"
| "tokenize i (c # cs) =
     (if sx_space c then tokenize (Suc i) cs
      else if c = lpar \<or> c = rpar then rbind (tokenize (Suc i) cs) (\<lambda>ts. Inr ([c] # ts))
      else if c = dquote then
        (case scan_string cs of
           None \<Rightarrow> Inl (UnterminatedString i)
         | Some (b, r) \<Rightarrow>
             rbind (tokenize (i + 1 + length b) r) (\<lambda>ts. Inr ((dquote # b) # ts)))
      else
        (let w = takeWhile bare_char (c # cs); r = dropWhile bare_char (c # cs)
         in rbind (tokenize (i + length w) r) (\<lambda>ts. Inr (w # ts))))"
  by pat_completeness auto
termination
proof (relation "measure (\<lambda>(i, s). length s)", goal_cases)
  case 1
  then show ?case by simp
next
  case (2 i c cs)
  then show ?case by simp
next
  case (3 i c cs)
  then show ?case by simp
next
  case (4 i c cs p b r)
  then show ?case using scan_string_shorter[of cs b r] by simp
next
  case (5 i c cs w r)
  then have "bare_char c" by (auto simp: bare_char_def)
  then show ?case using 5 by (simp add: length_dropWhile_le less_Suc_eq_le)
qed

subsection \<open>Escapes\<close>

fun unescape_inner :: "string \<Rightarrow> string" where
  "unescape_inner [] = []"
| "unescape_inner [c] = [c]"
| "unescape_inner (c # d # ds) =
     (if c = bslash then
        (if d = CHR ''n'' then newline
         else if d = CHR ''t'' then tab
         else if d = CHR ''r'' then creturn
         else d) # unescape_inner ds
      else c # unescape_inner (d # ds))"

definition unescape :: "string \<Rightarrow> string" where
  "unescape q = unescape_inner (butlast (tl q))"

definition escape_char :: "char \<Rightarrow> string" where
  "escape_char c =
     (if c = bslash then [bslash, bslash]
      else if c = dquote then [bslash, dquote]
      else if c = newline then [bslash, CHR ''n'']
      else if c = tab then [bslash, CHR ''t'']
      else if c = creturn then [bslash, CHR ''r'']
      else [c])"

definition escape :: "string \<Rightarrow> string" where
  "escape s = concat (map escape_char s)"

subsection \<open>Parser\<close>

function parse_node :: "string list \<Rightarrow> (sexpr_error, node \<times> string list) result"
  and parse_items :: "string list \<Rightarrow> (sexpr_error, node list \<times> string list) result"
where
  "parse_node [] = Inl UnexpectedEnd"
| "parse_node (t # ts) =
     (if t = [lpar] then
        (case parse_items ts of
           Inl e \<Rightarrow> Inl e
         | Inr (items, []) \<Rightarrow> Inl MissingClose
         | Inr (items, _ # rest) \<Rightarrow> Inr (Lst items, rest))
      else if t = [rpar] then Inl UnexpectedClose
      else if starts_with t [dquote] then Inr (QStr (unescape t), ts)
      else Inr (Atom t, ts))"
| "parse_items [] = Inr ([], [])"
| "parse_items (t # ts) =
     (if t = [rpar] then Inr ([], t # ts)
      else
        (case parse_node (t # ts) of
           Inl e \<Rightarrow> Inl e
         | Inr (x, rest) \<Rightarrow>
             (case parse_items rest of
                Inl e \<Rightarrow> Inl e
              | Inr (xs, rest') \<Rightarrow> Inr (x # xs, rest'))))"
  by pat_completeness auto

lemma parse_consumes:
  "parse_node_parse_items_dom (Inl ts) \<Longrightarrow>
     parse_node ts = Inr (x, rest) \<Longrightarrow> length rest < length ts"
  "parse_node_parse_items_dom (Inr us) \<Longrightarrow>
     parse_items us = Inr (xs, rest') \<Longrightarrow> length rest' \<le> length us"
proof (induction ts and us arbitrary: x rest and xs rest' rule: parse_node_parse_items.pinduct)
  case 1
  then show ?case by (simp add: parse_node.psimps)
next
  case (2 t ts)
  then show ?case
    by (fastforce simp: parse_node.psimps split: if_splits sum.splits list.splits prod.splits)
next
  case 3
  then show ?case by (simp add: parse_items.psimps)
next
  case (4 t ts)
  then show ?case
    by (fastforce simp: parse_items.psimps split: if_splits sum.splits prod.splits)
qed

termination parse_node
proof (relation "measures [\<lambda>x. case x of Inl ts \<Rightarrow> length ts | Inr ts \<Rightarrow> length ts,
    \<lambda>x. case x of Inl ts \<Rightarrow> 0 | Inr ts \<Rightarrow> 1]", goal_cases)
  case 1
  then show ?case by simp
next
  case (2 t ts)
  then show ?case by simp
next
  case (3 t ts)
  then show ?case by simp
next
  case (4 t ts p x rest)
  then show ?case using parse_consumes(1)[of "t # ts" x rest] by fastforce
qed

definition loads :: "string \<Rightarrow> (sexpr_error, node) result" where
  "loads text = rbind (tokenize 0 text) (\<lambda>tokens.
     if tokens = [] then Inl EmptyInput
     else rbind (parse_node tokens) (\<lambda>(result, rest).
       if rest \<noteq> [] then Inl TrailingData else Inr result))"

subsection \<open>Writer\<close>

fun is_list_node :: "node \<Rightarrow> bool" where
  "is_list_node (Lst _) = True"
| "is_list_node _ = False"

fun dump_node :: "node \<Rightarrow> nat \<Rightarrow> bool \<Rightarrow> string" where
  "dump_node (Atom v) indent pretty = v"
| "dump_node (QStr s) indent pretty = dquote # escape s @ [dquote]"
| "dump_node (Lst []) indent pretty = [lpar, rpar]"
| "dump_node (Lst (first # children)) indent pretty =
     (if \<not> (is_list_node first \<or> list_ex is_list_node children) \<or> \<not> pretty then
        lpar # py_join [blank]
                 (dump_node first 0 False # map (\<lambda>c. dump_node c 0 False) children) @ [rpar]
      else
        lpar # dump_node first 0 False
          @ concat (map (\<lambda>c. newline # replicate (indent + 1) tab @ dump_node c (indent + 1) True)
                      children)
          @ newline # replicate indent tab @ [rpar])"

definition dumps :: "node \<Rightarrow> bool \<Rightarrow> string" where
  "dumps n pretty =
     (let text = dump_node n 0 pretty
      in if pretty \<and> \<not> ends_with text [newline] then text @ [newline] else text)"

subsection \<open>Tag queries\<close>

fun tag_of :: "node \<Rightarrow> string option" where
  "tag_of (Lst (Atom v # _)) = Some v"
| "tag_of _ = None"

fun find_all :: "node \<Rightarrow> string \<Rightarrow> node list" where
  "find_all (Lst cs) tag = filter (\<lambda>c. is_list_node c \<and> tag_of c = Some tag) cs"
| "find_all _ tag = []"

definition find_first :: "node \<Rightarrow> string \<Rightarrow> node option" where
  "find_first n tag = (case find_all n tag of [] \<Rightarrow> None | c # _ \<Rightarrow> Some c)"

subsection \<open>Tokens of written text\<close>

definition wf_atom :: "string \<Rightarrow> bool" where
  "wf_atom v = (v \<noteq> [] \<and> list_all bare_char v)"

fun wf_node :: "node \<Rightarrow> bool" where
  "wf_node (Atom v) = wf_atom v"
| "wf_node (QStr s) = True"
| "wf_node (Lst xs) = list_all wf_node xs"

fun node_tokens :: "node \<Rightarrow> string list" where
  "node_tokens (Atom v) = [v]"
| "node_tokens (QStr s) = [dquote # escape s @ [dquote]]"
| "node_tokens (Lst xs) = [lpar] # concat (map node_tokens xs) @ [[rpar]]"

definition delimited :: "string \<Rightarrow> bool" where
  "delimited s = (s = [] \<or> \<not> bare_char (hd s))"

definition tokenizes_as :: "string \<Rightarrow> string list \<Rightarrow> bool" where
  "tokenizes_as s tk = (\<forall>i rest. delimited rest \<longrightarrow>
     tokenize i (s @ rest) = rbind (tokenize (i + length s) rest) (\<lambda>ts. Inr (tk @ ts)))"

lemma scan_string_escape:
  "scan_string (escape s @ dquote # rest) = Some (escape s @ [dquote], rest)"
proof (induction s)
  case Nil
  then show ?case by (cases rest) (auto simp: escape_def)
next
  case (Cons c s)
  obtain d ds where e: "escape s @ dquote # rest = d # ds"
    by (cases "escape s @ dquote # rest") auto
  have "escape (c # s) = escape_char c @ escape s" by (simp add: escape_def)
  moreover have "c \<noteq> bslash \<Longrightarrow> c \<noteq> dquote \<Longrightarrow>
      scan_string (c # escape s @ dquote # rest) = Some (c # escape s @ [dquote], rest)"
    unfolding e using Cons.IH[unfolded e] by simp
  ultimately show ?case
    using Cons.IH by (simp add: escape_char_def)
qed

lemma unescape_escape [simp]: "unescape (dquote # escape s @ [dquote]) = s"
proof -
  have "unescape_inner (escape s) = s"
  proof (induction s)
    case Nil
    then show ?case by (simp add: escape_def)
  next
    case (Cons c s)
    have "escape (c # s) = escape_char c @ escape s" by (simp add: escape_def)
    moreover have "c \<noteq> bslash \<Longrightarrow> unescape_inner (c # escape s) = c # s"
      using Cons.IH by (cases "escape s") auto
    ultimately show ?case using Cons.IH by (simp add: escape_char_def)
  qed
  then show ?thesis by (simp add: unescape_def butlast_append)
qed

lemma tokenize_spaces:
  "list_all sx_space ws \<Longrightarrow> tokenize i (ws @ s) = tokenize (i + length ws) s"
  by (induction ws arbitrary: i) auto

lemma not_bare [simp]:
  "\<not> bare_char lpar" "\<not> bare_char rpar" "\<not> bare_char dquote"
  "\<not> bare_char newline" "\<not> bare_char tab" "\<not> bare_char blank"
  by (auto simp: bare_char_def sx_space_def)

lemma space_chars [simp]:
  "sx_space newline" "sx_space tab" "sx_space blank"
  "\<not> sx_space lpar" "\<not> sx_space rpar" "\<not> sx_space dquote"
  by (auto simp: sx_space_def)

lemma tokenizes_as_spaces:
  "list_all sx_space ws \<Longrightarrow> tokenizes_as s tk \<Longrightarrow> tokenizes_as (ws @ s) tk"
  by (auto simp: tokenizes_as_def tokenize_spaces add.assoc)

lemma tokenizes_as_spaces_only: "list_all sx_space ws \<Longrightarrow> tokenizes_as ws []"
  by (auto simp: tokenizes_as_def tokenize_spaces)

lemma tokenizes_as_append:
  "tokenizes_as s a \<Longrightarrow> tokenizes_as s' b \<Longrightarrow> s' \<noteq> [] \<Longrightarrow> \<not> bare_char (hd s') \<Longrightarrow>
   tokenizes_as (s @ s') (a @ b)"
  by (auto simp: tokenizes_as_def delimited_def rbind_assoc add.assoc)

lemma tokenizes_as_open: "tokenizes_as s a \<Longrightarrow> tokenizes_as (lpar # s) ([lpar] # a)"
  by (auto simp: tokenizes_as_def rbind_assoc)

lemma tokenizes_as_close: "tokenizes_as [rpar] [[rpar]]"
  by (auto simp: tokenizes_as_def)

lemma tokenizes_as_quoted: "tokenizes_as (dquote # escape s @ [dquote]) [dquote # escape s @ [dquote]]"
  by (auto simp: tokenizes_as_def scan_string_escape)

lemma tokenizes_as_atom:
  assumes "wf_atom v"
  shows "tokenizes_as v [v]"
  unfolding tokenizes_as_def
proof (intro allI impI)
  fix i rest
  assume d: "delimited rest"
  from assms obtain c cs where v: "v = c # cs" and b: "bare_char c" "list_all bare_char cs"
    by (cases v) (auto simp: wf_atom_def)
  have nd: "dropWhile bare_char rest = rest" "takeWhile bare_char rest = []"
    using d by (cases rest; simp add: delimited_def)+
  have "takeWhile bare_char (cs @ rest) = cs" "dropWhile bare_char (cs @ rest) = rest"
    using b(2) nd by (auto simp: list_all_iff takeWhile_append dropWhile_append)
  then show "tokenize i (v @ rest) = rbind (tokenize (i + length v) rest) (\<lambda>ts. Inr ([v] @ ts))"
    using b(1) v by (simp add: bare_char_def)
qed

lemma tokenizes_as_join:
  assumes "xs \<noteq> []" and "\<And>x. x \<in> set xs \<Longrightarrow> tokenizes_as (f x) (tk x)"
  shows "tokenizes_as (py_join [blank] (map f xs)) (concat (map tk xs))"
  using assms
proof (induction xs rule: induct_list012)
  case (3 x y zs)
  have "tokenizes_as ([blank] @ py_join [blank] (map f (y # zs))) (concat (map tk (y # zs)))"
    by (rule tokenizes_as_spaces) (use 3 in auto)
  from tokenizes_as_append[OF "3.prems"(2)[of x] this] show ?case by simp
qed auto

lemma tokenizes_as_lines:
  assumes "\<And>x. x \<in> set xs \<Longrightarrow> tokenizes_as (f x) (tk x)"
  shows "tokenizes_as (concat (map (\<lambda>c. newline # replicate n tab @ f c) xs)
      @ newline # replicate m tab @ [rpar]) (concat (map tk xs) @ [[rpar]])"
  using assms
proof (induction xs)
  case Nil
  have "tokenizes_as ((newline # replicate m tab) @ [rpar]) [[rpar]]"
    by (rule tokenizes_as_spaces) (simp_all add: tokenizes_as_close)
  then show ?case by simp
next
  case (Cons x xs)
  let ?r = "concat (map (\<lambda>c. newline # replicate n tab @ f c) xs)
      @ newline # replicate m tab @ [rpar]"
  have hd: "?r \<noteq> [] \<and> \<not> bare_char (hd ?r)" by (cases xs) auto
  have "tokenizes_as (f x @ ?r) (tk x @ (concat (map tk xs) @ [[rpar]]))"
    by (rule tokenizes_as_append) (use Cons hd in auto)
  then have "tokenizes_as ((newline # replicate n tab) @ f x @ ?r)
      (tk x @ (concat (map tk xs) @ [[rpar]]))"
    by (rule tokenizes_as_spaces[rotated]) simp
  then show ?case by simp
qed

text \<open>The written text of a well-formed tree has exactly the tree's tokens, whatever the layout.\<close>

lemma dump_node_tokens: "wf_node n \<Longrightarrow> tokenizes_as (dump_node n indent pretty) (node_tokens n)"
proof (induction n indent pretty rule: dump_node.induct)
  case (1 v indent pretty)
  then show ?case by (simp add: tokenizes_as_atom)
next
  case (2 s indent pretty)
  then show ?case using tokenizes_as_quoted[of s] by simp
next
  case (3 indent pretty)
  then show ?case using tokenizes_as_open[OF tokenizes_as_close] by simp
next
  case (4 first children indent pretty)
  let ?flat = "\<not> (is_list_node first \<or> list_ex is_list_node children) \<or> \<not> pretty"
  show ?case
  proof (cases ?flat)
    case True
    have f: "tokenizes_as (dump_node x 0 False) (node_tokens x)" if "x \<in> set (first # children)" for x
      using that 4 True by (auto simp: list_all_iff)
    have "tokenizes_as (py_join [blank] (map (\<lambda>c. dump_node c 0 False) (first # children)))
        (concat (map node_tokens (first # children)))"
      by (rule tokenizes_as_join) (use f in auto)
    from tokenizes_as_open[OF tokenizes_as_append[OF this tokenizes_as_close]]
    show ?thesis using True by simp
  next
    case False
    have f: "tokenizes_as (dump_node first 0 False) (node_tokens first)"
      using 4 False by auto
    have c: "tokenizes_as (dump_node x (indent + 1) True) (node_tokens x)" if "x \<in> set children" for x
      using that 4 False by (auto simp: list_all_iff)
    let ?r = "concat (map (\<lambda>c. newline # replicate (indent + 1) tab @ dump_node c (indent + 1) True)
        children) @ newline # replicate indent tab @ [rpar]"
    have hd: "?r \<noteq> [] \<and> \<not> bare_char (hd ?r)" by (cases children) auto
    have r: "tokenizes_as ?r (concat (map node_tokens children) @ [[rpar]])"
      by (rule tokenizes_as_lines) (rule c)
    have "tokenizes_as (lpar # dump_node first 0 False @ ?r)
        ([lpar] # node_tokens first @ (concat (map node_tokens children) @ [[rpar]]))"
      by (intro tokenizes_as_open tokenizes_as_append f r) (use hd in auto)
    then show ?thesis using False by simp
  qed
qed

lemma dumps_tokens: "wf_node n \<Longrightarrow> tokenize 0 (dumps n pretty) = Inr (node_tokens n)"
proof -
  assume "wf_node n"
  from dump_node_tokens[OF this, of 0 pretty]
  have t: "delimited rest \<Longrightarrow> tokenize 0 (dump_node n 0 pretty @ rest) =
      rbind (tokenize (length (dump_node n 0 pretty)) rest) (\<lambda>ts. Inr (node_tokens n @ ts))" for rest
    by (simp add: tokenizes_as_def)
  show ?thesis
    using t[of "[]"] t[of "[newline]"]
    by (cases pretty) (simp_all add: dumps_def Let_def delimited_def)
qed

subsection \<open>Parsing the tokens of a tree\<close>

lemma node_tokens_first:
  "wf_node n \<Longrightarrow> \<exists>t ts. node_tokens n = t # ts \<and> t \<noteq> [rpar]"
  by (cases n) (auto simp: wf_atom_def)

lemma parse_node_tokens:
  "wf_node n \<Longrightarrow> parse_node (node_tokens n @ rest) = Inr (n, rest)"
proof (induction n arbitrary: rest)
  case (QStr s)
  then show ?case by (simp add: starts_with_def)
next
  case (Atom v)
  then obtain c cs where "v = c # cs" "bare_char c"
    by (cases v) (auto simp: wf_atom_def)
  then show ?case by (auto simp: starts_with_def)
next
  case (Lst xs)
  have items: "parse_items (concat (map node_tokens ys) @ [rpar] # rest) = Inr (ys, [rpar] # rest)"
    if "set ys \<subseteq> set xs" for ys
    using that
  proof (induction ys)
    case Nil
    then show ?case by simp
  next
    case (Cons y ys)
    then have wy: "wf_node y" "y \<in> set xs" using Lst.prems by (auto simp: list_all_iff)
    from node_tokens_first[OF wy(1)] obtain t ts
      where tt: "node_tokens y = t # ts" "t \<noteq> [rpar]" by auto
    from Lst.IH[OF wy(2,1), of "concat (map node_tokens ys) @ [rpar] # rest"] Cons
    show ?case using tt by simp
  qed
  show ?case using items[of xs] by simp
qed

subsection \<open>Trees the parser returns are well-formed\<close>

definition wf_token :: "string \<Rightarrow> bool" where
  "wf_token t = (t = [lpar] \<or> t = [rpar] \<or> starts_with t [dquote] \<or> wf_atom t)"

lemma tokenize_wf: "tokenize i s = Inr ts \<Longrightarrow> list_all wf_token ts"
proof (induction i s arbitrary: ts rule: tokenize.induct)
  case (1 i)
  then show ?case by simp
next
  case (2 i c cs)
  note IH = "2.IH" and eq = "2.prems"
  consider (space) "sx_space c" | (paren) "\<not> sx_space c" "c = lpar \<or> c = rpar"
    | (str) "\<not> sx_space c" "c = dquote"
    | (bare) "\<not> sx_space c" "c \<noteq> lpar \<and> c \<noteq> rpar" "c \<noteq> dquote"
    by blast
  then show ?case
  proof cases
    case space
    then show ?thesis using IH(1) eq by simp
  next
    case paren
    then obtain us where "tokenize (Suc i) cs = Inr us" "ts = [c] # us"
      using eq by (auto simp: result_simps)
    then show ?thesis using IH(2)[OF paren] paren(2) by (auto simp: wf_token_def)
  next
    case str
    then obtain b r us where r: "scan_string cs = Some (b, r)"
      "tokenize (i + 1 + length b) r = Inr us" "ts = (dquote # b) # us"
      using eq by (auto simp: result_simps split: option.splits)
    then show ?thesis using IH(3)[OF str(1) _ str(2) r(1) refl, of us] str
      by (simp add: wf_token_def starts_with_def)
  next
    case bare
    let ?w = "takeWhile bare_char (c # cs)" and ?r = "dropWhile bare_char (c # cs)"
    have w: "wf_atom ?w"
      using bare by (auto simp: wf_atom_def bare_char_def list_all_iff dest: set_takeWhileD)
    obtain us where u: "tokenize (i + length ?w) ?r = Inr us" "ts = ?w # us"
      using eq bare by (auto simp: result_simps Let_def simp del: takeWhile.simps dropWhile.simps)
    have "list_all wf_token us"
      by (rule IH(4)[OF bare(1) _ bare(3) refl refl u(1)]) (use bare in auto)
    moreover have "wf_token ?w" using w by (simp add: wf_token_def del: takeWhile.simps)
    ultimately show ?thesis using u(2) by simp
  qed
qed

lemma parse_wf:
  "list_all wf_token ts \<longrightarrow> parse_node ts = Inr (x, rest) \<longrightarrow>
     wf_node x \<and> list_all wf_token rest"
  "list_all wf_token us \<longrightarrow> parse_items us = Inr (xs, rest') \<longrightarrow>
     list_all wf_node xs \<and> list_all wf_token rest'"
proof (induction ts and us arbitrary: x rest and xs rest' rule: parse_node_parse_items.induct)
  case (2 t ts)
  show ?case
  proof (cases "t = [lpar]")
    case True
    show ?thesis
    proof (intro impI)
      assume wf: "list_all wf_token (t # ts)" and eq: "parse_node (t # ts) = Inr (x, rest)"
      then obtain items c where i: "parse_items ts = Inr (items, c # rest)" "x = Lst items"
        using True by (auto split: sum.splits list.splits)
      then show "wf_node x \<and> list_all wf_token rest"
        using 2[OF True, of items "c # rest"] wf by simp
    qed
  next
    case False
    then show ?thesis by (auto simp: wf_token_def)
  qed
next
  case (4 t ts)
  show ?case
  proof (intro impI)
    assume wf: "list_all wf_token (t # ts)" and eq: "parse_items (t # ts) = Inr (xs, rest')"
    show "list_all wf_node xs \<and> list_all wf_token rest'"
    proof (cases "t = [rpar]")
      case True
      then show ?thesis using wf eq by auto
    next
      case False
      then obtain y r ys where y: "parse_node (t # ts) = Inr (y, r)"
        "parse_items r = Inr (ys, rest')" "xs = y # ys"
        using eq by (auto simp del: parse_node.simps split: sum.splits)
      have "wf_node y \<and> list_all wf_token r" using "4.IH"(1)[OF False, of y r] wf y(1) by blast
      moreover have "list_all wf_node ys \<and> list_all wf_token rest'"
        using "4.IH"(2)[OF False y(1) refl, of ys rest'] calculation y(2) by blast
      ultimately show ?thesis using y(3) by simp
    qed
  qed
qed auto

lemma loads_wf: "loads text = Inr n \<Longrightarrow> wf_node n"
  by (auto simp: loads_def result_simps split: if_splits dest!: tokenize_wf parse_wf(1)[rule_format, rotated])

lemma loads_dumps: "wf_node n \<Longrightarrow> loads (dumps n pretty) = Inr n"
  using parse_node_tokens[of n "[]"] node_tokens_first[of n]
  by (auto simp: loads_def dumps_tokens)

interpretation sx: codec "\<lambda>n. dumps n pretty" loads wf_node for pretty
  by unfold_locales (auto intro: loads_wf loads_dumps)

subsection \<open>Properties\<close>

text \<open>
  A board, schematic or session tree that the reader accepts is written, in either
  layout, as a text that is read back as the same tree, so a load/save cycle of an
  untouched file loses nothing; and two accepted trees with the same text are equal.
\<close>

theorem sexpr_rewrite_stable:
  assumes "loads text = Inr n"
  shows "loads (dumps n pretty) = Inr n \<and>
    (\<forall>text' m. loads text' = Inr m \<longrightarrow> dumps m pretty = dumps n pretty \<longrightarrow> m = n)"
  using sx.rewrite_stable[OF assms] sx.encode_inj sx.decode_wf assms by metis

theorem sexpr_rewrite_stable_witness:
  "loads ''(a  (b 1.50) )'' = Inr (Lst [Atom ''a'', Lst [Atom ''b'', Atom ''1.50'']]) \<and>
   loads (dumps (Lst [Atom ''a'', Lst [Atom ''b'', Atom ''1.50'']]) True) =
     Inr (Lst [Atom ''a'', Lst [Atom ''b'', Atom ''1.50'']])"
proof -
  have "loads ''(a  (b 1.50) )'' = Inr (Lst [Atom ''a'', Lst [Atom ''b'', Atom ''1.50'']])" by code_simp
  then show ?thesis using sexpr_rewrite_stable by blast
qed

text \<open>
  C20: a tree built in memory whose bare atoms are tokens (the parts the generators
  assemble from \<^verbatim>\<open>Atom\<close>, quoted strings with any characters, and lists) is what the
  reader returns from its written text, compact or pretty.
\<close>

theorem sexpr_roundtrip:
  assumes "wf_node n"
  shows "loads (dumps n pretty) = Inr n"
  by (rule sx.round_trip[OF assms])

theorem sexpr_roundtrip_witness:
  "loads (dumps (Lst [Atom ''net'', Atom ''3'', QStr [CHR 0x22, CHR ''('', CHR 0x5C, CHR 0x0A]]) False)
     = Inr (Lst [Atom ''net'', Atom ''3'', QStr [CHR 0x22, CHR ''('', CHR 0x5C, CHR 0x0A]])"
proof -
  have "wf_node (Lst [Atom ''net'', Atom ''3'', QStr [CHR 0x22, CHR ''('', CHR 0x5C, CHR 0x0A]])" by code_simp
  then show ?thesis by (rule sexpr_roundtrip)
qed

end
