(* ===== verification/Connectivity.thy ===== *)
theory Connectivity
  imports Prelude Complex_Main "HOL-Library.List_Lexorder" "HOL-Library.Char_ord"
begin

text \<open>
  Schematic connectivity, \<^verbatim>\<open>src/src/ratsnestpro/eda/vendor/connectivity.py\<close>: the
  union-find with path compression (\<^verbatim>\<open>UnionFind\<close>), the graph built from wires, labels
  and pins (\<^verbatim>\<open>SchematicGraph\<close>) and its queries. The parent dictionary is the state and
  is passed explicitly; the two loops of \<^verbatim>\<open>find\<close> may run forever on a cyclic dictionary,
  so they return an option. The locale \<open>union_find\<close> is what the graph relies on; it is
  interpreted on the code's own dictionary. Coordinates are exact rationals.
\<close>

subsection \<open>Union-find\<close>

partial_function (option) find_root :: "('k, 'k) dict \<Rightarrow> 'k \<Rightarrow> 'k option" where
  [code]: "find_root p rt =
     (case dget p rt of
        None \<Rightarrow> None
      | Some r \<Rightarrow> if r = rt then Some rt else find_root p r)"

partial_function (option) compress :: "'k \<Rightarrow> ('k, 'k) dict \<Rightarrow> 'k \<Rightarrow> ('k, 'k) dict option" where
  [code]: "compress rt p a =
     (case dget p a of
        None \<Rightarrow> None
      | Some q \<Rightarrow> if q = rt then Some p else compress rt (dset a rt p) q)"

definition uf_find :: "'k \<Rightarrow> ('k, 'k) dict \<Rightarrow> ('k \<times> ('k, 'k) dict) option" where
  "uf_find a p =
     (let p0 = dsetdefault a a p in
      case find_root p0 a of
        None \<Rightarrow> None
      | Some rt \<Rightarrow> map_option (\<lambda>p'. (rt, p')) (compress rt p0 a))"

definition uf_union :: "'k \<Rightarrow> 'k \<Rightarrow> ('k, 'k) dict \<Rightarrow> ('k, 'k) dict option" where
  "uf_union a b p =
     (case uf_find a p of
        None \<Rightarrow> None
      | Some (ra, p1) \<Rightarrow>
          (case uf_find b p1 of
             None \<Rightarrow> None
           | Some (rb, p2) \<Rightarrow> Some (if ra \<noteq> rb then dset ra rb p2 else p2)))"

text \<open>\<open>reaches p k r\<close>: following parents from \<open>k\<close> ends in the root \<open>r\<close>.\<close>

inductive reaches :: "('k \<rightharpoonup> 'k) \<Rightarrow> 'k \<Rightarrow> 'k \<Rightarrow> bool" for p where
  base: "p k = Some k \<Longrightarrow> reaches p k k"
| up: "p k = Some j \<Longrightarrow> j \<noteq> k \<Longrightarrow> reaches p j r \<Longrightarrow> reaches p k r"

inductive_cases reachesE: "reaches p k r"

definition uf_wf :: "('k, 'k) dict \<Rightarrow> bool" where
  "uf_wf p = (\<forall>k \<in> dom (dget p). \<exists>r. reaches (dget p) k r)"

definition uf_same :: "('k, 'k) dict \<Rightarrow> 'k \<Rightarrow> 'k \<Rightarrow> bool" where
  "uf_same p x y = (\<exists>r. reaches (dget p) x r \<and> reaches (dget p) y r)"

lemma reaches_root: "reaches p k r \<Longrightarrow> p r = Some r"
  by (induction rule: reaches.induct) auto

lemma reaches_dom: "reaches p k r \<Longrightarrow> k \<in> dom p"
  by (auto elim: reachesE)

lemma reaches_unique: "reaches p k r \<Longrightarrow> reaches p k s \<Longrightarrow> r = s"
proof (induction arbitrary: s rule: reaches.induct)
  case (base k)
  from base.prems show ?case by cases (use base.hyps in auto)
next
  case (up k j r)
  from up.prems show ?case
  proof cases
    case base
    then show ?thesis using up.hyps(1,2) by simp
  next
    case (up i)
    then show ?thesis using up.IH \<open>p k = Some j\<close> by simp
  qed
qed

lemma find_root_reaches: "reaches (dget p) k r \<Longrightarrow> find_root p k = Some r"
  by (induction rule: reaches.induct) (auto simp: find_root.simps)

text \<open>Compression only replaces a parent by the root its node already reaches.\<close>

definition compressed :: "'k \<Rightarrow> ('k, 'k) dict \<Rightarrow> ('k, 'k) dict \<Rightarrow> bool" where
  "compressed rt p q = (dkeys q = dkeys p \<and>
     (\<forall>x. dget q x = dget p x \<or> dget q x = Some rt \<and> reaches (dget p) x rt))"

lemma compressed_refl: "compressed rt p p"
  by (simp add: compressed_def)

lemma compressed_step:
  "compressed rt p q \<Longrightarrow> reaches (dget p) a rt \<Longrightarrow> compressed rt p (dset a rt q)"
proof -
  assume c: "compressed rt p q" and r: "reaches (dget p) a rt"
  have "a \<in> set (dkeys q)"
    using c reaches_dom[OF r] by (simp add: compressed_def set_dkeys)
  then show ?thesis
    using c r by (simp add: compressed_def dkeys_dset dget_dset set_dkeys)
qed

lemma compress_compressed:
  "reaches (dget p) a rt \<Longrightarrow> compressed rt p q \<Longrightarrow>
   \<exists>q'. compress rt q a = Some q' \<and> compressed rt p q'"
proof (induction arbitrary: q rule: reaches.induct)
  case (base k)
  then have "dget q k = Some k" unfolding compressed_def by metis
  then show ?case using base by (auto simp: compress.simps)
next
  case (up k j r)
  have rk: "reaches (dget p) k r" using up(1-3) by (rule reaches.up)
  show ?case
  proof (cases "dget q k = Some r")
    case True
    then show ?thesis using up.prems by (auto simp: compress.simps)
  next
    case False
    then have "dget q k = Some j" using up unfolding compressed_def by metis
    moreover have "j \<noteq> r" using False calculation by auto
    ultimately show ?thesis
      using up.IH[OF compressed_step[OF up.prems rk]] by (simp add: compress.simps[of r q k])
  qed
qed

lemma compressed_reaches:
  assumes c: "compressed rt p q"
  shows "reaches (dget p) x r \<Longrightarrow> reaches (dget q) x r"
proof (induction rule: reaches.induct)
  case (base k)
  then have "dget q k = Some k"
    using c reaches_unique[OF reaches.base[of "dget p" k]] unfolding compressed_def by metis
  then show ?case by (rule reaches.base)
next
  case (up k j r)
  have rr: "dget p r = Some r" using up.hyps(3) by (rule reaches_root)
  have rk: "reaches (dget p) k r" using up.hyps by (rule reaches.up)
  consider "dget q k = Some j" | "dget q k = Some rt" "reaches (dget p) k rt"
    using c up.hyps(1) unfolding compressed_def by metis
  then show ?case
  proof cases
    case 1
    then show ?thesis using up.hyps(2) up.IH by (rule reaches.up)
  next
    case 2
    then have "r = rt" using rk reaches_unique by metis
    moreover have "dget q rt = Some rt"
      using c rr calculation reaches_unique[OF reaches.base[of "dget p" r]]
      unfolding compressed_def by metis
    ultimately show ?thesis
      using 2 by (metis reaches.base reaches.up)
  qed
qed

lemma compressed_reaches_iff:
  assumes "compressed rt p q" and "uf_wf p"
  shows "reaches (dget q) x r \<longleftrightarrow> reaches (dget p) x r"
proof
  assume q: "reaches (dget q) x r"
  then have "x \<in> dom (dget q)" by (rule reaches_dom)
  then have "x \<in> dom (dget p)" using assms(1) by (metis compressed_def set_dkeys)
  then obtain s where "reaches (dget p) x s" using assms(2) by (auto simp: uf_wf_def)
  then show "reaches (dget p) x r"
    using compressed_reaches[OF assms(1)] q reaches_unique by metis
qed (rule compressed_reaches[OF assms(1)])

text \<open>Adding a fresh key as its own root.\<close>

lemma reaches_setdefault:
  assumes "uf_wf p"
  shows "reaches (dget (dsetdefault a a p)) x r \<longleftrightarrow>
    reaches (dget p) x r \<or> (a \<notin> dom (dget p) \<and> x = a \<and> r = a)"
proof (cases "a \<in> dom (dget p)")
  case True
  then show ?thesis by (simp add: dget_dsetdefault)
next
  case False
  let ?q = "(dget p)(a \<mapsto> a)"
  have fwd: "reaches (dget p) y s \<Longrightarrow> reaches ?q y s" for y s
  proof (induction rule: reaches.induct)
    case (base k)
    then show ?case using False by (intro reaches.base) auto
  next
    case (up k j r)
    then have "?q k = Some j" using False by auto
    then show ?case using up.hyps(2) up.IH by (rule reaches.up)
  qed
  have "reaches ?q x r \<Longrightarrow> x \<noteq> a \<Longrightarrow> reaches (dget p) x r"
  proof -
    assume q: "reaches ?q x r" and "x \<noteq> a"
    then have "x \<in> dom (dget p)" using reaches_dom[OF q] by auto
    then obtain s where s: "reaches (dget p) x s" using assms by (auto simp: uf_wf_def)
    then show ?thesis using fwd[OF s] q reaches_unique by metis
  qed
  moreover have "reaches ?q a r \<longleftrightarrow> r = a"
    using reaches_unique[of ?q a r a] reaches.base[of ?q a] by auto
  ultimately show ?thesis
    using False fwd reaches_dom[of "dget p" x r] by (cases "x = a") (auto simp: dget_dsetdefault)
qed

lemma uf_wf_setdefault: "uf_wf p \<Longrightarrow> uf_wf (dsetdefault a a p)"
proof -
  assume wf: "uf_wf p"
  have "\<exists>r. reaches (dget (dsetdefault a a p)) k r"
    if "k \<in> dom (dget (dsetdefault a a p))" for k
  proof (cases "k \<in> dom (dget p)")
    case True
    then show ?thesis using wf reaches_setdefault[OF wf, of a k] unfolding uf_wf_def by blast
  next
    case False
    then have "k = a" using that by (auto simp: dget_dsetdefault split: if_splits)
    then show ?thesis using False reaches_setdefault[OF wf, of a k a] by blast
  qed
  then show ?thesis unfolding uf_wf_def by blast
qed

lemma uf_find_spec:
  assumes "uf_wf p"
  obtains r q where "uf_find a p = Some (r, q)" "uf_wf q" "reaches (dget q) a r"
    "dom (dget q) = insert a (dom (dget p))"
    "\<And>x s. reaches (dget q) x s \<longleftrightarrow>
       reaches (dget p) x s \<or> (a \<notin> dom (dget p) \<and> x = a \<and> s = a)"
    "dkeys q = dkeys (dsetdefault a a p)"
proof -
  let ?p0 = "dsetdefault a a p"
  have wf0: "uf_wf ?p0" using assms by (rule uf_wf_setdefault)
  have d0: "dom (dget ?p0) = insert a (dom (dget p))" by (auto simp: dget_dsetdefault)
  then obtain r where r: "reaches (dget ?p0) a r" using wf0 by (auto simp: uf_wf_def)
  from compress_compressed[OF r compressed_refl] obtain q
    where q: "compress r ?p0 a = Some q" "compressed r ?p0 q" by auto
  have re: "reaches (dget q) x s \<longleftrightarrow> reaches (dget ?p0) x s" for x s
    using compressed_reaches_iff[OF q(2) wf0] .
  have dq: "dom (dget q) = insert a (dom (dget p))"
    using q(2) d0 by (metis compressed_def set_dkeys)
  have kq: "dkeys q = dkeys ?p0" using q(2) by (simp add: compressed_def)
  show thesis
  proof (rule that[of r q])
    show "uf_find a p = Some (r, q)"
      using find_root_reaches[OF r] q(1) by (simp add: uf_find_def Let_def)
    show "uf_wf q" using wf0 dq d0 by (simp add: uf_wf_def re)
    show "reaches (dget q) a r" using r re by simp
    show "\<And>x s. reaches (dget q) x s \<longleftrightarrow>
       reaches (dget p) x s \<or> (a \<notin> dom (dget p) \<and> x = a \<and> s = a)"
      using re reaches_setdefault[OF assms] by simp
  qed (use dq kq in auto)
qed

subsection \<open>The interface the graph uses\<close>

abbreviation conn :: "('k \<times> 'k) set \<Rightarrow> ('k \<times> 'k) set" where
  "conn R \<equiv> (R \<union> R\<inverse>)\<^sup>*"

lemma conn_sym: "(x, y) \<in> conn R \<Longrightarrow> (y, x) \<in> conn R"
proof -
  assume "(x, y) \<in> conn R"
  then have "(y, x) \<in> ((R \<union> R\<inverse>)\<inverse>)\<^sup>*" by (simp add: rtrancl_converse)
  then show ?thesis by (simp add: converse_Un Un_commute)
qed

lemma conn_insert:
  "(x, y) \<in> conn (insert (a, b) R) \<longleftrightarrow>
     (x, y) \<in> conn R \<or> (x, a) \<in> conn R \<and> (b, y) \<in> conn R
       \<or> (x, b) \<in> conn R \<and> (a, y) \<in> conn R" (is "?l \<longleftrightarrow> ?r x y")
proof
  assume ?l
  then show "?r x y"
  proof (induction rule: rtrancl_induct)
    case base
    then show ?case by simp
  next
    case (step y z)
    have sym: "(u, v) \<in> conn R \<Longrightarrow> (v, u) \<in> conn R" for u v by (rule conn_sym)
    have tr: "(u, v) \<in> conn R \<Longrightarrow> (v, w) \<in> conn R \<Longrightarrow> (u, w) \<in> conn R" for u v w
      by (rule rtrancl_trans)
    from step.hyps(2) consider "(y, z) \<in> conn R" | "y = a" "z = b" | "y = b" "z = a" by auto
    then show ?case
    proof cases
      case 1
      then show ?thesis using step.IH tr by blast
    next
      case 2
      then show ?thesis using step.IH sym tr by blast
    next
      case 3
      then show ?thesis using step.IH sym tr by blast
    qed
  qed
next
  assume r: "?r x y"
  have m: "(u, v) \<in> conn R \<Longrightarrow> (u, v) \<in> conn (insert (a, b) R)" for u v
    by (rule rtrancl_mono[THEN subsetD]) auto
  have "(a, b) \<in> conn (insert (a, b) R)" "(b, a) \<in> conn (insert (a, b) R)" by auto
  with r m show ?l by (meson rtrancl_trans)
qed

lemma conn_outside: "R \<subseteq> A \<times> A \<Longrightarrow> x \<notin> A \<Longrightarrow> (x, y) \<in> conn R \<longleftrightarrow> x = y"
  by (auto elim: converse_rtranclE)

text \<open>
  The laws of a union-find store: \<open>find\<close> returns on every store, registers its node, and
  keeps the classes; roots agree exactly on connected nodes; \<open>union\<close> joins two classes.
\<close>

locale union_find =
  fixes find :: "'k \<Rightarrow> 's \<Rightarrow> ('k \<times> 's) option"
    and union :: "'k \<Rightarrow> 'k \<Rightarrow> 's \<Rightarrow> 's option"
    and nodes :: "'s \<Rightarrow> 'k set"
    and same :: "'s \<Rightarrow> 'k \<Rightarrow> 'k \<Rightarrow> bool"
    and ok :: "'s \<Rightarrow> bool"
  assumes find_total: "ok s \<Longrightarrow> \<exists>r t. find a s = Some (r, t)"
    and find_ok: "ok s \<Longrightarrow> find a s = Some (r, t) \<Longrightarrow> ok t"
    and find_nodes: "ok s \<Longrightarrow> find a s = Some (r, t) \<Longrightarrow> nodes t = insert a (nodes s)"
    and find_same: "ok s \<Longrightarrow> find a s = Some (r, t) \<Longrightarrow>
      same t x y \<longleftrightarrow> same s x y \<or> (a \<notin> nodes s \<and> x = a \<and> y = a)"
    and find_roots: "ok s \<Longrightarrow> x \<in> nodes s \<Longrightarrow> y \<in> nodes s \<Longrightarrow>
      find x s = Some (rx, t) \<Longrightarrow> find y s = Some (ry, u) \<Longrightarrow> rx = ry \<longleftrightarrow> same s x y"
    and union_total: "ok s \<Longrightarrow> \<exists>t. union a b s = Some t"
    and union_ok: "ok s \<Longrightarrow> union a b s = Some t \<Longrightarrow> ok t"
    and union_nodes: "ok s \<Longrightarrow> union a b s = Some t \<Longrightarrow> nodes t = {a, b} \<union> nodes s"
    and union_same: "ok s \<Longrightarrow> union a b s = Some t \<Longrightarrow> a \<in> nodes s \<Longrightarrow> b \<in> nodes s \<Longrightarrow>
      same t x y \<longleftrightarrow> same s x y \<or> same s x a \<and> same s b y \<or> same s x b \<and> same s a y"
    and union_registers: "ok s \<Longrightarrow> find a s = Some (r, t) \<Longrightarrow> find b t = Some (r', u) \<Longrightarrow>
      union a b s = Some v \<Longrightarrow> union a b u = Some w \<Longrightarrow> same v x y \<longleftrightarrow> same w x y"
    and same_nodes: "same s x y \<Longrightarrow> x \<in> nodes s \<and> y \<in> nodes s"
begin

definition represents :: "'s \<Rightarrow> ('k \<times> 'k) set \<Rightarrow> bool" where
  "represents s R = (ok s \<and> R \<subseteq> nodes s \<times> nodes s \<and>
     (\<forall>x \<in> nodes s. \<forall>y \<in> nodes s. same s x y \<longleftrightarrow> (x, y) \<in> conn R))"

lemma represents_find:
  assumes "represents s R" and "find a s = Some (r, t)"
  shows "represents t R"
proof -
  have ok: "ok s" and R: "R \<subseteq> nodes s \<times> nodes s"
    and eq: "\<And>x y. x \<in> nodes s \<Longrightarrow> y \<in> nodes s \<Longrightarrow> same s x y \<longleftrightarrow> (x, y) \<in> conn R"
    using assms(1) by (auto simp: represents_def)
  note nt = find_nodes[OF ok assms(2)] and st = find_same[OF ok assms(2)]
  have out: "a \<notin> nodes s \<Longrightarrow> (a, y) \<in> conn R \<longleftrightarrow> a = y" "a \<notin> nodes s \<Longrightarrow> (y, a) \<in> conn R \<longleftrightarrow> a = y"
    for y using conn_outside[OF R, of a y] conn_sym[of _ _ R] by blast+
  have "same t x y \<longleftrightarrow> (x, y) \<in> conn R" if "x \<in> nodes t" "y \<in> nodes t" for x y
    using that st[of x y] nt eq[of x y] out same_nodes[of s x y] by (cases "a \<in> nodes s") auto
  then show ?thesis using find_ok[OF ok assms(2)] R nt by (auto simp: represents_def)
qed

lemma represents_union:
  assumes rep: "represents s R" and u: "union a b s = Some v"
  shows "represents v (insert (a, b) R)"
proof -
  have ok: "ok s" using rep by (simp add: represents_def)
  obtain r t where t: "find a s = Some (r, t)" using find_total[OF ok] by blast
  have rt: "represents t R" using represents_find[OF rep t] .
  then have okt: "ok t" by (simp add: represents_def)
  obtain r' w where w: "find b t = Some (r', w)" using find_total[OF okt] by blast
  have rw: "represents w R" using represents_find[OF rt w] .
  then have okw: "ok w" and eq: "\<And>x y. x \<in> nodes w \<Longrightarrow> y \<in> nodes w \<Longrightarrow> same w x y \<longleftrightarrow> (x, y) \<in> conn R"
    by (auto simp: represents_def)
  obtain z where z: "union a b w = Some z" using union_total[OF okw] by blast
  have nw: "nodes w = insert b (insert a (nodes s))"
    using find_nodes[OF okt w] find_nodes[OF ok t] by simp
  have nv: "nodes v = nodes w" using union_nodes[OF ok u] nw by auto
  have "same v x y \<longleftrightarrow> (x, y) \<in> conn (insert (a, b) R)" if "x \<in> nodes v" "y \<in> nodes v" for x y
  proof -
    have m: "x \<in> nodes w" "y \<in> nodes w" "a \<in> nodes w" "b \<in> nodes w" using that nv nw by auto
    have "same v x y \<longleftrightarrow> same z x y" by (rule union_registers[OF ok t w u z])
    also have "\<dots> \<longleftrightarrow> same w x y \<or> same w x a \<and> same w b y \<or> same w x b \<and> same w a y"
      by (rule union_same[OF okw z m(3,4)])
    also have "\<dots> \<longleftrightarrow> (x, y) \<in> conn (insert (a, b) R)"
      unfolding conn_insert eq[OF m(1,2)] eq[OF m(1,3)] eq[OF m(4,2)] eq[OF m(1,4)] eq[OF m(3,2)] ..
    finally show ?thesis .
  qed
  moreover have "insert (a, b) R \<subseteq> nodes v \<times> nodes v"
    using rep unfolding nv nw represents_def by blast
  ultimately show ?thesis
    using union_ok[OF ok u] unfolding represents_def by blast
qed

lemma represents_unions:
  assumes "represents s R"
  shows "\<exists>t. ofold (\<lambda>(a, b). union a b) ps s = Some t \<and> represents t (set ps \<union> R)"
  using assms
proof (induction ps arbitrary: s R)
  case Nil
  then show ?case by simp
next
  case (Cons p ps)
  obtain a b where p: "p = (a, b)" by force
  have "ok s" using Cons.prems by (simp add: represents_def)
  then obtain v where v: "union a b s = Some v" using union_total by blast
  from Cons.IH[OF represents_union[OF Cons.prems v]] show ?case
    using v p by auto
qed

end

lemma uf_union_spec:
  assumes wf: "uf_wf p" and u: "uf_union a b p = Some t"
    and ab: "a \<in> dom (dget p)" "b \<in> dom (dget p)"
  shows "uf_wf t \<and> dom (dget t) = dom (dget p) \<and>
    (\<exists>ra rb. reaches (dget p) a ra \<and> reaches (dget p) b rb \<and>
      (\<forall>x s. reaches (dget t) x s \<longleftrightarrow>
        (\<exists>q. reaches (dget p) x q \<and> s = (if q = ra then rb else q))))"
proof -
  obtain ra p1 where p1: "uf_find a p = Some (ra, p1)" "uf_wf p1"
    "dom (dget p1) = dom (dget p)" "\<And>x s. reaches (dget p1) x s \<longleftrightarrow> reaches (dget p) x s"
    "reaches (dget p1) a ra"
    using uf_find_spec[OF wf, of a] ab(1) by (metis insert_absorb)
  obtain rb p2 where p2: "uf_find b p1 = Some (rb, p2)" "uf_wf p2"
    "dom (dget p2) = dom (dget p)" "\<And>x s. reaches (dget p2) x s \<longleftrightarrow> reaches (dget p) x s"
    "reaches (dget p2) b rb"
    using uf_find_spec[OF p1(2), of b] ab(2) p1(3,4) by (metis insert_absorb)
  have t: "t = (if ra \<noteq> rb then dset ra rb p2 else p2)"
    using u p1(1) p2(1) by (simp add: uf_union_def)
  have ra: "reaches (dget p) a ra" and rb: "reaches (dget p) b rb"
    using p1(4,5) p2(4,5) by auto
  have re: "reaches (dget t) x (if q = ra then rb else q)" if "reaches (dget p2) x q" for x q
  proof (cases "ra = rb")
    case True
    then show ?thesis using t that by simp
  next
    case ne: False
    have rb': "dget t rb = Some rb"
      using reaches_root[OF p2(5)] ne t by (simp add: dget_dset)
    from that show ?thesis
    proof (induction rule: reaches.induct)
      case (base k)
      have "reaches (dget t) rb rb" using rb' by (rule reaches.base)
      moreover have "dget t ra = Some rb" using ne t by (simp add: dget_dset)
      ultimately have "reaches (dget t) ra rb" using ne by (metis reaches.up)
      moreover have "k \<noteq> ra \<Longrightarrow> reaches (dget t) k k"
        using base ne t by (intro reaches.base) (simp add: dget_dset)
      ultimately show ?case by simp
    next
      case (up k j r)
      have "dget p2 ra = Some ra" using reaches_root[of "dget p2" a ra] p2(4) ra by simp
      then have "k \<noteq> ra" using up.hyps by auto
      then have "dget t k = Some j" using up.hyps(1) ne t by (simp add: dget_dset)
      then show ?case using up.hyps(2) up.IH by (rule reaches.up)
    qed
  qed
  have dt: "dom (dget t) = dom (dget p)"
    using t p2(3) reaches_dom[of "dget p2" ra ra] reaches_root[of "dget p2" a ra] p2(4) ra
    by (auto simp: dget_dset)
  have iff: "reaches (dget t) x s \<longleftrightarrow> (\<exists>q. reaches (dget p) x q \<and> s = (if q = ra then rb else q))" for x s
  proof
    assume s: "reaches (dget t) x s"
    then have "x \<in> dom (dget p2)" using reaches_dom dt p2(3) by metis
    then obtain q where "reaches (dget p2) x q" using p2(2) by (auto simp: uf_wf_def)
    then show "\<exists>q. reaches (dget p) x q \<and> s = (if q = ra then rb else q)"
      using re reaches_unique[OF s] p2(4) by metis
  qed (use re p2(4) in auto)
  have "uf_wf t"
    unfolding uf_wf_def dt using iff wf unfolding uf_wf_def by metis
  then show ?thesis using dt iff ra rb by blast
qed

lemma uf_find_nodes:
  assumes "uf_wf p" and "uf_find a p = Some (r, q)"
  shows "uf_wf q" and "dom (dget q) = insert a (dom (dget p))" and "reaches (dget q) a r"
    and "reaches (dget q) x s \<longleftrightarrow> reaches (dget p) x s \<or> (a \<notin> dom (dget p) \<and> x = a \<and> s = a)"
    and "dkeys q = dkeys (dsetdefault a a p)"
proof -
  obtain r' q' where q: "uf_find a p = Some (r', q')" "uf_wf q'" "reaches (dget q') a r'"
    "dom (dget q') = insert a (dom (dget p))"
    "\<And>x s. reaches (dget q') x s \<longleftrightarrow>
       reaches (dget p) x s \<or> (a \<notin> dom (dget p) \<and> x = a \<and> s = a)"
    "dkeys q' = dkeys (dsetdefault a a p)"
    using uf_find_spec[OF assms(1), of a] by blast
  have e: "r' = r" "q' = q" using assms(2) q(1) by auto
  show "uf_wf q" "dom (dget q) = insert a (dom (dget p))" "reaches (dget q) a r"
    "reaches (dget q) x s \<longleftrightarrow> reaches (dget p) x s \<or> (a \<notin> dom (dget p) \<and> x = a \<and> s = a)"
    "dkeys q = dkeys (dsetdefault a a p)"
    using q(2-6) unfolding e by blast+
qed

lemma uf_union_total: "uf_wf p \<Longrightarrow> \<exists>t. uf_union a b p = Some t"
  by (metis (no_types, lifting) case_prod_conv option.simps(5) uf_find_spec uf_union_def)

text \<open>\<open>find\<close> is idempotent on registered nodes, so \<open>union\<close> is the same before and after it.\<close>

lemma uf_union_after_find:
  assumes wf: "uf_wf s" and f: "uf_find a s = Some (r, t)" and g: "uf_find b t = Some (r', u)"
    and v: "uf_union a b s = Some v" and w: "uf_union a b u = Some w"
  shows "reaches (dget v) x q \<longleftrightarrow> reaches (dget w) x q"
proof -
  note t = uf_find_nodes[OF wf f]
  note u = uf_find_nodes[OF t(1) g]
  have vr: "v = (if r \<noteq> r' then dset r r' u else u)"
    using f g v by (simp add: uf_union_def)
  have ra: "reaches (dget u) a r" and rb: "reaches (dget u) b r'"
    using t(3) u(3) u(4) by blast+
  obtain ra rb where w': "reaches (dget u) a ra" "reaches (dget u) b rb"
    "\<And>x s. reaches (dget w) x s \<longleftrightarrow> (\<exists>q. reaches (dget u) x q \<and> s = (if q = ra then rb else q))"
    using uf_union_spec[OF u(1) w] t(2) u(2) by blast
  have r_eq: "ra = r" "rb = r'" using reaches_unique ra rb w'(1,2) by metis+
  obtain b' where ub: "uf_find b u = Some (r', b')"
    using uf_find_spec[OF u(1), of b] rb u(2) reaches_unique by (metis insertI1)
  have a1: "dget u r = Some r" "dget u r' = Some r'"
    using reaches_root[OF ra] reaches_root[OF rb] by auto
  have v': "reaches (dget v) x q \<longleftrightarrow> (\<exists>p. reaches (dget u) x p \<and> q = (if p = r then r' else p))" for x q
  proof (cases "r = r'")
    case True
    then show ?thesis using vr by auto
  next
    case False
    have "uf_union r r' u = Some (dset r r' u)"
    proof -
      have "uf_find r u = Some (r, u)" "uf_find r' u = Some (r', u)"
        using a1 by (auto simp: uf_find_def Let_def dsetdefault_def find_root.simps compress.simps)
      then show ?thesis using False by (simp add: uf_union_def)
    qed
    from uf_union_spec[OF u(1) this] obtain q1 q2 where
      "reaches (dget u) r q1" "reaches (dget u) r' q2"
      "\<And>x s. reaches (dget (dset r r' u)) x s \<longleftrightarrow>
         (\<exists>q. reaches (dget u) x q \<and> s = (if q = q1 then q2 else q))"
      using a1 by blast
    moreover have "q1 = r" "q2 = r'"
      using calculation(1,2) a1 reaches.base reaches_unique by metis+
    ultimately show ?thesis using vr False by auto
  qed
  show ?thesis unfolding v' w'(3) r_eq ..
qed

interpretation uf: union_find uf_find uf_union "\<lambda>p. dom (dget p)" uf_same uf_wf
proof (unfold_locales, goal_cases)
  case (1 s a)
  then show ?case using uf_find_spec[of s a] by metis
next
  case (2 s a r t)
  then show ?case by (rule uf_find_nodes(1))
next
  case (3 s a r t)
  then show ?case by (rule uf_find_nodes(2))
next
  case (4 s a r t x y)
  have "reaches (dget s) z q \<Longrightarrow> z \<in> dom (dget s) \<and> q \<in> dom (dget s)" for z q
    using reaches_dom reaches_root by (metis domI)
  then show ?case unfolding uf_same_def uf_find_nodes(4)[OF 4] by metis
next
  case (5 s x y rx t ry u)
  have "reaches (dget s) x rx" "reaches (dget s) y ry"
    using uf_find_nodes(3,4)[OF 5(1,4)] uf_find_nodes(3,4)[OF 5(1,5)] 5(2,3) by blast+
  then show ?case using reaches_unique unfolding uf_same_def by metis
next
  case (6 s a b)
  then show ?case by (rule uf_union_total)
next
  case (7 s a b t)
  obtain r p1 where p1: "uf_find a s = Some (r, p1)" using uf_find_spec[OF 7(1)] by metis
  note n1 = uf_find_nodes[OF 7(1) p1]
  obtain r' p2 where p2: "uf_find b p1 = Some (r', p2)" using uf_find_spec[OF n1(1)] by metis
  note n2 = uf_find_nodes[OF n1(1) p2]
  obtain w where w: "uf_union a b p2 = Some w" using uf_union_total[OF n2(1)] by blast
  have ab: "a \<in> dom (dget p2)" "b \<in> dom (dget p2)" using n1(2) n2(2) by auto
  have "uf_wf w" using uf_union_spec[OF n2(1) w ab] by blast
  moreover have "reaches (dget t) x q \<longleftrightarrow> reaches (dget w) x q" for x q
    using uf_union_after_find[OF 7(1) p1 p2 7(2) w] .
  moreover have "dom (dget t) \<subseteq> dom (dget p2)"
  proof -
    have "r \<in> dom (dget p2)" using n1(3) n2(4) reaches_root by (metis domI)
    then show ?thesis using 7(2) p1 p2 by (auto simp: uf_union_def dget_dset split: if_splits)
  qed
  moreover have "dom (dget w) = dom (dget p2)" using uf_union_spec[OF n2(1) w ab] by blast
  ultimately show ?case unfolding uf_wf_def by blast
next
  case (8 s a b t)
  obtain r p1 where p1: "uf_find a s = Some (r, p1)" using uf_find_spec[OF 8(1)] by metis
  note n1 = uf_find_nodes[OF 8(1) p1]
  obtain r' p2 where p2: "uf_find b p1 = Some (r', p2)" using uf_find_spec[OF n1(1)] by metis
  note n2 = uf_find_nodes[OF n1(1) p2]
  have "r \<in> dom (dget p2)"
    using n1(3) n2(4) reaches_root by (metis domI)
  moreover have "t = (if r \<noteq> r' then dset r r' p2 else p2)"
    using 8(2) p1 p2 by (simp add: uf_union_def)
  ultimately have "dom (dget t) = dom (dget p2)" by (simp add: dget_dset insert_absorb)
  then show ?case unfolding n2(2) n1(2) by blast
next
  case (9 s a b t x y)
  from uf_union_spec[OF 9(1,2,3,4)] obtain ra rb where
    "reaches (dget s) a ra" "reaches (dget s) b rb"
    "\<And>x q. reaches (dget t) x q \<longleftrightarrow> (\<exists>p. reaches (dget s) x p \<and> q = (if p = ra then rb else p))"
    by blast
  note h = this
  have s_a: "uf_same s z a \<longleftrightarrow> reaches (dget s) z ra" "uf_same s a z \<longleftrightarrow> reaches (dget s) z ra" for z
    using h(1) reaches_unique[OF h(1)] unfolding uf_same_def by blast+
  have s_b: "uf_same s z b \<longleftrightarrow> reaches (dget s) z rb" "uf_same s b z \<longleftrightarrow> reaches (dget s) z rb" for z
    using h(2) reaches_unique[OF h(2)] unfolding uf_same_def by blast+
  have "uf_same t x y \<longleftrightarrow> (\<exists>p q. reaches (dget s) x p \<and> reaches (dget s) y q \<and>
      (p = q \<or> p = ra \<and> q = rb \<or> p = rb \<and> q = ra))"
  proof -
    have f: "(if p = ra then rb else p) = (if q = ra then rb else q) \<longleftrightarrow>
        p = q \<or> p = ra \<and> q = rb \<or> p = rb \<and> q = ra" for p q
      by auto
    have "uf_same t x y \<longleftrightarrow> (\<exists>p q. reaches (dget s) x p \<and> reaches (dget s) y q \<and>
        (if p = ra then rb else p) = (if q = ra then rb else q))"
      unfolding uf_same_def h(3) by blast
    then show ?thesis unfolding f .
  qed
  moreover have "uf_same s x y \<longleftrightarrow> (\<exists>p. reaches (dget s) x p \<and> reaches (dget s) y p)"
    by (simp add: uf_same_def)
  ultimately show ?case unfolding s_a s_b by blast
next
  case (10 s a r t b r' u v w x y)
  then show ?case using uf_union_after_find[OF 10] by (auto simp: uf_same_def)
next
  case (11 s x y)
  then show ?case unfolding uf_same_def using reaches_dom by metis
qed

lemma unions_nodes:
  assumes "uf.represents p R" and "ofold (\<lambda>(a, b). uf_union a b) ps p = Some q"
  shows "dom (dget q) = dom (dget p) \<union> fst ` set ps \<union> snd ` set ps"
  using assms
proof (induction ps arbitrary: p R)
  case Nil
  then show ?case by simp
next
  case (Cons e ps)
  obtain a b where e: "e = (a, b)" by force
  have wf: "uf_wf p" using Cons.prems(1) by (simp add: uf.represents_def)
  obtain v where v: "uf_union a b p = Some v" using uf_union_total[OF wf] by blast
  have "ofold (\<lambda>(a, b). uf_union a b) ps v = Some q" using Cons.prems(2) v e by simp
  from Cons.IH[OF uf.represents_union[OF Cons.prems(1) v] this] uf.union_nodes[OF wf v]
  show ?case using e by auto
qed

lemma represents_empty: "uf.represents [] {}"
  by (simp add: uf.represents_def uf_wf_def)

subsection \<open>The schematic graph\<close>

type_synonym point = "rat \<times> rat"

record wire =
  w_start :: "point option"
  w_end :: "point option"

record label =
  l_at :: "point option"
  l_text :: "string option"

record pin_location =
  pl_x :: rat
  pl_y :: rat
  pl_number :: string
  pl_name :: string

record pin_ref =
  pr_ref :: string
  pr_pin :: string
  pr_name :: string

text \<open>
  What the graph asks of the document: its wires, labels and component references, and
  \<^verbatim>\<open>pin_locations(ref)\<close>, where \<open>None\<close> also stands for the exception the code turns into \<open>None\<close>.
\<close>

record document =
  d_wires :: "wire list"
  d_labels :: "label list"
  d_components :: "string option list"
  d_pins :: "string \<Rightarrow> pin_location list option"

record graph =
  g_uf :: "(point, point) dict"
  g_labels :: "(point, string set) dict"
  g_pins :: "(point, pin_ref list) dict"

text \<open>Python's \<^verbatim>\<open>round\<close>: ties go to the even integer.\<close>

definition py_round :: "rat \<Rightarrow> int" where
  "py_round x =
     (let f = \<lfloor>x\<rfloor>; d = x - of_int f
      in if d < 1 / 2 then f else if 1 / 2 < d then f + 1 else if even f then f else f + 1)"

definition snap_tol :: "rat \<Rightarrow> point \<Rightarrow> point" where
  "snap_tol tol xy =
     (let q = 1 / tol
      in (of_int (py_round (fst xy * q)) / q, of_int (py_round (snd xy * q)) / q))"

definition snap :: "point \<Rightarrow> point" where
  "snap xy = snap_tol (1 / 100) xy"

definition touch :: "point \<Rightarrow> graph \<Rightarrow> graph option" where
  "touch p g = map_option (\<lambda>(_, u). g\<lparr>g_uf := u\<rparr>) (uf_find p (g_uf g))"

definition add_wire :: "wire \<Rightarrow> graph \<Rightarrow> graph option" where
  "add_wire w g =
     (case (w_start w, w_end w) of
        (Some s, Some e) \<Rightarrow> map_option (\<lambda>u. g\<lparr>g_uf := u\<rparr>) (uf_union (snap s) (snap e) (g_uf g))
      | _ \<Rightarrow> Some g)"

definition add_label :: "label \<Rightarrow> graph \<Rightarrow> graph option" where
  "add_label l g =
     (case (l_at l, l_text l) of
        (Some xy, Some t) \<Rightarrow>
          if t = [] then Some g
          else (let p = snap xy in
            map_option (\<lambda>g. g\<lparr>g_labels := dset p (insert t (dget_or (g_labels g) p {})) (g_labels g)\<rparr>)
              (touch p g))
      | _ \<Rightarrow> Some g)"

definition add_pin :: "string \<Rightarrow> pin_location \<Rightarrow> graph \<Rightarrow> graph option" where
  "add_pin r pl g =
     (let p = snap (pl_x pl, pl_y pl);
          entry = \<lparr>pr_ref = r, pr_pin = pl_number pl, pr_name = pl_name pl\<rparr>
      in map_option (\<lambda>g. g\<lparr>g_pins := dset p (dget_or (g_pins g) p [] @ [entry]) (g_pins g)\<rparr>) (touch p g))"

definition add_component :: "document \<Rightarrow> string option \<Rightarrow> graph \<Rightarrow> graph option" where
  "add_component d ro g =
     (case ro of
        None \<Rightarrow> Some g
      | Some r \<Rightarrow>
          if r = [] then Some g
          else (case d_pins d r of
                  None \<Rightarrow> Some g
                | Some pins \<Rightarrow> ofold (add_pin r) pins g))"

definition build_graph :: "document \<Rightarrow> graph option" where
  "build_graph d =
     Option.bind (ofold add_wire (d_wires d) \<lparr>g_uf = [], g_labels = [], g_pins = []\<rparr>) (\<lambda>g1.
     Option.bind (ofold add_label (d_labels d) g1) (\<lambda>g2.
     ofold (add_component d) (d_components d) g2))"

record centry =
  e_points :: "point list"
  e_nets :: "string set"
  e_pins :: "pin_ref list"

record component =
  co_points :: "point list"
  co_nets :: "string list"
  co_pins :: "pin_ref list"

definition no_entry :: centry where
  "no_entry = \<lparr>e_points = [], e_nets = {}, e_pins = []\<rparr>"

definition collect :: "graph \<Rightarrow> point \<Rightarrow> centry \<Rightarrow> centry" where
  "collect g p e =
     \<lparr>e_points = e_points e @ [p],
      e_nets = e_nets e \<union> dget_or (g_labels g) p {},
      e_pins = e_pins e @ dget_or (g_pins g) p []\<rparr>"

definition component_step ::
  "graph \<Rightarrow> point \<Rightarrow> (point, point) dict \<times> (point, centry) dict
     \<Rightarrow> ((point, point) dict \<times> (point, centry) dict) option" where
  "component_step g p s =
     (case uf_find p (fst s) of
        None \<Rightarrow> None
      | Some (r, u) \<Rightarrow> Some (u, dset r (collect g p (dget_or (snd s) r no_entry)) (snd s)))"

definition out_component :: "centry \<Rightarrow> component" where
  "out_component e =
     \<lparr>co_points = e_points e, co_nets = sorted_list_of_set (e_nets e), co_pins = e_pins e\<rparr>"

definition components :: "graph \<Rightarrow> (component list \<times> graph) option" where
  "components g =
     map_option (\<lambda>(u, roots). (map (out_component \<circ> snd) roots, g\<lparr>g_uf := u\<rparr>))
       (ofold (component_step g) (dkeys (g_uf g)) (g_uf g, []))"

datatype point_net =
    NotFound
  | FoundNet "string list" "pin_ref list" "nat option"

definition net_of_point :: "graph \<Rightarrow> point \<Rightarrow> (point_net \<times> graph) option" where
  "net_of_point g xy =
     (let p = snap xy in
      if p \<notin> set (dkeys (g_uf g)) then Some (NotFound, g)
      else Option.bind (touch p g) (\<lambda>g1.
        map_option (\<lambda>(cs, g2).
          (case List.find (\<lambda>c. xy \<in> set (co_points c) \<or> p \<in> set (co_points c)) cs of
             Some c \<Rightarrow> FoundNet (co_nets c) (co_pins c) (Some (length (co_points c)))
           | None \<Rightarrow> FoundNet [] [] None, g2)) (components g1)))"

definition net_members :: "graph \<Rightarrow> string \<Rightarrow> (component option \<times> graph) option" where
  "net_members g net =
     map_option (\<lambda>(cs, g'). (List.find (\<lambda>c. net \<in> set (co_nets c)) cs, g')) (components g)"

definition shorted_nets :: "graph \<Rightarrow> (string list list \<times> graph) option" where
  "shorted_nets g =
     map_option (\<lambda>(cs, g'). (map co_nets (filter (\<lambda>c. length (co_nets c) > 1) cs), g')) (components g)"

subsection \<open>What the components are\<close>

definition root_of :: "('k, 'k) dict \<Rightarrow> 'k \<Rightarrow> 'k" where
  "root_of p x = (case find_root p x of Some r \<Rightarrow> r | None \<Rightarrow> x)"

definition entry_of :: "graph \<Rightarrow> point list \<Rightarrow> centry" where
  "entry_of g ps =
     \<lparr>e_points = ps,
      e_nets = (\<Union>p \<in> set ps. dget_or (g_labels g) p {}),
      e_pins = concat (map (\<lambda>p. dget_or (g_pins g) p []) ps)\<rparr>"

definition class_entries :: "graph \<Rightarrow> (point, point) dict \<Rightarrow> point list \<Rightarrow> (point, centry) dict" where
  "class_entries g u ks =
     map (\<lambda>r. (r, entry_of g (filter (\<lambda>x. root_of u x = r) ks))) (fromkeys (map (root_of u) ks))"

lemma root_of_reaches: "uf_wf p \<Longrightarrow> x \<in> dom (dget p) \<Longrightarrow> reaches (dget p) x (root_of p x)"
proof -
  assume "uf_wf p" and "x \<in> dom (dget p)"
  then obtain r where r: "reaches (dget p) x r" unfolding uf_wf_def by blast
  from find_root_reaches[OF r] r show ?thesis by (simp add: root_of_def)
qed

lemma root_of_eq_iff:
  assumes "uf_wf p" and "x \<in> dom (dget p)" and "y \<in> dom (dget p)"
  shows "root_of p x = root_of p y \<longleftrightarrow> uf_same p x y"
  using root_of_reaches[OF assms(1,2)] root_of_reaches[OF assms(1,3)] reaches_unique
  unfolding uf_same_def by metis

lemma collect_entry: "collect g p (entry_of g ps) = entry_of g (ps @ [p])"
  by (auto simp: collect_def entry_of_def)

lemma class_entries_snoc:
  "dset (root_of u p) (collect g p (dget_or (class_entries g u ks) (root_of u p) no_entry))
     (class_entries g u ks) = class_entries g u (ks @ [p])"
proof -
  let ?r = "root_of u p" and ?f = "\<lambda>r. entry_of g (filter (\<lambda>x. root_of u x = r) ks)"
  have no: "no_entry = entry_of g []" by (simp add: no_entry_def entry_of_def)
  have "dget_or (class_entries g u ks) ?r no_entry = ?f ?r"
  proof (cases "?r \<in> set (map (root_of u) ks)")
    case True
    then show ?thesis by (simp add: class_entries_def dget_or_def dget_map_pair)
  next
    case False
    have "filter (\<lambda>x. root_of u x = ?r) ks = []"
      unfolding filter_empty_conv using False by (metis image_eqI list.set_map)
    then show ?thesis using False by (simp add: class_entries_def dget_or_def dget_map_pair no)
  qed
  then show ?thesis
    unfolding class_entries_def
    by (auto simp: dset_map_pair collect_entry fromkeys_snoc)
qed

lemma component_fold:
  assumes wf: "uf_wf (g_uf g)" and ks: "set ks \<subseteq> dom (dget (g_uf g))"
  shows "\<exists>u. ofold (component_step g) ks (g_uf g, []) = Some (u, class_entries g (g_uf g) ks)
    \<and> uf_wf u \<and> dkeys u = dkeys (g_uf g) \<and> (\<forall>x r. reaches (dget u) x r \<longleftrightarrow> reaches (dget (g_uf g)) x r)"
proof -
  let ?u0 = "g_uf g"
  let ?I = "\<lambda>done s. snd s = class_entries g ?u0 done \<and> uf_wf (fst s) \<and> dkeys (fst s) = dkeys ?u0
    \<and> (\<forall>x r. reaches (dget (fst s)) x r \<longleftrightarrow> reaches (dget ?u0) x r)"
  have "\<exists>s'. ofold (component_step g) ks (?u0, []) = Some s' \<and> ?I ks s'"
  proof (rule ofold_invariant[where A = "dom (dget ?u0)"])
    show "?I [] (?u0, [])" using wf by (simp add: class_entries_def)
    show "set ks \<subseteq> dom (dget ?u0)" by fact
  next
    fix ds x s
    assume I: "?I ds s" and x: "x \<in> dom (dget ?u0)"
    then have xs: "x \<in> dom (dget (fst s))" by (metis set_dkeys)
    obtain r q where q: "uf_find x (fst s) = Some (r, q)" using uf_find_spec[of "fst s" x] I by metis
    have wfs: "uf_wf (fst s)" using I by simp
    note n = uf_find_nodes[OF wfs q]
    have r: "r = root_of ?u0 x"
      using n(3,4) xs I root_of_reaches[OF wf x] reaches_unique by metis
    have "dkeys q = dkeys ?u0"
      using n(5) xs I by (simp add: dsetdefault_def split: option.splits) auto
    moreover have "\<forall>y t. reaches (dget q) y t \<longleftrightarrow> reaches (dget ?u0) y t"
      using n(4) xs I by simp
    ultimately show "\<exists>s'. component_step g x s = Some s' \<and> ?I (ds @ [x]) s'"
      using q n(1) I class_entries_snoc[of ?u0 x g ds] r by (simp add: component_step_def)
  qed
  then show ?thesis by auto
qed

lemma components_closed:
  assumes "uf_wf (g_uf g)"
  shows "\<exists>g'. components g =
    Some (map (\<lambda>r. out_component (entry_of g (filter (\<lambda>x. root_of (g_uf g) x = r) (dkeys (g_uf g)))))
            (fromkeys (map (root_of (g_uf g)) (dkeys (g_uf g)))), g')"
  using component_fold[OF assms, of "dkeys (g_uf g)"]
  by (auto simp: components_def class_entries_def set_dkeys comp_def)

text \<open>Which nodes, labels and connections a document gives.\<close>

definition wire_pair :: "wire \<Rightarrow> (point \<times> point) list" where
  "wire_pair w =
     (case (w_start w, w_end w) of (Some s, Some e) \<Rightarrow> [(snap s, snap e)] | _ \<Rightarrow> [])"

definition label_pair :: "label \<Rightarrow> (point \<times> string) list" where
  "label_pair l =
     (case (l_at l, l_text l) of (Some xy, Some t) \<Rightarrow> (if t = [] then [] else [(snap xy, t)])
      | _ \<Rightarrow> [])"

definition wire_pairs :: "document \<Rightarrow> (point \<times> point) list" where
  "wire_pairs d = concat (map wire_pair (d_wires d))"

definition label_pairs :: "document \<Rightarrow> (point \<times> string) list" where
  "label_pairs d = concat (map label_pair (d_labels d))"

definition graph_inv :: "(point \<times> point) set \<Rightarrow> (point \<times> string) set \<Rightarrow> graph \<Rightarrow> bool" where
  "graph_inv R L g =
     (uf.represents (g_uf g) R \<and> dict_wf (g_uf g) \<and> fst ` L \<subseteq> dom (dget (g_uf g)) \<and>
      (\<forall>p. dget_or (g_labels g) p {} = {t. (p, t) \<in> L}))"

lemma uf_find_dict_wf: "uf_wf p \<Longrightarrow> uf_find a p = Some (r, q) \<Longrightarrow> dict_wf p \<Longrightarrow> dict_wf q"
  using uf_find_nodes(5)[of p a r q] dict_wf_dset[of p a a]
  by (auto simp: dict_wf_def dsetdefault_def split: option.splits)

lemma touch_inv:
  assumes "graph_inv R L g"
  shows "\<exists>u. touch p g = Some (g\<lparr>g_uf := u\<rparr>) \<and> graph_inv R L (g\<lparr>g_uf := u\<rparr>) \<and> p \<in> dom (dget u)"
proof -
  have rep: "uf.represents (g_uf g) R" and wf: "uf_wf (g_uf g)"
    using assms by (auto simp: graph_inv_def uf.represents_def)
  obtain r u where u: "uf_find p (g_uf g) = Some (r, u)" using uf.find_total[OF wf] by blast
  note n = uf_find_nodes[OF wf u]
  have "graph_inv R L (g\<lparr>g_uf := u\<rparr>)"
    using assms uf.represents_find[OF rep u] uf_find_dict_wf[OF wf u] n(2)
    by (auto simp: graph_inv_def)
  moreover have "touch p g = Some (g\<lparr>g_uf := u\<rparr>)" using u by (simp add: touch_def)
  moreover have "p \<in> dom (dget u)" using n(2) by simp
  ultimately show ?thesis by blast
qed

lemma add_wire_inv:
  assumes "graph_inv R L g"
  shows "\<exists>g'. add_wire w g = Some g' \<and>
    graph_inv (R \<union> set (wire_pair w)) L g'"
proof (cases "w_start w = None \<or> w_end w = None")
  case True
  then show ?thesis using assms by (auto simp: add_wire_def wire_pair_def split: option.splits)
next
  case False
  then obtain s e where se: "w_start w = Some s" "w_end w = Some e" by auto
  let ?a = "snap s" and ?b = "snap e"
  have rep: "uf.represents (g_uf g) R" and wf: "uf_wf (g_uf g)"
    using assms by (auto simp: graph_inv_def uf.represents_def)
  obtain v where v: "uf_union ?a ?b (g_uf g) = Some v" using uf_union_total[OF wf] by blast
  obtain r p1 where p1: "uf_find ?a (g_uf g) = Some (r, p1)" using uf.find_total[OF wf] by blast
  have wf1: "uf_wf p1" using uf.find_ok[OF wf p1] .
  obtain r' p2 where p2: "uf_find ?b p1 = Some (r', p2)" using uf.find_total[OF wf1] by blast
  have "dict_wf p2"
    using uf_find_dict_wf[OF wf1 p2] uf_find_dict_wf[OF wf p1] assms by (simp add: graph_inv_def)
  then have "dict_wf v" using v p1 p2 by (auto simp: uf_union_def dict_wf_dset)
  moreover have "fst ` L \<subseteq> dom (dget v)"
    using uf.union_nodes[OF wf v] assms unfolding graph_inv_def by blast
  ultimately have "graph_inv (insert (?a, ?b) R) L (g\<lparr>g_uf := v\<rparr>)"
    using assms uf.represents_union[OF rep v] by (simp add: graph_inv_def)
  then show ?thesis using se v by (simp add: add_wire_def wire_pair_def)
qed

lemma add_label_inv:
  assumes "graph_inv R L g"
  shows "\<exists>g'. add_label l g = Some g' \<and>
    graph_inv R (L \<union> set (label_pair l)) g'"
proof (cases "l_at l = None \<or> l_text l = None \<or> l_text l = Some []")
  case True
  then show ?thesis using assms by (auto simp: add_label_def label_pair_def split: option.splits)
next
  case False
  then obtain xy t where lt: "l_at l = Some xy" "l_text l = Some t" "t \<noteq> []" by auto
  let ?p = "snap xy"
  obtain u where u: "touch ?p g = Some (g\<lparr>g_uf := u\<rparr>)" "graph_inv R L (g\<lparr>g_uf := u\<rparr>)"
    "?p \<in> dom (dget u)"
    using touch_inv[OF assms] by blast
  let ?d = "dset ?p (insert t (dget_or (g_labels g) ?p {})) (g_labels g)"
  have lab: "dget_or (g_labels g) q {} = {s. (q, s) \<in> L}" for q
    using assms unfolding graph_inv_def by blast
  have "dget_or ?d q {} = {s. (q, s) \<in> insert (?p, t) L}" for q
    unfolding dget_or_dset lab by (cases "q = ?p") auto
  then have "graph_inv R (insert (?p, t) L) (g\<lparr>g_uf := u, g_labels := ?d\<rparr>)"
    using u(2,3) by (auto simp: graph_inv_def)
  then show ?thesis using lt u(1) by (simp add: add_label_def label_pair_def Let_def)
qed

lemma add_pin_inv: "graph_inv R L g \<Longrightarrow> \<exists>g'. add_pin r pl g = Some g' \<and> graph_inv R L g'"
  using touch_inv[of R L g "snap (pl_x pl, pl_y pl)"]
  by (auto simp: add_pin_def Let_def graph_inv_def)

lemma add_component_inv:
  assumes "graph_inv R L g"
  shows "\<exists>g'. add_component d ro g = Some g' \<and> graph_inv R L g'"
proof -
  have "\<exists>g'. ofold (add_pin r) pins g = Some g' \<and> graph_inv R L g'" for r pins
    by (rule ofold_invariant[where I = "\<lambda>_. graph_inv R L" and A = UNIV])
      (use assms add_pin_inv in auto)
  then show ?thesis using assms by (auto simp: add_component_def split: option.splits)
qed

lemma build_graph_inv:
  "\<exists>g. build_graph d = Some g \<and> graph_inv (set (wire_pairs d)) (set (label_pairs d)) g"
proof -
  let ?g0 = "\<lparr>g_uf = [], g_labels = [], g_pins = []\<rparr> :: graph"
  have g0: "graph_inv {} {} ?g0"
    using represents_empty by (simp add: graph_inv_def dict_wf_empty dget_or_def)
  have "\<exists>g. ofold add_wire (d_wires d) ?g0 = Some g \<and>
      graph_inv (set (concat (map wire_pair (d_wires d)))) {} g"
    by (rule ofold_invariant[where A = UNIV and I = "\<lambda>ws. graph_inv (set (concat (map wire_pair ws))) {}"])
      (use g0 add_wire_inv in auto)
  then obtain g1 where g1: "ofold add_wire (d_wires d) ?g0 = Some g1"
    "graph_inv (set (wire_pairs d)) {} g1" by (auto simp: wire_pairs_def)
  have "\<exists>g. ofold add_label (d_labels d) g1 = Some g \<and>
      graph_inv (set (wire_pairs d)) (set (concat (map label_pair (d_labels d)))) g"
    by (rule ofold_invariant[where A = UNIV and
          I = "\<lambda>ls. graph_inv (set (wire_pairs d)) (set (concat (map label_pair ls)))"])
      (use g1(2) add_label_inv in auto)
  then obtain g2 where g2: "ofold add_label (d_labels d) g1 = Some g2"
    "graph_inv (set (wire_pairs d)) (set (label_pairs d)) g2" by (auto simp: label_pairs_def)
  have "\<exists>g. ofold (add_component d) (d_components d) g2 = Some g \<and>
      graph_inv (set (wire_pairs d)) (set (label_pairs d)) g"
    by (rule ofold_invariant[where A = UNIV and
          I = "\<lambda>_. graph_inv (set (wire_pairs d)) (set (label_pairs d))"])
      (use g2(2) add_component_inv in auto)
  then show ?thesis using g1(1) g2(1) by (auto simp: build_graph_def)
qed

lemma components_of_graph:
  assumes inv: "graph_inv R L g" and "finite L"
  obtains cs g' where "components g = Some (cs, g')"
    "{(x, y). \<exists>c \<in> set cs. x \<in> set (co_points c) \<and> y \<in> set (co_points c)} =
       {(x, y). x \<in> dom (dget (g_uf g)) \<and> y \<in> dom (dget (g_uf g)) \<and> (x, y) \<in> conn R}"
    "set (concat (map co_points cs)) = dom (dget (g_uf g))"
    "distinct (concat (map co_points cs))"
    "\<And>c. c \<in> set cs \<Longrightarrow> distinct (co_nets c) \<and>
       set (co_nets c) = {t. \<exists>p \<in> set (co_points c). (p, t) \<in> L}"
proof -
  let ?u = "g_uf g" and ?ks = "dkeys (g_uf g)"
  let ?c = "\<lambda>r. out_component (entry_of g (filter (\<lambda>x. root_of ?u x = r) ?ks))"
  let ?rs = "fromkeys (map (root_of ?u) ?ks)"
  have wf: "uf_wf ?u" and rep: "uf.represents ?u R" and lab: "\<And>p. dget_or (g_labels g) p {} = {t. (p, t) \<in> L}"
    using inv by (auto simp: graph_inv_def uf.represents_def)
  obtain g' where g': "components g = Some (map ?c ?rs, g')"
    using components_closed[OF wf] by blast
  have pts: "co_points (?c r) = filter (\<lambda>x. root_of ?u x = r) ?ks" for r
    by (simp add: out_component_def entry_of_def)
  have same: "root_of ?u x = root_of ?u y \<longleftrightarrow> (x, y) \<in> conn R"
    if "x \<in> dom (dget ?u)" "y \<in> dom (dget ?u)" for x y
    using root_of_eq_iff[OF wf that] rep that by (simp add: uf.represents_def)
  have fin: "finite {t. \<exists>p\<in>A. (p, t) \<in> L}" for A
    by (rule finite_subset[OF _ finite_imageI[OF assms(2), of snd]]) force
  show thesis
  proof (rule that[OF g'])
    show "{(x, y). \<exists>c \<in> set (map ?c ?rs). x \<in> set (co_points c) \<and> y \<in> set (co_points c)} =
       {(x, y). x \<in> dom (dget ?u) \<and> y \<in> dom (dget ?u) \<and> (x, y) \<in> conn R}"
      using same by (auto simp: pts set_dkeys) (metis domI)+
    show "set (concat (map co_points (map ?c ?rs))) = dom (dget ?u)"
      by (auto simp: pts set_dkeys)
    have "distinct ?ks" using inv by (simp add: graph_inv_def dict_wf_def)
    then have "distinct (concat (map (\<lambda>r. filter (\<lambda>x. root_of ?u x = r) ?ks) rs))"
      if "distinct rs" for rs
      using that by (induction rs) auto
    then show "distinct (concat (map co_points (map ?c ?rs)))"
      by (simp add: comp_def pts)
    show "distinct (co_nets c) \<and> set (co_nets c) = {t. \<exists>p \<in> set (co_points c). (p, t) \<in> L}"
      if "c \<in> set (map ?c ?rs)" for c
    proof -
      from that obtain r where c: "c = ?c r" by auto
      have "e_nets (entry_of g (filter (\<lambda>x. root_of ?u x = r) ?ks)) =
          {t. \<exists>p \<in> set (co_points c). (p, t) \<in> L}"
        unfolding c pts by (auto simp: entry_of_def lab)
      then show ?thesis using fin by (simp add: c out_component_def)
    qed
  qed
qed

subsection \<open>Properties\<close>

text \<open>
  C17: the union-find with path compression computes connectivity: from the empty store any
  sequence of unions returns, and afterwards two registered nodes have the same root under
  \<^verbatim>\<open>find\<close> exactly when they are connected by the pairs that were joined.
\<close>

theorem union_find_connectivity:
  "\<exists>p. ofold (\<lambda>(a, b). uf_union a b) ps [] = Some p \<and>
     dom (dget p) = fst ` set ps \<union> snd ` set ps \<and>
     {(x, y). \<exists>r q q'. uf_find x p = Some (r, q) \<and> uf_find y p = Some (r, q')
        \<and> x \<in> dom (dget p) \<and> y \<in> dom (dget p)} =
     {(x, y). (x, y) \<in> conn (set ps) \<and> x \<in> dom (dget p) \<and> y \<in> dom (dget p)}"
proof -
  from uf.represents_unions[OF represents_empty, of ps] obtain p where
    p: "ofold (\<lambda>(a, b). uf_union a b) ps [] = Some p" "uf.represents p (set ps)" by auto
  have wf: "uf_wf p" using p(2) by (simp add: uf.represents_def)
  have roots: "(\<exists>r q q'. uf_find x p = Some (r, q) \<and> uf_find y p = Some (r, q')) \<longleftrightarrow>
      (x, y) \<in> conn (set ps)" if "x \<in> dom (dget p)" "y \<in> dom (dget p)" for x y
  proof -
    obtain rx qx ry qy where f: "uf_find x p = Some (rx, qx)" "uf_find y p = Some (ry, qy)"
      using uf.find_total[OF wf] by metis
    have "rx = ry \<longleftrightarrow> uf_same p x y" using uf.find_roots[OF wf that f] .
    then show ?thesis using f p(2) that by (auto simp: uf.represents_def)
  qed
  have "dom (dget p) = fst ` set ps \<union> snd ` set ps"
    using unions_nodes[OF represents_empty p(1)] by simp
  moreover have "{(x, y). \<exists>r q q'. uf_find x p = Some (r, q) \<and> uf_find y p = Some (r, q')
        \<and> x \<in> dom (dget p) \<and> y \<in> dom (dget p)} =
     {(x, y). (x, y) \<in> conn (set ps) \<and> x \<in> dom (dget p) \<and> y \<in> dom (dget p)}"
    using roots by (intro set_eqI) (simp only: mem_Collect_eq split_paired_all case_prod_conv, metis)
  ultimately show ?thesis using p(1) by (intro exI[of _ p] conjI)
qed

text \<open>
  Building the graph of any document and listing its components both return, and the
  components partition the registered points: no point is listed twice or left out, and two
  points are in one component exactly when wires connect them.
\<close>

theorem components_partition:
  "\<exists>g cs g'. build_graph d = Some g \<and> components g = Some (cs, g') \<and>
     distinct (concat (map co_points cs)) \<and>
     set (concat (map co_points cs)) = set (dkeys (g_uf g)) \<and>
     {(x, y). \<exists>c \<in> set cs. x \<in> set (co_points c) \<and> y \<in> set (co_points c)} =
       {(x, y). x \<in> set (dkeys (g_uf g)) \<and> y \<in> set (dkeys (g_uf g)) \<and> (x, y) \<in> conn (set (wire_pairs d))}"
proof -
  obtain g where g: "build_graph d = Some g" "graph_inv (set (wire_pairs d)) (set (label_pairs d)) g"
    using build_graph_inv by blast
  obtain cs g' where cs: "components g = Some (cs, g')"
    "{(x, y). \<exists>c \<in> set cs. x \<in> set (co_points c) \<and> y \<in> set (co_points c)} =
       {(x, y). x \<in> dom (dget (g_uf g)) \<and> y \<in> dom (dget (g_uf g)) \<and> (x, y) \<in> conn (set (wire_pairs d))}"
    "set (concat (map co_points cs)) = dom (dget (g_uf g))"
    "distinct (concat (map co_points cs))"
    by (rule components_of_graph[OF g(2) finite_set])
  show ?thesis
    by (intro exI conjI) (use g(1) cs in \<open>simp_all only: set_dkeys\<close>)
qed


end
