(* ===== verification/RunRegistry.thy ===== *)
theory RunRegistry
  imports Systems Complex_Main
begin

text \<open>
  The in-memory run registry, \<^verbatim>\<open>src/src/service/run_registry.py\<close>: run records, their
  event buffers, admission, pause and resume around a human question, execution,
  cancellation, retention and event replay.

  Record objects are shared by the registry and by the tasks that execute them, so they
  live in an explicit store and are referred to by index; an asyncio task is an entry of
  the task list with the record and the generation it was created for. Each operation is
  the code between two suspension points, so an interleaving is a sequence of steps. Time
  is passed in. \<^verbatim>\<open>condition\<close> only wakes subscribers and is not state of the model.
\<close>

subsection \<open>Records\<close>

datatype run_kind = Invoke | Stream

datatype run_state =
  Queued | Running | WaitingForInput | Completed | Failed | Cancelled | TimedOut

datatype conflict = DifferentInteraction | ResponseReused | InteractionMismatch | StaleVersion
datatype transition_fault =
  EventTooLarge | CannotPause run_state | CannotResume run_state | DoneWhileWaiting

datatype run_error =
    RunConflict
  | RunOverloaded
  | RunNotFound string
  | RunAccess string
  | InteractionConflict conflict
  | InvalidRunTransition transition_fault

record run_record =
  request_id :: string
  fingerprint :: string
  kind :: run_kind
  agent_id :: string
  thread_id :: string
  user_id :: "string option"
  timeout_seconds :: rat
  event_buffer_size :: nat
  status :: run_state
  run_id :: "string option"
  created_at :: rat
  started_at :: "rat option"
  finished_at :: "rat option"
  result :: "string option"
  error_code :: "string option"
  error :: "string option"
  http_status :: int
  stream_failed :: bool
  terminal_event_emitted :: bool
  interaction_id :: "string option"
  interaction_state_version :: "int option"
  accepted_responses :: "(string, string \<times> int) dict"
  event_keys :: "(string, nat) dict"
  execution_generation :: nat
  events :: "(nat \<times> string) list"
  next_event_id :: nat
  done_set :: bool
  task :: "nat option"

definition is_terminal :: "run_record \<Rightarrow> bool" where
  "is_terminal r = (status r \<in> {Completed, Failed, Cancelled, TimedOut})"

definition truthy :: "string option \<Rightarrow> bool" where
  "truthy so = (so \<noteq> None \<and> so \<noteq> Some [])"

definition or_else :: "string option \<Rightarrow> string \<Rightarrow> string" where
  "or_else so d = (case so of Some s \<Rightarrow> if s = [] then d else s | None \<Rightarrow> d)"

subsection \<open>The registry\<close>

text \<open>
  A task is created, may wait for a semaphore permit, awaits its producer, and ends.
\<close>

datatype phase = Created | Pending | Producing | Finished

record run_task =
  t_object :: nat
  t_generation :: nat
  t_phase :: phase
  t_cancelled :: bool

record registry =
  max_concurrent :: nat
  max_queued :: nat
  default_timeout :: rat
  buffer_size :: nat
  max_event_bytes :: nat
  retention_seconds :: rat
  permits :: nat
  records :: "(string, nat) dict"
  objects :: "run_record list"
  tasks :: "run_task list"

definition empty_registry ::
  "nat \<Rightarrow> nat \<Rightarrow> rat \<Rightarrow> nat \<Rightarrow> nat \<Rightarrow> rat \<Rightarrow> registry" where
  "empty_registry mc mq dt eb mb rs =
     \<lparr>max_concurrent = mc, max_queued = mq, default_timeout = dt, buffer_size = eb,
      max_event_bytes = mb, retention_seconds = rs, permits = mc, records = [], objects = [], tasks = []\<rparr>"

definition put_object :: "nat \<Rightarrow> run_record \<Rightarrow> registry \<Rightarrow> registry" where
  "put_object k r g = g\<lparr>objects := (objects g)[k := r]\<rparr>"

subsection \<open>Events\<close>

definition done_marker :: string where "done_marker = ''data: [DONE]''"
definition done_event :: string where "done_event = ''data: [DONE]'' @ [CHR 0x0A, CHR 0x0A]"

definition json_bool :: "bool \<Rightarrow> string" where
  "json_bool b = (if b then ''true'' else ''false'')"

definition error_payload :: "string \<Rightarrow> string \<Rightarrow> bool \<Rightarrow> string" where
  "error_payload message code retryable =
     ''data: {'' @ json_string ''type'' @ '': '' @ json_string ''error''
       @ '', '' @ json_string ''content'' @ '': '' @ json_string message
       @ '', '' @ json_string ''code'' @ '': '' @ json_string code
       @ '', '' @ json_string ''retryable'' @ '': '' @ json_bool retryable
       @ ''}'' @ [CHR 0x0A, CHR 0x0A]"

text \<open>\<^verbatim>\<open>deque(maxlen=n).append\<close>: the oldest entries fall out.\<close>

definition deque_append :: "nat \<Rightarrow> 'a list \<Rightarrow> 'a \<Rightarrow> 'a list" where
  "deque_append n xs x = (let ys = xs @ [x] in drop (length ys - n) ys)"

definition push_event :: "string \<Rightarrow> run_record \<Rightarrow> run_record" where
  "push_event payload r =
     r\<lparr>events := deque_append (event_buffer_size r) (events r) (next_event_id r, payload),
       next_event_id := next_event_id r + 1\<rparr>"

definition too_large_message :: "nat \<Rightarrow> string" where
  "too_large_message n =
     ''Stream event exceeded the '' @ nat_str n @ ''-byte service limit.''"

definition append_event ::
  "nat \<Rightarrow> string \<Rightarrow> string option \<Rightarrow> run_record \<Rightarrow> run_record \<times> (run_error, nat) result" where
  "append_event max_bytes payload key r =
     (if status r = WaitingForInput \<and> contains_sub payload done_marker then
        (r, Inl (InvalidRunTransition DoneWhileWaiting))
      else
        (case (if truthy key then dget (event_keys r) (the key) else None) of
           Some event_id \<Rightarrow> (r, Inr event_id)
         | None \<Rightarrow>
             (let too_big = utf8_length payload > max_bytes;
                  message = too_large_message max_bytes;
                  r1 = (if too_big then r\<lparr>stream_failed := True,
                          error_code := Some ''event_too_large'', error := Some message\<rparr> else r);
                  payload1 = (if too_big then error_payload message ''event_too_large'' False
                              else payload);
                  event_id = next_event_id r1;
                  r2 = push_event payload1 r1;
                  r3 = (if truthy key then r2\<lparr>event_keys := dset (the key) event_id (event_keys r2)\<rparr>
                        else r2);
                  r4 = (if contains_sub payload1 done_marker
                        then r3\<lparr>terminal_event_emitted := True\<rparr> else r3)
              in (r4, Inr event_id))))"

definition emit_terminal_stream_error :: "nat \<Rightarrow> run_record \<Rightarrow> run_record" where
  "emit_terminal_stream_error max_bytes r =
     (if kind r \<noteq> Stream then r
      else
        (let r1 = fst (append_event max_bytes
                    (error_payload (or_else (error r) ''Run failed.'')
                       (or_else (error_code r) ''run_failed'') (status r = TimedOut)) None r)
         in if terminal_event_emitted r1 then r1
            else fst (append_event max_bytes done_event None r1)))"

subsection \<open>Lookup, retention and admission\<close>

definition expired :: "rat \<Rightarrow> registry \<Rightarrow> nat \<Rightarrow> bool" where
  "expired now g k =
     (case finished_at (objects g ! k) of
        None \<Rightarrow> False
      | Some t \<Rightarrow> now - t > retention_seconds g)"

definition cleanup :: "rat \<Rightarrow> registry \<Rightarrow> registry" where
  "cleanup now g = g\<lparr>records := filter (\<lambda>(_, k). \<not> expired now g k) (records g)\<rparr>"

definition validate_owner :: "run_record \<Rightarrow> string option \<Rightarrow> (run_error, unit) result" where
  "validate_owner r uid =
     (if truthy (user_id r) \<and> user_id r \<noteq> uid then Inl (RunAccess (request_id r)) else Inr ())"

definition validate_existing ::
  "run_record \<Rightarrow> string \<Rightarrow> run_kind \<Rightarrow> string option \<Rightarrow> (run_error, unit) result" where
  "validate_existing r fp k uid =
     rbind (validate_owner r uid) (\<lambda>_.
       if fingerprint r \<noteq> fp \<or> kind r \<noteq> k then Inl RunConflict else Inr ())"

definition counts_as_pending :: "run_record \<Rightarrow> bool" where
  "counts_as_pending r = (\<not> is_terminal r \<and> status r \<noteq> WaitingForInput)"

definition pending :: "registry \<Rightarrow> nat" where
  "pending g = length (filter (\<lambda>(_, k). counts_as_pending (objects g ! k)) (records g))"

record start_request =
  q_request_id :: string
  q_fingerprint :: string
  q_kind :: run_kind
  q_agent_id :: string
  q_thread_id :: string
  q_user_id :: "string option"
  q_timeout :: "rat option"

definition effective_timeout :: "rat \<Rightarrow> rat option \<Rightarrow> rat" where
  "effective_timeout dt q =
     min (case q of None \<Rightarrow> dt | Some t \<Rightarrow> if t = 0 then dt else t) dt"

definition new_record :: "rat \<Rightarrow> registry \<Rightarrow> start_request \<Rightarrow> run_record" where
  "new_record now g q =
     \<lparr>request_id = q_request_id q, fingerprint = q_fingerprint q, kind = q_kind q,
      agent_id = q_agent_id q, thread_id = q_thread_id q, user_id = q_user_id q,
      timeout_seconds = effective_timeout (default_timeout g) (q_timeout q),
      event_buffer_size = buffer_size g, status = Queued, run_id = None, created_at = now,
      started_at = None, finished_at = None, result = None, error_code = None, error = None,
      http_status = 500, stream_failed = False, terminal_event_emitted = False,
      interaction_id = None, interaction_state_version = None, accepted_responses = [],
      event_keys = [], execution_generation = 1, events = [], next_event_id = 1,
      done_set = False, task = None\<rparr>"

definition spawn :: "nat \<Rightarrow> registry \<Rightarrow> registry" where
  "spawn k g =
     (let r = objects g ! k
      in (put_object k (r\<lparr>task := Some (length (tasks g))\<rparr>) g)
           \<lparr>tasks := tasks g @ [\<lparr>t_object = k, t_generation = execution_generation r,
                               t_phase = Created, t_cancelled = False\<rparr>]\<rparr>)"

definition start :: "rat \<Rightarrow> start_request \<Rightarrow> registry \<Rightarrow> registry \<times> (run_error, nat \<times> bool) result" where
  "start now q g0 =
     (let g = cleanup now g0 in
      case dget (records g) (q_request_id q) of
        Some k \<Rightarrow>
          (g, rbind (validate_existing (objects g ! k) (q_fingerprint q) (q_kind q) (q_user_id q))
                (\<lambda>_. Inr (k, False)))
      | None \<Rightarrow>
          if pending g \<ge> max_concurrent g + max_queued g then (g, Inl RunOverloaded)
          else
            (let k = length (objects g);
                 g1 = g\<lparr>objects := objects g @ [new_record now g q],
                        records := dset (q_request_id q) k (records g)\<rparr>
             in (spawn k g1, Inr (k, True))))"

definition get_run ::
  "rat \<Rightarrow> string \<Rightarrow> string option \<Rightarrow> registry \<Rightarrow> registry \<times> (run_error, nat) result" where
  "get_run now rid uid g0 =
     (let g = cleanup now g0 in
      case dget (records g) rid of
        None \<Rightarrow> (g, Inl (RunNotFound rid))
      | Some k \<Rightarrow> (g, rbind (validate_owner (objects g ! k) uid) (\<lambda>_. Inr k)))"

definition set_run_id :: "nat \<Rightarrow> string option \<Rightarrow> registry \<Rightarrow> registry" where
  "set_run_id k rid g =
     (let r = objects g ! k
      in if truthy rid \<and> \<not> truthy (run_id r) then put_object k (r\<lparr>run_id := rid\<rparr>) g else g)"

definition mark_stream_failed :: "nat \<Rightarrow> string \<Rightarrow> string \<Rightarrow> registry \<Rightarrow> registry" where
  "mark_stream_failed k code message g =
     put_object k ((objects g ! k)\<lparr>stream_failed := True, error_code := Some code,
        error := Some message\<rparr>) g"

definition append_run_event ::
  "nat \<Rightarrow> string \<Rightarrow> string option \<Rightarrow> registry \<Rightarrow> registry \<times> (run_error, nat) result" where
  "append_run_event k payload key g =
     (case append_event (max_event_bytes g) payload key (objects g ! k) of
        (r, res) \<Rightarrow> (put_object k r g, res))"

subsection \<open>Human input\<close>

definition pause_for_input ::
  "string \<Rightarrow> string \<Rightarrow> int \<Rightarrow> string \<Rightarrow> registry \<Rightarrow> registry \<times> (run_error, nat) result" where
  "pause_for_input rid iid version payload g =
     (if utf8_length payload > max_event_bytes g then (g, Inl (InvalidRunTransition EventTooLarge))
      else case dget (records g) rid of
        None \<Rightarrow> (g, Inl (RunNotFound rid))
      | Some k \<Rightarrow>
          (let r = objects g ! k in
           if status r = WaitingForInput then
             (if interaction_id r = Some iid \<and> interaction_state_version r = Some version
              then (g, Inr k) else (g, Inl (InteractionConflict DifferentInteraction)))
           else if status r \<noteq> Running then (g, Inl (InvalidRunTransition (CannotPause (status r))))
           else
             (put_object k (push_event payload
                (r\<lparr>status := WaitingForInput, interaction_id := Some iid,
                   interaction_state_version := Some version, finished_at := None,
                   done_set := False\<rparr>)) g, Inr k)))"

definition accept_response :: "string \<Rightarrow> string \<times> int \<Rightarrow> run_record \<Rightarrow> run_record" where
  "accept_response resp identity r =
     r\<lparr>accepted_responses := dset resp identity (accepted_responses r), status := Queued,
       interaction_id := None, interaction_state_version := None, finished_at := None,
       error_code := None, error := None, done_set := False,
       execution_generation := execution_generation r + 1\<rparr>"

definition resume ::
  "rat \<Rightarrow> string \<Rightarrow> string option \<Rightarrow> string \<Rightarrow> string \<Rightarrow> int \<Rightarrow> registry
     \<Rightarrow> registry \<times> (run_error, nat \<times> bool) result" where
  "resume now rid uid iid resp version g0 =
     (let g = cleanup now g0 in
      case dget (records g) rid of
        None \<Rightarrow> (g, Inl (RunNotFound rid))
      | Some k \<Rightarrow>
          (let r = objects g ! k in
           case validate_owner r uid of
             Inl e \<Rightarrow> (g, Inl e)
           | Inr _ \<Rightarrow>
               (case dget (accepted_responses r) resp of
                  Some prior \<Rightarrow>
                    if prior \<noteq> (iid, version) then (g, Inl (InteractionConflict ResponseReused))
                    else (g, Inr (k, False))
                | None \<Rightarrow>
                    if status r \<noteq> WaitingForInput then
                      (g, Inl (InvalidRunTransition (CannotResume (status r))))
                    else if interaction_id r \<noteq> Some iid then
                      (g, Inl (InteractionConflict InteractionMismatch))
                    else if interaction_state_version r \<noteq> Some version then
                      (g, Inl (InteractionConflict StaleVersion))
                    else
                      (spawn k (put_object k (accept_response resp (iid, version) r) g),
                       Inr (k, True)))))"

subsection \<open>Execution\<close>

text \<open>
  \<^verbatim>\<open>_execute\<close> between its suspension points. The registry lock is never held across a
  suspension, so taking it is not a step of its own. What the producer does, and how its
  await ends, is outside this file: \<open>outcome\<close> is any way the await can end.
\<close>

datatype outcome =
    Returned "string option"
  | RaisedTimeout
  | RaisedCancelled
  | RaisedHttp int string
  | RaisedOther

definition set_phase :: "nat \<Rightarrow> phase \<Rightarrow> registry \<Rightarrow> registry" where
  "set_phase i p g = g\<lparr>tasks := (tasks g)[i := (tasks g ! i)\<lparr>t_phase := p\<rparr>]\<rparr>"

definition finalise :: "rat \<Rightarrow> run_record \<Rightarrow> run_record" where
  "finalise now r =
     (if is_terminal r then r\<lparr>finished_at := Some now, done_set := True\<rparr> else r)"

definition begin_run :: "rat \<Rightarrow> run_record \<Rightarrow> run_record" where
  "begin_run now r =
     r\<lparr>status := Running,
       started_at := Some (case started_at r of None \<Rightarrow> now | Some t \<Rightarrow> t)\<rparr>"

definition exec_begin :: "rat \<Rightarrow> nat \<Rightarrow> registry \<Rightarrow> registry" where
  "exec_begin now i g =
     (let t = tasks g ! i; k = t_object t; r = objects g ! k
      in if execution_generation r \<noteq> t_generation t \<or> status r \<noteq> Queued
         then put_object k (finalise now r) (set_phase i Finished g)
         else put_object k (begin_run now r)
                ((set_phase i Producing g)\<lparr>permits := permits g - 1\<rparr>))"

definition complete_run :: "nat \<Rightarrow> string option \<Rightarrow> run_record \<Rightarrow> run_record" where
  "complete_run max_bytes res r =
     (let r1 = r\<lparr>result := res\<rparr>;
          r2 = (if kind r1 = Stream \<and> \<not> terminal_event_emitted r1
                then fst (append_event max_bytes done_event None r1) else r1);
          r3 = r2\<lparr>status := (if stream_failed r2 then Failed else Completed)\<rparr>
      in if stream_failed r3
         then r3\<lparr>error_code := Some (or_else (error_code r3) ''stream_error''),
                 error := Some (or_else (error r3) ''The agent stream reported an error.'')\<rparr>
         else r3)"

definition fail_run ::
  "nat \<Rightarrow> run_state \<Rightarrow> string \<Rightarrow> string \<Rightarrow> int \<Rightarrow> run_record \<Rightarrow> run_record" where
  "fail_run max_bytes st code message http r =
     emit_terminal_stream_error max_bytes
       (r\<lparr>status := st, error_code := Some code, error := Some message, http_status := http\<rparr>)"

text \<open>
  The branches of \<^verbatim>\<open>_execute\<close> for an awaited producer. Only the success branch compares
  the generation. \<open>fmt\<close> is Python's \<open>:g\<close> format of the time limit.
\<close>

definition settle ::
  "(rat \<Rightarrow> string) \<Rightarrow> nat \<Rightarrow> nat \<Rightarrow> outcome \<Rightarrow> run_record \<Rightarrow> run_record" where
  "settle fmt max_bytes generation out r =
     (case out of
        Returned res \<Rightarrow>
          if execution_generation r \<noteq> generation \<or> status r = WaitingForInput then r
          else complete_run max_bytes res r
      | RaisedTimeout \<Rightarrow>
          if status r = WaitingForInput then r
          else fail_run max_bytes TimedOut ''run_timeout''
                 (''Run exceeded '' @ fmt (timeout_seconds r) @ '' seconds.'') 504 r
      | RaisedCancelled \<Rightarrow>
          fail_run max_bytes Cancelled ''run_cancelled'' ''Run was cancelled.'' 409 r
      | RaisedHttp code detail \<Rightarrow>
          if status r = WaitingForInput then r
          else fail_run max_bytes Failed ''request_rejected'' detail code r
      | RaisedOther \<Rightarrow>
          if status r = WaitingForInput then r
          else fail_run max_bytes Failed ''internal_error'' ''Internal server error'' 500 r)"

definition exec_end ::
  "(rat \<Rightarrow> string) \<Rightarrow> rat \<Rightarrow> nat \<Rightarrow> outcome \<Rightarrow> registry \<Rightarrow> registry" where
  "exec_end fmt now i out g =
     (let t = tasks g ! i; k = t_object t
      in put_object k
           (finalise now (settle fmt (max_event_bytes g) (t_generation t) out (objects g ! k)))
           ((set_phase i Finished g)\<lparr>permits :=
              (if t_phase t = Producing then permits g + 1 else permits g)\<rparr>))"

subsection \<open>Cancellation, shutdown and metrics\<close>

definition task_running :: "registry \<Rightarrow> run_record \<Rightarrow> bool" where
  "task_running g r =
     (case task r of None \<Rightarrow> False | Some j \<Rightarrow> t_phase (tasks g ! j) \<noteq> Finished)"

definition cancel_task :: "nat \<Rightarrow> registry \<Rightarrow> registry" where
  "cancel_task j g = g\<lparr>tasks := (tasks g)[j := (tasks g ! j)\<lparr>t_cancelled := True\<rparr>]\<rparr>"

definition cancel ::
  "rat \<Rightarrow> string \<Rightarrow> string option \<Rightarrow> registry \<Rightarrow> registry \<times> (run_error, nat) result" where
  "cancel now rid uid g0 =
     (case get_run now rid uid g0 of
        (g, Inl e) \<Rightarrow> (g, Inl e)
      | (g, Inr k) \<Rightarrow>
          (let r = objects g ! k in
           if is_terminal r then (g, Inr k)
           else if task_running g r then
             (cancel_task (the (task r))
                (put_object k (r\<lparr>error_code := Some ''cancel_requested'',
                                error := Some ''Cancellation requested.''\<rparr>) g), Inr k)
           else if status r = WaitingForInput then
             (put_object k ((emit_terminal_stream_error (max_event_bytes g)
                (r\<lparr>status := Cancelled, error_code := Some ''run_cancelled'',
                   error := Some ''Run was cancelled.'', http_status := 409,
                   finished_at := Some now\<rparr>))\<lparr>done_set := True\<rparr>) g, Inr k)
           else (g, Inr k)))"

definition shutdown_runs :: "registry \<Rightarrow> registry" where
  "shutdown_runs g =
     foldl (\<lambda>g' (_, k). let r = objects g' ! k
                        in if task_running g' r then cancel_task (the (task r)) g' else g')
       g (records g)"

definition all_states :: "run_state list" where
  "all_states = [Queued, Running, WaitingForInput, Completed, Failed, Cancelled, TimedOut]"

record metrics_view =
  m_counts :: "(run_state \<times> nat) list"
  m_retained :: nat
  m_capacity :: nat
  m_queue_capacity :: nat

definition metrics :: "rat \<Rightarrow> registry \<Rightarrow> registry \<times> metrics_view" where
  "metrics now g0 =
     (let g = cleanup now g0 in
      (g, \<lparr>m_counts = foldl (\<lambda>c (_, k). let s = status (objects g ! k) in dset s (dget_or c s 0 + 1) c)
                        (map (\<lambda>s. (s, 0)) all_states) (records g),
           m_retained = length (records g), m_capacity = max_concurrent g,
           m_queue_capacity = max_queued g\<rparr>))"

subsection \<open>Replay\<close>

text \<open>
  A frame is an event id with its payload, before \<^verbatim>\<open>format_buffered_sse\<close> renders it.
  \<open>replay_gap\<close> is the check before the loop; \<open>replay_round\<close> is one turn of the loop that
  finds something to do: the frames it yields, the new cursor, and whether it returns.
\<close>

definition replay_gap :: "run_record \<Rightarrow> int \<Rightarrow> (int \<times> string) option" where
  "replay_gap r seen =
     (if seen > int (next_event_id r) - 1 then
        Some (seen + 1, error_payload
          ''The requested replay position is ahead of the current run; reload thread history.''
          ''replay_gap'' False)
      else case events r of
        [] \<Rightarrow> None
      | (oldest, _) # _ \<Rightarrow>
          if seen < int oldest - 1 then
            Some (int oldest - 1, error_payload
              ''The requested replay position is no longer buffered; reload thread history.''
              ''replay_gap'' False)
          else None)"

definition replay_round :: "run_record \<Rightarrow> int \<Rightarrow> (nat \<times> string) list \<times> int \<times> bool" where
  "replay_round r cursor =
     (let available = filter (\<lambda>(e, _). int e > cursor) (events r);
          cursor' = (if available = [] then cursor else int (fst (last available)))
      in (available, cursor',
          (is_terminal r \<or> status r = WaitingForInput) \<and> cursor' \<ge> int (next_event_id r) - 1))"

subsection \<open>The step relation\<close>

inductive registry_step :: "(rat \<Rightarrow> string) \<Rightarrow> registry \<Rightarrow> registry \<Rightarrow> bool" for fmt where
  step_start: "registry_step fmt g (fst (start now q g))"
| step_get: "registry_step fmt g (fst (get_run now rid uid g))"
| step_set_run_id: "k < length (objects g) \<Longrightarrow> registry_step fmt g (set_run_id k rid' g)"
| step_mark: "k < length (objects g) \<Longrightarrow> registry_step fmt g (mark_stream_failed k code msg g)"
| step_append: "k < length (objects g) \<Longrightarrow>
    registry_step fmt g (fst (append_run_event k payload key g))"
| step_pause: "registry_step fmt g (fst (pause_for_input rid iid version payload g))"
| step_resume: "registry_step fmt g (fst (resume now rid uid iid resp version g))"
| step_wait: "i < length (tasks g) \<Longrightarrow> t_phase (tasks g ! i) = Created \<Longrightarrow>
    \<not> t_cancelled (tasks g ! i) \<Longrightarrow> permits g = 0 \<Longrightarrow>
    registry_step fmt g (set_phase i Pending g)"
| step_begin: "i < length (tasks g) \<Longrightarrow> t_phase (tasks g ! i) \<in> {Created, Pending} \<Longrightarrow>
    \<not> t_cancelled (tasks g ! i) \<Longrightarrow> 0 < permits g \<Longrightarrow>
    registry_step fmt g (exec_begin now i g)"
| step_abandon: "i < length (tasks g) \<Longrightarrow> t_phase (tasks g ! i) = Created \<Longrightarrow>
    t_cancelled (tasks g ! i) \<Longrightarrow> registry_step fmt g (set_phase i Finished g)"
| step_abort: "i < length (tasks g) \<Longrightarrow> t_phase (tasks g ! i) = Pending \<Longrightarrow>
    t_cancelled (tasks g ! i) \<Longrightarrow> registry_step fmt g (exec_end fmt now i RaisedCancelled g)"
| step_end: "i < length (tasks g) \<Longrightarrow> t_phase (tasks g ! i) = Producing \<Longrightarrow>
    registry_step fmt g (exec_end fmt now i out g)"
| step_cancel: "registry_step fmt g (fst (cancel now rid uid g))"
| step_shutdown: "registry_step fmt g (shutdown_runs g)"
| step_metrics: "registry_step fmt g (fst (metrics now g))"

definition initial_registry :: "registry \<Rightarrow> bool" where
  "initial_registry g = (\<exists>mc mq dt eb mb rs. g = empty_registry mc mq dt eb mb rs)"

subsection \<open>Invariants\<close>

definition events_ok :: "run_record \<Rightarrow> bool" where
  "events_ok r =
     (1 \<le> next_event_id r \<and>
      map fst (events r) =
        [next_event_id r - min (event_buffer_size r) (next_event_id r - 1) ..< next_event_id r] \<and>
      (\<forall>(key, e) \<in> set (event_keys r). 1 \<le> e \<and> e < next_event_id r))"

definition done_ok :: "run_record \<Rightarrow> bool" where
  "done_ok r = ((is_terminal r \<longleftrightarrow> finished_at r \<noteq> None) \<and> (done_set r \<longleftrightarrow> is_terminal r))"

definition interaction_ok :: "run_record \<Rightarrow> bool" where
  "interaction_ok r =
     ((status r = WaitingForInput \<longrightarrow> interaction_id r \<noteq> None \<and> interaction_state_version r \<noteq> None) \<and>
      (status r \<in> {Queued, Running} \<longrightarrow> interaction_id r = None \<and> interaction_state_version r = None))"

definition generation_ok :: "run_record \<Rightarrow> bool" where
  "generation_ok r = (dict_wf (accepted_responses r) \<and>
     execution_generation r = 1 + length (accepted_responses r))"

definition terminal_event_ok :: "nat \<Rightarrow> run_record \<Rightarrow> bool" where
  "terminal_event_ok max_bytes r =
     (kind r = Stream \<and> is_terminal r \<and> 14 \<le> max_bytes \<longrightarrow> terminal_event_emitted r)"

definition record_inv :: "nat \<Rightarrow> run_record \<Rightarrow> bool" where
  "record_inv max_bytes r =
     (events_ok r \<and> done_ok r \<and> interaction_ok r \<and> generation_ok r \<and> terminal_event_ok max_bytes r)"

text \<open>What the registry keeps between a record and its current task.\<close>

definition linked :: "nat \<Rightarrow> run_record \<Rightarrow> run_task \<Rightarrow> bool" where
  "linked k r t =
     (t_object t = k \<and> t_generation t = execution_generation r \<and>
      (status r = Running \<longrightarrow> t_phase t = Producing) \<and>
      (status r = Queued \<longrightarrow> t_phase t \<in> {Created, Pending} \<or> t_phase t = Finished \<and> t_cancelled t) \<and>
      (execution_generation r = 1 \<and> is_terminal r \<longrightarrow> t_phase t = Finished))"

definition tasks_ok :: "run_record list \<Rightarrow> run_task list \<Rightarrow> bool" where
  "tasks_ok objs ts =
     (distinct (map (\<lambda>t. (t_object t, t_generation t)) ts) \<and>
      (\<forall>t \<in> set ts. t_object t < length objs \<and> 1 \<le> t_generation t \<and>
         t_generation t \<le> execution_generation (objs ! t_object t)) \<and>
      (\<forall>k < length objs. \<exists>j < length ts. task (objs ! k) = Some j \<and> linked k (objs ! k) (ts ! j)))"

definition producing :: "run_task list \<Rightarrow> nat" where
  "producing ts = length (filter (\<lambda>t. t_phase t = Producing) ts)"

definition records_ok :: "registry \<Rightarrow> bool" where
  "records_ok g = (dict_wf (records g) \<and>
     (\<forall>(rid, k) \<in> set (records g). k < length (objects g) \<and> request_id (objects g ! k) = rid))"

definition registry_inv :: "registry \<Rightarrow> bool" where
  "registry_inv g =
     (records_ok g \<and> (\<forall>r \<in> set (objects g). record_inv (max_event_bytes g) r) \<and>
      tasks_ok (objects g) (tasks g) \<and> permits g + producing (tasks g) = max_concurrent g)"

lemmas record_inv_defs = record_inv_def events_ok_def done_ok_def interaction_ok_def
  generation_ok_def terminal_event_ok_def is_terminal_def

lemma is_terminal_status [simp]:
  "is_terminal (r\<lparr>status := st\<rparr>) = (st \<in> {Completed, Failed, Cancelled, TimedOut})"
  by (simp add: is_terminal_def)

subsection \<open>Events of one record\<close>

lemma deque_append_ids:
  assumes "map fst xs = [n - min m (n - 1) ..< n]" and "1 \<le> n"
  shows "map fst (deque_append m xs (n, p)) = [Suc n - min m n ..< Suc n]"
proof -
  have len: "length xs = min m (n - 1)"
    using arg_cong[OF assms(1), of length] assms(2) by simp
  have "map fst (xs @ [(n, p)]) = [n - min m (n - 1) ..< Suc n]"
    using assms by simp
  moreover have "map fst (deque_append m xs (n, p)) =
      drop (length (xs @ [(n, p)]) - m) (map fst (xs @ [(n, p)]))"
    by (simp only: deque_append_def Let_def drop_map)
  ultimately have eq: "map fst (deque_append m xs (n, p)) =
      [n - min m (n - 1) + (Suc (min m (n - 1)) - m) ..< Suc n]"
    using len by (simp add: drop_upt del: upt_Suc)
  have "n - min m (n - 1) + (Suc (min m (n - 1)) - m) = Suc n - min m n"
    using assms(2) by (auto simp: min_def)
  with eq show ?thesis by (simp only:)
qed

lemma push_event_ok: "events_ok r \<Longrightarrow> events_ok (push_event p r)"
  unfolding events_ok_def push_event_def
  using deque_append_ids[of "events r" "next_event_id r" "event_buffer_size r" p]
  by (auto simp del: upt_Suc simp: less_Suc_eq)

lemma dset_entries: "(k', v') \<in> set (dset k v d) \<Longrightarrow> (k', v') = (k, v) \<or> (k', v') \<in> set d"
  by (induction k v d rule: dset.induct) (auto split: if_splits)

text \<open>Appending changes nothing but the events, the error fields and the two stream flags.\<close>

definition same_control :: "run_record \<Rightarrow> run_record \<Rightarrow> bool" where
  "same_control r r' =
     (request_id r' = request_id r \<and> kind r' = kind r \<and> status r' = status r \<and>
      user_id r' = user_id r \<and> fingerprint r' = fingerprint r \<and>
      next_event_id r \<le> next_event_id r' \<and>
      finished_at r' = finished_at r \<and> done_set r' = done_set r \<and>
      interaction_id r' = interaction_id r \<and>
      interaction_state_version r' = interaction_state_version r \<and>
      accepted_responses r' = accepted_responses r \<and>
      execution_generation r' = execution_generation r \<and> task r' = task r \<and>
      (terminal_event_emitted r \<longrightarrow> terminal_event_emitted r'))"

lemma same_control_refl [simp]: "same_control r r"
  by (simp add: same_control_def)

lemma same_control_trans: "same_control a b \<Longrightarrow> same_control b c \<Longrightarrow> same_control a c"
  by (simp add: same_control_def)

lemma same_control_push [simp]: "same_control r (push_event p r)"
  by (simp add: same_control_def push_event_def)

lemma append_event_control: "same_control r (fst (append_event mb payload key r))"
  by (auto simp: append_event_def same_control_def push_event_def Let_def split: option.splits)

lemma append_event_ok: "events_ok r \<Longrightarrow> events_ok (fst (append_event mb payload key r))"
proof -
  assume ok: "events_ok r"
  have emit: "events_ok (r'\<lparr>terminal_event_emitted := b\<rparr>) = events_ok r'" for r' b
    by (simp add: events_ok_def)
  have err: "events_ok (r'\<lparr>stream_failed := b, error_code := c, error := e\<rparr>) = events_ok r'" for r' b c e
    by (simp add: events_ok_def)
  have key: "events_ok ((push_event p r')\<lparr>event_keys := dset k (next_event_id r') (event_keys (push_event p r'))\<rparr>)"
    if "events_ok r'" for r' p k
  proof -
    have "(k', e) \<in> set (dset k (next_event_id r') (event_keys (push_event p r'))) \<Longrightarrow>
        1 \<le> e \<and> e < next_event_id (push_event p r')" for k' e
      using that push_event_ok[OF that, of p] dset_entries[of k' e k]
      by (fastforce simp: events_ok_def push_event_def)
    then show ?thesis using push_event_ok[OF that, of p] by (auto simp: events_ok_def)
  qed
  show ?thesis
    using ok push_event_ok key by (auto simp: append_event_def Let_def emit err split: option.splits)
qed

lemma contains_sub_prefix: "starts_with s p \<Longrightarrow> contains_sub s p"
  by (cases s) (auto simp: starts_with_def)

lemma done_event_marker: "contains_sub done_event done_marker"
  by (rule contains_sub_prefix) (simp add: done_event_def done_marker_def starts_with_def)

lemma done_event_length: "utf8_length done_event = 14"
  by (simp add: done_event_def utf8_length_def)

lemma append_done_emits:
  assumes "14 \<le> mb" and "status r \<noteq> WaitingForInput"
  shows "terminal_event_emitted (fst (append_event mb done_event None r))"
  using assms by (simp add: append_event_def done_event_marker done_event_length truthy_def Let_def)

lemma emit_terminal_control: "same_control r (emit_terminal_stream_error mb r)"
  unfolding emit_terminal_stream_error_def Let_def
  by (auto intro: append_event_control same_control_trans[OF append_event_control append_event_control])

lemma emit_terminal_ok: "events_ok r \<Longrightarrow> events_ok (emit_terminal_stream_error mb r)"
  by (auto simp: emit_terminal_stream_error_def Let_def intro: append_event_ok)

lemma emit_terminal_emits:
  assumes "14 \<le> mb" and "status r \<noteq> WaitingForInput" and "kind r = Stream"
  shows "terminal_event_emitted (emit_terminal_stream_error mb r)"
proof -
  let ?r = "fst (append_event mb (error_payload (or_else (error r) ''Run failed.'')
       (or_else (error_code r) ''run_failed'') (status r = TimedOut)) None r)"
  have "status ?r = status r" using append_event_control[of r mb] by (simp add: same_control_def)
  then show ?thesis
    using append_done_emits[OF assms(1), of ?r] assms
    by (auto simp: emit_terminal_stream_error_def Let_def)
qed

subsection \<open>Every record transition keeps the record invariant\<close>

lemma record_inv_control:
  assumes "record_inv mb r" and "same_control r r'" and "events_ok r'"
  shows "record_inv mb r'"
  using assms unfolding record_inv_def same_control_def done_ok_def interaction_ok_def
    generation_ok_def terminal_event_ok_def is_terminal_def by simp

lemma record_inv_append: "record_inv mb r \<Longrightarrow> record_inv mb (fst (append_event n payload key r))"
  by (rule record_inv_control[OF _ append_event_control]) (auto simp: record_inv_def append_event_ok)

lemma record_inv_new:
  "record_inv mb (new_record now g q)" "record_inv mb (new_record now g q\<lparr>task := j\<rparr>)"
  by (simp_all add: record_inv_def new_record_def events_ok_def done_ok_def interaction_ok_def
      generation_ok_def terminal_event_ok_def is_terminal_def dict_simps)

lemma record_inv_set_run_id: "record_inv mb r \<Longrightarrow> record_inv mb (r\<lparr>run_id := x\<rparr>)"
  by (simp add: record_inv_defs)

lemma record_inv_error: "record_inv mb r \<Longrightarrow> record_inv mb (r\<lparr>error_code := c, error := e\<rparr>)"
  by (simp add: record_inv_defs)

lemma record_inv_mark:
  "record_inv mb r \<Longrightarrow> record_inv mb (r\<lparr>stream_failed := b, error_code := c, error := e\<rparr>)"
  by (simp add: record_inv_defs)

lemma record_inv_begin: "record_inv mb r \<Longrightarrow> status r = Queued \<Longrightarrow> record_inv mb (begin_run now r)"
  by (auto simp: record_inv_def begin_run_def events_ok_def done_ok_def interaction_ok_def
      generation_ok_def terminal_event_ok_def is_terminal_def)

lemma record_inv_finalise: "record_inv mb r \<Longrightarrow> record_inv mb (finalise now r)"
  by (auto simp: record_inv_def finalise_def events_ok_def done_ok_def interaction_ok_def
      generation_ok_def terminal_event_ok_def is_terminal_def)

lemma record_inv_pause:
  assumes "record_inv mb r" and "status r = Running"
  shows "record_inv mb (push_event p (r\<lparr>status := WaitingForInput, interaction_id := Some iid,
     interaction_state_version := Some v, finished_at := None, done_set := False\<rparr>))"
    (is "record_inv mb (push_event p ?r)")
proof (rule record_inv_control[OF _ same_control_push])
  show r: "record_inv mb ?r"
    using assms by (auto simp: record_inv_def events_ok_def done_ok_def interaction_ok_def
        generation_ok_def terminal_event_ok_def is_terminal_def)
  show "events_ok (push_event p ?r)"
    using r by (intro push_event_ok) (simp add: record_inv_def)
qed

lemma length_dset_new: "dget d k = None \<Longrightarrow> length (dset k v d) = Suc (length d)"
  by (induction k v d rule: dset.induct) (auto split: if_splits)

lemma record_inv_accept:
  assumes "record_inv mb r" and "status r = WaitingForInput" and "dget (accepted_responses r) resp = None"
  shows "record_inv mb (accept_response resp x r)"
  using assms by (auto simp: accept_response_def record_inv_def events_ok_def done_ok_def
      interaction_ok_def generation_ok_def terminal_event_ok_def is_terminal_def dict_simps length_dset_new)

text \<open>A settled record may be terminal before its end time is set.\<close>

definition settled :: "nat \<Rightarrow> run_record \<Rightarrow> bool" where
  "settled mb r = (events_ok r \<and> is_terminal r \<and> generation_ok r \<and> terminal_event_ok mb r)"

lemma settled_finalise: "settled mb r \<Longrightarrow> record_inv mb (finalise now r)"
  by (auto simp: settled_def record_inv_def finalise_def events_ok_def done_ok_def interaction_ok_def
      generation_ok_def terminal_event_ok_def is_terminal_def)

lemma settled_emit:
  assumes "events_ok r" and "is_terminal r" and "generation_ok r"
  shows "settled mb (emit_terminal_stream_error mb r)"
proof -
  let ?r = "emit_terminal_stream_error mb r"
  have c: "same_control r ?r" by (rule emit_terminal_control)
  have "status r \<noteq> WaitingForInput" using assms(2) by (auto simp: is_terminal_def)
  then have "terminal_event_ok mb ?r"
    using emit_terminal_emits[of mb r] c by (auto simp: terminal_event_ok_def same_control_def)
  moreover have "is_terminal ?r" "generation_ok ?r"
    using c assms by (auto simp: same_control_def is_terminal_def generation_ok_def)
  ultimately show ?thesis using emit_terminal_ok[OF assms(1)] by (simp add: settled_def)
qed

lemma settled_fail:
  assumes "record_inv mb' r" and "st \<in> {Failed, Cancelled, TimedOut}"
  shows "settled mb (fail_run mb st code msg http r)"
  unfolding fail_run_def using assms
  by (intro settled_emit) (auto simp: record_inv_def events_ok_def generation_ok_def is_terminal_def)

lemma settled_complete:
  assumes "record_inv mb' r" and "status r \<noteq> WaitingForInput"
  shows "settled mb (complete_run mb res r)"
proof -
  let ?r1 = "r\<lparr>result := res\<rparr>"
  let ?r2 = "if kind ?r1 = Stream \<and> \<not> terminal_event_emitted ?r1
     then fst (append_event mb done_event None ?r1) else ?r1"
  have c: "same_control ?r1 ?r2" using append_event_control[of ?r1] by simp
  have "events_ok ?r1" using assms(1) by (simp add: record_inv_def events_ok_def)
  then have e: "events_ok ?r2" using append_event_ok[of ?r1] by simp
  have g: "generation_ok ?r2"
    using c assms(1) by (auto simp: record_inv_def generation_ok_def same_control_def)
  have "kind ?r2 = Stream \<longrightarrow> 14 \<le> mb \<longrightarrow> terminal_event_emitted ?r2"
    using append_done_emits[of mb ?r1] assms(2) c by (auto simp: same_control_def)
  with e g show ?thesis
    unfolding complete_run_def Let_def settled_def events_ok_def generation_ok_def
      terminal_event_ok_def is_terminal_def
    by (simp split del: if_split) (simp split: if_splits)
qed

definition settling :: "nat \<Rightarrow> outcome \<Rightarrow> run_record \<Rightarrow> bool" where
  "settling generation out r =
     (case out of
        Returned _ \<Rightarrow> execution_generation r = generation \<and> status r \<noteq> WaitingForInput
      | RaisedCancelled \<Rightarrow> True
      | _ \<Rightarrow> status r \<noteq> WaitingForInput)"

lemma settle_not: "\<not> settling n out r \<Longrightarrow> settle fmt mb n out r = r"
  by (auto simp: settling_def settle_def split: outcome.splits)

lemma settle_settled:
  assumes "record_inv mb' r" and "settling n out r"
  shows "settled mb (settle fmt mb n out r)"
  using assms settled_fail[OF assms(1)] settled_complete[OF assms(1)]
  by (auto simp: settling_def settle_def split: outcome.splits)

lemma fail_run_frame:
  "request_id (fail_run mb st c m h r) = request_id r"
  "execution_generation (fail_run mb st c m h r) = execution_generation r"
  "task (fail_run mb st c m h r) = task r"
  "status (fail_run mb st c m h r) = st"
  "finished_at (fail_run mb st c m h r) = finished_at r"
  using emit_terminal_control[of "r\<lparr>status := st, error_code := Some c, error := Some m, http_status := h\<rparr>" mb]
  by (auto simp: fail_run_def same_control_def)

lemma complete_run_frame:
  "request_id (complete_run mb res r) = request_id r"
  "execution_generation (complete_run mb res r) = execution_generation r"
  "task (complete_run mb res r) = task r"
  using append_event_control[of "r\<lparr>result := res\<rparr>" mb done_event None]
  by (auto simp: complete_run_def same_control_def Let_def)

lemma settle_frame:
  "request_id (settle fmt mb n out r) = request_id r"
  "execution_generation (settle fmt mb n out r) = execution_generation r"
  "task (settle fmt mb n out r) = task r"
  by (simp_all add: settle_def fail_run_frame complete_run_frame split: outcome.splits)

lemma finalise_frame [simp]:
  "request_id (finalise now r) = request_id r"
  "execution_generation (finalise now r) = execution_generation r"
  "task (finalise now r) = task r" "status (finalise now r) = status r"
  "is_terminal (finalise now r) = is_terminal r"
  by (auto simp: finalise_def is_terminal_def)

lemma record_inv_settle:
  assumes "record_inv mb r"
  shows "record_inv mb (finalise now (settle fmt mb n out r))"
  using assms settled_finalise[OF settle_settled[OF assms]] record_inv_finalise[OF assms]
  by (cases "settling n out r") (simp_all add: settle_not)

subsection \<open>Every step keeps the registry invariant\<close>

lemma tasks_ok_current:
  assumes "tasks_ok objs ts" and "i < length ts" and "t_object (ts ! i) = k"
    and "t_generation (ts ! i) = execution_generation (objs ! k)"
  shows "task (objs ! k) = Some i"
proof -
  have k: "k < length objs" using assms nth_mem[OF assms(2)] by (auto simp: tasks_ok_def)
  then obtain j where j: "j < length ts" "task (objs ! k) = Some j" "linked k (objs ! k) (ts ! j)"
    using assms(1) by (auto simp: tasks_ok_def)
  let ?f = "\<lambda>t. (t_object t, t_generation t)"
  have "distinct (map ?f ts)" using assms(1) by (simp add: tasks_ok_def)
  moreover have "map ?f ts ! i = map ?f ts ! j"
    using j assms(2-4) by (simp add: linked_def)
  ultimately have "i = j" using j(1) assms(2) by (simp only: nth_eq_iff_index_eq length_map)
  with j show ?thesis by simp
qed

lemma tasks_ok_task:
  assumes "tasks_ok objs ts" and "i < length ts"
  shows "t_object (ts ! i) < length objs" "1 \<le> t_generation (ts ! i)"
    "t_generation (ts ! i) \<le> execution_generation (objs ! t_object (ts ! i))"
  using assms nth_mem[OF assms(2)] by (auto simp: tasks_ok_def)

lemma tasks_ok_record:
  assumes "tasks_ok objs ts" and "k < length objs"
  obtains j where "j < length ts" "task (objs ! k) = Some j" "linked k (objs ! k) (ts ! j)"
  using assms by (auto simp: tasks_ok_def)

lemma tasks_ok_update:
  assumes ok: "tasks_ok objs ts" and i: "i < length ts" and k: "t_object (ts ! i) = k"
    and same: "t_object t' = k" "t_generation t' = t_generation (ts ! i)"
    and rec: "task r' = task (objs ! k)" "execution_generation r' = execution_generation (objs ! k)"
    and cur: "task r' = Some i \<Longrightarrow> linked k r' t'"
    and other: "\<And>j. task r' = Some j \<Longrightarrow> j \<noteq> i \<Longrightarrow> linked k r' (ts ! j)"
  shows "tasks_ok (objs[k := r']) (ts[i := t'])"
proof -
  have klen: "k < length objs" using tasks_ok_task(1)[OF ok i] k by simp
  have dist: "distinct (map (\<lambda>t. (t_object t, t_generation t)) (ts[i := t']))"
  proof -
    have "map (\<lambda>t. (t_object t, t_generation t)) (ts[i := t']) = map (\<lambda>t. (t_object t, t_generation t)) ts"
      using i k same by (intro map_update_same) auto
    then show ?thesis using ok by (simp add: tasks_ok_def)
  qed
  have bounds: "t_object t < length objs \<and> 1 \<le> t_generation t \<and>
      t_generation t \<le> execution_generation (objs[k := r'] ! t_object t)" if "t \<in> set (ts[i := t'])" for t
  proof -
    have gen: "execution_generation (objs[k := r'] ! m) = execution_generation (objs ! m)"
      if "m < length objs" for m
      using rec klen by (cases "m = k") simp_all
    from that consider "t = t'" | "t \<in> set ts" using set_update_subset_insert by fastforce
    then show ?thesis
    proof cases
      case 1
      then show ?thesis using tasks_ok_task[OF ok i] same k gen[OF klen] klen by simp
    next
      case 2
      then have "t_object t < length objs" using ok by (simp add: tasks_ok_def)
      then show ?thesis using 2 ok gen[of "t_object t"] by (simp add: tasks_ok_def)
    qed
  qed
  have link: "\<exists>j < length (ts[i := t']). task (objs[k := r'] ! m) = Some j \<and>
      linked m (objs[k := r'] ! m) (ts[i := t'] ! j)" if "m < length (objs[k := r'])" for m
  proof (cases "m = k")
    case True
    obtain j where "j < length ts" "task (objs ! k) = Some j"
      using tasks_ok_record[OF ok klen] by metis
    then show ?thesis using True klen rec(1) cur other[of j] by (cases "j = i") auto
  next
    case False
    from that have "m < length objs" by simp
    then obtain j where j: "j < length ts" "task (objs ! m) = Some j" "linked m (objs ! m) (ts ! j)"
      using tasks_ok_record[OF ok] by metis
    then have "j \<noteq> i" using k False by (auto simp: linked_def)
    then show ?thesis using j False by auto
  qed
  have "\<forall>t \<in> set (ts[i := t']). t_object t < length (objs[k := r']) \<and> 1 \<le> t_generation t \<and>
      t_generation t \<le> execution_generation (objs[k := r'] ! t_object t)"
    using bounds by simp
  with dist link show ?thesis unfolding tasks_ok_def by blast
qed

lemma tasks_ok_put:
  assumes "tasks_ok objs ts" and "k < length objs" and "task r' = task (objs ! k)"
    and "execution_generation r' = execution_generation (objs ! k)"
    and "\<And>j. task (objs ! k) = Some j \<Longrightarrow> linked k (objs ! k) (ts ! j) \<Longrightarrow> linked k r' (ts ! j)"
  shows "tasks_ok (objs[k := r']) ts"
proof -
  obtain j where j: "j < length ts" "task (objs ! k) = Some j" "linked k (objs ! k) (ts ! j)"
    using tasks_ok_record[OF assms(1,2)] by metis
  have "tasks_ok (objs[k := r']) (ts[j := ts ! j])"
    using j assms by (intro tasks_ok_update) (auto simp: linked_def)
  then show ?thesis by simp
qed

lemma tasks_ok_put_status:
  assumes "tasks_ok objs ts" and "k < length objs" and "task r' = task (objs ! k)"
    and "execution_generation r' = execution_generation (objs ! k)" and "status r' = status (objs ! k)"
  shows "tasks_ok (objs[k := r']) ts"
  using assms by (intro tasks_ok_put) (auto simp: linked_def is_terminal_def)

lemma tasks_ok_append:
  assumes ok: "tasks_ok objs ts" and gen: "execution_generation r = 1" "status r = Queued"
    "task r = Some (length ts)" and t: "t_object t = length objs" "t_generation t = 1" "t_phase t = Created"
  shows "tasks_ok (objs @ [r]) (ts @ [t])"
proof -
  have fresh: "t_object u < length objs \<and> 1 \<le> t_generation u \<and>
      t_generation u \<le> execution_generation (objs ! t_object u)" if "u \<in> set ts" for u
    using that ok by (auto simp: tasks_ok_def)
  have "distinct (map (\<lambda>t. (t_object t, t_generation t)) (ts @ [t]))"
    using ok t fresh by (fastforce simp: tasks_ok_def)
  moreover have "\<forall>u \<in> set (ts @ [t]). t_object u < length (objs @ [r]) \<and> 1 \<le> t_generation u \<and>
      t_generation u \<le> execution_generation ((objs @ [r]) ! t_object u)"
    using fresh gen t by (auto simp: nth_append dest: fresh)
  moreover have "\<exists>j < length (ts @ [t]). task ((objs @ [r]) ! k) = Some j \<and>
      linked k ((objs @ [r]) ! k) ((ts @ [t]) ! j)" if "k < length (objs @ [r])" for k
  proof (cases "k = length objs")
    case True
    then show ?thesis using gen t by (auto simp: linked_def is_terminal_def)
  next
    case False
    then have "k < length objs" using that by simp
    from tasks_ok_record[OF ok this] show ?thesis
      using \<open>k < length objs\<close> by (metis length_append less_imp_le_nat nth_append trans_less_add1)
  qed
  ultimately show ?thesis unfolding tasks_ok_def by blast
qed

lemma tasks_ok_respawn:
  assumes ok: "tasks_ok objs ts" and k: "k < length objs"
    and r': "execution_generation r' = execution_generation (objs ! k) + 1" "status r' = Queued"
    "task r' = Some (length ts)"
    and t: "t_object t = k" "t_generation t = execution_generation r'" "t_phase t = Created"
  shows "tasks_ok (objs[k := r']) (ts @ [t])"
proof -
  have old: "t_object u < length objs \<and> 1 \<le> t_generation u \<and>
      t_generation u \<le> execution_generation (objs ! t_object u)" if "u \<in> set ts" for u
    using that ok by (auto simp: tasks_ok_def)
  have "distinct (map (\<lambda>t. (t_object t, t_generation t)) (ts @ [t]))"
    using ok t r' old by (fastforce simp: tasks_ok_def)
  moreover have "t_object u < length (objs[k := r']) \<and> 1 \<le> t_generation u \<and>
      t_generation u \<le> execution_generation (objs[k := r'] ! t_object u)" if "u \<in> set (ts @ [t])" for u
  proof (cases "u \<in> set ts")
    case True
    from old[OF this] show ?thesis using k r' by (cases "t_object u = k") simp_all
  next
    case False
    then show ?thesis using that t k r' by simp
  qed
  moreover have "\<exists>j < length (ts @ [t]). task (objs[k := r'] ! m) = Some j \<and>
      linked m (objs[k := r'] ! m) ((ts @ [t]) ! j)" if "m < length (objs[k := r'])" for m
  proof (cases "m = k")
    case True
    then show ?thesis using k r' t by (auto simp: linked_def is_terminal_def)
  next
    case False
    have "m < length objs" using that by simp
    from tasks_ok_record[OF ok this] show ?thesis using False
      by (metis length_append nth_append nth_list_update_neq trans_less_add1)
  qed
  ultimately show ?thesis unfolding tasks_ok_def by blast
qed

lemma registry_inv_object: "registry_inv g \<Longrightarrow> k < length (objects g) \<Longrightarrow> record_inv (max_event_bytes g) (objects g ! k)"
  by (simp add: registry_inv_def)

lemma registry_inv_lookup:
  "registry_inv g \<Longrightarrow> dget (records g) rid = Some k \<Longrightarrow> k < length (objects g) \<and> request_id (objects g ! k) = rid"
  by (auto simp: registry_inv_def records_ok_def dest: map_of_SomeD)

lemma records_ok_put:
  "records_ok g \<Longrightarrow> request_id r' = request_id (objects g ! k) \<Longrightarrow> records g' = records g \<Longrightarrow>
   objects g' = (objects g)[k := r'] \<Longrightarrow> records_ok g'"
proof -
  assume a: "records_ok g" "request_id r' = request_id (objects g ! k)" "records g' = records g"
    "objects g' = (objects g)[k := r']"
  have "request_id (objects g' ! m) = request_id (objects g ! m)" if "m < length (objects g)" for m
    using that a(2,4) by (cases "m = k") simp_all
  then show ?thesis using a(1,3,4) by (simp add: records_ok_def split_beta)
qed

lemma registry_inv_update:
  assumes inv: "registry_inv g" and k: "k < length (objects g)"
    and r': "record_inv (max_event_bytes g) r'" "request_id r' = request_id (objects g ! k)"
    and g': "records g' = records g" "objects g' = (objects g)[k := r']"
      "max_event_bytes g' = max_event_bytes g" "max_concurrent g' = max_concurrent g"
    and ts: "tasks_ok (objects g') (tasks g')" "permits g' + producing (tasks g') = max_concurrent g"
  shows "registry_inv g'"
proof -
  have "\<forall>r \<in> set (objects g'). record_inv (max_event_bytes g') r"
    using inv r'(1) g' set_update_subset_insert[of "objects g" k r'] by (auto simp: registry_inv_def)
  then show ?thesis
    using inv records_ok_put[OF _ r'(2) g'(1,2)] ts g' by (simp add: registry_inv_def)
qed

lemma registry_inv_put:
  assumes "registry_inv g" and "k < length (objects g)" and "record_inv (max_event_bytes g) r'"
    and "request_id r' = request_id (objects g ! k)" and "task r' = task (objects g ! k)"
    and "execution_generation r' = execution_generation (objects g ! k)"
    and "\<And>t. linked k (objects g ! k) t \<Longrightarrow> linked k r' t"
  shows "registry_inv (put_object k r' g)"
proof -
  have "tasks_ok (objects g) (tasks g)" using assms(1) by (simp add: registry_inv_def)
  then have "tasks_ok ((objects g)[k := r']) (tasks g)"
    by (rule tasks_ok_put) (use assms in simp_all)
  moreover have "permits g + producing (tasks g) = max_concurrent g"
    using assms(1) by (simp add: registry_inv_def)
  ultimately show ?thesis
    by (intro registry_inv_update[OF assms(1-4)]) (simp_all add: put_object_def)
qed

lemma registry_inv_put_control:
  assumes "registry_inv g" and "k < length (objects g)" and "record_inv (max_event_bytes g) r'"
    and "same_control (objects g ! k) r'"
  shows "registry_inv (put_object k r' g)"
  using assms by (intro registry_inv_put) (auto simp: same_control_def linked_def is_terminal_def)

lemma registry_inv_cleanup: "registry_inv g \<Longrightarrow> registry_inv (cleanup now g)"
proof -
  have dist: "distinct (map fst xs) \<Longrightarrow> distinct (map fst (filter P xs))" for xs :: "(string \<times> nat) list" and P
    by (simp add: distinct_map_filter)
  assume "registry_inv g"
  then show ?thesis
    by (auto simp: registry_inv_def cleanup_def records_ok_def dict_wf_def dkeys_def intro: dist)
qed

lemma cleanup_frame [simp]:
  "objects (cleanup now g) = objects g" "tasks (cleanup now g) = tasks g"
  "permits (cleanup now g) = permits g" "max_concurrent (cleanup now g) = max_concurrent g"
  "max_queued (cleanup now g) = max_queued g" "max_event_bytes (cleanup now g) = max_event_bytes g"
  by (simp_all add: cleanup_def)

lemma cancel_flag_tasks:
  assumes "tasks_ok objs ts" and "j < length ts"
  shows "tasks_ok objs (ts[j := (ts ! j)\<lparr>t_cancelled := True\<rparr>])"
proof -
  let ?k = "t_object (ts ! j)"
  have "?k < length objs" using tasks_ok_task[OF assms] by simp
  from tasks_ok_record[OF assms(1) this] obtain m
    where m: "task (objs ! ?k) = Some m" "linked ?k (objs ! ?k) (ts ! m)" by metis
  have "tasks_ok (objs[?k := objs ! ?k]) (ts[j := (ts ! j)\<lparr>t_cancelled := True\<rparr>])"
    using assms m by (intro tasks_ok_update) (auto simp: linked_def)
  then show ?thesis by simp
qed

lemma producing_update:
  assumes "i < length ts"
  shows "producing (ts[i := t']) + of_bool (t_phase (ts ! i) = Producing) =
     producing ts + of_bool (t_phase t' = Producing)"
  using assms
proof (induction ts arbitrary: i)
  case Nil
  then show ?case by simp
next
  case (Cons t ts)
  then show ?case by (cases i) (auto simp: producing_def)
qed

lemma registry_inv_cancel_task:
  assumes "registry_inv g" and "j < length (tasks g)"
  shows "registry_inv (cancel_task j g)"
  using assms cancel_flag_tasks[of "objects g" "tasks g" j]
    producing_update[of j "tasks g" "(tasks g ! j)\<lparr>t_cancelled := True\<rparr>"]
  by (simp add: registry_inv_def cancel_task_def records_ok_def)

lemma registry_inv_phase:
  assumes inv: "registry_inv g" and i: "i < length (tasks g)"
    and r': "record_inv (max_event_bytes g) r'"
      "request_id r' = request_id (objects g ! t_object (tasks g ! i))"
      "task r' = task (objects g ! t_object (tasks g ! i))"
      "execution_generation r' = execution_generation (objects g ! t_object (tasks g ! i))"
    and link: "task r' = Some i \<Longrightarrow> linked (t_object (tasks g ! i)) r' ((tasks g ! i)\<lparr>t_phase := p\<rparr>)"
      "\<And>j. task r' = Some j \<Longrightarrow> j \<noteq> i \<Longrightarrow> linked (t_object (tasks g ! i)) (objects g ! t_object (tasks g ! i)) (tasks g ! j) \<Longrightarrow>
          t_generation (tasks g ! i) < execution_generation r' \<Longrightarrow> 2 \<le> execution_generation r' \<Longrightarrow>
          linked (t_object (tasks g ! i)) r' (tasks g ! j)"
    and n: "n + of_bool (p = Producing) = permits g + of_bool (t_phase (tasks g ! i) = Producing)"
  shows "registry_inv (put_object (t_object (tasks g ! i)) r' ((set_phase i p g)\<lparr>permits := n\<rparr>))"
proof -
  let ?k = "t_object (tasks g ! i)"
  have ok: "tasks_ok (objects g) (tasks g)" using inv by (simp add: registry_inv_def)
  have k: "?k < length (objects g)" using tasks_ok_task[OF ok i] by simp
  from tasks_ok_record[OF ok k] obtain m where m: "task (objects g ! ?k) = Some m"
    "linked ?k (objects g ! ?k) (tasks g ! m)" by metis
  have stale: "linked ?k r' (tasks g ! j)" if "task r' = Some j" "j \<noteq> i" for j
  proof -
    have "t_generation (tasks g ! i) \<noteq> execution_generation (objects g ! ?k)"
      using tasks_ok_current[OF ok i refl] that r' by auto
    then have "t_generation (tasks g ! i) < execution_generation r'" "1 \<le> t_generation (tasks g ! i)"
      using tasks_ok_task[OF ok i] r' by auto
    then show ?thesis using link(2)[OF that] that m r' by simp
  qed
  have "tasks_ok ((objects g)[?k := r']) ((tasks g)[i := (tasks g ! i)\<lparr>t_phase := p\<rparr>])"
    by (rule tasks_ok_update[OF ok i refl]) (simp_all add: r' link(1) stale)
  moreover have "n + producing ((tasks g)[i := (tasks g ! i)\<lparr>t_phase := p\<rparr>]) = max_concurrent g"
    using inv n producing_update[OF i, of "(tasks g ! i)\<lparr>t_phase := p\<rparr>"]
    by (simp add: registry_inv_def)
  ultimately show ?thesis
    by (intro registry_inv_update[OF inv k r'(1,2)]) (simp_all add: put_object_def set_phase_def)
qed

lemma registry_inv_spawn_new:
  assumes inv: "registry_inv g" and new: "dget (records g) (q_request_id q) = None"
  shows "registry_inv (spawn (length (objects g))
     (g\<lparr>objects := objects g @ [new_record now g q],
        records := dset (q_request_id q) (length (objects g)) (records g)\<rparr>))"
proof -
  let ?r = "new_record now g q\<lparr>task := Some (length (tasks g))\<rparr>"
  let ?t = "\<lparr>t_object = length (objects g), t_generation = 1, t_phase = Created, t_cancelled = False\<rparr>"
  have "tasks_ok (objects g @ [?r]) (tasks g @ [?t])"
    using inv by (intro tasks_ok_append) (auto simp: registry_inv_def new_record_def)
  moreover have "records_ok (g\<lparr>objects := objects g @ [?r],
      records := dset (q_request_id q) (length (objects g)) (records g)\<rparr>)"
    using inv by (auto simp: registry_inv_def records_ok_def dict_wf_dset nth_append new_record_def
        dest!: dset_entries)
  moreover have "record_inv (max_event_bytes g) ?r" by (rule record_inv_new)
  moreover have "execution_generation (new_record now g q) = 1" by (simp add: new_record_def)
  ultimately show ?thesis
    using inv by (simp add: registry_inv_def spawn_def put_object_def Let_def producing_def records_ok_def)
qed

lemma registry_inv_start: "registry_inv g \<Longrightarrow> registry_inv (fst (start now q g))"
  using registry_inv_spawn_new[of "cleanup now g" q] registry_inv_cleanup[of g now]
  by (auto simp: start_def Let_def split: option.splits)

lemma registry_inv_get: "registry_inv g \<Longrightarrow> registry_inv (fst (get_run now rid uid g))"
  by (auto simp: get_run_def Let_def registry_inv_cleanup split: option.splits)

lemma registry_inv_set_run_id:
  assumes "registry_inv g" and "k < length (objects g)"
  shows "registry_inv (set_run_id k rid g)"
  using assms registry_inv_object[OF assms]
  by (auto simp: set_run_id_def Let_def same_control_def intro!: registry_inv_put_control record_inv_set_run_id)

lemma registry_inv_mark:
  assumes "registry_inv g" and "k < length (objects g)"
  shows "registry_inv (mark_stream_failed k c m g)"
  using assms registry_inv_object[OF assms]
  by (auto simp: mark_stream_failed_def same_control_def intro!: registry_inv_put_control record_inv_mark)

lemma registry_inv_append:
  assumes "registry_inv g" and "k < length (objects g)"
  shows "registry_inv (fst (append_run_event k p key g))"
proof -
  let ?r = "fst (append_event (max_event_bytes g) p key (objects g ! k))"
  have "fst (append_run_event k p key g) = put_object k ?r g"
    by (simp add: append_run_event_def split: prod.splits)
  then show ?thesis
    using registry_inv_put_control[OF assms record_inv_append[OF registry_inv_object[OF assms]] append_event_control]
    by simp
qed

lemma registry_inv_pause:
  assumes inv: "registry_inv g"
  shows "registry_inv (fst (pause_for_input rid iid v p g))"
proof (cases "dget (records g) rid")
  case None
  then show ?thesis using inv by (simp add: pause_for_input_def)
next
  case (Some k)
  let ?r = "objects g ! k"
  let ?w = "push_event p (?r\<lparr>status := WaitingForInput, interaction_id := Some iid,
     interaction_state_version := Some v, finished_at := None, done_set := False\<rparr>)"
  have k: "k < length (objects g)" using registry_inv_lookup[OF inv Some] by simp
  have "registry_inv (put_object k ?w g)" if run: "status ?r = Running"
  proof (rule registry_inv_put[OF inv k])
    show "record_inv (max_event_bytes g) ?w"
      by (rule record_inv_pause[OF registry_inv_object[OF inv k] run])
    show "linked k ?w t" if "linked k ?r t" for t
      using that run by (simp add: linked_def push_event_def is_terminal_def)
  qed (simp_all add: push_event_def)
  then show ?thesis using Some inv by (simp add: pause_for_input_def Let_def)
qed

lemma registry_inv_resume:
  assumes inv0: "registry_inv g0"
  shows "registry_inv (fst (resume now rid uid iid resp v g0))"
proof -
  define g where "g = cleanup now g0"
  have inv: "registry_inv g" using inv0 registry_inv_cleanup by (simp add: g_def)
  show ?thesis
  proof (cases "dget (records g) rid")
    case None
    then show ?thesis using inv by (simp add: resume_def Let_def flip: g_def)
  next
    case (Some k)
    let ?r = "objects g ! k"
    let ?a = "accept_response resp (iid, v) ?r"
    have k: "k < length (objects g)" using registry_inv_lookup[OF inv Some] by simp
    have "registry_inv (spawn k (put_object k ?a g))"
      if wait: "status ?r = WaitingForInput" and fresh: "dget (accepted_responses ?r) resp = None"
    proof -
      let ?t = "\<lparr>t_object = k, t_generation = execution_generation ?a, t_phase = Created, t_cancelled = False\<rparr>"
      have a: "record_inv (max_event_bytes g) (?a\<lparr>task := Some (length (tasks g))\<rparr>)"
        using record_inv_accept[OF registry_inv_object[OF inv k] wait fresh]
        by (simp add: record_inv_defs)
      have "tasks_ok (objects g) (tasks g)" using inv by (simp add: registry_inv_def)
      from tasks_ok_respawn[OF this k, of "?a\<lparr>task := Some (length (tasks g))\<rparr>" ?t]
      have ok: "tasks_ok ((objects g)[k := ?a\<lparr>task := Some (length (tasks g))\<rparr>]) (tasks g @ [?t])"
        by (simp add: accept_response_def)
      have "permits g + producing (tasks g) = max_concurrent g"
        using inv by (simp add: registry_inv_def)
      with ok show ?thesis
        by (intro registry_inv_update[OF inv k a])
           (simp_all add: spawn_def put_object_def Let_def k accept_response_def producing_def)
    qed
    then show ?thesis using Some inv
      by (auto simp: resume_def Let_def validate_owner_def simp flip: g_def split: option.splits)
  qed
qed

lemma put_object_phase:
  "put_object k r (set_phase i p g) = put_object k r ((set_phase i p g)\<lparr>permits := permits g\<rparr>)"
  by (simp add: put_object_def set_phase_def)

lemma registry_inv_wait:
  assumes inv: "registry_inv g" and i: "i < length (tasks g)"
    and p: "t_phase (tasks g ! i) = Created" "p = Pending \<or> p = Finished \<and> t_cancelled (tasks g ! i)"
  shows "registry_inv (set_phase i p g)"
proof -
  let ?k = "t_object (tasks g ! i)"
  have k: "?k < length (objects g)"
    using inv i tasks_ok_task(1) by (auto simp: registry_inv_def)
  have link: "linked ?k (objects g ! ?k) (tasks g ! i)" if "task (objects g ! ?k) = Some i"
    using inv k that by (auto simp: registry_inv_def tasks_ok_def)
  have "registry_inv (put_object ?k (objects g ! ?k) ((set_phase i p g)\<lparr>permits := permits g\<rparr>))"
    by (rule registry_inv_phase[OF inv i registry_inv_object[OF inv k]])
       (use p link in \<open>auto simp: linked_def\<close>)
  then show ?thesis by (simp add: put_object_def set_phase_def)
qed

lemma registry_inv_begin:
  assumes inv: "registry_inv g" and i: "i < length (tasks g)"
    and p: "t_phase (tasks g ! i) \<in> {Created, Pending}" and sem: "0 < permits g"
  shows "registry_inv (exec_begin now i g)"
proof -
  let ?k = "t_object (tasks g ! i)"
  let ?r = "objects g ! ?k"
  have ok: "tasks_ok (objects g) (tasks g)" using inv by (simp add: registry_inv_def)
  have k: "?k < length (objects g)" using tasks_ok_task(1)[OF ok i] .
  have link: "linked ?k ?r (tasks g ! i)" if "task ?r = Some i"
    using ok k that by (auto simp: tasks_ok_def)
  show ?thesis
  proof (cases "execution_generation ?r \<noteq> t_generation (tasks g ! i) \<or> status ?r \<noteq> Queued")
    case True
    have "registry_inv (put_object ?k (finalise now ?r) ((set_phase i Finished g)\<lparr>permits := permits g\<rparr>))"
      by (rule registry_inv_phase[OF inv i record_inv_finalise[OF registry_inv_object[OF inv k]]])
         (use p link True in \<open>auto simp: linked_def\<close>)
    then show ?thesis using True by (simp add: exec_begin_def Let_def put_object_phase)
  next
    case False
    then have "task ?r = Some i" using tasks_ok_current[OF ok i] by simp
    then have "registry_inv (put_object ?k (begin_run now ?r) ((set_phase i Producing g)\<lparr>permits := permits g - 1\<rparr>))"
      using False p sem link
      by (intro registry_inv_phase[OF inv i record_inv_begin[OF registry_inv_object[OF inv k]]])
         (auto simp: linked_def begin_run_def is_terminal_def)
    then show ?thesis using False by (simp add: exec_begin_def Let_def)
  qed
qed

lemma registry_inv_end:
  assumes inv: "registry_inv g" and i: "i < length (tasks g)"
    and p: "t_phase (tasks g ! i) = Producing \<or>
      t_phase (tasks g ! i) = Pending \<and> out = RaisedCancelled"
  shows "registry_inv (exec_end fmt now i out g)"
proof -
  let ?t = "tasks g ! i"
  let ?k = "t_object ?t"
  let ?r = "objects g ! ?k"
  let ?s = "settle fmt (max_event_bytes g) (t_generation ?t) out ?r"
  have ok: "tasks_ok (objects g) (tasks g)" using inv by (simp add: registry_inv_def)
  have k: "?k < length (objects g)" using tasks_ok_task(1)[OF ok i] .
  have rec: "record_inv (max_event_bytes g) ?r" by (rule registry_inv_object[OF inv k])
  have link: "linked ?k ?r ?t" if "task ?r = Some i"
    using ok k that by (auto simp: tasks_ok_def)
  have over: "is_terminal ?s" if "settling (t_generation ?t) out ?r"
    using settle_settled[OF rec that] by (simp add: settled_def)
  have cur: "linked ?k (finalise now ?s) (?t\<lparr>t_phase := Finished\<rparr>)" if "task ?r = Some i"
  proof (cases "settling (t_generation ?t) out ?r")
    case True
    then have "is_terminal ?s" by (rule over)
    then show ?thesis using link[OF that] by (auto simp: linked_def settle_frame is_terminal_def)
  next
    case False
    then have "status ?r = WaitingForInput"
      using link[OF that] by (auto simp: settling_def linked_def split: outcome.splits)
    then show ?thesis using link[OF that] False by (auto simp: linked_def settle_not is_terminal_def)
  qed
  have old: "linked ?k (finalise now ?s) u" if "linked ?k ?r u" "2 \<le> execution_generation ?r" for u
    using that over by (cases "settling (t_generation ?t) out ?r")
      (auto simp: linked_def settle_frame settle_not is_terminal_def)
  have "registry_inv (put_object ?k (finalise now ?s) ((set_phase i Finished g)\<lparr>permits :=
      (if t_phase ?t = Producing then permits g + 1 else permits g)\<rparr>))"
    by (rule registry_inv_phase[OF inv i record_inv_settle[OF rec]])
       (use p cur old in \<open>auto simp: settle_frame\<close>)
  then show ?thesis by (simp add: exec_end_def Let_def)
qed

lemma registry_inv_cancel:
  assumes inv0: "registry_inv g0"
  shows "registry_inv (fst (cancel now rid uid g0))"
proof (cases "snd (get_run now rid uid g0)")
  case (Inl e)
  then show ?thesis using registry_inv_get[OF inv0, of now rid uid]
    by (auto simp: cancel_def split: prod.splits)
next
  case (Inr k)
  define g where "g = fst (get_run now rid uid g0)"
  let ?r = "objects g ! k"
  have inv: "registry_inv g" using registry_inv_get[OF inv0] by (simp add: g_def)
  have get: "get_run now rid uid g0 = (g, Inr k)" using Inr by (simp add: g_def prod_eq_iff)
  have gk: "g = cleanup now g0" "dget (records (cleanup now g0)) rid = Some k"
    using get by (auto simp: get_run_def Let_def result_simps split: option.splits)
  have k: "k < length (objects g)" using registry_inv_lookup[OF inv] gk by simp
  have rec: "record_inv (max_event_bytes g) ?r" by (rule registry_inv_object[OF inv k])
  have ok: "tasks_ok (objects g) (tasks g)" using inv by (simp add: registry_inv_def)
  obtain j where j: "j < length (tasks g)" "task ?r = Some j" "linked k ?r (tasks g ! j)"
    using tasks_ok_record[OF ok k] by metis
  let ?e = "?r\<lparr>error_code := Some ''cancel_requested'', error := Some ''Cancellation requested.''\<rparr>"
  have "registry_inv (put_object k ?e g)"
    by (rule registry_inv_put_control[OF inv k record_inv_error[OF rec]]) (simp add: same_control_def)
  then have flagged: "registry_inv (cancel_task j (put_object k ?e g))"
    using j(1) by (intro registry_inv_cancel_task) (simp_all add: put_object_def)
  let ?c = "?r\<lparr>status := Cancelled, error_code := Some ''run_cancelled'',
     error := Some ''Run was cancelled.'', http_status := 409, finished_at := Some now\<rparr>"
  let ?d = "(emit_terminal_stream_error (max_event_bytes g) ?c)\<lparr>done_set := True\<rparr>"
  have "settled (max_event_bytes g) (emit_terminal_stream_error (max_event_bytes g) ?c)"
    using rec by (intro settled_emit) (auto simp: record_inv_defs)
  moreover have c: "same_control ?c (emit_terminal_stream_error (max_event_bytes g) ?c)"
    by (rule emit_terminal_control)
  ultimately have d: "record_inv (max_event_bytes g) ?d"
    by (simp add: settled_def same_control_def record_inv_defs)
  have "registry_inv (put_object k ?d g)" if fin: "t_phase (tasks g ! j) = Finished"
  proof -
    have "tasks_ok ((objects g)[k := ?d]) ((tasks g)[j := tasks g ! j])"
      using j c fin by (intro tasks_ok_update[OF ok j(1)])
        (auto simp: linked_def same_control_def is_terminal_def)
    then show ?thesis using inv c
      by (intro registry_inv_update[OF inv k d])
         (simp_all add: put_object_def same_control_def registry_inv_def)
  qed
  then show ?thesis using inv flagged j
    by (simp add: cancel_def get Let_def task_running_def)
qed

lemma registry_inv_shutdown:
  assumes inv: "registry_inv g"
  shows "registry_inv (shutdown_runs g)"
proof -
  let ?f = "\<lambda>g' (x :: string \<times> nat). case x of (_, k) \<Rightarrow> let r = objects g' ! k
     in if task_running g' r then cancel_task (the (task r)) g' else g'"
  have "registry_inv h \<Longrightarrow> length (objects h) = length (objects g) \<Longrightarrow>
      \<forall>(rid, k) \<in> set xs. k < length (objects g) \<Longrightarrow> registry_inv (foldl ?f h xs)" for h xs
  proof (induction xs arbitrary: h)
    case Nil
    then show ?case by simp
  next
    case (Cons x xs)
    obtain rid k where x: "x = (rid, k)" by (cases x)
    have k: "k < length (objects h)" using Cons.prems x by simp
    have "tasks_ok (objects h) (tasks h)" using Cons.prems(1) by (simp add: registry_inv_def)
    from tasks_ok_record[OF this k] obtain j where j: "j < length (tasks h)" "task (objects h ! k) = Some j"
      by metis
    have "registry_inv (?f h x)"
      using Cons.prems(1) registry_inv_cancel_task[OF Cons.prems(1) j(1)] j x by (simp add: Let_def)
    moreover have "length (objects (?f h x)) = length (objects g)"
      using Cons.prems(2) x by (simp add: Let_def cancel_task_def)
    ultimately show ?case using Cons.IH[of "?f h x"] Cons.prems(3) by simp
  qed
  from this[OF inv refl] show ?thesis
    using inv by (simp add: shutdown_runs_def registry_inv_def records_ok_def) fastforce
qed

lemma registry_inv_step: "registry_step fmt g g' \<Longrightarrow> registry_inv g \<Longrightarrow> registry_inv g'"
proof (induction rule: registry_step.induct)
  case (step_metrics now g)
  then show ?case by (simp add: metrics_def Let_def registry_inv_cleanup)
qed (simp_all add: registry_inv_start registry_inv_get registry_inv_set_run_id registry_inv_mark
  registry_inv_append registry_inv_pause registry_inv_resume registry_inv_wait registry_inv_begin
  registry_inv_end registry_inv_cancel registry_inv_shutdown)

lemma registry_inv_initial: "initial_registry g \<Longrightarrow> registry_inv g"
  by (auto simp: initial_registry_def empty_registry_def registry_inv_def records_ok_def
      dict_wf_empty tasks_ok_def producing_def)

text \<open>The version of the registry is the number of tasks created so far.\<close>

lemma registry_step_tasks: "registry_step fmt g g' \<Longrightarrow> length (tasks g) \<le> length (tasks g')"
proof (induction rule: registry_step.induct)
  case (step_shutdown g)
  have "length (tasks (foldl (\<lambda>g' (_, k). let r = objects g' ! k
     in if task_running g' r then cancel_task (the (task r)) g' else g') h xs)) = length (tasks h)"
    for h and xs :: "(string \<times> nat) list"
    by (induction xs arbitrary: h) (auto simp: Let_def cancel_task_def)
  then show ?case by (simp add: shutdown_runs_def)
qed (auto simp: start_def get_run_def set_run_id_def mark_stream_failed_def append_run_event_def
  pause_for_input_def resume_def cancel_def metrics_def put_object_def set_phase_def exec_begin_def
  exec_end_def cancel_task_def spawn_def Let_def split: option.splits prod.splits sum.splits)

interpretation registry: monotone_system initial_registry "registry_step fmt" registry_inv "\<lambda>g. length (tasks g)"
  for fmt
  by unfold_locales (blast intro: registry_inv_initial registry_inv_step registry_step_tasks)+

subsection \<open>What a record never loses\<close>

text \<open>
  Identity is fixed, accepted responses stay accepted, event ids and generations only grow.
\<close>

definition evolves :: "run_record \<Rightarrow> run_record \<Rightarrow> bool" where
  "evolves r r' =
     (request_id r' = request_id r \<and> user_id r' = user_id r \<and> fingerprint r' = fingerprint r \<and>
      kind r' = kind r \<and> dget (accepted_responses r) \<subseteq>\<^sub>m dget (accepted_responses r') \<and>
      next_event_id r \<le> next_event_id r' \<and> execution_generation r \<le> execution_generation r')"

definition objects_evolve :: "run_record list \<Rightarrow> run_record list \<Rightarrow> bool" where
  "objects_evolve xs ys = (length xs \<le> length ys \<and> (\<forall>k < length xs. evolves (xs ! k) (ys ! k)))"

lemma evolves_refl [simp]: "evolves r r"
  by (simp add: evolves_def)

lemma evolves_trans: "evolves a b \<Longrightarrow> evolves b c \<Longrightarrow> evolves a c"
  unfolding evolves_def using map_le_trans by fastforce

lemma evolves_control: "same_control r r' \<Longrightarrow> evolves r r'"
  by (simp add: same_control_def evolves_def)

lemma objects_evolve_refl [simp]: "objects_evolve xs xs"
  by (simp add: objects_evolve_def)

lemma objects_evolve_trans: "objects_evolve a b \<Longrightarrow> objects_evolve b c \<Longrightarrow> objects_evolve a c"
  by (auto simp: objects_evolve_def intro: evolves_trans)

lemma objects_evolve_update: "evolves (xs ! k) r \<Longrightarrow> objects_evolve xs (xs[k := r])"
  unfolding objects_evolve_def
  by (metis evolves_refl length_list_update nth_list_update_eq nth_list_update_neq order_refl)

lemma objects_evolve_snoc: "objects_evolve xs (xs @ ys)"
  by (simp add: objects_evolve_def nth_append)

lemma evolves_fields:
  "evolves r (r\<lparr>run_id := a\<rparr>)" "evolves r (r\<lparr>stream_failed := b, error_code := c, error := e\<rparr>)"
  "evolves r (r\<lparr>error_code := c, error := e\<rparr>)" "evolves r (r\<lparr>task := j\<rparr>)"
  "evolves r (begin_run now r)" "evolves r (finalise now r)"
  "evolves r (r\<lparr>status := st, error_code := c, error := e, http_status := h\<rparr>)"
  by (simp_all add: evolves_def begin_run_def finalise_def)

lemma evolves_pause:
  "evolves r (push_event p (r\<lparr>status := st, interaction_id := i, interaction_state_version := v,
     finished_at := f, done_set := d\<rparr>))"
  by (simp add: evolves_def push_event_def)

lemma evolves_accept: "dget (accepted_responses r) resp = None \<Longrightarrow> evolves r (accept_response resp x r)"
  by (auto simp: evolves_def accept_response_def dict_simps map_le_def)

lemma evolves_fail: "evolves r (fail_run mb st c m h r)"
  unfolding fail_run_def by (rule evolves_trans[OF evolves_fields(7) evolves_control[OF emit_terminal_control]])

lemma evolves_complete: "evolves r (complete_run mb res r)"
  using evolves_control[OF append_event_control, of "r\<lparr>result := res\<rparr>" mb done_event None]
  by (simp add: complete_run_def Let_def evolves_def)

lemma evolves_settle: "evolves r (settle fmt mb n out r)"
  by (simp add: settle_def evolves_fail evolves_complete split: outcome.splits)

lemma evolves_cancel:
  "evolves r ((emit_terminal_stream_error mb (r\<lparr>status := st, error_code := c, error := e,
      http_status := h, finished_at := f\<rparr>))\<lparr>done_set := d\<rparr>)" (is "evolves r (?e\<lparr>done_set := d\<rparr>)")
proof -
  have "evolves r ?e"
    using evolves_control[OF emit_terminal_control, of "r\<lparr>status := st, error_code := c, error := e,
      http_status := h, finished_at := f\<rparr>" mb] by (simp add: evolves_def)
  then show ?thesis by (simp add: evolves_def)
qed

lemma objects_evolve_spawn:
  "objects_evolve xs (objects g) \<Longrightarrow> objects_evolve xs (objects (spawn k g))"
  by (erule objects_evolve_trans)
     (simp add: spawn_def put_object_def Let_def objects_evolve_update evolves_fields)

lemma objects_evolve_start: "objects_evolve (objects g) (objects (fst (start now q g)))"
  by (auto simp: start_def Let_def objects_evolve_snoc intro!: objects_evolve_spawn split: option.splits)

lemma objects_evolve_resume:
  "objects_evolve (objects g) (objects (fst (resume now rid uid iid resp v g)))"
  by (auto simp: resume_def Let_def put_object_def split: option.splits sum.splits
      intro!: objects_evolve_spawn objects_evolve_update evolves_accept)

lemma objects_evolve_step: "registry_step fmt g g' \<Longrightarrow> objects_evolve (objects g) (objects g')"
proof (induction rule: registry_step.induct)
  case (step_shutdown g)
  have "objects (foldl (\<lambda>g' (_, k). let r = objects g' ! k
     in if task_running g' r then cancel_task (the (task r)) g' else g') h xs) = objects h"
    for h and xs :: "(string \<times> nat) list"
    by (induction xs arbitrary: h) (auto simp: Let_def cancel_task_def)
  then show ?case by (simp add: shutdown_runs_def)
next
  case (step_append k g payload key)
  then show ?case
    by (auto simp: append_run_event_def put_object_def split: prod.splits
        intro!: objects_evolve_update evolves_control) (metis append_event_control fst_conv)
next
  case (step_begin i g now)
  then show ?case
    by (simp add: exec_begin_def put_object_def set_phase_def Let_def objects_evolve_update evolves_fields)
next
  case (step_abort i g now)
  then show ?case
    by (auto simp: exec_end_def put_object_def set_phase_def Let_def
        intro!: objects_evolve_update evolves_trans[OF evolves_settle evolves_fields(6)])
next
  case (step_end i g now out)
  then show ?case
    by (auto simp: exec_end_def put_object_def set_phase_def Let_def
        intro!: objects_evolve_update evolves_trans[OF evolves_settle evolves_fields(6)])
qed (auto simp: objects_evolve_start objects_evolve_resume get_run_def set_run_id_def
  mark_stream_failed_def pause_for_input_def cancel_def metrics_def put_object_def set_phase_def
  cancel_task_def Let_def evolves_fields evolves_pause evolves_cancel
  split: option.splits prod.splits sum.splits intro!: objects_evolve_update)

lemma objects_evolve_run: "(registry_step fmt)\<^sup>*\<^sup>* g g' \<Longrightarrow> objects_evolve (objects g) (objects g')"
  by (induction rule: rtranclp_induct) (auto intro: objects_evolve_step objects_evolve_trans)

subsection \<open>A concrete run, for the witnesses\<close>

definition sample_request :: start_request where
  "sample_request = \<lparr>q_request_id = ''r1'', q_fingerprint = ''f'', q_kind = Stream, q_agent_id = ''a'',
     q_thread_id = ''t'', q_user_id = Some ''u'', q_timeout = None\<rparr>"

definition sample_fmt :: "rat \<Rightarrow> string" where "sample_fmt q = ''60''"

definition sample_started :: registry where
  "sample_started = fst (start 0 sample_request (empty_registry 1 1 60 2 64 600))"

definition sample_running :: registry where "sample_running = exec_begin 1 0 sample_started"

definition sample_waiting :: registry where
  "sample_waiting = fst (pause_for_input ''r1'' ''q1'' 1 ''data: ask'' sample_running)"

definition sample_finished :: registry where
  "sample_finished = exec_end sample_fmt 2 0 (Returned None) sample_running"

abbreviation sample_reach :: "registry \<Rightarrow> bool" where
  "sample_reach \<equiv> reach initial_registry (registry_step sample_fmt)"

lemma initial_empty: "initial_registry (empty_registry mc mq dt eb mb rs)"
  unfolding initial_registry_def by blast

lemma sample_started_reach: "sample_reach sample_started"
  unfolding sample_started_def
  by (rule reach.advance[OF reach.initial[of initial_registry, OF initial_empty]]) (rule step_start)

lemma sample_running_reach: "sample_reach sample_running"
  unfolding sample_running_def
  by (rule reach.advance[OF sample_started_reach step_begin]) code_simp+

lemma sample_waiting_reach: "sample_reach sample_waiting"
  unfolding sample_waiting_def by (rule reach.advance[OF sample_running_reach step_pause])

lemma sample_finished_reach: "sample_reach sample_finished"
  unfolding sample_finished_def
  by (rule reach.advance[OF sample_running_reach step_end]) code_simp+

lemma sample_finished_facts:
  "length (objects sample_finished) = 1" "next_event_id (objects sample_finished ! 0) = 2"
  "event_buffer_size (objects sample_finished ! 0) = 2"
  "status (objects sample_finished ! 0) = Completed" "execution_generation (objects sample_finished ! 0) = 1"
  by code_simp+

lemma sample_running_facts:
  "length (objects sample_running) = 1" "status (objects sample_running ! 0) = Running"
  "max_concurrent sample_running = 1" "records sample_running = [(''r1'', 0)]"
  by code_simp+

lemma sample_waiting_facts:
  "length (objects sample_waiting) = 1" "status (objects sample_waiting ! 0) = WaitingForInput"
  "interaction_id (objects sample_waiting ! 0) = Some ''q1''"
  "interaction_state_version (objects sample_waiting ! 0) = Some 1"
  by code_simp+

subsection \<open>Properties\<close>

lemma record_reach:
  assumes "reach initial_registry (registry_step fmt) g" and "k < length (objects g)"
  shows "record_inv (max_event_bytes g) (objects g ! k)"
  using registry_inv_object[OF registry.reach_inv[OF assms(1)] assms(2)] .



text \<open>
  In every reachable registry a run is terminal exactly when its end time is set and
  its waiters are released; a waiting run names the question it waits for, a queued or
  running one has none; and a stream run that is terminal has emitted its end marker
  whenever the marker fits the event limit.
\<close>

theorem registry_record_consistent:
  assumes "reach initial_registry (registry_step fmt) g" and "k < length (objects g)"
  shows "(is_terminal (objects g ! k) \<longleftrightarrow> finished_at (objects g ! k) \<noteq> None) \<and>
    (done_set (objects g ! k) \<longleftrightarrow> is_terminal (objects g ! k)) \<and>
    (status (objects g ! k) = WaitingForInput \<longrightarrow>
       interaction_id (objects g ! k) \<noteq> None \<and> interaction_state_version (objects g ! k) \<noteq> None) \<and>
    (status (objects g ! k) \<in> {Queued, Running} \<longrightarrow> interaction_id (objects g ! k) = None) \<and>
    (kind (objects g ! k) = Stream \<and> is_terminal (objects g ! k) \<and> 14 \<le> max_event_bytes g \<longrightarrow>
       terminal_event_emitted (objects g ! k))"
  using record_reach[OF assms]
  by (simp add: record_inv_def done_ok_def interaction_ok_def terminal_event_ok_def)

theorem registry_record_consistent_witness:
  "finished_at (objects sample_finished ! 0) \<noteq> None \<and> interaction_id (objects sample_waiting ! 0) \<noteq> None"
  using registry_record_consistent[OF sample_finished_reach, of 0]
    registry_record_consistent[OF sample_waiting_reach, of 0]
  by (simp add: sample_finished_facts sample_waiting_facts is_terminal_def)

text \<open>Each running record has a task of its own that awaits its producer.\<close>

lemma running_tasks_card:
  assumes "tasks_ok objs ts"
  shows "card {k. k < length objs \<and> status (objs ! k) = Running} \<le> producing ts"
proof -
  let ?R = "{k. k < length objs \<and> status (objs ! k) = Running}"
  have sub: "?R \<subseteq> t_object ` {t \<in> set ts. t_phase t = Producing}"
  proof
    fix k assume "k \<in> ?R"
    then have k: "k < length objs" "status (objs ! k) = Running" by simp_all
    from tasks_ok_record[OF assms k(1)] obtain j where j: "j < length ts" "linked k (objs ! k) (ts ! j)"
      by metis
    then show "k \<in> t_object ` {t \<in> set ts. t_phase t = Producing}"
      using k(2) by (auto simp: linked_def intro!: image_eqI[of _ _ "ts ! j"])
  qed
  have "card ?R \<le> card (t_object ` {t \<in> set ts. t_phase t = Producing})"
    by (rule card_mono[OF _ sub]) simp
  also have "\<dots> \<le> card (set (filter (\<lambda>t. t_phase t = Producing) ts))"
    by (simp add: card_image_le)
  also have "\<dots> \<le> producing ts" unfolding producing_def by (rule card_length)
  finally show ?thesis .
qed

text \<open>
  C19: in every reachable registry at most \<open>max_concurrent\<close> runs are running, the permits
  of the semaphore and the tasks that hold one always add up to it, and every running run
  has a live task of its current generation (no run stays "running" with nobody executing
  it).
\<close>

theorem registry_concurrency_bound:
  assumes "reach initial_registry (registry_step fmt) g"
  shows "card {k. k < length (objects g) \<and> status (objects g ! k) = Running} \<le> max_concurrent g \<and>
    permits g + producing (tasks g) = max_concurrent g \<and>
    (\<forall>k < length (objects g). status (objects g ! k) = Running \<longrightarrow>
      (\<exists>t \<in> set (tasks g). t_object t = k \<and> t_phase t = Producing \<and>
         t_generation t = execution_generation (objects g ! k)))"
proof -
  have inv: "registry_inv g" by (rule registry.reach_inv[OF assms])
  then have ok: "tasks_ok (objects g) (tasks g)" and n: "permits g + producing (tasks g) = max_concurrent g"
    by (simp_all add: registry_inv_def)
  have "\<exists>t \<in> set (tasks g). t_object t = k \<and> t_phase t = Producing \<and>
      t_generation t = execution_generation (objects g ! k)"
    if k: "k < length (objects g)" and run: "status (objects g ! k) = Running" for k
  proof -
    from tasks_ok_record[OF ok k] obtain j where "j < length (tasks g)" "linked k (objects g ! k) (tasks g ! j)"
      by metis
    with run show ?thesis by (intro bexI[of _ "tasks g ! j"]) (auto simp: linked_def)
  qed
  with running_tasks_card[OF ok] n show ?thesis by auto
qed

theorem registry_concurrency_bound_witness:
  "card {k. k < length (objects sample_running) \<and> status (objects sample_running ! k) = Running} \<le> 1 \<and>
   (\<exists>t \<in> set (tasks sample_running). t_phase t = Producing)"
  using registry_concurrency_bound[OF sample_running_reach]
  by (auto simp: sample_running_facts)

text \<open>
  Each execution generation of a run gets one task, the generation is one more than
  the number of distinct accepted responses, and no task is of a future generation: the
  start and every accepted answer launch the producer at most once each.
\<close>

theorem registry_generation_once:
  assumes "reach initial_registry (registry_step fmt) g"
  shows "distinct (map (\<lambda>t. (t_object t, t_generation t)) (tasks g)) \<and>
    (\<forall>t \<in> set (tasks g). t_object t < length (objects g) \<and>
       t_generation t \<le> execution_generation (objects g ! t_object t)) \<and>
    (\<forall>k < length (objects g). distinct (dkeys (accepted_responses (objects g ! k))) \<and>
       execution_generation (objects g ! k) = 1 + length (accepted_responses (objects g ! k)))"
  using registry.reach_inv[OF assms] registry_inv_object[OF registry.reach_inv[OF assms]]
  by (auto simp: registry_inv_def tasks_ok_def record_inv_def generation_ok_def dict_wf_def)

theorem registry_generation_once_witness:
  "distinct (map (\<lambda>t. (t_object t, t_generation t)) (tasks sample_waiting))"
  using registry_generation_once[OF sample_waiting_reach] by simp

lemma resume_accepted:
  assumes "resume now rid uid iid resp v g = (g1, Inr (k, True))"
  shows "dget (records (cleanup now g)) rid = Some k"
    "validate_owner (objects g ! k) uid = Inr ()"
    "g1 = spawn k (put_object k (accept_response resp (iid, v) (objects g ! k)) (cleanup now g))"
    "status (objects g ! k) = WaitingForInput" "interaction_id (objects g ! k) = Some iid"
    "interaction_state_version (objects g ! k) = Some v"
  using assms by (auto simp: resume_def Let_def split: option.splits sum.splits if_splits)

lemma resume_replayed:
  assumes "dget (records (cleanup now g)) rid = Some k" and "validate_owner (objects g ! k) uid = Inr ()"
    and "dget (accepted_responses (objects g ! k)) resp = Some (iid, v)"
  shows "resume now rid uid iid resp v g = (cleanup now g, Inr (k, False))"
  using assms by (simp add: resume_def Let_def)

text \<open>
  C2: an accepted answer is executed exactly once. It is accepted only for the pending
  question at its version, adds one task and one generation, and ever after, whatever
  happens in between and as long as the run is retained, the same answer is recognised: it
  returns the run without a new execution and without changing it.
\<close>

theorem resume_exactly_once:
  assumes reach: "reach initial_registry (registry_step fmt) g"
    and acc: "resume now rid uid iid resp v g = (g1, Inr (k, True))"
    and run: "(registry_step fmt)\<^sup>*\<^sup>* g1 g2"
    and kept: "dget (records (cleanup later g2)) rid = Some k"
  shows "interaction_id (objects g ! k) = Some iid \<and>
    interaction_state_version (objects g ! k) = Some v \<and>
    length (tasks g1) = length (tasks g) + 1 \<and>
    execution_generation (objects g1 ! k) = execution_generation (objects g ! k) + 1 \<and>
    resume later rid uid iid resp v g2 = (cleanup later g2, Inr (k, False))"
proof -
  note a = resume_accepted[OF acc]
  have inv: "registry_inv (cleanup now g)" by (rule registry_inv_cleanup[OF registry.reach_inv[OF reach]])
  have k: "k < length (objects g)" using registry_inv_lookup[OF inv a(1)] by simp
  have g1: "dget (accepted_responses (objects g1 ! k)) resp = Some (iid, v)"
    "execution_generation (objects g1 ! k) = execution_generation (objects g ! k) + 1"
    "request_id (objects g1 ! k) = request_id (objects g ! k)" "user_id (objects g1 ! k) = user_id (objects g ! k)"
    "length (tasks g1) = length (tasks g) + 1" "length (objects g1) = length (objects g)"
    using k by (simp_all add: a(3) spawn_def put_object_def accept_response_def Let_def dict_simps)
  have ev: "evolves (objects g1 ! k) (objects g2 ! k)"
    using objects_evolve_run[OF run] k g1(6) by (simp add: objects_evolve_def)
  have "dget (accepted_responses (objects g2 ! k)) resp = Some (iid, v)"
    using ev g1(1) by (auto simp: evolves_def map_le_def dom_def)
  moreover have "validate_owner (objects g2 ! k) uid = Inr ()"
    using ev a(2) g1(3,4) by (auto simp: evolves_def validate_owner_def split: if_splits)
  ultimately have "resume later rid uid iid resp v g2 = (cleanup later g2, Inr (k, False))"
    by (intro resume_replayed[OF kept])
  with a(5,6) g1(2,5) show ?thesis by blast
qed

definition sample_resumed :: registry where
  "sample_resumed = fst (resume 3 ''r1'' (Some ''u'') ''q1'' ''a1'' 1 sample_waiting)"

lemma sample_resume: "resume 3 ''r1'' (Some ''u'') ''q1'' ''a1'' 1 sample_waiting = (sample_resumed, Inr (0, True))"
  unfolding sample_resumed_def by code_simp

lemma sample_resumed_kept: "dget (records (cleanup 4 sample_resumed)) ''r1'' = Some 0"
  by code_simp

theorem resume_exactly_once_witness:
  "snd (resume 4 ''r1'' (Some ''u'') ''q1'' ''a1'' 1 sample_resumed) = Inr (0, False)"
  using resume_exactly_once[OF sample_waiting_reach sample_resume rtranclp.rtrancl_refl sample_resumed_kept]
  by simp

text \<open>
  A new run is admitted only when, counting it, the queued and running runs fit
  \<open>max_concurrent + max_queued\<close>; it is retained under its request id as a fresh queued run.
  A repeated request id never creates a second run: it returns the existing one when the
  fingerprint and kind agree and its owner asks, and fails otherwise.
\<close>

theorem start_admission:
  assumes reach: "reach initial_registry (registry_step fmt) g"
    and res: "start now q g = (g', res)"
  shows "case res of
      Inr (k, True) \<Rightarrow> pending g' \<le> max_concurrent g + max_queued g \<and>
        dget (records g') (q_request_id q) = Some k \<and> status (objects g' ! k) = Queued \<and>
        length (objects g') = length (objects g) + 1
    | Inr (k, False) \<Rightarrow> objects g' = objects g \<and> tasks g' = tasks g \<and>
        fingerprint (objects g ! k) = q_fingerprint q \<and> kind (objects g ! k) = q_kind q \<and>
        dget (records g') (q_request_id q) = Some k
    | Inl _ \<Rightarrow> objects g' = objects g \<and> tasks g' = tasks g"
proof -
  define h where "h = cleanup now g"
  have inv: "registry_inv h" using registry_inv_cleanup[OF registry.reach_inv[OF reach]] by (simp add: h_def)
  have frame: "objects h = objects g" "tasks h = tasks g" "max_concurrent h = max_concurrent g"
    "max_queued h = max_queued g" by (simp_all add: h_def)
  show ?thesis
  proof (cases "dget (records h) (q_request_id q)")
    case (Some k)
    then show ?thesis using res frame
      by (auto simp: start_def Let_def validate_existing_def validate_owner_def simp flip: h_def split: if_splits)
  next
    case None
    let ?k = "length (objects h)"
    let ?h1 = "h\<lparr>objects := objects h @ [new_record now h q], records := dset (q_request_id q) ?k (records h)\<rparr>"
    show ?thesis
    proof (cases "pending h \<ge> max_concurrent h + max_queued h")
      case True
      then show ?thesis using res None frame by (auto simp: start_def Let_def simp flip: h_def)
    next
      case False
      have lt: "\<forall>(rid, k) \<in> set (records h). k < ?k" using inv by (auto simp: registry_inv_def records_ok_def)
      let ?o = "objects (spawn ?k ?h1)"
      have old: "?o ! k = objects h ! k" if "k < ?k" for k
        using that by (simp add: spawn_def put_object_def Let_def nth_append)
      have snoc: "records (spawn ?k ?h1) = records h @ [(q_request_id q, ?k)]"
      proof -
        have "dset c (x :: nat) xs = xs @ [(c, x)]" if "dget xs c = None" for c :: string and x xs
          using that by (induction c x xs rule: dset.induct) (auto split: if_splits)
        then show ?thesis using None by (simp add: spawn_def put_object_def Let_def)
      qed
      have "pending (spawn ?k ?h1) \<le> Suc (length (filter (\<lambda>(_, k). counts_as_pending (?o ! k)) (records h)))"
        by (simp add: pending_def snoc)
      also have "filter (\<lambda>(_, k). counts_as_pending (?o ! k)) (records h)
          = filter (\<lambda>(_, k). counts_as_pending (objects h ! k)) (records h)"
        using lt old by (intro filter_cong) auto
      finally have "pending (spawn ?k ?h1) \<le> max_concurrent h + max_queued h"
        using False by (simp add: pending_def)
      moreover have "start now q g = (spawn ?k ?h1, Inr (?k, True))"
        using None False by (simp add: start_def Let_def flip: h_def)
      moreover have "status (?o ! ?k) = Queued" "length ?o = length (objects h) + 1"
        by (simp_all add: spawn_def put_object_def Let_def new_record_def)
      moreover have "dget (records (spawn ?k ?h1)) (q_request_id q) = Some ?k"
        using None by (simp add: snoc map_add_def)
      ultimately show ?thesis using res frame by auto
    qed
  qed
qed

theorem start_admission_witness:
  "pending sample_started \<le> 2 \<and> dget (records sample_started) ''r1'' = Some 0"
proof -
  let ?e = "empty_registry 1 1 60 2 64 600"
  have "start 0 sample_request ?e = (sample_started, Inr (0, True))"
    unfolding sample_started_def by code_simp
  from start_admission[OF reach.initial[of initial_registry, OF initial_empty] this]
  show ?thesis by (simp add: empty_registry_def sample_request_def)
qed

text \<open>
  Retention never drops a run that is not terminal, and drops a terminal one only after
  its retention time; dropping runs never changes the others.
\<close>

theorem cleanup_keeps_live:
  assumes "reach initial_registry (registry_step fmt) g" and "dget (records g) rid = Some k"
  shows "dget (records (cleanup now g)) rid =
      (case finished_at (objects g ! k) of
         Some t \<Rightarrow> if now - t > retention_seconds g then None else Some k
       | None \<Rightarrow> Some k) \<and>
    (\<not> is_terminal (objects g ! k) \<longrightarrow> dget (records (cleanup now g)) rid = Some k)"
proof -
  have inv: "registry_inv g" by (rule registry.reach_inv[OF assms(1)])
  have k: "k < length (objects g)" using registry_inv_lookup[OF inv assms(2)] by simp
  have "dict_wf (records g)" using inv by (simp add: registry_inv_def records_ok_def)
  then have d: "distinct (map fst (records g))" by (simp add: dict_wf_def dkeys_def)
  have filt: "distinct (map fst xs) \<Longrightarrow> map_of xs rid = Some k \<Longrightarrow>
      map_of (filter (\<lambda>(_, k). P k) xs) rid = (if P k then Some k else None)"
    for xs :: "(string \<times> nat) list" and P
    by (induction xs) (auto simp: map_of_eq_None_iff split: if_splits)
  have "dget (records (cleanup now g)) rid = (if \<not> expired now g k then Some k else None)"
    unfolding cleanup_def using filt[OF d assms(2)] by simp
  moreover have "finished_at (objects g ! k) = None" if "\<not> is_terminal (objects g ! k)"
    using registry_inv_object[OF inv k] that by (simp add: record_inv_def done_ok_def)
  ultimately show ?thesis by (auto simp: expired_def split: option.splits)
qed

theorem cleanup_keeps_live_witness: "dget (records (cleanup 9999 sample_running)) ''r1'' = Some 0"
  using cleanup_keeps_live[OF sample_running_reach, of "''r1''" 0 9999, THEN conjunct2]
  by (simp add: sample_running_facts is_terminal_def)

text \<open>Steps that end a task or revive a waiting run are the only ones that change a status.\<close>

lemma first_task_finished:
  assumes inv: "registry_inv g" and k: "k < length (objects g)"
    and gen: "execution_generation (objects g ! k) = 1" and "is_terminal (objects g ! k)"
    and i: "i < length (tasks g)" "t_object (tasks g ! i) = k"
  shows "t_phase (tasks g ! i) = Finished"
proof -
  have ok: "tasks_ok (objects g) (tasks g)" using inv by (simp add: registry_inv_def)
  from tasks_ok_record[OF ok k] obtain j where j: "task (objects g ! k) = Some j" "linked k (objects g ! k) (tasks g ! j)"
    by metis
  have "t_generation (tasks g ! i) = 1" using tasks_ok_task[OF ok i(1)] i(2) gen by simp
  then have "i = j" using tasks_ok_current[OF ok i] gen j by simp
  then show ?thesis using j assms by (simp add: linked_def)
qed


lemma status_update:
  "k < length xs \<Longrightarrow> (k = m \<Longrightarrow> status r = status (xs ! k)) \<Longrightarrow> status (xs[m := r] ! k) = status (xs ! k)"
  by (cases "k = m") auto

lemma status_spawn: "k < length (objects g) \<Longrightarrow> status (objects (spawn m g) ! k) = status (objects g ! k)"
  by (simp add: spawn_def put_object_def Let_def status_update)

lemma status_start: "k < length (objects g) \<Longrightarrow> status (objects (fst (start now q g)) ! k) = status (objects g ! k)"
  by (auto simp: start_def Let_def status_spawn nth_append split: option.splits)

lemma status_resume:
  assumes "k < length (objects g)" and "is_terminal (objects g ! k)"
  shows "status (objects (fst (resume now rid uid iid resp v g)) ! k) = status (objects g ! k)"
  using assms by (auto simp: resume_def Let_def status_spawn put_object_def is_terminal_def
      intro!: status_update split: option.splits sum.splits)

lemma status_cancel:
  assumes "k < length (objects g)" and "is_terminal (objects g ! k)"
  shows "status (objects (fst (cancel now rid uid g)) ! k) = status (objects g ! k)"
proof (cases "get_run now rid uid g")
  case (Pair h res)
  have h: "objects h = objects g" using Pair by (auto simp: get_run_def Let_def split: option.splits)
  show ?thesis
    using assms h Pair
    by (cases res) (auto simp: cancel_def Let_def put_object_def cancel_task_def intro!: status_update)
qed

lemma objects_shutdown: "objects (shutdown_runs g) = objects g"
proof -
  have "objects (foldl (\<lambda>g' (_, k). let r = objects g' ! k
     in if task_running g' r then cancel_task (the (task r)) g' else g') h xs) = objects h"
    for h and xs :: "(string \<times> nat) list"
    by (induction xs arbitrary: h) (auto simp: Let_def cancel_task_def)
  then show ?thesis by (simp add: shutdown_runs_def)
qed

text \<open>
  A run that was never resumed keeps its terminal status whatever happens next:
  late events, cancellation requests, shutdown and the other runs do not revive or relabel
  it. (For resumed runs see \<open>stale_failure_overwrites\<close>.)
\<close>

theorem first_generation_terminal_absorbing:
  assumes reach: "reach initial_registry (registry_step fmt) g"
    and step: "registry_step fmt g g'" and k: "k < length (objects g)"
    and over: "is_terminal (objects g ! k)" and gen: "execution_generation (objects g ! k) = 1"
  shows "status (objects g' ! k) = status (objects g ! k)"
  using step
proof cases
  case (step_append m payload key)
  have "status (fst (append_event (max_event_bytes g) payload key (objects g ! m))) = status (objects g ! m)"
    using append_event_control by (simp add: same_control_def)
  then show ?thesis using k step_append
    by (auto simp: append_run_event_def put_object_def intro!: status_update split: prod.splits)
next
  case (step_pause rid iid v p)
  then show ?thesis using k over
    by (auto simp: pause_for_input_def put_object_def Let_def is_terminal_def
        intro!: status_update split: option.splits)
next
  case (step_begin i now)
  then have "t_object (tasks g ! i) \<noteq> k"
    using first_task_finished[OF registry.reach_inv[OF reach] k gen over] by auto
  then show ?thesis using step_begin by (simp add: exec_begin_def put_object_def set_phase_def Let_def)
next
  case (step_abort i now)
  then have "t_object (tasks g ! i) \<noteq> k"
    using first_task_finished[OF registry.reach_inv[OF reach] k gen over] by auto
  then show ?thesis using step_abort by (simp add: exec_end_def put_object_def set_phase_def Let_def)
next
  case (step_end i now out)
  then have "t_object (tasks g ! i) \<noteq> k"
    using first_task_finished[OF registry.reach_inv[OF reach] k gen over] by auto
  then show ?thesis using step_end by (simp add: exec_end_def put_object_def set_phase_def Let_def)
qed (use k over in \<open>simp_all add: status_start status_resume status_cancel objects_shutdown
  get_run_def set_run_id_def mark_stream_failed_def set_phase_def metrics_def put_object_def Let_def
  status_update split: option.splits\<close>)

theorem first_generation_terminal_absorbing_witness:
  "status (objects (fst (cancel 3 ''r1'' (Some ''u'') sample_finished)) ! 0) = Completed"
  using first_generation_terminal_absorbing[OF sample_finished_reach step_cancel, of 0]
  by (simp add: sample_finished_facts is_terminal_def)

text \<open>
  A run of two concurrent tasks: the first generation asks a question, the answer starts
  the second, and then the first producer, still unwinding, fails.
\<close>

definition sample_second :: registry where
  "sample_second =
     exec_begin 4 1 (fst (resume 3 ''r1'' (Some ''u'') ''q1'' ''a1'' 1
       (fst (pause_for_input ''r1'' ''q1'' 1 ''data: ask''
         (exec_begin 1 0 (fst (start 0 sample_request (empty_registry 2 1 60 2 64 600))))))))"


lemma filter_upt_above: "a \<le> b \<Longrightarrow> filter (\<lambda>e. b \<le> e) [a ..< c] = [b ..< c]" for a b c :: nat
proof (induction c)
  case 0
  then show ?case by simp
next
  case (Suc c)
  then show ?case by (cases "a \<le> c") auto
qed

text \<open>
  A subscriber whose position passes the gap check gets, in one round, exactly the
  events after its position, in order and without a hole, and its cursor moves to the
  newest event; the stream then ends exactly when the run is terminal or waiting.
\<close>

theorem replay_complete:
  assumes reach: "reach initial_registry (registry_step fmt) g" and k: "k < length (objects g)"
    and gap: "replay_gap (objects g ! k) (int seen) = None" and buf: "0 < event_buffer_size (objects g ! k)"
  shows "map fst (fst (replay_round (objects g ! k) (int seen))) = [Suc seen ..< next_event_id (objects g ! k)] \<and>
    set (fst (replay_round (objects g ! k) (int seen))) \<subseteq> set (events (objects g ! k)) \<and>
    snd (replay_round (objects g ! k) (int seen)) =
      (int (next_event_id (objects g ! k)) - 1,
       is_terminal (objects g ! k) \<or> status (objects g ! k) = WaitingForInput)"
proof -
  let ?r = "objects g ! k"
  let ?n = "next_event_id ?r"
  let ?a = "?n - min (event_buffer_size ?r) (?n - 1)"
  have ids: "map fst (events ?r) = [?a ..< ?n]" and n: "1 \<le> ?n"
    using record_reach[OF reach k] by (simp_all add: record_inv_def events_ok_def)
  have le: "int seen \<le> int ?n - 1" using gap by (auto simp: replay_gap_def split: if_splits)
  have low: "?a \<le> Suc seen"
  proof (cases "events ?r")
    case Nil
    then have "[?a ..< ?n] = []" using ids by (metis list.simps(8))
    then have "?n = 0 \<or> ?n \<le> ?a" by (simp only: upt_eq_Nil_conv)
    then have "?n = 1" using n buf by (auto simp: min_def split: if_splits)
    then show ?thesis by simp
  next
    case (Cons e es)
    then have "[?a ..< ?n] = fst e # map fst es" using ids by simp
    then have "fst e = ?a" by (simp add: upt_eq_Cons_conv)
    moreover have "int (fst e) - 1 \<le> int seen"
      using gap Cons le by (cases e) (auto simp: replay_gap_def split: if_splits)
    ultimately show ?thesis by simp
  qed
  let ?av = "filter (\<lambda>(e, _). int e > int seen) (events ?r)"
  have "map fst ?av = filter (\<lambda>e. Suc seen \<le> e) (map fst (events ?r))"
    by (simp add: filter_map o_def case_prod_unfold Suc_le_eq)
  then have av: "map fst ?av = [Suc seen ..< ?n]" using ids filter_upt_above[OF low] by simp
  have cur: "(if ?av = [] then int seen else int (fst (last ?av))) = int ?n - 1"
  proof (cases "?av = []")
    case True
    then have "[Suc seen ..< ?n] = []" using av by (metis list.simps(8))
    then have "?n = 0 \<or> ?n \<le> Suc seen" by (simp only: upt_eq_Nil_conv)
    then show ?thesis using True le n by simp
  next
    case False
    then have "fst (last ?av) = last [Suc seen ..< ?n]" using av by (metis last_map)
    moreover have "[Suc seen ..< ?n] \<noteq> []" using False av by (metis Nil_is_map_conv)
    then have "last [Suc seen ..< ?n] = ?n - 1"
      by (metis One_nat_def diff_Suc_1 last_upt upt_eq_Nil_conv linorder_not_less)
    ultimately show ?thesis using False n by (simp add: of_nat_diff)
  qed
  show ?thesis using av cur by (auto simp: replay_round_def Let_def)
qed

theorem replay_complete_witness:
  "map fst (fst (replay_round (objects sample_finished ! 0) 0)) = [1]"
proof -
  have "replay_gap (objects sample_finished ! 0) (int 0) = None" by code_simp
  from replay_complete[OF sample_finished_reach _ this] show ?thesis
    by (simp add: sample_finished_facts upt_rec)
qed

end
