(* ===== verification/Json.thy ===== *)
theory Json
  imports Prelude "HOL-Library.Multiset" "HOL-Library.List_Lexorder" "HOL-Library.Char_ord"
begin

text \<open>
  JSON values and their canonical serialisation, \<open>json.dumps(..., ensure_ascii=False,
  sort_keys=True, separators=(",", ":"))\<close>, which the connection planner, the evaluator and
  the patch policy hash. The digest itself is a parameter wherever it is used.
\<close>

datatype json =
    JNull
  | JBool bool
  | JInt int
  | JStr string
  | JArr "json list"
  | JObj "(string \<times> json) list"

definition int_str :: "int \<Rightarrow> string" where
  "int_str i = (if i < 0 then CHR ''-'' # nat_str (nat (- i)) else nat_str (nat i))"

text \<open>String escapes with \<open>ensure_ascii=False\<close>.\<close>

definition json_raw_char :: "char \<Rightarrow> string" where
  "json_raw_char c = (let n = (of_char c :: nat) in if n < 127 then json_char c else [c])"

definition json_raw_string :: "string \<Rightarrow> string" where
  "json_raw_string s = CHR 0x22 # concat (map json_raw_char s) @ [CHR 0x22]"

fun canonical_json :: "json \<Rightarrow> string" where
  "canonical_json JNull = ''null''"
| "canonical_json (JBool b) = (if b then ''true'' else ''false'')"
| "canonical_json (JInt i) = int_str i"
| "canonical_json (JStr s) = json_raw_string s"
| "canonical_json (JArr xs) = ''['' @ py_join '','' (map canonical_json xs) @ '']''"
| "canonical_json (JObj kvs) =
     ''{'' @ py_join '','' (map (\<lambda>(k, s). json_raw_string k @ '':'' @ s)
        (sort_key fst (map (\<lambda>(k, v). (k, canonical_json v)) kvs))) @ ''}''"

text \<open>\<open>hexdigest(payload)[:length]\<close> for a digest function.\<close>

definition canonical_hash :: "(string \<Rightarrow> string) \<Rightarrow> json \<Rightarrow> nat \<Rightarrow> string" where
  "canonical_hash digest v n = take n (digest (canonical_json v))"

text \<open>Two objects with the same entries in another order serialise alike.\<close>

lemma sort_key_fst_distinct:
  fixes xs ys :: "('a :: linorder \<times> 'b) list"
  assumes "distinct (map fst xs)" and "mset xs = mset ys"
  shows "sort_key fst xs = sort_key fst ys"
proof (rule map_sorted_distinct_set_unique[of fst])
  have set: "set xs = set ys" using assms(2) by (metis set_mset_mset)
  have "mset (map fst xs) = mset (map fst ys)" using assms(2) by (simp add: mset_map)
  then have dy: "distinct (map fst ys)" using assms(1) mset_eq_imp_distinct_iff by blast
  show "inj_on fst (set (sort_key fst xs) \<union> set (sort_key fst ys))"
    using assms(1) set by (simp add: distinct_map)
  show "distinct (map fst (sort_key fst xs))" "distinct (map fst (sort_key fst ys))"
    using assms(1) dy by (simp_all add: distinct_map)
  show "set (sort_key fst xs) = set (sort_key fst ys)" using set by simp
qed simp_all

lemma canonical_json_reorder:
  assumes "distinct (map fst kvs)" and "mset kvs = mset kvs'"
  shows "canonical_json (JObj kvs) = canonical_json (JObj kvs')"
proof -
  let ?f = "\<lambda>(k, v). (k, canonical_json v)"
  have "map fst (map ?f kvs) = map fst kvs" by auto
  then have "sort_key fst (map ?f kvs) = sort_key fst (map ?f kvs')"
    using assms by (intro sort_key_fst_distinct) (simp_all only: mset_map)
  then show ?thesis by simp
qed

end
