(* ===== verification/DesignContracts.thy ===== *)
theory DesignContracts
  imports Json Complex_Main
begin

text \<open>
  The artifacts exchanged between the pipeline's steps,
  \<^verbatim>\<open>src/src/ratsnestpro/orchestration/pipeline_contracts.py\<close>: topology, component
  selection, netlist intent, board partition, net classes and manufacturing results, with
  the validators their constructors run. A validator is a function to a result; the error
  names the first check that fails. Lengths and coordinates are exact rationals.
\<close>

subsection \<open>Component references\<close>

definition is_letter :: "char \<Rightarrow> bool" where
  "is_letter c = (let n = (of_char c :: nat) in (65 \<le> n \<and> n \<le> 90) \<or> (97 \<le> n \<and> n \<le> 122))"

definition is_digit :: "char \<Rightarrow> bool" where
  "is_digit c = (let n = (of_char c :: nat) in 48 \<le> n \<and> n \<le> 57)"

definition is_word_char :: "char \<Rightarrow> bool" where
  "is_word_char c = (is_letter c \<or> is_digit c \<or> c = CHR ''_'')"

text \<open>\<^verbatim>\<open>^[A-Za-z#][A-Za-z0-9_]*$\<close>\<close>

definition is_component_ref :: "string \<Rightarrow> bool" where
  "is_component_ref s = (case s of [] \<Rightarrow> False
     | c # cs \<Rightarrow> (is_letter c \<or> c = CHR ''#'') \<and> list_all is_word_char cs)"

definition digits_value :: "string \<Rightarrow> nat" where
  "digits_value ds = foldl (\<lambda>n c. 10 * n + ((of_char c :: nat) - 48)) 0 ds"

text \<open>
  \<^verbatim>\<open>(#?[A-Za-z]+)([0-9]+)\<close> at the start of a string: prefix, digits and rest.
\<close>

definition scan_ref :: "string \<Rightarrow> (string \<times> string \<times> string) option" where
  "scan_ref s =
     (let (hash, s1) = (case s of CHR ''#'' # cs \<Rightarrow> (''#'', cs) | _ \<Rightarrow> ([], s));
          letters = takeWhile is_letter s1; s2 = dropWhile is_letter s1;
          ds = takeWhile is_digit s2; s3 = dropWhile is_digit s2
      in if letters = [] \<or> ds = [] then None else Some (hash @ letters, ds, s3))"

definition scan_range :: "string \<Rightarrow> (string \<times> string \<times> string \<times> string) option" where
  "scan_range s =
     (case scan_ref (dropWhile py_space s) of
        None \<Rightarrow> None
      | Some (p1, d1, r1) \<Rightarrow>
          (case dropWhile py_space r1 of
             CHR ''-'' # r2 \<Rightarrow>
               (case scan_ref (dropWhile py_space r2) of
                  None \<Rightarrow> None
                | Some (p2, d2, r3) \<Rightarrow>
                    if dropWhile py_space r3 = [] then Some (p1, d1, p2, d2) else None)
           | _ \<Rightarrow> None))"

text \<open>
  \<^verbatim>\<open>_COMPONENT_REFERENCE_TOKEN_RE\<close> over a string, with the characters outside every match.
\<close>

fun scan_tokens :: "nat \<Rightarrow> string \<Rightarrow> string list \<times> string" where
  "scan_tokens 0 s = ([], s)"
| "scan_tokens (Suc n) s =
     (case s of
        [] \<Rightarrow> ([], [])
      | c # cs \<Rightarrow>
          (case scan_ref s of
             None \<Rightarrow> (let (ts, residue) = scan_tokens n cs in (ts, c # residue))
           | Some (p, ds, rest) \<Rightarrow>
               (let (suffix, rest') = (case rest of
                      x # xs \<Rightarrow> if is_letter x then ([x], xs) else ([], rest) | [] \<Rightarrow> ([], []));
                    (ts, residue) = scan_tokens n rest'
                in ((p @ ds @ suffix) # ts, residue))))"

definition is_ref_separator :: "char \<Rightarrow> bool" where
  "is_ref_separator c = (py_space c \<or> c \<in> set '',;/&+'')"

definition max_range_expansion :: nat where "max_range_expansion = 64"

definition expanded_component_references :: "string \<Rightarrow> string list option" where
  "expanded_component_references raw =
     (let ref = py_strip raw in
      if is_component_ref ref then Some [ref]
      else case scan_range ref of
        Some (p1, d1, p2, d2) \<Rightarrow>
          (let a = digits_value d1; b = digits_value d2
           in if py_upper p1 = py_upper p2 \<and> a \<le> b \<and> b - a < max_range_expansion
              then Some (map (\<lambda>n. p1 @ nat_str n) [a ..< b + 1]) else None)
      | None \<Rightarrow>
          (let (references, residue) = scan_tokens (length ref) ref
           in if length references > 1 \<and> filter (\<lambda>c. \<not> is_ref_separator c) residue = []
                 \<and> list_all is_component_ref references
              then Some references else None))"

text \<open>
  \<^verbatim>\<open>_expand_grouped_parts\<close>: a raw part is its reference (absent when it is not a string)
  with the rest of its fields.
\<close>

definition expand_grouped_parts :: "(string option \<times> 'a) list \<Rightarrow> (string option \<times> 'a) list" where
  "expand_grouped_parts raw =
     concat (map (\<lambda>(ref, fields).
       (case (case ref of Some r \<Rightarrow> expanded_component_references r | None \<Rightarrow> None) of
          None \<Rightarrow> [(ref, fields)]
        | Some refs \<Rightarrow> if length refs \<le> 1 then [(ref, fields)]
                       else map (\<lambda>r. (Some r, fields)) refs)) raw)"

subsection \<open>Topology\<close>

datatype contract_fault =
    FieldBound string
  | NotUnique string
  | ZoneOrder
  | PatchUpsertAndRemove
  | EmptyAliases
  | NoAliasEvidence
  | BomPathMismatch
  | BomReadyWithoutPath string
  | BomReadyWithBlockers string

definition bounded :: "string \<Rightarrow> nat \<Rightarrow> nat \<Rightarrow> 'a list \<Rightarrow> (contract_fault, unit) result" where
  "bounded field lo hi xs = demand (lo \<le> length xs \<and> length xs \<le> hi) (FieldBound field) (Inr ())"

definition all_unique :: "string \<Rightarrow> 'a list \<Rightarrow> (contract_fault, unit) result" where
  "all_unique what xs = demand (distinct xs) (NotUnique what) (Inr ())"

definition check_all :: "('a \<Rightarrow> ('e, unit) result) \<Rightarrow> 'a list \<Rightarrow> ('e, unit) result" where
  "check_all f xs = rfold (\<lambda>_ x. f x) () xs"

definition both :: "('e, unit) result \<Rightarrow> ('e, unit) result \<Rightarrow> ('e, unit) result" where
  "both a b = rbind a (\<lambda>_. b)"

datatype implementation_kind = AutoKind | ComponentKind | CopperZone | MechanicalFeature | BoardConstraint

record topology_block =
  tb_name :: string
  tb_kind :: string
  tb_description :: string
  tb_implementation_kind :: implementation_kind
  tb_implementation_refs :: "string list"

text \<open>\<^verbatim>\<open>_canonical_implementation_refs\<close>\<close>

definition canonical_implementation_refs :: "string list \<Rightarrow> string list" where
  "canonical_implementation_refs raw =
     fromkeys (filter (\<lambda>r. r \<noteq> []) (map (\<lambda>r. py_upper (py_strip r)) raw))"

record ground_tie =
  gt_component_ref :: string
  gt_domains :: "string list"

text \<open>
  \<^verbatim>\<open>_canonical_domains\<close> and \<^verbatim>\<open>_canonical_ground_domains\<close>: names are stripped, must have 1 to
  100 characters, and the first of each case-insensitive group is kept.
\<close>

fun canonical_domains :: "string list \<Rightarrow> string list \<Rightarrow> (contract_fault, string list) result" where
  "canonical_domains seen [] = Inr []"
| "canonical_domains seen (raw # rest) =
     (let domain = py_strip raw; key = casefold domain
      in demand (1 \<le> length domain \<and> length domain \<le> 100) (FieldBound ''ground domain'')
           (if key \<in> set seen then canonical_domains seen rest
            else rbind (canonical_domains (key # seen) rest) (\<lambda>ds. Inr (domain # ds))))"

definition ground_tie_of :: "string \<Rightarrow> string list \<Rightarrow> (contract_fault, ground_tie) result" where
  "ground_tie_of ref domains =
     rbind (canonical_domains [] domains) (\<lambda>ds.
       let r = py_upper (py_strip ref)
       in demand (1 \<le> length r \<and> length r \<le> 32 \<and> is_component_ref r) (FieldBound ''component_ref'')
            (demand (2 \<le> length ds \<and> length ds \<le> 16) (FieldBound ''domains'')
              (Inr \<lparr>gt_component_ref = r, gt_domains = ds\<rparr>)))"

record topology =
  tp_schema_version :: nat
  tp_blocks :: "topology_block list"
  tp_rails :: "string list"
  tp_ground_net :: string
  tp_ground_domains :: "string list"
  tp_ground_ties :: "ground_tie list"

definition check_topology :: "topology \<Rightarrow> (contract_fault, unit) result" where
  "check_topology t =
     both (bounded ''blocks'' 0 200 (tp_blocks t))
    (both (bounded ''rails'' 0 50 (tp_rails t))
    (both (bounded ''ground_net'' 1 100 (tp_ground_net t))
    (both (bounded ''ground_domains'' 0 50 (tp_ground_domains t))
    (both (bounded ''ground_ties'' 0 32 (tp_ground_ties t))
    (both (all_unique ''topology block names'' (map tb_name (tp_blocks t)))
    (both (all_unique ''supply rails'' (tp_rails t))
    (both (all_unique ''ground domains'' (map casefold (tp_ground_domains t)))
          (all_unique ''ground tie component refs'' (map gt_component_ref (tp_ground_ties t))))))))))"

definition block_kinds :: "topology \<Rightarrow> string set" where
  "block_kinds t = set (map tb_kind (tp_blocks t))"

subsection \<open>Component selection\<close>

record selected_part =
  sp_ref :: string
  sp_symbol :: string
  sp_value :: string
  sp_footprint :: string
  sp_role :: string

definition footprint_placeholders :: "string list" where
  "footprint_placeholders =
     [''-'', ''~'', ''?'', ''n/a'', ''na'', ''none'', ''null'', ''tbd'', ''unknown'', ''unspecified'']"

definition normalize_footprint :: "string option \<Rightarrow> string" where
  "normalize_footprint raw =
     (case raw of None \<Rightarrow> []
      | Some s \<Rightarrow> (let n = py_strip s in if casefold n \<in> set footprint_placeholders then [] else n))"

definition check_part :: "selected_part \<Rightarrow> (contract_fault, unit) result" where
  "check_part p =
     both (bounded ''ref'' 1 32 (sp_ref p))
    (both (demand (is_component_ref (sp_ref p)) (FieldBound ''ref'') (Inr ()))
    (both (bounded ''symbol'' 1 200 (sp_symbol p))
    (both (bounded ''value'' 1 200 (sp_value p))
    (both (bounded ''footprint'' 0 240 (sp_footprint p))
          (bounded ''role'' 0 120 (sp_role p))))))"

definition check_selection :: "selected_part list \<Rightarrow> (contract_fault, unit) result" where
  "check_selection parts =
     both (bounded ''parts'' 0 1000 parts)
    (both (check_all check_part parts)
          (all_unique ''selected part references'' (map sp_ref parts)))"

text \<open>\<^verbatim>\<open>VerifiedPinAlias\<close>\<close>

definition normalize_aliases :: "string list \<Rightarrow> (contract_fault, string list) result" where
  "normalize_aliases raw =
     (let n = map (\<lambda>s. py_upper (py_strip s)) (filter (\<lambda>s. py_strip s \<noteq> []) raw)
      in demand (n \<noteq> []) EmptyAliases (Inr (fromkeys n)))"

definition normalize_evidence_ids :: "string list \<Rightarrow> (contract_fault, string list) result" where
  "normalize_evidence_ids raw =
     (let n = map py_strip (filter (\<lambda>s. py_strip s \<noteq> []) raw)
      in demand (n \<noteq> []) NoAliasEvidence (Inr (fromkeys n)))"

definition check_selection_patch :: "selected_part list \<Rightarrow> string list \<Rightarrow> (contract_fault, unit) result" where
  "check_selection_patch upserts removals =
     (let u = map (\<lambda>p. py_upper (sp_ref p)) upserts; r = map py_upper removals
      in both (bounded ''upsert_parts'' 0 32 upserts)
        (both (bounded ''remove_refs'' 0 32 removals)
        (both (all_unique ''selection patch upsert references'' u)
        (both (all_unique ''selection patch removal references'' r)
              (demand (set u \<inter> set r = {}) PatchUpsertAndRemove (Inr ()))))))"

subsection \<open>Netlist intent\<close>

record logical_pin =
  lp_ref :: string
  lp_pin :: string

definition pin_key :: "logical_pin \<Rightarrow> string" where
  "pin_key p = lp_ref p @ '':'' @ lp_pin p"

definition check_pin :: "logical_pin \<Rightarrow> (contract_fault, unit) result" where
  "check_pin p = both (bounded ''ref'' 1 32 (lp_ref p)) (bounded ''pin'' 1 48 (lp_pin p))"

record net_intent =
  ni_name :: string
  ni_kind :: string
  ni_pins :: "logical_pin list"
  ni_purpose :: string

text \<open>\<^verbatim>\<open>_deduplicate_identical_pins\<close>: the field order \<open>ref\<close>, \<open>pin\<close> identifies a pin.\<close>

definition dedup_net :: "net_intent \<Rightarrow> net_intent" where
  "dedup_net n = n\<lparr>ni_pins := fromkeys (ni_pins n)\<rparr>"

definition check_net :: "net_intent \<Rightarrow> (contract_fault, unit) result" where
  "check_net n =
     both (bounded ''name'' 1 100 (ni_name n))
    (both (bounded ''kind'' 0 32 (ni_kind n))
    (both (bounded ''pins'' 0 500 (ni_pins n))
    (both (check_all check_pin (ni_pins n))
    (both (bounded ''purpose'' 0 2000 (ni_purpose n))
          (all_unique ''net pins'' (map pin_key (ni_pins n)))))))"

record netlist =
  nl_additional_parts :: "selected_part list"
  nl_nets :: "net_intent list"
  nl_no_connect :: "logical_pin list"
  nl_supply :: "string list"
  nl_ground :: string
  nl_rationale :: string

definition check_netlist :: "netlist \<Rightarrow> (contract_fault, unit) result" where
  "check_netlist n =
     both (bounded ''additional_parts'' 0 64 (nl_additional_parts n))
    (both (check_all check_part (nl_additional_parts n))
    (both (bounded ''nets'' 0 5000 (nl_nets n))
    (both (check_all check_net (nl_nets n))
    (both (bounded ''no_connect_pins'' 0 2000 (nl_no_connect n))
    (both (check_all check_pin (nl_no_connect n))
    (both (bounded ''supply_nets'' 0 50 (nl_supply n))
    (both (bounded ''ground_net'' 1 100 (nl_ground n))
    (both (bounded ''rationale'' 0 10000 (nl_rationale n))
    (both (all_unique ''net names'' (map ni_name (nl_nets n)))
    (both (all_unique ''additional part references'' (map sp_ref (nl_additional_parts n)))
          (all_unique ''no-connect pins'' (map pin_key (nl_no_connect n)))))))))))))"

definition netlist_net :: "netlist \<Rightarrow> string \<Rightarrow> net_intent option" where
  "netlist_net n name = List.find (\<lambda>x. ni_name x = name) (nl_nets n)"

subsection \<open>Board partition, net classes, manufacturing\<close>

record board_zone =
  bz_x1 :: rat
  bz_y1 :: rat
  bz_x2 :: rat
  bz_y2 :: rat

definition check_zone :: "board_zone \<Rightarrow> (contract_fault, unit) result" where
  "check_zone z =
     demand (\<forall>c \<in> {bz_x1 z, bz_y1 z, bz_x2 z, bz_y2 z}. - 10000 \<le> c \<and> c \<le> 10000) (FieldBound ''zone'')
       (demand (\<not> (bz_x2 z \<le> bz_x1 z \<or> bz_y2 z \<le> bz_y1 z)) ZoneOrder (Inr ()))"

datatype layer_value = LayerInt int | LayerText string

text \<open>\<^verbatim>\<open>NetClass._normalize_layer_number\<close>; other values are left to the type check.\<close>

definition layer_of_int :: "int \<Rightarrow> layer_value" where
  "layer_of_int v =
     (if v = 1 then LayerText ''F.Cu'' else if v = 2 then LayerText ''B.Cu''
      else if v > 2 then LayerText (''In'' @ int_str (v - 1) @ ''.Cu'') else LayerInt v)"

definition normalize_layer :: "layer_value \<Rightarrow> layer_value" where
  "normalize_layer v =
     (case v of
        LayerInt i \<Rightarrow> layer_of_int i
      | LayerText s \<Rightarrow> (let d = py_strip s
          in if d \<noteq> [] \<and> list_all is_digit d then layer_of_int (int (digits_value d)) else v))"

record manufacture_result =
  mr_bom_path :: string
  mr_production_bom_path :: string
  mr_procurement_bom_path :: string
  mr_production_ready :: bool
  mr_procurement_ready :: bool
  mr_production_blockers :: "string list"
  mr_procurement_blockers :: "string list"

definition normalize_bom_paths :: "manufacture_result \<Rightarrow> (contract_fault, manufacture_result) result" where
  "normalize_bom_paths m =
     demand (\<not> (mr_bom_path m \<noteq> [] \<and> mr_production_bom_path m \<noteq> [] \<and>
                mr_bom_path m \<noteq> mr_production_bom_path m)) BomPathMismatch
       (let path = (if mr_production_bom_path m \<noteq> [] then mr_production_bom_path m else mr_bom_path m);
            m' = m\<lparr>mr_bom_path := path, mr_production_bom_path := path\<rparr>
        in demand (\<not> (mr_production_ready m \<and> path = [])) (BomReadyWithoutPath ''production'')
          (demand (\<not> (mr_procurement_ready m \<and> mr_procurement_bom_path m = [])) (BomReadyWithoutPath ''procurement'')
          (demand (\<not> (mr_production_ready m \<and> mr_production_blockers m \<noteq> [])) (BomReadyWithBlockers ''production'')
          (demand (\<not> (mr_procurement_ready m \<and> mr_procurement_blockers m \<noteq> [])) (BomReadyWithBlockers ''procurement'')
             (Inr m')))))"

end
