(* ===== verification/ConnectionContracts.thy ===== *)
theory ConnectionContracts
  imports DesignContracts "HOL-Library.Product_Lexorder"
begin

text \<open>
  Contracts of block-wise connection synthesis, the first 660 lines of
  \<^verbatim>\<open>src/src/ratsnestpro/orchestration/connection_synthesis.py\<close>: batch specifications and
  plans, additive deltas, checkpoints and reports with their validators, the fingerprints,
  natural reference order and the size estimate. The symbol library
  (\<^verbatim>\<open>symbols.symbol_pins\<close>) and the digest behind the fingerprints are parameters.
\<close>

subsection \<open>Natural reference order\<close>

datatype chunk = Number nat | Text string

instantiation chunk :: linorder
begin

fun less_eq_chunk :: "chunk \<Rightarrow> chunk \<Rightarrow> bool" where
  "less_eq_chunk (Number a) (Number b) = (a \<le> b)"
| "less_eq_chunk (Number a) (Text t) = True"
| "less_eq_chunk (Text s) (Number b) = False"
| "less_eq_chunk (Text s) (Text t) = (s \<le> t)"

definition less_chunk :: "chunk \<Rightarrow> chunk \<Rightarrow> bool" where
  "less_chunk a b = (a \<le> b \<and> \<not> b \<le> a)"

instance
proof
  fix a b c :: chunk
  show "(a < b) = (a \<le> b \<and> \<not> b \<le> a)" by (simp add: less_chunk_def)
  show "a \<le> a" by (cases a) simp_all
  show "a \<le> b \<Longrightarrow> b \<le> c \<Longrightarrow> a \<le> c" by (cases a; cases b; cases c) auto
  show "a \<le> b \<Longrightarrow> b \<le> a \<Longrightarrow> a = b" by (cases a; cases b) auto
  show "a \<le> b \<or> b \<le> a" by (cases a; cases b) auto
qed

end

text \<open>
  \<^verbatim>\<open>_natural_ref_key\<close>: maximal digit runs are numbers, the text between them is folded.
  References start with a letter or \<open>#\<close>, so texts and numbers are compared only with their
  own kind.
\<close>

function natural_ref_key :: "string \<Rightarrow> chunk list" where
  "natural_ref_key s =
     (case s of
        [] \<Rightarrow> []
      | c # cs \<Rightarrow>
          if is_digit c
          then Number (digits_value (takeWhile is_digit s)) # natural_ref_key (dropWhile is_digit s)
          else Text (casefold (takeWhile (\<lambda>x. \<not> is_digit x) s))
                 # natural_ref_key (dropWhile (\<lambda>x. \<not> is_digit x) s))"
  by auto
termination
  by (relation "measure length") (auto simp: length_dropWhile_le less_Suc_eq_le)

declare natural_ref_key.simps [simp del]

definition natural_sort :: "string list \<Rightarrow> string list" where
  "natural_sort xs = sort_key natural_ref_key xs"

subsection \<open>Symbol pins\<close>

record sym_pin =
  pin_number :: string
  pin_name :: string
  pin_type :: string

type_synonym symbol_library = "string \<Rightarrow> sym_pin list option"

definition symbol_pins :: "symbol_library \<Rightarrow> selected_part \<Rightarrow> sym_pin list option" where
  "symbol_pins lib p = lib (sp_symbol p)"

definition numbered :: "sym_pin list \<Rightarrow> sym_pin list" where
  "numbered pins = filter (\<lambda>p. py_strip (pin_number p) \<noteq> []) pins"

definition pin_count :: "symbol_library \<Rightarrow> nat \<Rightarrow> selected_part \<Rightarrow> nat \<times> bool" where
  "pin_count lib unknown p =
     (case symbol_pins lib p of
        None \<Rightarrow> (unknown, True)
      | Some pins \<Rightarrow> (length (numbered pins), False))"

subsection \<open>Size estimate\<close>

record estimate =
  es_pins :: nat
  es_chars :: nat
  es_tokens :: nat
  es_limit :: int
  es_budget :: int
  es_direct_pins :: int
  es_unknown :: "string list"
  es_batch :: bool

datatype estimate_fault = NonPositive string | BadRatio

text \<open>\<open>len(json.dumps({"ref": r, "pin": p}, separators=(",", ":"))) + 1\<close>\<close>

definition pin_json_size :: "string \<Rightarrow> string \<Rightarrow> nat" where
  "pin_json_size ref pin =
     length (''{'' @ json_string ''ref'' @ '':'' @ json_string ref @ '','' @
             json_string ''pin'' @ '':'' @ json_string pin @ ''}'') + 1"

definition ceil_div :: "nat \<Rightarrow> nat \<Rightarrow> nat" where
  "ceil_div a b = (a + b - 1) div b"

definition part_estimate :: "symbol_library \<Rightarrow> nat \<Rightarrow> selected_part \<Rightarrow> nat \<times> nat" where
  "part_estimate lib unknown p =
     (case symbol_pins lib p of
        None \<Rightarrow> (unknown,
          sum_list (map (\<lambda>i. pin_json_size (sp_ref p) (''PIN'' @ nat_str (i + 1))) [0 ..< unknown]))
      | Some pins \<Rightarrow>
          (length (numbered pins),
           sum_list (map (\<lambda>pin.
             let number = py_strip (pin_number pin); name = py_strip (pin_name pin)
             in pin_json_size (sp_ref p) (if length number \<le> length name then name else number))
             (numbered pins))))"

definition estimate_connection_output ::
  "symbol_library \<Rightarrow> selected_part list \<Rightarrow> int \<Rightarrow> rat \<Rightarrow> int \<Rightarrow> int \<Rightarrow> (estimate_fault, estimate) result" where
  "estimate_connection_output lib parts limit ratio direct_pins unknown =
     demand (0 < limit) (NonPositive ''completion_limit'')
    (demand (0 < ratio \<and> ratio \<le> 1) BadRatio
    (demand (0 < direct_pins) (NonPositive ''direct_pin_limit'')
    (demand (0 < unknown) (NonPositive ''unknown_symbol_pin_estimate'')
      (let counts = map (part_estimate lib (nat unknown)) parts;
           pins = sum_list (map fst counts);
           chars = 1024 + sum_list (map snd counts) + 48 * ceil_div pins 2;
           tokens = ceil_div chars 3;
           budget = max 1 (min 4096 \<lfloor>of_int limit * ratio\<rfloor>)
       in Inr \<lparr>es_pins = pins, es_chars = chars, es_tokens = tokens, es_limit = limit,
               es_budget = budget, es_direct_pins = direct_pins,
               es_unknown = natural_sort (map sp_ref (filter (\<lambda>p. symbol_pins lib p = None) parts)),
               es_batch = (int tokens > budget \<or> int pins > direct_pins)\<rparr>))))"

subsection \<open>Batches and plans\<close>

record batch_spec =
  bs_id :: string
  bs_sequence :: nat
  bs_blocks :: "string list"
  bs_owned :: "string list"
  bs_shared :: "string list"
  bs_pins :: nat

datatype connection_fault =
    ContractFault contract_fault
  | OwnedSharedOverlap
  | DuplicateOwner
  | SequenceGap
  | PlanFingerprint
  | CreateAndExtend
  | PinAssignedTwice
  | StatusOrder
  | StaleTopology
  | StaleSelection
  | RevisionMismatch
  | RoundCalls
  | CompletedNotPrefix
  | CompletedWithoutFingerprint string
  | CompletedWithoutAttempt string
  | ReservationKey string
  | ReservationNotShared string
  | ReservationMissingNet string
  | ReportCounts
  | ReportUndisposed
  | ReportDispositions
  | ReportRatio

definition lift_fault :: "(contract_fault, 'a) result \<Rightarrow> (connection_fault, 'a) result" where
  "lift_fault r = (case r of Inl e \<Rightarrow> Inl (ContractFault e) | Inr x \<Rightarrow> Inr x)"

definition c_bounded :: "string \<Rightarrow> nat \<Rightarrow> nat \<Rightarrow> 'a list \<Rightarrow> (connection_fault, unit) result" where
  "c_bounded f lo hi xs = lift_fault (bounded f lo hi xs)"

definition c_unique :: "string \<Rightarrow> 'a list \<Rightarrow> (connection_fault, unit) result" where
  "c_unique w xs = lift_fault (all_unique w xs)"

definition check_batch :: "batch_spec \<Rightarrow> (connection_fault, unit) result" where
  "check_batch b =
     both (c_bounded ''batch_id'' 1 80 (bs_id b))
    (both (c_bounded ''topology_blocks'' 1 200 (bs_blocks b))
    (both (c_bounded ''owned_refs'' 0 1000 (bs_owned b))
    (both (c_bounded ''shared_refs'' 0 1000 (bs_shared b))
    (both (c_unique ''batch topology block names'' (bs_blocks b))
    (both (c_unique ''batch owned refs'' (bs_owned b))
    (both (c_unique ''batch shared refs'' (bs_shared b))
          (demand (set (bs_owned b) \<inter> set (bs_shared b) = {}) OwnedSharedOverlap (Inr ()))))))))"

record batch_plan =
  bp_topology :: string
  bp_selection :: string
  bp_fingerprint :: string
  bp_target :: nat
  bp_effective :: nat
  bp_max :: nat
  bp_shared :: "string list"
  bp_oversized :: "string list"
  bp_supported :: bool
  bp_batches :: "batch_spec list"

definition jstrs :: "string list \<Rightarrow> json" where "jstrs xs = JArr (map JStr xs)"

text \<open>\<^verbatim>\<open>_plan_fingerprint_payload\<close>: the batch identifiers are not part of it.\<close>

definition plan_payload :: "batch_plan \<Rightarrow> json" where
  "plan_payload p = JObj
     [(''topology'', JStr (bp_topology p)), (''selection'', JStr (bp_selection p)),
      (''target_pin_count'', JInt (int (bp_target p))),
      (''effective_target_pin_count'', JInt (int (bp_effective p))),
      (''max_batches'', JInt (int (bp_max p))), (''shared_refs'', jstrs (bp_shared p)),
      (''oversized_atomic_refs'', jstrs (bp_oversized p)),
      (''batching_supported'', JBool (bp_supported p)),
      (''batches'', JArr (map (\<lambda>b. JObj
         [(''sequence'', JInt (int (bs_sequence b))), (''topology_blocks'', jstrs (bs_blocks b)),
          (''owned_refs'', jstrs (bs_owned b)), (''shared_refs'', jstrs (bs_shared b)),
          (''owned_pin_count'', JInt (int (bs_pins b)))]) (bp_batches p)))]"

definition check_plan :: "(string \<Rightarrow> string) \<Rightarrow> batch_plan \<Rightarrow> (connection_fault, unit) result" where
  "check_plan digest p =
     both (c_bounded ''topology_fingerprint'' 1 64 (bp_topology p))
    (both (c_bounded ''selection_fingerprint'' 1 64 (bp_selection p))
    (both (c_bounded ''plan_fingerprint'' 1 64 (bp_fingerprint p))
    (both (demand (0 < bp_target p \<and> 0 < bp_effective p \<and> 0 < bp_max p)
             (ContractFault (FieldBound ''pin counts'')) (Inr ()))
    (both (c_bounded ''shared_refs'' 0 1000 (bp_shared p))
    (both (c_bounded ''oversized_atomic_refs'' 0 1000 (bp_oversized p))
    (both (c_bounded ''batches'' 1 128 (bp_batches p))
    (both (check_all check_batch (bp_batches p))
    (both (c_unique ''connection batch IDs'' (map bs_id (bp_batches p)))
    (both (demand (distinct (concat (map bs_owned (bp_batches p)))) DuplicateOwner (Inr ()))
    (both (demand (map bs_sequence (bp_batches p) = [0 ..< length (bp_batches p)]) SequenceGap (Inr ()))
    (both (c_unique ''oversized atomic refs'' (bp_oversized p))
          (demand (bp_fingerprint p = canonical_hash digest (plan_payload p) 20) PlanFingerprint (Inr ())))))))))))))"

definition plan_batch :: "batch_plan \<Rightarrow> string \<Rightarrow> batch_spec option" where
  "plan_batch p i = List.find (\<lambda>b. bs_id b = i) (bp_batches p)"

subsection \<open>Deltas\<close>

record net_extension =
  ne_name :: string
  ne_pins :: "logical_pin list"

definition check_extension :: "net_extension \<Rightarrow> (connection_fault, unit) result" where
  "check_extension e =
     both (c_bounded ''name'' 1 100 (ne_name e))
    (both (c_bounded ''pins'' 0 500 (ne_pins e))
    (both (lift_fault (check_all check_pin (ne_pins e)))
          (c_unique ''net extension pins'' (map (\<lambda>p. casefold (pin_key p)) (ne_pins e)))))"

record connection_delta =
  cd_batch :: string
  cd_base :: nat
  cd_create :: "net_intent list"
  cd_extend :: "net_extension list"
  cd_no_connect :: "logical_pin list"
  cd_rationale :: string

definition delta_dispositions :: "connection_delta \<Rightarrow> (string \<times> string) list" where
  "delta_dispositions d =
     concat (map (\<lambda>n. map (\<lambda>p. (casefold (pin_key p), casefold (ni_name n))) (ni_pins n)) (cd_create d)) @
     concat (map (\<lambda>e. map (\<lambda>p. (casefold (pin_key p), casefold (ne_name e))) (ne_pins e)) (cd_extend d)) @
     map (\<lambda>p. (casefold (pin_key p), ''<no-connect>'')) (cd_no_connect d)"

text \<open>The loop over \<open>owners\<close>: a conflict is a pin whose previous target differs.\<close>

fun disposition_conflicts :: "(string, string) dict \<Rightarrow> (string \<times> string) list \<Rightarrow> string list" where
  "disposition_conflicts owners [] = []"
| "disposition_conflicts owners ((pin, target) # rest) =
     (case dget owners pin of
        Some previous \<Rightarrow> if previous \<noteq> target then [pin] else []
      | None \<Rightarrow> []) @ disposition_conflicts (dset pin target owners) rest"

definition check_delta :: "connection_delta \<Rightarrow> (connection_fault, unit) result" where
  "check_delta d =
     (let created = map (\<lambda>n. casefold (ni_name n)) (cd_create d);
          extended = map (\<lambda>e. casefold (ne_name e)) (cd_extend d)
      in both (c_bounded ''batch_id'' 1 80 (cd_batch d))
        (both (c_bounded ''create_nets'' 0 2000 (cd_create d))
        (both (lift_fault (check_all check_net (cd_create d)))
        (both (c_bounded ''extend_nets'' 0 2000 (cd_extend d))
        (both (check_all check_extension (cd_extend d))
        (both (c_bounded ''no_connect_pins'' 0 2000 (cd_no_connect d))
        (both (lift_fault (check_all check_pin (cd_no_connect d)))
        (both (c_bounded ''rationale'' 0 2000 (cd_rationale d))
        (both (c_unique ''delta create-net names'' created)
        (both (c_unique ''delta extend-net names'' extended)
        (both (demand (set created \<inter> set extended = {}) CreateAndExtend (Inr ()))
              (demand (disposition_conflicts [] (delta_dispositions d) = []) PinAssignedTwice (Inr ())))))))))))))"

subsection \<open>Fingerprints\<close>

definition implementation_kind_name :: "implementation_kind \<Rightarrow> string" where
  "implementation_kind_name k =
     (case k of AutoKind \<Rightarrow> ''auto'' | ComponentKind \<Rightarrow> ''component'' | CopperZone \<Rightarrow> ''copper_zone''
      | MechanicalFeature \<Rightarrow> ''mechanical_feature'' | BoardConstraint \<Rightarrow> ''board_constraint'')"

definition topology_fingerprint :: "(string \<Rightarrow> string) \<Rightarrow> topology \<Rightarrow> string" where
  "topology_fingerprint digest t = canonical_hash digest (JObj
     [(''contract_version'', JInt (int (tp_schema_version t))),
      (''blocks'', JArr (map (\<lambda>b. JObj
         [(''name'', JStr (tb_name b)), (''kind'', JStr (tb_kind b)),
          (''description'', JStr (tb_description b)),
          (''implementation_kind'', JStr (implementation_kind_name (tb_implementation_kind b))),
          (''implementation_refs'', jstrs (tb_implementation_refs b))]) (tp_blocks t))),
      (''rails'', jstrs (tp_rails t)), (''ground_net'', JStr (tp_ground_net t)),
      (''ground_domains'', jstrs (tp_ground_domains t)),
      (''ground_ties'', JArr (map (\<lambda>g. JObj
         [(''component_ref'', JStr (gt_component_ref g)), (''domains'', jstrs (gt_domains g)),
          (''terminals_are_symmetric'', JBool True)]) (tp_ground_ties t)))]) 20"

definition legacy_topology_fingerprint :: "(string \<Rightarrow> string) \<Rightarrow> topology \<Rightarrow> string" where
  "legacy_topology_fingerprint digest t = canonical_hash digest (JObj
     [(''blocks'', JArr (map (\<lambda>b. JObj
         [(''name'', JStr (tb_name b)), (''kind'', JStr (tb_kind b)),
          (''description'', JStr (tb_description b))]) (tp_blocks t))),
      (''rails'', jstrs (tp_rails t)), (''ground_net'', JStr (tp_ground_net t))]) 20"

definition fold_text :: "string \<Rightarrow> string" where
  "fold_text s = casefold (py_strip s)"

definition pin_signature :: "symbol_library \<Rightarrow> selected_part \<Rightarrow> json" where
  "pin_signature lib p =
     (case symbol_pins lib p of
        None \<Rightarrow> JNull
      | Some pins \<Rightarrow> JArr (map (\<lambda>(number, name, type). JObj
          [(''number'', JStr number), (''name'', JStr name), (''type'', JStr type)])
          (sort (map (\<lambda>q. (fold_text (pin_number q), fold_text (pin_name q), fold_text (pin_type q)))
             (numbered pins)))))"

definition selection_fingerprint ::
  "(string \<Rightarrow> string) \<Rightarrow> symbol_library \<Rightarrow> selected_part list \<Rightarrow> string" where
  "selection_fingerprint digest lib parts = canonical_hash digest (JArr (map (\<lambda>p. JObj
     [(''ref'', JStr (sp_ref p)), (''symbol'', JStr (sp_symbol p)), (''value'', JStr (sp_value p)),
      (''footprint'', JStr (sp_footprint p)), (''role'', JStr (sp_role p)),
      (''symbol_pins'', pin_signature lib p)])
     (sort_key (\<lambda>p. natural_ref_key (sp_ref p)) parts))) 20"

definition sorted_pins :: "logical_pin list \<Rightarrow> json" where
  "sorted_pins pins = JArr (map (\<lambda>(r, p). JObj [(''ref'', JStr r), (''pin'', JStr p)])
     (sort (map (\<lambda>p. (fold_text (lp_ref p), fold_text (lp_pin p))) pins)))"

definition delta_fingerprint :: "(string \<Rightarrow> string) \<Rightarrow> connection_delta \<Rightarrow> string" where
  "delta_fingerprint digest d = canonical_hash digest (JObj
     [(''batch_id'', JStr (cd_batch d)),
      (''create_nets'', JArr (map (\<lambda>n. JObj
         [(''name'', JStr (fold_text (ni_name n))), (''kind'', JStr (fold_text (ni_kind n))),
          (''pins'', sorted_pins (ni_pins n))])
         (sort_key (\<lambda>n. (fold_text (ni_name n), fold_text (ni_kind n))) (cd_create d)))),
      (''extend_nets'', JArr (map (\<lambda>e. JObj
         [(''name'', JStr (fold_text (ne_name e))), (''pins'', sorted_pins (ne_pins e))])
         (sort_key (\<lambda>e. fold_text (ne_name e)) (cd_extend d)))),
      (''no_connect_pins'', sorted_pins (cd_no_connect d))]) 20"

subsection \<open>Checkpoints\<close>

datatype batch_status = BPending | BCompleted | BFailed | BSkipped

record batch_checkpoint =
  bc_id :: string
  bc_status :: batch_status
  bc_attempts :: nat
  bc_fingerprint :: string
  bc_error :: string

record checkpoint =
  ck_schema :: nat
  ck_topology :: string
  ck_selection :: string
  ck_plan :: batch_plan
  ck_aggregate :: netlist
  ck_revision :: nat
  ck_llm :: nat
  ck_round_llm :: nat
  ck_rounds :: nat
  ck_batches :: "batch_checkpoint list"
  ck_reservations :: "(string, string) dict"

definition completed :: "batch_checkpoint list \<Rightarrow> batch_checkpoint list" where
  "completed bs = filter (\<lambda>b. bc_status b = BCompleted) bs"

text \<open>The loop over the batches with its \<open>incomplete_seen\<close> flag.\<close>

fun check_prefix :: "bool \<Rightarrow> batch_checkpoint list \<Rightarrow> (connection_fault, unit) result" where
  "check_prefix incomplete [] = Inr ()"
| "check_prefix incomplete (b # bs) =
     (if bc_status b \<noteq> BCompleted then check_prefix True bs
      else demand (\<not> incomplete) CompletedNotPrefix
        (demand (bc_fingerprint b \<noteq> []) (CompletedWithoutFingerprint (bc_id b))
          (demand (1 \<le> bc_attempts b) (CompletedWithoutAttempt (bc_id b))
            (check_prefix incomplete bs))))"

text \<open>\<open>str.partition(":")\<close>: what precedes the first colon, whether there is one, the rest.\<close>

definition partition_colon :: "string \<Rightarrow> string \<times> bool \<times> string" where
  "partition_colon s =
     (takeWhile (\<lambda>c. c \<noteq> CHR '':'') s, CHR '':'' \<in> set s, drop 1 (dropWhile (\<lambda>c. c \<noteq> CHR '':'') s))"

definition check_reservation ::
  "string list \<Rightarrow> string list \<Rightarrow> string \<times> string \<Rightarrow> (connection_fault, unit) result" where
  "check_reservation net_names allowed entry =
     (case partition_colon (fst entry) of (ref, separator, number) \<Rightarrow>
        demand (separator \<and> ref \<noteq> [] \<and> number \<noteq> []) (ReservationKey (fst entry))
       (demand (casefold ref \<in> set allowed) (ReservationNotShared (fst entry))
       (demand (casefold (snd entry) \<in> set net_names) (ReservationMissingNet (fst entry)) (Inr ()))))"

text \<open>\<^verbatim>\<open>_batch_status_matches_plan\<close>\<close>

definition check_checkpoint_model :: "checkpoint \<Rightarrow> (connection_fault, unit) result" where
  "check_checkpoint_model c =
     both (demand (map bc_id (ck_batches c) = map bs_id (bp_batches (ck_plan c))) StatusOrder (Inr ()))
    (both (demand (ck_topology c = bp_topology (ck_plan c)) StaleTopology (Inr ()))
    (both (demand (ck_selection c = bp_selection (ck_plan c)) StaleSelection (Inr ()))
    (both (demand (ck_revision c = length (completed (ck_batches c))) RevisionMismatch (Inr ()))
    (both (demand (ck_round_llm c \<le> ck_llm c) RoundCalls (Inr ()))
    (both (check_prefix False (ck_batches c))
          (check_all (check_reservation (map (\<lambda>n. casefold (ni_name n)) (nl_nets (ck_aggregate c)))
                        (map casefold (bp_shared (ck_plan c)))) (ck_reservations c)))))))"

definition check_batch_checkpoint :: "batch_checkpoint \<Rightarrow> (connection_fault, unit) result" where
  "check_batch_checkpoint b =
     both (c_bounded ''batch_id'' 1 80 (bc_id b))
    (both (c_bounded ''delta_fingerprint'' 0 64 (bc_fingerprint b))
          (c_bounded ''error'' 0 2000 (bc_error b)))"

definition check_checkpoint :: "(string \<Rightarrow> string) \<Rightarrow> checkpoint \<Rightarrow> (connection_fault, unit) result" where
  "check_checkpoint digest c =
     both (demand (1 \<le> ck_schema c) (ContractFault (FieldBound ''schema_version'')) (Inr ()))
    (both (c_bounded ''topology_fingerprint'' 1 64 (ck_topology c))
    (both (c_bounded ''selection_fingerprint'' 1 64 (ck_selection c))
    (both (check_plan digest (ck_plan c))
    (both (lift_fault (check_netlist (ck_aggregate c)))
    (both (c_bounded ''batches'' 0 128 (ck_batches c))
    (both (check_all check_batch_checkpoint (ck_batches c))
    (both (c_bounded ''shared_pin_reservations'' 0 5000 (ck_reservations c))
          (check_checkpoint_model c))))))))"

text \<open>
  Validation reads the dumped model back, which drops repeated pins of a net before the
  checks run.
\<close>

definition normalise_aggregate :: "netlist \<Rightarrow> netlist" where
  "normalise_aggregate n = n\<lparr>nl_nets := map dedup_net (nl_nets n)\<rparr>"

definition revalidate :: "(string \<Rightarrow> string) \<Rightarrow> checkpoint \<Rightarrow> (connection_fault, checkpoint) result" where
  "revalidate digest c =
     (let c' = c\<lparr>ck_aggregate := normalise_aggregate (ck_aggregate c)\<rparr>
      in rbind (check_checkpoint digest c') (\<lambda>_. Inr c'))"

definition batch_status_of :: "checkpoint \<Rightarrow> string \<Rightarrow> batch_checkpoint option" where
  "batch_status_of c i = List.find (\<lambda>b. bc_id b = i) (ck_batches c)"

subsection \<open>Reports\<close>

record report =
  rp_planned :: nat
  rp_completed :: nat
  rp_pending :: nat
  rp_skipped :: nat
  rp_failed :: nat
  rp_llm :: nat
  rp_round_llm :: nat
  rp_total :: nat
  rp_connected :: nat
  rp_no_connect :: nat
  rp_undisposed :: nat
  rp_ratio :: rat

text \<open>\<open>math.isclose(a, b, abs_tol=1e-9)\<close> with its default relative tolerance.\<close>

definition is_close :: "rat \<Rightarrow> rat \<Rightarrow> bool" where
  "is_close a b = (\<bar>a - b\<bar> \<le> max (max \<bar>a\<bar> \<bar>b\<bar> / 1000000000) (1 / 1000000000))"

definition check_report :: "report \<Rightarrow> (connection_fault, unit) result" where
  "check_report r =
     both (demand (0 \<le> rp_ratio r \<and> rp_ratio r \<le> 1) (ContractFault (FieldBound ''coverage_ratio'')) (Inr ()))
    (both (demand (rp_completed r + rp_pending r + rp_skipped r + rp_failed r = rp_planned r)
             ReportCounts (Inr ()))
    (both (demand (rp_round_llm r \<le> rp_llm r) RoundCalls (Inr ()))
    (both (demand (rp_undisposed r \<le> rp_total r) ReportUndisposed (Inr ()))
    (both (demand (rp_total r - rp_undisposed r \<le> rp_connected r + rp_no_connect r)
             ReportDispositions (Inr ()))
          (demand (is_close (rp_ratio r)
             (if rp_total r = 0 then 1 else of_nat (rp_total r - rp_undisposed r) / of_nat (rp_total r)))
             ReportRatio (Inr ()))))))"

lemmas check_defs = both_def c_bounded_def c_unique_def lift_fault_def bounded_def all_unique_def

lemma both_Inr [result_simps]: "both a b = Inr () \<longleftrightarrow> a = Inr () \<and> b = Inr ()"
  by (simp add: both_def result_simps)

lemma check_all_Inr [result_simps]: "check_all f xs = Inr () \<longleftrightarrow> (\<forall>x \<in> set xs. f x = Inr ())"
  unfolding check_all_def by (induction xs) (auto simp: result_simps)

lemma lift_fault_Inr [result_simps]: "lift_fault r = Inr x \<longleftrightarrow> r = Inr x"
  by (auto simp: lift_fault_def split: sum.splits)

lemma c_bounded_Inr [result_simps]: "c_bounded f lo hi xs = Inr () \<longleftrightarrow> lo \<le> length xs \<and> length xs \<le> hi"
  by (simp add: c_bounded_def bounded_def result_simps)

lemma c_unique_Inr [result_simps]: "c_unique w xs = Inr () \<longleftrightarrow> distinct xs"
  by (simp add: c_unique_def all_unique_def result_simps)

lemma bounded_Inr [result_simps]: "bounded f lo hi xs = Inr () \<longleftrightarrow> lo \<le> length xs \<and> length xs \<le> hi"
  by (simp add: bounded_def result_simps)

lemma all_unique_Inr [result_simps]: "all_unique w xs = Inr () \<longleftrightarrow> distinct xs"
  by (simp add: all_unique_def result_simps)

end
