(* ===== verification/ConnectionMerge.thy ===== *)
theory ConnectionMerge
  imports ConnectionContracts
begin

text \<open>
  Committing connection deltas, \<^verbatim>\<open>connection_synthesis.py\<close> from line 1165: resolving a
  logical pin on its symbol, the ownership of the physical pins of an aggregate, the
  transaction \<^verbatim>\<open>merge_connection_delta\<close> and the coverage report. The mutable
  \<^verbatim>\<open>NetIntent\<close> objects of the candidate are referred to by their index in its net list.
\<close>

datatype merge_error =
    NoRealPins string
  | EmptyPin string
  | AmbiguousPin string "string list"
  | UnresolvedPin string
  | DuplicateRef string
  | AbsentPart string
  | AggregateTwoNets string
  | AggregateBothWays string
  | Inconsistent connection_fault
  | StaleFingerprint
  | UnknownBatch string
  | IncompletePredecessors "string list"
  | CompletedDifferently string
  | BaseRevision nat
  | OwnedMissing "string list"
  | OwnedUnresolvable "string list"
  | NotOwnedOrShared string
  | SharedNoConnect string
  | NotOwned string
  | NetExists string
  | NetMissing string
  | PinReserved string
  | PinNoConnect string
  | Undispositioned "string list"
  | AssignmentRejected connection_fault

subsection \<open>Pins\<close>

definition unique_number :: "string \<Rightarrow> sym_pin list \<Rightarrow> (merge_error, string option) result" where
  "unique_number what pins =
     (case fromkeys (map (\<lambda>p. py_strip (pin_number p)) (numbered pins)) of
        [] \<Rightarrow> Inr None
      | [n] \<Rightarrow> Inr (Some n)
      | ns \<Rightarrow> Inl (AmbiguousPin what (sort ns)))"

definition is_name_separator :: "char \<Rightarrow> bool" where
  "is_name_separator c = (c \<in> set ''/~{}()'' \<or> py_space c)"

text \<open>The non-empty pieces of \<open>re.split(r"[/~{}()\s]+", s)\<close>.\<close>

function name_tokens :: "string \<Rightarrow> string list" where
  "name_tokens s =
     (let s' = dropWhile is_name_separator s in
      if s' = [] then []
      else takeWhile (\<lambda>c. \<not> is_name_separator c) s' #
           name_tokens (dropWhile (\<lambda>c. \<not> is_name_separator c) s'))"
  by auto
termination
proof (relation "measure length")
  fix s s' :: string
  assume s': "s' = dropWhile is_name_separator s" and ne: "s' \<noteq> []"
  then have "\<not> is_name_separator (hd s')" using hd_dropWhile by metis
  then have "length (dropWhile (\<lambda>c. \<not> is_name_separator c) s') < length s'"
    using ne by (cases s') (auto simp: less_Suc_eq_le length_dropWhile_le)
  also have "\<dots> \<le> length s" unfolding s' by (rule length_dropWhile_le)
  finally show "(dropWhile (\<lambda>c. \<not> is_name_separator c) s', s) \<in> measure length" by simp
qed simp

declare name_tokens.simps [simp del]

definition resolve_pin :: "symbol_library \<Rightarrow> selected_part \<Rightarrow> string \<Rightarrow> (merge_error, string) result" where
  "resolve_pin lib part logical =
     (case symbol_pins lib part of
        None \<Rightarrow> Inl (NoRealPins (sp_ref part))
      | Some [] \<Rightarrow> Inl (NoRealPins (sp_ref part))
      | Some pins \<Rightarrow>
          (let key = fold_text logical; what = sp_ref part @ '':'' @ logical in
           if key = [] then Inl (EmptyPin (sp_ref part))
           else rbind (unique_number what (filter (\<lambda>p. fold_text (pin_number p) = key) pins)) (\<lambda>a.
             case a of Some n \<Rightarrow> Inr n
             | None \<Rightarrow> rbind (unique_number what (filter (\<lambda>p. fold_text (pin_name p) = key) pins)) (\<lambda>b.
               case b of Some n \<Rightarrow> Inr n
               | None \<Rightarrow> rbind (unique_number what
                     (filter (\<lambda>p. key \<in> set (name_tokens (fold_text (pin_name p)))) pins)) (\<lambda>c.
                 case c of Some n \<Rightarrow> Inr n | None \<Rightarrow> Inl (UnresolvedPin what))))))"

type_synonym part_index = "(string, selected_part) dict"

definition index_part :: "part_index \<Rightarrow> selected_part \<Rightarrow> (merge_error, part_index) result" where
  "index_part ix p =
     (if casefold (sp_ref p) \<in> set (dkeys ix) then Inl (DuplicateRef (sp_ref p))
      else Inr (dset (casefold (sp_ref p)) p ix))"

definition build_index :: "selected_part list \<Rightarrow> (merge_error, part_index) result" where
  "build_index parts = rfold index_part [] parts"

definition physical_name :: "selected_part \<Rightarrow> string \<Rightarrow> string" where
  "physical_name part number = py_upper (sp_ref part) @ '':'' @ number"

definition physical_key :: "symbol_library \<Rightarrow> part_index \<Rightarrow> logical_pin \<Rightarrow> (merge_error, string) result" where
  "physical_key lib ix pin =
     (case dget ix (casefold (lp_ref pin)) of
        None \<Rightarrow> Inl (AbsentPart (lp_ref pin))
      | Some part \<Rightarrow> rbind (resolve_pin lib part (lp_pin pin)) (\<lambda>n. Inr (physical_name part n)))"

definition intrinsic_no_connect :: "sym_pin \<Rightarrow> bool" where
  "intrinsic_no_connect p =
     (fold_text (pin_type p) = ''no_connect'' \<or>
      py_upper (py_strip (pin_name p)) \<in> {''NC'', ''N/C'', ''DNC'', ''DO_NOT_CONNECT''})"

subsection \<open>Ownership of an aggregate\<close>

type_synonym ownership = "(string, string) dict"

definition own_pin ::
  "symbol_library \<Rightarrow> part_index \<Rightarrow> string \<Rightarrow> ownership \<Rightarrow> logical_pin \<Rightarrow> (merge_error, ownership) result" where
  "own_pin lib ix net own pin =
     rbind (physical_key lib ix pin) (\<lambda>key.
       case dget own key of
         Some previous \<Rightarrow> if casefold previous \<noteq> casefold net then Inl (AggregateTwoNets key)
                          else Inr (dset key net own)
       | None \<Rightarrow> Inr (dset key net own))"

definition own_net ::
  "symbol_library \<Rightarrow> part_index \<Rightarrow> ownership \<Rightarrow> net_intent \<Rightarrow> (merge_error, ownership) result" where
  "own_net lib ix own n = rfold (own_pin lib ix (ni_name n)) own (ni_pins n)"

definition own_no_connect ::
  "symbol_library \<Rightarrow> part_index \<Rightarrow> ownership \<Rightarrow> string list \<Rightarrow> logical_pin \<Rightarrow> (merge_error, string list) result" where
  "own_no_connect lib ix own nc pin =
     rbind (physical_key lib ix pin) (\<lambda>key.
       if key \<in> set (dkeys own) then Inl (AggregateBothWays key)
       else Inr (if key \<in> set nc then nc else nc @ [key]))"

definition aggregate_ownership ::
  "symbol_library \<Rightarrow> part_index \<Rightarrow> netlist \<Rightarrow> (merge_error, ownership \<times> string list) result" where
  "aggregate_ownership lib ix agg =
     rbind (rfold (own_net lib ix) [] (nl_nets agg)) (\<lambda>own.
     rbind (rfold (own_no_connect lib ix own) [] (nl_no_connect agg)) (\<lambda>nc. Inr (own, nc)))"

subsection \<open>The transaction\<close>

definition owned_numbers :: "symbol_library \<Rightarrow> selected_part \<Rightarrow> string list" where
  "owned_numbers lib p =
     sort (fromkeys (map (\<lambda>q. py_strip (pin_number q))
       (numbered (case symbol_pins lib p of None \<Rightarrow> [] | Some pins \<Rightarrow> pins))))"

definition required_owned_pins ::
  "symbol_library \<Rightarrow> part_index \<Rightarrow> batch_spec \<Rightarrow> (merge_error, string list) result" where
  "required_owned_pins lib ix b =
     (let missing = filter (\<lambda>r. dget ix (casefold r) = None) (bs_owned b);
          found = List.map_filter (\<lambda>r. dget ix (casefold r)) (bs_owned b);
          bad = filter (\<lambda>p. owned_numbers lib p = []) found
      in demand (missing = []) (OwnedMissing (natural_sort missing))
        (demand (bad = []) (OwnedUnresolvable (map sp_ref bad))
          (Inr (concat (map (\<lambda>p. map (physical_name p) (owned_numbers lib p)) found)))))"

definition check_allowed :: "string list \<Rightarrow> string list \<Rightarrow> logical_pin \<Rightarrow> (merge_error, unit) result" where
  "check_allowed owned shared pin =
     demand (casefold (lp_ref pin) \<in> set owned \<union> set shared) (NotOwnedOrShared (lp_ref pin)) (Inr ())"

definition check_no_connect :: "string list \<Rightarrow> string list \<Rightarrow> logical_pin \<Rightarrow> (merge_error, unit) result" where
  "check_no_connect owned shared pin =
     demand (casefold (lp_ref pin) \<notin> set shared) (SharedNoConnect (pin_key pin))
       (demand (casefold (lp_ref pin) \<in> set owned) (NotOwned (lp_ref pin)) (Inr ()))"

definition name_index :: "net_intent list \<Rightarrow> (string, nat) dict" where
  "name_index ns = foldl (\<lambda>d i. dset (casefold (ni_name (ns ! i))) i d) [] [0 ..< length ns]"

definition create_net ::
  "net_intent list \<times> (string, nat) dict \<Rightarrow> net_intent
     \<Rightarrow> (merge_error, net_intent list \<times> (string, nat) dict) result" where
  "create_net st n =
     (case st of (ns, ix) \<Rightarrow>
        if casefold (ni_name n) \<in> set (dkeys ix) then Inl (NetExists (ni_name n))
        else Inr (ns @ [n\<lparr>ni_pins := []\<rparr>], dset (casefold (ni_name n)) (length ns) ix))"

definition extension_target ::
  "(string, nat) dict \<Rightarrow> net_extension \<Rightarrow> (merge_error, nat \<times> logical_pin list) result" where
  "extension_target ix e =
     (case dget ix (casefold (ne_name e)) of
        None \<Rightarrow> Inl (NetMissing (ne_name e))
      | Some i \<Rightarrow> Inr (i, ne_pins e))"

type_synonym commit_state = "net_intent list \<times> ownership"

definition commit_pin ::
  "symbol_library \<Rightarrow> part_index \<Rightarrow> string list \<Rightarrow> commit_state \<Rightarrow> nat \<times> logical_pin
     \<Rightarrow> (merge_error, commit_state) result" where
  "commit_pin lib ix nc st d =
     (case st of (ns, own) \<Rightarrow> case d of (i, pin) \<Rightarrow>
        rbind (physical_key lib ix pin) (\<lambda>key.
          let name = ni_name (ns ! i) in
          case dget own key of
            Some net \<Rightarrow> if casefold net = casefold name then Inr (ns, own) else Inl (PinReserved key)
          | None \<Rightarrow>
              if key \<in> set nc then Inl (PinNoConnect key)
              else Inr (ns[i := (ns ! i)\<lparr>ni_pins := ni_pins (ns ! i) @ [pin]\<rparr>], dset key name own)))"

definition commit_no_connect ::
  "symbol_library \<Rightarrow> part_index \<Rightarrow> ownership \<Rightarrow> logical_pin list \<times> string list \<Rightarrow> logical_pin
     \<Rightarrow> (merge_error, logical_pin list \<times> string list) result" where
  "commit_no_connect lib ix own st pin =
     (case st of (ps, nc) \<Rightarrow>
        rbind (physical_key lib ix pin) (\<lambda>key.
          if key \<in> set (dkeys own) then Inl (PinReserved key)
          else Inr (if key \<in> set nc then (ps, nc) else (ps @ [pin], nc @ [key]))))"

definition add_supply :: "string \<Rightarrow> string list \<Rightarrow> net_intent \<Rightarrow> string list" where
  "add_supply ground supply n =
     (if ni_kind n = ''power'' \<and> casefold (ni_name n) \<noteq> casefold ground \<and>
         casefold (ni_name n) \<notin> casefold ` set supply
      then supply @ [ni_name n] else supply)"

text \<open>The body of the transaction on the aggregate: the new aggregate and its ownership.\<close>

definition commit_delta ::
  "symbol_library \<Rightarrow> part_index \<Rightarrow> string list \<Rightarrow> netlist \<Rightarrow> connection_delta
     \<Rightarrow> (merge_error, netlist \<times> ownership) result" where
  "commit_delta lib ix required agg d =
     rbind (aggregate_ownership lib ix agg) (\<lambda>(own, nc).
     rbind (rfold create_net (nl_nets agg, name_index (nl_nets agg)) (cd_create d)) (\<lambda>(ns, names).
     rbind (rmap (extension_target names) (cd_extend d)) (\<lambda>targets.
     let ds = concat (map (\<lambda>n. map (Pair (the (dget names (casefold (ni_name n))))) (ni_pins n)) (cd_create d))
            @ concat (map (\<lambda>(i, ps). map (Pair i) ps) targets) in
     rbind (rfold (commit_pin lib ix nc) (ns, own) ds) (\<lambda>(ns', own').
     rbind (rfold (commit_no_connect lib ix own') (nl_no_connect agg, nc) (cd_no_connect d)) (\<lambda>(ps, nc').
     let missing = filter (\<lambda>k. k \<notin> set (dkeys own') \<and> k \<notin> set nc') required in
     demand (missing = []) (Undispositioned (natural_sort missing))
       (Inr (agg\<lparr>nl_nets := ns', nl_no_connect := ps,
                nl_supply := foldl (add_supply (nl_ground agg)) (nl_supply agg) (cd_create d)\<rparr>, own')))))))"

fun mark_completed :: "string \<Rightarrow> string \<Rightarrow> batch_checkpoint list \<Rightarrow> batch_checkpoint list" where
  "mark_completed i fp [] = []"
| "mark_completed i fp (b # bs) =
     (if bc_id b = i
      then b\<lparr>bc_attempts := bc_attempts b + 1, bc_fingerprint := fp, bc_error := [], bc_status := BCompleted\<rparr> # bs
      else b # mark_completed i fp bs)"

definition reservations_of :: "string list \<Rightarrow> ownership \<Rightarrow> ownership" where
  "reservations_of shared own =
     filter (\<lambda>(key, _). casefold (fst (partition_colon key)) \<in> casefold ` set shared) own"

definition reject :: "(connection_fault \<Rightarrow> merge_error) \<Rightarrow> (connection_fault, 'a) result \<Rightarrow> (merge_error, 'a) result" where
  "reject f r = (case r of Inl e \<Rightarrow> Inl (f e) | Inr x \<Rightarrow> Inr x)"

text \<open>
  Assigning a field of a checkpoint re-runs its model validator, before the final check.
\<close>

definition finish_merge ::
  "(string \<Rightarrow> string) \<Rightarrow> checkpoint \<Rightarrow> string \<Rightarrow> string \<Rightarrow> netlist \<Rightarrow> ownership \<Rightarrow> (merge_error, checkpoint) result" where
  "finish_merge digest c i fp agg own =
     (let c1 = c\<lparr>ck_aggregate := agg, ck_batches := mark_completed i fp (ck_batches c),
                ck_revision := ck_revision c + 1\<rparr>;
          c2 = c1\<lparr>ck_reservations := reservations_of (bp_shared (ck_plan c)) own\<rparr>
      in rbind (reject AssignmentRejected (check_checkpoint_model c1)) (\<lambda>_.
         rbind (reject AssignmentRejected (both (c_bounded ''shared_pin_reservations'' 0 5000 (ck_reservations c2))
                                             (check_checkpoint_model c2))) (\<lambda>_.
         reject Inconsistent (revalidate digest c2))))"

definition check_delta_refs :: "batch_spec \<Rightarrow> connection_delta \<Rightarrow> (merge_error, unit) result" where
  "check_delta_refs b d =
     (let owned = map casefold (bs_owned b); shared = map casefold (bs_shared b)
      in both (check_all (check_allowed owned shared) (concat (map ni_pins (cd_create d))))
        (both (check_all (check_allowed owned shared) (concat (map ne_pins (cd_extend d))))
              (check_all (check_no_connect owned shared) (cd_no_connect d))))"

definition merge_connection_delta ::
  "(string \<Rightarrow> string) \<Rightarrow> symbol_library \<Rightarrow> checkpoint \<Rightarrow> connection_delta \<Rightarrow> selected_part list
     \<Rightarrow> (merge_error, checkpoint) result" where
  "merge_connection_delta digest lib c0 d parts =
     rbind (reject Inconsistent (revalidate digest c0)) (\<lambda>c.
     demand (ck_selection c = selection_fingerprint digest lib parts) StaleFingerprint
     (case (plan_batch (ck_plan c) (cd_batch d), batch_status_of c (cd_batch d)) of
        (Some b, Some st) \<Rightarrow>
          (let before = filter (\<lambda>x. bc_status x \<noteq> BCompleted) (take (bs_sequence b) (ck_batches c));
               fp = delta_fingerprint digest d in
           demand (before = []) (IncompletePredecessors (map bc_id before))
           (if bc_status st = BCompleted then
              (if bc_fingerprint st = fp then Inr c else Inl (CompletedDifferently (cd_batch d)))
            else
              demand (cd_base d = ck_revision c) (BaseRevision (cd_base d))
              (rbind (build_index parts) (\<lambda>ix.
               rbind (required_owned_pins lib ix b) (\<lambda>required.
               rbind (check_delta_refs b d) (\<lambda>_.
               rbind (commit_delta lib ix required (ck_aggregate c) d) (\<lambda>(agg, own).
               finish_merge digest c (cd_batch d) fp agg own)))))))
      | _ \<Rightarrow> Inl (UnknownBatch (cd_batch d))))"

subsection \<open>Connections and ownership\<close>

text \<open>A net holds a physical pin when one of its logical pins resolves to it.\<close>

definition holds :: "symbol_library \<Rightarrow> part_index \<Rightarrow> net_intent \<Rightarrow> string \<Rightarrow> bool" where
  "holds lib ix n key = (\<exists>pin \<in> set (ni_pins n). physical_key lib ix pin = Inr key)"

definition own_ok :: "symbol_library \<Rightarrow> part_index \<Rightarrow> net_intent list \<Rightarrow> ownership \<Rightarrow> bool" where
  "own_ok lib ix ns own =
     ((\<forall>key net. dget own key = Some net \<longrightarrow>
         (\<exists>n \<in> set ns. casefold (ni_name n) = casefold net \<and> holds lib ix n key)) \<and>
      (\<forall>n \<in> set ns. \<forall>pin \<in> set (ni_pins n). \<exists>key net. physical_key lib ix pin = Inr key \<and>
         dget own key = Some net \<and> casefold net = casefold (ni_name n)))"

lemma own_ok_holds:
  assumes "own_ok lib ix ns own" and "n \<in> set ns" and "holds lib ix n key"
  shows "\<exists>net. dget own key = Some net \<and> casefold net = casefold (ni_name n)"
  using assms unfolding own_ok_def holds_def by fastforce

lemma own_ok_net:
  assumes "own_ok lib ix ns own" and "dget own key = Some net"
  shows "\<exists>n \<in> set ns. casefold (ni_name n) = casefold net \<and> holds lib ix n key"
  using assms unfolding own_ok_def by blast

lemma own_pin_result:
  assumes "own_pin lib ix net own pin = Inr own'"
  obtains key where "physical_key lib ix pin = Inr key" "own' = dset key net own"
    "\<And>prev. dget own key = Some prev \<Longrightarrow> casefold prev = casefold net"
  using assms by (auto simp: own_pin_def result_simps split: option.splits if_splits)

lemma own_ok_add:
  assumes ok: "own_ok lib ix ns own" and key: "physical_key lib ix pin = Inr key"
    and i: "i < length ns" and net: "casefold net = casefold (ni_name (ns ! i))"
    and prev: "\<And>prev. dget own key = Some prev \<Longrightarrow> casefold prev = casefold net"
  shows "own_ok lib ix (ns[i := (ns ! i)\<lparr>ni_pins := ni_pins (ns ! i) @ [pin]\<rparr>]) (dset key net own)"
proof -
  let ?n = "(ns ! i)\<lparr>ni_pins := ni_pins (ns ! i) @ [pin]\<rparr>"
  let ?ns = "ns[i := ?n]"
  have keep: "\<exists>m' \<in> set ?ns. casefold (ni_name m') = casefold (ni_name m) \<and> holds lib ix m' k"
    if "m \<in> set ns" "holds lib ix m k" for m k
  proof -
    from that(1) obtain j where j: "j < length ns" "ns ! j = m" by (auto simp: in_set_conv_nth)
    have "?ns ! j \<in> set ?ns" using j by (simp add: nth_mem)
    moreover have "ni_name (?ns ! j) = ni_name m \<and> holds lib ix (?ns ! j) k"
      using j that(2) i by (cases "j = i") (auto simp: holds_def)
    ultimately show ?thesis by (metis)
  qed
  have new: "?n \<in> set ?ns" using i by (simp add: set_update_memI)
  have "holds lib ix ?n key" using key by (auto simp: holds_def)
  then have first: "\<exists>n \<in> set ?ns. casefold (ni_name n) = casefold v \<and> holds lib ix n k"
    if "dget (dset key net own) k = Some v" for k v
  proof (cases "k = key")
    case True
    then have "v = net" using that by (simp add: dict_simps)
    then show ?thesis using True new net \<open>holds lib ix ?n key\<close> by (intro bexI[of _ ?n]) simp_all
  next
    case False
    then have "dget own k = Some v" using that by (simp add: dict_simps)
    from own_ok_net[OF ok this] keep show ?thesis by metis
  qed
  have second: "\<exists>k v. physical_key lib ix p = Inr k \<and> dget (dset key net own) k = Some v \<and>
      casefold v = casefold (ni_name m)" if m: "m \<in> set ?ns" and p: "p \<in> set (ni_pins m)" for m p
  proof -
    consider "m = ?n" | "m \<in> set ns" using m set_update_subset_insert by fastforce
    then have "(\<exists>m0 \<in> set ns. ni_name m0 = ni_name m \<and> p \<in> set (ni_pins m0)) \<or> m = ?n \<and> p = pin"
    proof cases
      case 1
      then show ?thesis using p i by (auto intro: bexI[of _ "ns ! i"])
    next
      case 2
      then show ?thesis using p by blast
    qed
    then show ?thesis
    proof
      assume "\<exists>m0 \<in> set ns. ni_name m0 = ni_name m \<and> p \<in> set (ni_pins m0)"
      then obtain k v where k: "physical_key lib ix p = Inr k" "dget own k = Some v"
        "casefold v = casefold (ni_name m)"
        using ok unfolding own_ok_def by metis
      show ?thesis
      proof (cases "k = key")
        case True
        then show ?thesis using k prev by (auto simp: dict_simps)
      next
        case False
        then show ?thesis using k by (auto simp: dict_simps)
      qed
    next
      assume "m = ?n \<and> p = pin"
      then show ?thesis using key net by (auto simp: dict_simps)
    qed
  qed
  from first second show ?thesis unfolding own_ok_def by blast
qed

lemma own_net_ok:
  assumes "own_ok lib ix ns own" and "own_net lib ix own n = Inr own'"
  shows "own_ok lib ix (ns @ [n]) own'"
proof -
  let ?I = "\<lambda>ps own. own_ok lib ix (ns @ [n\<lparr>ni_pins := ps\<rparr>]) own"
  have "?I [] own" using assms(1) by (auto simp: own_ok_def)
  moreover have "?I (ys @ [x]) s'"
    if "?I ys s" and "own_pin lib ix (ni_name n) s x = Inr s'" for ys x s s'
  proof -
    from own_pin_result[OF that(2)] obtain key where k: "physical_key lib ix x = Inr key"
      "s' = dset key (ni_name n) s" "\<And>prev. dget s key = Some prev \<Longrightarrow> casefold prev = casefold (ni_name n)"
      by blast
    from own_ok_add[OF that(1) k(1), of "length ns" "ni_name n"] k(2,3) show ?thesis by simp
  qed
  ultimately have "?I (ni_pins n) own'"
    using rfold_prefix_invariant[of "own_pin lib ix (ni_name n)" own "ni_pins n" own' ?I]
      assms(2) by (simp add: own_net_def)
  then show ?thesis by simp
qed

lemma aggregate_ownership_ok:
  assumes "aggregate_ownership lib ix agg = Inr (own, nc)"
  shows "own_ok lib ix (nl_nets agg) own"
proof -
  have "rfold (own_net lib ix) [] (nl_nets agg) = Inr own"
    using assms by (auto simp: aggregate_ownership_def result_simps)
  moreover have "own_ok lib ix [] []" by (simp add: own_ok_def)
  ultimately show ?thesis
    by (rule rfold_prefix_invariant[of _ _ _ _ "own_ok lib ix"]) (rule own_net_ok)
qed

definition nc_ok :: "symbol_library \<Rightarrow> part_index \<Rightarrow> ownership \<Rightarrow> logical_pin list \<Rightarrow> string list \<Rightarrow> bool" where
  "nc_ok lib ix own ps nc =
     ((\<forall>pin \<in> set ps. \<exists>key \<in> set nc. physical_key lib ix pin = Inr key) \<and>
      (\<forall>key \<in> set nc. \<exists>pin \<in> set ps. physical_key lib ix pin = Inr key) \<and>
      set nc \<inter> set (dkeys own) = {})"

lemma aggregate_ownership_nc:
  assumes "aggregate_ownership lib ix agg = Inr (own, nc)"
  shows "nc_ok lib ix own (nl_no_connect agg) nc"
proof -
  have "rfold (own_no_connect lib ix own) [] (nl_no_connect agg) = Inr nc"
    using assms by (auto simp: aggregate_ownership_def result_simps)
  moreover have "nc_ok lib ix own [] []" by (simp add: nc_ok_def)
  ultimately show ?thesis
    by (rule rfold_prefix_invariant[of _ _ _ _ "nc_ok lib ix own"])
       (auto simp: nc_ok_def own_no_connect_def result_simps split: if_splits)
qed

text \<open>Nets only grow: same name, kind and purpose, and the old pins first.\<close>

definition net_extends :: "net_intent \<Rightarrow> net_intent \<Rightarrow> bool" where
  "net_extends a b = (ni_name b = ni_name a \<and> ni_kind b = ni_kind a \<and> ni_purpose b = ni_purpose a \<and>
     (\<exists>ps. ni_pins b = ni_pins a @ ps))"

definition nets_extend :: "net_intent list \<Rightarrow> net_intent list \<Rightarrow> bool" where
  "nets_extend xs ys = (length xs \<le> length ys \<and> (\<forall>i < length xs. net_extends (xs ! i) (ys ! i)))"

lemma net_extends_refl [simp]: "net_extends a a"
  by (simp add: net_extends_def)

lemma nets_extend_refl [simp]: "nets_extend xs xs"
  by (simp add: nets_extend_def)

lemma nets_extend_trans: "nets_extend xs ys \<Longrightarrow> nets_extend ys zs \<Longrightarrow> nets_extend xs zs"
proof -
  assume a: "nets_extend xs ys" and b: "nets_extend ys zs"
  have "net_extends (xs ! i) (zs ! i)" if "i < length xs" for i
  proof -
    have "net_extends (xs ! i) (ys ! i)" "net_extends (ys ! i) (zs ! i)"
      using a b that by (simp_all add: nets_extend_def)
    then show ?thesis unfolding net_extends_def by (metis append_assoc)
  qed
  then show ?thesis using a b by (simp add: nets_extend_def)
qed

lemma nets_extend_snoc: "nets_extend xs (xs @ ys)"
  by (simp add: nets_extend_def nth_append)

lemma nets_extend_update:
  "nets_extend xs (xs[i := (xs ! i)\<lparr>ni_pins := ni_pins (xs ! i) @ ps\<rparr>])"
proof -
  have "net_extends (xs ! k) (xs[i := (xs ! i)\<lparr>ni_pins := ni_pins (xs ! i) @ ps\<rparr>] ! k)"
    if "k < length xs" for k
    using that by (cases "k = i") (simp_all add: net_extends_def)
  then show ?thesis by (simp add: nets_extend_def)
qed

definition names_ok :: "net_intent list \<Rightarrow> (string, nat) dict \<Rightarrow> bool" where
  "names_ok ns ix =
     ((\<forall>k i. dget ix k = Some i \<longrightarrow> i < length ns \<and> casefold (ni_name (ns ! i)) = k) \<and>
      (\<forall>n \<in> set ns. casefold (ni_name n) \<in> dom (dget ix)))"

lemma names_ok_snoc:
  assumes "names_ok ns ix"
  shows "names_ok (ns @ [n]) (dset (casefold (ni_name n)) (length ns) ix)"
proof -
  let ?ix = "dset (casefold (ni_name n)) (length ns) ix"
  have "i < length (ns @ [n]) \<and> casefold (ni_name ((ns @ [n]) ! i)) = k" if "dget ?ix k = Some i" for k i
  proof (cases "k = casefold (ni_name n)")
    case True
    then show ?thesis using that by (auto simp: dict_simps nth_append)
  next
    case False
    then have "dget ix k = Some i" using that by (simp add: dict_simps)
    then have "i < length ns \<and> casefold (ni_name (ns ! i)) = k"
      using assms unfolding names_ok_def by blast
    then show ?thesis by (simp add: nth_append)
  qed
  moreover have "\<forall>m \<in> set (ns @ [n]). casefold (ni_name m) \<in> dom (dget ?ix)"
    using assms by (simp add: names_ok_def dict_simps)
  ultimately show ?thesis unfolding names_ok_def by blast
qed

lemma name_index_ok: "names_ok ns (name_index ns)"
proof -
  let ?f = "\<lambda>d i. dset (casefold (ni_name (ns ! i))) i d"
  have "m \<le> length ns \<Longrightarrow> names_ok (take m ns) (foldl ?f [] [0 ..< m])" for m
  proof (induction m)
    case 0
    then show ?case by (simp add: names_ok_def)
  next
    case (Suc m)
    then have m: "m < length ns" by simp
    have "names_ok (take m ns) (foldl ?f [] [0 ..< m])" using Suc.IH m by simp
    from names_ok_snoc[OF this, of "ns ! m"] show ?case using m by (simp add: take_Suc_conv_app_nth)
  qed
  from this[of "length ns"] show ?thesis by (simp add: name_index_def)
qed

lemma create_nets_ok:
  assumes "rfold create_net (ns, ix) cs = Inr (ns', ix')" and "names_ok ns ix"
    and "own_ok lib pix ns own"
  shows "names_ok ns' ix' \<and> own_ok lib pix ns' own \<and> nets_extend ns ns' \<and>
    (\<forall>c \<in> set cs. \<exists>i. dget ix' (casefold (ni_name c)) = Some i \<and> ni_name (ns' ! i) = ni_name c \<and> i < length ns')"
proof -
  let ?I = "\<lambda>done st. case st of (ms, jx) \<Rightarrow> names_ok ms jx \<and> own_ok lib pix ms own \<and> nets_extend ns ms \<and>
    (\<forall>c \<in> set done. \<exists>i. dget jx (casefold (ni_name c)) = Some i \<and> ni_name (ms ! i) = ni_name c \<and> i < length ms)"
  have start: "?I [] (ns, ix)" using assms(2,3) by simp
  have step: "?I (ys @ [c]) st'" if I: "?I ys st" and c: "create_net st c = Inr st'" for ys c st st'
  proof -
    obtain ms jx where st: "st = (ms, jx)" by (cases st)
    have new: "dget jx (casefold (ni_name c)) = None"
      and st': "st' = (ms @ [c\<lparr>ni_pins := []\<rparr>], dset (casefold (ni_name c)) (length ms) jx)"
      using c st by (auto simp: create_net_def dict_simps split: if_splits)
    have "names_ok ms jx" using I st by simp
    from names_ok_snoc[OF this, of "c\<lparr>ni_pins := []\<rparr>"]
    have a: "names_ok (ms @ [c\<lparr>ni_pins := []\<rparr>]) (dset (casefold (ni_name c)) (length ms) jx)"
      by simp
    have b: "own_ok lib pix (ms @ [c\<lparr>ni_pins := []\<rparr>]) own"
      using I st by (auto simp: own_ok_def)
    have d: "nets_extend ns (ms @ [c\<lparr>ni_pins := []\<rparr>])"
      using I st nets_extend_trans[OF _ nets_extend_snoc] by auto
    have "\<exists>i. dget (dset (casefold (ni_name c)) (length ms) jx) (casefold (ni_name x)) = Some i \<and>
        ni_name ((ms @ [c\<lparr>ni_pins := []\<rparr>]) ! i) = ni_name x \<and> i < length (ms @ [c\<lparr>ni_pins := []\<rparr>])"
      if "x \<in> set (ys @ [c])" for x
    proof (cases "x = c")
      case True
      then show ?thesis by (simp add: dict_simps)
    next
      case False
      then have "x \<in> set ys" using that by auto
      then obtain i where i: "dget jx (casefold (ni_name x)) = Some i" "ni_name (ms ! i) = ni_name x" "i < length ms"
        using I st by auto
      then have "casefold (ni_name x) \<noteq> casefold (ni_name c)" using new by auto
      then show ?thesis using i by (intro exI[of _ i]) (simp add: dict_simps nth_append)
    qed
    with a b d st' show ?thesis by simp
  qed
  from rfold_prefix_invariant[of create_net "(ns, ix)" cs "(ns', ix')" ?I, OF assms(1) start]
  show ?thesis using step by auto
qed

lemma commit_pin_result:
  assumes "commit_pin lib ix nc (ns, own) (i, pin) = Inr st"
  shows "\<exists>key. physical_key lib ix pin = Inr key \<and>
    ((\<exists>net. dget own key = Some net \<and> casefold net = casefold (ni_name (ns ! i)) \<and> st = (ns, own)) \<or>
     (dget own key = None \<and> key \<notin> set nc \<and>
      st = (ns[i := (ns ! i)\<lparr>ni_pins := ni_pins (ns ! i) @ [pin]\<rparr>], dset key (ni_name (ns ! i)) own)))"
proof (cases "physical_key lib ix pin")
  case (Inl e)
  then show ?thesis using assms by (simp add: commit_pin_def)
next
  case (Inr key)
  show ?thesis
  proof (cases "dget own key")
    case None
    then show ?thesis using assms Inr by (simp add: commit_pin_def Let_def split: if_splits)
  next
    case (Some net)
    then show ?thesis using assms Inr by (simp add: commit_pin_def Let_def split: if_splits)
  qed
qed

lemma commit_pins_ok:
  assumes run: "rfold (commit_pin lib ix nc) (ns, own) ds = Inr (ns', own')"
    and ok: "own_ok lib ix ns own" and dis: "set nc \<inter> set (dkeys own) = {}"
    and range: "\<forall>(i, pin) \<in> set ds. i < length ns"
  shows "own_ok lib ix ns' own' \<and> set nc \<inter> set (dkeys own') = {} \<and> nets_extend ns ns' \<and>
    dget own \<subseteq>\<^sub>m dget own' \<and> map ni_name ns' = map ni_name ns \<and>
    (\<forall>(i, pin) \<in> set ds. \<exists>key net. physical_key lib ix pin = Inr key \<and> dget own' key = Some net \<and>
       casefold net = casefold (ni_name (ns ! i)))"
proof -
  let ?I = "\<lambda>done st. case st of (ms, o') \<Rightarrow> own_ok lib ix ms o' \<and> set nc \<inter> set (dkeys o') = {} \<and>
    nets_extend ns ms \<and> dget own \<subseteq>\<^sub>m dget o' \<and> map ni_name ms = map ni_name ns \<and>
    (\<forall>(i, pin) \<in> set done. \<exists>key net. physical_key lib ix pin = Inr key \<and> dget o' key = Some net \<and>
       casefold net = casefold (ni_name (ns ! i)))"
  have start: "?I [] (ns, own)" using ok dis by simp
  have step: "?I (ys @ [d]) st'" if d: "d \<in> set ds" and I: "?I ys st" and c: "commit_pin lib ix nc st d = Inr st'"
    for ys d st st'
  proof -
    obtain ms o' where st: "st = (ms, o')" by (cases st)
    obtain i pin where dd: "d = (i, pin)" by (cases d)
    have i: "i < length ns" using range d dd by auto
    have names: "map ni_name ms = map ni_name ns" using I st by simp
    then have im: "i < length ms" using i by (metis length_map)
    have nm: "ni_name (ms ! i) = ni_name (ns ! i)" using names i im by (metis nth_map)
    from commit_pin_result[of lib ix nc ms o' i pin st'] c st dd
    obtain key where key: "physical_key lib ix pin = Inr key" and
      or: "(\<exists>net. dget o' key = Some net \<and> casefold net = casefold (ni_name (ms ! i)) \<and> st' = (ms, o')) \<or>
       (dget o' key = None \<and> key \<notin> set nc \<and>
        st' = (ms[i := (ms ! i)\<lparr>ni_pins := ni_pins (ms ! i) @ [pin]\<rparr>], dset key (ni_name (ms ! i)) o'))"
      by blast
    from or show ?thesis
    proof
      assume "\<exists>net. dget o' key = Some net \<and> casefold net = casefold (ni_name (ms ! i)) \<and> st' = (ms, o')"
      then show ?thesis using I st key nm dd by auto
    next
      assume new: "dget o' key = None \<and> key \<notin> set nc \<and>
        st' = (ms[i := (ms ! i)\<lparr>ni_pins := ni_pins (ms ! i) @ [pin]\<rparr>], dset key (ni_name (ms ! i)) o')"
      let ?ms = "ms[i := (ms ! i)\<lparr>ni_pins := ni_pins (ms ! i) @ [pin]\<rparr>]"
      let ?o = "dset key (ni_name (ms ! i)) o'"
      have "own_ok lib ix ms o'" using I st by simp
      then have a: "own_ok lib ix ?ms ?o" using new by (intro own_ok_add[OF _ key im]) auto
      have le: "dget o' \<subseteq>\<^sub>m dget ?o" using new by (auto simp: map_le_def dict_simps)
      have b: "set nc \<inter> set (dkeys ?o) = {}" using I st new by (auto simp: dict_simps)
      have e: "nets_extend ns ?ms" using I st nets_extend_trans[OF _ nets_extend_update] by auto
      have f: "map ni_name ?ms = map ni_name ns" using names im map_update_same[of i ms ni_name] by simp
      have g: "\<exists>k v. physical_key lib ix p = Inr k \<and> dget ?o k = Some v \<and> casefold v = casefold (ni_name (ns ! j))"
        if "(j, p) \<in> set (ys @ [d])" for j p
      proof (cases "(j, p) = (i, pin)")
        case True
        then show ?thesis using key nm by (simp add: dict_simps)
      next
        case False
        then have "(j, p) \<in> set ys" using that dd by auto
        moreover have "\<forall>(i, pin) \<in> set ys. \<exists>key net. physical_key lib ix pin = Inr key \<and>
            dget o' key = Some net \<and> casefold net = casefold (ni_name (ns ! i))"
          using I st by simp
        ultimately have "\<exists>k v. physical_key lib ix p = Inr k \<and> dget o' k = Some v \<and>
            casefold v = casefold (ni_name (ns ! j))" by blast
        then show ?thesis using le by (metis domI map_le_def)
      qed
      have "dget own \<subseteq>\<^sub>m dget ?o" using I st le map_le_trans by auto
      then show ?thesis using a b e f g new by auto
    qed
  qed
  from rfold_prefix_invariant[of "commit_pin lib ix nc" "(ns, own)" ds "(ns', own')" ?I, OF run start]
  show ?thesis using step by blast
qed

lemma commit_no_connects_ok:
  assumes run: "rfold (commit_no_connect lib ix own) (ps, nc) ds = Inr (ps', nc')"
    and ok: "nc_ok lib ix own ps nc"
  shows "nc_ok lib ix own ps' nc' \<and> set ps \<subseteq> set ps' \<and>
    (\<forall>pin \<in> set ds. \<exists>key \<in> set nc'. physical_key lib ix pin = Inr key)"
proof -
  let ?I = "\<lambda>done st. case st of (qs, mc) \<Rightarrow> nc_ok lib ix own qs mc \<and> set ps \<subseteq> set qs \<and>
    (\<forall>pin \<in> set done. \<exists>key \<in> set mc. physical_key lib ix pin = Inr key)"
  have "?I [] (ps, nc)" using ok by simp
  moreover have "?I (ys @ [d]) st'" if I: "?I ys st" and c: "commit_no_connect lib ix own st d = Inr st'"
    for ys d st st'
  proof -
    obtain qs mc where st: "st = (qs, mc)" by (cases st)
    from c st obtain key where key: "physical_key lib ix d = Inr key" "key \<notin> set (dkeys own)"
      and st': "st' = (if key \<in> set mc then (qs, mc) else (qs @ [d], mc @ [key]))"
      by (auto simp: commit_no_connect_def result_simps split: if_splits)
    have "nc_ok lib ix own (qs @ [d]) (mc @ [key])" using I st key by (auto simp: nc_ok_def)
    then show ?thesis using I st st' key by (cases "key \<in> set mc") auto
  qed
  ultimately have "?I ds (ps', nc')"
    using rfold_prefix_invariant[of "commit_no_connect lib ix own" "(ps, nc)" ds "(ps', nc')" ?I, OF run] by blast
  then show ?thesis by simp
qed

lemma add_supply_grows: "set s \<subseteq> set (foldl (add_supply g) s cs)"
proof (induction cs arbitrary: s)
  case Nil
  then show ?case by simp
next
  case (Cons c cs)
  have "set s \<subseteq> set (add_supply g s c)" by (auto simp: add_supply_def)
  also have "\<dots> \<subseteq> set (foldl (add_supply g) (add_supply g s c) cs)" by (rule Cons.IH)
  finally show ?case by simp
qed

lemma commit_delta_result:
  assumes "commit_delta lib ix required agg d = Inr (agg', own')"
  obtains own nc ns names targets nc' ps where
    "aggregate_ownership lib ix agg = Inr (own, nc)"
    "rfold create_net (nl_nets agg, name_index (nl_nets agg)) (cd_create d) = Inr (ns, names)"
    "rmap (extension_target names) (cd_extend d) = Inr targets"
    "rfold (commit_pin lib ix nc) (ns, own)
       (concat (map (\<lambda>n. map (Pair (the (dget names (casefold (ni_name n))))) (ni_pins n)) (cd_create d))
        @ concat (map (\<lambda>(i, ps). map (Pair i) ps) targets)) = Inr (nl_nets agg', own')"
    "rfold (commit_no_connect lib ix own') (nl_no_connect agg, nc) (cd_no_connect d) = Inr (ps, nc')"
    "nl_no_connect agg' = ps" "\<forall>k \<in> set required. k \<in> set (dkeys own') \<or> k \<in> set nc'"
    "nl_supply agg' = foldl (add_supply (nl_ground agg)) (nl_supply agg) (cd_create d)"
    "nl_ground agg' = nl_ground agg" "nl_additional_parts agg' = nl_additional_parts agg"
    "nl_rationale agg' = nl_rationale agg"
  using assms by (auto simp: commit_delta_def result_simps Let_def filter_empty_conv split: prod.splits)

lemma rmap_results: "rmap f xs = Inr ys \<Longrightarrow> length ys = length xs \<and> (\<forall>i < length xs. f (xs ! i) = Inr (ys ! i))"
proof (induction xs arbitrary: ys)
  case Nil
  then show ?case by simp
next
  case (Cons x xs)
  from Cons.prems obtain y zs where yz: "f x = Inr y" "rmap f xs = Inr zs" "ys = y # zs"
    by (auto simp: result_simps)
  show ?case using Cons.IH[OF yz(2)] yz by (auto simp: nth_Cons split: nat.splits)
qed

lemma rmap_set: "rmap f xs = Inr ys \<Longrightarrow> x \<in> set xs \<Longrightarrow> \<exists>y \<in> set ys. f x = Inr y"
  using rmap_results[of f xs ys] by (auto simp: in_set_conv_nth)

lemma rmap_source: "rmap f xs = Inr ys \<Longrightarrow> y \<in> set ys \<Longrightarrow> \<exists>x \<in> set xs. f x = Inr y"
  using rmap_results[of f xs ys] by (metis in_set_conv_nth)

text \<open>Everything a committed delta guarantees of the aggregate.\<close>

definition committed ::
  "symbol_library \<Rightarrow> part_index \<Rightarrow> string list \<Rightarrow> connection_delta \<Rightarrow> netlist \<Rightarrow> netlist \<Rightarrow> ownership \<Rightarrow> string list \<Rightarrow> bool" where
  "committed lib ix required d agg agg' own' nc' =
     (own_ok lib ix (nl_nets agg') own' \<and> nc_ok lib ix own' (nl_no_connect agg') nc' \<and>
      (\<forall>k \<in> set required. k \<in> set (dkeys own') \<or> k \<in> set nc') \<and>
      nets_extend (nl_nets agg) (nl_nets agg') \<and>
      set (nl_no_connect agg) \<subseteq> set (nl_no_connect agg') \<and> set (nl_supply agg) \<subseteq> set (nl_supply agg') \<and>
      nl_ground agg' = nl_ground agg \<and>
      (\<forall>c \<in> set (cd_create d). \<forall>pin \<in> set (ni_pins c). \<exists>key net. physical_key lib ix pin = Inr key \<and>
         dget own' key = Some net \<and> casefold net = casefold (ni_name c)) \<and>
      (\<forall>e \<in> set (cd_extend d). \<forall>pin \<in> set (ne_pins e). \<exists>key net. physical_key lib ix pin = Inr key \<and>
         dget own' key = Some net \<and> casefold net = casefold (ne_name e)) \<and>
      (\<forall>pin \<in> set (cd_no_connect d). \<exists>key \<in> set nc'. physical_key lib ix pin = Inr key))"

lemma commit_delta_committed:
  assumes "commit_delta lib ix required agg d = Inr (agg', own')"
  shows "\<exists>nc'. committed lib ix required d agg agg' own' nc'"
proof -
  from assms obtain own nc ns names targets nc' ps where
    own: "aggregate_ownership lib ix agg = Inr (own, nc)" and
    cre: "rfold create_net (nl_nets agg, name_index (nl_nets agg)) (cd_create d) = Inr (ns, names)" and
    ext: "rmap (extension_target names) (cd_extend d) = Inr targets" and
    run: "rfold (commit_pin lib ix nc) (ns, own)
       (concat (map (\<lambda>n. map (Pair (the (dget names (casefold (ni_name n))))) (ni_pins n)) (cd_create d))
        @ concat (map (\<lambda>(i, ps). map (Pair i) ps) targets)) = Inr (nl_nets agg', own')" and
    ncr: "rfold (commit_no_connect lib ix own') (nl_no_connect agg, nc) (cd_no_connect d) = Inr (ps, nc')" and
    rest: "nl_no_connect agg' = ps" "\<forall>k \<in> set required. k \<in> set (dkeys own') \<or> k \<in> set nc'"
    "nl_supply agg' = foldl (add_supply (nl_ground agg)) (nl_supply agg) (cd_create d)"
    "nl_ground agg' = nl_ground agg"
    by (rule commit_delta_result)
  let ?ds = "concat (map (\<lambda>n. map (Pair (the (dget names (casefold (ni_name n))))) (ni_pins n)) (cd_create d))
        @ concat (map (\<lambda>(i, ps). map (Pair i) ps) targets)"
  note nc0 = aggregate_ownership_nc[OF own]
  from create_nets_ok[OF cre name_index_ok aggregate_ownership_ok[OF own]]
  have names: "names_ok ns names" and own1: "own_ok lib ix ns own" and grow1: "nets_extend (nl_nets agg) ns"
    and made: "\<And>c. c \<in> set (cd_create d) \<Longrightarrow>
       \<exists>i. dget names (casefold (ni_name c)) = Some i \<and> ni_name (ns ! i) = ni_name c \<and> i < length ns"
    by simp_all
  have tgt: "i < length ns \<and> (\<exists>e \<in> set (cd_extend d). ps = ne_pins e \<and> casefold (ni_name (ns ! i)) = casefold (ne_name e))"
    if "(i, ps) \<in> set targets" for i ps
    using rmap_source[OF ext that] names by (auto simp: extension_target_def names_ok_def split: option.splits)
  have "\<forall>(i, pin) \<in> set ?ds. i < length ns" using made tgt by fastforce
  from commit_pins_ok[OF run own1 _ this] nc0
  have own2: "own_ok lib ix (nl_nets agg') own'" and dis: "set nc \<inter> set (dkeys own') = {}"
    and grow2: "nets_extend ns (nl_nets agg')"
    and placed: "\<forall>(i, pin) \<in> set ?ds. \<exists>key net. physical_key lib ix pin = Inr key \<and> dget own' key = Some net \<and>
       casefold net = casefold (ni_name (ns ! i))"
    by (auto simp: nc_ok_def)
  have "nc_ok lib ix own' (nl_no_connect agg) nc" using nc0 dis by (simp add: nc_ok_def)
  from commit_no_connects_ok[OF ncr this] rest(1)
  have nco: "nc_ok lib ix own' (nl_no_connect agg') nc'" "set (nl_no_connect agg) \<subseteq> set (nl_no_connect agg')"
    "\<forall>pin \<in> set (cd_no_connect d). \<exists>key \<in> set nc'. physical_key lib ix pin = Inr key" by simp_all
  have c1: "\<exists>key net. physical_key lib ix pin = Inr key \<and> dget own' key = Some net \<and> casefold net = casefold (ni_name c)"
    if c: "c \<in> set (cd_create d)" and pin: "pin \<in> set (ni_pins c)" for c pin
  proof -
    obtain i where i: "dget names (casefold (ni_name c)) = Some i" "ni_name (ns ! i) = ni_name c"
      using made[OF c] by blast
    have "(i, pin) \<in> set ?ds" using c pin i(1) by force
    then show ?thesis using placed i(2) by fastforce
  qed
  have c2: "\<exists>key net. physical_key lib ix pin = Inr key \<and> dget own' key = Some net \<and> casefold net = casefold (ne_name e)"
    if e: "e \<in> set (cd_extend d)" and pin: "pin \<in> set (ne_pins e)" for e pin
  proof -
    obtain i where i: "(i, ne_pins e) \<in> set targets" "dget names (casefold (ne_name e)) = Some i"
      using rmap_set[OF ext e] by (auto simp: extension_target_def split: option.splits)
    have "(i, pin) \<in> set ?ds" using i(1) pin by force
    moreover have "casefold (ni_name (ns ! i)) = casefold (ne_name e)"
      using names i(2) by (simp add: names_ok_def)
    ultimately show ?thesis using placed by fastforce
  qed
  have "committed lib ix required d agg agg' own' nc'"
    unfolding committed_def
    using own2 nco rest(2,4) c1 c2 nets_extend_trans[OF grow1 grow2] add_supply_grows rest(3) by auto
  then show ?thesis by blast
qed

subsection \<open>Whole transactions\<close>

lemma reject_Inr [result_simps]: "reject f r = Inr x \<longleftrightarrow> r = Inr x"
  by (auto simp: reject_def split: sum.splits)

lemma reject_ok [simp]: "reject f (Inr x) = Inr x"
  by (simp add: reject_def)

lemma revalidate_Inr:
  "revalidate digest c = Inr c' \<longleftrightarrow>
     c' = c\<lparr>ck_aggregate := normalise_aggregate (ck_aggregate c)\<rparr> \<and> check_checkpoint digest c' = Inr ()"
  by (auto simp: revalidate_def Let_def result_simps)

lemma dedup_net_idem [simp]: "dedup_net (dedup_net n) = dedup_net n"
  by (simp add: dedup_net_def fromkeys_distinct)

lemma normalise_idem [simp]: "normalise_aggregate (normalise_aggregate n) = normalise_aggregate n"
  by (simp add: normalise_aggregate_def o_def)

lemma revalidate_idem: "revalidate digest c = Inr c' \<Longrightarrow> revalidate digest c' = Inr c'"
  by (auto simp: revalidate_Inr)

text \<open>A successful merge either recognises a committed delta or commits it.\<close>

lemma merge_cases:
  assumes "merge_connection_delta digest lib c0 d parts = Inr c1"
  obtains (replayed) c b st where "revalidate digest c0 = Inr c" "c1 = c"
      "ck_selection c = selection_fingerprint digest lib parts"
      "plan_batch (ck_plan c) (cd_batch d) = Some b" "batch_status_of c (cd_batch d) = Some st"
      "bc_status st = BCompleted" "bc_fingerprint st = delta_fingerprint digest d"
      "\<forall>x \<in> set (take (bs_sequence b) (ck_batches c)). bc_status x = BCompleted"
  | (fresh) c b st ix required agg own where "revalidate digest c0 = Inr c"
      "ck_selection c = selection_fingerprint digest lib parts"
      "plan_batch (ck_plan c) (cd_batch d) = Some b" "batch_status_of c (cd_batch d) = Some st"
      "bc_status st \<noteq> BCompleted"
      "\<forall>x \<in> set (take (bs_sequence b) (ck_batches c)). bc_status x = BCompleted"
      "cd_base d = ck_revision c" "build_index parts = Inr ix"
      "required_owned_pins lib ix b = Inr required"
      "commit_delta lib ix required (ck_aggregate c) d = Inr (agg, own)"
      "finish_merge digest c (cd_batch d) (delta_fingerprint digest d) agg own = Inr c1"
proof -
  from assms obtain c where c: "revalidate digest c0 = Inr c"
    "ck_selection c = selection_fingerprint digest lib parts"
    "(case (plan_batch (ck_plan c) (cd_batch d), batch_status_of c (cd_batch d)) of
        (Some b, Some st) \<Rightarrow>
          (let before = filter (\<lambda>x. bc_status x \<noteq> BCompleted) (take (bs_sequence b) (ck_batches c));
               fp = delta_fingerprint digest d in
           demand (before = []) (IncompletePredecessors (map bc_id before))
           (if bc_status st = BCompleted then
              (if bc_fingerprint st = fp then Inr c else Inl (CompletedDifferently (cd_batch d)))
            else
              demand (cd_base d = ck_revision c) (BaseRevision (cd_base d))
              (rbind (build_index parts) (\<lambda>ix.
               rbind (required_owned_pins lib ix b) (\<lambda>required.
               rbind (check_delta_refs b d) (\<lambda>_.
               rbind (commit_delta lib ix required (ck_aggregate c) d) (\<lambda>(agg, own).
               finish_merge digest c (cd_batch d) fp agg own)))))))
      | _ \<Rightarrow> Inl (UnknownBatch (cd_batch d))) = Inr c1"
    by (auto simp: merge_connection_delta_def result_simps)
  from c(3) obtain b st where bs: "plan_batch (ck_plan c) (cd_batch d) = Some b"
    "batch_status_of c (cd_batch d) = Some st"
    by (cases "plan_batch (ck_plan c) (cd_batch d)"; cases "batch_status_of c (cd_batch d)") auto
  have before: "\<forall>x \<in> set (take (bs_sequence b) (ck_batches c)). bc_status x = BCompleted"
    using c(3) bs by (simp add: Let_def result_simps filter_empty_conv)
  show ?thesis
  proof (cases "bc_status st = BCompleted")
    case True
    then show ?thesis using c bs before
      by (intro replayed[of c b st]) (simp_all add: Let_def result_simps filter_empty_conv split: if_splits)
  next
    case False
    then have rest: "cd_base d = ck_revision c"
      "rbind (build_index parts) (\<lambda>ix.
               rbind (required_owned_pins lib ix b) (\<lambda>required.
               rbind (check_delta_refs b d) (\<lambda>_.
               rbind (commit_delta lib ix required (ck_aggregate c) d) (\<lambda>(agg, own).
               finish_merge digest c (cd_batch d) (delta_fingerprint digest d) agg own)))) = Inr c1"
      using c(3) bs by (simp_all add: Let_def result_simps filter_empty_conv)
    from rest(2) obtain ix required agg own where
      "build_index parts = Inr ix" "required_owned_pins lib ix b = Inr required"
      "commit_delta lib ix required (ck_aggregate c) d = Inr (agg, own)"
      "finish_merge digest c (cd_batch d) (delta_fingerprint digest d) agg own = Inr c1"
      by (auto simp: result_simps)
    then show ?thesis using fresh c(1,2) bs False before rest(1) by blast
  qed
qed

lemma finish_merge_result:
  assumes "finish_merge digest c i fp agg own = Inr c1"
  shows "c1 = c\<lparr>ck_aggregate := normalise_aggregate agg, ck_batches := mark_completed i fp (ck_batches c),
      ck_revision := ck_revision c + 1, ck_reservations := reservations_of (bp_shared (ck_plan c)) own\<rparr>"
    and "check_checkpoint digest c1 = Inr ()"
  using assms by (auto simp: finish_merge_def Let_def result_simps revalidate_Inr)

lemma find_Some_mark:
  "List.find (\<lambda>b. bc_id b = i) bs = Some st \<Longrightarrow>
   List.find (\<lambda>b. bc_id b = i) (mark_completed i fp bs) =
     Some (st\<lparr>bc_attempts := bc_attempts st + 1, bc_fingerprint := fp, bc_error := [], bc_status := BCompleted\<rparr>)"
  by (induction i fp bs rule: mark_completed.induct) auto

lemma mark_completed_take:
  "\<forall>x \<in> set (take n bs). bc_status x = BCompleted \<Longrightarrow>
   \<forall>x \<in> set (take n (mark_completed i fp bs)). bc_status x = BCompleted"
proof (induction i fp bs arbitrary: n rule: mark_completed.induct)
  case (1 i fp)
  then show ?case by simp
next
  case (2 i fp b bs)
  then show ?case by (cases n) auto
qed

text \<open>
  Merging the same delta twice is the same as merging it once: the second merge is
  recognised by its fingerprint and returns the committed checkpoint unchanged.
\<close>

theorem merge_idempotent:
  assumes "merge_connection_delta digest lib c0 d parts = Inr c1"
  shows "merge_connection_delta digest lib c1 d parts = Inr c1"
  using assms
proof (cases rule: merge_cases)
  case (replayed c b st)
  then have "revalidate digest c1 = Inr c1" using revalidate_idem by blast
  then show ?thesis using replayed
    by (simp add: merge_connection_delta_def Let_def filter_empty_conv)
next
  case (fresh c b st ix required agg own)
  note f = finish_merge_result[OF fresh(11)]
  have "revalidate digest c1 = Inr c1" using f by (simp add: revalidate_Inr)
  moreover have "ck_selection c1 = ck_selection c" "ck_plan c1 = ck_plan c" using f(1) by simp_all
  moreover have "batch_status_of c1 (cd_batch d) = Some (st\<lparr>bc_attempts := bc_attempts st + 1,
      bc_fingerprint := delta_fingerprint digest d, bc_error := [], bc_status := BCompleted\<rparr>)"
    using fresh(4) f(1) by (simp add: batch_status_of_def find_Some_mark)
  moreover have "\<forall>x \<in> set (take (bs_sequence b) (ck_batches c1)). bc_status x = BCompleted"
    using mark_completed_take[OF fresh(6)] f(1) by simp
  ultimately show ?thesis using fresh(2,3)
    by (simp add: merge_connection_delta_def Let_def filter_empty_conv)
qed

lemma set_dedup [simp]: "set (ni_pins (dedup_net n)) = set (ni_pins n)" "ni_name (dedup_net n) = ni_name n"
  "ni_kind (dedup_net n) = ni_kind n" "ni_purpose (dedup_net n) = ni_purpose n"
  by (simp_all add: dedup_net_def)

lemma holds_dedup [simp]: "holds lib ix (dedup_net n) key = holds lib ix n key"
  by (simp add: holds_def)

lemma own_ok_dedup: "own_ok lib ix (map dedup_net ns) own = own_ok lib ix ns own"
  by (simp add: own_ok_def)

text \<open>
  C1: a committed delta leaves no electrical conflict. After a merge that commits a batch,
  two nets that hold the same physical pin are the same net, no physical pin is both
  connected and marked no-connect, and every real pin of the batch's own parts has been
  given one of the two dispositions.
\<close>

theorem merge_no_conflicts:
  assumes merge: "merge_connection_delta digest lib c0 d parts = Inr c1"
    and fresh: "batch_status_of c0 (cd_batch d) = Some st" "bc_status st \<noteq> BCompleted"
    and index: "build_index parts = Inr ix"
    and batch: "plan_batch (ck_plan c0) (cd_batch d) = Some b"
      "required_owned_pins lib ix b = Inr required"
  shows "(\<forall>m \<in> set (nl_nets (ck_aggregate c1)). \<forall>n \<in> set (nl_nets (ck_aggregate c1)). \<forall>key.
            holds lib ix m key \<and> holds lib ix n key \<longrightarrow> casefold (ni_name m) = casefold (ni_name n)) \<and>
         (\<forall>n \<in> set (nl_nets (ck_aggregate c1)). \<forall>pin \<in> set (nl_no_connect (ck_aggregate c1)). \<forall>key.
            physical_key lib ix pin = Inr key \<longrightarrow> \<not> holds lib ix n key) \<and>
         (\<forall>key \<in> set required.
            (\<exists>n \<in> set (nl_nets (ck_aggregate c1)). holds lib ix n key) \<or>
            (\<exists>pin \<in> set (nl_no_connect (ck_aggregate c1)). physical_key lib ix pin = Inr key))"
  using merge
proof (cases rule: merge_cases)
  case (replayed c b' st')
  then have "batch_status_of c (cd_batch d) = batch_status_of c0 (cd_batch d)"
    by (auto simp: revalidate_Inr batch_status_of_def)
  then show ?thesis using replayed fresh by simp
next
  case (fresh c b' st' ix' required' agg own)
  have same: "ix' = ix" "b' = b" "required' = required"
    using fresh index batch by (auto simp: revalidate_Inr)
  from commit_delta_committed[OF fresh(10)] obtain nc where
    ok: "own_ok lib ix (nl_nets agg) own" "nc_ok lib ix own (nl_no_connect agg) nc"
      "\<forall>k \<in> set required. k \<in> set (dkeys own) \<or> k \<in> set nc"
    unfolding committed_def same by blast
  have agg: "ck_aggregate c1 = normalise_aggregate agg"
    using finish_merge_result(1)[OF fresh(11)] by simp
  let ?ns = "nl_nets (ck_aggregate c1)"
  have nets: "own_ok lib ix ?ns own" using ok(1) by (simp add: agg normalise_aggregate_def own_ok_dedup)
  have ncs: "nl_no_connect (ck_aggregate c1) = nl_no_connect agg" by (simp add: agg normalise_aggregate_def)
  have one: "casefold (ni_name m) = casefold (ni_name n)"
    if "m \<in> set ?ns" "n \<in> set ?ns" "holds lib ix m key" "holds lib ix n key" for m n key
    using own_ok_holds[OF nets that(1,3)] own_ok_holds[OF nets that(2,4)] by auto
  have two: "\<not> holds lib ix n key"
    if "n \<in> set ?ns" "pin \<in> set (nl_no_connect agg)" "physical_key lib ix pin = Inr key" for n pin key
  proof
    assume "holds lib ix n key"
    from own_ok_holds[OF nets that(1) this] have "key \<in> set (dkeys own)" by (auto simp: dict_simps)
    moreover have "key \<in> set nc" using ok(2) that(2,3) by (auto simp: nc_ok_def)
    ultimately show False using ok(2) by (auto simp: nc_ok_def)
  qed
  have three: "(\<exists>n \<in> set ?ns. holds lib ix n key) \<or> (\<exists>pin \<in> set (nl_no_connect agg). physical_key lib ix pin = Inr key)"
    if "key \<in> set required" for key
  proof (cases "key \<in> set (dkeys own)")
    case True
    then obtain net where "dget own key = Some net" by (auto simp: dict_simps)
    from own_ok_net[OF nets this] show ?thesis by blast
  next
    case False
    then have "key \<in> set nc" using ok(3) that by blast
    then show ?thesis using ok(2) by (simp add: nc_ok_def)
  qed
  show ?thesis unfolding ncs using one two three by blast
qed

text \<open>
  Merging is strictly additive: nets keep their position, name, kind, purpose and
  pins, no-connect marks and supply nets are kept, the ground net is unchanged, and every
  pin the delta assigns to a net is held by that net afterwards.
\<close>

theorem merge_additive:
  assumes merge: "merge_connection_delta digest lib c0 d parts = Inr c1"
    and fresh: "batch_status_of c0 (cd_batch d) = Some st" "bc_status st \<noteq> BCompleted"
    and index: "build_index parts = Inr ix"
  shows "length (nl_nets (ck_aggregate c0)) \<le> length (nl_nets (ck_aggregate c1)) \<and>
    (\<forall>i < length (nl_nets (ck_aggregate c0)).
       ni_name (nl_nets (ck_aggregate c1) ! i) = ni_name (nl_nets (ck_aggregate c0) ! i) \<and>
       ni_kind (nl_nets (ck_aggregate c1) ! i) = ni_kind (nl_nets (ck_aggregate c0) ! i) \<and>
       set (ni_pins (nl_nets (ck_aggregate c0) ! i)) \<subseteq> set (ni_pins (nl_nets (ck_aggregate c1) ! i))) \<and>
    set (nl_no_connect (ck_aggregate c0)) \<subseteq> set (nl_no_connect (ck_aggregate c1)) \<and>
    set (nl_supply (ck_aggregate c0)) \<subseteq> set (nl_supply (ck_aggregate c1)) \<and>
    nl_ground (ck_aggregate c1) = nl_ground (ck_aggregate c0) \<and>
    (\<forall>c \<in> set (cd_create d). \<forall>pin \<in> set (ni_pins c). \<exists>n \<in> set (nl_nets (ck_aggregate c1)). \<exists>key.
       casefold (ni_name n) = casefold (ni_name c) \<and> physical_key lib ix pin = Inr key \<and> holds lib ix n key) \<and>
    (\<forall>e \<in> set (cd_extend d). \<forall>pin \<in> set (ne_pins e). \<exists>n \<in> set (nl_nets (ck_aggregate c1)). \<exists>key.
       casefold (ni_name n) = casefold (ne_name e) \<and> physical_key lib ix pin = Inr key \<and> holds lib ix n key)"
  using merge
proof (cases rule: merge_cases)
  case (replayed c b' st')
  then have "batch_status_of c (cd_batch d) = batch_status_of c0 (cd_batch d)"
    by (auto simp: revalidate_Inr batch_status_of_def)
  then show ?thesis using replayed fresh by simp
next
  case (fresh c b' st' ix' required' agg own)
  have same: "ix' = ix" using fresh(8) index by simp
  from commit_delta_committed[OF fresh(10)] obtain nc where
    com: "committed lib ix required' d (ck_aggregate c) agg own nc" unfolding same by blast
  have agg: "ck_aggregate c1 = normalise_aggregate agg"
    using finish_merge_result(1)[OF fresh(11)] by simp
  have c: "ck_aggregate c = normalise_aggregate (ck_aggregate c0)" using fresh(1) by (simp add: revalidate_Inr)
  let ?ns = "nl_nets (ck_aggregate c1)"
  have nets: "own_ok lib ix ?ns own"
    using com by (simp add: committed_def agg normalise_aggregate_def own_ok_dedup)
  have grow: "nets_extend (map dedup_net (nl_nets (ck_aggregate c0))) (nl_nets agg)"
    using com by (simp add: committed_def c normalise_aggregate_def)
  have net: "ni_name (?ns ! i) = ni_name (nl_nets (ck_aggregate c0) ! i) \<and>
      ni_kind (?ns ! i) = ni_kind (nl_nets (ck_aggregate c0) ! i) \<and>
      set (ni_pins (nl_nets (ck_aggregate c0) ! i)) \<subseteq> set (ni_pins (?ns ! i))"
    if i: "i < length (nl_nets (ck_aggregate c0))" for i
  proof -
    have "net_extends (dedup_net (nl_nets (ck_aggregate c0) ! i)) (nl_nets agg ! i)"
      "i < length (nl_nets agg)"
      using grow i by (simp_all add: nets_extend_def)
    then obtain ps where "ni_name (nl_nets agg ! i) = ni_name (nl_nets (ck_aggregate c0) ! i)"
      "ni_kind (nl_nets agg ! i) = ni_kind (nl_nets (ck_aggregate c0) ! i)"
      "ni_pins (nl_nets agg ! i) = ni_pins (dedup_net (nl_nets (ck_aggregate c0) ! i)) @ ps"
      by (auto simp: net_extends_def)
    then show ?thesis using \<open>i < length (nl_nets agg)\<close>
      by (simp add: agg normalise_aggregate_def)
  qed
  have len: "length (nl_nets (ck_aggregate c0)) \<le> length ?ns"
    using grow by (simp add: nets_extend_def agg normalise_aggregate_def)
  have held: "\<exists>n \<in> set ?ns. casefold (ni_name n) = casefold name \<and> holds lib ix n key"
    if "dget own key = Some v" "casefold v = casefold name" for key v name
    using own_ok_net[OF nets that(1)] that(2) by auto
  have sets: "set (nl_no_connect (ck_aggregate c0)) \<subseteq> set (nl_no_connect (ck_aggregate c1))"
    "set (nl_supply (ck_aggregate c0)) \<subseteq> set (nl_supply (ck_aggregate c1))"
    "nl_ground (ck_aggregate c1) = nl_ground (ck_aggregate c0)"
    using com by (simp_all add: committed_def agg c normalise_aggregate_def)
  have made: "\<forall>c \<in> set (cd_create d). \<forall>pin \<in> set (ni_pins c). \<exists>n \<in> set ?ns. \<exists>key.
       casefold (ni_name n) = casefold (ni_name c) \<and> physical_key lib ix pin = Inr key \<and> holds lib ix n key"
    using com held unfolding committed_def by metis
  have ext: "\<forall>e \<in> set (cd_extend d). \<forall>pin \<in> set (ne_pins e). \<exists>n \<in> set ?ns. \<exists>key.
       casefold (ni_name n) = casefold (ne_name e) \<and> physical_key lib ix pin = Inr key \<and> holds lib ix n key"
    using com held unfolding committed_def by metis
  show ?thesis using len net sets made ext by blast
qed

subsection \<open>A concrete transaction, for the witnesses\<close>

definition sample_digest :: "string \<Rightarrow> string" where "sample_digest s = ''h''"

definition sample_library :: symbol_library where
  "sample_library s = Some [\<lparr>pin_number = ''1'', pin_name = ''VCC'', pin_type = ''power_in''\<rparr>,
     \<lparr>pin_number = ''2'', pin_name = ''GND'', pin_type = ''power_in''\<rparr>]"

definition sample_parts :: "selected_part list" where
  "sample_parts = [\<lparr>sp_ref = ''U1'', sp_symbol = ''S'', sp_value = ''V'', sp_footprint = [], sp_role = ''x''\<rparr>]"

definition sample_batch :: batch_spec where
  "sample_batch = \<lparr>bs_id = ''b'', bs_sequence = 0, bs_blocks = [''i''], bs_owned = [''U1''], bs_shared = [],
     bs_pins = 2\<rparr>"

definition sample_plan :: batch_plan where
  "sample_plan = \<lparr>bp_topology = ''h'', bp_selection = ''h'', bp_fingerprint = ''h'', bp_target = 1,
     bp_effective = 1, bp_max = 1, bp_shared = [], bp_oversized = [], bp_supported = True,
     bp_batches = [sample_batch]\<rparr>"

definition sample_net :: "string \<Rightarrow> net_intent" where
  "sample_net s = \<lparr>ni_name = s, ni_kind = ''power'', ni_pins = [], ni_purpose = []\<rparr>"

definition sample_checkpoint :: checkpoint where
  "sample_checkpoint = \<lparr>ck_schema = 2, ck_topology = ''h'', ck_selection = ''h'', ck_plan = sample_plan,
     ck_aggregate = \<lparr>nl_additional_parts = [], nl_nets = [sample_net ''VCC''], nl_no_connect = [],
       nl_supply = [''VCC''], nl_ground = ''GND'', nl_rationale = []\<rparr>,
     ck_revision = 0, ck_llm = 0, ck_round_llm = 0, ck_rounds = 0,
     ck_batches = [\<lparr>bc_id = ''b'', bc_status = BPending, bc_attempts = 0, bc_fingerprint = [], bc_error = []\<rparr>],
     ck_reservations = []\<rparr>"

definition sample_delta :: connection_delta where
  "sample_delta = \<lparr>cd_batch = ''b'', cd_base = 0, cd_create = [],
     cd_extend = [\<lparr>ne_name = ''vcc'', ne_pins = [\<lparr>lp_ref = ''u1'', lp_pin = ''VCC''\<rparr>]\<rparr>],
     cd_no_connect = [\<lparr>lp_ref = ''U1'', lp_pin = ''2''\<rparr>], cd_rationale = []\<rparr>"

definition sample_merged :: checkpoint where
  "sample_merged = (case merge_connection_delta sample_digest sample_library sample_checkpoint sample_delta sample_parts of
     Inr c \<Rightarrow> c | Inl _ \<Rightarrow> sample_checkpoint)"

lemma sample_merge:
  "merge_connection_delta sample_digest sample_library sample_checkpoint sample_delta sample_parts = Inr sample_merged"
  by code_simp

definition sample_index :: part_index where
  "sample_index = (case build_index sample_parts of Inr ix \<Rightarrow> ix | Inl _ \<Rightarrow> [])"

definition sample_status :: batch_checkpoint where
  "sample_status = hd (ck_batches sample_checkpoint)"

lemma sample_index: "build_index sample_parts = Inr sample_index"
  by code_simp

lemma sample_lookups:
  "batch_status_of sample_checkpoint (cd_batch sample_delta) = Some sample_status"
  "bc_status sample_status \<noteq> BCompleted"
  "plan_batch (ck_plan sample_checkpoint) (cd_batch sample_delta) = Some sample_batch"
  "required_owned_pins sample_library sample_index sample_batch = Inr [''U1:1'', ''U1:2'']"
  by code_simp+

theorem merge_idempotent_witness:
  "merge_connection_delta sample_digest sample_library sample_merged sample_delta sample_parts = Inr sample_merged"
  using merge_idempotent[OF sample_merge] .

theorem merge_no_conflicts_witness:
  "\<exists>n \<in> set (nl_nets (ck_aggregate sample_merged)). holds sample_library sample_index n ''U1:1''"
proof -
  have "\<not> (\<exists>pin \<in> set (nl_no_connect (ck_aggregate sample_merged)).
      physical_key sample_library sample_index pin = Inr ''U1:1'')" by code_simp
  then show ?thesis
    using merge_no_conflicts[OF sample_merge sample_lookups(1,2) sample_index sample_lookups(3,4)] by simp
qed

theorem merge_additive_witness:
  "length (nl_nets (ck_aggregate sample_checkpoint)) \<le> length (nl_nets (ck_aggregate sample_merged)) \<and>
   nl_ground (ck_aggregate sample_merged) = nl_ground (ck_aggregate sample_checkpoint)"
  using merge_additive[OF sample_merge sample_lookups(1,2) sample_index] by blast

subsection \<open>Progress\<close>

lemma check_prefix_split:
  "check_prefix b bs = Inr () \<Longrightarrow>
   \<exists>m. (\<forall>x \<in> set (take m bs). bc_status x = BCompleted) \<and> (\<forall>x \<in> set (drop m bs). bc_status x \<noteq> BCompleted)
     \<and> m \<le> length bs \<and> (b \<longrightarrow> m = 0)"
proof (induction b bs rule: check_prefix.induct)
  case (1 b)
  then show ?case by simp
next
  case (2 incomplete b bs)
  show ?case
  proof (cases "bc_status b = BCompleted")
    case True
    with 2 obtain m where "(\<forall>x \<in> set (take m bs). bc_status x = BCompleted) \<and>
        (\<forall>x \<in> set (drop m bs). bc_status x \<noteq> BCompleted) \<and> m \<le> length bs" "\<not> incomplete"
      by (auto simp: result_simps)
    then show ?thesis using True by (intro exI[of _ "Suc m"]) simp
  next
    case False
    with 2 obtain m where "(\<forall>x \<in> set (drop m bs). bc_status x \<noteq> BCompleted) \<and> m = 0"
      by auto
    then show ?thesis using False by (intro exI[of _ 0]) simp
  qed
qed

lemma completed_prefix_length:
  assumes "\<forall>x \<in> set (take m bs). bc_status x = BCompleted"
    and "\<forall>x \<in> set (drop m bs). bc_status x \<noteq> BCompleted" and "m \<le> length bs"
  shows "length (completed bs) = m"
proof -
  have "completed bs = completed (take m bs) @ completed (drop m bs)"
    unfolding completed_def by (metis append_take_drop_id filter_append)
  moreover have "completed (take m bs) = take m bs" using assms(1) by (simp add: completed_def)
  moreover have "completed (drop m bs) = []" using assms(2) by (simp add: completed_def)
  ultimately show ?thesis using assms(3) by simp
qed

lemma check_checkpoint_prefix:
  assumes "check_checkpoint digest c = Inr ()"
  shows "\<exists>m \<le> length (ck_batches c). ck_revision c = m \<and>
    (\<forall>x \<in> set (take m (ck_batches c)). bc_status x = BCompleted) \<and>
    (\<forall>x \<in> set (drop m (ck_batches c)). bc_status x \<noteq> BCompleted)"
proof -
  have "check_prefix False (ck_batches c) = Inr ()" "ck_revision c = length (completed (ck_batches c))"
    using assms by (simp_all add: check_checkpoint_def check_checkpoint_model_def result_simps)
  then show ?thesis using check_prefix_split[of False "ck_batches c"] completed_prefix_length by metis
qed

text \<open>
  A merge moves the checkpoint forward by exactly one batch or not at all. The result
  is always a checkpoint whose completed batches are the first \<open>ck_revision\<close> of the plan;
  a merge that is not a replay completes precisely the next batch, raises the revision by
  one and keeps the plan.
\<close>

theorem merge_progress:
  assumes "merge_connection_delta digest lib c0 d parts = Inr c1"
  shows "(\<forall>x \<in> set (take (ck_revision c1) (ck_batches c1)). bc_status x = BCompleted) \<and>
    (\<forall>x \<in> set (drop (ck_revision c1) (ck_batches c1)). bc_status x \<noteq> BCompleted) \<and>
    ck_plan c1 = ck_plan c0 \<and> map bc_id (ck_batches c1) = map bs_id (bp_batches (ck_plan c1)) \<and>
    (ck_revision c1 = ck_revision c0 \<and> ck_batches c1 = ck_batches c0 \<or>
     ck_revision c1 = ck_revision c0 + 1 \<and> cd_base d = ck_revision c0)"
  using assms
proof (cases rule: merge_cases)
  case (replayed c b st)
  have chk: "check_checkpoint digest c1 = Inr ()"
    using replayed(1,2) unfolding revalidate_Inr by blast
  have "map bc_id (ck_batches c1) = map bs_id (bp_batches (ck_plan c1))"
    using chk by (simp add: check_checkpoint_def check_checkpoint_model_def result_simps)
  moreover have "ck_plan c1 = ck_plan c0" "ck_revision c1 = ck_revision c0" "ck_batches c1 = ck_batches c0"
    using replayed by (auto simp: revalidate_Inr)
  ultimately show ?thesis using check_checkpoint_prefix[OF chk] by blast
next
  case (fresh c b st ix required agg own)
  note f = finish_merge_result[OF fresh(11)]
  have "map bc_id (ck_batches c1) = map bs_id (bp_batches (ck_plan c1))"
    using f(2) by (simp add: check_checkpoint_def check_checkpoint_model_def result_simps)
  moreover have "ck_plan c1 = ck_plan c0" "ck_revision c1 = ck_revision c0 + 1" "cd_base d = ck_revision c0"
    using f(1) fresh(1,7) by (auto simp: revalidate_Inr)
  ultimately show ?thesis using check_checkpoint_prefix[OF f(2)] by blast
qed

theorem merge_progress_witness: "ck_plan sample_merged = ck_plan sample_checkpoint"
  using merge_progress[OF sample_merge] by blast

subsection \<open>Resolving a pin\<close>

lemma unique_number_result:
  assumes "unique_number what pins = Inr (Some n)"
  shows "\<exists>p \<in> set pins. py_strip (pin_number p) = n \<and> n \<noteq> []"
proof -
  let ?ns = "fromkeys (map (\<lambda>p. py_strip (pin_number p)) (numbered pins))"
  have "?ns = [n]" using assms by (auto simp: unique_number_def split: list.splits)
  then have "n \<in> set (map (\<lambda>p. py_strip (pin_number p)) (numbered pins))"
    by (metis list.set_intros(1) set_fromkeys)
  then show ?thesis by (auto simp: numbered_def)
qed

lemma unique_number_none: "unique_number what pins = Inr None \<Longrightarrow> numbered pins = []"
  by (auto simp: unique_number_def split: list.splits) (metis list.set_intros(1) map_is_Nil_conv
      set_fromkeys set_empty empty_iff)

lemma resolve_pin_unfold:
  assumes "symbol_pins lib part = Some pins" and "pins \<noteq> []" and "fold_text logical \<noteq> []"
  shows "resolve_pin lib part logical =
    rbind (unique_number (sp_ref part @ '':'' @ logical) (filter (\<lambda>p. fold_text (pin_number p) = fold_text logical) pins)) (\<lambda>a.
      case a of Some n \<Rightarrow> Inr n
      | None \<Rightarrow> rbind (unique_number (sp_ref part @ '':'' @ logical) (filter (\<lambda>p. fold_text (pin_name p) = fold_text logical) pins)) (\<lambda>b.
        case b of Some n \<Rightarrow> Inr n
        | None \<Rightarrow> rbind (unique_number (sp_ref part @ '':'' @ logical)
              (filter (\<lambda>p. fold_text logical \<in> set (name_tokens (fold_text (pin_name p)))) pins)) (\<lambda>c.
          case c of Some n \<Rightarrow> Inr n | None \<Rightarrow> Inl (UnresolvedPin (sp_ref part @ '':'' @ logical)))))"
proof -
  obtain q qs where "pins = q # qs" using assms(2) by (cases pins) auto
  then show ?thesis using assms(1,3) unfolding resolve_pin_def Let_def by (simp only: option.case list.case if_False)
qed

lemma first_of_two:
  "rbind A (\<lambda>b. case b of Some n \<Rightarrow> Inr n
     | None \<Rightarrow> rbind B (\<lambda>c. case c of Some n \<Rightarrow> Inr n | None \<Rightarrow> Inl e)) = Inr n \<Longrightarrow>
   A = Inr (Some n) \<or> B = Inr (Some n)"
  by (cases A; cases B) (auto split: option.splits)

text \<open>
  A resolved pin is a real one. Whatever name or number the proposal used, the result
  is the non-empty number of a pin of the part's symbol, and a number that some pin bears
  literally always wins over names.
\<close>

theorem resolve_pin_real:
  assumes "resolve_pin lib part logical = Inr n"
  shows "\<exists>pins. symbol_pins lib part = Some pins \<and>
    (\<exists>p \<in> set pins. py_strip (pin_number p) = n \<and> n \<noteq> []) \<and>
    ((\<exists>p \<in> set pins. fold_text (pin_number p) = fold_text logical) \<longrightarrow> casefold n = fold_text logical)"
proof -
  from assms obtain pins where pins: "symbol_pins lib part = Some pins" "pins \<noteq> []"
    by (auto simp: resolve_pin_def split: option.splits list.splits)
  let ?key = "fold_text logical"
  let ?w = "sp_ref part @ '':'' @ logical"
  let ?byno = "filter (\<lambda>p. fold_text (pin_number p) = ?key) pins"
  have key: "?key \<noteq> []"
    using assms pins by (cases pins) (auto simp: resolve_pin_def Let_def split: if_splits)
  note run = assms[unfolded resolve_pin_unfold[OF pins key]]
  obtain a where a: "unique_number ?w ?byno = Inr a"
    using run by (cases "unique_number ?w ?byno") simp_all
  show ?thesis
  proof (cases a)
    case (Some m)
    then have "n = m" using run a by simp
    from unique_number_result[OF a[unfolded Some]] obtain p where
      p: "p \<in> set pins" "fold_text (pin_number p) = ?key" "py_strip (pin_number p) = n" "n \<noteq> []"
      using \<open>n = m\<close> by auto
    then have "casefold n = ?key" by (auto simp: fold_text_def)
    then show ?thesis using p pins by blast
  next
    case None
    have none: "\<not> (\<exists>p \<in> set pins. fold_text (pin_number p) = ?key)"
    proof
      assume "\<exists>p \<in> set pins. fold_text (pin_number p) = ?key"
      then obtain p where p: "p \<in> set pins" "fold_text (pin_number p) = ?key" by blast
      then have "py_strip (pin_number p) \<noteq> []" using key by (auto simp: fold_text_def casefold_def)
      then have "p \<in> set (numbered ?byno)" using p by (simp add: numbered_def)
      then show False using unique_number_none[OF a[unfolded None]] by simp
    qed
    have "rbind (unique_number ?w (filter (\<lambda>p. fold_text (pin_name p) = ?key) pins)) (\<lambda>b.
        case b of Some n \<Rightarrow> Inr n
        | None \<Rightarrow> rbind (unique_number ?w (filter (\<lambda>p. ?key \<in> set (name_tokens (fold_text (pin_name p)))) pins))
            (\<lambda>c. case c of Some n \<Rightarrow> Inr n | None \<Rightarrow> Inl (UnresolvedPin ?w))) = Inr n"
      using run unfolding a None by (simp only: rbind.simps option.case)
    from first_of_two[OF this] have "\<exists>f. unique_number ?w (filter f pins) = Inr (Some n)" by blast
    then have "\<exists>p \<in> set pins. py_strip (pin_number p) = n \<and> n \<noteq> []"
      using unique_number_result by fastforce
    then show ?thesis using pins none by blast
  qed
qed

theorem resolve_pin_real_witness: "resolve_pin sample_library (hd sample_parts) ''vcc'' = Inr ''1'' \<and> ''1'' \<noteq> ''''"
proof -
  have "resolve_pin sample_library (hd sample_parts) ''vcc'' = Inr ''1''" by code_simp
  with resolve_pin_real[OF this] show ?thesis by simp
qed

end
