(* ===== verification/ConnectionPlan.thy ===== *)
theory ConnectionPlan
  imports ConnectionMerge
begin

text \<open>
  Planning block-wise synthesis, \<^verbatim>\<open>connection_synthesis.py\<close> lines 642 to 1163 and the
  coverage report: assigning parts to topology blocks, finding shared hubs, cutting the
  parts into pin-budgeted batches, fresh checkpoints, and resuming stored ones. Python sets
  that are only sorted or tested are lists without duplicates.
\<close>

subsection \<open>Words\<close>

definition is_alnum :: "char \<Rightarrow> bool" where
  "is_alnum c = (is_letter c \<or> is_digit c \<or>
     (let n = (of_char c :: nat) in n \<in> {170, 178, 179, 181, 185, 186, 188, 189, 190} \<or>
        (192 \<le> n \<and> n \<noteq> 215 \<and> n \<noteq> 247)))"

function alnum_runs :: "string \<Rightarrow> string list" where
  "alnum_runs s =
     (let s' = dropWhile (\<lambda>c. \<not> is_alnum c) s in
      if s' = [] then [] else takeWhile is_alnum s' # alnum_runs (dropWhile is_alnum s'))"
  by auto
termination
proof (relation "measure length")
  fix s s' :: string
  assume s': "s' = dropWhile (\<lambda>c. \<not> is_alnum c) s" and ne: "s' \<noteq> []"
  then have "is_alnum (hd s')" using hd_dropWhile by metis
  then have "length (dropWhile is_alnum s') < length s'"
    using ne by (cases s') (auto simp: less_Suc_eq_le length_dropWhile_le)
  also have "\<dots> \<le> length s" unfolding s' by (rule length_dropWhile_le)
  finally show "(dropWhile is_alnum s', s) \<in> measure length" by simp
qed simp

declare alnum_runs.simps [simp del]

definition generic_tokens :: "string list" where
  "generic_tokens = [''board'', ''circuit'', ''component'', ''device'', ''external'', ''function'',
     ''functional'', ''main'', ''module'', ''part'', ''physical'', ''support'', ''system'']"

definition hub_tokens :: "string list" where
  "hub_tokens = [''central'', ''compute'', ''computing'', ''controller'', ''coordination'', ''core'',
     ''cpu'', ''fpga'', ''host'', ''mcu'', ''processor'', ''soc'']"

definition support_tokens :: "string list" where
  "support_tokens = [''bead'', ''button'', ''capacitor'', ''connector'', ''crystal'', ''decoupl'',
     ''diode'', ''filter'', ''fuse'', ''header'', ''inductor'', ''jumper'', ''led'', ''oscillator'',
     ''protection'', ''pull'', ''resistor'', ''strap'', ''switch'', ''tvs'']"

definition stem_suffixes :: "string list" where
  "stem_suffixes = [''ation'', ''ments'', ''ment'', ''ing'', ''ers'', ''er'', ''ed'', ''es'', ''s'']"

definition stem :: "string \<Rightarrow> string" where
  "stem token =
     (case List.find (\<lambda>s. length token > length s + 3 \<and> ends_with token s) stem_suffixes of
        None \<Rightarrow> token | Some s \<Rightarrow> take (length token - length s) token)"

definition word_tokens :: "string \<Rightarrow> string list" where
  "word_tokens text =
     fromkeys (concat (map (\<lambda>t. [t, stem t])
       (filter (\<lambda>t. t \<notin> set generic_tokens) (alnum_runs (casefold text)))))"

definition common :: "string list \<Rightarrow> string list \<Rightarrow> nat" where
  "common a b = length (filter (\<lambda>x. x \<in> set b) a)"

definition block_score :: "selected_part \<Rightarrow> topology_block \<Rightarrow> nat" where
  "block_score p b =
     (let role = word_tokens (sp_role p);
          identity = word_tokens (tb_name b @ '' '' @ tb_kind b);
          description = word_tokens (tb_description b);
          secondary = word_tokens (sp_value p @ '' '' @ sp_symbol p @ '' '' @ sp_footprint p)
      in 5 * common role identity + 2 * common role description + common secondary (identity @ description))"

subsection \<open>Assigning parts to blocks\<close>

datatype plan_error =
    UnknownExplicit "string list"
  | TypedOwnerAbsent string
  | TypedConflict string
  | NoSuchBlock string
  | ExplicitConflict string
  | NotPositive string
  | UnknownShared "string list"
  | PlanRejected connection_fault

definition integration_block :: string where "integration_block = ''integration''"

definition dict_of :: "('k \<times> 'v) list \<Rightarrow> ('k, 'v) dict" where
  "dict_of xs = foldl (\<lambda>d (k, v). dset k v d) [] xs"

definition own_typed ::
  "string list \<Rightarrow> (string, string) dict \<Rightarrow> string \<times> string \<Rightarrow> (plan_error, (string, string) dict) result" where
  "own_typed selected owners entry =
     (case entry of (block, raw) \<Rightarrow>
        let ref = fold_text raw in
        if ref \<notin> set selected then Inl (TypedOwnerAbsent raw)
        else case dget owners ref of
          Some previous \<Rightarrow> if previous \<noteq> block then Inl (TypedConflict ref) else Inr (dset ref block owners)
        | None \<Rightarrow> Inr (dset ref block owners))"

definition typed_owners ::
  "topology \<Rightarrow> selected_part list \<Rightarrow> (plan_error, (string, string) dict) result" where
  "typed_owners t parts =
     rfold (own_typed (map (\<lambda>p. casefold (sp_ref p)) parts)) []
       (concat (map (\<lambda>b. if tb_implementation_kind b = ComponentKind
                         then map (Pair (tb_name b)) (tb_implementation_refs b) else []) (tp_blocks t)))"

definition best_block :: "topology \<Rightarrow> selected_part \<Rightarrow> string" where
  "best_block t p =
     (let scored = map (\<lambda>b. (block_score p b, tb_name b)) (tp_blocks t);
          best = foldr max (map fst scored) 0;
          winners = filter (\<lambda>(s, _). s = best \<and> 0 < s) scored
      in case winners of [(_, name)] \<Rightarrow> name | _ \<Rightarrow> integration_block)"

definition assign_part ::
  "topology \<Rightarrow> (string, string) dict \<Rightarrow> (string, string) dict \<Rightarrow> (string, string) dict \<Rightarrow> selected_part
     \<Rightarrow> (plan_error, (string, string) dict) result" where
  "assign_part t explicit owners assigned p =
     (let key = casefold (sp_ref p);
          owner = dget_or owners key [];
          requested = dget_or explicit key []
      in if requested \<noteq> [] then
           (case dget (dict_of (map (\<lambda>b. (casefold (tb_name b), tb_name b)) (tp_blocks t))) (casefold requested) of
              None \<Rightarrow> Inl (NoSuchBlock requested)
            | Some name \<Rightarrow>
                if owner \<noteq> [] \<and> owner \<noteq> name then Inl (ExplicitConflict (sp_ref p))
                else Inr (dset (sp_ref p) (if owner \<noteq> [] then owner else name) assigned))
         else if owner \<noteq> [] then Inr (dset (sp_ref p) owner assigned)
         else Inr (dset (sp_ref p) (best_block t p) assigned))"

definition assign_parts ::
  "topology \<Rightarrow> selected_part list \<Rightarrow> (string, string) dict \<Rightarrow> (plan_error, (string, string) dict) result" where
  "assign_parts t parts explicit0 =
     (let explicit = dict_of (map (\<lambda>(r, v). (casefold r, v)) explicit0);
          unknown = sort (filter (\<lambda>r. r \<notin> set (map (\<lambda>p. casefold (sp_ref p)) parts)) (dkeys explicit))
      in demand (unknown = []) (UnknownExplicit unknown)
        (rbind (typed_owners t parts) (\<lambda>owners.
           rfold (assign_part t explicit owners) [] (sort_key (\<lambda>p. natural_ref_key (sp_ref p)) parts))))"

definition default_unknown_pins :: nat where "default_unknown_pins = 8"

definition is_hub :: "symbol_library \<Rightarrow> selected_part \<Rightarrow> bool" where
  "is_hub lib p =
     (let role = word_tokens (sp_role p);
          device = word_tokens (sp_value p @ '' '' @ sp_symbol p);
          by_role = common role hub_tokens > 0 \<and> common role support_tokens = 0;
          by_device = common device hub_tokens > 0;
          (pins, unresolved) = pin_count lib default_unknown_pins p
      in (by_role \<or> by_device) \<and> \<not> unresolved \<and> 4 \<le> pins)"

definition infer_shared_refs ::
  "symbol_library \<Rightarrow> topology \<Rightarrow> selected_part list \<Rightarrow> (string, string) dict \<Rightarrow> (plan_error, string list) result" where
  "infer_shared_refs lib t parts explicit =
     rbind (assign_parts t parts explicit) (\<lambda>_.
       Inr (natural_sort (fromkeys (map sp_ref (filter (is_hub lib) parts)))))"

subsection \<open>Cutting batches\<close>

text \<open>A raw batch: its blocks, its references and its pins.\<close>

type_synonym raw_batch = "string list \<times> string list \<times> nat"

record cut_state =
  cut_done :: "raw_batch list"
  cut_blocks :: "string list"
  cut_refs :: "string list"
  cut_pins :: nat

definition flush_cut :: "cut_state \<Rightarrow> cut_state" where
  "flush_cut s =
     (if cut_refs s = [] then s
      else \<lparr>cut_done = cut_done s @ [(cut_blocks s, cut_refs s, cut_pins s)],
            cut_blocks = [], cut_refs = [], cut_pins = 0\<rparr>)"

definition add_part :: "nat \<Rightarrow> cut_state \<Rightarrow> string \<times> nat \<times> string \<Rightarrow> cut_state" where
  "add_part target s entry =
     (case entry of (ref, pins, block) \<Rightarrow>
        let s' = (if cut_refs s \<noteq> [] \<and> cut_pins s + pins > target then flush_cut s else s)
        in s'\<lparr>cut_refs := cut_refs s' @ [ref],
              cut_blocks := (if block \<in> set (cut_blocks s') then cut_blocks s' else cut_blocks s' @ [block]),
              cut_pins := cut_pins s' + pins\<rparr>)"

definition cut_part :: "string list \<Rightarrow> nat \<Rightarrow> cut_state \<Rightarrow> string \<times> nat \<times> string \<Rightarrow> cut_state" where
  "cut_part oversized target s entry =
     (case entry of (ref, pins, block) \<Rightarrow>
        if ref \<in> set oversized then
          (let s' = flush_cut s in s'\<lparr>cut_done := cut_done s' @ [([block], [ref], pins)]\<rparr>)
        else add_part target s entry)"

definition cut_batches :: "string list \<Rightarrow> nat \<Rightarrow> (string \<times> nat \<times> string) list \<Rightarrow> raw_batch list" where
  "cut_batches oversized target entries =
     cut_done (flush_cut (foldl (cut_part oversized target)
       \<lparr>cut_done = [], cut_blocks = [], cut_refs = [], cut_pins = 0\<rparr> entries))"

definition join_batches :: "raw_batch \<Rightarrow> raw_batch \<Rightarrow> raw_batch" where
  "join_batches a b = (case a of (ba, ra, pa) \<Rightarrow> case b of (bb, rb, pb) \<Rightarrow>
     (fromkeys (ba @ bb), ra @ rb, pa + pb))"

text \<open>The loop that merges the last two batches while there are too many.\<close>

function collapse :: "nat \<Rightarrow> raw_batch list \<Rightarrow> raw_batch list" where
  "collapse cap raw =
     (if cap < length raw \<and> 2 \<le> length raw
      then collapse cap (butlast (butlast raw) @ [join_batches (last (butlast raw)) (last raw)])
      else raw)"
  by auto
termination by (relation "measure (\<lambda>(_, raw). length raw)") auto

declare collapse.simps [simp del]

definition pad2 :: "nat \<Rightarrow> string" where
  "pad2 n = (let s = nat_str n in replicate (2 - length s) (CHR ''0'') @ s)"

definition batch_identity ::
  "(string \<Rightarrow> string) \<Rightarrow> nat \<Rightarrow> string list \<Rightarrow> string list \<Rightarrow> string list \<Rightarrow> string" where
  "batch_identity digest sequence blocks owned shared =
     ''connection-'' @ pad2 (sequence + 1) @ ''-'' @ canonical_hash digest (JObj
       [(''sequence'', JInt (int sequence)), (''blocks'', jstrs blocks), (''owned'', jstrs owned),
        (''shared'', jstrs shared)]) 10"

definition make_batch ::
  "(string \<Rightarrow> string) \<Rightarrow> string list \<Rightarrow> nat \<times> raw_batch \<Rightarrow> batch_spec" where
  "make_batch digest shared entry =
     (case entry of (sequence, blocks, owned, pins) \<Rightarrow>
        \<lparr>bs_id = batch_identity digest sequence blocks owned shared, bs_sequence = sequence,
         bs_blocks = blocks, bs_owned = owned, bs_shared = shared, bs_pins = pins\<rparr>)"

record plan_options =
  po_target :: int
  po_max :: int
  po_shared :: "string list option"
  po_explicit :: "(string, string) dict"
  po_unknown :: int

definition plan_shared ::
  "symbol_library \<Rightarrow> topology \<Rightarrow> selected_part list \<Rightarrow> plan_options \<Rightarrow> (plan_error, string list) result" where
  "plan_shared lib t parts o' =
     rbind (case po_shared o' of
              None \<Rightarrow> infer_shared_refs lib t parts (po_explicit o')
            | Some refs \<Rightarrow> Inr (natural_sort (fromkeys refs))) (\<lambda>shared.
       let unknown = filter (\<lambda>r. r \<notin> set (map sp_ref parts)) shared
       in demand (unknown = []) (UnknownShared unknown)
            (Inr (if shared \<noteq> [] \<and> po_max o' = 1 then [] else shared)))"

definition count_of :: "symbol_library \<Rightarrow> nat \<Rightarrow> selected_part \<Rightarrow> nat" where
  "count_of lib unknown p = fst (pin_count lib unknown p)"

definition block_rank :: "topology \<Rightarrow> string \<Rightarrow> nat" where
  "block_rank t name =
     (let names = map tb_name (tp_blocks t);
          order = dict_of (zip names [0 ..< length names]);
          order' = dset integration_block (length order) order
      in dget_or order' name (length order'))"

definition plan_entries ::
  "symbol_library \<Rightarrow> nat \<Rightarrow> topology \<Rightarrow> (string, string) dict \<Rightarrow> string list \<Rightarrow> selected_part list
     \<Rightarrow> (string \<times> nat \<times> string) list" where
  "plan_entries lib unknown t assigned shared parts =
     map (\<lambda>p. (sp_ref p, count_of lib unknown p, dget_or assigned (sp_ref p) []))
       (sort_key (\<lambda>p. (block_rank t (dget_or assigned (sp_ref p) []), casefold (sp_role p), natural_ref_key (sp_ref p)))
         (filter (\<lambda>p. sp_ref p \<notin> set shared \<and> count_of lib unknown p \<noteq> 0) parts))"

definition effective_target :: "nat \<Rightarrow> nat \<Rightarrow> string list \<Rightarrow> string list \<Rightarrow> (string \<times> nat \<times> string) list \<Rightarrow> nat" where
  "effective_target target ordinary_cap oversized shared entries =
     (let oversized_owned = filter (\<lambda>r. r \<notin> set shared) oversized;
          regular = sum_list (map (\<lambda>(r, n, _). if r \<in> set oversized_owned then 0 else n) entries);
          cap = max 1 (ordinary_cap - length oversized_owned)
      in max target (if regular \<noteq> 0 then ceil_div regular cap else 1))"

definition oversized_refs :: "symbol_library \<Rightarrow> nat \<Rightarrow> nat \<Rightarrow> selected_part list \<Rightarrow> string list" where
  "oversized_refs lib unknown target parts =
     natural_sort (map sp_ref (filter (\<lambda>p. count_of lib unknown p > target) parts))"

definition plan_raw ::
  "nat \<Rightarrow> string list \<Rightarrow> string list \<Rightarrow> nat \<Rightarrow> (string \<times> nat \<times> string) list \<Rightarrow> raw_batch list" where
  "plan_raw cap oversized shared effective entries =
     (let raw = cut_batches oversized effective entries
      in collapse cap (if raw = [] \<and> shared = [] then [([integration_block], [], 0)] else raw))"

definition hub_batch ::
  "(string \<Rightarrow> string) \<Rightarrow> symbol_library \<Rightarrow> nat \<Rightarrow> string list \<Rightarrow> selected_part list \<Rightarrow> nat \<Rightarrow> batch_spec" where
  "hub_batch digest lib unknown shared parts sequence =
     make_batch digest (natural_sort (filter (\<lambda>r. r \<notin> set shared) (fromkeys (map sp_ref parts))))
       (sequence, [integration_block], shared,
        sum_list (map (count_of lib unknown) (filter (\<lambda>p. sp_ref p \<in> set shared) parts)))"

definition plan_cap :: "nat \<Rightarrow> string list \<Rightarrow> nat" where
  "plan_cap limit shared = limit - (if shared = [] then 0 else 1)"

definition assemble_plan ::
  "(string \<Rightarrow> string) \<Rightarrow> symbol_library \<Rightarrow> topology \<Rightarrow> selected_part list \<Rightarrow> nat \<Rightarrow> nat \<Rightarrow> nat
     \<Rightarrow> (string, string) dict \<Rightarrow> string list \<Rightarrow> batch_plan" where
  "assemble_plan digest lib t parts unknown target limit assigned shared =
     (let oversized = oversized_refs lib unknown target parts;
          entries = plan_entries lib unknown t assigned shared parts;
          cap = plan_cap limit shared;
          effective = effective_target target cap oversized shared entries;
          raw = plan_raw cap oversized shared effective entries;
          plan = \<lparr>bp_topology = topology_fingerprint digest t, bp_selection = selection_fingerprint digest lib parts,
                  bp_fingerprint = [], bp_target = target, bp_effective = effective, bp_max = limit,
                  bp_shared = shared, bp_oversized = oversized, bp_supported = True,
                  bp_batches = map (make_batch digest shared) (zip [0 ..< length raw] raw) @
                    (if shared = [] then [] else [hub_batch digest lib unknown shared parts (length raw)])\<rparr>
      in plan\<lparr>bp_fingerprint := canonical_hash digest (plan_payload plan) 20\<rparr>)"

definition plan_connection_batches ::
  "(string \<Rightarrow> string) \<Rightarrow> symbol_library \<Rightarrow> topology \<Rightarrow> selected_part list \<Rightarrow> plan_options
     \<Rightarrow> (plan_error, batch_plan) result" where
  "plan_connection_batches digest lib t parts o' =
     demand (0 < po_target o') (NotPositive ''target_pin_count'')
    (demand (0 < po_max o') (NotPositive ''max_batches'')
    (demand (0 < po_unknown o') (NotPositive ''unknown_symbol_pin_estimate'')
    (rbind (assign_parts t parts (po_explicit o')) (\<lambda>assigned.
     rbind (plan_shared lib t parts o') (\<lambda>shared.
     let plan = assemble_plan digest lib t parts (nat (po_unknown o')) (nat (po_target o'))
           (nat (po_max o')) assigned shared
     in (case check_plan digest plan of Inl e \<Rightarrow> Inl (PlanRejected e) | Inr _ \<Rightarrow> Inr plan))))))"

subsection \<open>Checkpoints and reports\<close>

definition new_connection_checkpoint ::
  "(string \<Rightarrow> string) \<Rightarrow> symbol_library \<Rightarrow> topology \<Rightarrow> selected_part list \<Rightarrow> batch_plan
     \<Rightarrow> (connection_fault, checkpoint) result" where
  "new_connection_checkpoint digest lib t parts plan =
     demand (bp_topology plan = topology_fingerprint digest t) StaleTopology
    (demand (bp_selection plan = selection_fingerprint digest lib parts) StaleSelection
      (let rails = fromkeys (filter (\<lambda>r. casefold r \<noteq> casefold (tp_ground_net t)) (tp_rails t));
           nets = map (\<lambda>r. \<lparr>ni_name = r, ni_kind = ''power'', ni_pins = [],
                          ni_purpose = ''declared topology supply rail''\<rparr>) rails
                  @ [\<lparr>ni_name = tp_ground_net t, ni_kind = ''ground'', ni_pins = [],
                      ni_purpose = ''declared topology ground''\<rparr>];
           c = \<lparr>ck_schema = 2, ck_topology = bp_topology plan, ck_selection = bp_selection plan, ck_plan = plan,
                ck_aggregate = \<lparr>nl_additional_parts = [], nl_nets = nets, nl_no_connect = [], nl_supply = rails,
                  nl_ground = tp_ground_net t, nl_rationale = ''block-wise connection synthesis''\<rparr>,
                ck_revision = 0, ck_llm = 0, ck_round_llm = 0, ck_rounds = 0,
                ck_batches = map (\<lambda>b. \<lparr>bc_id = bs_id b, bc_status = BPending, bc_attempts = 0,
                  bc_fingerprint = [], bc_error = []\<rparr>) (bp_batches plan),
                ck_reservations = []\<rparr>
       in rbind (check_checkpoint digest c) (\<lambda>_. Inr c)))"

definition checkpoint_matches_inputs ::
  "(string \<Rightarrow> string) \<Rightarrow> symbol_library \<Rightarrow> checkpoint \<Rightarrow> topology \<Rightarrow> selected_part list \<Rightarrow> bool" where
  "checkpoint_matches_inputs digest lib c t parts =
     (case revalidate digest c of Inl _ \<Rightarrow> False
      | Inr v \<Rightarrow> ck_schema v = 2 \<and> ck_topology v = topology_fingerprint digest t \<and>
                 ck_selection v = selection_fingerprint digest lib parts)"

text \<open>The dump of a plan without its three fingerprints.\<close>

definition plan_partition :: "batch_plan \<Rightarrow> batch_plan" where
  "plan_partition p = p\<lparr>bp_topology := [], bp_selection := [], bp_fingerprint := []\<rparr>"

definition prepare_resumable ::
  "(string \<Rightarrow> string) \<Rightarrow> symbol_library \<Rightarrow> checkpoint \<Rightarrow> topology \<Rightarrow> selected_part list \<Rightarrow> checkpoint option" where
  "prepare_resumable digest lib c t parts =
     (case revalidate digest c of
        Inl _ \<Rightarrow> None
      | Inr v \<Rightarrow>
          if checkpoint_matches_inputs digest lib v t parts then Some v
          else if ck_schema v \<noteq> 1 then None
          else if ck_topology v \<noteq> legacy_topology_fingerprint digest t \<or>
                  ck_selection v \<noteq> selection_fingerprint digest lib parts then None
          else if tp_ground_ties t \<noteq> [] \<or>
                  set (map casefold (tp_ground_domains t)) \<noteq> {casefold (tp_ground_net t)} then None
          else (case plan_connection_batches digest lib t parts
                  \<lparr>po_target = int (bp_target (ck_plan v)), po_max = int (bp_max (ck_plan v)),
                   po_shared = Some (bp_shared (ck_plan v)), po_explicit = [],
                   po_unknown = int default_unknown_pins\<rparr> of
                  Inl _ \<Rightarrow> None
                | Inr plan \<Rightarrow>
                    if plan_partition (ck_plan v) \<noteq> plan_partition plan then None
                    else (case revalidate digest (v\<lparr>ck_schema := 2, ck_topology := bp_topology plan,
                                 ck_selection := bp_selection plan, ck_plan := plan\<rparr>) of
                            Inl _ \<Rightarrow> None | Inr v' \<Rightarrow> Some v')))"

definition report_required :: "symbol_library \<Rightarrow> selected_part list \<Rightarrow> string list" where
  "report_required lib parts = fromkeys (concat (map (\<lambda>p.
     case symbol_pins lib p of None \<Rightarrow> []
     | Some pins \<Rightarrow> map (\<lambda>q. physical_name p (py_strip (pin_number q)))
         (filter (\<lambda>q. \<not> intrinsic_no_connect q) (numbered pins))) parts))"

definition resolvable :: "symbol_library \<Rightarrow> part_index \<Rightarrow> string list \<Rightarrow> logical_pin list \<Rightarrow> string list" where
  "resolvable lib ix required pins =
     fromkeys (filter (\<lambda>k. k \<in> set required)
       (List.map_filter (\<lambda>p. case physical_key lib ix p of Inl _ \<Rightarrow> None | Inr k \<Rightarrow> Some k) pins))"

definition status_count :: "batch_status \<Rightarrow> batch_checkpoint list \<Rightarrow> nat" where
  "status_count s bs = length (filter (\<lambda>b. bc_status b = s) bs)"

definition connection_synthesis_report ::
  "symbol_library \<Rightarrow> selected_part list \<Rightarrow> netlist \<Rightarrow> checkpoint option \<Rightarrow> nat \<Rightarrow> nat
     \<Rightarrow> (merge_error + connection_fault, report) result" where
  "connection_synthesis_report lib parts n ck llm round_llm =
     (case build_index parts of
        Inl e \<Rightarrow> Inl (Inl e)
      | Inr ix \<Rightarrow>
          (let required = report_required lib parts;
               unresolved = sum_list (map (\<lambda>p. if symbol_pins lib p = None then default_unknown_pins else 0) parts);
               connected = resolvable lib ix required (concat (map ni_pins (nl_nets n)));
               unconnected = resolvable lib ix required (nl_no_connect n);
               total = length required + unresolved;
               disposed = length (fromkeys (connected @ unconnected));
               bs = (case ck of None \<Rightarrow> [] | Some c \<Rightarrow> ck_batches c);
               r = \<lparr>rp_planned = length bs, rp_completed = status_count BCompleted bs,
                    rp_pending = status_count BPending bs, rp_skipped = status_count BSkipped bs,
                    rp_failed = status_count BFailed bs,
                    rp_llm = (case ck of None \<Rightarrow> llm | Some c \<Rightarrow> ck_llm c),
                    rp_round_llm = (case ck of None \<Rightarrow> round_llm | Some c \<Rightarrow> ck_round_llm c),
                    rp_total = total, rp_connected = length connected, rp_no_connect = length unconnected,
                    rp_undisposed = total - disposed,
                    rp_ratio = (if total = 0 then 1 else of_nat disposed / of_nat total)\<rparr>
           in case check_report r of Inl e \<Rightarrow> Inl (Inr e) | Inr _ \<Rightarrow> Inr r))"

subsection \<open>Every part is owned once\<close>

definition raw_refs :: "raw_batch list \<Rightarrow> string list" where
  "raw_refs raw = concat (map (\<lambda>(_, refs, _). refs) raw)"

definition entry_refs :: "(string \<times> nat \<times> string) list \<Rightarrow> string list" where
  "entry_refs es = map fst es"

definition cut_all :: "cut_state \<Rightarrow> string list" where
  "cut_all s = raw_refs (cut_done s) @ cut_refs s"

lemma raw_refs_append [simp]: "raw_refs (xs @ ys) = raw_refs xs @ raw_refs ys"
  by (simp add: raw_refs_def)

lemma raw_refs_simps [simp]: "raw_refs [] = []" "raw_refs ((b, r, p) # xs) = r @ raw_refs xs"
  by (simp_all add: raw_refs_def)

lemma flush_cut_all: "cut_all (flush_cut s) = cut_all s" "cut_refs (flush_cut s) = []"
  by (simp_all add: flush_cut_def cut_all_def)

lemma cut_part_all: "cut_all (cut_part oversized target s e) = cut_all s @ [fst e]"
proof (cases e)
  case (fields ref pins block)
  show ?thesis
  proof (cases "ref \<in> set oversized")
    case True
    then show ?thesis using fields flush_cut_all[of s]
      by (simp add: cut_part_def cut_all_def Let_def)
  next
    case False
    then show ?thesis using fields flush_cut_all[of s]
      by (simp add: cut_part_def add_part_def cut_all_def Let_def)
  qed
qed

lemma cut_batches_refs: "raw_refs (cut_batches oversized target es) = entry_refs es"
proof -
  let ?z = "\<lparr>cut_done = [], cut_blocks = [], cut_refs = [], cut_pins = 0\<rparr>"
  have "cut_all (foldl (cut_part oversized target) s es) = cut_all s @ entry_refs es" for s
    by (induction es arbitrary: s) (simp_all add: cut_part_all entry_refs_def)
  from this[of ?z] have "cut_all (foldl (cut_part oversized target) ?z es) = entry_refs es"
    by (simp add: cut_all_def)
  then show ?thesis
    using flush_cut_all[of "foldl (cut_part oversized target) ?z es"]
    by (simp add: cut_batches_def cut_all_def)
qed

lemma split_last_two: "2 \<le> length xs \<Longrightarrow> xs = butlast (butlast xs) @ [last (butlast xs), last xs]"
proof -
  assume a: "2 \<le> length xs"
  then have "xs = butlast xs @ [last xs]" by (metis append_butlast_last_id list.size(3) not_numeral_le_zero)
  moreover have "butlast xs = butlast (butlast xs) @ [last (butlast xs)]"
    using a by (intro append_butlast_last_id[symmetric]) (cases xs; auto)
  ultimately show ?thesis by (metis append.assoc append_Cons append_Nil)
qed

lemma join_refs: "raw_refs [join_batches a b] = raw_refs [a] @ raw_refs [b]"
  by (cases a; cases b) (simp add: join_batches_def)

lemma collapse_refs: "raw_refs (collapse cap raw) = raw_refs raw"
proof (induction cap raw rule: collapse.induct)
  case (1 cap raw)
  show ?case
  proof (cases "cap < length raw \<and> 2 \<le> length raw")
    case True
    have "raw_refs raw = raw_refs (butlast (butlast raw) @ [last (butlast raw), last raw])"
      using split_last_two True by metis
    also have "\<dots> = raw_refs (butlast (butlast raw)) @ raw_refs [last (butlast raw)] @ raw_refs [last raw]"
      by (simp add: raw_refs_def)
    finally show ?thesis using True 1
      by (subst collapse.simps) (simp add: join_refs[unfolded raw_refs_append])
  next
    case False
    then show ?thesis by (subst collapse.simps) (simp only: if_False)
  qed
qed

lemma collapse_length: "1 \<le> cap \<Longrightarrow> length (collapse cap raw) \<le> cap"
proof (induction cap raw rule: collapse.induct)
  case (1 cap raw)
  then show ?case by (cases "cap < length raw \<and> 2 \<le> length raw") (simp_all add: collapse.simps[of cap raw])
qed

lemma make_batch_simps [simp]:
  "bs_owned (make_batch digest shared (i, b, r, p)) = r" "bs_sequence (make_batch digest shared (i, b, r, p)) = i"
  by (simp_all add: make_batch_def)

lemma map_owned_zip:
  "concat (map bs_owned (map (make_batch digest shared) (zip [n ..< n + length raw] raw))) = raw_refs raw"
proof (induction raw arbitrary: n)
  case Nil
  then show ?case by simp
next
  case (Cons x raw)
  obtain b r p where x: "x = (b, r, p)" by (cases x)
  have "[n ..< n + length (x # raw)] = n # [Suc n ..< Suc n + length raw]"
    by (simp add: upt_conv_Cons del: upt_Suc)
  then show ?case using Cons.IH[of "Suc n"] x by (simp del: upt_Suc)
qed

lemma plan_entries_refs:
  "mset (entry_refs (plan_entries lib unknown t assigned shared parts)) =
   mset (map sp_ref (filter (\<lambda>p. sp_ref p \<notin> set shared \<and> count_of lib unknown p \<noteq> 0) parts))"
  by (simp add: entry_refs_def plan_entries_def o_def)

lemma plan_raw_refs: "raw_refs (plan_raw cap oversized shared effective entries) = entry_refs entries"
proof -
  have "raw_refs (if raw = [] \<and> shared = [] then [([integration_block], [], 0)] else raw) = raw_refs raw" for raw
    by simp
  then show ?thesis by (simp only: plan_raw_def Let_def collapse_refs cut_batches_refs)
qed

lemma assemble_owned:
  "concat (map bs_owned (bp_batches (assemble_plan digest lib t parts unknown target limit assigned shared))) =
   entry_refs (plan_entries lib unknown t assigned shared parts) @ shared"
proof -
  have "concat (map bs_owned (map (make_batch digest shared) (zip [0 ..< length raw] raw))) = raw_refs raw" for raw
    using map_owned_zip[of digest shared 0 raw] by simp
  then show ?thesis by (simp add: assemble_plan_def Let_def hub_batch_def plan_raw_refs del: map_map)
qed

lemma assemble_length:
  assumes "0 < limit" and "shared \<noteq> [] \<Longrightarrow> limit \<noteq> 1"
  shows "length (bp_batches (assemble_plan digest lib t parts unknown target limit assigned shared)) \<le> limit"
proof -
  have "1 \<le> plan_cap limit shared" using assms by (auto simp: plan_cap_def)
  then have "length (plan_raw (plan_cap limit shared) o' shared e es) \<le> plan_cap limit shared" for o' e es
    unfolding plan_raw_def Let_def by (rule collapse_length)
  then have "length (plan_raw (plan_cap limit shared) o' shared e es) + (if shared = [] then 0 else 1) \<le> limit" for o' e es
    using assms by (auto simp: plan_cap_def le_diff_conv2 split: if_splits)
  then show ?thesis by (auto simp: assemble_plan_def Let_def)
qed

lemma plan_result:
  assumes "plan_connection_batches digest lib t parts o' = Inr plan"
  shows "\<exists>assigned shared. plan_shared lib t parts o' = Inr shared \<and> 0 < po_max o' \<and> 0 < po_target o' \<and>
    plan = assemble_plan digest lib t parts (nat (po_unknown o')) (nat (po_target o')) (nat (po_max o')) assigned shared \<and>
    check_plan digest plan = Inr ()"
proof -
  from assms obtain assigned shared where 1: "plan_shared lib t parts o' = Inr shared" "0 < po_max o'" "0 < po_target o'"
    and 2: "(let plan = assemble_plan digest lib t parts (nat (po_unknown o')) (nat (po_target o'))
           (nat (po_max o')) assigned shared
     in (case check_plan digest plan of Inl e \<Rightarrow> Inl (PlanRejected e) | Inr _ \<Rightarrow> Inr plan)) = Inr plan"
    unfolding plan_connection_batches_def by (auto simp: result_simps simp del: Let_def)
  from 2 have "plan = assemble_plan digest lib t parts (nat (po_unknown o')) (nat (po_target o')) (nat (po_max o')) assigned shared"
    "check_plan digest plan = Inr ()"
    by (auto simp: Let_def split: sum.splits)
  with 1 show ?thesis by blast
qed

lemma assemble_fields [simp]:
  "bp_shared (assemble_plan digest lib t parts unknown target limit assigned shared) = shared"
  "bp_max (assemble_plan digest lib t parts unknown target limit assigned shared) = limit"
  by (simp_all add: assemble_plan_def Let_def)

lemma shared_from_parts:
  assumes "plan_shared lib t parts o' = Inr shared"
  shows "set shared \<subseteq> set (map sp_ref parts)" and "shared \<noteq> [] \<Longrightarrow> po_max o' \<noteq> 1"
  using assms by (auto simp: plan_shared_def result_simps filter_empty_conv split: if_splits)


definition sample_topology :: topology where
  "sample_topology = \<lparr>tp_schema_version = 2, tp_blocks = [], tp_rails = [''VCC''], tp_ground_net = ''GND'',
     tp_ground_domains = [''GND''], tp_ground_ties = []\<rparr>"

definition sample_options :: plan_options where
  "sample_options = \<lparr>po_target = 96, po_max = 8, po_shared = None, po_explicit = [], po_unknown = 8\<rparr>"

definition planned :: batch_plan where
  "planned = assemble_plan sample_digest sample_library sample_topology sample_parts 8 96 8
     [(''U1'', ''integration'')] []"

lemma planned_steps:
  "assign_parts sample_topology sample_parts [] = Inr [(''U1'', ''integration'')]"
  "plan_shared sample_library sample_topology sample_parts sample_options = Inr []"
  "check_plan sample_digest planned = Inr ()"
  by code_simp+

lemma planned: "plan_connection_batches sample_digest sample_library sample_topology sample_parts sample_options = Inr planned"
  using planned_steps
  by (simp add: plan_connection_batches_def planned_def sample_options_def)


subsection \<open>Resuming and reporting\<close>

lemma revalidate_revalidate: "revalidate digest c = Inr v \<Longrightarrow> revalidate digest v = Inr v"
  by (rule revalidate_idem)

text \<open>
  A resumed checkpoint always belongs to the current inputs, whatever the age of the
  stored one: both fingerprints are the current ones, its schema is the current one, it
  validates, and the committed work (aggregate up to repeated pins, batch statuses,
  revision, reservations, and the partition into batches) is the stored one.
\<close>

theorem resume_fails_closed:
  assumes "prepare_resumable digest lib c t parts = Some v"
  shows "checkpoint_matches_inputs digest lib v t parts \<and> check_checkpoint digest v = Inr () \<and>
    ck_aggregate v = normalise_aggregate (ck_aggregate c) \<and> ck_batches v = ck_batches c \<and>
    ck_revision v = ck_revision c \<and> ck_reservations v = ck_reservations c \<and>
    plan_partition (ck_plan v) = plan_partition (ck_plan c)"
proof -
  from assms obtain w where w: "revalidate digest c = Inr w"
    by (auto simp: prepare_resumable_def split: sum.splits)
  note wf = w[unfolded revalidate_Inr]
  show ?thesis
  proof (cases "checkpoint_matches_inputs digest lib w t parts")
    case True
    then have "v = w" using assms w by (simp add: prepare_resumable_def)
    moreover have "check_checkpoint digest w = Inr ()" using wf by blast
    ultimately show ?thesis using True wf by simp
  next
    case False
    then obtain plan where plan: "plan_connection_batches digest lib t parts
          \<lparr>po_target = int (bp_target (ck_plan w)), po_max = int (bp_max (ck_plan w)),
           po_shared = Some (bp_shared (ck_plan w)), po_explicit = [], po_unknown = int default_unknown_pins\<rparr> = Inr plan"
      "plan_partition (ck_plan w) = plan_partition plan"
      and v: "revalidate digest (w\<lparr>ck_schema := 2, ck_topology := bp_topology plan,
                 ck_selection := bp_selection plan, ck_plan := plan\<rparr>) = Inr v"
      using assms w by (auto simp: prepare_resumable_def split: sum.splits if_splits)
    have cur: "bp_topology plan = topology_fingerprint digest t" "bp_selection plan = selection_fingerprint digest lib parts"
      using plan_result[OF plan(1)] by (auto simp: assemble_plan_def Let_def)
    have re: "revalidate digest v = Inr v" by (rule revalidate_idem[OF v])
    have "ck_schema v = 2 \<and> ck_topology v = bp_topology plan \<and> ck_selection v = bp_selection plan"
      using v by (auto simp: revalidate_Inr)
    then have "checkpoint_matches_inputs digest lib v t parts"
      using cur by (simp add: checkpoint_matches_inputs_def re)
    moreover have "check_checkpoint digest v = Inr ()" "ck_plan v = plan" "ck_batches v = ck_batches c"
      "ck_revision v = ck_revision c" "ck_reservations v = ck_reservations c"
      "ck_aggregate v = normalise_aggregate (ck_aggregate c)"
      using v wf by (auto simp: revalidate_Inr)
    moreover have "ck_plan w = ck_plan c" using wf by simp
    ultimately show ?thesis using plan(2) by simp
  qed
qed

definition fresh_checkpoint :: checkpoint where
  "fresh_checkpoint = (case new_connection_checkpoint sample_digest sample_library sample_topology sample_parts planned of
     Inr c \<Rightarrow> c | Inl _ \<Rightarrow> sample_checkpoint)"

lemma fresh_resumes:
  "prepare_resumable sample_digest sample_library sample_checkpoint sample_topology sample_parts = Some sample_checkpoint"
proof -
  have "revalidate sample_digest sample_checkpoint = Inr sample_checkpoint"
    "checkpoint_matches_inputs sample_digest sample_library sample_checkpoint sample_topology sample_parts"
    by code_simp+
  then show ?thesis by (simp add: prepare_resumable_def)
qed

theorem resume_fails_closed_witness:
  "checkpoint_matches_inputs sample_digest sample_library sample_checkpoint sample_topology sample_parts"
  using resume_fails_closed[OF fresh_resumes] by blast

lemma length_subset: "distinct xs \<Longrightarrow> set xs \<subseteq> set ys \<Longrightarrow> length xs \<le> length ys"
  by (metis List.finite_set card_length card_mono distinct_card le_trans)

lemma status_counts:
  "status_count BCompleted bs + status_count BPending bs + status_count BSkipped bs + status_count BFailed bs = length bs"
proof (induction bs)
  case Nil
  then show ?case by (simp add: status_count_def)
next
  case (Cons b bs)
  then show ?case by (cases "bc_status b") (simp_all add: status_count_def)
qed

lemma check_report_ok:
  assumes "rp_completed r + rp_pending r + rp_skipped r + rp_failed r = rp_planned r"
    and "rp_round_llm r \<le> rp_llm r" and "rp_undisposed r \<le> rp_total r"
    and "rp_total r - rp_undisposed r \<le> rp_connected r + rp_no_connect r"
    and ratio: "rp_ratio r = (if rp_total r = 0 then 1 else of_nat (rp_total r - rp_undisposed r) / of_nat (rp_total r))"
  shows "check_report r = Inr ()"
proof -
  have "0 \<le> rp_ratio r \<and> rp_ratio r \<le> 1" unfolding ratio by simp
  moreover have "is_close (rp_ratio r) (rp_ratio r)" by (simp add: is_close_def)
  ultimately show ?thesis
    unfolding check_report_def both_Inr demand_Inr_iff using assms(1-4) by (simp add: ratio[symmetric])
qed

lemma resolvable_set: "distinct (resolvable lib ix required pins)" "set (resolvable lib ix required pins) \<subseteq> set required"
  by (auto simp: resolvable_def)

text \<open>
  The coverage report never rejects its own numbers: whenever the selection has an
  index and the round's calls do not exceed the total, a report is produced; its disposed
  pins are pins that need a disposition, and the coverage ratio is exactly their share.
\<close>

theorem report_total:
  assumes ix: "build_index parts = Inr ix"
    and calls: "case ck of None \<Rightarrow> round_llm \<le> llm | Some c \<Rightarrow> ck_round_llm c \<le> ck_llm c"
  shows "\<exists>r. connection_synthesis_report lib parts n ck llm round_llm = Inr r \<and>
    rp_undisposed r \<le> rp_total r \<and>
    (rp_total r = 0 \<or> rp_ratio r = of_nat (rp_total r - rp_undisposed r) / of_nat (rp_total r)) \<and>
    length (report_required lib parts) \<le> rp_total r"
proof -
  let ?req = "report_required lib parts"
  let ?con = "resolvable lib ix ?req (concat (map ni_pins (nl_nets n)))"
  let ?unc = "resolvable lib ix ?req (nl_no_connect n)"
  let ?un = "sum_list (map (\<lambda>p. if symbol_pins lib p = None then default_unknown_pins else 0) parts)"
  let ?tot = "length ?req + ?un"
  let ?dis = "length (fromkeys (?con @ ?unc))"
  let ?bs = "case ck of None \<Rightarrow> [] | Some c \<Rightarrow> ck_batches c"
  let ?r = "\<lparr>rp_planned = length ?bs, rp_completed = status_count BCompleted ?bs,
     rp_pending = status_count BPending ?bs, rp_skipped = status_count BSkipped ?bs, rp_failed = status_count BFailed ?bs,
     rp_llm = (case ck of None \<Rightarrow> llm | Some c \<Rightarrow> ck_llm c),
     rp_round_llm = (case ck of None \<Rightarrow> round_llm | Some c \<Rightarrow> ck_round_llm c),
     rp_total = ?tot, rp_connected = length ?con, rp_no_connect = length ?unc,
     rp_undisposed = ?tot - ?dis, rp_ratio = (if ?tot = 0 then 1 else of_nat ?dis / of_nat ?tot)\<rparr>"
  have "set (fromkeys (?con @ ?unc)) \<subseteq> set ?req" using resolvable_set(2) by (simp only: set_fromkeys set_append) blast
  then have "?dis \<le> length ?req" by (rule length_subset[OF distinct_fromkeys])
  then have dis: "?dis \<le> ?tot" by simp
  have sum: "?dis \<le> length ?con + length ?unc"
    using length_fromkeys_le[of "?con @ ?unc"] by simp
  have again: "?tot - (?tot - ?dis) = ?dis" using dis by simp
  have "check_report ?r = Inr ()"
  proof (rule check_report_ok)
    show "rp_completed ?r + rp_pending ?r + rp_skipped ?r + rp_failed ?r = rp_planned ?r"
      using status_counts[of ?bs] by (simp only: report.simps)
    show "rp_round_llm ?r \<le> rp_llm ?r" using calls by (cases ck) (simp_all only: report.simps option.case)
    show "rp_undisposed ?r \<le> rp_total ?r" by (simp only: report.simps diff_le_self)
    show "rp_total ?r - rp_undisposed ?r \<le> rp_connected ?r + rp_no_connect ?r"
      using sum by (simp only: report.simps again)
    show "rp_ratio ?r = (if rp_total ?r = 0 then 1 else of_nat (rp_total ?r - rp_undisposed ?r) / of_nat (rp_total ?r))"
      by (simp only: report.simps again)
  qed
  then have "connection_synthesis_report lib parts n ck llm round_llm = Inr ?r"
    by (simp add: connection_synthesis_report_def ix Let_def)
  moreover have "rp_total ?r = 0 \<or> rp_ratio ?r = of_nat (rp_total ?r - rp_undisposed ?r) / of_nat (rp_total ?r)"
    using again by auto
  ultimately show ?thesis by (intro exI[of _ ?r]) auto
qed

theorem report_total_witness:
  "\<exists>r. connection_synthesis_report sample_library sample_parts (ck_aggregate sample_merged) (Some sample_merged) 0 0 = Inr r"
proof -
  have "case Some sample_merged of None \<Rightarrow> (0 :: nat) \<le> 0 | Some c \<Rightarrow> ck_round_llm c \<le> ck_llm c" by code_simp
  from report_total[OF sample_index this] show ?thesis by blast
qed

end
