(* ===== verification/TemporalContracts.thy ===== *)
theory TemporalContracts
  imports Json
begin

text \<open>
  Contracts shared by the Temporal client, worker and workflow,
  \<^verbatim>\<open>src/src/agents/ratsnestpro/temporal/contracts.py\<close>: the canonical steps, checkpoint
  receipts, workflow identifiers and identity, and the compact step summary. Python
  dictionaries of JSON values are association lists; the digest (\<^verbatim>\<open>sha256(...).hexdigest()\<close>)
  and Python's rendering of containers by \<^verbatim>\<open>str\<close> are parameters.
\<close>

type_synonym jdict = "(string, json) dict"

definition canonical_steps :: "string list" where
  "canonical_steps =
     [''requirements'', ''topology'', ''selection'', ''schematic_connections'', ''schematic_pinmap'',
      ''schematic_layout'', ''schematic_materialize'', ''erc'', ''layout_partition'', ''layout_critical'',
      ''layout_general'', ''layout_write'', ''route_plan'', ''route_planes'', ''route_signals'',
      ''route_fab'', ''manufacture'']"

definition routing_steps :: "string list" where
  "routing_steps = [''route_plan'', ''route_planes'', ''route_signals'', ''route_fab'']"

lemma length_canonical_steps [simp]: "length canonical_steps = 17"
  by (simp add: canonical_steps_def)

lemma distinct_canonical_steps: "distinct canonical_steps"
  by (simp add: canonical_steps_def)

subsection \<open>Python conversions of JSON values\<close>

fun py_str :: "(json \<Rightarrow> string) \<Rightarrow> json \<Rightarrow> string" where
  "py_str repr (JStr s) = s"
| "py_str repr (JInt i) = int_str i"
| "py_str repr (JBool b) = (if b then ''True'' else ''False'')"
| "py_str repr JNull = ''None''"
| "py_str repr v = repr v"

definition get_str :: "(json \<Rightarrow> string) \<Rightarrow> jdict \<Rightarrow> string \<Rightarrow> string \<Rightarrow> string" where
  "get_str repr d k dflt = (case dget d k of None \<Rightarrow> dflt | Some v \<Rightarrow> py_str repr v)"

text \<open>\<open>int(value)\<close> of a number; text is read when it is an optional sign and digits.\<close>

definition digit_val :: "string \<Rightarrow> int" where
  "digit_val ds = foldl (\<lambda>n c. 10 * n + (of_char c - 48)) 0 ds"

definition all_digits :: "string \<Rightarrow> bool" where
  "all_digits s = (s \<noteq> [] \<and> list_all (\<lambda>c. 48 \<le> (of_char c :: nat) \<and> (of_char c :: nat) \<le> 57) s)"

definition int_of_text :: "string \<Rightarrow> int option" where
  "int_of_text s =
     (case py_strip s of
        CHR ''-'' # ds \<Rightarrow> if all_digits ds then Some (- digit_val ds) else None
      | CHR ''+'' # ds \<Rightarrow> if all_digits ds then Some (digit_val ds) else None
      | ds \<Rightarrow> if all_digits ds then Some (digit_val ds) else None)"

fun py_int :: "json \<Rightarrow> int option" where
  "py_int (JInt i) = Some i"
| "py_int (JBool b) = Some (if b then 1 else 0)"
| "py_int (JStr s) = int_of_text s"
| "py_int _ = None"

text \<open>\<open>int(d.get(k, 0) or 0)\<close> for the counters of a summary.\<close>

definition get_count :: "jdict \<Rightarrow> string \<Rightarrow> int" where
  "get_count d k =
     (case dget d k of None \<Rightarrow> 0 | Some v \<Rightarrow> (case py_int v of None \<Rightarrow> 0 | Some i \<Rightarrow> i))"

definition is_one :: "json option \<Rightarrow> bool" where
  "is_one v = (v = Some (JInt 1) \<or> v = Some (JBool True))"

definition is_true :: "json option \<Rightarrow> bool" where
  "is_true v = (v = Some (JBool True))"

fun json_truthy :: "json \<Rightarrow> bool" where
  "json_truthy JNull = False"
| "json_truthy (JBool b) = b"
| "json_truthy (JInt i) = (i \<noteq> 0)"
| "json_truthy (JStr s) = (s \<noteq> [])"
| "json_truthy (JArr xs) = (xs \<noteq> [])"
| "json_truthy (JObj d) = (d \<noteq> [])"

definition get_truthy :: "jdict \<Rightarrow> string \<Rightarrow> bool" where
  "get_truthy d k = (case dget d k of None \<Rightarrow> False | Some v \<Rightarrow> json_truthy v)"

subsection \<open>Checkpoint receipts\<close>

record receipt =
  rc_generation :: int
  rc_revision :: int
  rc_committed :: int
  rc_next :: string
  rc_state :: string
  rc_artifacts :: string
  rc_transition :: string
  rc_parent :: string
  rc_replan :: string

definition is_sha256 :: "string \<Rightarrow> bool" where
  "is_sha256 s = (length s = 64 \<and> list_all (\<lambda>c. c \<in> set ''0123456789abcdef'') s)"

definition transition_kinds :: "string list" where
  "transition_kinds = [''forward'', ''rollback'', ''invalidate'']"

definition next_step_after :: "int \<Rightarrow> string" where
  "next_step_after committed =
     (if committed < int (length canonical_steps) then canonical_steps ! nat committed else [])"

definition checkpoint_receipt :: "(json \<Rightarrow> string) \<Rightarrow> json option \<Rightarrow> receipt option" where
  "checkpoint_receipt repr value =
     (case value of
        Some (JObj d) \<Rightarrow>
          if \<not> is_one (dget d ''schema_version'') then None
          else (case (Option.bind (dget d ''generation'') py_int, Option.bind (dget d ''state_revision'') py_int,
                      Option.bind (dget d ''committed_step_index'') py_int) of
            (Some generation, Some revision, Some committed) \<Rightarrow>
              (let transition = get_str repr d ''transition_kind'' [];
                   state = get_str repr d ''state_sha256'' [];
                   artifacts = get_str repr d ''artifact_manifest_digest'' [];
                   next_step = get_str repr d ''next_step'' []
               in if generation < 1 \<or> revision < 0 \<or> committed < 0 \<or> committed > int (length canonical_steps)
                     \<or> transition \<notin> set transition_kinds \<or> \<not> is_sha256 state \<or> \<not> is_sha256 artifacts
                  then None
                  else if next_step \<noteq> next_step_after committed then None
                  else Some \<lparr>rc_generation = generation, rc_revision = revision, rc_committed = committed,
                     rc_next = next_step, rc_state = state, rc_artifacts = artifacts, rc_transition = transition,
                     rc_parent = get_str repr d ''parent_state_sha256'' [],
                     rc_replan = get_str repr d ''replan_id'' []\<rparr>)
          | _ \<Rightarrow> None)
      | _ \<Rightarrow> None)"

text \<open>The dictionary a receipt is written back as.\<close>

definition receipt_json :: "receipt \<Rightarrow> json" where
  "receipt_json r = JObj
     [(''schema_version'', JInt 1), (''generation'', JInt (rc_generation r)),
      (''state_revision'', JInt (rc_revision r)), (''committed_step_index'', JInt (rc_committed r)),
      (''next_step'', JStr (rc_next r)), (''state_sha256'', JStr (rc_state r)),
      (''artifact_manifest_digest'', JStr (rc_artifacts r)), (''transition_kind'', JStr (rc_transition r)),
      (''parent_state_sha256'', JStr (rc_parent r)), (''replan_id'', JStr (rc_replan r))]"

subsection \<open>Names and identifiers\<close>

definition safe_char :: "char \<Rightarrow> bool" where
  "safe_char c = (let n = (of_char c :: nat) in
     (97 \<le> n \<and> n \<le> 122) \<or> (65 \<le> n \<and> n \<le> 90) \<or> (48 \<le> n \<and> n \<le> 57) \<or> c \<in> set ''_.-'')"

text \<open>\<open>re.sub("[^a-zA-Z0-9_.-]+", "-", s)\<close>\<close>

fun replace_unsafe :: "bool \<Rightarrow> string \<Rightarrow> string" where
  "replace_unsafe inside [] = []"
| "replace_unsafe inside (c # cs) =
     (if safe_char c then c # replace_unsafe False cs
      else if inside then replace_unsafe True cs else CHR ''-'' # replace_unsafe True cs)"

definition strip_of :: "string \<Rightarrow> string \<Rightarrow> string" where
  "strip_of cs s = rev (dropWhile (\<lambda>c. c \<in> set cs) (rev (dropWhile (\<lambda>c. c \<in> set cs) s)))"

definition safe_name :: "string \<Rightarrow> string \<Rightarrow> string" where
  "safe_name value fallback =
     (let cleaned = take 80 (strip_of ''.-'' (replace_unsafe False (py_strip value)))
      in if cleaned = [] then fallback else cleaned)"

definition llm_transcript_filename :: "(string \<Rightarrow> string) \<Rightarrow> string \<Rightarrow> string" where
  "llm_transcript_filename digest i = ''llm_outputs-'' @ take 20 (digest i) @ ''.jsonl''"

definition ahe_event_filename :: "(string \<Rightarrow> string) \<Rightarrow> string \<Rightarrow> string" where
  "ahe_event_filename digest i = ''ahe_events-'' @ take 20 (digest i) @ ''.jsonl''"

datatype temporal_fault = MissingRequestId | IdentityMismatch | BadResumeStep

definition hardware_workflow_id :: "(string \<Rightarrow> string) \<Rightarrow> string \<Rightarrow> (temporal_fault, string) result" where
  "hardware_workflow_id digest request =
     (let value = py_strip request
      in demand (value \<noteq> []) MissingRequestId
           (Inr (''ratsnest-hw-'' @ take 80 (safe_name value ''run'') @ ''-'' @ take 16 (digest value))))"

subsection \<open>Identity\<close>

definition identity_fields :: "string list" where
  "identity_fields =
     [''run_id'', ''requirement_hash'', ''run_name'', ''display_run_name'', ''execution_scope'', ''project_name'',
      ''llm_mode'', ''model_name'', ''model_type'', ''reasoning_effort'', ''vision_model_name'',
      ''strong_model_name'', ''vision_reasoning_effort'', ''strong_reasoning_effort'', ''ahe_budget'',
      ''approved_component_replacements'', ''tenant_id'', ''project_id'', ''principal_id'', ''tenant_scope'',
      ''project_scope'', ''run_scope'', ''harness_version_id'', ''harness_manifest_digest'',
      ''governance_scope_token'', ''resume_from_step'']"

definition canonical_input :: "jdict \<Rightarrow> jdict" where
  "canonical_input input = List.map_filter (\<lambda>f.
     case dget input f of
       None \<Rightarrow> None
     | Some v \<Rightarrow> if f \<in> {''strong_model_name'', ''strong_reasoning_effort''} \<and> v = JNull then None
                 else Some (f, v)) identity_fields"

definition workflow_identity :: "(string \<Rightarrow> string) \<Rightarrow> jdict \<Rightarrow> jdict" where
  "workflow_identity digest input =
     [(''schema_version'', JInt 1), (''digest'', JStr (digest (canonical_json (JObj (canonical_input input)))))]"

definition verify_identity :: "(json \<Rightarrow> string) \<Rightarrow> jdict \<Rightarrow> json \<Rightarrow> (temporal_fault, unit) result" where
  "verify_identity repr expected actual =
     (let e = get_str repr expected ''digest'' [];
          ok = (case actual of
                  JObj a \<Rightarrow> is_one (dget a ''schema_version'') \<and> get_str repr a ''digest'' [] = e
                | _ \<Rightarrow> False)
      in demand (is_one (dget expected ''schema_version'') \<and> e \<noteq> [] \<and> ok) IdentityMismatch (Inr ()))"

subsection \<open>Compact step summaries\<close>

definition list_length :: "json option \<Rightarrow> int" where
  "list_length v = (case v of Some (JArr xs) \<Rightarrow> int (length xs) | _ \<Rightarrow> 0)"

definition compact_body :: "(json \<Rightarrow> string) \<Rightarrow> jdict \<Rightarrow> string \<Rightarrow> jdict" where
  "compact_body repr p expected =
     [(''status'', JStr (get_str repr p ''status'' ''error'')),
      (''outcome'', JStr (get_str repr p ''outcome'' ''execution_blocked'')),
      (''expected_step'', JStr expected),
      (''requested_until_step'', (case dget p ''requested_until_step'' of None \<Rightarrow> JNull | Some v \<Rightarrow> v)),
      (''target_reached'', JBool (is_true (dget p ''step_target_reached''))),
      (''completed_steps'', JInt (get_count p ''completed_steps'')),
      (''total_steps'', JInt (let n = get_count p ''total_steps'' in if n = 0 then 17 else n)),
      (''execution_complete'', JBool (is_true (dget p ''execution_complete''))),
      (''execution_blocked'', JBool (is_true (dget p ''execution_blocked''))),
      (''release_ready'', JBool (is_true (dget p ''release_ready''))),
      (''release_blocker_count'', JInt (list_length (dget p ''release_blockers''))),
      (''issue_count'', JInt (list_length (dget p ''issue_ledger''))),
      (''run_directory'', JStr (get_str repr p ''run_directory'' [])),
      (''pipeline_state_path'', JStr (get_str repr p ''pipeline_state_path'' [])),
      (''pipeline_result_path'', JStr (get_str repr p ''pipeline_result_path'' [])),
      (''artifacts'', JArr (case dget p ''artifacts'' of
         Some (JArr xs) \<Rightarrow> map (\<lambda>x. JStr (py_str repr x)) (take 64 xs) | _ \<Rightarrow> [])),
      (''error'', JStr (get_str repr p ''error'' [])),
      (''error_type'', JStr (get_str repr p ''error_type'' []))]"

definition compact_with_receipt :: "(json \<Rightarrow> string) \<Rightarrow> jdict \<Rightarrow> string \<Rightarrow> jdict" where
  "compact_with_receipt repr p expected =
     compact_body repr p expected @
     (case checkpoint_receipt repr (dget p ''checkpoint_receipt'') of
        None \<Rightarrow> [] | Some r \<Rightarrow> [(''checkpoint_receipt'', receipt_json r)])"

text \<open>\<open>dumps\<close> with the default separators renders the body that is hashed.\<close>

definition compact_pipeline_result ::
  "(string \<Rightarrow> string) \<Rightarrow> (json \<Rightarrow> string) \<Rightarrow> (json \<Rightarrow> string) \<Rightarrow> jdict \<Rightarrow> string \<Rightarrow> jdict" where
  "compact_pipeline_result digest dumps repr p expected =
     (let compact = compact_with_receipt repr p expected
      in compact @ [(''checkpoint_digest'', JStr (digest (dumps (JObj compact))))])"

subsection \<open>Properties\<close>

lemma next_step_after_end: "next_step_after 17 = []"
  by (simp add: next_step_after_def)

text \<open>
  An accepted receipt is well-formed and self-describing: its generation is positive,
  its committed step index is between 0 and 17, the next step is the step at that index
  (none after the last), its digests have digest shape, and writing it back yields a value
  that is accepted as the same receipt.
\<close>

theorem receipt_roundtrip:
  assumes "checkpoint_receipt repr value = Some r"
  shows "1 \<le> rc_generation r \<and> 0 \<le> rc_revision r \<and> 0 \<le> rc_committed r \<and> rc_committed r \<le> 17 \<and>
    rc_next r = (if rc_committed r = 17 then [] else canonical_steps ! nat (rc_committed r)) \<and>
    is_sha256 (rc_state r) \<and> is_sha256 (rc_artifacts r) \<and>
    checkpoint_receipt repr (Some (receipt_json r)) = Some r"
proof -
  obtain d where d: "value = Some (JObj d)" "is_one (dget d ''schema_version'')"
    using assms by (auto simp: checkpoint_receipt_def split: option.splits json.splits if_splits)
  from assms d obtain g v c where ints: "Option.bind (dget d ''generation'') py_int = Some g"
    "Option.bind (dget d ''state_revision'') py_int = Some v" "Option.bind (dget d ''committed_step_index'') py_int = Some c"
    by (auto simp: checkpoint_receipt_def split: option.splits)
  note run = assms[unfolded d(1) checkpoint_receipt_def option.case json.case, simplified d(2) ints]
  have ok: "1 \<le> g" "0 \<le> v" "0 \<le> c" "c \<le> 17" "get_str repr d ''transition_kind'' [] \<in> set transition_kinds"
    "is_sha256 (get_str repr d ''state_sha256'' [])" "is_sha256 (get_str repr d ''artifact_manifest_digest'' [])"
    "get_str repr d ''next_step'' [] = next_step_after c"
    using run by (auto simp: Let_def split: if_splits)
  have r: "r = \<lparr>rc_generation = g, rc_revision = v, rc_committed = c, rc_next = next_step_after c,
     rc_state = get_str repr d ''state_sha256'' [], rc_artifacts = get_str repr d ''artifact_manifest_digest'' [],
     rc_transition = get_str repr d ''transition_kind'' [], rc_parent = get_str repr d ''parent_state_sha256'' [],
     rc_replan = get_str repr d ''replan_id'' []\<rparr>"
    using run ok by (auto simp: Let_def split: if_splits)
  have "checkpoint_receipt repr (Some (receipt_json r)) = Some r"
    using ok unfolding r by (simp add: checkpoint_receipt_def receipt_json_def is_one_def get_str_def Let_def)
  then show ?thesis using ok unfolding r by (simp add: next_step_after_def)
qed

definition sample_receipt :: receipt where
  "sample_receipt = \<lparr>rc_generation = 2, rc_revision = 3, rc_committed = 1, rc_next = ''topology'',
     rc_state = replicate 64 (CHR ''a''), rc_artifacts = replicate 64 (CHR ''0''), rc_transition = ''forward'',
     rc_parent = [], rc_replan = []\<rparr>"

theorem receipt_roundtrip_witness:
  "checkpoint_receipt (\<lambda>_. []) (Some (receipt_json sample_receipt)) = Some sample_receipt \<and>
   rc_next sample_receipt = canonical_steps ! 1"
proof -
  have "checkpoint_receipt (\<lambda>_. []) (Some (receipt_json sample_receipt)) = Some sample_receipt" by code_simp
  moreover have "rc_committed sample_receipt = 1" by (simp add: sample_receipt_def)
  ultimately show ?thesis using receipt_roundtrip[of "\<lambda>_. []" _ sample_receipt] by simp
qed

text \<open>Names.\<close>

lemma replace_unsafe_safe: "list_all safe_char (replace_unsafe b s)"
  by (induction b s rule: replace_unsafe.induct) (auto simp: safe_char_def)

lemma strip_of_subset: "set (strip_of cs s) \<subseteq> set s"
  unfolding strip_of_def by (metis set_dropWhileD set_rev subsetI)

lemma safe_name_safe:
  assumes "list_all safe_char fallback" and "fallback \<noteq> []" and "length fallback \<le> 80"
  shows "list_all safe_char (safe_name v fallback) \<and> safe_name v fallback \<noteq> [] \<and> length (safe_name v fallback) \<le> 80"
proof -
  have "set (take 80 (strip_of ''.-'' (replace_unsafe False (py_strip v)))) \<subseteq> set (replace_unsafe False (py_strip v))"
    using strip_of_subset set_take_subset by (meson order_trans)
  then have "list_all safe_char (take 80 (strip_of ''.-'' (replace_unsafe False (py_strip v))))"
    using replace_unsafe_safe[of False "py_strip v"] by (auto simp: list_all_iff)
  then show ?thesis using assms by (simp add: safe_name_def Let_def)
qed

text \<open>
  A workflow identifier is a bounded file-safe name: at most 109 characters, all
  letters, digits, underscores, dots or dashes, whatever the request id contains; and it
  depends on the request id only up to surrounding white space.
\<close>

theorem workflow_id_safe:
  assumes digest: "\<And>s. list_all safe_char (digest s)"
    and ok: "hardware_workflow_id digest request = Inr i"
  shows "length i \<le> 109 \<and> list_all safe_char i \<and> starts_with i ''ratsnest-hw-'' \<and>
    hardware_workflow_id digest (py_strip request) = Inr i"
proof -
  let ?v = "py_strip request"
  have i: "i = ''ratsnest-hw-'' @ take 80 (safe_name ?v ''run'') @ ''-'' @ take 16 (digest ?v)" and ne: "?v \<noteq> []"
    using ok by (auto simp: hardware_workflow_id_def Let_def result_simps)
  have name: "list_all safe_char (safe_name ?v ''run'')"
    using safe_name_safe[of "''run''" ?v] by (simp add: safe_char_def)
  have "list_all safe_char (take 80 (safe_name ?v ''run''))" "list_all safe_char (take 16 (digest ?v))"
    using name digest[of ?v] by (auto simp: list_all_iff dest: in_set_takeD)
  then have "list_all safe_char i" unfolding i by (simp add: safe_char_def)
  moreover have "length i \<le> 109" unfolding i by simp
  moreover have "starts_with i ''ratsnest-hw-''" unfolding i by (simp add: starts_with_def)
  moreover have "py_strip ?v = ?v"
  proof -
    have idem: "dropWhile P (rev (dropWhile P (rev (dropWhile P s)))) = rev (dropWhile P (rev (dropWhile P s)))"
      for P and s :: string
    proof (cases "rev (dropWhile P (rev (dropWhile P s)))")
      case Nil
      then show ?thesis by (simp only: dropWhile.simps)
    next
      case (Cons c cs)
      have "hd (rev (dropWhile P (rev (dropWhile P s)))) = hd (dropWhile P s)"
      proof -
        have "\<exists>ys. dropWhile P s = rev (dropWhile P (rev (dropWhile P s))) @ ys"
          by (metis rev_append rev_rev_ident takeWhile_dropWhile_id)
        then show ?thesis using Cons by (metis append_Cons list.sel(1))
      qed
      moreover have "dropWhile P s \<noteq> []" by (metis Cons dropWhile.simps(1) list.distinct(1) rev.simps(1))
      ultimately have "\<not> P c" by (metis Cons hd_dropWhile list.sel(1))
      then show ?thesis unfolding Cons by (simp only: dropWhile.simps if_False)
    qed
    show ?thesis unfolding py_strip_def by (simp add: idem)
  qed
  ultimately show ?thesis using i ne by (simp add: hardware_workflow_id_def Let_def)
qed

theorem workflow_id_safe_witness:
  "hardware_workflow_id (\<lambda>_. ''00'') (py_strip '' a/b '') = Inr ''ratsnest-hw-a-b-00'' \<and> list_all safe_char ''ratsnest-hw-a-b-00''"
proof -
  have "hardware_workflow_id (\<lambda>_. ''00'') '' a/b '' = Inr ''ratsnest-hw-a-b-00''" by code_simp
  from workflow_id_safe[OF _ this] show ?thesis by (simp add: safe_char_def)
qed

text \<open>
  Reattachment depends on the business input only. Two inputs that agree on the
  identity fields have the same identity and are accepted for each other, whatever else
  (time limits, retries, order of keys) differs; identities with different digests are
  rejected.
\<close>

theorem identity_attach:
  assumes "\<And>f. f \<in> set identity_fields \<Longrightarrow> dget a f = dget b f"
    and "\<And>s. digest s \<noteq> []"
  shows "workflow_identity digest a = workflow_identity digest b \<and>
    verify_identity repr (workflow_identity digest a) (JObj (workflow_identity digest b)) = Inr () \<and>
    (\<forall>c. dget (workflow_identity digest c) ''digest'' \<noteq> dget (workflow_identity digest a) ''digest'' \<longrightarrow>
       verify_identity repr (workflow_identity digest a) (JObj (workflow_identity digest c)) = Inl IdentityMismatch)"
proof -
  have "canonical_input a = canonical_input b"
    unfolding canonical_input_def List.map_filter_def using assms(1)
    by (intro map_cong filter_cong) auto
  then have same: "workflow_identity digest a = workflow_identity digest b" by (simp add: workflow_identity_def)
  have "verify_identity repr (workflow_identity digest b) (JObj (workflow_identity digest b)) = Inr ()"
    using assms(2) by (simp add: verify_identity_def workflow_identity_def is_one_def get_str_def Let_def)
  moreover have "verify_identity repr (workflow_identity digest b) (JObj (workflow_identity digest c)) = Inl IdentityMismatch"
    if "dget (workflow_identity digest c) ''digest'' \<noteq> dget (workflow_identity digest b) ''digest''" for c
    using that assms(2) by (auto simp: verify_identity_def workflow_identity_def get_str_def Let_def demand_def)
  ultimately show ?thesis using same by simp
qed

theorem identity_attach_witness:
  "workflow_identity (\<lambda>s. ''h'') [(''retry_attempts'', JInt 3)] = workflow_identity (\<lambda>s. ''h'') []"
proof -
  have "dget [(''retry_attempts'', JInt 3)] f = dget ([] :: jdict) f" if "f \<in> set identity_fields" for f
    using that by (auto simp: identity_fields_def)
  from identity_attach[of "[(''retry_attempts'', JInt 3)]" "[]" "\<lambda>s. ''h''"] this show ?thesis by blast
qed

end
