(* ===== verification/Workflow.thy ===== *)
theory Workflow
  imports TemporalContracts Systems Complex_Main
begin

text \<open>
  The durable hardware workflow, \<^verbatim>\<open>src/src/agents/ratsnestpro/temporal/workflow.py\<close>, as a
  state machine. A state is the workflow object, the local variables of \<^verbatim>\<open>run\<close>, the
  suspension point it is at (\<open>control\<close>), and the history of the activities it scheduled.
  A step is the code between two suspension points, taken when an activity completes or
  fails, when a signal arrives, when the wait condition holds, or when the workflow is
  cancelled. Activities and the clock are the environment: their results are arguments.
\<close>

subsection \<open>Input\<close>

datatype wf_fault = BadField string | BadResume

record wf_config =
  cf_retry :: int
  cf_ordinary :: int
  cf_routing :: int
  cf_heartbeat :: int
  cf_timeout :: int
  cf_start :: nat
  cf_resume :: "json option"

definition int_field :: "jdict \<Rightarrow> string \<Rightarrow> int \<Rightarrow> (wf_fault, int) result" where
  "int_field input k dflt =
     (case dget input k of None \<Rightarrow> Inr dflt
      | Some v \<Rightarrow> (case py_int v of None \<Rightarrow> Inl (BadField k) | Some i \<Rightarrow> Inr i))"

fun index_of :: "'a list \<Rightarrow> 'a \<Rightarrow> nat" where
  "index_of [] x = 0"
| "index_of (y # ys) x = (if y = x then 0 else Suc (index_of ys x))"

definition resume_start_index :: "json option \<Rightarrow> (wf_fault, nat) result" where
  "resume_start_index v =
     (case v of
        None \<Rightarrow> Inr 0
      | Some JNull \<Rightarrow> Inr 0
      | Some (JStr s) \<Rightarrow>
          if s = [] then Inr 0
          else if s \<notin> set canonical_steps then Inl BadResume
          else Inr (index_of canonical_steps s)
      | _ \<Rightarrow> Inl BadResume)"

definition config_of :: "jdict \<Rightarrow> (wf_fault, wf_config) result" where
  "config_of input =
     rbind (int_field input ''retry_attempts'' 3) (\<lambda>retry.
     rbind (int_field input ''step_timeout_seconds'' 600) (\<lambda>ordinary.
     rbind (int_field input ''routing_timeout_seconds'' 1800) (\<lambda>routing.
     rbind (int_field input ''heartbeat_seconds'' 15) (\<lambda>heartbeat.
     rbind (int_field input ''workflow_timeout_seconds'' 7200) (\<lambda>total.
     rbind (resume_start_index (dget input ''resume_from_step'')) (\<lambda>start.
       Inr \<lparr>cf_retry = max 1 retry, cf_ordinary = max 1 ordinary,
            cf_routing = max (max 1 ordinary) routing, cf_heartbeat = max 1 heartbeat,
            cf_timeout = max 60 total, cf_start = start,
            cf_resume = (if get_truthy input ''resume_from_step'' then dget input ''resume_from_step'' else None)\<rparr>))))))"

subsection \<open>State\<close>

record wf_progress =
  pg_version :: nat
  pg_status :: string
  pg_phase :: string
  pg_completed :: int
  pg_detail :: string
  pg_attempt :: int
  pg_compensation :: string

record step_command =
  sc_step :: string
  sc_timeout :: int
  sc_start_to_close :: int
  sc_schedule_to_close :: int
  sc_heartbeat :: int
  sc_resume :: "json option"
  sc_manifest :: "(string \<times> string) option"

datatype wf_event =
    StepScheduled step_command
  | StepReturned string jdict
  | CompensationScheduled string int string
  | ResultRequested string
  | CheckpointRequested string

datatype ending = EndCompleted | EndCancelled | EndTimedOut | EndStopped | EndFailed

definition ending_name :: "ending \<Rightarrow> string" where
  "ending_name e = (case e of EndCompleted \<Rightarrow> ''completed'' | EndCancelled \<Rightarrow> ''cancelled''
     | EndTimedOut \<Rightarrow> ''timed_out'' | EndStopped \<Rightarrow> ''stopped'' | EndFailed \<Rightarrow> ''failed'')"

text \<open>An exhausted activity: its message, the messages of its causes, and its retry state.\<close>

record activity_error =
  ae_text :: string
  ae_causes :: "string list"
  ae_retry_state :: string

text \<open>What follows a compensation, and whether the code is still inside the \<open>try\<close>.\<close>

datatype after =
    Finalise ending jdict string
  | FailWith activity_error
  | AfterCancellation

record wf_result =
  wr_ending :: ending
  wr_last_step :: string
  wr_attempt :: int
  wr_completed :: int
  wr_loaded :: "jdict option"
  wr_error :: string
  wr_blockers :: "string list"
  wr_execution_complete :: bool
  wr_release_ready :: bool
  wr_compensation :: "jdict option"

datatype control =
    NotStarted
  | AwaitResume nat
  | AwaitStep nat
  | AwaitCheckpoint activity_error
  | AwaitCompensation after bool
  | AwaitResult ending jdict "jdict option" bool
  | Returned wf_result
  | Raised

record workflow =
  w_paused :: bool
  w_cancel :: bool
  w_progress :: wf_progress
  w_config :: wf_config
  w_deadline :: rat
  w_manifest :: string
  w_digest :: string
  w_last :: jdict
  w_current :: string
  w_control :: control
  w_history :: "wf_event list"

definition no_config :: wf_config where
  "no_config = \<lparr>cf_retry = 1, cf_ordinary = 1, cf_routing = 1, cf_heartbeat = 1, cf_timeout = 60,
     cf_start = 0, cf_resume = None\<rparr>"

definition new_workflow :: workflow where
  "new_workflow =
     \<lparr>w_paused = False, w_cancel = False,
      w_progress = \<lparr>pg_version = 0, pg_status = ''created'', pg_phase = ''not_started'', pg_completed = 0,
        pg_detail = [], pg_attempt = 0, pg_compensation = []\<rparr>,
      w_config = no_config, w_deadline = 0, w_manifest = [], w_digest = [], w_last = [],
      w_current = ''not_started'', w_control = NotStarted, w_history = []\<rparr>"

definition update_progress :: "(wf_progress \<Rightarrow> wf_progress) \<Rightarrow> workflow \<Rightarrow> workflow" where
  "update_progress f w =
     w\<lparr>w_progress := (f (w_progress w))\<lparr>pg_version := pg_version (w_progress w) + 1\<rparr>\<rparr>"

definition log_event :: "wf_event \<Rightarrow> workflow \<Rightarrow> workflow" where
  "log_event e w = w\<lparr>w_history := w_history w @ [e]\<rparr>"

subsection \<open>Signals\<close>

definition request_pause :: "workflow \<Rightarrow> workflow" where
  "request_pause w = update_progress (\<lambda>p. p\<lparr>pg_status := ''paused''\<rparr>) (w\<lparr>w_paused := True\<rparr>)"

definition request_resume :: "workflow \<Rightarrow> workflow" where
  "request_resume w = update_progress (\<lambda>p. p\<lparr>pg_status := ''running''\<rparr>) (w\<lparr>w_paused := False\<rparr>)"

text \<open>Cancelling a running activity is seen as the way its await ends.\<close>

definition request_cancel :: "workflow \<Rightarrow> workflow" where
  "request_cancel w =
     update_progress (\<lambda>p. p\<lparr>pg_status := ''cancel_requested''\<rparr>) (w\<lparr>w_cancel := True, w_paused := False\<rparr>)"

subsection \<open>Failure messages\<close>

definition failure_detail :: "activity_error \<Rightarrow> string" where
  "failure_detail e = foldl (\<lambda>d c. if c = [] then d else c) (ae_text e) (take 8 (ae_causes e))"

definition activity_failure_message :: "activity_error \<Rightarrow> string" where
  "activity_failure_message e =
     (if ae_retry_state e = ''NON_RETRYABLE_FAILURE''
      then ''Temporal Activity failed without retry: '' @ failure_detail e
      else ''Temporal Activity failed after bounded retries: '' @ failure_detail e)"

text \<open>Error, compensation reason, progress detail and blockers.\<close>

definition activity_failure_contract :: "bool \<Rightarrow> activity_error \<Rightarrow> string \<times> string \<times> string \<times> string list" where
  "activity_failure_contract detailed e =
     (if detailed then
        (let m = activity_failure_message e in (m, m, m, [m]))
      else (''Temporal Activity failed after bounded retries: '' @ ae_text e, ''ActivityError: '' @ ae_text e,
            ''activity retries exhausted'', [''Temporal Activity failed after bounded retries'']))"

subsection \<open>Endings\<close>

definition compensate :: "string \<Rightarrow> int \<Rightarrow> string \<Rightarrow> after \<Rightarrow> bool \<Rightarrow> workflow \<Rightarrow> workflow" where
  "compensate step completed reason next in_try w =
     (log_event (CompensationScheduled step completed reason) w)\<lparr>w_control := AwaitCompensation next in_try\<rparr>"

definition text_of :: "jdict \<Rightarrow> string \<Rightarrow> string" where
  "text_of d k = get_str (\<lambda>_. []) d k []"

definition blocked_error :: "jdict \<Rightarrow> string" where
  "blocked_error s = get_str (\<lambda>_. []) s ''error'' ''pipeline stopped without a result file''"

definition final_payload :: "ending \<Rightarrow> jdict \<Rightarrow> jdict option \<Rightarrow> jdict option \<Rightarrow> wf_result" where
  "final_payload e summary compensation loaded =
     \<lparr>wr_ending = e, wr_last_step = text_of summary ''expected_step'',
      wr_attempt = get_count summary ''activity_attempt'', wr_completed = get_count summary ''completed_steps'',
      wr_loaded = loaded, wr_error = blocked_error summary, wr_blockers = [blocked_error summary],
      wr_execution_complete = False, wr_release_ready = False, wr_compensation = compensation\<rparr>"

definition final_result :: "ending \<Rightarrow> jdict \<Rightarrow> jdict option \<Rightarrow> bool \<Rightarrow> workflow \<Rightarrow> workflow" where
  "final_result e summary compensation in_try w =
     (let path = text_of summary ''pipeline_result_path'' in
      if path \<noteq> [] then
        (log_event (ResultRequested path) w)\<lparr>w_control := AwaitResult e summary compensation in_try\<rparr>
      else w\<lparr>w_control := Returned (final_payload e summary compensation None)\<rparr>)"

definition finish_completed :: "workflow \<Rightarrow> workflow" where
  "finish_completed w =
     final_result EndCompleted (w_last w) None True
       (update_progress (\<lambda>p. p\<lparr>pg_status := ''completed'', pg_phase := w_current w,
          pg_completed := int (length canonical_steps)\<rparr>) w)"

subsection \<open>The loop\<close>

text \<open>\<open>int(delta.total_seconds())\<close> truncates towards zero.\<close>

definition whole_seconds :: "rat \<Rightarrow> int" where
  "whole_seconds q = (if q \<ge> 0 then \<lfloor>q\<rfloor> else \<lceil>q\<rceil>)"

definition step_timeout :: "wf_config \<Rightarrow> string \<Rightarrow> int \<Rightarrow> int" where
  "step_timeout c step remaining =
     max 1 (min (if step \<in> set routing_steps then cf_routing c else cf_ordinary c) (remaining - 60))"

definition schedule_budget :: "wf_config \<Rightarrow> int \<Rightarrow> int \<Rightarrow> int" where
  "schedule_budget c timeout remaining =
     max (timeout + 30) (min ((timeout + 30) * cf_retry c + 120) (remaining - 30))"

definition step_command_of :: "workflow \<Rightarrow> string \<Rightarrow> int \<Rightarrow> step_command" where
  "step_command_of w step remaining =
     (let c = w_config w; timeout = step_timeout c step remaining
      in \<lparr>sc_step = step, sc_timeout = timeout, sc_start_to_close = timeout + 30,
          sc_schedule_to_close = schedule_budget c timeout remaining,
          sc_heartbeat = min (cf_heartbeat c * 2) timeout, sc_resume = cf_resume c,
          sc_manifest = (if w_manifest w = [] then None else Some (w_manifest w, w_digest w))\<rparr>)"

definition start_step :: "nat \<Rightarrow> int \<Rightarrow> workflow \<Rightarrow> workflow" where
  "start_step i remaining w =
     (let step = canonical_steps ! i;
          w1 = update_progress (\<lambda>p. p\<lparr>pg_status := ''running'', pg_phase := step,
                 pg_detail := ''step '' @ nat_str (i + 1) @ ''/17''\<rparr>) w
      in (log_event (StepScheduled (step_command_of w step remaining)) w1)\<lparr>w_control := AwaitStep i\<rparr>)"

definition timeout_summary :: "string \<Rightarrow> jdict \<Rightarrow> jdict" where
  "timeout_summary step s =
     dset ''error_type'' (JStr ''workflow_timeout'')
       (dset ''error'' (JStr ''Hardware workflow reached its bounded execution deadline'')
         (dset ''expected_step'' (JStr step) s))"

text \<open>The body of an iteration after the pause check, up to its first suspension.\<close>

definition loop_body :: "nat \<Rightarrow> rat \<Rightarrow> workflow \<Rightarrow> workflow" where
  "loop_body i now w =
     (let step = canonical_steps ! i in
      if w_cancel w then
        compensate step (get_count (w_last w) ''completed_steps'') ''cancel requested through workflow signal''
          (Finalise EndCancelled (w_last w) step) True w
      else
        (let w1 = w\<lparr>w_current := step\<rparr>; remaining = whole_seconds (w_deadline w - now) in
         if remaining \<le> 60 then
           (let s = timeout_summary step (w_last w)
            in compensate step (get_count s ''completed_steps'') ''bounded workflow deadline reached''
                 (Finalise EndTimedOut s step) True (w1\<lparr>w_last := s\<rparr>))
         else start_step i remaining w1))"

definition loop_head :: "nat \<Rightarrow> rat \<Rightarrow> workflow \<Rightarrow> workflow" where
  "loop_head i now w =
     (if length canonical_steps \<le> i then finish_completed w
      else if w_paused w then w\<lparr>w_control := AwaitResume i\<rparr>
      else loop_body i now w)"

definition start_run :: "rat \<Rightarrow> jdict \<Rightarrow> workflow \<Rightarrow> workflow" where
  "start_run now input w =
     (case config_of input of
        Inl _ \<Rightarrow> w\<lparr>w_control := Raised\<rparr>
      | Inr c \<Rightarrow>
          (let i = cf_start c; step = (if i = 0 then ''not_started'' else canonical_steps ! i);
               w1 = w\<lparr>w_config := c, w_deadline := now + of_int (cf_timeout c), w_manifest := [], w_digest := [],
                      w_last := [(''completed_steps'', JInt (int i)), (''run_directory'', JStr []),
                                 (''expected_step'', JStr [])],
                      w_current := step\<rparr>;
               w2 = update_progress (\<lambda>p. p\<lparr>pg_status := ''running'', pg_phase := step, pg_completed := int i,
                      pg_detail := (if i = 0 then ''starting pipeline''
                                    else ''resuming from step '' @ nat_str (i + 1) @ ''/17'')\<rparr>) w1
           in loop_head i now w2))"

definition stop_requested :: "jdict \<Rightarrow> bool" where
  "stop_requested s =
     (dget s ''status'' = Some (JStr ''error'') \<or> is_true (dget s ''execution_blocked'') \<or>
      \<not> get_truthy s ''target_reached'')"

definition step_returned :: "nat \<Rightarrow> rat \<Rightarrow> jdict \<Rightarrow> workflow \<Rightarrow> workflow" where
  "step_returned i now s w =
     (let step = canonical_steps ! i; completed = get_count s ''completed_steps'';
          w1 = log_event (StepReturned step s)
                 (w\<lparr>w_last := s, w_manifest := get_str (\<lambda>_. []) s ''manifest_path'' (w_manifest w),
                    w_digest := get_str (\<lambda>_. []) s ''manifest_digest'' (w_digest w)\<rparr>);
          w2 = update_progress (\<lambda>p. p\<lparr>pg_status := ''checkpointed'', pg_phase := step, pg_completed := completed,
                 pg_attempt := get_count s ''activity_attempt''\<rparr>) w1
      in if w_cancel w2 then
           compensate step completed ''cancel requested after checkpoint completion''
             (Finalise EndCancelled s step) True w2
         else if stop_requested s then
           compensate step completed ''pipeline returned an execution stop'' (Finalise EndStopped s step) True w2
         else loop_head (i + 1) now w2)"

subsection \<open>Exceptions\<close>

definition activity_failed :: "activity_error \<Rightarrow> workflow \<Rightarrow> workflow" where
  "activity_failed e w =
     (log_event (CheckpointRequested (text_of (w_last w) ''pipeline_state_path'')) w)\<lparr>w_control := AwaitCheckpoint e\<rparr>"

text \<open>\<^verbatim>\<open>_reconcile_checkpoint\<close>: \<open>latest\<close> is \<open>None\<close> when the activity raised.\<close>

definition receipt_generation :: "jdict \<Rightarrow> int" where
  "receipt_generation d =
     (case dget d ''checkpoint_receipt'' of Some (JObj r) \<Rightarrow> get_count r ''generation'' | _ \<Rightarrow> 0)"

definition dict_update :: "jdict \<Rightarrow> jdict \<Rightarrow> jdict" where
  "dict_update a b = foldl (\<lambda>d (k, v). dset k v d) a b"

definition reconcile :: "jdict \<Rightarrow> jdict option \<Rightarrow> jdict" where
  "reconcile summary latest =
     (case latest of
        None \<Rightarrow> summary
      | Some l \<Rightarrow>
          if dget l ''status'' \<notin> {Some (JStr ''ok''), Some (JStr ''legacy'')} then summary
          else if receipt_generation l \<noteq> 0 \<and> receipt_generation l < receipt_generation summary then summary
          else dict_update summary l)"

definition checkpoint_read :: "bool \<Rightarrow> activity_error \<Rightarrow> jdict option \<Rightarrow> workflow \<Rightarrow> workflow" where
  "checkpoint_read detailed e latest w =
     (let s = reconcile (w_last w) latest; w1 = w\<lparr>w_last := s\<rparr>; completed = get_count s ''completed_steps'' in
      if w_cancel w then
        compensate (w_current w) completed ''cancel signal interrupted the current Activity''
          (Finalise EndCancelled s (w_current w)) False w1
      else
        compensate (w_current w) completed (fst (snd (activity_failure_contract detailed e))) (FailWith e) False w1)"

definition cancelled_error :: "workflow \<Rightarrow> workflow" where
  "cancelled_error w =
     compensate (w_current w) (get_count (w_last w) ''completed_steps'')
       (if w_cancel w then ''cancel signal interrupted the current Activity'' else ''Temporal workflow cancellation'')
       AfterCancellation False w"

definition failed_result :: "bool \<Rightarrow> activity_error \<Rightarrow> jdict \<Rightarrow> workflow \<Rightarrow> wf_result" where
  "failed_result detailed e compensation w =
     (case activity_failure_contract detailed e of (err, _, _, blockers) \<Rightarrow>
        \<lparr>wr_ending = EndFailed, wr_last_step = w_current w, wr_attempt = 0,
         wr_completed = get_count (w_last w) ''completed_steps'', wr_loaded = None, wr_error = err,
         wr_blockers = blockers, wr_execution_complete = False, wr_release_ready = False,
         wr_compensation = Some compensation\<rparr>)"

definition compensated :: "bool \<Rightarrow> after \<Rightarrow> bool \<Rightarrow> jdict \<Rightarrow> workflow \<Rightarrow> workflow" where
  "compensated detailed next in_try c w =
     (case next of
        Finalise e s step \<Rightarrow>
          final_result e s (Some c) in_try
            (update_progress (\<lambda>p. p\<lparr>pg_status := ending_name e, pg_phase := step\<rparr>) w)
      | FailWith e \<Rightarrow>
          (update_progress (\<lambda>p. p\<lparr>pg_status := ''failed'', pg_phase := w_current w,
             pg_completed := get_count (w_last w) ''completed_steps'',
             pg_detail := fst (snd (snd (activity_failure_contract detailed e)))\<rparr>) w)
            \<lparr>w_control := Returned (failed_result detailed e c w)\<rparr>
      | AfterCancellation \<Rightarrow>
          if w_cancel w then
            final_result EndCancelled (w_last w) (Some c) False
              (update_progress (\<lambda>p. p\<lparr>pg_status := ''cancelled'', pg_phase := w_current w\<rparr>) w)
          else
            (update_progress (\<lambda>p. p\<lparr>pg_status := ''cancelled'', pg_phase := w_current w,
               pg_compensation := get_str (\<lambda>_. []) c ''status'' ''unknown''\<rparr>) w)\<lparr>w_control := Raised\<rparr>)"

definition result_read :: "ending \<Rightarrow> jdict \<Rightarrow> jdict option \<Rightarrow> jdict \<Rightarrow> workflow \<Rightarrow> workflow" where
  "result_read e s compensation payload w =
     w\<lparr>w_control := Returned (final_payload e s compensation (Some payload))\<rparr>"

text \<open>Where a cancellation of the workflow is caught by \<open>run\<close>'s own handler.\<close>

fun in_try :: "control \<Rightarrow> bool" where
  "in_try (AwaitResume i) = True"
| "in_try (AwaitStep i) = True"
| "in_try (AwaitCompensation n b) = b"
| "in_try (AwaitResult e s c b) = b"
| "in_try _ = False"

fun suspended_in_handler :: "control \<Rightarrow> bool" where
  "suspended_in_handler (AwaitCheckpoint e) = True"
| "suspended_in_handler (AwaitCompensation n b) = (\<not> b)"
| "suspended_in_handler (AwaitResult e s c b) = (\<not> b)"
| "suspended_in_handler _ = False"

fun finished :: "control \<Rightarrow> bool" where
  "finished (Returned r) = True"
| "finished Raised = True"
| "finished _ = False"

inductive wf_step :: "bool \<Rightarrow> workflow \<Rightarrow> workflow \<Rightarrow> bool" for detailed where
  wf_pause: "\<not> finished (w_control w) \<Longrightarrow> wf_step detailed w (request_pause w)"
| wf_resume: "\<not> finished (w_control w) \<Longrightarrow> wf_step detailed w (request_resume w)"
| wf_cancel: "\<not> finished (w_control w) \<Longrightarrow> wf_step detailed w (request_cancel w)"
| wf_start: "w_control w = NotStarted \<Longrightarrow> wf_step detailed w (start_run now input w)"
| wf_continue: "w_control w = AwaitResume i \<Longrightarrow> \<not> w_paused w \<or> w_cancel w \<Longrightarrow>
    wf_step detailed w (loop_body i now w)"
| wf_returned: "w_control w = AwaitStep i \<Longrightarrow> wf_step detailed w (step_returned i now s w)"
| wf_failed: "w_control w = AwaitStep i \<Longrightarrow> wf_step detailed w (activity_failed e w)"
| wf_cancelled: "in_try (w_control w) \<Longrightarrow> wf_step detailed w (cancelled_error w)"
| wf_raise: "suspended_in_handler (w_control w) \<Longrightarrow> wf_step detailed w (w\<lparr>w_control := Raised\<rparr>)"
| wf_checkpoint: "w_control w = AwaitCheckpoint e \<Longrightarrow> wf_step detailed w (checkpoint_read detailed e latest w)"
| wf_compensated: "w_control w = AwaitCompensation n b \<Longrightarrow> wf_step detailed w (compensated detailed n b c w)"
| wf_loaded: "w_control w = AwaitResult e s c b \<Longrightarrow> wf_step detailed w (result_read e s c payload w)"
| wf_unreadable: "w_control w = AwaitResult e s c True \<Longrightarrow> wf_step detailed w (activity_failed x w)"

definition initial_workflow :: "workflow \<Rightarrow> bool" where
  "initial_workflow w = (w = new_workflow)"

subsection \<open>Invariant\<close>

fun scheduled :: "wf_event list \<Rightarrow> string list" where
  "scheduled [] = []"
| "scheduled (StepScheduled c # es) = sc_step c # scheduled es"
| "scheduled (_ # es) = scheduled es"

fun returned :: "wf_event list \<Rightarrow> (string \<times> jdict) list" where
  "returned [] = []"
| "returned (StepReturned s d # es) = (s, d) # returned es"
| "returned (_ # es) = returned es"

fun compensations :: "wf_event list \<Rightarrow> nat" where
  "compensations [] = 0"
| "compensations (CompensationScheduled s n r # es) = Suc (compensations es)"
| "compensations (_ # es) = compensations es"

lemma history_append [simp]:
  "scheduled (h @ h') = scheduled h @ scheduled h'"
  "returned (h @ h') = returned h @ returned h'"
  "compensations (h @ h') = compensations h + compensations h'"
proof (induction h)
  case (Cons e h)
  case 1 show ?case using Cons by (cases e) simp_all
  case 2 show ?case using Cons by (cases e) simp_all
  case 3 show ?case using Cons by (cases e) simp_all
qed simp_all

definition planned_steps :: "workflow \<Rightarrow> string list" where
  "planned_steps w = drop (cf_start (w_config w)) canonical_steps"

definition prefix_ok :: "workflow \<Rightarrow> bool" where
  "prefix_ok w = (\<exists>n. scheduled (w_history w) = take n (planned_steps w))"

definition all_good :: "workflow \<Rightarrow> bool" where
  "all_good w = (\<forall>(s, d) \<in> set (returned (w_history w)). \<not> stop_requested d)"

text \<open>\<open>i\<close> steps from the first one have returned well and \<open>j\<close> have been scheduled.\<close>

definition running_ok :: "nat \<Rightarrow> nat \<Rightarrow> workflow \<Rightarrow> bool" where
  "running_ok i j w =
     (cf_start (w_config w) \<le> i \<and> i \<le> 17 \<and> all_good w \<and>
      scheduled (w_history w) = take (j - cf_start (w_config w)) (planned_steps w) \<and>
      map fst (returned (w_history w)) = take (i - cf_start (w_config w)) (planned_steps w))"

definition all_done :: "workflow \<Rightarrow> bool" where
  "all_done w = (all_good w \<and> map fst (returned (w_history w)) = planned_steps w)"

definition ending_ok :: "ending \<Rightarrow> jdict option \<Rightarrow> workflow \<Rightarrow> bool" where
  "ending_ok e c w = (prefix_ok w \<and> (e = EndCompleted \<longrightarrow> all_done w) \<and>
     (e \<noteq> EndCompleted \<longrightarrow> 0 < compensations (w_history w) \<and> c \<noteq> None))"

definition after_ok :: "after \<Rightarrow> bool" where
  "after_ok n = (case n of Finalise e _ _ \<Rightarrow> e \<noteq> EndCompleted | _ \<Rightarrow> True)"

definition wf_inv :: "workflow \<Rightarrow> bool" where
  "wf_inv w =
     (case w_control w of
        NotStarted \<Rightarrow> w_history w = []
      | AwaitResume i \<Rightarrow> i < 17 \<and> running_ok i i w
      | AwaitStep i \<Rightarrow> i < 17 \<and> running_ok i (i + 1) w
      | AwaitCheckpoint e \<Rightarrow> prefix_ok w
      | AwaitCompensation n b \<Rightarrow> prefix_ok w \<and> 0 < compensations (w_history w) \<and> after_ok n
      | AwaitResult e s c b \<Rightarrow> ending_ok e c w
      | Returned r \<Rightarrow> ending_ok (wr_ending r) (wr_compensation r) w
      | Raised \<Rightarrow> prefix_ok w)"

lemma frame_simps [simp]:
  "w_history (update_progress f w) = w_history w" "w_config (update_progress f w) = w_config w"
  "w_control (update_progress f w) = w_control w" "w_cancel (update_progress f w) = w_cancel w"
  "w_paused (update_progress f w) = w_paused w" "w_last (update_progress f w) = w_last w"
  "w_current (update_progress f w) = w_current w" "w_deadline (update_progress f w) = w_deadline w"
  "w_history (log_event e w) = w_history w @ [e]" "w_config (log_event e w) = w_config w"
  "w_cancel (log_event e w) = w_cancel w" "w_paused (log_event e w) = w_paused w"
  "w_last (log_event e w) = w_last w"
  by (simp_all add: update_progress_def log_event_def)

lemma same_history:
  assumes "w_history w' = w_history w" and "w_config w' = w_config w"
  shows "prefix_ok w' = prefix_ok w" "all_good w' = all_good w" "running_ok i j w' = running_ok i j w"
    "all_done w' = all_done w" "ending_ok e c w' = ending_ok e c w"
  using assms by (simp_all add: prefix_ok_def all_good_def running_ok_def all_done_def ending_ok_def planned_steps_def)

lemma running_prefix: "running_ok i j w \<Longrightarrow> prefix_ok w"
  by (auto simp: running_ok_def prefix_ok_def)

lemma compensate_inv: "prefix_ok w \<Longrightarrow> after_ok n \<Longrightarrow> wf_inv (compensate s c r n b w)"
  by (simp add: compensate_def wf_inv_def prefix_ok_def planned_steps_def)

lemma final_result_inv: "ending_ok e c w \<Longrightarrow> wf_inv (final_result e s c b w)"
  by (auto simp: final_result_def wf_inv_def ending_ok_def prefix_ok_def all_done_def all_good_def planned_steps_def
      final_payload_def Let_def)

lemma finish_completed_inv:
  assumes "running_ok 17 j w"
  shows "wf_inv (finish_completed w)"
proof -
  have "length (planned_steps w) = 17 - cf_start (w_config w)" by (simp add: planned_steps_def)
  then have "all_done w" using assms by (simp add: running_ok_def all_done_def)
  then show ?thesis unfolding finish_completed_def using running_prefix[OF assms]
    by (intro final_result_inv) (simp add: ending_ok_def same_history[of "update_progress _ w" w])
qed

lemma take_next: "start \<le> i \<Longrightarrow> i < length xs \<Longrightarrow> take (Suc i - start) (drop start xs) = take (i - start) (drop start xs) @ [xs ! i]"
  by (simp add: Suc_diff_le take_Suc_conv_app_nth)

lemma start_step_inv:
  assumes "running_ok i i w" and "i < 17"
  shows "wf_inv (start_step i r w)"
  using assms take_next[of "cf_start (w_config w)" i canonical_steps]
  by (simp add: start_step_def wf_inv_def running_ok_def all_good_def planned_steps_def step_command_of_def Let_def)

lemma loop_body_inv:
  assumes "running_ok i i w" and "i < 17"
  shows "wf_inv (loop_body i now w)"
proof -
  have p: "prefix_ok w" by (rule running_prefix[OF assms(1)])
  have "wf_inv (start_step i r (w\<lparr>w_current := x\<rparr>))" for r x
    by (rule start_step_inv) (use assms same_history[of "w\<lparr>w_current := x\<rparr>" w] in simp_all)
  moreover have "prefix_ok (w\<lparr>w_current := x, w_last := y\<rparr>)" for x y
    using p same_history(1)[of "w\<lparr>w_current := x, w_last := y\<rparr>" w] by simp
  ultimately show ?thesis using p
    by (auto simp: loop_body_def Let_def after_ok_def intro!: compensate_inv)
qed

lemma loop_head_inv:
  assumes "running_ok i i w" and "i \<le> 17"
  shows "wf_inv (loop_head i now w)"
proof (cases "i = 17")
  case True
  then show ?thesis using finish_completed_inv[of i w] assms by (simp add: loop_head_def)
next
  case False
  then have i: "i < 17" using assms(2) by simp
  have "running_ok i i (w\<lparr>w_control := AwaitResume i\<rparr>)"
    using assms(1) same_history(3)[of "w\<lparr>w_control := AwaitResume i\<rparr>" w] by simp
  then have "wf_inv (w\<lparr>w_control := AwaitResume i\<rparr>)" using i by (simp add: wf_inv_def)
  then show ?thesis using i loop_body_inv[OF assms(1) i] by (simp add: loop_head_def)
qed

lemma start_run_inv: "w_history w = [] \<Longrightarrow> wf_inv (start_run now input w)"
proof (cases "config_of input")
  case (Inl e)
  assume "w_history w = []"
  then show ?thesis using Inl by (simp add: start_run_def wf_inv_def prefix_ok_def)
next
  case (Inr c)
  assume h: "w_history w = []"
  have "cf_start c \<le> 17"
  proof -
    have "index_of xs x \<le> length xs" for xs :: "string list" and x by (induction xs) auto
    then have "index_of canonical_steps s \<le> 17" for s by (metis length_canonical_steps)
    then have "v \<le> 17" if "resume_start_index r = Inr v" for r v
      using that by (auto simp: resume_start_index_def split: option.splits json.splits if_splits)
    then show ?thesis using Inr by (auto simp: config_of_def result_simps)
  qed
  then show ?thesis unfolding start_run_def Inr Let_def sum.case
    by (intro loop_head_inv) (simp_all add: running_ok_def all_good_def h)
qed

lemma step_returned_inv:
  assumes "running_ok i (i + 1) w" and "i < 17"
  shows "wf_inv (step_returned i now s w)"
proof -
  let ?w = "update_progress (\<lambda>p. p\<lparr>pg_status := ''checkpointed'', pg_phase := canonical_steps ! i,
      pg_completed := get_count s ''completed_steps'', pg_attempt := get_count s ''activity_attempt''\<rparr>)
    (log_event (StepReturned (canonical_steps ! i) s)
      (w\<lparr>w_last := s, w_manifest := get_str (\<lambda>_. []) s ''manifest_path'' (w_manifest w),
         w_digest := get_str (\<lambda>_. []) s ''manifest_digest'' (w_digest w)\<rparr>))"
  have p: "prefix_ok ?w" using running_prefix[OF assms(1)] by (simp add: prefix_ok_def planned_steps_def)
  have "running_ok (i + 1) (i + 1) ?w" if "\<not> stop_requested s"
    using that assms take_next[of "cf_start (w_config w)" i canonical_steps]
    by (simp add: running_ok_def all_good_def planned_steps_def)
  then have "wf_inv (loop_head (i + 1) now ?w)" if "\<not> stop_requested s"
    using that assms(2) by (intro loop_head_inv) simp_all
  moreover have "wf_inv (compensate x n r (Finalise e s x) True ?w)" if "e \<noteq> EndCompleted" for x n r e
    by (rule compensate_inv[OF p]) (simp add: after_ok_def that)
  ultimately show ?thesis unfolding step_returned_def Let_def by simp
qed

lemma checkpoint_read_inv: "prefix_ok w \<Longrightarrow> wf_inv (checkpoint_read detailed e latest w)"
  unfolding checkpoint_read_def Let_def
  by (auto intro!: compensate_inv simp: after_ok_def same_history(1)[of "w\<lparr>w_last := reconcile (w_last w) latest\<rparr>" w])

lemma activity_failed_inv: "prefix_ok w \<Longrightarrow> wf_inv (activity_failed e w)"
  by (simp add: activity_failed_def wf_inv_def prefix_ok_def planned_steps_def)

lemma compensated_inv:
  assumes "prefix_ok w" and "0 < compensations (w_history w)" and "after_ok n"
  shows "wf_inv (compensated detailed n b c w)"
proof (cases n)
  case (Finalise e s step)
  have "ending_ok e (Some c) (update_progress f w)" for f
    using assms Finalise same_history[of "update_progress f w" w] by (simp add: ending_ok_def after_ok_def)
  then show ?thesis using Finalise final_result_inv by (simp add: compensated_def)
next
  case (FailWith e)
  then show ?thesis using assms same_history(1)[of _ w]
    by (simp add: compensated_def wf_inv_def ending_ok_def failed_result_def prefix_ok_def planned_steps_def
        split: prod.splits)
next
  case AfterCancellation
  have "ending_ok EndCancelled (Some c) (update_progress f w)" for f
    using assms same_history[of "update_progress f w" w] by (simp add: ending_ok_def)
  moreover have "wf_inv ((update_progress f w)\<lparr>w_control := Raised\<rparr>)" for f
    using assms(1) by (simp add: wf_inv_def prefix_ok_def planned_steps_def)
  ultimately show ?thesis using AfterCancellation final_result_inv by (simp add: compensated_def)
qed

lemma wf_inv_prefix: "wf_inv w \<Longrightarrow> w_control w \<noteq> NotStarted \<Longrightarrow> prefix_ok w"
  by (auto simp: wf_inv_def ending_ok_def intro: running_prefix split: control.splits)

lemma wf_inv_same:
  assumes "w_history w' = w_history w" and "w_config w' = w_config w" and "w_control w' = w_control w"
  shows "wf_inv w' = wf_inv w"
  using assms same_history[OF assms(1,2)] by (simp add: wf_inv_def split: control.splits)

lemma wf_step_inv: "wf_step detailed w w' \<Longrightarrow> wf_inv w \<Longrightarrow> wf_inv w'"
proof (induction rule: wf_step.induct)
  case (wf_pause w)
  then show ?case using wf_inv_same[of "request_pause w" w] by (simp add: request_pause_def)
next
  case (wf_resume w)
  then show ?case using wf_inv_same[of "request_resume w" w] by (simp add: request_resume_def)
next
  case (wf_cancel w)
  then show ?case using wf_inv_same[of "request_cancel w" w] by (simp add: request_cancel_def)
next
  case (wf_start w now input)
  then show ?case by (intro start_run_inv) (simp add: wf_inv_def)
next
  case (wf_continue w i now)
  then show ?case by (intro loop_body_inv) (simp_all add: wf_inv_def)
next
  case (wf_returned w i now s)
  then show ?case by (intro step_returned_inv) (simp_all add: wf_inv_def)
next
  case (wf_failed w i e)
  then show ?case by (intro activity_failed_inv wf_inv_prefix) simp_all
next
  case (wf_cancelled w)
  then have "prefix_ok w" by (intro wf_inv_prefix) auto
  then show ?case unfolding cancelled_error_def by (rule compensate_inv) (simp add: after_ok_def)
next
  case (wf_raise w)
  then have "prefix_ok w" by (intro wf_inv_prefix) auto
  then show ?case by (simp add: wf_inv_def prefix_ok_def planned_steps_def)
next
  case (wf_checkpoint w e latest)
  then show ?case by (intro checkpoint_read_inv wf_inv_prefix) simp_all
next
  case (wf_compensated w n b c)
  then show ?case by (intro compensated_inv) (simp_all add: wf_inv_def)
next
  case (wf_loaded w e s c b payload)
  then have "ending_ok e c w" by (simp add: wf_inv_def)
  then show ?case
    by (simp add: result_read_def wf_inv_def final_payload_def ending_ok_def prefix_ok_def all_done_def
        all_good_def planned_steps_def)
next
  case (wf_unreadable w e s c x)
  then show ?case by (intro activity_failed_inv wf_inv_prefix) simp_all
qed

lemma wf_step_version:
  "wf_step detailed w w' \<Longrightarrow> pg_version (w_progress w) \<le> pg_version (w_progress w')"
proof (induction rule: wf_step.induct)
qed (auto simp: request_pause_def request_resume_def request_cancel_def start_run_def loop_head_def loop_body_def
  start_step_def step_returned_def activity_failed_def cancelled_error_def checkpoint_read_def compensated_def
  compensate_def finish_completed_def final_result_def result_read_def update_progress_def log_event_def Let_def
  split: sum.splits after.splits)

lemma wf_init_inv: "initial_workflow w \<Longrightarrow> wf_inv w"
  by (simp add: initial_workflow_def new_workflow_def wf_inv_def)

interpretation hw: monotone_system initial_workflow "wf_step detailed" wf_inv "\<lambda>w. pg_version (w_progress w)"
  for detailed
  by unfold_locales (blast intro: wf_init_inv wf_step_inv wf_step_version)+

lemma cancelled_schedules_nothing:
  "wf_step detailed w w' \<Longrightarrow> w_cancel w \<Longrightarrow> scheduled (w_history w') = scheduled (w_history w) \<and> w_cancel w'"
proof (induction rule: wf_step.induct)
qed (auto simp: request_pause_def request_resume_def request_cancel_def start_run_def loop_head_def loop_body_def
  step_returned_def activity_failed_def cancelled_error_def checkpoint_read_def compensated_def
  compensate_def finish_completed_def final_result_def result_read_def Let_def
  split: sum.splits after.splits)

subsection \<open>A concrete execution, for the witnesses\<close>

definition sample_input :: jdict where
  "sample_input = [(''resume_from_step'', JStr ''manufacture''), (''workflow_timeout_seconds'', JInt 600)]"

definition sample_summary :: jdict where
  "sample_summary = [(''status'', JStr ''success''), (''target_reached'', JBool True), (''completed_steps'', JInt 17)]"

definition sample_w1 :: workflow where "sample_w1 = start_run 0 sample_input new_workflow"
definition sample_w2 :: workflow where "sample_w2 = step_returned 16 100 sample_summary sample_w1"
definition sample_w3 :: workflow where "sample_w3 = request_cancel sample_w1"

abbreviation wf_reach :: "workflow \<Rightarrow> bool" where
  "wf_reach \<equiv> reach initial_workflow (wf_step True)"

lemma sample_w1_reach: "wf_reach sample_w1"
  unfolding sample_w1_def
  by (rule reach.advance[OF reach.initial[of initial_workflow]])
     (simp add: initial_workflow_def, rule wf_start, simp add: new_workflow_def)

lemma sample_w1_control: "w_control sample_w1 = AwaitStep 16" "w_cancel sample_w1 = False"
  by code_simp+

lemma sample_w2_reach: "wf_reach sample_w2"
  unfolding sample_w2_def by (rule reach.advance[OF sample_w1_reach wf_returned]) (rule sample_w1_control)

definition sample_result :: wf_result where
  "sample_result = final_payload EndCompleted sample_summary None None"

lemma sample_w2_control: "w_control sample_w2 = Returned sample_result" "cf_start (w_config sample_w2) = 16"
  by code_simp+

lemma sample_w3_reach: "wf_reach sample_w3"
  unfolding sample_w3_def
  by (rule reach.advance[OF sample_w1_reach wf_cancel]) (simp add: sample_w1_control)

subsection \<open>Properties\<close>

text \<open>
  C3: the activities of a run are scheduled in the canonical order, from the step it
  resumes from, each at most once and none skipped, whatever signals and failures
  interleave with them.
\<close>

theorem steps_in_canonical_order:
  assumes "reach initial_workflow (wf_step detailed) w"
  shows "(\<exists>n. scheduled (w_history w) = take n (drop (cf_start (w_config w)) canonical_steps)) \<and>
    distinct (scheduled (w_history w))"
proof -
  have inv: "wf_inv w" by (rule hw.reach_inv[OF assms])
  have "prefix_ok w"
  proof (cases "w_control w = NotStarted")
    case True
    then have "scheduled (w_history w) = take 0 (planned_steps w)" using inv by (simp add: wf_inv_def)
    then show ?thesis unfolding prefix_ok_def by blast
  next
    case False
    then show ?thesis by (rule wf_inv_prefix[OF inv])
  qed
  then obtain n where "scheduled (w_history w) = take n (drop (cf_start (w_config w)) canonical_steps)"
    by (auto simp: prefix_ok_def planned_steps_def)
  then show ?thesis using distinct_canonical_steps by (auto intro: distinct_take distinct_drop)
qed

theorem steps_in_canonical_order_witness: "distinct (scheduled (w_history sample_w1))"
  using steps_in_canonical_order[OF sample_w1_reach] by blast

text \<open>
  C18: a run reports "completed" only if every remaining canonical step returned, each
  having reached its target without an error and without blocking; every other ending was
  compensated first, and its result carries the outcome of the compensation.
\<close>

theorem completion_sound:
  assumes "reach initial_workflow (wf_step detailed) w" and "w_control w = Returned r"
  shows "(wr_ending r = EndCompleted \<longrightarrow>
      map fst (returned (w_history w)) = drop (cf_start (w_config w)) canonical_steps \<and>
      (\<forall>(step, s) \<in> set (returned (w_history w)). \<not> stop_requested s)) \<and>
    (wr_ending r \<noteq> EndCompleted \<longrightarrow> 0 < compensations (w_history w) \<and> wr_compensation r \<noteq> None)"
  using hw.reach_inv[OF assms(1)] assms(2)
  by (simp add: wf_inv_def ending_ok_def all_done_def all_good_def planned_steps_def)

theorem completion_sound_witness: "map fst (returned (w_history sample_w2)) = [''manufacture'']"
  using completion_sound[OF sample_w2_reach sample_w2_control(1)]
  by (simp add: sample_w2_control(2) sample_result_def final_payload_def canonical_steps_def)

text \<open>
  Cancellation is prompt and final: once cancellation is requested, no further step
  is ever scheduled, and the request is never lost.
\<close>

theorem cancel_schedules_nothing:
  assumes "(wf_step detailed)\<^sup>*\<^sup>* w w'" and "w_cancel w"
  shows "scheduled (w_history w') = scheduled (w_history w) \<and> w_cancel w'"
  using assms by (induction rule: rtranclp_induct) (auto dest: cancelled_schedules_nothing)

theorem cancel_schedules_nothing_witness:
  "scheduled (w_history (step_returned 16 5 sample_summary sample_w3)) = scheduled (w_history sample_w3)"
proof -
  have c: "w_control sample_w3 = AwaitStep 16" "w_cancel sample_w3" by code_simp+
  have "(wf_step True)\<^sup>*\<^sup>* sample_w3 (step_returned 16 5 sample_summary sample_w3)"
    by (rule r_into_rtranclp) (rule wf_returned[OF c(1)])
  from cancel_schedules_nothing[OF this c(2)] show ?thesis by blast
qed

text \<open>
  The time given to a step fits the deadline. With the configuration of any accepted
  input, a step that is started has a positive limit no larger than the one configured for
  it, its attempt limit fits its overall limit, and the overall limit ends at least 30
  seconds before the deadline of the workflow.
\<close>

theorem step_time_fits_deadline:
  assumes "config_of input = Inr c" and "60 < remaining" and "w_config w = c"
  shows "1 \<le> sc_timeout (step_command_of w step remaining) \<and>
    sc_timeout (step_command_of w step remaining) \<le>
      (if step \<in> set routing_steps then cf_routing c else cf_ordinary c) \<and>
    sc_start_to_close (step_command_of w step remaining) \<le> sc_schedule_to_close (step_command_of w step remaining) \<and>
    sc_schedule_to_close (step_command_of w step remaining) \<le> remaining - 30 \<and>
    1 \<le> sc_heartbeat (step_command_of w step remaining) \<and>
    sc_heartbeat (step_command_of w step remaining) \<le> sc_timeout (step_command_of w step remaining)"
proof -
  have c: "1 \<le> cf_ordinary c" "cf_ordinary c \<le> cf_routing c" "1 \<le> cf_heartbeat c"
    using assms(1) by (auto simp: config_of_def result_simps)
  let ?t = "step_timeout c step remaining"
  have t: "1 \<le> ?t" "?t \<le> remaining - 60" "?t \<le> (if step \<in> set routing_steps then cf_routing c else cf_ordinary c)"
    using c assms(2) by (auto simp: step_timeout_def)
  have "schedule_budget c ?t remaining \<le> remaining - 30" "?t + 30 \<le> schedule_budget c ?t remaining"
    using t(2) by (auto simp: schedule_budget_def)
  then show ?thesis using t c assms(3) by (auto simp: step_command_of_def Let_def)
qed

theorem step_time_fits_deadline_witness:
  "sc_schedule_to_close (step_command_of sample_w1 ''manufacture'' 600) \<le> 570"
proof -
  have "config_of sample_input = Inr (w_config sample_w1)" by code_simp
  from step_time_fits_deadline[OF this, of 600 sample_w1] show ?thesis by simp
qed

lemma dget_dict_update: "dget (dict_update a b) k = (case dget (rev b) k of None \<Rightarrow> dget a k | Some v \<Rightarrow> Some v)"
  unfolding dict_update_def by (induction b arbitrary: a) (auto simp: dict_simps map_add_def split: option.splits)

text \<open>
  Reconciling with the stored checkpoint never goes backwards: unless the stored
  receipt has no generation at all, the generation after reconciling is at least the one
  before, and a checkpoint that cannot be read or is not in order changes nothing.
\<close>

theorem reconcile_monotone:
  assumes "\<And>l. latest = Some l \<Longrightarrow> receipt_generation l \<noteq> 0 \<or> dget l ''checkpoint_receipt'' = None"
    and "\<And>l. latest = Some l \<Longrightarrow> dict_wf l"
  shows "receipt_generation s \<le> receipt_generation (reconcile s latest) \<and>
    (latest = None \<longrightarrow> reconcile s latest = s) \<and>
    (\<forall>l. latest = Some l \<and> dget l ''status'' \<notin> {Some (JStr ''ok''), Some (JStr ''legacy'')} \<longrightarrow> reconcile s latest = s)"
proof (cases latest)
  case None
  then show ?thesis by (simp add: reconcile_def)
next
  case (Some l)
  have "dict_wf l" using assms(2) Some by simp
  then have "dget (rev l) = dget l"
    using map_of_inject_set[of "rev l" l] by (simp add: dict_wf_def dkeys_def rev_map[symmetric])
  then have upd: "dget (dict_update s l) ''checkpoint_receipt'' =
      (case dget l ''checkpoint_receipt'' of None \<Rightarrow> dget s ''checkpoint_receipt'' | Some v \<Rightarrow> Some v)"
    by (simp add: dget_dict_update)
  have "receipt_generation s \<le> receipt_generation (dict_update s l)"
    if "\<not> (receipt_generation l \<noteq> 0 \<and> receipt_generation l < receipt_generation s)"
    using assms(1)[OF Some] that upd by (auto simp: receipt_generation_def split: option.splits)
  then show ?thesis using Some by (auto simp: reconcile_def)
qed

theorem reconcile_monotone_witness:
  "receipt_generation [(''checkpoint_receipt'', JObj [(''generation'', JInt 2)])] \<le>
   receipt_generation (reconcile [(''checkpoint_receipt'', JObj [(''generation'', JInt 2)])] (Some [(''status'', JStr ''ok'')]))"
  by (rule reconcile_monotone[THEN conjunct1]) (simp_all add: dict_wf_def dkeys_def)

end
