(* ===== verification/RepairContracts.thy ===== *)
theory RepairContracts
  imports Json
begin

text \<open>
  The contracts between the repair controller, the isolated executor and the external repair
  service: \<^verbatim>\<open>src/src/ratsnestpro/repair/contracts.py\<close> and the file contract of
  \<^verbatim>\<open>src/src/ratsnestpro/repair/a2a_contracts.py\<close>. A POSIX path is the list of its parts, as
  \<^verbatim>\<open>PurePosixPath\<close> splits it; a validator returns its first fault. The lemmas show that an
  accepted path stays below the directory it is joined to.
\<close>

datatype repair_fault =
    FieldLimit string
  | UnsafePath
  | BadBase64
  | BadReturnPath
  | ArchiveTooLarge
  | BadPcbName
  | ExtraField string
  | WrongType string
  | TerminalWithScript
  | ScriptMissing
  | UpstreamWithoutJoint
  | EmptyJoint
  | UnsafeProjectFile
  | NonPortable

definition within :: "string \<Rightarrow> int \<Rightarrow> int \<Rightarrow> int \<Rightarrow> (repair_fault, unit) result" where
  "within field lo hi n = demand (lo \<le> n \<and> n \<le> hi) (FieldLimit field) (Inr ())"

definition sized :: "string \<Rightarrow> nat \<Rightarrow> nat \<Rightarrow> 'a list \<Rightarrow> (repair_fault, unit) result" where
  "sized field lo hi xs = demand (lo \<le> length xs \<and> length xs \<le> hi) (FieldLimit field) (Inr ())"

definition andthen :: "('e, unit) result \<Rightarrow> ('e, 'a) result \<Rightarrow> ('e, 'a) result" where
  "andthen a b = rbind a (\<lambda>_. b)"

lemma within_Inr [result_simps]: "within f lo hi n = Inr u \<longleftrightarrow> lo \<le> n \<and> n \<le> hi"
  by (simp add: within_def result_simps)

lemma sized_Inr [result_simps]: "sized f lo hi xs = Inr u \<longleftrightarrow> lo \<le> length xs \<and> length xs \<le> hi"
  by (simp add: sized_def result_simps)

lemma andthen_Inr [result_simps]: "andthen a b = Inr y \<longleftrightarrow> a = Inr () \<and> b = Inr y"
  by (simp add: andthen_def result_simps)

subsection \<open>Limits\<close>

record limits =
  max_turns :: int
  max_script_seconds :: int
  max_total_seconds :: int
  max_llm_tokens :: int
  stagnation_threshold :: int
  max_sessions_per_run :: int

definition default_limits :: limits where
  "default_limits = \<lparr>max_turns = 10, max_script_seconds = 90, max_total_seconds = 600,
     max_llm_tokens = 60000, stagnation_threshold = 2, max_sessions_per_run = 2\<rparr>"

definition check_limits :: "limits \<Rightarrow> (repair_fault, unit) result" where
  "check_limits l =
     andthen (within ''max_turns'' 1 20 (max_turns l))
    (andthen (within ''max_script_seconds'' 1 120 (max_script_seconds l))
    (andthen (within ''max_total_seconds'' 30 1800 (max_total_seconds l))
    (andthen (within ''max_llm_tokens'' 1000 1200000 (max_llm_tokens l))
    (andthen (within ''stagnation_threshold'' 1 6 (stagnation_threshold l))
             (within ''max_sessions_per_run'' 1 4 (max_sessions_per_run l))))))"

subsection \<open>Paths\<close>

text \<open>\<^verbatim>\<open>str.split(sep)\<close> for one character, and the parts and suffix of \<^verbatim>\<open>PurePosixPath\<close>.\<close>

fun split_on :: "char \<Rightarrow> string \<Rightarrow> string list" where
  "split_on c [] = [[]]"
| "split_on c (x # xs) =
     (if x = c then [] # split_on c xs
      else (case split_on c xs of [] \<Rightarrow> [[x]] | w # ws \<Rightarrow> (x # w) # ws))"

definition relative_parts :: "string \<Rightarrow> string list" where
  "relative_parts s = filter (\<lambda>w. w \<noteq> [] \<and> w \<noteq> ''.'') (split_on CHR ''/'' s)"

definition is_absolute :: "string \<Rightarrow> bool" where
  "is_absolute s = starts_with s ''/''"

definition path_name :: "string \<Rightarrow> string" where
  "path_name s = (case relative_parts s of [] \<Rightarrow> [] | ws \<Rightarrow> last ws)"

text \<open>
  \<^verbatim>\<open>suffix\<close>: from the last dot of the name on, unless that dot is its first or last character.
\<close>

definition name_suffix :: "string \<Rightarrow> string" where
  "name_suffix name =
     (let tail = rev (takeWhile (\<lambda>c. c \<noteq> CHR ''.'') (rev name)); i = length name - length tail
      in if CHR ''.'' \<notin> set name \<or> tail = [] \<or> i \<le> 1 then [] else CHR ''.'' # tail)"

definition path_suffix :: "string \<Rightarrow> string" where
  "path_suffix s = name_suffix (path_name s)"

definition repair_program :: string where
  "repair_program = ''programs/repair_generator.py''"

definition sandbox_suffixes :: "string list" where
  "sandbox_suffixes = [''.kicad_pcb'', ''.kicad_sch'', ''.kicad_pro'', ''.kicad_dru'', ''.kicad_mod'',
     ''.kicad_sym'', ''.json'', ''.py'']"

definition safe_path :: "string \<Rightarrow> bool" where
  "safe_path value =
     (\<not> is_absolute value \<and> ''..'' \<notin> set (relative_parts value) \<and> CHR 0x5C \<notin> set value \<and>
      CHR '':'' \<notin> set value \<and> \<not> list_ex (\<lambda>w. starts_with w ''.'') (relative_parts value) \<and>
      path_suffix value \<in> set sandbox_suffixes \<and>
      \<not> (path_suffix value = ''.py'' \<and> value \<noteq> repair_program))"

definition project_suffixes :: "string list" where
  "project_suffixes = [''.json'', ''.pdf'', ''.md'', ''.txt'', ''.csv'', ''.net'', ''.dsn'', ''.ses'', ''.kicad_pcb'',
     ''.kicad_sch'', ''.kicad_pro'', ''.kicad_dru'', ''.kicad_sym'', ''.kicad_mod'']"

definition project_names :: "string list" where
  "project_names = [''fp-lib-table'', ''sym-lib-table'', repair_program]"

definition safe_project_path :: "string \<Rightarrow> bool" where
  "safe_project_path value =
     (value \<noteq> [] \<and> \<not> is_absolute value \<and> ''..'' \<notin> set (relative_parts value) \<and> CHR 0x5C \<notin> set value \<and>
      CHR '':'' \<notin> set value \<and> (value \<in> set project_names \<or> path_suffix value \<in> set project_suffixes) \<and>
      length (relative_parts value) \<le> 12)"

subsection \<open>Files\<close>

text \<open>What \<^verbatim>\<open>base64.b64decode(value, validate=True)\<close> accepts.\<close>

definition base64_char :: "char \<Rightarrow> bool" where
  "base64_char c = (let n = (of_char c :: nat) in (65 \<le> n \<and> n \<le> 90) \<or> (97 \<le> n \<and> n \<le> 122) \<or> (48 \<le> n \<and> n \<le> 57)
     \<or> c = CHR ''+'' \<or> c = CHR ''/'')"

definition valid_base64 :: "string \<Rightarrow> bool" where
  "valid_base64 s =
     (let body = takeWhile base64_char s; pad = dropWhile base64_char s
      in length s mod 4 = 0 \<and> pad \<in> {[], ''='', ''==''})"

record sandbox_file =
  sf_path :: string
  sf_data :: string

definition check_file :: "sandbox_file \<Rightarrow> (repair_fault, unit) result" where
  "check_file f =
     andthen (sized ''path'' 1 240 (sf_path f))
    (andthen (demand (safe_path (sf_path f)) UnsafePath (Inr ()))
    (andthen (sized ''data'' 0 24000000 (sf_data f))
             (demand (valid_base64 (sf_data f)) BadBase64 (Inr ()))))"

definition check_project_file :: "sandbox_file \<Rightarrow> (repair_fault, unit) result" where
  "check_project_file f =
     andthen (demand (safe_project_path (sf_path f)) UnsafeProjectFile (Inr ()))
    (andthen (sized ''data'' 0 32000000 (sf_data f))
             (demand (valid_base64 (sf_data f)) BadBase64 (Inr ())))"

fun all_ok :: "('a \<Rightarrow> ('e, unit) result) \<Rightarrow> 'a list \<Rightarrow> ('e, unit) result" where
  "all_ok f [] = Inr ()"
| "all_ok f (x # xs) = andthen (f x) (all_ok f xs)"

lemma all_ok_Inr [result_simps]: "all_ok f xs = Inr u \<longleftrightarrow> (\<forall>x \<in> set xs. f x = Inr ())"
  by (induction xs) (auto simp: result_simps)

definition remove_suffix :: "string \<Rightarrow> string \<Rightarrow> string" where
  "remove_suffix s p = (if p \<noteq> [] \<and> ends_with s p then take (length s - length p) s else s)"

record sandbox_request =
  sr_files :: "sandbox_file list"
  sr_script :: string
  sr_pcb :: string
  sr_timeout :: int
  sr_returns :: "string list"

definition returnable :: "string \<Rightarrow> string list" where
  "returnable pcb = [pcb, remove_suffix pcb ''.kicad_pcb'' @ ''.kicad_sch'', repair_program]"

definition bounded_files :: "sandbox_request \<Rightarrow> (repair_fault, unit) result" where
  "bounded_files r =
     andthen (all_ok (\<lambda>p. andthen (check_file \<lparr>sf_path = p, sf_data = []\<rparr>)
                                  (demand (p \<in> set (returnable (sr_pcb r))) BadReturnPath (Inr ()))) (sr_returns r))
    (andthen (demand (distinct (map sf_path (sr_files r)) \<and>
                      sum_list (map (\<lambda>f. length (sf_data f)) (sr_files r)) \<le> 32000000) ArchiveTooLarge (Inr ()))
             (demand (sr_pcb r \<in> set (map sf_path (sr_files r)) \<and> ends_with (sr_pcb r) ''.kicad_pcb'' \<and>
                      CHR ''/'' \<notin> set (sr_pcb r)) BadPcbName (Inr ())))"

definition check_request :: "sandbox_request \<Rightarrow> (repair_fault, unit) result" where
  "check_request r =
     andthen (all_ok check_file (sr_files r))
    (andthen (sized ''files'' 1 100 (sr_files r))
    (andthen (sized ''script'' 1 64000 (sr_script r))
    (andthen (sized ''pcb_name'' 1 160 (sr_pcb r))
    (andthen (within ''timeout_seconds'' 1 120 (sr_timeout r))
    (andthen (sized ''return_paths'' 0 3 (sr_returns r))
             (bounded_files r))))))"

subsection \<open>Proposals\<close>

datatype action = ExecutePython | JointCandidate | ReportComplete | StopAgent

record proposal =
  pp_action :: action
  pp_rationale :: string
  pp_script :: string
  pp_zones :: "(string, string) dict"
  pp_owners :: "(string, string) dict"
  pp_refresh :: bool

definition has_upstream :: "proposal \<Rightarrow> bool" where
  "has_upstream p = (pp_zones p \<noteq> [] \<or> pp_owners p \<noteq> [] \<or> pp_refresh p)"

definition needs_script :: "proposal \<Rightarrow> (repair_fault, unit) result" where
  "needs_script p =
     (let blank = (py_strip (pp_script p) = []) in
      andthen (demand (\<not> (pp_action p \<in> {ReportComplete, StopAgent} \<and> \<not> blank)) TerminalWithScript (Inr ()))
     (andthen (demand (\<not> (pp_action p = ExecutePython \<and> blank)) ScriptMissing (Inr ()))
     (andthen (demand (\<not> (pp_action p \<noteq> JointCandidate \<and> has_upstream p)) UpstreamWithoutJoint (Inr ()))
              (demand (\<not> (pp_action p = JointCandidate \<and> \<not> (\<not> blank \<or> has_upstream p))) EmptyJoint (Inr ())))))"

definition check_proposal :: "proposal \<Rightarrow> (repair_fault, unit) result" where
  "check_proposal p =
     andthen (sized ''rationale'' 1 2000 (pp_rationale p))
    (andthen (sized ''script'' 0 64000 (pp_script p))
    (andthen (sized ''zone_bindings'' 0 100 (pp_zones p))
    (andthen (sized ''topology_owners'' 0 100 (pp_owners p))
             (needs_script p))))"

text \<open>
  \<^verbatim>\<open>RepairProposal.model_validate\<close> on a decoded JSON value: unknown keys are refused, missing
  fields take their defaults, and booleans are read the lax way.
\<close>

definition text_field :: "(string, json) dict \<Rightarrow> string \<Rightarrow> string option \<Rightarrow> (repair_fault, string) result" where
  "text_field d k fallback =
     (case dget d k of
        None \<Rightarrow> (case fallback of None \<Rightarrow> Inl (WrongType k) | Some s \<Rightarrow> Inr s)
      | Some (JStr s) \<Rightarrow> Inr s
      | Some _ \<Rightarrow> Inl (WrongType k))"

definition string_dict_field :: "(string, json) dict \<Rightarrow> string \<Rightarrow> (repair_fault, (string, string) dict) result" where
  "string_dict_field d k =
     (case dget d k of
        None \<Rightarrow> Inr []
      | Some (JObj kvs) \<Rightarrow>
          rmap (\<lambda>(k', v). case v of JStr s \<Rightarrow> Inr (k', s) | _ \<Rightarrow> Inl (WrongType k)) kvs
      | Some _ \<Rightarrow> Inl (WrongType k))"

definition bool_field :: "(string, json) dict \<Rightarrow> string \<Rightarrow> (repair_fault, bool) result" where
  "bool_field d k =
     (case dget d k of
        None \<Rightarrow> Inr False
      | Some (JBool b) \<Rightarrow> Inr b
      | Some (JInt i) \<Rightarrow> if i = 1 then Inr True else if i = 0 then Inr False else Inl (WrongType k)
      | Some (JStr s) \<Rightarrow>
          if casefold s \<in> {''1'', ''on'', ''t'', ''true'', ''y'', ''yes''} then Inr True
          else if casefold s \<in> {''0'', ''off'', ''f'', ''false'', ''n'', ''no''} then Inr False
          else Inl (WrongType k)
      | Some _ \<Rightarrow> Inl (WrongType k))"

definition action_named :: "string \<Rightarrow> (repair_fault, action) result" where
  "action_named s =
     (if s = ''execute_python'' then Inr ExecutePython
      else if s = ''joint_candidate'' then Inr JointCandidate
      else if s = ''report_complete'' then Inr ReportComplete
      else if s = ''stop'' then Inr StopAgent else Inl (WrongType ''action''))"

definition proposal_fields :: "string list" where
  "proposal_fields = [''action'', ''rationale'', ''script'', ''zone_bindings'', ''topology_owners'', ''refresh_evidence'']"

definition read_proposal :: "json \<Rightarrow> (repair_fault, proposal) result" where
  "read_proposal v =
     (case v of
        JObj d \<Rightarrow>
          (case filter (\<lambda>k. k \<notin> set proposal_fields) (dkeys d) of
             k # _ \<Rightarrow> Inl (ExtraField k)
           | [] \<Rightarrow>
               rbind (rbind (text_field d ''action'' None) action_named) (\<lambda>a.
               rbind (text_field d ''rationale'' None) (\<lambda>rationale.
               rbind (text_field d ''script'' (Some [])) (\<lambda>script.
               rbind (string_dict_field d ''zone_bindings'') (\<lambda>zones.
               rbind (string_dict_field d ''topology_owners'') (\<lambda>owners.
               rbind (bool_field d ''refresh_evidence'') (\<lambda>refresh.
               let p = \<lparr>pp_action = a, pp_rationale = rationale, pp_script = script, pp_zones = zones,
                        pp_owners = owners, pp_refresh = refresh\<rparr>
               in andthen (check_proposal p) (Inr p))))))))
      | _ \<Rightarrow> Inl (WrongType ''proposal''))"

subsection \<open>Confinement\<close>

text \<open>The directory reached from \<open>dir\<close> by following the parts of a path one by one.\<close>

fun walk :: "string list \<Rightarrow> string list \<Rightarrow> string list" where
  "walk dir [] = dir"
| "walk dir (p # ps) = walk (if p = ''..'' then butlast dir else dir @ [p]) ps"

lemma walk_down: "''..'' \<notin> set ps \<Longrightarrow> walk dir ps = dir @ ps"
  by (induction dir ps rule: walk.induct) auto

lemma suffix_of_nothing: "path_suffix s \<noteq> [] \<Longrightarrow> relative_parts s \<noteq> []"
  by (auto simp: path_suffix_def path_name_def name_suffix_def)

lemma safe_path_down:
  assumes "safe_path p"
  shows "relative_parts p \<noteq> [] \<and> \<not> is_absolute p \<and> (\<forall>k. walk root (take k (relative_parts p)) = root @ take k (relative_parts p)) \<and>
    (\<forall>w \<in> set (relative_parts p). \<not> starts_with w ''.'')"
proof -
  have "path_suffix p \<noteq> []" using assms by (auto simp: safe_path_def sandbox_suffixes_def)
  then show ?thesis using assms
    by (auto simp: safe_path_def list_ex_iff suffix_of_nothing intro!: walk_down dest: in_set_takeD)
qed

lemma safe_project_path_down:
  assumes "safe_project_path p"
  shows "\<not> is_absolute p \<and> (\<forall>k. walk root (take k (relative_parts p)) = root @ take k (relative_parts p)) \<and>
    length (relative_parts p) \<le> 12"
  using assms by (auto simp: safe_project_path_def intro!: walk_down dest: in_set_takeD)

lemma split_on_name: "c \<notin> set s \<Longrightarrow> split_on c s = [s]"
  by (induction s) auto

subsection \<open>Properties\<close>

text \<open>
  C36: an accepted executor request cannot address anything outside the directory it is
  unpacked in. Every file and every returned path is relative and, followed part by part
  from any directory, never leaves it and never enters a hidden entry; the file names are
  distinct, the board is one of them and lies at the root, and a returned path is the
  board, its schematic or the one program the contract names.
\<close>

theorem request_confined:
  assumes "check_request r = Inr ()"
  shows "(\<forall>p \<in> set (map sf_path (sr_files r)) \<union> set (sr_returns r).
      relative_parts p \<noteq> [] \<and> \<not> is_absolute p \<and>
      (\<forall>root k. walk root (take k (relative_parts p)) = root @ take k (relative_parts p)) \<and>
      (\<forall>w \<in> set (relative_parts p). \<not> starts_with w ''.'')) \<and>
    distinct (map sf_path (sr_files r)) \<and> sr_pcb r \<in> set (map sf_path (sr_files r)) \<and>
    relative_parts (sr_pcb r) = [sr_pcb r] \<and>
    set (sr_returns r) \<subseteq> set (returnable (sr_pcb r)) \<and> 1 \<le> sr_timeout r \<and> sr_timeout r \<le> 120"
proof -
  have files: "\<And>f. f \<in> set (sr_files r) \<Longrightarrow> safe_path (sf_path f)"
    and returns: "\<And>p. p \<in> set (sr_returns r) \<Longrightarrow> safe_path p \<and> p \<in> set (returnable (sr_pcb r))"
    and rest: "distinct (map sf_path (sr_files r))" "sr_pcb r \<in> set (map sf_path (sr_files r))"
      "CHR ''/'' \<notin> set (sr_pcb r)" "1 \<le> sr_timeout r" "sr_timeout r \<le> 120"
    using assms by (auto simp: check_request_def bounded_files_def check_file_def result_simps)
  have pcb: "safe_path (sr_pcb r)" using rest(2) files by auto
  then have "relative_parts (sr_pcb r) \<noteq> []" using safe_path_down by blast
  then have "relative_parts (sr_pcb r) = [sr_pcb r]"
    using rest(3) by (auto simp: relative_parts_def split_on_name split: if_splits)
  moreover have "\<forall>p \<in> set (map sf_path (sr_files r)) \<union> set (sr_returns r). safe_path p"
    using files returns by auto
  ultimately show ?thesis using rest returns safe_path_down by blast
qed

definition sample_submission :: sandbox_request where
  "sample_submission = \<lparr>sr_files = [\<lparr>sf_path = ''board.kicad_pcb'', sf_data = ''Ym9hcmQ=''\<rparr>,
       \<lparr>sf_path = repair_program, sf_data = []\<rparr>],
     sr_script = ''print(1)'', sr_pcb = ''board.kicad_pcb'', sr_timeout = 90, sr_returns = [''board.kicad_sch'']\<rparr>"

theorem request_confined_witness:
  "check_request sample_submission = Inr () \<and> relative_parts (sr_pcb sample_submission) = [sr_pcb sample_submission] \<and>
   check_request (sample_submission\<lparr>sr_returns := [''../board.kicad_sch'']\<rparr>) = Inl UnsafePath"
proof -
  have ok: "check_request sample_submission = Inr ()" by code_simp
  moreover have "check_request (sample_submission\<lparr>sr_returns := [''../board.kicad_sch'']\<rparr>) = Inl UnsafePath" by code_simp
  ultimately show ?thesis using request_confined[OF ok] by blast
qed

end
