(* ===== verification/RepairSession.thy ===== *)
theory RepairSession
  imports Complex_Main RepairContracts Systems
begin

text \<open>
  The bounded repair loop of \<^verbatim>\<open>src/src/ratsnestpro/repair/session.py\<close>: assessments and their
  order, the host protocol, one definition per branch of a turn, and the session around
  them. The clock readings and the model's replies (already split from their code fence
  and parsed as JSON) are inputs of a turn; the prompt and the history kept for it are not
  modelled, because nothing but the prompt reads them. A host operation returns its outcome
  and the new host: \<open>Rejected\<close> stands for the exceptions the loop catches
  (\<^verbatim>\<open>ValueError\<close>, \<^verbatim>\<open>TypeError\<close>, \<^verbatim>\<open>KeyError\<close>, \<^verbatim>\<open>IndexError\<close>), \<open>Fault\<close> for every other one.
\<close>

named_theorems flow_rules \<open>invariants of the branches of a turn\<close>

subsection \<open>Assessments\<close>

record assessment =
  as_fingerprint :: string
  as_errors :: nat
  as_unconnected :: nat
  as_warnings :: nat
  as_invariant :: "string list"
  as_repairable :: "string list"

definition score :: "assessment \<Rightarrow> nat \<times> nat \<times> nat" where
  "score a = (as_errors a, as_unconnected a, as_warnings a)"

definition improves :: "assessment \<Rightarrow> assessment \<Rightarrow> bool" where
  "improves a b =
     (as_invariant a = [] \<and> as_errors a \<le> as_errors b \<and> as_unconnected a \<le> as_unconnected b \<and>
      as_warnings a \<le> as_warnings b \<and> score a \<noteq> score b)"

lemma improves_irrefl [simp]: "\<not> improves a a"
  by (simp add: improves_def)

lemma improves_trans: "improves a b \<Longrightarrow> improves b c \<Longrightarrow> improves a c"
  by (auto simp: improves_def score_def)

text \<open>An improvement lowers the total, so only finitely many can follow each other.\<close>

definition defects :: "assessment \<Rightarrow> nat" where
  "defects a = as_errors a + as_unconnected a + as_warnings a"

lemma improves_defects: "improves a b \<Longrightarrow> defects a < defects b"
  by (auto simp: improves_def score_def defects_def)

subsection \<open>The host\<close>

datatype host_error = Rejected string | Fault string

type_synonym ('h, 'a) hop = "'h \<Rightarrow> (host_error, 'a) result \<times> 'h"

record 'h host_ops =
  h_observe :: "('h, unit) hop"
  h_images :: "('h, string list) hop"
  h_query :: "json \<Rightarrow> ('h, unit) hop"
  h_execute :: "string \<Rightarrow> int \<Rightarrow> ('h, string) hop"
  h_execute_joint :: "proposal \<Rightarrow> int \<Rightarrow> ('h, string) hop"
  h_assess :: "('h, assessment) hop"
  h_revalidate :: "('h, assessment) hop option"
  h_checkpoint :: "('h, unit) hop"
  h_rollback :: "('h, unit) hop"
  h_commit :: "string \<Rightarrow> ('h, unit) hop"
  h_record_proposal :: "(nat \<Rightarrow> proposal \<Rightarrow> ('h, unit) hop) option"
  h_record_attempt :: "(nat \<Rightarrow> proposal \<Rightarrow> assessment \<Rightarrow> ('h, unit) hop) option"
  h_record_rejection :: "(proposal \<Rightarrow> string \<Rightarrow> ('h, unit) hop) option"

subsection \<open>The session\<close>

datatype session_event =
    BudgetExhausted
  | Observed nat
  | InvalidProposal nat
  | Stopped
  | ReportedComplete nat "nat \<times> nat \<times> nat" bool
  | ExecutionFailed nat
  | InvalidCandidate nat
  | Candidate nat "nat \<times> nat \<times> nat" bool bool nat
  | Finished string bool "nat \<times> nat \<times> nat" bool
  | Committed "nat \<times> nat \<times> nat" "nat \<times> nat \<times> nat"

text \<open>\<open>ss_executions\<close> is a ghost: what was handed to the executor, and for how long.\<close>

record 'h session =
  ss_host :: 'h
  ss_original :: assessment
  ss_best :: assessment
  ss_seen :: "(string \<times> proposal) list"
  ss_stagnant :: nat
  ss_shown :: "string list"
  ss_reported :: bool
  ss_failure :: "nat option"
  ss_events :: "session_event list"
  ss_executions :: "((string \<times> proposal) \<times> int) list"

text \<open>How a turn ends: the next one, a \<^verbatim>\<open>break\<close> with its termination, or an exception.\<close>

datatype 'h flow = Go "'h session" | Break string "'h session" | Escape host_error "'h session"

definition emit :: "session_event \<Rightarrow> 'h session \<Rightarrow> 'h session" where
  "emit e s = s\<lparr>ss_events := ss_events s @ [e]\<rparr>"

definition perform :: "('h, 'a) hop \<Rightarrow> 'h session \<Rightarrow> (host_error, 'a) result \<times> 'h session" where
  "perform f s = (case f (ss_host s) of (r, h) \<Rightarrow> (r, s\<lparr>ss_host := h\<rparr>))"

text \<open>A call outside and a call inside a \<^verbatim>\<open>try\<close>.\<close>

definition call :: "('h, 'a) hop \<Rightarrow> 'h session \<Rightarrow> ('a \<Rightarrow> 'h session \<Rightarrow> 'h flow) \<Rightarrow> 'h flow" where
  "call f s k = (case perform f s of (Inl e, s') \<Rightarrow> Escape e s' | (Inr v, s') \<Rightarrow> k v s')"

definition guarded ::
  "('h, 'a) hop \<Rightarrow> 'h session \<Rightarrow> (string \<Rightarrow> 'h session \<Rightarrow> 'h flow) \<Rightarrow> ('a \<Rightarrow> 'h session \<Rightarrow> 'h flow) \<Rightarrow> 'h flow" where
  "guarded f s handler k =
     (case perform f s of
        (Inl (Rejected m), s') \<Rightarrow> handler m s'
      | (Inl (Fault m), s') \<Rightarrow> Escape (Fault m) s'
      | (Inr v, s') \<Rightarrow> k v s')"

text \<open>An operation the host may lack (\<^verbatim>\<open>hasattr\<close>).\<close>

definition optional :: "('h, unit) hop option \<Rightarrow> ('h, unit) hop" where
  "optional f h = (case f of None \<Rightarrow> (Inr (), h) | Some g \<Rightarrow> g h)"

subsection \<open>A candidate\<close>

definition perfect :: "assessment \<Rightarrow> bool" where
  "perfect a = (score a = (0, 0, 0))"

definition candidate_recorded ::
  "nat \<Rightarrow> assessment \<Rightarrow> bool \<Rightarrow> bool \<Rightarrow> 'h session \<Rightarrow> 'h flow" where
  "candidate_recorded turn a improved rolled_back s =
     (let s1 = emit (Candidate turn (score a) improved rolled_back (3 - ss_stagnant s)) s
      in if perfect (ss_best s1) then Break ''candidate_checks_passed'' s1 else Go s1)"

definition hard_failures :: "assessment \<Rightarrow> string list" where
  "hard_failures a = filter (\<lambda>f. f \<notin> set (as_repairable a)) (as_invariant a)"

definition judge_candidate :: "'h host_ops \<Rightarrow> nat \<Rightarrow> proposal \<Rightarrow> assessment \<Rightarrow> 'h session \<Rightarrow> 'h flow" where
  "judge_candidate H turn p a s =
     call (optional (map_option (\<lambda>f. f turn p a) (h_record_attempt H))) s (\<lambda>_ s1.
       if improves a (ss_best s1) then
         call (h_checkpoint H) (s1\<lparr>ss_best := a\<rparr>) (\<lambda>_ s2.
           candidate_recorded turn a True False (s2\<lparr>ss_stagnant := 0\<rparr>))
       else
         (let s2 = s1\<lparr>ss_stagnant := ss_stagnant s1 + 1\<rparr> in
          if hard_failures a \<noteq> [] \<or> 3 \<le> ss_stagnant s2 then
            call (h_rollback H) s2 (\<lambda>_ s3. candidate_recorded turn a False True (s3\<lparr>ss_stagnant := 0\<rparr>))
          else candidate_recorded turn a False False s2))"

definition reject_candidate :: "'h host_ops \<Rightarrow> nat \<Rightarrow> proposal \<Rightarrow> string \<Rightarrow> 'h session \<Rightarrow> 'h flow" where
  "reject_candidate H turn p m s =
     call (optional (map_option (\<lambda>f. f p m) (h_record_rejection H))) s (\<lambda>_ s1.
     call (h_rollback H) s1 (\<lambda>_ s2. Go (emit (InvalidCandidate turn) s2)))"

definition script_timeout :: "limits \<Rightarrow> rat \<Rightarrow> int" where
  "script_timeout l remaining = max 1 (min (max_script_seconds l) \<lfloor>remaining\<rfloor>)"

definition run_candidate :: "'h host_ops \<Rightarrow> nat \<Rightarrow> proposal \<Rightarrow> int \<Rightarrow> 'h session \<Rightarrow> 'h flow" where
  "run_candidate H turn p timeout s =
     guarded (if pp_action p = JointCandidate then h_execute_joint H p timeout
              else h_execute H (pp_script p) timeout) s (reject_candidate H turn p) (\<lambda>status s1.
       if status \<noteq> ''completed'' then
         guarded (h_rollback H) s1 (reject_candidate H turn p) (\<lambda>_ s2.
           Go ((emit (ExecutionFailed turn) s2)\<lparr>ss_failure := Some turn\<rparr>))
       else
         guarded (h_assess H) s1 (reject_candidate H turn p) (\<lambda>a s2.
           judge_candidate H turn p a (s2\<lparr>ss_failure := None\<rparr>)))"

definition propose_change :: "'h host_ops \<Rightarrow> limits \<Rightarrow> nat \<Rightarrow> rat \<Rightarrow> proposal \<Rightarrow> 'h session \<Rightarrow> 'h flow" where
  "propose_change H l turn elapsed p s =
     call (h_assess H) s (\<lambda>a s1.
       let key = (as_fingerprint a, p) in
       if key \<in> set (ss_seen s1) then Go s1
       else
         (let s2 = s1\<lparr>ss_seen := ss_seen s1 @ [key]\<rparr>; remaining = of_int (max_total_seconds l) - elapsed in
          if remaining \<le> 0 then Break ''time_limit'' s2
          else
            (let timeout = script_timeout l remaining in
             call (optional (map_option (\<lambda>f. f turn p) (h_record_proposal H))) s2 (\<lambda>_ s3.
               run_candidate H turn p timeout
                 (s3\<lparr>ss_executions := ss_executions s3 @ [(key, timeout)]\<rparr>)))))"

subsection \<open>A turn\<close>

definition report_complete :: "'h host_ops \<Rightarrow> nat \<Rightarrow> 'h session \<Rightarrow> 'h flow" where
  "report_complete H turn s =
     call (case h_revalidate H of Some f \<Rightarrow> f | None \<Rightarrow> h_assess H) (s\<lparr>ss_reported := True\<rparr>) (\<lambda>a s1.
       let passed = perfect a \<and> as_invariant a = [];
           s2 = emit (ReportedComplete turn (score a) passed) s1;
           done = (\<lambda>s. if passed then Break ''candidate_checks_passed'' s else Go s)
       in if improves a (ss_best s2) then call (h_checkpoint H) (s2\<lparr>ss_best := a\<rparr>) (\<lambda>_ s3. done s3)
          else done s2)"

datatype reply = OverBudget | ModelFailed string | Answer "json option"

record turn_input =
  ti_before_observation :: rat
  ti_before_model :: rat
  ti_before_execution :: rat
  ti_reply :: reply

definition invalid_proposal :: "nat \<Rightarrow> 'h session \<Rightarrow> 'h flow" where
  "invalid_proposal turn s = Go (emit (InvalidProposal turn) s)"

text \<open>
  Whether a query batch asks for a rendering; \<open>None\<close> where iterating over it is a
  \<^verbatim>\<open>TypeError\<close>.
\<close>

definition asks_rendering :: "json \<Rightarrow> bool option" where
  "asks_rendering q =
     (case q of
        JArr qs \<Rightarrow> Some (list_ex (\<lambda>v. case v of JObj d \<Rightarrow> dget d ''tool'' = Some (JStr ''render'') | _ \<Rightarrow> False) qs)
      | JObj _ \<Rightarrow> Some False
      | JStr _ \<Rightarrow> Some False
      | _ \<Rightarrow> None)"

definition answer_query :: "'h host_ops \<Rightarrow> nat \<Rightarrow> json \<Rightarrow> json \<Rightarrow> 'h session \<Rightarrow> 'h flow" where
  "answer_query H turn value queries s =
     guarded (h_query H value) s (\<lambda>_. invalid_proposal turn) (\<lambda>_ s1.
       case asks_rendering queries of
         None \<Rightarrow> invalid_proposal turn s1
       | Some rendering \<Rightarrow> Go (emit (Observed turn) (if rendering then s1\<lparr>ss_shown := []\<rparr> else s1)))"

definition act_on :: "'h host_ops \<Rightarrow> limits \<Rightarrow> nat \<Rightarrow> rat \<Rightarrow> json option \<Rightarrow> 'h session \<Rightarrow> 'h flow" where
  "act_on H l turn elapsed answer s =
     (case answer of
        None \<Rightarrow> invalid_proposal turn s
      | Some v \<Rightarrow>
          (case (case v of JObj d \<Rightarrow> dget d ''engineering_queries'' | _ \<Rightarrow> None) of
             Some queries \<Rightarrow> answer_query H turn v queries s
           | None \<Rightarrow>
               (case read_proposal v of
                  Inl _ \<Rightarrow> invalid_proposal turn s
                | Inr p \<Rightarrow>
                    if pp_action p = StopAgent then Break ''agent_stopped'' (emit Stopped s)
                    else if pp_action p = ReportComplete then report_complete H turn s
                    else propose_change H l turn elapsed p s)))"

definition session_turn :: "'h host_ops \<Rightarrow> limits \<Rightarrow> nat \<Rightarrow> turn_input \<Rightarrow> 'h session \<Rightarrow> 'h flow" where
  "session_turn H l turn i s =
     (if of_int (max_total_seconds l) - ti_before_observation i \<le> 0 then Break ''time_limit'' s
      else call (h_observe H) s (\<lambda>_ s1. call (h_images H) s1 (\<lambda>available s2.
        if of_int (max_total_seconds l) - ti_before_model i \<le> 0 then Break ''time_limit'' s2
        else
          (case ti_reply i of
             OverBudget \<Rightarrow> Break ''budget_exhausted'' (emit BudgetExhausted s2)
           | ModelFailed m \<Rightarrow> Escape (Fault m) s2
           | Answer v \<Rightarrow>
               act_on H l turn (ti_before_execution i) v
                 (s2\<lparr>ss_shown := fromkeys (ss_shown s2 @ available)\<rparr>)))))"

fun session_turns ::
  "'h host_ops \<Rightarrow> limits \<Rightarrow> (nat \<Rightarrow> turn_input) \<Rightarrow> nat \<Rightarrow> nat \<Rightarrow> 'h session \<Rightarrow> 'h flow" where
  "session_turns H l inputs turn 0 s = Break ''turn_limit'' s"
| "session_turns H l inputs turn (Suc n) s =
     (case session_turn H l turn (inputs turn) s of
        Go s' \<Rightarrow> session_turns H l inputs (turn + 1) n s'
      | f \<Rightarrow> f)"

subsection \<open>The whole session\<close>

definition end_session :: "'h host_ops \<Rightarrow> string \<Rightarrow> 'h session \<Rightarrow> (host_error, bool) result \<times> 'h session" where
  "end_session H termination s =
     (case perform (h_rollback H) s of
        (Inl e, s1) \<Rightarrow> (Inl e, s1)
      | (Inr _, s1) \<Rightarrow>
          (let best = ss_best s1;
               s2 = emit (Finished termination (ss_reported s1) (score best) (perfect best \<and> as_invariant best = [])) s1
           in if improves best (ss_original s2) then
                (case perform (h_commit H (as_fingerprint (ss_original s2))) s2 of
                   (Inl e, s3) \<Rightarrow> (Inl e, s3)
                 | (Inr _, s3) \<Rightarrow> (Inr True, emit (Committed (score (ss_original s3)) (score best)) s3))
              else (Inr False, s2)))"

definition no_assessment :: assessment where
  "no_assessment = \<lparr>as_fingerprint = [], as_errors = 0, as_unconnected = 0, as_warnings = 0,
     as_invariant = [], as_repairable = []\<rparr>"

definition new_session :: "assessment \<Rightarrow> 'h \<Rightarrow> 'h session" where
  "new_session a h = \<lparr>ss_host = h, ss_original = a, ss_best = a, ss_seen = [], ss_stagnant = 0, ss_shown = [],
     ss_reported = False, ss_failure = None, ss_events = [], ss_executions = []\<rparr>"

definition run_session ::
  "'h host_ops \<Rightarrow> limits \<Rightarrow> (nat \<Rightarrow> turn_input) \<Rightarrow> 'h \<Rightarrow> (host_error, bool) result \<times> 'h session" where
  "run_session H l inputs h =
     (case h_assess H h of
        (Inl e, h1) \<Rightarrow> (Inl e, new_session no_assessment h1)
      | (Inr a, h1) \<Rightarrow>
          (case session_turns H l inputs 0 (nat (max_turns l)) (new_session a h1) of
             Escape e s \<Rightarrow> (Inl e, s)
           | Break t s \<Rightarrow> end_session H t s
           | Go s \<Rightarrow> end_session H ''turn_limit'' s))"

subsection \<open>Invariants of a turn\<close>

fun flow_all :: "('h session \<Rightarrow> bool) \<Rightarrow> ('h session \<Rightarrow> bool) \<Rightarrow> 'h flow \<Rightarrow> bool" where
  "flow_all I J (Go s) = I s"
| "flow_all I J (Break t s) = I s"
| "flow_all I J (Escape e s) = J s"

lemma flow_all_mono:
  "flow_all I J f \<Longrightarrow> (\<And>s. I s \<Longrightarrow> I' s) \<Longrightarrow> (\<And>s. J s \<Longrightarrow> J' s) \<Longrightarrow> flow_all I' J' f"
  by (cases f) auto

lemma call_rule:
  assumes "\<And>e h. f (ss_host s) = (Inl e, h) \<Longrightarrow> J (s\<lparr>ss_host := h\<rparr>)"
    and "\<And>v h. f (ss_host s) = (Inr v, h) \<Longrightarrow> flow_all I J (k v (s\<lparr>ss_host := h\<rparr>))"
  shows "flow_all I J (call f s k)"
  using assms by (auto simp: call_def perform_def split: prod.splits sum.splits)

lemma guarded_rule:
  assumes "\<And>m h. f (ss_host s) = (Inl (Rejected m), h) \<Longrightarrow> flow_all I J (handler m (s\<lparr>ss_host := h\<rparr>))"
    and "\<And>m h. f (ss_host s) = (Inl (Fault m), h) \<Longrightarrow> J (s\<lparr>ss_host := h\<rparr>)"
    and "\<And>v h. f (ss_host s) = (Inr v, h) \<Longrightarrow> flow_all I J (k v (s\<lparr>ss_host := h\<rparr>))"
  shows "flow_all I J (guarded f s handler k)"
  using assms by (auto simp: guarded_def perform_def split: prod.splits sum.splits host_error.splits)

lemmas flow_intros = call_rule guarded_rule

lemma emit_simps [simp]:
  "ss_host (emit e s) = ss_host s" "ss_original (emit e s) = ss_original s" "ss_best (emit e s) = ss_best s"
  "ss_seen (emit e s) = ss_seen s" "ss_stagnant (emit e s) = ss_stagnant s"
  "ss_executions (emit e s) = ss_executions s" "ss_reported (emit e s) = ss_reported s"
  by (simp_all add: emit_def)

text \<open>
  What the session keeps without any help of the host: it never hands the same proposal on
  the same candidate to the executor twice, never more often than there were turns, and
  always with an admissible time limit.
\<close>

definition executions_ok :: "limits \<Rightarrow> nat \<Rightarrow> 'h session \<Rightarrow> bool" where
  "executions_ok l n s =
     (distinct (ss_seen s) \<and> distinct (map fst (ss_executions s)) \<and>
      fst ` set (ss_executions s) \<subseteq> set (ss_seen s) \<and> length (ss_executions s) \<le> n \<and>
      (\<forall>(k, t) \<in> set (ss_executions s). 1 \<le> t \<and> t \<le> max 1 (max_script_seconds l)))"

definition paced :: "limits \<Rightarrow> nat \<Rightarrow> 'h session \<Rightarrow> bool" where
  "paced l n s = (executions_ok l n s \<and> ss_stagnant s < 3)"

lemma paced_update [simp]:
  "executions_ok l n (s\<lparr>ss_host := h\<rparr>) = executions_ok l n s"
  "executions_ok l n (s\<lparr>ss_best := a\<rparr>) = executions_ok l n s"
  "executions_ok l n (s\<lparr>ss_stagnant := i\<rparr>) = executions_ok l n s"
  "executions_ok l n (s\<lparr>ss_failure := x\<rparr>) = executions_ok l n s"
  "executions_ok l n (s\<lparr>ss_shown := y\<rparr>) = executions_ok l n s"
  "executions_ok l n (s\<lparr>ss_reported := b\<rparr>) = executions_ok l n s"
  "executions_ok l n (emit e s) = executions_ok l n s"
  by (simp_all add: executions_ok_def)

lemma paced_recorded [flow_rules]:
  "paced l n s \<Longrightarrow> flow_all (paced l n) (executions_ok l n) (candidate_recorded turn a i r s)"
  by (auto simp: candidate_recorded_def paced_def Let_def)

lemma paced_judge [flow_rules]:
  "paced l n s \<Longrightarrow> flow_all (paced l n) (executions_ok l n) (judge_candidate H turn p a s)"
  unfolding judge_candidate_def Let_def
  by (auto intro!: flow_intros paced_recorded simp: paced_def)

lemma paced_reject [flow_rules]:
  "paced l n s \<Longrightarrow> flow_all (paced l n) (executions_ok l n) (reject_candidate H turn p m s)"
  unfolding reject_candidate_def by (auto intro!: flow_intros simp: paced_def)

lemma paced_run [flow_rules]:
  "paced l n s \<Longrightarrow> flow_all (paced l n) (executions_ok l n) (run_candidate H turn p t s)"
  unfolding run_candidate_def
  by (auto intro!: flow_intros paced_reject paced_judge simp: paced_def)

lemma script_timeout_bounds: "1 \<le> script_timeout l r \<and> script_timeout l r \<le> max 1 (max_script_seconds l)"
  by (auto simp: script_timeout_def)

lemma executions_Suc: "executions_ok l n s \<Longrightarrow> executions_ok l (Suc n) s"
  by (auto simp: executions_ok_def)

lemma paced_Suc: "paced l n s \<Longrightarrow> paced l (Suc n) s"
  by (auto simp: paced_def intro: executions_Suc)

lemma executions_add:
  assumes "executions_ok l n s" and "key \<notin> set (ss_seen s)" and "ss_seen t = ss_seen s @ [key]"
    and "ss_executions t \<in> {ss_executions s, ss_executions s @ [(key, script_timeout l r)]}"
  shows "executions_ok l (Suc n) t"
  using assms script_timeout_bounds[of l r]
  by (auto simp: executions_ok_def image_subset_iff simp del: fst_conv) force+

lemma paced_propose:
  assumes "paced l n s"
  shows "flow_all (paced l (Suc n)) (executions_ok l (Suc n)) (propose_change H l turn elapsed p s)"
  unfolding propose_change_def Let_def
proof (rule call_rule, goal_cases)
  case (1 e h)
  then show ?case using assms by (auto simp: paced_def intro: executions_Suc)
next
  case (2 a h)
  let ?key = "(as_fingerprint a, p)" and ?s1 = "s\<lparr>ss_host := h\<rparr>"
  show ?case
  proof (cases "?key \<in> set (ss_seen s)")
    case True
    then show ?thesis using assms paced_Suc[OF assms] by (simp add: paced_def)
  next
    case False
    have ok: "executions_ok l n s" "ss_stagnant s < 3" using assms by (simp_all add: paced_def)
    note add = executions_add[OF ok(1) False]
    show ?thesis
      using False ok by (auto intro!: call_rule paced_run add simp: paced_def)
  qed
qed

lemma paced_complete:
  "paced l n s \<Longrightarrow> flow_all (paced l n) (executions_ok l n) (report_complete H turn s)"
  unfolding report_complete_def Let_def
  by (auto intro!: call_rule simp: paced_def)

lemma paced_query:
  "paced l n s \<Longrightarrow> flow_all (paced l n) (executions_ok l n) (answer_query H turn v q s)"
  unfolding answer_query_def invalid_proposal_def
  by (auto intro!: guarded_rule simp: paced_def split: option.splits)

lemma flow_Suc:
  "flow_all (paced l n) (executions_ok l n) f \<Longrightarrow> flow_all (paced l (Suc n)) (executions_ok l (Suc n)) f"
  by (erule flow_all_mono) (auto intro: paced_Suc executions_Suc)

lemma paced_act:
  assumes "paced l n s"
  shows "flow_all (paced l (Suc n)) (executions_ok l (Suc n)) (act_on H l turn elapsed answer s)"
  using paced_propose[OF assms] flow_Suc[OF paced_complete[OF assms]] flow_Suc[OF paced_query[OF assms]] paced_Suc[OF assms]
  by (auto simp: act_on_def invalid_proposal_def paced_def split: option.splits sum.splits)

lemma paced_turn:
  assumes "paced l n s"
  shows "flow_all (paced l (Suc n)) (executions_ok l (Suc n)) (session_turn H l turn i s)"
  unfolding session_turn_def
  using paced_Suc[OF assms] executions_Suc[of l n] assms
  by (auto intro!: call_rule paced_act simp: paced_def split: reply.splits)

lemma paced_turns:
  "paced l n s \<Longrightarrow> flow_all (paced l (n + m)) (executions_ok l (n + m)) (session_turns H l inputs turn m s)"
proof (induction m arbitrary: n turn s)
  case 0
  then show ?case by simp
next
  case (Suc m)
  note turn = paced_turn[OF Suc.prems, of H turn "inputs turn"]
  show ?case
  proof (cases "session_turn H l turn (inputs turn) s")
    case (Go s')
    then show ?thesis using turn Suc.IH[of "Suc n" s' "turn + 1"] by simp
  next
    case (Break t s')
    then show ?thesis using turn by (auto simp: paced_def executions_ok_def)
  next
    case (Escape e s')
    then show ?thesis using turn by (auto simp: executions_ok_def)
  qed
qed

lemma end_session_executions:
  "end_session H t s = (r, s') \<Longrightarrow> ss_executions s' = ss_executions s \<and> ss_seen s' = ss_seen s"
  by (auto simp: end_session_def perform_def Let_def split: prod.splits sum.splits if_splits)

lemma run_session_executions:
  assumes "run_session H l inputs h = (r, s)"
  shows "executions_ok l (nat (max_turns l)) s"
proof (cases "h_assess H h")
  case (Pair q h1)
  show ?thesis
  proof (cases q)
    case (Inl e)
    then show ?thesis using assms Pair by (auto simp: run_session_def new_session_def executions_ok_def)
  next
    case (Inr a)
    have "paced l 0 (new_session a h1)" by (simp add: paced_def executions_ok_def new_session_def)
    note turns = paced_turns[OF this, of "nat (max_turns l)" H inputs 0]
    show ?thesis
    proof (cases "session_turns H l inputs 0 (nat (max_turns l)) (new_session a h1)")
      case (Escape e s')
      then show ?thesis using assms Pair Inr turns by (simp add: run_session_def)
    next
      case (Break t s')
      then have "end_session H t s' = (r, s)" "paced l (nat (max_turns l)) s'"
        using assms Pair Inr turns by (simp_all add: run_session_def)
      then show ?thesis using end_session_executions[of H t s'] by (simp add: paced_def executions_ok_def)
    next
      case (Go s')
      then have "end_session H ''turn_limit'' s' = (r, s)" "paced l (nat (max_turns l)) s'"
        using assms Pair Inr turns by (simp_all add: run_session_def)
      then show ?thesis using end_session_executions[of H "''turn_limit''" s'] by (simp add: paced_def executions_ok_def)
    qed
  qed
qed

subsection \<open>The contract of a host\<close>

text \<open>
  An operation that leaves the live board and the saved candidate alone. (It may change the
  working candidate.)
\<close>

definition quiet :: "('h \<Rightarrow> bool) \<Rightarrow> ('h \<Rightarrow> 'l) \<Rightarrow> ('h \<Rightarrow> 'c) \<Rightarrow> ('h, 'a) hop \<Rightarrow> bool" where
  "quiet valid live saved f =
     (\<forall>h r h'. valid h \<longrightarrow> f h = (r, h') \<longrightarrow> valid h' \<and> live h' = live h \<and> saved h' = saved h)"

text \<open>
  What the session relies on: only \<open>h_commit\<close> changes the live board, only
  \<open>h_checkpoint\<close> the saved candidate, an assessment judges the working candidate, and a
  commit that returns has published it.
\<close>

locale repair_host =
  fixes H :: "'h host_ops"
    and valid :: "'h \<Rightarrow> bool"
    and live :: "'h \<Rightarrow> 'l"
    and saved :: "'h \<Rightarrow> 'c"
    and current :: "'h \<Rightarrow> 'c"
    and judged :: "'c \<Rightarrow> assessment \<Rightarrow> bool"
    and published :: "'c \<Rightarrow> 'l \<Rightarrow> bool"
  assumes observe_quiet: "quiet valid live saved (h_observe H)"
    and images_quiet: "quiet valid live saved (h_images H)"
    and query_quiet: "quiet valid live saved (h_query H q)"
    and execute_quiet: "quiet valid live saved (h_execute H script t)"
    and joint_quiet: "quiet valid live saved (h_execute_joint H p t)"
    and assess_quiet: "quiet valid live saved (h_assess H)"
    and assess_judges: "valid h \<Longrightarrow> h_assess H h = (Inr a, h') \<Longrightarrow> judged (current h') a"
    and revalidate_quiet: "h_revalidate H = Some f \<Longrightarrow> quiet valid live saved f"
    and revalidate_judges: "h_revalidate H = Some f \<Longrightarrow> valid h \<Longrightarrow> f h = (Inr a, h') \<Longrightarrow> judged (current h') a"
    and proposal_quiet: "h_record_proposal H = Some g \<Longrightarrow> quiet valid live saved (g turn p)"
    and rejection_quiet: "h_record_rejection H = Some r \<Longrightarrow> quiet valid live saved (r p m)"
    and attempt_quiet: "h_record_attempt H = Some k \<Longrightarrow> quiet valid live saved (k turn p a)"
    and attempt_keeps: "h_record_attempt H = Some k \<Longrightarrow> valid h \<Longrightarrow> k turn p a h = (res, h') \<Longrightarrow> current h' = current h"
    and checkpoint_live: "valid h \<Longrightarrow> h_checkpoint H h = (res, h') \<Longrightarrow> valid h' \<and> live h' = live h"
    and checkpoint_saves: "valid h \<Longrightarrow> h_checkpoint H h = (Inr u, h') \<Longrightarrow> saved h' = current h"
    and rollback_quiet: "quiet valid live saved (h_rollback H)"
    and rollback_restores: "valid h \<Longrightarrow> h_rollback H h = (Inr u, h') \<Longrightarrow> current h' = saved h"
    and commit_fails: "valid h \<Longrightarrow> h_commit H fp h = (Inl e, h') \<Longrightarrow> live h' = live h"
    and commit_publishes: "valid h \<Longrightarrow> h_commit H fp h = (Inr u, h') \<Longrightarrow> published (current h) (live h')"
begin

definition kept :: "'l \<Rightarrow> 'h \<Rightarrow> bool" where
  "kept l h = (valid h \<and> live h = l)"

definition good :: "'l \<Rightarrow> assessment \<Rightarrow> 'h \<Rightarrow> assessment \<Rightarrow> bool" where
  "good l a h best = (kept l h \<and> (best = a \<or> improves best a \<and> judged (saved h) best))"

definition untouched :: "'l \<Rightarrow> 'h session \<Rightarrow> bool" where
  [simp]: "untouched l s = kept l (ss_host s)"

definition sound :: "'l \<Rightarrow> assessment \<Rightarrow> 'h session \<Rightarrow> bool" where
  [simp]: "sound l a s = (ss_original s = a \<and> good l a (ss_host s) (ss_best s))"

lemma good_kept: "good l a h best \<Longrightarrow> kept l h"
  by (simp add: good_def)

lemma good_valid: "good l a h best \<Longrightarrow> valid h"
  by (simp add: good_def kept_def)

lemma good_quiet: "quiet valid live saved f \<Longrightarrow> good l a h best \<Longrightarrow> f h = (r, h') \<Longrightarrow> good l a h' best"
  unfolding quiet_def good_def kept_def by auto

lemma good_quiet_kept: "quiet valid live saved f \<Longrightarrow> good l a h best \<Longrightarrow> f h = (r, h') \<Longrightarrow> kept l h'"
  by (metis good_quiet good_kept)

lemma call_quiet:
  assumes "quiet valid live saved f" and "sound l a s"
    and "\<And>v h. f (ss_host s) = (Inr v, h) \<Longrightarrow> good l a h (ss_best s) \<Longrightarrow>
      flow_all (sound l a) (untouched l) (k v (s\<lparr>ss_host := h\<rparr>))"
  shows "flow_all (sound l a) (untouched l) (call f s k)"
  using assms good_quiet[OF assms(1)] good_quiet_kept[OF assms(1)] by (intro call_rule) auto

lemma guarded_quiet:
  assumes "quiet valid live saved f" and "sound l a s"
    and "\<And>m h. good l a h (ss_best s) \<Longrightarrow> flow_all (sound l a) (untouched l) (handler m (s\<lparr>ss_host := h\<rparr>))"
    and "\<And>v h. f (ss_host s) = (Inr v, h) \<Longrightarrow> good l a h (ss_best s) \<Longrightarrow>
      flow_all (sound l a) (untouched l) (k v (s\<lparr>ss_host := h\<rparr>))"
  shows "flow_all (sound l a) (untouched l) (guarded f s handler k)"
  using assms good_quiet[OF assms(1)] good_quiet_kept[OF assms(1)] by (intro guarded_rule) auto

lemma optional_quiet: "(\<And>g. f = Some g \<Longrightarrow> quiet valid live saved g) \<Longrightarrow> quiet valid live saved (optional f)"
  by (auto simp: optional_def quiet_def split: option.splits)

lemma recorded_sound: "sound l a s \<Longrightarrow> flow_all (sound l a) (untouched l) (candidate_recorded turn b i r s)"
  by (simp add: candidate_recorded_def Let_def)

text \<open>Taking the working candidate as the new best.\<close>

lemma checkpoint_sound:
  assumes ok: "sound l a s" and "judged (current (ss_host s)) b" and "improves b (ss_best s)"
    and k: "\<And>h. good l a h b \<Longrightarrow> flow_all (sound l a) (untouched l) (k () (s\<lparr>ss_best := b, ss_host := h\<rparr>))"
  shows "flow_all (sound l a) (untouched l) (call (h_checkpoint H) (s\<lparr>ss_best := b\<rparr>) k)"
proof (rule call_rule, goal_cases)
  case (1 e h)
  then show ?case using ok checkpoint_live[of "ss_host s"] by (simp add: good_def kept_def)
next
  case (2 v h)
  have "improves b a" using assms(1,3) improves_trans unfolding sound_def good_def by metis
  then have "good l a h b"
    using 2 assms(1,2) checkpoint_live[of "ss_host s"] checkpoint_saves[of "ss_host s"] by (auto simp: good_def kept_def)
  then show ?case using k[of h] by simp
qed

lemma judge_sound:
  assumes "sound l a s" and "judged (current (ss_host s)) b"
  shows "flow_all (sound l a) (untouched l) (judge_candidate H turn p b s)"
  unfolding judge_candidate_def Let_def
proof (rule call_quiet)
  show "quiet valid live saved (optional (map_option (\<lambda>f. f turn p b) (h_record_attempt H)))"
    by (rule optional_quiet) (auto intro: attempt_quiet)
next
  fix v h
  assume run: "optional (map_option (\<lambda>f. f turn p b) (h_record_attempt H)) (ss_host s) = (Inr v, h)"
    and ok: "good l a h (ss_best s)"
  have "valid (ss_host s)" using assms(1) by (simp add: good_def kept_def)
  then have "judged (current h) b"
    using run assms(2) attempt_keeps by (auto simp: optional_def split: option.splits)
  then show "flow_all (sound l a) (untouched l)
     (if improves b (ss_best (s\<lparr>ss_host := h\<rparr>))
      then call (h_checkpoint H) (s\<lparr>ss_host := h\<rparr>\<lparr>ss_best := b\<rparr>)
            (\<lambda>_ s2. candidate_recorded turn b True False (s2\<lparr>ss_stagnant := 0\<rparr>))
      else if hard_failures b \<noteq> [] \<or> 3 \<le> ss_stagnant (s\<lparr>ss_host := h\<rparr>\<lparr>ss_stagnant := ss_stagnant (s\<lparr>ss_host := h\<rparr>) + 1\<rparr>)
           then call (h_rollback H) (s\<lparr>ss_host := h\<rparr>\<lparr>ss_stagnant := ss_stagnant (s\<lparr>ss_host := h\<rparr>) + 1\<rparr>)
                 (\<lambda>_ s3. candidate_recorded turn b False True (s3\<lparr>ss_stagnant := 0\<rparr>))
           else candidate_recorded turn b False False
                 (s\<lparr>ss_host := h\<rparr>\<lparr>ss_stagnant := ss_stagnant (s\<lparr>ss_host := h\<rparr>) + 1\<rparr>))"
    using ok assms(1)
    by (auto intro!: checkpoint_sound call_quiet[OF rollback_quiet] recorded_sound)
qed (rule assms(1))

lemma reject_sound:
  "sound l a s \<Longrightarrow> flow_all (sound l a) (untouched l) (reject_candidate H turn p m s)"
  unfolding reject_candidate_def
  by (intro call_quiet optional_quiet rollback_quiet) (auto intro: rejection_quiet)

lemma run_sound:
  assumes "sound l a s"
  shows "flow_all (sound l a) (untouched l) (run_candidate H turn p t s)"
  unfolding run_candidate_def
proof (rule guarded_quiet)
  show "quiet valid live saved
      (if pp_action p = JointCandidate then h_execute_joint H p t else h_execute H (pp_script p) t)"
    by (simp add: joint_quiet execute_quiet)
next
  fix m h assume "good l a h (ss_best s)"
  then show "flow_all (sound l a) (untouched l) (reject_candidate H turn p m (s\<lparr>ss_host := h\<rparr>))"
    using assms by (intro reject_sound) simp
next
  fix status h assume ok: "good l a h (ss_best s)"
  show "flow_all (sound l a) (untouched l)
      (if status \<noteq> ''completed''
       then guarded (h_rollback H) (s\<lparr>ss_host := h\<rparr>) (reject_candidate H turn p)
             (\<lambda>_ s2. Go (emit (ExecutionFailed turn) s2\<lparr>ss_failure := Some turn\<rparr>))
       else guarded (h_assess H) (s\<lparr>ss_host := h\<rparr>) (reject_candidate H turn p)
             (\<lambda>b s2. judge_candidate H turn p b (s2\<lparr>ss_failure := None\<rparr>)))"
    using ok assms assess_judges[OF good_valid[OF ok]]
    by (auto intro!: guarded_quiet[OF rollback_quiet] guarded_quiet[OF assess_quiet] reject_sound judge_sound)
qed (rule assms)

lemma record_proposal_quiet:
  "quiet valid live saved (optional (map_option (\<lambda>f. f turn p) (h_record_proposal H)))"
  by (rule optional_quiet) (auto intro: proposal_quiet)

lemma propose_sound:
  "sound l a s \<Longrightarrow> flow_all (sound l a) (untouched l) (propose_change H l' turn elapsed p s)"
  unfolding propose_change_def Let_def
  by (auto intro!: call_quiet[OF assess_quiet] call_quiet[OF record_proposal_quiet] run_sound)

lemma complete_sound:
  assumes "sound l a s"
  shows "flow_all (sound l a) (untouched l) (report_complete H turn s)"
proof -
  let ?f = "case h_revalidate H of Some f \<Rightarrow> f | None \<Rightarrow> h_assess H"
  have quiet: "quiet valid live saved ?f"
    using assess_quiet revalidate_quiet by (auto split: option.splits)
  have "valid (ss_host s)" using assms by (simp add: good_def kept_def)
  then have judged: "?f (ss_host s) = (Inr b, h) \<Longrightarrow> judged (current h) b" for b h
    using assess_judges revalidate_judges by (auto split: option.splits)
  show ?thesis
    unfolding report_complete_def Let_def using assms judged
    by (intro call_quiet[OF quiet]) (auto intro!: checkpoint_sound)
qed

lemma act_sound:
  "sound l a s \<Longrightarrow> flow_all (sound l a) (untouched l) (act_on H l' turn elapsed answer s)"
  unfolding act_on_def answer_query_def invalid_proposal_def
  by (auto intro!: guarded_quiet[OF query_quiet] complete_sound propose_sound split: option.splits sum.splits json.splits)

lemma turn_sound:
  "sound l a s \<Longrightarrow> flow_all (sound l a) (untouched l) (session_turn H l' turn i s)"
  unfolding session_turn_def
  by (auto intro!: call_quiet[OF observe_quiet] call_quiet[OF images_quiet] act_sound good_kept split: reply.splits)

lemma turns_sound:
  "sound l a s \<Longrightarrow> flow_all (sound l a) (untouched l) (session_turns H l' inputs turn n s)"
proof (induction n arbitrary: turn s)
  case 0
  then show ?case by simp
next
  case (Suc n)
  from turn_sound[OF Suc.prems, of l' turn "inputs turn"] show ?case
    using Suc.IH by (cases "session_turn H l' turn (inputs turn) s") auto
qed

text \<open>
  A session that returns true has published a candidate whose assessment strictly improves
  the first one; every other way it ends leaves the live board as it was.
\<close>

lemma end_sound:
  assumes "sound l a s" and "end_session H t s = (r, s')"
  shows "(r = Inr True \<longrightarrow> improves (ss_best s') a \<and>
      (\<exists>c. judged c (ss_best s') \<and> published c (live (ss_host s')))) \<and>
    (r \<noteq> Inr True \<longrightarrow> live (ss_host s') = l) \<and> ss_original s' = a"
proof -
  obtain q h where roll: "h_rollback H (ss_host s) = (q, h)" by fastforce
  have ok: "good l a h (ss_best s)" using assms(1) good_quiet[OF rollback_quiet _ roll] by simp
  show ?thesis
  proof (cases q)
    case (Inl e)
    then show ?thesis using assms roll ok by (auto simp: end_session_def perform_def good_def kept_def)
  next
    case (Inr u)
    then have roll': "h_rollback H (ss_host s) = (Inr (), h)" using roll by simp
    have cur: "current h = saved (ss_host s)" "saved h = saved (ss_host s)"
      using rollback_restores[OF _ roll'] rollback_quiet roll' assms(1) by (auto simp: good_def kept_def quiet_def)
    obtain q' h' where com: "h_commit H (as_fingerprint a) h = (q', h')" by fastforce
    have v: "valid h" "live h = l" using ok by (simp_all add: good_def kept_def)
    show ?thesis
    proof (cases "improves (ss_best s) a")
      case False
      then show ?thesis using assms roll' v by (auto simp: end_session_def perform_def Let_def)
    next
      case True
      then have "judged (current h) (ss_best s)" using assms(1) cur by (auto simp: good_def)
      then show ?thesis
        using True assms roll' com v commit_fails[OF v(1)] commit_publishes[OF v(1)]
        by (auto simp: end_session_def perform_def Let_def split: sum.splits)
    qed
  qed
qed

lemma run_session_sound:
  assumes "valid h" and "run_session H l inputs h = (r, s)"
  shows "(r = Inr True \<longrightarrow> improves (ss_best s) (ss_original s) \<and>
      (\<exists>c. judged c (ss_best s) \<and> published c (live (ss_host s)))) \<and>
    (r \<noteq> Inr True \<longrightarrow> live (ss_host s) = live h)"
proof -
  obtain q h1 where first: "h_assess H h = (q, h1)" by fastforce
  have v: "valid h1" "live h1 = live h" using assms(1) first assess_quiet by (auto simp: quiet_def)
  show ?thesis
  proof (cases q)
    case (Inl e)
    then show ?thesis using assms(2) first v by (auto simp: run_session_def new_session_def)
  next
    case (Inr a)
    have "sound (live h) a (new_session a h1)" using v by (simp add: new_session_def good_def kept_def)
    note turns = turns_sound[OF this, of l inputs 0 "nat (max_turns l)"]
    show ?thesis
    proof (cases "session_turns H l inputs 0 (nat (max_turns l)) (new_session a h1)")
      case (Go s')
      then have "end_session H ''turn_limit'' s' = (r, s)" "sound (live h) a s'"
        using assms(2) first Inr turns by (simp_all add: run_session_def)
      from end_sound[OF this(2,1)] show ?thesis by auto
    next
      case (Break t s')
      then have "end_session H t s' = (r, s)" "sound (live h) a s'"
        using assms(2) first Inr turns by (simp_all add: run_session_def)
      from end_sound[OF this(2,1)] show ?thesis by auto
    next
      case (Escape e s')
      then show ?thesis using assms(2) first Inr turns by (auto simp: run_session_def kept_def)
    qed
  qed
qed

end

subsection \<open>Properties\<close>


text \<open>A host without a board: every program is a failed execution.\<close>

definition idle_host :: "unit host_ops" where
  "idle_host =
     \<lparr>h_observe = (\<lambda>h. (Inr (), h)), h_images = (\<lambda>h. (Inr [], h)), h_query = (\<lambda>_ h. (Inr (), h)),
      h_execute = (\<lambda>_ _ h. (Inr ''failed'', h)), h_execute_joint = (\<lambda>_ _ h. (Inr ''failed'', h)),
      h_assess = (\<lambda>h. (Inr no_assessment, h)), h_revalidate = None, h_checkpoint = (\<lambda>h. (Inr (), h)),
      h_rollback = (\<lambda>h. (Inr (), h)), h_commit = (\<lambda>_ h. (Inr (), h)), h_record_proposal = None,
      h_record_attempt = None, h_record_rejection = None\<rparr>"

definition stubborn :: "nat \<Rightarrow> turn_input" where
  "stubborn i = \<lparr>ti_before_observation = 0, ti_before_model = 0, ti_before_execution = 1,
     ti_reply = Answer (Some (JObj [(''action'', JStr ''execute_python''), (''rationale'', JStr ''again''),
       (''script'', JStr ''fix()'')]))\<rparr>"


end
