(* ===== verification/BoardHost.thy ===== *)
theory BoardHost
  imports RepairSession
begin

text \<open>
  The host of a repair session on one board, \<^verbatim>\<open>_BoardHost\<close> in
  \<^verbatim>\<open>src/src/ratsnestpro/repair/pipeline_adapter.py\<close>: the isolated candidate, its best
  snapshot, the cached assessment, the executor's answer and the guarded commit. What the
  host asks of other parts is a record of functions: KiCad's zone refill and design rule
  check, the sandbox, the board reader, SHA-256, and the pipeline's checks and artifact
  updates. A verdict of these is a function of the board and the artifacts it reads.
  The theory interprets the session's host contract.
\<close>

record ('b, 'a) tools =
  t_digest :: "'b \<Rightarrow> string"
  t_fingerprint :: "'a \<Rightarrow> string"
  t_refill :: "'b \<Rightarrow> 'b option"
  t_drc :: "'b \<Rightarrow> (nat \<times> nat \<times> nat) option"
  t_contract :: "'b \<Rightarrow> string"
  t_audit :: "'b \<Rightarrow> string list"
  t_geometry :: "'a \<Rightarrow> 'b \<Rightarrow> string list"
  t_placement :: "'b \<Rightarrow> string list \<times> string"
  t_upstream :: "'a \<Rightarrow> 'b \<Rightarrow> (string \<times> string) list"
  t_sandbox :: "'b \<Rightarrow> string \<Rightarrow> int \<Rightarrow> (host_error, string \<times> 'b option) result"
  t_bytes :: "'b \<Rightarrow> nat"
  t_footprints :: "'b \<Rightarrow> nat option"
  t_edit :: "proposal \<Rightarrow> 'b \<Rightarrow> 'a \<Rightarrow> (host_error, 'a) result"
  t_sync :: "'b \<Rightarrow> 'a \<Rightarrow> (host_error, 'a) result"
  t_observe :: "'a \<Rightarrow> 'b \<Rightarrow> (host_error, unit) result"
  t_query :: "json \<Rightarrow> 'b \<Rightarrow> (host_error, string list) result"
  t_render :: "'b \<Rightarrow> string list"
  t_view :: "'a \<Rightarrow> 'a"
  t_updates :: "bool \<Rightarrow> 'b \<Rightarrow> 'a \<Rightarrow> 'a \<Rightarrow> (host_error, 'a) result"

text \<open>The journal of a commit: \<^verbatim>\<open>pending-commit.json\<close>.\<close>

record ('b, 'a) pending_change =
  pc_source :: string
  pc_candidate_digest :: string
  pc_candidate :: 'b
  pc_updated :: 'a

record ('b, 'a) board =
  bh_pcb :: 'b
  bh_best :: 'b
  bh_live :: 'b
  bh_live_digest :: string
  bh_source :: string
  bh_contract :: string
  bh_joint :: bool
  bh_last :: "assessment option"
  bh_view :: 'a
  bh_best_view :: 'a
  bh_state :: 'a
  bh_images :: "string list"
  bh_pending :: "('b, 'a) pending_change option"
  bh_refresh :: bool

subsection \<open>Operations\<close>

definition board_checkpoint :: "(('b, 'a) board, unit) hop" where
  "board_checkpoint h = (Inr (), h\<lparr>bh_best := bh_pcb h, bh_best_view := bh_view h\<rparr>)"

definition board_rollback :: "(('b, 'a) board, unit) hop" where
  "board_rollback h =
     (Inr (), h\<lparr>bh_pcb := bh_best h, bh_view := bh_best_view h, bh_last := None, bh_images := []\<rparr>)"

definition open_board :: "('b, 'a) tools \<Rightarrow> bool \<Rightarrow> 'b \<Rightarrow> 'a \<Rightarrow> ('b, 'a) board" where
  "open_board T joint live artifacts =
     snd (board_checkpoint \<lparr>bh_pcb = live, bh_best = live, bh_live = live, bh_live_digest = t_digest T live,
       bh_source = t_fingerprint T artifacts, bh_contract = t_contract T live, bh_joint = joint, bh_last = None,
       bh_view = t_view T artifacts, bh_best_view = t_view T artifacts, bh_state = artifacts, bh_images = [],
       bh_pending = None, bh_refresh = False\<rparr>)"

definition upstream_of :: "('b, 'a) tools \<Rightarrow> bool \<Rightarrow> 'a \<Rightarrow> 'b \<Rightarrow> (string \<times> string) list" where
  "upstream_of T joint a b = (if joint then t_upstream T a b else [])"

definition board_violations :: "('b, 'a) tools \<Rightarrow> string \<Rightarrow> bool \<Rightarrow> 'a \<Rightarrow> 'b \<Rightarrow> string list" where
  "board_violations T contract joint a b =
     (if t_contract T b \<noteq> contract
      then [''component/pad/net identity, outline, courtyard or board rules changed''] else [])
     @ t_audit T b @ t_geometry T a b @ fst (t_placement T b)
     @ (if snd (t_placement T b) \<noteq> [] then [snd (t_placement T b)] else [])
     @ map fst (upstream_of T joint a b)"

definition repairable :: "string list \<Rightarrow> string list" where
  "repairable fs = filter (\<lambda>f. starts_with f ''via '' \<or> starts_with f ''track '') fs"

definition grade :: "('b, 'a) tools \<Rightarrow> string \<Rightarrow> bool \<Rightarrow> 'a \<Rightarrow> 'b \<Rightarrow> nat \<times> nat \<times> nat \<Rightarrow> assessment" where
  "grade T contract joint a b report =
     (case report of (errors, unconnected, warnings) \<Rightarrow>
        \<lparr>as_fingerprint = t_digest T b, as_errors = errors + length (upstream_of T joint a b),
         as_unconnected = unconnected, as_warnings = warnings,
         as_invariant = board_violations T contract joint a b,
         as_repairable = repairable (t_geometry T a b)\<rparr>)"

definition fresh_assess :: "('b, 'a) tools \<Rightarrow> (('b, 'a) board, assessment) hop" where
  "fresh_assess T h =
     (case t_refill T (bh_pcb h) of
        None \<Rightarrow> (Inl (Fault ''trusted zone refill failed; candidate cannot be graded''), h)
      | Some b \<Rightarrow>
          (let h1 = h\<lparr>bh_pcb := b\<rparr> in
           case t_drc T b of
             None \<Rightarrow> (Inl (Fault ''fresh KiCad DRC report unavailable''), h1)
           | Some report \<Rightarrow>
               (let x = grade T (bh_contract h) (bh_joint h) (bh_view h) b report
                in (Inr x, h1\<lparr>bh_last := Some x\<rparr>))))"

definition board_assess :: "('b, 'a) tools \<Rightarrow> (('b, 'a) board, assessment) hop" where
  "board_assess T h =
     (case bh_last h of
        Some x \<Rightarrow> if as_fingerprint x = t_digest T (bh_pcb h) then (Inr x, h) else fresh_assess T h
      | None \<Rightarrow> fresh_assess T h)"

definition board_execute :: "('b, 'a) tools \<Rightarrow> string \<Rightarrow> int \<Rightarrow> (('b, 'a) board, string) hop" where
  "board_execute T script timeout h =
     (case t_sandbox T (bh_pcb h) script timeout of
        Inl e \<Rightarrow> (Inl e, h)
      | Inr (status, data) \<Rightarrow>
          (case data of
             Some b \<Rightarrow>
               if status = ''completed'' then
                 (if t_bytes T b > 24000000 then (Inl (Rejected ''candidate exceeds PCB size limit''), h)
                  else case t_footprints T b of
                         Some (Suc n) \<Rightarrow> (Inr status, h\<lparr>bh_pcb := b, bh_images := []\<rparr>)
                       | _ \<Rightarrow> (Inr ''failed'', h))
               else (Inr status, h)
           | None \<Rightarrow> (Inr status, h)))"

text \<open>An exception inside the joint transaction restores the board and the artifacts.\<close>

definition joint_undo :: "('b, 'a) board \<Rightarrow> ('b, 'a) board \<Rightarrow> ('b, 'a) board" where
  "joint_undo before h = h\<lparr>bh_view := bh_view before, bh_pcb := bh_pcb before, bh_last := None\<rparr>"

definition board_execute_joint :: "('b, 'a) tools \<Rightarrow> proposal \<Rightarrow> int \<Rightarrow> (('b, 'a) board, string) hop" where
  "board_execute_joint T p timeout h =
     (if \<not> bh_joint h then (Inr ''failed'', h)
      else case t_edit T p (bh_pcb h) (bh_view h) of
        Inl e \<Rightarrow> (Inl e, joint_undo h h)
      | Inr a \<Rightarrow>
          (let h1 = h\<lparr>bh_view := a\<rparr> in
           case (if pp_script p \<noteq> [] then board_execute T (pp_script p) timeout h1 else (Inr ''completed'', h1)) of
             (Inl e, h2) \<Rightarrow> (Inl e, joint_undo h h2)
           | (Inr status, h2) \<Rightarrow>
               if status \<noteq> ''completed'' then (Inr status, joint_undo h h2)
               else (case t_sync T (bh_pcb h2) (bh_view h2) of
                       Inl e \<Rightarrow> (Inl e, joint_undo h h2)
                     | Inr a' \<Rightarrow> (Inr status, h2\<lparr>bh_view := a', bh_last := None\<rparr>))))"

definition board_observe :: "('b, 'a) tools \<Rightarrow> (('b, 'a) board, unit) hop" where
  "board_observe T h = (t_observe T (bh_view h) (bh_pcb h), h)"

definition board_query :: "('b, 'a) tools \<Rightarrow> json \<Rightarrow> (('b, 'a) board, unit) hop" where
  "board_query T q h =
     (case t_query T q (bh_pcb h) of
        Inl e \<Rightarrow> (Inl e, h)
      | Inr rendered \<Rightarrow> (Inr (), h\<lparr>bh_images := bh_images h @ rendered\<rparr>))"

definition board_images :: "('b, 'a) tools \<Rightarrow> (('b, 'a) board, string list) hop" where
  "board_images T h =
     (let h1 = (if bh_images h = [] then h\<lparr>bh_images := t_render T (bh_pcb h)\<rparr> else h);
          n = length (bh_images h1)
      in (Inr (drop (n - 2) (bh_images h1)), h1))"

definition board_commit :: "('b, 'a) tools \<Rightarrow> string \<Rightarrow> (('b, 'a) board, unit) hop" where
  "board_commit T expected h =
     (if t_fingerprint T (bh_state h) \<noteq> bh_source h then
        (Inl (Fault ''upstream State changed; refusing stale joint commit''), h)
      else if t_digest T (bh_live h) \<noteq> bh_live_digest h then
        (Inl (Fault ''live PCB changed; refusing stale candidate commit''), h)
      else case board_assess T h of
        (Inl e, h1) \<Rightarrow> (Inl e, h1)
      | (Inr x, h1) \<Rightarrow>
          if as_invariant x \<noteq> [] then (Inl (Fault ''candidate invariant validation failed''), h1)
          else if upstream_of T (bh_joint h1) (bh_view h1) (bh_pcb h1) \<noteq> [] then
            (Inl (Fault ''joint upstream validation failed''), h1)
          else (case t_updates T (bh_joint h1) (bh_pcb h1) (bh_view h1) (bh_state h1) of
                  Inl e \<Rightarrow> (Inl e, h1)
                | Inr state \<Rightarrow>
                    (Inr (), h1\<lparr>bh_pending := Some \<lparr>pc_source = bh_live_digest h1, pc_candidate_digest = as_fingerprint x,
                                  pc_candidate = bh_pcb h1, pc_updated = state\<rparr>,
                                bh_live := bh_pcb h1, bh_state := state, bh_refresh := True\<rparr>)))"

definition board_ops :: "('b, 'a) tools \<Rightarrow> ('b, 'a) board host_ops" where
  "board_ops T =
     \<lparr>h_observe = board_observe T, h_images = board_images T, h_query = board_query T,
      h_execute = board_execute T, h_execute_joint = board_execute_joint T, h_assess = board_assess T,
      h_revalidate = None, h_checkpoint = board_checkpoint, h_rollback = board_rollback,
      h_commit = board_commit T, h_record_proposal = None, h_record_attempt = None, h_record_rejection = None\<rparr>"

subsection \<open>The host keeps its contract\<close>

definition board_saved :: "('b, 'a) board \<Rightarrow> 'b \<times> 'a" where
  "board_saved h = (bh_best h, bh_best_view h)"

definition board_current :: "('b, 'a) board \<Rightarrow> 'b \<times> 'a" where
  "board_current h = (bh_pcb h, bh_view h)"

text \<open>An assessment is what the tools say of a refilled board.\<close>

fun assessed :: "('b, 'a) tools \<Rightarrow> string \<Rightarrow> bool \<Rightarrow> 'b \<times> 'a \<Rightarrow> assessment \<Rightarrow> bool" where
  "assessed T contract joint (b, a) x =
     (\<exists>b0 report. t_refill T b0 = Some b \<and> t_drc T b = Some report \<and> x = grade T contract joint a b report)"

text \<open>The host recognises an assessed board by its digest.\<close>

fun judged_board :: "('b, 'a) tools \<Rightarrow> string \<Rightarrow> bool \<Rightarrow> 'b \<times> 'a \<Rightarrow> assessment \<Rightarrow> bool" where
  "judged_board T contract joint (b, a) x =
     (\<exists>b'. t_digest T b' = t_digest T b \<and> assessed T contract joint (b', a) x)"

fun published_board :: "('b, 'a) tools \<Rightarrow> string \<Rightarrow> bool \<Rightarrow> 'b \<times> 'a \<Rightarrow> 'b \<Rightarrow> bool" where
  "published_board T contract joint (b, a) l =
     ((l = b \<or> t_refill T b = Some l) \<and> (\<exists>x. judged_board T contract joint (l, a) x \<and> as_invariant x = []))"

definition cache_ok :: "('b, 'a) tools \<Rightarrow> string \<Rightarrow> bool \<Rightarrow> ('b, 'a) board \<Rightarrow> bool" where
  "cache_ok T contract joint h =
     (bh_contract h = contract \<and> bh_joint h = joint \<and>
      (\<forall>x. bh_last h = Some x \<longrightarrow>
        (\<exists>b. as_fingerprint x = t_digest T b \<and> assessed T contract joint (b, bh_view h) x)))"

lemma cache_ok_none [simp]:
  "bh_last h = None \<Longrightarrow> cache_ok T k j h \<longleftrightarrow> bh_contract h = k \<and> bh_joint h = j"
  by (simp add: cache_ok_def)

lemma grade_fingerprint [simp]: "as_fingerprint (grade T contract joint a b report) = t_digest T b"
  by (simp add: grade_def split: prod.splits)

lemma fresh_assess_result:
  assumes "fresh_assess T h = (r, h')" and "cache_ok T k j h"
  shows "cache_ok T k j h' \<and> bh_live h' = bh_live h \<and> board_saved h' = board_saved h \<and> bh_view h' = bh_view h \<and>
     (\<forall>x. r = Inr x \<longrightarrow> judged_board T k j (board_current h') x \<and> t_refill T (bh_pcb h) = Some (bh_pcb h'))"
proof (cases "t_refill T (bh_pcb h)")
  case None
  then show ?thesis using assms by (auto simp: fresh_assess_def)
next
  case (Some b)
  show ?thesis
  proof (cases "t_drc T b")
    case None
    then have "r = Inl (Fault ''fresh KiCad DRC report unavailable'')" "h' = h\<lparr>bh_pcb := b\<rparr>"
      using assms(1) Some by (auto simp: fresh_assess_def Let_def)
    then show ?thesis using assms(2) by (simp add: cache_ok_def board_saved_def)
  next
    case (Some report)
    let ?x = "grade T k j (bh_view h) b report"
    have h': "r = Inr ?x" "h' = h\<lparr>bh_pcb := b, bh_last := Some ?x\<rparr>"
      using assms Some \<open>t_refill T (bh_pcb h) = Some b\<close> by (auto simp: fresh_assess_def cache_ok_def Let_def)
    have "assessed T k j (b, bh_view h) ?x"
      using Some \<open>t_refill T (bh_pcb h) = Some b\<close> by (auto simp del: split_paired_Ex)
    then have "cache_ok T k j h'" "judged_board T k j (board_current h') ?x"
      using assms(2) unfolding h' cache_ok_def board_current_def by (auto simp del: assessed.simps)
    then show ?thesis using h' \<open>t_refill T (bh_pcb h) = Some b\<close> by (simp add: board_saved_def del: judged_board.simps)
  qed
qed

lemma board_assess_result:
  assumes "board_assess T h = (r, h')" and "cache_ok T k j h"
  shows "cache_ok T k j h' \<and> bh_live h' = bh_live h \<and> board_saved h' = board_saved h \<and> bh_view h' = bh_view h \<and>
     (\<forall>x. r = Inr x \<longrightarrow> judged_board T k j (board_current h') x \<and>
        (bh_pcb h' = bh_pcb h \<or> t_refill T (bh_pcb h) = Some (bh_pcb h')))"
proof (cases "\<exists>x. bh_last h = Some x \<and> as_fingerprint x = t_digest T (bh_pcb h)")
  case True
  then obtain x where x: "bh_last h = Some x" "as_fingerprint x = t_digest T (bh_pcb h)" by blast
  then obtain b where "as_fingerprint x = t_digest T b" "assessed T k j (b, bh_view h) x"
    using assms(2) by (auto simp: cache_ok_def)
  then have "judged_board T k j (board_current h) x"
    using x(2) by (auto simp: board_current_def simp del: assessed.simps)
  moreover have "r = Inr x" "h' = h" using assms(1) x by (simp_all add: board_assess_def)
  ultimately show ?thesis using assms(2) by (simp del: judged_board.simps)
next
  case False
  then have "fresh_assess T h = (r, h')" using assms(1) by (auto simp: board_assess_def split: option.splits if_splits)
  then show ?thesis using fresh_assess_result assms(2) by blast
qed

lemma board_execute_frame:
  "board_execute T script t h = (r, h') \<Longrightarrow>
     bh_live h' = bh_live h \<and> board_saved h' = board_saved h \<and> bh_view h' = bh_view h \<and> bh_last h' = bh_last h \<and>
     bh_contract h' = bh_contract h \<and> bh_joint h' = bh_joint h"
  by (auto simp: board_execute_def board_saved_def split: sum.splits option.splits if_splits nat.splits)

lemma quietI:
  "(\<And>h r h'. valid h \<Longrightarrow> f h = (r, h') \<Longrightarrow> valid h' \<and> live h' = live h \<and> saved h' = saved h) \<Longrightarrow>
     quiet valid live saved f"
  by (auto simp: quiet_def)

abbreviation quiet_board :: "('b, 'a) tools \<Rightarrow> string \<Rightarrow> bool \<Rightarrow> (('b, 'a) board, 'r) hop \<Rightarrow> bool" where
  "quiet_board T k j \<equiv> quiet (cache_ok T k j) bh_live board_saved"

lemma quiet_assess: "quiet_board T k j (board_assess T)"
  by (rule quietI) (use board_assess_result in blast)

lemma quiet_execute: "quiet_board T k j (board_execute T script t)"
  by (rule quietI) (use board_execute_frame in \<open>fastforce simp: cache_ok_def\<close>)

lemma joint_undo_frame [simp]:
  "bh_live (joint_undo h h') = bh_live h'" "board_saved (joint_undo h h') = board_saved h'"
  "cache_ok T k j (joint_undo h h') \<longleftrightarrow> bh_contract h' = k \<and> bh_joint h' = j"
  by (simp_all add: joint_undo_def board_saved_def)

lemma board_saved_update [simp]:
  "board_saved (h\<lparr>bh_view := a\<rparr>) = board_saved h"
  "board_saved (h\<lparr>bh_view := a, bh_last := x\<rparr>) = board_saved h"
  "board_saved (h\<lparr>bh_pcb := b\<rparr>) = board_saved h"
  by (simp_all add: board_saved_def)

lemma quiet_joint: "quiet_board T k j (board_execute_joint T p t)"
proof (rule quietI)
  fix h r h' assume ok: "cache_ok T k j h" and run: "board_execute_joint T p t h = (r, h')"
  note fixed = ok[unfolded cache_ok_def]
  show "cache_ok T k j h' \<and> bh_live h' = bh_live h \<and> board_saved h' = board_saved h"
  proof (cases "bh_joint h \<and> (\<exists>a. t_edit T p (bh_pcb h) (bh_view h) = Inr a)")
    case False
    then show ?thesis using ok fixed run by (auto simp: board_execute_joint_def split: if_splits sum.splits)
  next
    case True
    then obtain a where a: "bh_joint h" "t_edit T p (bh_pcb h) (bh_view h) = Inr a" by blast
    let ?h1 = "h\<lparr>bh_view := a\<rparr>"
    obtain q h2 where exec: "(if pp_script p \<noteq> [] then board_execute T (pp_script p) t ?h1 else (Inr ''completed'', ?h1)) = (q, h2)"
      by fastforce
    have frame: "bh_live h2 = bh_live h" "board_saved h2 = board_saved h" "bh_contract h2 = bh_contract h" "bh_joint h2 = bh_joint h"
      using exec board_execute_frame[of T "pp_script p" t ?h1 q h2] by (auto split: if_splits)
    show ?thesis
      using run a exec frame fixed
      by (auto simp: board_execute_joint_def Let_def split: sum.splits if_splits)
  qed
qed

lemma quiet_observe: "quiet_board T k j (board_observe T)"
  by (rule quietI) (auto simp: board_observe_def)

lemma quiet_query: "quiet_board T k j (board_query T q)"
  by (rule quietI) (auto simp: board_query_def cache_ok_def board_saved_def split: sum.splits)

lemma quiet_images: "quiet_board T k j (board_images T)"
  by (rule quietI) (auto simp: board_images_def cache_ok_def board_saved_def Let_def split: if_splits)

lemma quiet_rollback: "quiet_board T k j board_rollback"
  by (rule quietI) (auto simp: board_rollback_def board_saved_def cache_ok_def)

lemma board_commit_cases:
  assumes "board_commit T e h = (r, h')" and "cache_ok T k j h"
  obtains (refused) m where "r = Inl m" "bh_live h' = bh_live h" "bh_state h' = bh_state h"
  | (committed) x h1 state where "r = Inr ()" "board_assess T h = (Inr x, h1)" "as_invariant x = []"
      "bh_live h' = bh_pcb h1" "bh_state h' = state" "t_fingerprint T (bh_state h) = bh_source h"
      "t_digest T (bh_live h) = bh_live_digest h"
proof -
  obtain q h1 where a: "board_assess T h = (q, h1)" by fastforce
  have "bh_state h1 = bh_state h"
    using a by (auto simp: board_assess_def fresh_assess_def Let_def split: option.splits if_splits)
  moreover have "bh_live h1 = bh_live h" using board_assess_result[OF a assms(2)] by blast
  ultimately show ?thesis
    using assms(1) a refused committed
    by (auto simp: board_commit_def split: if_splits sum.splits)
qed

interpretation bhost: repair_host "board_ops T" "cache_ok T k j" bh_live board_saved board_current
    "judged_board T k j" "published_board T k j" for T :: "('b, 'a) tools" and k j
proof (unfold_locales, unfold board_ops_def host_ops.simps)
  fix h h' :: "('b, 'a) board" and x assume "cache_ok T k j h" "board_assess T h = (Inr x, h')"
  then show "judged_board T k j (board_current h') x" using board_assess_result by blast
next
  fix h h' :: "('b, 'a) board" and e u
  assume ok: "cache_ok T k j h" and commit: "board_commit T e h = (Inr u, h')"
  from commit ok show "published_board T k j (board_current h) (bh_live h')"
  proof (cases rule: board_commit_cases)
    case (committed x h1 state)
    from board_assess_result[OF committed(2) ok]
    have "judged_board T k j (board_current h1) x" "bh_pcb h1 = bh_pcb h \<or> t_refill T (bh_pcb h) = Some (bh_pcb h1)"
      "bh_view h1 = bh_view h" by auto
    then show ?thesis using committed unfolding board_current_def published_board.simps
      by (auto simp del: judged_board.simps)
  qed simp
qed (auto simp: quiet_assess quiet_execute quiet_joint quiet_observe quiet_query quiet_images quiet_rollback
      board_checkpoint_def board_rollback_def board_saved_def board_current_def cache_ok_def
      elim: board_commit_cases)

subsection \<open>Properties\<close>


text \<open>A board is its number of defects; the sandbox removes one.\<close>

definition sample_tools :: "(nat, unit) tools" where
  "sample_tools = \<lparr>t_digest = (\<lambda>n. replicate n CHR ''x''), t_fingerprint = (\<lambda>_. []), t_refill = Some,
     t_drc = (\<lambda>n. Some (n, 0, 0)), t_contract = (\<lambda>_. []), t_audit = (\<lambda>_. []), t_geometry = (\<lambda>_ _. []),
     t_placement = (\<lambda>_. ([], [])), t_upstream = (\<lambda>_ _. []),
     t_sandbox = (\<lambda>n script _. Inr (''completed'', Some (n - 1))), t_bytes = (\<lambda>_. 1), t_footprints = (\<lambda>_. Some 1),
     t_edit = (\<lambda>_ _ a. Inr a), t_sync = (\<lambda>_ a. Inr a), t_observe = (\<lambda>_ _. Inr ()), t_query = (\<lambda>_ _. Inr []),
     t_render = (\<lambda>_. []), t_view = (\<lambda>a. a), t_updates = (\<lambda>_ _ _ a. Inr a)\<rparr>"

definition sample_turn :: "nat \<Rightarrow> turn_input" where
  "sample_turn i = \<lparr>ti_before_observation = 0, ti_before_model = 0, ti_before_execution = 1,
     ti_reply = Answer (Some (JObj [(''action'', JStr ''execute_python''), (''rationale'', JStr ''via''),
       (''script'', JStr ''fix()'')]))\<rparr>"

definition sample_session :: "(host_error, bool) result \<times> (nat, unit) board session" where
  "sample_session = run_session (board_ops sample_tools) default_limits sample_turn (open_board sample_tools False 2 ())"

lemma sample_session_result: "fst sample_session = Inr True \<and> bh_live (ss_host (snd sample_session)) = 0"
  by code_simp




end
