(* ===== verification/RepairTransaction.thy ===== *)
theory RepairTransaction
  imports Prelude
begin

text \<open>
  The journaled commits of the repair subsystem: the multi-file transaction of
  \<^verbatim>\<open>src/src/ratsnestpro/repair/project_transaction.py\<close> and the board commit's recovery in
  \<^verbatim>\<open>src/src/ratsnestpro/repair/pipeline_adapter.py\<close> (\<^verbatim>\<open>recover_pending_commit\<close>). The file system
  maps paths to contents; installing a file is a copy to a staging name and an atomic
  rename, and the list of the file systems passed through is the set of states a crash can
  leave behind. The digests of contents and artifacts are parameters.
\<close>

type_synonym 'b files = "string \<Rightarrow> 'b option"

record commit_file =
  cf_target :: string
  cf_candidate :: string
  cf_source_digest :: "string option"
  cf_candidate_digest :: "string option"

record 'a journal =
  jn_id :: string
  jn_files :: "commit_file list"
  jn_updates :: "(string, 'a) dict"
  jn_sources :: "(string, string) dict"

record 'a project_state =
  ps_artifacts :: "(string, 'a) dict"
  ps_commits :: "string list"
  ps_refresh :: bool
  ps_validation :: string

datatype commit_fault =
    NewerState string
  | NewerFile string
  | StagingMismatch string
  | MissingArtifact string
  | MissingCandidate string
  | SourceChanged string
  | StateChanged

definition file_digest :: "('b \<Rightarrow> string) \<Rightarrow> 'b files \<Rightarrow> string \<Rightarrow> string option" where
  "file_digest D fs p = map_option D (fs p)"

subsection \<open>Applying a journal\<close>

definition artifact_current ::
  "(string \<Rightarrow> 'a \<Rightarrow> string) \<Rightarrow> 'a journal \<Rightarrow> 'a project_state \<Rightarrow> string \<times> 'a \<Rightarrow> (commit_fault, unit) result" where
  "artifact_current F j st entry =
     (case entry of (step, updated) \<Rightarrow>
        (case (dget (ps_artifacts st) step, dget (jn_sources j) step) of
           (Some previous, Some source) \<Rightarrow>
             demand (F step previous \<in> {source, F step updated}) (NewerState step) (Inr ())
         | _ \<Rightarrow> Inl (MissingArtifact step)))"

definition file_current :: "('b \<Rightarrow> string) \<Rightarrow> 'b files \<Rightarrow> commit_file \<Rightarrow> (commit_fault, unit) result" where
  "file_current D fs c =
     demand (file_digest D fs (cf_target c) \<in> {cf_source_digest c, cf_candidate_digest c}) (NewerFile (cf_target c))
       (demand (file_digest D fs (cf_candidate c) = cf_candidate_digest c) (StagingMismatch (cf_candidate c)) (Inr ()))"

fun check_each :: "('x \<Rightarrow> (commit_fault, unit) result) \<Rightarrow> 'x list \<Rightarrow> (commit_fault, unit) result" where
  "check_each f [] = Inr ()"
| "check_each f (x # xs) = rbind (f x) (\<lambda>_. check_each f xs)"

lemma check_each_Inr [result_simps]: "check_each f xs = Inr u \<longleftrightarrow> (\<forall>x \<in> set xs. f x = Inr ())"
  by (induction xs) (auto simp: result_simps)

definition staging :: "string \<Rightarrow> string" where
  "staging target = target @ ''.project-commit.tmp''"

text \<open>The file systems passed through, and the outcome.\<close>

fun install ::
  "('b \<Rightarrow> string) \<Rightarrow> commit_file list \<Rightarrow> 'b files \<Rightarrow> 'b files list \<times> (commit_fault, 'b files) result" where
  "install D [] fs = ([], Inr fs)"
| "install D (c # cs) fs =
     (if file_digest D fs (cf_target c) = cf_candidate_digest c then install D cs fs
      else case fs (cf_candidate c) of
        None \<Rightarrow> ([], Inl (MissingCandidate (cf_candidate c)))
      | Some b \<Rightarrow>
          (let copied = fs(staging (cf_target c) \<mapsto> b);
               replaced = copied(cf_target c \<mapsto> b, staging (cf_target c) := None);
               (trace, r) = install D cs replaced
           in (copied # replaced # trace, r)))"

definition record_commit :: "'a journal \<Rightarrow> 'a project_state \<Rightarrow> 'a project_state" where
  "record_commit j st =
     st\<lparr>ps_artifacts := foldl (\<lambda>d (k, v). dset k v d) (ps_artifacts st) (jn_updates j), ps_refresh := True,
        ps_validation := ''requires_main_release_validation'', ps_commits := ps_commits st @ [jn_id j]\<rparr>"

definition apply_journal ::
  "('b \<Rightarrow> string) \<Rightarrow> (string \<Rightarrow> 'a \<Rightarrow> string) \<Rightarrow> 'a journal \<Rightarrow> 'a project_state \<Rightarrow> 'b files
     \<Rightarrow> 'b files list \<times> (commit_fault, 'a project_state \<times> 'b files) result" where
  "apply_journal D F j st fs =
     (if jn_id j \<in> set (ps_commits st) then ([], Inr (st, fs))
      else case rbind (check_each (artifact_current F j st) (jn_updates j)) (\<lambda>_. check_each (file_current D fs) (jn_files j)) of
        Inl e \<Rightarrow> ([], Inl e)
      | Inr _ \<Rightarrow>
          (case install D (jn_files j) fs of
             (trace, Inl e) \<Rightarrow> (trace, Inl e)
           | (trace, Inr fs') \<Rightarrow> (trace, Inr (record_commit j st, fs'))))"

subsection \<open>Opening a transaction\<close>

record 'a project_host =
  ph_state :: "'a project_state"
  ph_source_digest :: string
  ph_live_dir :: string
  ph_root :: string
  ph_source_files :: "(string, string option) dict"

definition in_dir :: "string \<Rightarrow> string \<Rightarrow> string" where
  "in_dir dir name = dir @ ''/'' @ name"

definition commit_entry ::
  "('b \<Rightarrow> string) \<Rightarrow> 'a project_host \<Rightarrow> 'b files \<Rightarrow> string \<Rightarrow> (commit_fault, commit_file) result" where
  "commit_entry D h fs name =
     (let source = in_dir (ph_live_dir h) name; candidate = in_dir (ph_root h) name in
      demand (file_digest D fs source = dget_or (ph_source_files h) name None) (SourceChanged name)
        (Inr \<lparr>cf_target = source, cf_candidate = candidate, cf_source_digest = file_digest D fs source,
              cf_candidate_digest = file_digest D fs candidate\<rparr>))"

definition journal_sources ::
  "(string \<Rightarrow> 'a \<Rightarrow> string) \<Rightarrow> 'a project_state \<Rightarrow> (string, 'a) dict \<Rightarrow> (commit_fault, (string, string) dict) result" where
  "journal_sources F st updates =
     rmap (\<lambda>(step, _). case dget (ps_artifacts st) step of
        None \<Rightarrow> Inl (MissingArtifact step) | Some a \<Rightarrow> Inr (step, F step a)) updates"

text \<open>\<open>W\<close> is the digest of all artifacts, \<open>identity\<close> the digest of the journal's text.\<close>

definition open_journal ::
  "('b \<Rightarrow> string) \<Rightarrow> (string \<Rightarrow> 'a \<Rightarrow> string) \<Rightarrow> ((string, 'a) dict \<Rightarrow> string)
     \<Rightarrow> (commit_file list \<Rightarrow> (string, 'a) dict \<Rightarrow> (string, string) dict \<Rightarrow> string)
     \<Rightarrow> 'a project_host \<Rightarrow> (string, 'a) dict \<Rightarrow> string list \<Rightarrow> 'b files \<Rightarrow> (commit_fault, 'a journal) result" where
  "open_journal D F W identity h updates names fs =
     demand (W (ps_artifacts (ph_state h)) = ph_source_digest h) StateChanged
       (rbind (rmap (commit_entry D h fs) names) (\<lambda>files.
        rbind (journal_sources F (ph_state h) updates) (\<lambda>sources.
        Inr \<lparr>jn_id = identity files updates sources, jn_files = files, jn_updates = updates, jn_sources = sources\<rparr>)))"

definition commit_project ::
  "('b \<Rightarrow> string) \<Rightarrow> (string \<Rightarrow> 'a \<Rightarrow> string) \<Rightarrow> ((string, 'a) dict \<Rightarrow> string)
     \<Rightarrow> (commit_file list \<Rightarrow> (string, 'a) dict \<Rightarrow> (string, string) dict \<Rightarrow> string)
     \<Rightarrow> 'a project_host \<Rightarrow> (string, 'a) dict \<Rightarrow> string list \<Rightarrow> 'b files
     \<Rightarrow> 'b files list \<times> (commit_fault, 'a project_state \<times> 'b files) result" where
  "commit_project D F W identity h updates names fs =
     (case open_journal D F W identity h updates names fs of
        Inl e \<Rightarrow> ([], Inl e)
      | Inr j \<Rightarrow> apply_journal D F j (ph_state h) fs)"

subsection \<open>Recovery of a board commit\<close>

record 'a board_journal =
  bj_candidate_digest :: string
  bj_updates :: "(string, 'a) dict"
  bj_sources :: "(string, string) dict"

definition recover_update ::
  "(string \<Rightarrow> 'a \<Rightarrow> string) \<Rightarrow> 'a board_journal \<Rightarrow> (string, 'a) dict \<Rightarrow> (string, 'a) dict \<Rightarrow> string \<times> 'a
     \<Rightarrow> (commit_fault, (string, 'a) dict) result" where
  "recover_update F j artifacts updates entry =
     (case entry of (step, updated) \<Rightarrow>
        (case dget artifacts step of
           None \<Rightarrow> Inr updates
         | Some previous \<Rightarrow>
             (let source = dget_or (bj_sources j) step [] in
              if source \<noteq> [] \<and> F step previous \<notin> {source, F step updated} then Inl (NewerState step)
              else if F step previous \<noteq> F step updated then Inr (dset step updated updates)
              else Inr updates)))"

definition recover_pending_commit ::
  "(string \<Rightarrow> 'a \<Rightarrow> string) \<Rightarrow> 'a board_journal option \<Rightarrow> string option \<Rightarrow> (string, 'a) dict \<Rightarrow> bool
     \<Rightarrow> (commit_fault, (string, 'a) dict \<times> bool) result" where
  "recover_pending_commit F journal live artifacts refresh =
     (case (journal, live) of
        (Some j, Some digest) \<Rightarrow>
          if digest \<noteq> bj_candidate_digest j then Inr (artifacts, refresh)
          else rbind (rfold (recover_update F j artifacts) [] (bj_updates j)) (\<lambda>updates.
            Inr (foldl (\<lambda>d (k, v). dset k v d) artifacts updates, refresh \<or> updates \<noteq> []))
      | _ \<Rightarrow> Inr (artifacts, refresh))"

subsection \<open>What a crash leaves behind\<close>

text \<open>The targets, the staged candidates and the staging names do not overlap.\<close>

definition files_ok :: "commit_file list \<Rightarrow> bool" where
  "files_ok cs =
     (distinct (map cf_target cs) \<and>
      list_all (\<lambda>c. list_all (\<lambda>d. cf_target c \<noteq> cf_candidate d \<and> staging (cf_target c) \<noteq> cf_target d \<and>
        staging (cf_target c) \<noteq> cf_candidate d) cs) cs)"

definition staging_names :: "commit_file list \<Rightarrow> string set" where
  "staging_names cs = (staging \<circ> cf_target) ` set cs"

text \<open>The content a target has in the end.\<close>

definition goal_content :: "('b \<Rightarrow> string) \<Rightarrow> 'b files \<Rightarrow> commit_file \<Rightarrow> 'b option" where
  "goal_content D fs c =
     (if file_digest D fs (cf_target c) = cf_candidate_digest c then fs (cf_target c) else fs (cf_candidate c))"

text \<open>
  Between the start and the end of a transaction every target has its old or its new content
  and nothing else changes, staging files apart.
\<close>

definition between :: "('b \<Rightarrow> string) \<Rightarrow> commit_file list \<Rightarrow> 'b files \<Rightarrow> 'b files \<Rightarrow> bool" where
  "between D cs fs g =
     ((\<forall>p. p \<notin> staging_names cs \<and> p \<notin> cf_target ` set cs \<longrightarrow> g p = fs p) \<and>
      (\<forall>c \<in> set cs. g (cf_target c) \<in> {fs (cf_target c), goal_content D fs c}))"

definition finished_files :: "('b \<Rightarrow> string) \<Rightarrow> commit_file list \<Rightarrow> 'b files \<Rightarrow> 'b files \<Rightarrow> bool" where
  "finished_files D cs fs g =
     ((\<forall>p. p \<notin> staging_names cs \<and> p \<notin> cf_target ` set cs \<longrightarrow> g p = fs p) \<and>
      (\<forall>c \<in> set cs. g (cf_target c) = goal_content D fs c))"

lemma finished_between: "finished_files D cs fs g \<Longrightarrow> between D cs fs g"
  by (auto simp: finished_files_def between_def)

lemma between_start: "between D cs fs fs"
  by (auto simp: between_def)

text \<open>One installed file, seen from the files still to come.\<close>

lemma install_step:
  assumes ok: "files_ok (c # cs)" and fs': "fs' = fs(cf_target c \<mapsto> b, staging (cf_target c) := x)"
    and d: "d \<in> set cs"
  shows "fs' (cf_target d) = fs (cf_target d)" "fs' (cf_candidate d) = fs (cf_candidate d)"
    "goal_content D fs' d = goal_content D fs d"
proof -
  have "cf_target c \<noteq> cf_target d" "cf_target c \<noteq> cf_candidate d" "staging (cf_target c) \<noteq> cf_target d"
    "staging (cf_target c) \<noteq> cf_candidate d"
    using ok d by (auto simp: files_ok_def list_all_iff image_iff)
  then show "fs' (cf_target d) = fs (cf_target d)" "fs' (cf_candidate d) = fs (cf_candidate d)"
    unfolding fs' by auto
  then show "goal_content D fs' d = goal_content D fs d" by (simp add: goal_content_def file_digest_def)
qed

lemma files_ok_Cons: "files_ok (c # cs) \<Longrightarrow> files_ok cs"
  by (auto simp: files_ok_def list_all_iff)

lemma staging_names_Cons [simp]: "staging_names (c # cs) = insert (staging (cf_target c)) (staging_names cs)"
  by (simp add: staging_names_def)

lemma install_result:
  "install D cs fs = (trace, r) \<Longrightarrow> files_ok cs \<Longrightarrow>
     (\<forall>g \<in> set trace. between D cs fs g) \<and> (\<forall>fs'. r = Inr fs' \<longrightarrow> finished_files D cs fs fs')"
proof (induction cs arbitrary: fs trace r)
  case Nil
  then show ?case by (auto simp: finished_files_def)
next
  case (Cons c cs)
  note ok = files_ok_Cons[OF Cons.prems(2)]
  have fresh: "cf_target c \<notin> cf_target ` set cs" "cf_target c \<notin> staging_names cs"
    "staging (cf_target c) \<noteq> cf_target c" "\<And>d. d \<in> set cs \<Longrightarrow> cf_target d \<noteq> staging (cf_target c)"
    using Cons.prems(2) by (fastforce simp: files_ok_def list_all_iff staging_names_def staging_def)+
  show ?case
  proof (cases "file_digest D fs (cf_target c) = cf_candidate_digest c")
    case True
    then have "install D cs fs = (trace, r)" using Cons.prems(1) by simp
    from Cons.IH[OF this ok] True fresh(1,2) show ?thesis
      by (auto simp: between_def finished_files_def goal_content_def)
  next
    case False
    show ?thesis
    proof (cases "fs (cf_candidate c)")
      case None
      then show ?thesis using Cons.prems(1) False by auto
    next
      case (Some b)
      let ?copied = "fs(staging (cf_target c) \<mapsto> b)"
      let ?fs' = "fs(cf_target c \<mapsto> b, staging (cf_target c) := None)"
      obtain tr where tr: "install D cs ?fs' = (tr, r)" "trace = ?copied # ?fs' # tr"
        using Cons.prems(1) False Some fresh(3) by (auto simp: Let_def fun_upd_twist split: prod.splits)
      have same: "?fs' (cf_target d) = fs (cf_target d)" "goal_content D ?fs' d = goal_content D fs d"
        if "d \<in> set cs" for d
        by (rule install_step(1)[OF Cons.prems(2) refl that], rule install_step(3)[OF Cons.prems(2) refl that])
      have goal: "goal_content D fs c = Some b" using False Some by (simp add: goal_content_def)
      have "between D (c # cs) fs ?copied" "between D (c # cs) fs ?fs'"
        using fresh goal same(1) by (auto simp: between_def)
      moreover have "between D (c # cs) fs g" if "between D cs ?fs' g" for g
        using that fresh goal same by (auto simp: between_def)
      moreover have "finished_files D (c # cs) fs g" if "finished_files D cs ?fs' g" for g
        using that fresh goal same(2) by (auto simp: finished_files_def)
      ultimately show ?thesis using Cons.IH[OF tr(1) ok] unfolding tr(2) list.set by blast
    qed
  qed
qed

lemma install_succeeds:
  "files_ok cs \<Longrightarrow>
     (\<exists>trace fs'. install D cs fs = (trace, Inr fs')) \<longleftrightarrow>
     (\<forall>c \<in> set cs. file_digest D fs (cf_target c) = cf_candidate_digest c \<or> fs (cf_candidate c) \<noteq> None)"
proof (induction cs arbitrary: fs)
  case Nil
  then show ?case by simp
next
  case (Cons c cs)
  note ok = files_ok_Cons[OF Cons.prems]
  have ne: "staging (cf_target c) \<noteq> cf_target c" by (simp add: staging_def)
  show ?case
  proof (cases "file_digest D fs (cf_target c) = cf_candidate_digest c")
    case True
    then show ?thesis using Cons.IH[OF ok, of fs] by simp
  next
    case False
    show ?thesis
    proof (cases "fs (cf_candidate c)")
      case None
      then show ?thesis using False by auto
    next
      case (Some b)
      let ?fs' = "fs(cf_target c \<mapsto> b, staging (cf_target c) := None)"
      have "(\<exists>trace fs'. install D (c # cs) fs = (trace, Inr fs')) \<longleftrightarrow> (\<exists>trace fs'. install D cs ?fs' = (trace, Inr fs'))"
        using False Some ne by (auto simp: Let_def fun_upd_twist split: prod.splits)
      also have "\<dots> \<longleftrightarrow> (\<forall>d \<in> set cs. file_digest D ?fs' (cf_target d) = cf_candidate_digest d \<or> ?fs' (cf_candidate d) \<noteq> None)"
        by (rule Cons.IH[OF ok])
      also have "\<dots> \<longleftrightarrow> (\<forall>d \<in> set cs. file_digest D fs (cf_target d) = cf_candidate_digest d \<or> fs (cf_candidate d) \<noteq> None)"
      proof -
        have "?fs' (cf_target d) = fs (cf_target d) \<and> ?fs' (cf_candidate d) = fs (cf_candidate d)" if "d \<in> set cs" for d
          by (intro conjI install_step(1,2)[OF Cons.prems refl that])
        then show ?thesis by (simp add: file_digest_def)
      qed
      finally show ?thesis using Some by simp
    qed
  qed
qed

text \<open>Rerunning a validated installation from any state in between ends in the same place.\<close>

lemma between_current:
  assumes ok: "files_ok cs" and valid: "\<forall>c \<in> set cs. file_current D fs c = Inr ()"
    and g: "between D cs fs g" and c: "c \<in> set cs"
  shows "g (cf_candidate c) = fs (cf_candidate c)" "file_current D g c = Inr ()"
    "goal_content D g c = goal_content D fs c"
proof -
  have "cf_candidate c \<notin> staging_names cs" "cf_candidate c \<notin> cf_target ` set cs"
    using ok c by (fastforce simp: files_ok_def list_all_iff staging_names_def)+
  then show cand: "g (cf_candidate c) = fs (cf_candidate c)" using g by (simp add: between_def)
  have digest: "file_digest D fs (cf_candidate c) = cf_candidate_digest c"
    "file_digest D fs (cf_target c) \<in> {cf_source_digest c, cf_candidate_digest c}"
    using valid c by (auto simp: file_current_def result_simps)
  then have "file_digest D g (cf_target c) = file_digest D fs (cf_target c) \<and> g (cf_target c) = fs (cf_target c) \<or>
      file_digest D g (cf_target c) = cf_candidate_digest c \<and> g (cf_target c) = goal_content D fs c"
    using g c by (auto simp: between_def goal_content_def file_digest_def split: if_splits)
  then show "file_current D g c = Inr ()" "goal_content D g c = goal_content D fs c"
    using digest cand by (auto simp: file_current_def goal_content_def file_digest_def demand_def split: if_splits)
qed

text \<open>Recovering the artifacts after the board was replaced.\<close>

definition settled_update :: "(string \<Rightarrow> 'a \<Rightarrow> string) \<Rightarrow> 'a board_journal \<Rightarrow> (string, 'a) dict \<Rightarrow> string \<times> 'a \<Rightarrow> bool" where
  "settled_update F j artifacts entry =
     (case entry of (step, updated) \<Rightarrow>
        (case dget artifacts step of
           None \<Rightarrow> True
         | Some previous \<Rightarrow> dget_or (bj_sources j) step [] = [] \<or>
             F step previous \<in> {dget_or (bj_sources j) step [], F step updated}))"

lemma dget_updates:
  "dget (foldl (\<lambda>d (k, v). dset k v d) d us) k = (case dget (rev us) k of Some v \<Rightarrow> Some v | None \<Rightarrow> dget d k)"
  by (induction us arbitrary: d) (auto simp: dict_simps map_add_def split: option.splits)

lemma dict_wf_Cons: "dict_wf (u # us) \<longleftrightarrow> fst u \<notin> dom (dget us) \<and> dict_wf us"
  by (simp add: dict_wf_def dkeys_def dom_map_of_conv_image_fst)

lemma recover_succeeds:
  "(\<exists>out. rfold (recover_update F j artifacts) ups us = Inr out) \<longleftrightarrow> list_all (settled_update F j artifacts) us"
proof (induction us arbitrary: ups)
  case Nil
  then show ?case by simp
next
  case (Cons u us)
  obtain k v where u: "u = (k, v)" by fastforce
  show ?case
    using Cons.IH u
    by (auto simp: recover_update_def settled_update_def result_simps Let_def split: option.splits if_splits)
qed

lemma recover_result:
  "rfold (recover_update F j artifacts) ups us = Inr out \<Longrightarrow> dict_wf us \<Longrightarrow> dict_wf ups \<Longrightarrow>
     dict_wf out \<and> (\<forall>k. dget out k =
       (case (dget us k, dget artifacts k) of
          (Some u, Some a) \<Rightarrow> if F k a \<noteq> F k u then Some u else dget ups k
        | _ \<Rightarrow> dget ups k))"
proof (induction us arbitrary: ups)
  case Nil
  then show ?case by simp
next
  case (Cons u us)
  obtain k v where u: "u = (k, v)" by fastforce
  have fresh: "dget us k = None" and wf: "dict_wf us" using Cons.prems(2) u by (auto simp: dict_wf_Cons)
  obtain m where m: "recover_update F j artifacts ups u = Inr m"
    "rfold (recover_update F j artifacts) m us = Inr out" using Cons.prems(1) by (auto simp: result_simps)
  have "m = (case dget artifacts k of Some a \<Rightarrow> if F k a \<noteq> F k v then dset k v ups else ups | None \<Rightarrow> ups)"
    using m(1) u by (auto simp: recover_update_def Let_def split: option.splits if_splits)
  moreover from this have "dict_wf m" using Cons.prems(3) by (auto simp: dict_simps split: option.splits)
  ultimately show ?case
    using Cons.IH[OF m(2) wf] fresh u by (auto simp: dict_simps split: option.splits if_splits)
qed

lemma dget_update_all:
  "dict_wf us \<Longrightarrow> dget (foldl (\<lambda>d (k, v). dset k v d) d us) k =
     (case dget us k of Some v \<Rightarrow> Some v | None \<Rightarrow> dget d k)"
  by (induction us arbitrary: d) (auto simp: dict_wf_Cons dict_simps dom_def split: option.splits)

subsection \<open>Properties\<close>

text \<open>
  C27: a multi-file commit survives a crash at any point. Take a commit that would succeed,
  stop it anywhere (after any number of files, with any staging file half written) before
  the state was saved, and apply the journal again: it succeeds with the same state, and
  every file is what the uninterrupted commit would have made it. Once the state is saved,
  applying the journal again changes nothing.
\<close>

theorem transaction_recovers:
  assumes ok: "files_ok (jn_files j)"
    and run: "apply_journal D F j st fs = (trace, Inr (st', fs'))"
    and crash: "g0 \<in> set (fs # trace)" "\<forall>p. p \<notin> staging_names (jn_files j) \<longrightarrow> g p = g0 p"
  shows "\<exists>trace' fs''. apply_journal D F j st g = (trace', Inr (st', fs'')) \<and>
      (\<forall>p. p \<notin> staging_names (jn_files j) \<longrightarrow> fs'' p = fs' p) \<and>
      apply_journal D F j st' fs'' = ([], Inr (st', fs''))"
proof (cases "jn_id j \<in> set (ps_commits st)")
  case True
  then show ?thesis using run crash by (auto simp: apply_journal_def)
next
  case False
  let ?cs = "jn_files j"
  from False run obtain tr where files: "\<forall>c \<in> set ?cs. file_current D fs c = Inr ()"
    and artifacts: "check_each (artifact_current F j st) (jn_updates j) = Inr ()"
    and inst: "install D ?cs fs = (trace, Inr fs')" and st': "st' = record_commit j st"
    by (auto simp: apply_journal_def result_simps split: sum.splits prod.splits)
  have "between D ?cs fs g0" using crash(1) install_result[OF inst ok] between_start by auto
  moreover have targets: "cf_target c \<notin> staging_names ?cs" if "c \<in> set ?cs" for c
    using ok that by (fastforce simp: files_ok_def list_all_iff staging_names_def)
  ultimately have g: "between D ?cs fs g" using crash(2) by (auto simp: between_def)
  note current = between_current[OF ok files g]
  have "file_digest D g (cf_target c) = cf_candidate_digest c \<or> g (cf_candidate c) \<noteq> None" if c: "c \<in> set ?cs" for c
  proof -
    have "file_digest D fs (cf_target c) = cf_candidate_digest c \<or> fs (cf_candidate c) \<noteq> None"
      using install_succeeds[OF ok, of D fs] inst c by auto
    moreover have "goal_content D g c = goal_content D fs c" "g (cf_candidate c) = fs (cf_candidate c)"
      using current[OF c] by auto
    moreover have "g (cf_target c) \<in> {fs (cf_target c), goal_content D fs c}" using g c by (simp add: between_def)
    ultimately show ?thesis by (auto simp: goal_content_def file_digest_def split: if_splits)
  qed
  then obtain tr' fs'' where again: "install D ?cs g = (tr', Inr fs'')" using install_succeeds[OF ok, of D g] by blast
  have "apply_journal D F j st g = (tr', Inr (st', fs''))"
  proof -
    have "rbind (check_each (artifact_current F j st) (jn_updates j)) (\<lambda>_. check_each (file_current D g) ?cs) = Inr ()"
      using artifacts current(2) by (simp add: result_simps)
    then show ?thesis using False again st' by (simp add: apply_journal_def)
  qed
  moreover have "fs'' p = fs' p" if "p \<notin> staging_names ?cs" for p
    using install_result[OF again ok] install_result[OF inst ok] current(3) g that
    by (cases "p \<in> cf_target ` set ?cs") (auto simp: finished_files_def between_def)
  moreover have "jn_id j \<in> set (ps_commits st')" using st' by (simp add: record_commit_def)
  ultimately show ?thesis by (auto simp: apply_journal_def)
qed

definition sample_journal :: "nat journal" where
  "sample_journal = \<lparr>jn_id = ''t1'',
     jn_files = [\<lparr>cf_target = ''a'', cf_candidate = ''ca'', cf_source_digest = Some ''1'', cf_candidate_digest = Some ''2''\<rparr>,
       \<lparr>cf_target = ''b'', cf_candidate = ''cb'', cf_source_digest = None, cf_candidate_digest = Some ''3''\<rparr>],
     jn_updates = [(''layout'', 8)], jn_sources = [(''layout'', ''7'')]\<rparr>"

definition sample_state :: "nat project_state" where
  "sample_state = \<lparr>ps_artifacts = [(''layout'', 7)], ps_commits = [], ps_refresh = False, ps_validation = []\<rparr>"

definition sample_files :: "nat files" where
  "sample_files = [''a'' \<mapsto> 1, ''ca'' \<mapsto> 2, ''cb'' \<mapsto> 3]"

definition sample_file_digest :: "nat \<Rightarrow> string" where
  "sample_file_digest n = (if n = 1 then ''1'' else if n = 2 then ''2'' else if n = 3 then ''3'' else ''7'')"

abbreviation sample_apply :: "nat project_state \<Rightarrow> nat files \<Rightarrow>
    nat files list \<times> (commit_fault, nat project_state \<times> nat files) result" where
  "sample_apply \<equiv> apply_journal sample_file_digest (\<lambda>_. sample_file_digest) sample_journal"

lemmas sample_simps = apply_journal_def sample_journal_def sample_state_def sample_files_def file_current_def
  file_digest_def artifact_current_def sample_file_digest_def

lemma sample_runs: "\<exists>trace fs'. sample_apply sample_state sample_files =
    (trace, Inr (record_commit sample_journal sample_state, fs'))"
proof -
  have "files_ok (jn_files sample_journal)" by code_simp
  from install_succeeds[OF this, of sample_file_digest sample_files]
  obtain trace fs' where "install sample_file_digest (jn_files sample_journal) sample_files = (trace, Inr fs')"
    by (auto simp: sample_journal_def sample_files_def)
  moreover have "rbind (check_each (artifact_current (\<lambda>_. sample_file_digest) sample_journal sample_state) (jn_updates sample_journal))
      (\<lambda>_. check_each (file_current sample_file_digest sample_files) (jn_files sample_journal)) = Inr ()"
    by (simp add: sample_simps)
  ultimately show ?thesis by (simp add: apply_journal_def sample_state_def)
qed

text \<open>The staging copy of the first file was half written when the process died.\<close>

definition crashed_files :: "nat files" where
  "crashed_files = sample_files(staging ''a'' \<mapsto> 99)"

theorem transaction_recovers_witness:
  "\<exists>trace fs''. sample_apply sample_state crashed_files = (trace, Inr (record_commit sample_journal sample_state, fs''))"
proof -
  have ok: "files_ok (jn_files sample_journal)" by code_simp
  obtain trace fs' where run: "sample_apply sample_state sample_files = (trace, Inr (record_commit sample_journal sample_state, fs'))"
    using sample_runs by blast
  have "\<forall>p. p \<notin> staging_names (jn_files sample_journal) \<longrightarrow> crashed_files p = sample_files p"
    by (simp add: crashed_files_def staging_names_def sample_journal_def)
  from transaction_recovers[OF ok run list.set_intros(1) this] show ?thesis by blast
qed

text \<open>
  A commit never overwrites newer work. If any file is neither what it was when the
  transaction was opened nor the candidate, or any artifact is neither the recorded source
  nor the update, the transaction is refused before the first file is touched.
\<close>

theorem newer_work_kept:
  assumes new: "jn_id j \<notin> set (ps_commits st)"
    and conflict: "(\<exists>c \<in> set (jn_files j). file_digest D fs (cf_target c) \<notin> {cf_source_digest c, cf_candidate_digest c}) \<or>
      (\<exists>(step, u) \<in> set (jn_updates j). \<forall>a s. dget (ps_artifacts st) step = Some a \<longrightarrow>
         dget (jn_sources j) step = Some s \<longrightarrow> F step a \<notin> {s, F step u})"
  shows "\<exists>e. apply_journal D F j st fs = ([], Inl e)"
proof -
  have "\<exists>e. rbind (check_each (artifact_current F j st) (jn_updates j)) (\<lambda>_. check_each (file_current D fs) (jn_files j)) = Inl e"
  proof (rule ccontr)
    assume "\<not> ?thesis"
    then obtain u where "rbind (check_each (artifact_current F j st) (jn_updates j))
        (\<lambda>_. check_each (file_current D fs) (jn_files j)) = Inr u"
      by (metis sum.exhaust)
    then have "\<forall>x \<in> set (jn_updates j). artifact_current F j st x = Inr ()"
      "\<forall>c \<in> set (jn_files j). file_current D fs c = Inr ()" by (simp_all add: result_simps)
    then show False
      using conflict by (fastforce simp: artifact_current_def file_current_def result_simps split: option.splits)
  qed
  then show ?thesis using new by (auto simp: apply_journal_def)
qed

theorem newer_work_kept_witness:
  "\<exists>e. sample_apply sample_state (sample_files(''b'' \<mapsto> 5)) = ([], Inl e)"
proof (rule newer_work_kept)
  show "jn_id sample_journal \<notin> set (ps_commits sample_state)" by (simp add: sample_state_def)
  show "(\<exists>c \<in> set (jn_files sample_journal). file_digest sample_file_digest (sample_files(''b'' \<mapsto> 5)) (cf_target c)
        \<notin> {cf_source_digest c, cf_candidate_digest c}) \<or>
      (\<exists>(step, u) \<in> set (jn_updates sample_journal). \<forall>a s. dget (ps_artifacts sample_state) step = Some a \<longrightarrow>
         dget (jn_sources sample_journal) step = Some s \<longrightarrow> sample_file_digest a \<notin> {s, sample_file_digest u})"
    by (simp add: sample_journal_def file_digest_def sample_file_digest_def)
qed

text \<open>
  After a crash between the replacement of the board and the saved checkpoint, the
  recovery of a board commit brings the artifacts forward: each recorded artifact that is
  present has the fingerprint of its update, every other artifact is unchanged, a
  manufacturing refresh is demanded exactly when something changed, and recovering again
  changes nothing more. It fails exactly when some artifact is newer than the journal.
\<close>

theorem board_recovery:
  assumes wf: "dict_wf (bj_updates j)" and live: "live = Some (bj_candidate_digest j)"
  shows "(case recover_pending_commit F (Some j) live artifacts refresh of
      Inl e \<Rightarrow> \<not> list_all (settled_update F j artifacts) (bj_updates j)
    | Inr (artifacts', refresh') \<Rightarrow>
        list_all (settled_update F j artifacts) (bj_updates j) \<and>
        (\<forall>k a. dget artifacts k = Some a \<longrightarrow>
           (case dget (bj_updates j) k of
              None \<Rightarrow> dget artifacts' k = Some a
            | Some u \<Rightarrow> \<exists>a'. dget artifacts' k = Some a' \<and> F k a' = F k u)) \<and>
        (\<forall>k. dget artifacts k = None \<longrightarrow> dget artifacts' k = None) \<and>
        refresh' = (refresh \<or> (\<exists>k. dget artifacts' k \<noteq> dget artifacts k)) \<and>
        recover_pending_commit F (Some j) live artifacts' refresh' = Inr (artifacts', refresh'))"
proof (cases "rfold (recover_update F j artifacts) [] (bj_updates j)")
  case (Inl e)
  then show ?thesis using live recover_succeeds[of F j artifacts "[]" "bj_updates j"]
    by (auto simp: recover_pending_commit_def)
next
  case (Inr out)
  let ?new = "foldl (\<lambda>d (k, v). dset k v d) artifacts out"
  have run: "recover_pending_commit F (Some j) live artifacts refresh = Inr (?new, refresh \<or> out \<noteq> [])"
    using live Inr by (simp add: recover_pending_commit_def)
  have settled: "list_all (settled_update F j artifacts) (bj_updates j)"
    using recover_succeeds[of F j artifacts "[]" "bj_updates j"] Inr by blast
  from recover_result[OF Inr wf dict_simps(5)] have wfo: "dict_wf out"
    and out: "dget out k = (case (dget (bj_updates j) k, dget artifacts k) of
       (Some u, Some a) \<Rightarrow> if F k a \<noteq> F k u then Some u else None | _ \<Rightarrow> None)" for k
    by (simp_all split: option.splits)
  have new: "dget ?new k = (case (dget (bj_updates j) k, dget artifacts k) of
       (Some u, Some a) \<Rightarrow> if F k a \<noteq> F k u then Some u else Some a | (_, a) \<Rightarrow> a)" for k
    using dget_update_all[OF wfo, of artifacts k] out[of k] by (auto split: option.splits)
  have same: "\<exists>a'. dget ?new k = Some a' \<and> F k a' = F k u" if "dget artifacts k = Some a" "dget (bj_updates j) k = Some u" for k a u
    using new[of k] that by auto
  have changed: "out \<noteq> [] \<longleftrightarrow> (\<exists>k. dget ?new k \<noteq> dget artifacts k)"
  proof
    assume "out \<noteq> []"
    then obtain e es where "out = e # es" by (cases out) auto
    then have "dget out (fst e) = Some (snd e)" by simp
    then obtain k v where "dget out k = Some v" by blast
    then show "\<exists>k. dget ?new k \<noteq> dget artifacts k"
      using out[of k] new[of k] by (auto split: option.splits if_splits intro!: exI[of _ k])
  next
    assume "\<exists>k. dget ?new k \<noteq> dget artifacts k"
    then show "out \<noteq> []" by auto
  qed
  have keys: "(k, u) \<in> set (bj_updates j) \<Longrightarrow> dget (bj_updates j) k = Some u" for k u
    using wf by (simp add: dict_wf_def dkeys_def)
  have "list_all (settled_update F j ?new) (bj_updates j)"
    using same keys new by (fastforce simp: settled_update_def list_all_iff split: option.splits)
  then obtain out2 where out2: "rfold (recover_update F j ?new) [] (bj_updates j) = Inr out2"
    using recover_succeeds[of F j ?new "[]" "bj_updates j"] by blast
  from recover_result[OF this wf dict_simps(5)] have "dget out2 k = None" for k
    using same[of k] new[of k] by (auto split: option.splits)
  then have "out2 = []" by (cases out2) (auto, metis option.distinct(1))
  then have again: "recover_pending_commit F (Some j) live ?new r = Inr (?new, r)" for r
    using live out2 by (simp add: recover_pending_commit_def)
  show ?thesis
    unfolding run using settled same new changed again by (auto split: option.splits)
qed


definition sample_board :: "nat board_journal" where
  "sample_board = \<lparr>bj_candidate_digest = ''d'', bj_updates = [(''layout'', 2), (''bom'', 4)],
     bj_sources = [(''layout'', ''1'')]\<rparr>"

theorem board_recovery_witness:
  "recover_pending_commit (\<lambda>_. sample_file_digest) (Some sample_board) (Some ''d'') [(''layout'', 1), (''net'', 9)] False
     = Inr ([(''layout'', 2), (''net'', 9)], True) \<and>
   list_all (settled_update (\<lambda>_. sample_file_digest) sample_board [(''layout'', 1), (''net'', 9)]) (bj_updates sample_board)"
proof -
  have "recover_pending_commit (\<lambda>_. sample_file_digest) (Some sample_board) (Some ''d'') [(''layout'', 1), (''net'', 9)] False
     = Inr ([(''layout'', 2), (''net'', 9)], True)" by code_simp
  moreover have "dict_wf (bj_updates sample_board)" by (simp add: sample_board_def dict_wf_Cons dict_simps)
  moreover have "Some ''d'' = Some (bj_candidate_digest sample_board)" by (simp add: sample_board_def)
  ultimately show ?thesis
    using board_recovery[of sample_board "Some ''d''" "\<lambda>_. sample_file_digest" "[(''layout'', 1), (''net'', 9)]" False]
    by simp
qed

end
