(* ===== verification/Ahe.thy ===== *)
theory Ahe
  imports RepairContracts
begin

text \<open>
  The failure policy of \<^verbatim>\<open>src/src/ratsnestpro/orchestration/ahe.py\<close>: the outcome of a check
  (\<^verbatim>\<open>CheckResult\<close> of \<^verbatim>\<open>src/src/ratsnestpro/orchestration/pipeline.py\<close>), its classification by
  category, origin and recoverability, the stable identity of a failure and the governed
  action it leads to. The case-insensitive patterns of the code are lists of characters and
  wildcards; SHA-256 is a parameter \<open>D\<close> (the first 20 hexadecimal digits).
\<close>

datatype severity = SevError | SevWarning | SevInfo

datatype failure_category =
  TransientTool | StructuredOutput | EvidenceGap | SelectionCategory | ConnectivityCategory | PlacementCategory
  | RoutingCategory | VerificationCategory | HardConstraint | UnknownCategory

datatype recoverability =
  Retryable | LocallyRepairable | RevisionRequired | HitlRequired | HarnessObservation | CapabilityGap | HardConflict

datatype failure_origin = DesignOrigin | InfrastructureOrigin | HarnessOrigin | ExternalEvidenceOrigin | UnknownOrigin

datatype failure_action = RetryAction | RevisionAction | HitlAction | ObserveHarness | CapabilityGapAction | StopAction

record check_result =
  cr_name :: string
  cr_ok :: bool
  cr_severity :: severity
  cr_message :: string
  cr_blocks :: bool
  cr_origin :: "failure_origin option"
  cr_reason :: string
  cr_refs :: "string list"
  cr_evidence :: "(string, json) dict"

definition failed_check :: "check_result \<Rightarrow> bool" where
  "failed_check c = (\<not> cr_ok c \<and> cr_severity c = SevError)"

record failure =
  fl_id :: string
  fl_signature :: string
  fl_step :: string
  fl_check :: string
  fl_category :: failure_category
  fl_recoverability :: recoverability
  fl_origin :: failure_origin
  fl_reason :: string
  fl_capability :: string
  fl_message :: string
  fl_refs :: "string list"
  fl_evidence :: "(string, json) dict"

subsection \<open>Patterns\<close>

text \<open>A dot of a pattern stands for any character but a newline.\<close>

definition pattern :: "string \<Rightarrow> char option list" where
  "pattern s = map (\<lambda>c. if c = CHR ''.'' then None else Some (lower_char c)) s"

fun matches_here :: "char option list \<Rightarrow> string \<Rightarrow> bool" where
  "matches_here [] s = True"
| "matches_here (p # ps) [] = False"
| "matches_here (p # ps) (c # cs) =
     ((case p of None \<Rightarrow> c \<noteq> CHR 0x0A | Some d \<Rightarrow> lower_char c = d) \<and> matches_here ps cs)"

fun found_in :: "char option list \<Rightarrow> string \<Rightarrow> bool" where
  "found_in p [] = matches_here p []"
| "found_in p (c # cs) = (matches_here p (c # cs) \<or> found_in p cs)"

definition search_any :: "string list \<Rightarrow> string \<Rightarrow> bool" where
  "search_any ps s = list_ex (\<lambda>p. found_in (pattern p) s) ps"

definition transient_patterns :: "string list" where
  "transient_patterns = [''timeout'', ''temporar'', ''rate.limit'', ''connection.refused'', ''connection.reset'',
     ''service.unavailable'']"

definition structured_patterns :: "string list" where
  "structured_patterns = [''structured.output'', ''invalid.json'', ''json_invalid'', ''EOF while parsing'',
     ''unterminated string'', ''schema validation'']"

definition evidence_patterns :: "string list" where
  "evidence_patterns = [''datasheet'', ''evidence'', ''source'', ''catalog'']"

definition hard_prefixes :: "string list" where
  "hard_prefixes = [''immutable_'', ''fixed_constraint_'', ''forbidden_requirement'', ''identity_violation'']"

definition hard_check :: "string \<Rightarrow> bool" where
  "hard_check name = list_ex (starts_with name) hard_prefixes"

text \<open>
  References in a message: the maximal runs of word characters that are one to four capital
  letters, digits and at most one more capital letter.
\<close>

definition word_char :: "char \<Rightarrow> bool" where
  "word_char c = (let n = (of_char c :: nat) in (48 \<le> n \<and> n \<le> 57) \<or> (65 \<le> n \<and> n \<le> 90) \<or> (97 \<le> n \<and> n \<le> 122) \<or> n = 95)"

definition capital :: "char \<Rightarrow> bool" where
  "capital c = (let n = (of_char c :: nat) in 65 \<le> n \<and> n \<le> 90)"

definition digit :: "char \<Rightarrow> bool" where
  "digit c = (let n = (of_char c :: nat) in 48 \<le> n \<and> n \<le> 57)"

definition reference_word :: "string \<Rightarrow> bool" where
  "reference_word w =
     (let letters = takeWhile capital w; rest = dropWhile capital w; tail = dropWhile digit rest
      in 1 \<le> length letters \<and> length letters \<le> 4 \<and> takeWhile digit rest \<noteq> [] \<and>
         (tail = [] \<or> (length tail = 1 \<and> list_all capital tail)))"

function words_of :: "string \<Rightarrow> string list" where
  "words_of [] = []"
| "words_of (c # cs) =
     (if word_char c then (c # takeWhile word_char cs) # words_of (dropWhile word_char cs) else words_of cs)"
  by pat_completeness auto

termination words_of
  by (relation "measure length") (simp_all add: length_dropWhile_le less_Suc_eq_le)

definition references_in :: "string \<Rightarrow> string list" where
  "references_in s = filter reference_word (words_of s)"

subsection \<open>Classification\<close>

definition category_of :: "string \<Rightarrow> string \<Rightarrow> string \<Rightarrow> failure_category" where
  "category_of step name message =
     (let combined = name @ '' '' @ message in
      if hard_check name then HardConstraint
      else if search_any structured_patterns combined then StructuredOutput
      else if search_any evidence_patterns combined then EvidenceGap
      else if search_any transient_patterns combined then TransientTool
      else if step = ''selection'' then SelectionCategory
      else if starts_with step ''schematic_'' \<or> step \<in> {''erc'', ''schematic_connections''} then ConnectivityCategory
      else if starts_with step ''layout_'' then PlacementCategory
      else if starts_with step ''route_'' then RoutingCategory
      else if step = ''manufacture'' \<or> contains_sub (casefold name) ''drc'' \<or> contains_sub (casefold name) ''erc''
        then VerificationCategory
      else UnknownCategory)"

definition resolve_origin :: "failure_origin option \<Rightarrow> failure_category \<Rightarrow> failure_origin" where
  "resolve_origin origin category =
     (case origin of
        Some r \<Rightarrow> r
      | None \<Rightarrow>
          if category \<in> {TransientTool, StructuredOutput} then InfrastructureOrigin
          else if category = EvidenceGap then ExternalEvidenceOrigin
          else if category = UnknownCategory then UnknownOrigin
          else DesignOrigin)"

definition recoverability_of :: "failure_category \<Rightarrow> failure_origin \<Rightarrow> bool \<Rightarrow> recoverability" where
  "recoverability_of category origin repair_available =
     (if category = HardConstraint then HardConflict
      else if origin = InfrastructureOrigin \<or> category \<in> {TransientTool, StructuredOutput} then Retryable
      else if origin = HarnessOrigin then HarnessObservation
      else if repair_available then LocallyRepairable
      else if origin = DesignOrigin then RevisionRequired
      else HitlRequired)"

definition category_name :: "failure_category \<Rightarrow> string" where
  "category_name c =
     (case c of TransientTool \<Rightarrow> ''transient_tool'' | StructuredOutput \<Rightarrow> ''structured_output''
      | EvidenceGap \<Rightarrow> ''evidence_gap'' | SelectionCategory \<Rightarrow> ''selection'' | ConnectivityCategory \<Rightarrow> ''connectivity''
      | PlacementCategory \<Rightarrow> ''placement'' | RoutingCategory \<Rightarrow> ''routing'' | VerificationCategory \<Rightarrow> ''verification''
      | HardConstraint \<Rightarrow> ''hard_constraint'' | UnknownCategory \<Rightarrow> ''unknown'')"

definition required_capability :: "failure_category \<Rightarrow> string" where
  "required_capability c =
     (case c of SelectionCategory \<Rightarrow> ''component_selection_repair''
      | ConnectivityCategory \<Rightarrow> ''schematic_connectivity_repair''
      | PlacementCategory \<Rightarrow> ''pcb_placement_repair''
      | RoutingCategory \<Rightarrow> ''pcb_routing_repair''
      | VerificationCategory \<Rightarrow> ''verification_report_repair''
      | EvidenceGap \<Rightarrow> ''grounded_evidence_recovery''
      | TransientTool \<Rightarrow> ''resilient_tool_retry''
      | StructuredOutput \<Rightarrow> ''structured_output_recovery''
      | _ \<Rightarrow> ''unclassified_hardware_repair'')"

definition signature_source :: "string \<Rightarrow> string \<Rightarrow> failure_category \<Rightarrow> string \<Rightarrow> string option \<Rightarrow> string" where
  "signature_source step name category reason capability =
     step @ ''|'' @ name @ ''|'' @ category_name category @ ''|'' @ reason @
     (case capability of None \<Rightarrow> [] | Some c \<Rightarrow> if c = [] then [] else ''|'' @ c)"

definition make_failure ::
  "(string \<Rightarrow> string) \<Rightarrow> string \<Rightarrow> string \<Rightarrow> string \<Rightarrow> bool \<Rightarrow> failure_origin option \<Rightarrow> string \<Rightarrow> string option
     \<Rightarrow> string list \<Rightarrow> (string, json) dict \<Rightarrow> failure" where
  "make_failure D step name message repair_available origin reason capability refs evidence =
     (let category = category_of step name message;
          origin' = resolve_origin origin category;
          reason' = (if py_strip reason = [] then ''check_failed'' else py_strip reason);
          signature = D (signature_source step name category reason' capability)
      in \<lparr>fl_id = step @ '':'' @ name @ '':'' @ signature, fl_signature = signature, fl_step = step, fl_check = name,
          fl_category = category, fl_recoverability = recoverability_of category origin' repair_available,
          fl_origin = origin', fl_reason = reason',
          fl_capability = (case capability of None \<Rightarrow> required_capability category
                           | Some c \<Rightarrow> if c = [] then required_capability category else c),
          fl_message = message,
          fl_refs = fromkeys (if refs = [] then references_in message else refs),
          fl_evidence = foldl (\<lambda>d (k, v). dset k v d)
            [(''check_name'', JStr name), (''reason_code'', JStr reason'), (''message'', JStr message)] evidence\<rparr>)"

text \<open>A mutation no executor offers; \<open>quoted\<close> is the \<^verbatim>\<open>repr\<close> of the requested action.\<close>

definition label_char :: "char \<Rightarrow> bool" where
  "label_char c = (let n = (of_char c :: nat) in (97 \<le> n \<and> n \<le> 122) \<or> (48 \<le> n \<and> n \<le> 57) \<or> n = 95)"

function squeeze :: "string \<Rightarrow> string" where
  "squeeze [] = []"
| "squeeze (c # cs) =
     (if label_char c then c # squeeze cs
      else CHR ''_'' # squeeze (dropWhile (\<lambda>d. \<not> label_char d) cs))"
  by pat_completeness auto

termination squeeze
  by (relation "measure length") (simp_all add: length_dropWhile_le less_Suc_eq_le)

definition action_label :: "string \<Rightarrow> string" where
  "action_label requested =
     (let bare = (\<lambda>c. c = CHR ''_'');
          s = rev (dropWhile bare (rev (dropWhile bare (squeeze (casefold (py_strip requested))))))
      in if s = [] then ''unknown'' else s)"

definition missing_mutation_failure ::
  "(string \<Rightarrow> string) \<Rightarrow> string \<Rightarrow> string \<Rightarrow> string \<Rightarrow> string \<Rightarrow> string list \<Rightarrow> (string, json) dict \<Rightarrow> failure" where
  "missing_mutation_failure D step requested quoted message refs evidence =
     (let label = action_label requested;
          namespace = (if label \<in> {''upsert_net_pin'', ''remove_net_pin'', ''set_no_connect''}
                       then ''eda.schematic'' else ''eda.pcb'');
          required = namespace @ ''.mutation.'' @ label
      in make_failure D step (''cad_action:'' @ label)
           (if message = [] then ''CAD mutation action '' @ quoted @ '' is unavailable'' else message)
           False (Some HarnessOrigin) ''missing_mutation_capability'' (Some required)
           (if refs = [] then [''__CAD_MUTATION__''] else refs)
           (foldl (\<lambda>d (k, v). dset k v d)
             [(''requested_action'', JStr requested), (''required_capability'', JStr required)] evidence))"

subsection \<open>Attribution\<close>

datatype ahe_fault = CountsNotPositive | NotACapabilityGap

record attribution =
  ab_action :: failure_action
  ab_reason :: string
  ab_origin :: failure_origin
  ab_runs :: int
  ab_projects :: int

definition attribute_failure :: "failure \<Rightarrow> int \<Rightarrow> int \<Rightarrow> (ahe_fault, attribution) result" where
  "attribute_failure f runs projects =
     (if runs < 1 \<or> projects < 1 then Inl CountsNotPositive
      else (let (a, r) =
              (if fl_recoverability f = HardConflict then (StopAction, ''hard_constraint_conflict'')
               else (case fl_origin f of
                  InfrastructureOrigin \<Rightarrow> (RetryAction, ''infrastructure_transient'')
                | DesignOrigin \<Rightarrow> (RevisionAction, ''ordinary_design_issue'')
                | ExternalEvidenceOrigin \<Rightarrow> (HitlAction, ''evidence_or_substitution_decision_required'')
                | HarnessOrigin \<Rightarrow>
                    if runs \<ge> 2 \<and> projects \<ge> 2 then (CapabilityGapAction, ''cross_run_reproducible_harness_defect'')
                    else (ObserveHarness, ''harness_defect_not_yet_cross_run_reproducible'')
                | UnknownOrigin \<Rightarrow> (HitlAction, ''origin_unclassified_fail_closed'')))
            in Inr \<lparr>ab_action = a, ab_reason = r, ab_origin = fl_origin f, ab_runs = runs, ab_projects = projects\<rparr>))"

record capability_gap =
  cg_id :: string
  cg_signature :: string
  cg_step :: string
  cg_check :: string
  cg_category :: failure_category
  cg_message :: string
  cg_capability :: string
  cg_refs :: "string list"

definition make_capability_gap :: "failure \<Rightarrow> (ahe_fault, capability_gap) result" where
  "make_capability_gap f =
     (if fl_recoverability f \<noteq> CapabilityGap then Inl NotACapabilityGap
      else Inr \<lparr>cg_id = ''gap:'' @ fl_signature f, cg_signature = fl_signature f, cg_step = fl_step f,
                cg_check = fl_check f, cg_category = fl_category f, cg_message = fl_message f,
                cg_capability = (if fl_capability f = [] then ''unclassified_hardware_repair'' else fl_capability f),
                cg_refs = fl_refs f\<rparr>)"


subsection \<open>Properties\<close>

lemma bar_split: "CHR ''|'' \<notin> set x \<Longrightarrow> CHR ''|'' \<notin> set y \<Longrightarrow> x @ CHR ''|'' # r = y @ CHR ''|'' # s \<longleftrightarrow> x = y \<and> r = s"
proof (induction x arbitrary: y)
  case Nil
  then show ?case by (cases y) auto
next
  case (Cons a x)
  then show ?case by (cases y) auto
qed

lemma bar_end: "CHR ''|'' \<notin> set x \<Longrightarrow> CHR ''|'' \<notin> set y \<Longrightarrow> x @ CHR ''|'' # r \<noteq> y"
  by auto

lemma category_name_inj: "category_name c = category_name d \<longleftrightarrow> c = d"
  by (cases c; cases d) (simp_all add: category_name_def)

lemma category_name_plain: "CHR ''|'' \<notin> set (category_name c)"
  by (cases c) (simp_all add: category_name_def)

definition given_capability :: "string option \<Rightarrow> string" where
  "given_capability c = (case c of None \<Rightarrow> [] | Some s \<Rightarrow> s)"

lemma signature_source_eq:
  assumes "\<forall>x \<in> {step1, name1, reason1, step2, name2, reason2}. CHR ''|'' \<notin> set x"
  shows "signature_source step1 name1 c1 reason1 k1 = signature_source step2 name2 c2 reason2 k2 \<longleftrightarrow>
    step1 = step2 \<and> name1 = name2 \<and> c1 = c2 \<and> reason1 = reason2 \<and> given_capability k1 = given_capability k2"
  using assms bar_end[of reason1 reason2] bar_end[of reason2 reason1]
  by (auto simp: signature_source_def bar_split category_name_plain category_name_inj given_capability_def
      split: option.splits)

lemma make_failure_simps:
  "fl_signature (make_failure D step name message av origin reason cap refs ev) =
     D (signature_source step name (category_of step name message)
         (fl_reason (make_failure D step name message av origin reason cap refs ev)) cap)"
  "fl_reason (make_failure D step name message av origin reason cap refs ev) =
     (if py_strip reason = [] then ''check_failed'' else py_strip reason)"
  "fl_category (make_failure D step name message av origin reason cap refs ev) = category_of step name message"
  "fl_origin (make_failure D step name message av origin reason cap refs ev) =
     resolve_origin origin (category_of step name message)"
  "fl_recoverability (make_failure D step name message av origin reason cap refs ev) =
     recoverability_of (category_of step name message) (resolve_origin origin (category_of step name message)) av"
  by (simp_all add: make_failure_def Let_def)

text \<open>
  The signature of a failure is stable and board-independent, and still tells failures
  apart: two failures have the same signature exactly when their step, check, category,
  reason and explicitly demanded capability agree, whatever their messages, references,
  evidence, origins and repair options are. (The hash separates the two sources at hand;
  step, check and reason names hold no bar.)
\<close>

theorem failure_signature:
  assumes f: "f = make_failure D step1 name1 message1 av1 origin1 reason1 cap1 refs1 ev1"
    and g: "g = make_failure D step2 name2 message2 av2 origin2 reason2 cap2 refs2 ev2"
    and names: "\<forall>x \<in> {step1, name1, fl_reason f, step2, name2, fl_reason g}. CHR ''|'' \<notin> set x"
    and hash: "\<forall>s t. {s, t} \<subseteq> {signature_source step1 name1 (fl_category f) (fl_reason f) cap1,
        signature_source step2 name2 (fl_category g) (fl_reason g) cap2} \<longrightarrow> D s = D t \<longrightarrow> s = t"
  shows "fl_signature f = fl_signature g \<longleftrightarrow>
    step1 = step2 \<and> name1 = name2 \<and> fl_category f = fl_category g \<and> fl_reason f = fl_reason g \<and>
    given_capability cap1 = given_capability cap2"
proof -
  let ?s = "signature_source step1 name1 (fl_category f) (fl_reason f) cap1"
  let ?t = "signature_source step2 name2 (fl_category g) (fl_reason g) cap2"
  have "fl_signature f = D ?s" "fl_signature g = D ?t"
    unfolding f g by (simp_all add: make_failure_simps(1,3))
  moreover have "D ?s = D ?t \<longrightarrow> ?s = ?t" by (rule hash[THEN spec, THEN spec, THEN mp]) blast
  ultimately have "fl_signature f = fl_signature g \<longleftrightarrow> ?s = ?t" by metis
  then show ?thesis using signature_source_eq[OF names] by simp
qed

theorem failure_signature_witness:
  "fl_signature (make_failure id ''erc'' ''pins'' ''U1 timeout'' True None '''' None [] []) \<noteq>
   fl_signature (make_failure id ''erc'' ''pins'' ''U1 floating'' True None '''' None [] [])"
proof -
  let ?f = "make_failure id ''erc'' ''pins'' ''U1 timeout'' True None '''' None [] []"
  let ?g = "make_failure id ''erc'' ''pins'' ''U1 floating'' True None '''' None [] []"
  have r: "fl_reason ?f = ''check_failed''" "fl_reason ?g = ''check_failed''" by code_simp+
  have "fl_category ?f = TransientTool \<and> fl_category ?g = ConnectivityCategory" by code_simp
  moreover have "\<forall>x \<in> {''erc'', ''pins'', fl_reason ?f, ''erc'', ''pins'', fl_reason ?g}. CHR ''|'' \<notin> set x"
    unfolding r by simp
  then have "fl_signature ?f = fl_signature ?g \<longleftrightarrow> ''erc'' = ''erc'' \<and> ''pins'' = ''pins'' \<and>
      fl_category ?f = fl_category ?g \<and> fl_reason ?f = fl_reason ?g \<and> given_capability None = given_capability None"
    by (rule failure_signature[OF refl refl]) (simp only: id_apply simp_thms)
  ultimately show ?thesis by simp
qed

text \<open>
  The failure policy is fail-closed. A fixed-constraint check always stops, and nothing
  else does; an origin stated by the check decides the action, so the wording of a message
  never turns a design or evidence issue into a retry; an unclassified failure goes to a
  human; one run or one project never establishes a capability gap; and no failure made from
  a check is accepted as a capability gap record.
\<close>

theorem failure_policy:
  assumes f: "f = make_failure D step name message av origin reason cap refs ev"
    and attr: "attribute_failure f runs projects = Inr a"
  shows "(ab_action a = StopAction \<longleftrightarrow> hard_check name) \<and>
    (\<forall>r. origin = Some r \<longrightarrow> \<not> hard_check name \<longrightarrow>
       (ab_action a = RetryAction \<longleftrightarrow> r = InfrastructureOrigin) \<and> (ab_action a = RevisionAction \<longleftrightarrow> r = DesignOrigin)) \<and>
    (fl_origin f = UnknownOrigin \<longrightarrow> ab_action a \<in> {StopAction, HitlAction}) \<and>
    (ab_action a = CapabilityGapAction \<longrightarrow> origin = Some HarnessOrigin \<and> runs \<ge> 2 \<and> projects \<ge> 2) \<and>
    make_capability_gap f = Inl NotACapabilityGap"
proof -
  have hard: "category_of step name message = HardConstraint \<longleftrightarrow> hard_check name"
    by (auto simp: category_of_def Let_def)
  have stop: "fl_recoverability f = HardConflict \<longleftrightarrow> hard_check name"
    using hard by (auto simp: f make_failure_simps recoverability_of_def)
  have origin: "fl_origin f = resolve_origin origin (category_of step name message)" by (simp add: f make_failure_simps)
  have "fl_recoverability f \<noteq> CapabilityGap" by (simp add: f make_failure_simps recoverability_of_def)
  then have gap: "make_capability_gap f = Inl NotACapabilityGap" by (simp add: make_capability_gap_def)
  have stated: "fl_origin f = HarnessOrigin \<Longrightarrow> origin = Some HarnessOrigin"
    unfolding origin by (auto simp: resolve_origin_def split: option.splits if_splits)
  have action: "ab_action a = (if hard_check name then StopAction else case fl_origin f of
      InfrastructureOrigin \<Rightarrow> RetryAction | DesignOrigin \<Rightarrow> RevisionAction | ExternalEvidenceOrigin \<Rightarrow> HitlAction
    | HarnessOrigin \<Rightarrow> (if runs \<ge> 2 \<and> projects \<ge> 2 then CapabilityGapAction else ObserveHarness)
    | UnknownOrigin \<Rightarrow> HitlAction)"
    using attr unfolding attribute_failure_def stop by (cases "fl_origin f") (auto simp: Let_def split: if_splits)
  have given: "origin = Some r \<Longrightarrow> fl_origin f = r" for r unfolding origin by (simp add: resolve_origin_def)
  show ?thesis
    using gap stated given unfolding action by (cases "fl_origin f") auto
qed

lemma attribute_total: "1 \<le> runs \<Longrightarrow> 1 \<le> projects \<Longrightarrow> \<exists>a. attribute_failure f runs projects = Inr a"
  by (simp add: attribute_failure_def Let_def split_def)

theorem failure_policy_witness:
  "\<exists>a. attribute_failure (make_failure id ''route_signals'' ''signals'' ''service unavailable'' True
     (Some DesignOrigin) '''' None [] []) 1 1 = Inr a \<and> ab_action a = RevisionAction"
proof -
  let ?f = "make_failure id ''route_signals'' ''signals'' ''service unavailable'' True (Some DesignOrigin) '''' None [] []"
  have "fl_origin ?f = DesignOrigin" "\<not> hard_check ''signals''" by code_simp+
  moreover obtain a where a: "attribute_failure ?f 1 1 = Inr a" using attribute_total[of 1 1 ?f] by auto
  moreover note failure_policy[OF refl a]
  ultimately show ?thesis by auto
qed

end
