(* ===== verification/CandidateFiles.thy ===== *)
theory CandidateFiles
  imports RepairContracts "HOL-Library.List_Lexorder" "HOL-Library.Char_ord"
begin

text \<open>
  The file transactions around every repair candidate, in
  \<^verbatim>\<open>src/src/ratsnestpro/orchestration/pipeline.py\<close>: which files of a run directory belong to
  the candidate, the snapshot before an attempt, the name of a snapshot and its validation,
  and the restore with its staging, installation and roll-back. A run directory is a
  dictionary from relative paths (their parts) to contents, with the snapshots beside it by
  name. Which of the file operations fail is an input. The transaction directory of a
  restore lies in the run directory but is excluded from the managed files and removed at
  the end, and links are skipped by the code: neither is represented.
\<close>

type_synonym 'c tree = "(string list, 'c) dict"

record 'c run_dir =
  rd_configured :: bool
  rd_exists :: bool
  rd_name :: string
  rd_files :: "'c tree"
  rd_backups :: "(string, 'c tree) dict"

subsection \<open>Managed files\<close>

definition snapshot_dir :: string where
  "snapshot_dir = ''.ratsnest-candidate-transactions''"

definition restore_prefix :: string where
  "restore_prefix = ''.candidate-restore-''"

definition candidate_excludes :: "string list" where
  "candidate_excludes = [''pipeline_state.json'', ''pipeline_result.json'', ''temporal_recovery.json'']"

definition candidate_managed_file :: "string list \<Rightarrow> bool" where
  "candidate_managed_file parts =
     (case parts of
        [] \<Rightarrow> False
      | root # _ \<Rightarrow>
          (let name = casefold (last parts) in
           root \<noteq> snapshot_dir \<and> root \<noteq> ''.strong-repair'' \<and> root \<noteq> ''technical-evidence'' \<and>
           \<not> starts_with root restore_prefix \<and> name \<notin> set candidate_excludes \<and>
           \<not> starts_with name ''temporal_input'' \<and> \<not> ends_with name ''.jsonl'' \<and> \<not> ends_with name ''.tmp''))"

definition managed :: "'c tree \<Rightarrow> 'c tree" where
  "managed = filter (\<lambda>(p, _). candidate_managed_file p)"

subsection \<open>Snapshots\<close>

definition portable_char :: "char \<Rightarrow> bool" where
  "portable_char c =
     (let n = (of_char c :: nat) in (48 \<le> n \<and> n \<le> 57) \<or> (65 \<le> n \<and> n \<le> 90) \<or> (97 \<le> n \<and> n \<le> 122)
        \<or> c = CHR ''_'' \<or> c = CHR ''.'' \<or> c = CHR ''-'')"

definition dash_label :: "string \<Rightarrow> string" where
  "dash_label label =
     (let bare = (\<lambda>c. c = CHR ''.'' \<or> c = CHR ''-'');
          s = map (\<lambda>c. if portable_char c then c else CHR ''-'') label
      in take 80 (rev (dropWhile bare (rev (dropWhile bare s)))))"

definition snapshot_label :: "string \<Rightarrow> string" where
  "snapshot_label label = (if dash_label label = [] then ''candidate'' else dash_label label) @ ''-''"

text \<open>
  \<open>mk\<close> stands for \<^verbatim>\<open>tempfile.mkdtemp\<close>: the name it makes of a prefix, given the names that
  exist. A code run without an output directory takes no snapshot and gets an empty name.
\<close>

definition snapshot_candidate_files ::
  "(string \<Rightarrow> string list \<Rightarrow> string) \<Rightarrow> string \<Rightarrow> 'c run_dir \<Rightarrow> string \<times> 'c run_dir" where
  "snapshot_candidate_files mk label d =
     (if \<not> rd_configured d \<or> \<not> rd_exists d then ([], d)
      else (let name = mk (snapshot_label label) (dkeys (rd_backups d))
            in (name, d\<lparr>rd_backups := dset name (managed (rd_files d)) (rd_backups d)\<rparr>)))"

datatype snapshot_fault = SnapshotEscaped | SnapshotMissing | RestoreFailed

definition slash :: "char \<Rightarrow> char" where
  "slash c = (if c = CHR 0x5C then CHR ''/'' else c)"

text \<open>\<open>Inr None\<close> where there is nothing to restore.\<close>

definition validated_snapshot ::
  "string \<Rightarrow> 'c run_dir \<Rightarrow> (snapshot_fault, (string \<times> 'c tree) option) result" where
  "validated_snapshot value d =
     (if value = [] \<or> \<not> rd_configured d then Inr None
      else (let parts = relative_parts (map slash (py_strip value)); n = length parts in
            if parts = [] then Inr None
            else (let leaf = last parts;
                      portable = (n = 1);
                      legacy = (n \<ge> 3 \<and> parts ! (n - 3) = snapshot_dir \<and> parts ! (n - 2) = rd_name d)
                  in if \<not> (portable \<or> legacy) \<or> leaf = ''.'' \<or> leaf = ''..'' \<or> leaf = [] \<or> \<not> list_all portable_char leaf
                     then Inl SnapshotEscaped
                     else (case dget (rd_backups d) leaf of
                             None \<Rightarrow> Inl SnapshotMissing
                           | Some files \<Rightarrow> Inr (Some (leaf, files))))))"

text \<open>\<open>stuck\<close>: the removal of the directory fails, and is left for later.\<close>

definition discard_candidate_files ::
  "bool \<Rightarrow> string \<Rightarrow> 'c run_dir \<Rightarrow> (snapshot_fault, 'c run_dir) result" where
  "discard_candidate_files stuck value d =
     (case validated_snapshot value d of
        Inl SnapshotMissing \<Rightarrow> Inr d
      | Inl e \<Rightarrow> Inl e
      | Inr None \<Rightarrow> Inr d
      | Inr (Some (leaf, _)) \<Rightarrow> Inr (if stuck then d else d\<lparr>rd_backups := ddel leaf (rd_backups d)\<rparr>))"

subsection \<open>Restore\<close>

text \<open>What fails: a copy while staging, a replacement, its undoing, a removal, the discarding.\<close>

record restore_faults =
  rf_staging :: bool
  rf_install :: "string list list"
  rf_undo :: "string list list"
  rf_unlink :: "string list list"
  rf_stuck :: bool

definition no_faults :: restore_faults where
  "no_faults = \<lparr>rf_staging = False, rf_install = [], rf_undo = [], rf_unlink = [], rf_stuck = False\<rparr>"

definition posix_order :: "string list list \<Rightarrow> string list list" where
  "posix_order = sort_key (py_join ''/'')"

fun install_files ::
  "string list list \<Rightarrow> 'c tree \<Rightarrow> string list list \<Rightarrow> 'c tree \<Rightarrow> string list list \<Rightarrow> bool \<times> 'c tree \<times> string list list" where
  "install_files bad backup [] files installed = (True, files, installed)"
| "install_files bad backup (p # ps) files installed =
     (case dget backup p of
        Some c \<Rightarrow>
          if p \<in> set bad then (False, files, installed)
          else install_files bad backup ps (dset p c files) (p # installed)
      | None \<Rightarrow> (False, files, installed))"

text \<open>\<open>installed\<close> has the last installed path first; the first undoing that fails ends the roll-back.\<close>

fun undo_files :: "string list list \<Rightarrow> 'c tree \<Rightarrow> string list list \<Rightarrow> 'c tree \<Rightarrow> 'c tree" where
  "undo_files bad previous [] files = files"
| "undo_files bad previous (p # ps) files =
     (if p \<in> set bad then files
      else undo_files bad previous ps
             (case dget previous p of Some c \<Rightarrow> dset p c files | None \<Rightarrow> ddel p files))"

definition clean_files :: "string list list \<Rightarrow> 'c tree \<Rightarrow> 'c tree \<Rightarrow> 'c tree \<Rightarrow> 'c tree" where
  "clean_files bad backup current files =
     filter (\<lambda>(p, _). \<not> (p \<in> set (dkeys current) \<and> p \<notin> set (dkeys backup) \<and> p \<notin> set bad)) files"

definition restore_tree ::
  "restore_faults \<Rightarrow> 'c tree \<Rightarrow> 'c tree \<Rightarrow> bool \<times> 'c tree" where
  "restore_tree f backup files =
     (if rf_staging f then (False, files)
      else (let current = managed files in
            case install_files (rf_install f) backup (posix_order (dkeys backup)) files [] of
              (False, files', installed) \<Rightarrow> (False, undo_files (rf_undo f) current installed files')
            | (True, files', _) \<Rightarrow> (True, clean_files (rf_unlink f) backup current files')))"

definition restore_candidate_files ::
  "restore_faults \<Rightarrow> string \<Rightarrow> 'c run_dir \<Rightarrow> (snapshot_fault, unit) result \<times> 'c run_dir" where
  "restore_candidate_files f value d =
     (case validated_snapshot value d of
        Inl e \<Rightarrow> (Inl e, d)
      | Inr None \<Rightarrow> (Inr (), d)
      | Inr (Some (leaf, backup)) \<Rightarrow>
          (case restore_tree f backup (rd_files d) of
             (False, files) \<Rightarrow> (Inl RestoreFailed, d\<lparr>rd_files := files\<rparr>)
           | (True, files) \<Rightarrow>
               (case discard_candidate_files (rf_stuck f) value (d\<lparr>rd_files := files\<rparr>) of
                  Inl e \<Rightarrow> (Inl e, d\<lparr>rd_files := files\<rparr>)
                | Inr d' \<Rightarrow> (Inr (), d'))))"


subsection \<open>What a restore does\<close>

lemma map_of_filter_key: "map_of (filter (\<lambda>(k, _). P k) d) k = (if P k then map_of d k else None)"
  by (induction d) auto

lemma dget_managed: "dget (managed t) p = (if candidate_managed_file p then dget t p else None)"
  by (simp add: managed_def map_of_filter_key)

lemma posix_order [simp]:
  "set (posix_order ps) = set ps" "distinct (posix_order ps) = distinct ps"
  by (simp_all add: posix_order_def)

lemma install_copies:
  "install_files bad backup ps files installed = (ok, files', installed') \<Longrightarrow> set ps \<subseteq> dom (dget backup) \<Longrightarrow>
   \<exists>qs. set installed' = set qs \<union> set installed \<and> set qs \<subseteq> set ps \<and>
     (\<forall>p. dget files' p = (if p \<in> set qs then dget backup p else dget files p)) \<and>
     (ok \<longrightarrow> set qs = set ps) \<and> (bad = [] \<longrightarrow> ok)"
proof (induction bad backup ps files installed rule: install_files.induct)
  case (1 bad backup files installed)
  then show ?case by (intro exI[of _ "[]"]) auto
next
  case (2 bad backup p ps files installed)
  then obtain c where c: "dget backup p = Some c" by auto
  show ?case
  proof (cases "p \<in> set bad")
    case True
    then show ?thesis using 2 c by (intro exI[of _ "[]"]) auto
  next
    case False
    with 2(2) c have "install_files bad backup ps (dset p c files) (p # installed) = (ok, files', installed')" by simp
    from 2(1)[OF c False this] 2(3) obtain qs where qs: "set installed' = set qs \<union> set (p # installed)"
      "set qs \<subseteq> set ps" "\<forall>q. dget files' q = (if q \<in> set qs then dget backup q else dget (dset p c files) q)"
      "ok \<longrightarrow> set qs = set ps" "bad = [] \<longrightarrow> ok" by auto
    show ?thesis using qs c by (intro exI[of _ "p # qs"]) (auto simp: dict_simps)
  qed
qed

lemma undo_result:
  "dget (undo_files [] previous ps files) p = (if p \<in> set ps then dget previous p else dget files p)"
  by (induction "[] :: string list list" previous ps files rule: undo_files.induct)
    (auto simp: dict_simps split: option.splits)

lemma dget_clean:
  "dget (clean_files bad backup current files) p =
     (if p \<in> dom (dget current) \<and> p \<notin> dom (dget backup) \<and> p \<notin> set bad then None else dget files p)"
  by (auto simp: clean_files_def map_of_filter_key set_dkeys)

lemma restore_tree_result:
  assumes run: "restore_tree f backup files = (ok, files')"
    and own: "\<And>p. p \<in> dom (dget backup) \<Longrightarrow> candidate_managed_file p" and undo: "rf_undo f = []"
  shows "\<not> ok \<Longrightarrow> dget files' = dget files"
    and "ok \<Longrightarrow> \<not> candidate_managed_file p \<Longrightarrow> dget files' p = dget files p"
    and "ok \<Longrightarrow> candidate_managed_file p \<Longrightarrow> dget files' p =
      (if p \<in> set (rf_unlink f) \<and> dget backup p = None then dget files p else dget backup p)"
    and "\<not> rf_staging f \<Longrightarrow> rf_install f = [] \<Longrightarrow> ok"
proof -
  obtain good files1 installed where inst:
    "install_files (rf_install f) backup (posix_order (dkeys backup)) files [] = (good, files1, installed)"
    by (metis prod_cases3)
  have "set (posix_order (dkeys backup)) \<subseteq> dom (dget backup)" by (simp add: set_dkeys)
  from install_copies[OF inst this] obtain qs where qs: "set installed = set qs"
    "set qs \<subseteq> dom (dget backup)" "\<And>p. dget files1 p = (if p \<in> set qs then dget backup p else dget files p)"
    "good \<longrightarrow> set qs = dom (dget backup)" "rf_install f = [] \<longrightarrow> good"
    by (auto simp: set_dkeys)
  have bad: "dget (undo_files [] (managed files) installed files1) p = dget files p" for p
  proof (cases "p \<in> set qs")
    case True
    then have "candidate_managed_file p" using qs(2) own by blast
    then show ?thesis using True qs(1) by (simp add: dget_managed undo_result)
  next
    case False
    then show ?thesis using qs(1,3) by (simp add: undo_result)
  qed
  show "\<not> ok \<Longrightarrow> dget files' = dget files"
    using run inst bad undo by (auto simp: restore_tree_def Let_def fun_eq_iff split: if_splits bool.splits)
  have fine: "files' = clean_files (rf_unlink f) backup (managed files) files1 \<and> good" if ok
    using run inst that by (auto simp: restore_tree_def Let_def split: if_splits bool.splits)
  show "ok \<Longrightarrow> \<not> candidate_managed_file p \<Longrightarrow> dget files' p = dget files p"
    using fine qs(3,4) own[of p] by (auto simp: dget_clean dget_managed)
  show "ok \<Longrightarrow> candidate_managed_file p \<Longrightarrow> dget files' p =
      (if p \<in> set (rf_unlink f) \<and> dget backup p = None then dget files p else dget backup p)"
    using fine qs by (auto simp: dget_clean dget_managed domIff)
  show "\<not> rf_staging f \<Longrightarrow> rf_install f = [] \<Longrightarrow> ok"
    using run inst qs by (auto simp: restore_tree_def Let_def)
qed

subsection \<open>The names of snapshots\<close>

text \<open>What \<^verbatim>\<open>mkdtemp\<close> documents: a new name with the prefix and a portable suffix.\<close>

definition fresh_names :: "(string \<Rightarrow> string list \<Rightarrow> string) \<Rightarrow> bool" where
  "fresh_names mk = (\<forall>prefix names. mk prefix names \<notin> set names \<and>
     (\<exists>s. mk prefix names = prefix @ s \<and> list_all portable_char s))"

lemma portable_plain: "portable_char c \<Longrightarrow> \<not> py_space c \<and> c \<noteq> CHR ''/'' \<and> c \<noteq> CHR 0x5C"
  by (auto simp: portable_char_def py_space_def Let_def)

lemma portable_label: "list_all portable_char (snapshot_label label)"
proof -
  have dash: "portable_char CHR ''-''" by (simp add: portable_char_def)
  have "set (dash_label label) \<subseteq> (\<lambda>c. if portable_char c then c else CHR ''-'') ` set label"
    by (auto simp: dash_label_def Let_def dest!: in_set_takeD set_dropWhileD)
  then have "list_all portable_char (dash_label label)" using dash by (auto simp: list_all_iff)
  moreover have "list_all portable_char ''candidate-''" by code_simp
  ultimately show ?thesis using dash by (simp add: snapshot_label_def)
qed

lemma split_on_none: "c \<notin> set s \<Longrightarrow> split_on c s = [s]"
  by (induction c s rule: split_on.induct) auto

lemma strip_none:
  assumes "\<forall>c \<in> set s. \<not> py_space c"
  shows "py_strip s = s"
proof -
  have "dropWhile py_space t = t" if "\<forall>c \<in> set t. \<not> py_space c" for t
    using that by (cases t) auto
  from this[of s] this[of "rev s"] show ?thesis using assms by (simp add: py_strip_def)
qed

lemma validated_portable:
  assumes name: "list_all portable_char v" "v \<noteq> []" "v \<noteq> ''.''" "v \<noteq> ''..''" and conf: "rd_configured d"
  shows "validated_snapshot v d =
    (case dget (rd_backups d) v of None \<Rightarrow> Inl SnapshotMissing | Some files \<Rightarrow> Inr (Some (v, files)))"
proof -
  have plain: "\<forall>c \<in> set v. \<not> py_space c \<and> c \<noteq> CHR ''/'' \<and> c \<noteq> CHR 0x5C"
    using name(1) portable_plain by (auto simp: list_all_iff)
  have "map slash v = v" by (rule map_idI) (use plain in \<open>auto simp: slash_def\<close>)
  moreover have "py_strip v = v" by (rule strip_none) (use plain in blast)
  moreover have "split_on CHR ''/'' v = [v]" by (rule split_on_none) (use plain in blast)
  ultimately have "relative_parts (map slash (py_strip v)) = [v]"
    using name(2,3) by (simp only: relative_parts_def) simp
  then show ?thesis using name conf by (simp add: validated_snapshot_def Let_def)
qed

lemma snapshot_valid:
  assumes "fresh_names mk" and "snapshot_candidate_files mk label d = (v, d1)"
    and "rd_configured d" "rd_exists d"
  shows "list_all portable_char v" "v \<noteq> []" "v \<noteq> ''.''" "v \<noteq> ''..''"
    "dget (rd_backups d1) v = Some (managed (rd_files d))" "dget (rd_backups d) v = None"
proof -
  have v: "v = mk (snapshot_label label) (dkeys (rd_backups d))"
    and d1: "d1 = d\<lparr>rd_backups := dset v (managed (rd_files d)) (rd_backups d)\<rparr>"
    using assms by (auto simp: snapshot_candidate_files_def Let_def)
  obtain s where s: "v = snapshot_label label @ s" "list_all portable_char s" "v \<notin> set (dkeys (rd_backups d))"
    using assms(1) v unfolding fresh_names_def by metis
  then show "list_all portable_char v" using portable_label by simp
  have "CHR ''-'' \<in> set v" using s by (simp add: snapshot_label_def)
  then show "v \<noteq> []" "v \<noteq> ''.''" "v \<noteq> ''..''" by auto
  show "dget (rd_backups d1) v = Some (managed (rd_files d))" by (simp add: d1 dict_simps)
  show "dget (rd_backups d) v = None" using s by (auto simp: dict_simps)
qed


lemma validated_rd_files [simp]: "validated_snapshot v (d\<lparr>rd_files := t\<rparr>) = validated_snapshot v d"
  by (auto simp: validated_snapshot_def Let_def)

lemma restore_portable:
  assumes name: "list_all portable_char v" "v \<noteq> []" "v \<noteq> ''.''" "v \<noteq> ''..''" and conf: "rd_configured d"
    and backup: "dget (rd_backups d) v = Some backup"
  shows "restore_candidate_files f v d =
    (case restore_tree f backup (rd_files d) of
       (False, files) \<Rightarrow> (Inl RestoreFailed, d\<lparr>rd_files := files\<rparr>)
     | (True, files) \<Rightarrow>
         (Inr (), d\<lparr>rd_files := files, rd_backups := (if rf_stuck f then rd_backups d else ddel v (rd_backups d))\<rparr>))"
  using validated_portable[OF name conf] backup
  by (auto simp: restore_candidate_files_def discard_candidate_files_def split: prod.splits bool.splits)

definition good_name :: "string \<Rightarrow> bool" where
  "good_name v = (v = [] \<or> list_all portable_char v \<and> v \<noteq> ''.'' \<and> v \<noteq> ''..'')"

lemma snapshot_good:
  assumes "fresh_names mk" and "snapshot_candidate_files mk label d = (v, d1)"
  shows "good_name v"
proof (cases "rd_configured d \<and> rd_exists d")
  case True
  then show ?thesis using snapshot_valid[OF assms] by (simp add: good_name_def)
next
  case False
  then show ?thesis using assms(2) by (auto simp: good_name_def snapshot_candidate_files_def)
qed

lemma validated_leaf:
  assumes "good_name v" and "validated_snapshot v d = Inr (Some (leaf, files))"
  shows "leaf = v \<and> v \<noteq> []"
proof -
  have conf: "rd_configured d" and v: "v \<noteq> []" using assms(2) by (auto simp: validated_snapshot_def split: if_splits)
  then show ?thesis using validated_portable[of v d] assms by (auto simp: good_name_def split: option.splits)
qed

lemma discard_keeps:
  assumes "discard_candidate_files stuck v d = Inr d'" and "good_name v"
  shows "rd_files d' = rd_files d \<and> rd_configured d' = rd_configured d \<and> rd_exists d' = rd_exists d \<and>
    rd_name d' = rd_name d \<and> (\<forall>u. u \<noteq> v \<or> v = [] \<longrightarrow> dget (rd_backups d') u = dget (rd_backups d) u)"
  using assms validated_leaf[OF assms(2), of d]
  by (auto simp: discard_candidate_files_def dict_simps split: sum.splits option.splits snapshot_fault.splits if_splits)

lemma restore_keeps:
  assumes "restore_candidate_files f v d = (r, d')" and "good_name v"
  shows "rd_configured d' = rd_configured d \<and> rd_exists d' = rd_exists d \<and>
    rd_name d' = rd_name d \<and> (\<forall>u. u \<noteq> v \<or> v = [] \<longrightarrow> dget (rd_backups d') u = dget (rd_backups d) u)"
proof -
  have disc: "discard_candidate_files st v (d\<lparr>rd_files := fs\<rparr>) = Inr d2 \<Longrightarrow> rd_configured d2 = rd_configured d \<and>
      rd_exists d2 = rd_exists d \<and> rd_name d2 = rd_name d \<and>
      (\<forall>u. u \<noteq> v \<or> v = [] \<longrightarrow> dget (rd_backups d2) u = dget (rd_backups d) u)" for st fs d2
    using discard_keeps[of st v "d\<lparr>rd_files := fs\<rparr>" d2] assms(2) by simp
  show ?thesis
    using assms(1) disc unfolding restore_candidate_files_def
    by (auto split: sum.splits option.splits prod.splits bool.splits)
qed

lemma restore_law:
  assumes mk: "fresh_names mk" and snap: "snapshot_candidate_files mk label d = (v, d1)"
    and dir: "rd_configured d" "rd_exists d"
    and attempt: "rd_configured d2" "dget (rd_backups d2) v = dget (rd_backups d1) v"
    and restore: "restore_candidate_files f v d2 = (r, d3)" and undo: "rf_undo f = []"
  shows "(case r of
       Inl e \<Rightarrow> e = RestoreFailed \<and> dget (rd_files d3) = dget (rd_files d2)
     | Inr _ \<Rightarrow>
         (\<forall>p. candidate_managed_file p \<longrightarrow> dget (rd_files d3) p =
            (if p \<in> set (rf_unlink f) \<and> dget (rd_files d) p = None then dget (rd_files d2) p else dget (rd_files d) p)) \<and>
         (\<forall>p. \<not> candidate_managed_file p \<longrightarrow> dget (rd_files d3) p = dget (rd_files d2) p))
     \<and> (\<not> rf_staging f \<and> rf_install f = [] \<longrightarrow> r = Inr ())"
proof -
  note v = snapshot_valid[OF mk snap dir]
  let ?b = "managed (rd_files d)"
  have "restore_candidate_files f v d2 =
    (case restore_tree f ?b (rd_files d2) of
       (False, files) \<Rightarrow> (Inl RestoreFailed, d2\<lparr>rd_files := files\<rparr>)
     | (True, files) \<Rightarrow>
         (Inr (), d2\<lparr>rd_files := files, rd_backups := (if rf_stuck f then rd_backups d2 else ddel v (rd_backups d2))\<rparr>))"
    by (rule restore_portable[OF v(1-4) attempt(1)]) (simp add: attempt(2) v(5))
  moreover obtain ok files where tree: "restore_tree f ?b (rd_files d2) = (ok, files)" by fastforce
  moreover have own: "p \<in> dom (dget ?b) \<Longrightarrow> candidate_managed_file p" for p
    by (auto simp: dget_managed split: if_splits)
  ultimately have res: "restore_candidate_files f v d2 = (if ok then
      (Inr (), d2\<lparr>rd_files := files, rd_backups := (if rf_stuck f then rd_backups d2 else ddel v (rd_backups d2))\<rparr>)
      else (Inl RestoreFailed, d2\<lparr>rd_files := files\<rparr>))" by simp
  note t = restore_tree_result[OF tree own undo]
  show ?thesis using res restore t by (cases ok) (auto simp: dget_managed)
qed

subsection \<open>Properties\<close>

text \<open>
  C39: a rejected candidate leaves no trace. Take a snapshot of a run directory, let an
  attempt change the files in any way, and restore. Either the restore reports a failure and
  not one file has changed, or every file that belongs to the candidate is what it was when
  the snapshot was taken and every other file (ledgers, checkpoints, evidence, logs) is what
  the attempt left; the only difference a completed restore may show is an extra file whose
  removal failed. Without a failing file operation the restore completes.
\<close>

theorem restore_snapshot:
  assumes mk: "fresh_names mk" and snap: "snapshot_candidate_files mk label d = (v, d1)"
    and dir: "rd_configured d" "rd_exists d"
    and attempt: "rd_configured d2" "dget (rd_backups d2) v = dget (rd_backups d1) v"
    and restore: "restore_candidate_files f v d2 = (r, d3)" and undo: "rf_undo f = []"
  shows "(case r of
       Inl e \<Rightarrow> e = RestoreFailed \<and> dget (rd_files d3) = dget (rd_files d2)
     | Inr _ \<Rightarrow>
         (\<forall>p. candidate_managed_file p \<longrightarrow> dget (rd_files d3) p =
            (if p \<in> set (rf_unlink f) \<and> dget (rd_files d) p = None then dget (rd_files d2) p else dget (rd_files d) p)) \<and>
         (\<forall>p. \<not> candidate_managed_file p \<longrightarrow> dget (rd_files d3) p = dget (rd_files d2) p))
     \<and> (\<not> rf_staging f \<and> rf_install f = [] \<longrightarrow> r = Inr ())"
  using restore_law[OF assms] .

definition sample_mk :: "string \<Rightarrow> string list \<Rightarrow> string" where
  "sample_mk prefix names = prefix @ replicate (Suc (sum_list (map length names))) CHR ''a''"

lemma sample_mk_fresh: "fresh_names sample_mk"
proof -
  have "sample_mk prefix names \<notin> set names" for prefix names
  proof
    assume "sample_mk prefix names \<in> set names"
    then have "length (sample_mk prefix names) \<le> sum_list (map length names)"
      by (intro member_le_sum_list) auto
    then show False by (simp add: sample_mk_def)
  qed
  moreover have "portable_char CHR ''a''" by code_simp
  ultimately show ?thesis by (auto simp: fresh_names_def sample_mk_def list_all_iff)
qed

definition sample_dir :: "nat run_dir" where
  "sample_dir = \<lparr>rd_configured = True, rd_exists = True, rd_name = ''board'',
     rd_files = [([''board.kicad_pcb''], 1), ([''pipeline_state.json''], 2)], rd_backups = []\<rparr>"

text \<open>The attempt rewrites the board, adds a file and advances the checkpoint; the second file cannot be removed.\<close>

theorem restore_snapshot_witness:
  "\<exists>v d1 d3. snapshot_candidate_files sample_mk ''repair/1'' sample_dir = (v, d1) \<and>
     restore_candidate_files (no_faults\<lparr>rf_unlink := [[''b'', ''x.net'']]\<rparr>) v
       (d1\<lparr>rd_files := [([''board.kicad_pcb''], 7), ([''a.net''], 8), ([''b'', ''x.net''], 9), ([''pipeline_state.json''], 3)]\<rparr>) = (Inr (), d3) \<and>
     dget (rd_files d3) [''board.kicad_pcb''] = Some 1 \<and> dget (rd_files d3) [''a.net''] = None \<and>
     dget (rd_files d3) [''b'', ''x.net''] = Some 9 \<and> dget (rd_files d3) [''pipeline_state.json''] = Some 3"
proof -
  let ?f = "no_faults\<lparr>rf_unlink := [[''b'', ''x.net'']]\<rparr>"
  obtain v d1 where snap: "snapshot_candidate_files sample_mk ''repair/1'' sample_dir = (v, d1)" by fastforce
  let ?d2 = "d1\<lparr>rd_files := [([''board.kicad_pcb''], 7), ([''a.net''], 8), ([''b'', ''x.net''], 9), ([''pipeline_state.json''], 3)]\<rparr>"
  have dir: "rd_configured sample_dir" "rd_exists sample_dir" "rd_configured ?d2"
    using snap by (auto simp: sample_dir_def snapshot_candidate_files_def Let_def)
  obtain r d3 where run: "restore_candidate_files ?f v ?d2 = (r, d3)" by fastforce
  have kinds: "candidate_managed_file [''board.kicad_pcb'']" "candidate_managed_file [''a.net'']"
    "candidate_managed_file [''b'', ''x.net'']" "\<not> candidate_managed_file [''pipeline_state.json'']" by code_simp+
  have "rf_undo ?f = []" "\<not> rf_staging ?f" "rf_install ?f = []" "rf_unlink ?f = [[''b'', ''x.net'']]"
    by (simp_all add: no_faults_def)
  note faults = this
  have "dget (rd_backups ?d2) v = dget (rd_backups d1) v" by simp
  note law = restore_snapshot[OF sample_mk_fresh snap dir this run faults(1)]
  then have r: "r = Inr ()" using faults by blast
  then have "candidate_managed_file p \<Longrightarrow> dget (rd_files d3) p =
       (if p \<in> {[''b'', ''x.net'']} \<and> dget (rd_files sample_dir) p = None then dget (rd_files ?d2) p else dget (rd_files sample_dir) p)"
    "\<not> candidate_managed_file p \<Longrightarrow> dget (rd_files d3) p = dget (rd_files ?d2) p" for p
    using law faults(4) by simp_all
  note files = this(1)[OF kinds(1)] this(1)[OF kinds(2)] this(1)[OF kinds(3)] this(2)[OF kinds(4)]
  show ?thesis
  proof (intro exI conjI)
    show "restore_candidate_files ?f v ?d2 = (Inr (), d3)" using run r by simp
  qed (use snap files in \<open>simp_all add: sample_dir_def\<close>)
qed

end
