(* ===== verification/RepairAdmission.thy ===== *)
theory RepairAdmission
  imports Ahe Systems
begin

text \<open>
  What admits a repair and what a draft may postpone: the deferral of checks and the repair
  allowance of \<^verbatim>\<open>src/src/ratsnestpro/repair/draft.py\<close>, the session ledger of
  \<^verbatim>\<open>try_strong_repair\<close> in \<^verbatim>\<open>src/src/ratsnestpro/repair/pipeline_adapter.py\<close>, and the answers of
  \<^verbatim>\<open>src/src/ratsnestpro/repair/continuation.py\<close>. A run of the ledger is an alternation of
  admissions and session outcomes; a session that never reports back (a crash) stays
  charged. The digest of a token is a parameter.
\<close>

subsection \<open>Deferral\<close>

text \<open>What the deferral asks of an artifact: its schematic file and the connectivity verdict.\<close>

record draft_artifact =
  da_schematic_file :: bool
  da_connectivity_checked :: bool
  da_connectivity_error :: string

definition missing_evidence :: string where
  "missing_evidence = ''independent_package_evidence_missing''"

definition verified_binding :: string where
  "verified_binding = ''verified_local_kicad_binding''"

definition only_evidence_missing :: "json \<Rightarrow> bool" where
  "only_evidence_missing d =
     (case d of
        JObj kvs \<Rightarrow>
          dget kvs ''blockers'' = Some (JArr [JStr missing_evidence]) \<and>
          (case dget kvs ''available_source_kinds'' of
             Some (JArr ks) \<Rightarrow> JStr verified_binding \<in> set ks
           | Some (JStr s) \<Rightarrow> contains_sub s verified_binding
           | _ \<Rightarrow> False)
      | _ \<Rightarrow> False)"

definition diagnostics_of :: "check_result \<Rightarrow> json list" where
  "diagnostics_of c = (case dget (cr_evidence c) ''component_diagnostics'' of Some (JArr ds) \<Rightarrow> ds | _ \<Rightarrow> [])"

definition may_defer :: "string \<Rightarrow> draft_artifact \<Rightarrow> check_result \<Rightarrow> bool" where
  "may_defer step artifact c =
     (let defer0 = \<not> cr_blocks c;
          defer1 = (if step = ''selection'' \<and> cr_name c = ''prepared_component_manifest'' then
                      cr_reason c = missing_evidence \<and> diagnostics_of c \<noteq> [] \<and> list_all only_evidence_missing (diagnostics_of c)
                    else defer0);
          defer2 = (if cr_name c = ''power_domains_have_erc_drivers'' then da_schematic_file artifact
                    else if cr_name c = ''design_ir_matches_kicad_netlist'' then
                      da_schematic_file artifact \<and> da_connectivity_checked artifact \<and> da_connectivity_error artifact = []
                    else defer1)
      in if cr_origin c \<in> {Some InfrastructureOrigin, Some HarnessOrigin} then False else defer2)"

definition defer_check :: "check_result \<Rightarrow> check_result" where
  "defer_check c = c\<lparr>cr_blocks := False,
     cr_evidence := dset ''original_blocks_execution'' (JBool (cr_blocks c))
       (dset ''deferred_until_final_repair'' (JBool True) (cr_evidence c))\<rparr>"

definition deferred_check :: "string \<Rightarrow> draft_artifact \<Rightarrow> check_result \<Rightarrow> check_result" where
  "deferred_check step artifact c = (if \<not> cr_ok c \<and> may_defer step artifact c then defer_check c else c)"

definition deferred_checks :: "string \<Rightarrow> draft_artifact option \<Rightarrow> check_result list \<Rightarrow> check_result list" where
  "deferred_checks step artifact checks =
     (case artifact of None \<Rightarrow> checks | Some a \<Rightarrow> map (deferred_check step a) checks)"

definition needs_prerequisite_repair :: "string \<Rightarrow> draft_artifact option \<Rightarrow> check_result list \<Rightarrow> bool" where
  "needs_prerequisite_repair step artifact checks =
     list_ex (\<lambda>c. failed_check c \<and> cr_blocks c \<and>
        cr_origin c \<notin> {Some InfrastructureOrigin, Some HarnessOrigin, Some ExternalEvidenceOrigin})
       (deferred_checks step artifact checks)"

definition execution_blocked :: "check_result list \<Rightarrow> bool" where
  "execution_blocked checks = list_ex (\<lambda>c. failed_check c \<and> cr_blocks c) checks"

subsection \<open>The allowance of a draft\<close>

record allowance =
  al_key :: "string option"
  al_grants :: "string list"
  al_start_passes :: int
  al_passes :: int

definition authorize_repair_continuation :: "(string \<Rightarrow> string) \<Rightarrow> string \<Rightarrow> allowance \<Rightarrow> allowance" where
  "authorize_repair_continuation digest token m =
     (let key = digest token in
      if al_key m \<noteq> Some key \<and> key \<notin> set (al_grants m) then
        (let seen = (case al_key m of
               Some k \<Rightarrow> if k \<noteq> [] \<and> k \<notin> set (al_grants m) then al_grants m @ [k] else al_grants m
             | None \<Rightarrow> al_grants m)
         in m\<lparr>al_grants := seen @ [key], al_key := Some key, al_start_passes := al_passes m\<rparr>)
      else m)"

text \<open>The admission of one more pass in \<^verbatim>\<open>finalize_draft\<close>.\<close>

definition charge_pass :: "int \<Rightarrow> allowance \<Rightarrow> allowance option" where
  "charge_pass max_passes m =
     (if al_passes m \<ge> al_start_passes m + max_passes then None else Some (m\<lparr>al_passes := al_passes m + 1\<rparr>))"

subsection \<open>The session ledger\<close>

record ledger =
  lg_sessions :: int
  lg_attempts :: int
  lg_key :: "string option"
  lg_limit :: "int option"
  lg_exhausted :: bool
  lg_start_sessions :: int
  lg_start_failures :: int
  lg_failures :: int
  lg_model :: "(string \<times> string) option"

definition empty_ledger :: ledger where
  "empty_ledger = \<lparr>lg_sessions = 0, lg_attempts = 0, lg_key = None, lg_limit = None, lg_exhausted = False,
     lg_start_sessions = 0, lg_start_failures = 0, lg_failures = 0, lg_model = None\<rparr>"

record repair_runtime =
  rr_model :: string
  rr_effort :: string
  rr_limits :: limits
  rr_allowance :: string

definition renew_allowance :: "repair_runtime \<Rightarrow> ledger \<Rightarrow> ledger" where
  "renew_allowance rt g =
     (if rr_allowance rt \<noteq> [] \<and> lg_key g \<noteq> Some (rr_allowance rt) then
        g\<lparr>lg_key := Some (rr_allowance rt), lg_limit := Some (max_sessions_per_run (rr_limits rt)),
          lg_exhausted := False, lg_start_sessions := lg_sessions g, lg_start_failures := lg_failures g\<rparr>
      else g)"

definition admit_session :: "repair_runtime \<Rightarrow> ledger \<Rightarrow> ledger \<times> bool" where
  "admit_session rt g =
     (let g1 = renew_allowance rt g; g2 = g1\<lparr>lg_attempts := lg_attempts g1 + 1\<rparr> in
      if lg_exhausted g2 \<or> lg_attempts g2 < stagnation_threshold (rr_limits rt) \<or>
         lg_sessions g2 \<ge> lg_start_sessions g2 + max_sessions_per_run (rr_limits rt)
      then (g2, False)
      else (g2\<lparr>lg_sessions := lg_sessions g2 + 1, lg_model := Some (rr_model rt, rr_effort rt)\<rparr>, True))"

text \<open>How an admitted session comes back; \<open>SessionOver\<close> covers every ending that leaves the ledger alone.\<close>

datatype session_outcome = SessionOver | BudgetGone | InfrastructureFailed

definition settle_session :: "session_outcome \<Rightarrow> ledger \<Rightarrow> ledger" where
  "settle_session out g =
     (case out of
        SessionOver \<Rightarrow> g
      | BudgetGone \<Rightarrow> g\<lparr>lg_exhausted := True\<rparr>
      | InfrastructureFailed \<Rightarrow>
          (let g1 = g\<lparr>lg_failures := lg_failures g + 1\<rparr> in
           if lg_failures g1 - lg_start_failures g1 \<le> 3 then g1\<lparr>lg_sessions := max 0 (lg_sessions g1 - 1)\<rparr> else g1))"

definition budget_blocked :: "ledger option \<Rightarrow> bool" where
  "budget_blocked g =
     (case g of None \<Rightarrow> False
      | Some v \<Rightarrow> lg_exhausted v \<or> lg_sessions v \<ge> lg_start_sessions v + (case lg_limit v of None \<Rightarrow> 2 | Some n \<Rightarrow> n))"

subsection \<open>Answers to the repair question\<close>

record receipt_answer =
  ra_identity :: string
  ra_instruction :: string
  ra_grant :: bool
  ra_tokens :: "int option"

datatype response_fault = AnswerChanged

definition default_instruction :: string where
  "default_instruction = ''Repair the retained project using the original requirements and actual failure evidence.''"

text \<open>\<open>approve\<close> is the text of the approving choice.\<close>

definition save_response ::
  "string \<Rightarrow> receipt_answer option \<Rightarrow> string \<Rightarrow> string \<Rightarrow> bool \<Rightarrow> (response_fault, receipt_answer) result" where
  "save_response approve previous identity answer grant =
     (let kept = (case previous of None \<Rightarrow> [] | Some p \<Rightarrow> ra_instruction p);
          text = (if grant then kept else py_strip answer);
          receipt = \<lparr>ra_identity = identity, ra_instruction = (if text = [] then default_instruction else text),
                     ra_grant = grant,
                     ra_tokens = (if grant then Some (if answer = approve then 1200000 else 120000) else None)\<rparr>
      in case previous of
           Some p \<Rightarrow> if ra_identity p = identity \<and> p \<noteq> receipt then Inl AnswerChanged else Inr receipt
         | None \<Rightarrow> Inr receipt)"

record draft_meta =
  dm_allowance :: allowance
  dm_session_limit :: "int option"
  dm_token_limit :: "int option"

definition apply_response :: "(string \<Rightarrow> string) \<Rightarrow> receipt_answer option \<Rightarrow> draft_meta \<Rightarrow> string \<times> draft_meta" where
  "apply_response digest receipt m =
     (case receipt of
        None \<Rightarrow> ([], m)
      | Some r \<Rightarrow>
          (ra_instruction r,
           if ra_grant r then
             m\<lparr>dm_allowance := authorize_repair_continuation digest (''hitl:'' @ ra_identity r) (dm_allowance m),
               dm_session_limit := Some 1,
               dm_token_limit := Some (case ra_tokens r of None \<Rightarrow> 120000 | Some n \<Rightarrow> n)\<rparr>
           else m))"

subsection \<open>The ledger as a system\<close>

text \<open>
  The ledger with two ghosts: whether the last admitted session may still report back, and
  how many sessions were admitted under the current allowance.
\<close>

record ledger_run =
  lr_ledger :: ledger
  lr_open :: bool
  lr_admitted :: nat

definition run_admission :: "repair_runtime \<Rightarrow> ledger_run \<Rightarrow> ledger_run" where
  "run_admission rt s =
     (case admit_session rt (lr_ledger s) of (g, ok) \<Rightarrow>
        \<lparr>lr_ledger = g, lr_open = ok,
         lr_admitted = (if lg_key g \<noteq> lg_key (lr_ledger s) then 0 else lr_admitted s) + (if ok then 1 else 0)\<rparr>)"

inductive ledger_step :: "int \<Rightarrow> ledger_run \<Rightarrow> ledger_run \<Rightarrow> bool" for M where
  ledger_admit: "0 \<le> max_sessions_per_run (rr_limits rt) \<Longrightarrow> max_sessions_per_run (rr_limits rt) \<le> M \<Longrightarrow>
    ledger_step M s (run_admission rt s)"
| ledger_settle: "lr_open s \<Longrightarrow>
    ledger_step M s (s\<lparr>lr_ledger := settle_session out (lr_ledger s), lr_open := False\<rparr>)"

definition initial_ledger :: "ledger_run \<Rightarrow> bool" where
  "initial_ledger s = (s = \<lparr>lr_ledger = empty_ledger, lr_open = False, lr_admitted = 0\<rparr>)"

definition refunds :: "ledger \<Rightarrow> int" where
  "refunds g = min 3 (lg_failures g - lg_start_failures g)"

definition ledger_inv :: "int \<Rightarrow> ledger_run \<Rightarrow> bool" where
  "ledger_inv M s =
     (let g = lr_ledger s in
      0 \<le> lg_start_sessions g \<and> lg_start_sessions g \<le> lg_sessions g \<and>
      lg_sessions g \<le> lg_start_sessions g + max 0 M \<and> lg_start_failures g \<le> lg_failures g \<and>
      (lr_open s \<longrightarrow> lg_start_sessions g < lg_sessions g) \<and>
      int (lr_admitted s) = lg_sessions g - lg_start_sessions g + refunds g)"

lemma ledger_inv_admit:
  assumes "ledger_inv M s" and "0 \<le> max_sessions_per_run (rr_limits rt)" and "max_sessions_per_run (rr_limits rt) \<le> M"
  shows "ledger_inv M (run_admission rt s)"
  using assms
  by (auto simp: ledger_inv_def run_admission_def admit_session_def renew_allowance_def refunds_def Let_def)

lemma ledger_inv_settle:
  assumes "ledger_inv M s" and "lr_open s"
  shows "ledger_inv M (s\<lparr>lr_ledger := settle_session out (lr_ledger s), lr_open := False\<rparr>)"
  using assms
  by (cases out) (auto simp: ledger_inv_def settle_session_def refunds_def Let_def min_def max_def)

interpretation ledger: safe_system initial_ledger "ledger_step M" "ledger_inv M" for M
proof
  show "initial_ledger s \<Longrightarrow> ledger_inv M s" for s
    by (simp add: initial_ledger_def ledger_inv_def empty_ledger_def refunds_def)
  show "ledger_inv M s \<Longrightarrow> ledger_step M s t \<Longrightarrow> ledger_inv M t" for s t
    by (auto elim!: ledger_step.cases intro: ledger_inv_admit ledger_inv_settle)
qed

subsection \<open>Properties\<close>

text \<open>
  Paid repair sessions are bounded. However admissions, crashes and outcomes follow each
  other, the sessions charged under one allowance never exceed the largest limit in force,
  and the sessions admitted exceed it by at most the three refunds granted for
  infrastructure failures; with an exhausted budget nothing is admitted until the allowance
  changes.
\<close>

theorem ledger_bounded:
  assumes "reach initial_ledger (ledger_step M) s"
  shows "lg_sessions (lr_ledger s) - lg_start_sessions (lr_ledger s) \<le> max 0 M \<and>
    int (lr_admitted s) \<le> max 0 M + 3 \<and>
    (\<forall>rt. lg_exhausted (lr_ledger s) \<longrightarrow> rr_allowance rt \<in> {[], the (lg_key (lr_ledger s))} \<longrightarrow>
       lg_key (lr_ledger s) \<noteq> None \<longrightarrow> \<not> snd (admit_session rt (lr_ledger s)))"
  using ledger.reach_inv[OF assms]
  by (auto simp: ledger_inv_def refunds_def admit_session_def renew_allowance_def Let_def)

definition sample_runtime :: repair_runtime where
  "sample_runtime = \<lparr>rr_model = ''m'', rr_effort = ''high'',
     rr_limits = default_limits\<lparr>stagnation_threshold := 1, max_sessions_per_run := 1\<rparr>, rr_allowance = ''k''\<rparr>"

definition sample_ledger :: ledger_run where
  "sample_ledger =
     (let s = run_admission sample_runtime \<lparr>lr_ledger = empty_ledger, lr_open = False, lr_admitted = 0\<rparr>
      in s\<lparr>lr_ledger := settle_session BudgetGone (lr_ledger s), lr_open := False\<rparr>)"

theorem ledger_bounded_witness:
  "lg_exhausted (lr_ledger sample_ledger) \<and> lr_admitted sample_ledger = 1 \<and>
   \<not> snd (admit_session sample_runtime (lr_ledger sample_ledger))"
proof -
  let ?s0 = "\<lparr>lr_ledger = empty_ledger, lr_open = False, lr_admitted = 0\<rparr>"
  let ?s1 = "run_admission sample_runtime ?s0"
  have "reach initial_ledger (ledger_step 1) ?s0" by (rule reach.initial) (simp add: initial_ledger_def)
  moreover have "ledger_step 1 ?s0 ?s1" by (rule ledger_admit) (simp_all add: sample_runtime_def)
  ultimately have "reach initial_ledger (ledger_step 1) ?s1" by (rule reach.advance)
  moreover have "lr_open ?s1" by code_simp
  then have "ledger_step 1 ?s1 (?s1\<lparr>lr_ledger := settle_session BudgetGone (lr_ledger ?s1), lr_open := False\<rparr>)"
    by (rule ledger_settle)
  ultimately have "reach initial_ledger (ledger_step 1) sample_ledger"
    unfolding sample_ledger_def Let_def by (rule reach.advance)
  note bound = ledger_bounded[OF this]
  have "lg_exhausted (lr_ledger sample_ledger) \<and> lr_admitted sample_ledger = 1 \<and>
      lg_key (lr_ledger sample_ledger) = Some (rr_allowance sample_runtime)" by code_simp
  then show ?thesis using bound by auto
qed

lemma authorize_granted:
  "digest token \<noteq> [] \<Longrightarrow> digest token \<in> set (al_grants m) \<or> al_key m = Some (digest token) \<Longrightarrow>
   digest token \<in> set (al_grants (authorize_repair_continuation digest other m)) \<or>
     al_key (authorize_repair_continuation digest other m) = Some (digest token)"
  by (auto simp: authorize_repair_continuation_def Let_def split: option.splits)

lemma authorize_grants:
  "digest token \<in> set (al_grants (authorize_repair_continuation digest token m)) \<or>
     al_key (authorize_repair_continuation digest token m) = Some (digest token)"
  by (auto simp: authorize_repair_continuation_def Let_def)

lemma authorize_noop:
  "digest token \<in> set (al_grants m) \<or> al_key m = Some (digest token) \<Longrightarrow>
     authorize_repair_continuation digest token m = m"
  by (auto simp: authorize_repair_continuation_def Let_def)

lemma authorize_kept:
  "digest token \<noteq> [] \<Longrightarrow> digest token \<in> set (al_grants m) \<or> al_key m = Some (digest token) \<Longrightarrow>
    digest token \<in> set (al_grants (fold (authorize_repair_continuation digest) ts m)) \<or>
      al_key (fold (authorize_repair_continuation digest) ts m) = Some (digest token)"
proof (induction ts arbitrary: m)
  case Nil
  then show ?case by simp
next
  case (Cons t ts)
  have "digest token \<in> set (al_grants (authorize_repair_continuation digest t m)) \<or>
      al_key (authorize_repair_continuation digest t m) = Some (digest token)"
    by (rule authorize_granted) (fact Cons.prems)+
  then show ?case using Cons.IH[of "authorize_repair_continuation digest t m"] Cons.prems(1) by simp
qed

text \<open>
  An approval is worth one allowance, for ever. Once a token has been honoured, honouring
  it again, after any number of other approvals in between, changes nothing, so a replayed
  answer never renews the count of repair passes.
\<close>

theorem approval_replay:
  assumes "digest token \<noteq> []"
  shows "authorize_repair_continuation digest token
      (fold (authorize_repair_continuation digest) others (authorize_repair_continuation digest token m)) =
    fold (authorize_repair_continuation digest) others (authorize_repair_continuation digest token m)"
  by (rule authorize_noop, rule authorize_kept, rule assms, rule authorize_grants)

theorem approval_replay_witness:
  "authorize_repair_continuation (\<lambda>t. ''h'' @ t) ''a''
      (fold (authorize_repair_continuation (\<lambda>t. ''h'' @ t)) [''b''] (authorize_repair_continuation (\<lambda>t. ''h'' @ t) ''a''
         \<lparr>al_key = None, al_grants = [], al_start_passes = 0, al_passes = 3\<rparr>)) =
    fold (authorize_repair_continuation (\<lambda>t. ''h'' @ t)) [''b''] (authorize_repair_continuation (\<lambda>t. ''h'' @ t) ''a''
         \<lparr>al_key = None, al_grants = [], al_start_passes = 0, al_passes = 3\<rparr>)"
  by (rule approval_replay) simp

lemma deferred_check_cases:
  obtains (same) "deferred_check step a c = c"
  | (deferred) "deferred_check step a c = defer_check c" "\<not> cr_ok c"
      "cr_origin c \<notin> {Some InfrastructureOrigin, Some HarnessOrigin}"
  by (cases "\<not> cr_ok c \<and> may_defer step a c")
    (auto simp: deferred_check_def may_defer_def Let_def split: if_splits)

text \<open>
  Deferring changes scheduling only. The checks stay in order with their names,
  verdicts, severities, origins and reasons, so exactly the same errors stand; a check only
  ever loses its power to block, never for an infrastructure or harness fault, only if it
  failed, and the change is recorded in its evidence with the flag it had.
\<close>

theorem deferral_sound:
  assumes "out = deferred_checks step artifact checks" and "i < length checks"
  shows "length out = length checks \<and> cr_name (out ! i) = cr_name (checks ! i) \<and>
    cr_ok (out ! i) = cr_ok (checks ! i) \<and> cr_severity (out ! i) = cr_severity (checks ! i) \<and>
    cr_origin (out ! i) = cr_origin (checks ! i) \<and> (cr_blocks (out ! i) \<longrightarrow> cr_blocks (checks ! i)) \<and>
    (out ! i \<noteq> checks ! i \<longrightarrow>
       \<not> cr_ok (checks ! i) \<and> cr_origin (checks ! i) \<notin> {Some InfrastructureOrigin, Some HarnessOrigin} \<and>
       \<not> cr_blocks (out ! i) \<and>
       dget (cr_evidence (out ! i)) ''deferred_until_final_repair'' = Some (JBool True) \<and>
       dget (cr_evidence (out ! i)) ''original_blocks_execution'' = Some (JBool (cr_blocks (checks ! i))))"
proof (cases artifact)
  case None
  then show ?thesis using assms by (simp add: deferred_checks_def)
next
  case (Some a)
  have out: "out ! i = deferred_check step a (checks ! i)" "length out = length checks"
    using assms Some by (simp_all add: deferred_checks_def)
  show ?thesis
  proof (cases rule: deferred_check_cases[of step a "checks ! i"])
    case same
    then show ?thesis using out by simp
  next
    case deferred
    then show ?thesis unfolding out(1) using out(2) by (simp add: defer_check_def dict_simps)
  qed
qed

definition sample_check :: check_result where
  "sample_check = \<lparr>cr_name = ''power_domains_have_erc_drivers'', cr_ok = False, cr_severity = SevError,
     cr_message = [], cr_blocks = True,
     cr_origin = Some DesignOrigin, cr_reason = [], cr_refs = [], cr_evidence = []\<rparr>"

definition sample_artifact :: draft_artifact where
  "sample_artifact = \<lparr>da_schematic_file = True, da_connectivity_checked = True, da_connectivity_error = []\<rparr>"

theorem deferral_sound_witness:
  "deferred_checks ''erc'' (Some sample_artifact) [sample_check] \<noteq> [sample_check] \<and>
   dget (cr_evidence (deferred_checks ''erc'' (Some sample_artifact) [sample_check] ! 0)) ''original_blocks_execution''
     = Some (JBool True)"
proof -
  have "deferred_checks ''erc'' (Some sample_artifact) [sample_check] ! 0 \<noteq> [sample_check] ! 0" by code_simp
  then show ?thesis using deferral_sound[OF refl, of 0 "[sample_check]" "''erc''" "Some sample_artifact"]
    by (auto simp: sample_check_def)
qed

text \<open>
  Deferring a second time forgets the first: the recorded original flag of a blocking
  check becomes false, although the draft ledger is meant to keep the exact failure
  evidence. (\<^verbatim>\<open>recover_draft_transaction\<close> defers retained results again.)
\<close>

theorem deferral_forgets_original:
  "(let once = deferred_checks ''erc'' (Some sample_artifact) [sample_check];
        twice = deferred_checks ''erc'' (Some sample_artifact) once
    in dget (cr_evidence (once ! 0)) ''original_blocks_execution'' = Some (JBool True) \<and>
       dget (cr_evidence (twice ! 0)) ''original_blocks_execution'' = Some (JBool False))"
  by code_simp

end
