(* ===== verification/PipelineState.thy ===== *)
theory PipelineState
  imports Complex_Main Ahe CandidateFiles RepairAdmission "HOL-Library.Product_Lexorder"
begin

text \<open>
  The state threaded through the design pipeline, \<^verbatim>\<open>PipelineState\<close> and \<^verbatim>\<open>PipelineContext\<close> of
  \<^verbatim>\<open>src/src/ratsnestpro/orchestration/pipeline.py\<close>: the pinned order of the seventeen steps,
  step results, the audit records of repairs, replans and recovery turns
  (\<^verbatim>\<open>src/src/ratsnestpro/orchestration/ahe.py\<close>), and the capture and restore of a candidate
  baseline. Artifacts are a type variable \<open>'a\<close>; \<open>'r\<close> is what else a baseline saves (the
  connection checkpoint and report, the release token), \<open>'w\<close> the world outside (models,
  tools, clock) from which everything undetermined is read. The records of a history are
  only ever appended, so a reference to one is its position.
\<close>

subsection \<open>Steps\<close>

datatype pipeline_step =
    Requirements | Topology | Selection | SchConnections | SchPinmap | SchLayout | SchMaterialize | Erc
  | LayoutPartition | LayoutCritical | LayoutGeneral | LayoutWrite
  | RoutePlan | RoutePlanes | RouteSignals | RouteFab | Manufacture

definition step_name :: "pipeline_step \<Rightarrow> string" where
  "step_name s =
     (case s of Requirements \<Rightarrow> ''requirements'' | Topology \<Rightarrow> ''topology'' | Selection \<Rightarrow> ''selection''
      | SchConnections \<Rightarrow> ''schematic_connections'' | SchPinmap \<Rightarrow> ''schematic_pinmap''
      | SchLayout \<Rightarrow> ''schematic_layout'' | SchMaterialize \<Rightarrow> ''schematic_materialize'' | Erc \<Rightarrow> ''erc''
      | LayoutPartition \<Rightarrow> ''layout_partition'' | LayoutCritical \<Rightarrow> ''layout_critical''
      | LayoutGeneral \<Rightarrow> ''layout_general'' | LayoutWrite \<Rightarrow> ''layout_write''
      | RoutePlan \<Rightarrow> ''route_plan'' | RoutePlanes \<Rightarrow> ''route_planes'' | RouteSignals \<Rightarrow> ''route_signals''
      | RouteFab \<Rightarrow> ''route_fab'' | Manufacture \<Rightarrow> ''manufacture'')"

definition canonical_order :: "pipeline_step list" where
  "canonical_order = [Requirements, Topology, Selection, SchConnections, SchPinmap, SchLayout, SchMaterialize, Erc,
     LayoutPartition, LayoutCritical, LayoutGeneral, LayoutWrite, RoutePlan, RoutePlanes, RouteSignals, RouteFab,
     Manufacture]"

definition order_index :: "pipeline_step \<Rightarrow> nat" where
  "order_index s =
     (case s of Requirements \<Rightarrow> 0 | Topology \<Rightarrow> 1 | Selection \<Rightarrow> 2 | SchConnections \<Rightarrow> 3 | SchPinmap \<Rightarrow> 4
      | SchLayout \<Rightarrow> 5 | SchMaterialize \<Rightarrow> 6 | Erc \<Rightarrow> 7 | LayoutPartition \<Rightarrow> 8 | LayoutCritical \<Rightarrow> 9
      | LayoutGeneral \<Rightarrow> 10 | LayoutWrite \<Rightarrow> 11 | RoutePlan \<Rightarrow> 12 | RoutePlanes \<Rightarrow> 13 | RouteSignals \<Rightarrow> 14
      | RouteFab \<Rightarrow> 15 | Manufacture \<Rightarrow> 16)"

lemma order_index_inj [simp]: "order_index s = order_index t \<longleftrightarrow> s = t"
  by (cases s; cases t) (simp_all add: order_index_def)

lemma order_index_less: "order_index s < 17"
  by (cases s) (simp_all add: order_index_def)

lemma length_canonical [simp]: "length canonical_order = 17"
  by (simp add: canonical_order_def)

lemma canonical_nth [simp]: "canonical_order ! order_index s = s"
  by (cases s) (simp_all add: canonical_order_def order_index_def)

lemma order_index_nth: "i < 17 \<Longrightarrow> order_index (canonical_order ! i) = i"
proof -
  have "map order_index canonical_order = [0..<17]" by code_simp
  then show "i < 17 \<Longrightarrow> order_index (canonical_order ! i) = i"
    by (metis add_0 length_canonical nth_map nth_upt)
qed

lemma distinct_canonical [simp]: "distinct canonical_order"
  by (simp add: canonical_order_def)

lemma set_canonical [simp]: "set canonical_order = UNIV"
proof -
  have "s \<in> set canonical_order" for s
    by (metis canonical_nth length_canonical nth_mem order_index_less)
  then show ?thesis by auto
qed

text \<open>Steps are ordered by their place in the pipeline.\<close>

instantiation pipeline_step :: linorder
begin

definition less_eq_pipeline_step :: "pipeline_step \<Rightarrow> pipeline_step \<Rightarrow> bool" where
  "less_eq_pipeline_step s t = (order_index s \<le> order_index t)"

definition less_pipeline_step :: "pipeline_step \<Rightarrow> pipeline_step \<Rightarrow> bool" where
  "less_pipeline_step s t = (order_index s < order_index t)"

instance
  by standard (auto simp: less_eq_pipeline_step_def less_pipeline_step_def)

end

text \<open>The first steps, those of index below a bound.\<close>

abbreviation prefix_steps :: "nat \<Rightarrow> pipeline_step list" where
  "prefix_steps n \<equiv> take n canonical_order"

lemma set_prefix_steps: "set (prefix_steps n) = {s. order_index s < n}"
proof -
  have "s \<in> set (prefix_steps n) \<longleftrightarrow> order_index s < n" for s
    using order_index_less[of s] order_index_nth canonical_nth[of s]
    by (auto simp: in_set_conv_nth)
  then show ?thesis by auto
qed

subsection \<open>Results and records\<close>

type_synonym fail_score = "nat \<times> nat \<times> nat"

datatype repair_kind = HarnessRepair | DesignRepair

datatype repair_status = RepairImproved | RepairVerified | RepairRejected | RepairError

record repair_record =
  rp_kind :: repair_kind
  rp_step :: pipeline_step
  rp_strategy :: string
  rp_attempt :: nat
  rp_failures :: "string list"
  rp_status :: repair_status
  rp_before :: fail_score
  rp_after :: fail_score
  rp_detail :: string
  rp_baseline :: string

record step_result =
  st_step :: pipeline_step
  st_used_llm :: bool
  st_knowledge :: "string list"
  st_checks :: "check_result list"
  st_failures :: "failure list"
  st_repairs :: "repair_record list"
  st_blocked :: bool
  st_execution_blocked :: bool
  st_summary :: string

definition error_checks :: "step_result \<Rightarrow> check_result list" where
  "error_checks r = filter failed_check (st_checks r)"

record ('a, 'r) baseline =
  bl_results :: "step_result list"
  bl_artifacts :: "(pipeline_step, 'a) dict"
  bl_resume :: "(pipeline_step, 'a \<times> bool) dict"
  bl_rest :: 'r
  bl_gaps :: "capability_gap list"
  bl_files :: string

datatype replan_status = Scheduled | Recovered | Stagnated | Exhausted | Deferred

record ('a, 'r) replan =
  rn_trigger :: pipeline_step
  rn_rollback :: pipeline_step
  rn_attempt :: nat
  rn_failures :: "string list"
  rn_status :: replan_status
  rn_before :: fail_score
  rn_after :: "fail_score option"
  rn_feedback :: string
  rn_fingerprint :: string
  rn_baseline :: "('a, 'r) baseline option"
  rn_intermediate :: int

datatype recovery_action = LocalRepair | ReplanUpstream | RetryTool | InvestigateHarness | AskHuman | StopRecovery

text \<open>Of the tool arguments the code reads the instructions and the implementation.\<close>

record decision =
  dc_failures :: "string list"
  dc_action :: recovery_action
  dc_origin :: failure_origin
  dc_target :: "string option"
  dc_strategy :: string
  dc_tool :: string
  dc_instructions :: "string option"
  dc_implementation :: "string option"
  dc_batch :: "json option"
  dc_hypothesis :: string
  dc_expected :: string

datatype turn_status =
  Planned | Acted | TurnImproved | TurnVerified | TurnRejected | TurnError | TurnExhausted | AwaitingHuman

record ('a, 'r) turn =
  tn_step :: pipeline_step
  tn_attempt :: nat
  tn_revision :: nat
  tn_failures :: "string list"
  tn_decision :: decision
  tn_status :: turn_status
  tn_before :: fail_score
  tn_after :: "fail_score option"
  tn_observation :: string
  tn_fingerprint :: string
  tn_used_llm :: bool
  tn_skill :: "string \<times> string"
  tn_baseline :: "('a, 'r) baseline option"

subsection \<open>The state\<close>

record draft_execution =
  dx_policy :: "string option"
  dx_phase :: "string option"
  dx_issues :: "(pipeline_step, string \<times> check_result list) dict"

record ('a, 'r, 'w) pipeline =
  pl_artifacts :: "(pipeline_step, 'a) dict"
  pl_results :: "step_result list"
  pl_revision :: nat
  pl_repairs :: "repair_record list"
  pl_replans :: "('a, 'r) replan list"
  pl_turns :: "('a, 'r) turn list"
  pl_gaps :: "capability_gap list"
  pl_resume :: "(pipeline_step, 'a \<times> bool) dict"
  pl_rest :: 'r
  pl_draft :: draft_execution
  pl_dir :: "string run_dir"
  pl_world :: 'w
  pl_feedback :: string
  pl_tool :: string
  pl_batch :: "json option"
  pl_observed :: "json option"
  pl_events :: "(string \<times> pipeline_step) list"

definition completed_steps :: "('a, 'r, 'w) pipeline \<Rightarrow> pipeline_step list" where
  "completed_steps s = map st_step (pl_results s)"

definition state_blocked :: "('a, 'r, 'w) pipeline \<Rightarrow> bool" where
  "state_blocked s = list_ex st_blocked (pl_results s)"

definition state_execution_blocked :: "('a, 'r, 'w) pipeline \<Rightarrow> bool" where
  "state_execution_blocked s = list_ex st_execution_blocked (pl_results s)"

definition note_event :: "string \<Rightarrow> pipeline_step \<Rightarrow> ('a, 'r, 'w) pipeline \<Rightarrow> ('a, 'r, 'w) pipeline" where
  "note_event e step s = s\<lparr>pl_events := pl_events s @ [(e, step)]\<rparr>"

datatype step_error = StructuredOutputFailed string | LlmFailed string | StepFailed string

definition is_llm_error :: "step_error \<Rightarrow> bool" where
  "is_llm_error e = (case e of StepFailed _ \<Rightarrow> False | _ \<Rightarrow> True)"

text \<open>Code that may raise and changes the pipeline state, in sequence.\<close>

type_synonym ('s, 'x) act = "'s \<Rightarrow> (step_error, 'x) result \<times> 's"

definition run_then :: "('s, 'x) act \<Rightarrow> ('x \<Rightarrow> ('s, 'y) act) \<Rightarrow> ('s, 'y) act" where
  "run_then f k s = (case f s of (Inl e, s') \<Rightarrow> (Inl e, s') | (Inr x, s') \<Rightarrow> k x s')"

definition give :: "'x \<Rightarrow> ('s, 'x) act" where
  "give x s = (Inr x, s)"

text \<open>
  What the implementation of one step may touch: the artifacts, the files of the run, the
  saved rest and the world. It reads the whole state.
\<close>

type_synonym ('a, 'r, 'w, 'x) impl =
  "('a, 'r, 'w) pipeline \<Rightarrow> (step_error, 'x) result \<times> (pipeline_step, 'a) dict \<times> string tree \<times> 'r \<times> 'w"

definition implement :: "('a, 'r, 'w, 'x) impl \<Rightarrow> (('a, 'r, 'w) pipeline, 'x) act" where
  "implement f s =
     (case f s of (x, artifacts, files, rest, world) \<Rightarrow>
        (x, s\<lparr>pl_artifacts := artifacts, pl_dir := (pl_dir s)\<lparr>rd_files := files\<rparr>, pl_rest := rest, pl_world := world\<rparr>))"

subsection \<open>Context\<close>

record ('a, 'r, 'w) services =
  cx_offline :: bool
  cx_client :: bool
  cx_repair_attempts :: int
  cx_capture_errors :: bool
  cx_ahe :: bool
  cx_max_repairs :: int
  cx_max_same_failure :: int
  cx_max_replans :: int
  cx_artifact_first :: bool
  cx_repair_release :: bool
  cx_execution_retries :: int
  cx_design_attempts :: int
  cx_max_design_step :: int
  cx_max_design_total :: int
  cx_agentic :: bool
  cx_max_turns_step :: int
  cx_max_turns_total :: int
  cx_max_intermediate :: int
  cx_draft_first :: bool
  cx_strategy_score :: "(string \<Rightarrow> string \<Rightarrow> rat option) option"
  cx_replan_score :: "(string \<Rightarrow> string \<Rightarrow> rat option) option"
  cx_digest :: "string \<Rightarrow> string"
  cx_fingerprint :: "'a \<Rightarrow> string"
  cx_mk :: "string \<Rightarrow> string list \<Rightarrow> string"
  cx_new_id :: "'w \<Rightarrow> string"
  cx_faults :: "'w \<Rightarrow> restore_faults"
  cx_in_time :: "'w \<Rightarrow> bool"
  cx_progress :: "('a, 'r, 'w) pipeline \<Rightarrow> (step_error, unit) result \<times> 'w"
  cx_place :: "'a \<Rightarrow> json \<Rightarrow> (step_error, 'a \<times> json) result"
  cx_placement :: "'a \<Rightarrow> bool"
  cx_resumable :: "'a \<Rightarrow> bool"
  cx_draft_view :: "'a \<Rightarrow> draft_artifact"
  cx_rejected_text :: "'a \<Rightarrow> check_result list \<Rightarrow> string"

definition fingerprint_of :: "('a, 'r, 'w) services \<Rightarrow> 'a option \<Rightarrow> string" where
  "fingerprint_of C a = (case a of None \<Rightarrow> [] | Some x \<Rightarrow> cx_fingerprint C x)"

definition report_progress :: "('a, 'r, 'w) services \<Rightarrow> (('a, 'r, 'w) pipeline, unit) act" where
  "report_progress C s = (case cx_progress C s of (r, w) \<Rightarrow> (r, s\<lparr>pl_world := w\<rparr>))"

text \<open>The three file operations, on the pipeline state.\<close>

definition snapshot_files :: "('a, 'r, 'w) services \<Rightarrow> string \<Rightarrow> (('a, 'r, 'w) pipeline, string) act" where
  "snapshot_files C label s =
     (case snapshot_candidate_files (cx_mk C) label (pl_dir s) of (v, d) \<Rightarrow> (Inr v, s\<lparr>pl_dir := d\<rparr>))"

definition file_error :: "snapshot_fault \<Rightarrow> step_error" where
  "file_error e = StepFailed (case e of SnapshotEscaped \<Rightarrow> ''candidate file snapshot escaped its run scope''
     | SnapshotMissing \<Rightarrow> ''candidate file snapshot is missing'' | RestoreFailed \<Rightarrow> ''candidate restore failed'')"

definition restore_files :: "('a, 'r, 'w) services \<Rightarrow> string \<Rightarrow> (('a, 'r, 'w) pipeline, unit) act" where
  "restore_files C v s =
     (case restore_candidate_files (cx_faults C (pl_world s)) v (pl_dir s) of
        (Inl e, d) \<Rightarrow> (Inl (file_error e), s\<lparr>pl_dir := d\<rparr>)
      | (Inr _, d) \<Rightarrow> (Inr (), s\<lparr>pl_dir := d\<rparr>))"

definition discard_files :: "('a, 'r, 'w) services \<Rightarrow> string \<Rightarrow> (('a, 'r, 'w) pipeline, unit) act" where
  "discard_files C v s =
     (case discard_candidate_files (rf_stuck (cx_faults C (pl_world s))) v (pl_dir s) of
        Inl e \<Rightarrow> (Inl (file_error e), s)
      | Inr d \<Rightarrow> (Inr (), s\<lparr>pl_dir := d\<rparr>))"

subsection \<open>Baselines\<close>

definition capture_baseline :: "('a, 'r, 'w) services \<Rightarrow> string \<Rightarrow> (('a, 'r, 'w) pipeline, ('a, 'r) baseline) act" where
  "capture_baseline C label =
     run_then (snapshot_files C label) (\<lambda>v s.
       (Inr \<lparr>bl_results = pl_results s, bl_artifacts = pl_artifacts s, bl_resume = pl_resume s,
             bl_rest = pl_rest s, bl_gaps = pl_gaps s, bl_files = v\<rparr>, s))"

definition restore_baseline :: "('a, 'r, 'w) services \<Rightarrow> ('a, 'r) baseline \<Rightarrow> (('a, 'r, 'w) pipeline, unit) act" where
  "restore_baseline C b =
     run_then (restore_files C (bl_files b)) (\<lambda>_ s.
       (Inr (), s\<lparr>pl_results := bl_results b, pl_artifacts := bl_artifacts b, pl_resume := bl_resume b,
                  pl_rest := bl_rest b, pl_gaps := bl_gaps b\<rparr>))"

definition commit_baseline :: "('a, 'r, 'w) services \<Rightarrow> ('a, 'r) baseline option \<Rightarrow> (('a, 'r, 'w) pipeline, unit) act" where
  "commit_baseline C b = (case b of None \<Rightarrow> give () | Some x \<Rightarrow> discard_files C (bl_files x))"

subsection \<open>Scores\<close>

text \<open>How much one failed check weighs: the longest list of findings or the largest count it carries.\<close>

definition list_count :: "(string, json) dict \<Rightarrow> string \<Rightarrow> nat list" where
  "list_count ev k = (case dget ev k of Some (JArr xs) \<Rightarrow> [length xs] | _ \<Rightarrow> [])"

definition number_count :: "(string, json) dict \<Rightarrow> string \<Rightarrow> nat list" where
  "number_count ev k = (case dget ev k of Some (JInt n) \<Rightarrow> if n \<ge> 0 then [nat n] else [] | _ \<Rightarrow> [])"

definition check_weight :: "check_result \<Rightarrow> nat" where
  "check_weight c = foldl max 1
     (concat (map (list_count (cr_evidence c)) [''entity_repair_plans'', ''violations'', ''unconnected_items''])
      @ concat (map (number_count (cr_evidence c)) [''error_count'', ''violation_count'', ''unconnected_count'']))"

definition engineering_score :: "check_result list \<Rightarrow> fail_score" where
  "engineering_score cs =
     (sum_list (map check_weight (filter failed_check cs)),
      sum_list (map check_weight (filter (\<lambda>c. \<not> cr_ok c) cs)), 0)"

lemma check_weight_pos: "1 \<le> check_weight c"
proof -
  have "foldl max m xs \<ge> m" for m :: nat and xs
    by (induction xs arbitrary: m) (auto intro: order_trans[OF max.cobounded1])
  then show ?thesis unfolding check_weight_def .
qed

lemma engineering_score_zero: "fst (engineering_score cs) = 0 \<longleftrightarrow> \<not> list_ex failed_check cs"
proof -
  have "\<forall>c. check_weight c \<noteq> 0" using check_weight_pos by (metis not_one_le_zero)
  then show ?thesis by (auto simp: engineering_score_def list_ex_iff) (metis less_numeral_extra(3))
qed

end
