(* ===== verification/StepRepair.thy ===== *)
theory StepRepair
  imports PipelineState Systems
begin

text \<open>
  One step of the pipeline, \<^verbatim>\<open>PipelineStepBase.run\<close> of
  \<^verbatim>\<open>src/src/ratsnestpro/orchestration/pipeline.py\<close>: propose or resume an artifact, check it,
  repair it within the budgets, keep the best candidate, and record the result. What a
  concrete step implements is a record of functions; they may change the artifacts, the
  files of the run, the saved rest and the world, and may fail. The only subclass that
  extends \<^verbatim>\<open>run\<close> itself (\<^verbatim>\<open>SchConnectionsStep\<close>) rewrites summaries afterwards: \<open>so_after\<close>.
\<close>

record ('a, 'r, 'w) step_ops =
  so_step :: pipeline_step
  so_knowledge :: "('a, 'r, 'w) pipeline \<Rightarrow> string \<times> string list"
  so_propose :: "string \<Rightarrow> ('a, 'r, 'w, 'a \<times> bool) impl"
  so_check :: "'a \<Rightarrow> ('a, 'r, 'w, check_result list) impl"
  so_repair :: "(string \<Rightarrow> 'a \<Rightarrow> check_result list \<Rightarrow> ('a, 'r, 'w, 'a \<times> bool) impl) option"
  so_deterministic :: bool
  so_strategy :: "string option"
  so_applicable :: "('a, 'r, 'w) pipeline \<Rightarrow> 'a \<Rightarrow> check_result list \<Rightarrow> bool"
  so_prepare :: "'a \<Rightarrow> ('a, 'r, 'w, 'a) impl"
  so_replan :: "string \<Rightarrow> 'a \<Rightarrow> string \<Rightarrow> ('a, 'r, 'w, 'a \<times> bool) impl"
  so_replan_custom :: bool
  so_rollback :: "('a, 'r, 'w) pipeline \<Rightarrow> 'a \<Rightarrow> check_result list \<Rightarrow> pipeline_step option"
  so_score :: "'a \<Rightarrow> check_result list \<Rightarrow> fail_score"
  so_summary :: "'a \<Rightarrow> string"
  so_design :: bool
  so_after :: "('a, 'r, 'w) pipeline \<Rightarrow> step_result \<Rightarrow>
    (pipeline_step \<Rightarrow> string \<Rightarrow> string) \<times> (pipeline_step, 'a) dict \<times> 'r"

definition custom_repair :: "('a, 'r, 'w) step_ops \<Rightarrow> bool" where
  "custom_repair P = (so_repair P \<noteq> None)"

text \<open>The inherited repair proposes again.\<close>

definition repair_of ::
  "('a, 'r, 'w) step_ops \<Rightarrow> string \<Rightarrow> 'a \<Rightarrow> check_result list \<Rightarrow> ('a, 'r, 'w, 'a \<times> bool) impl" where
  "repair_of P knowledge a checks =
     (case so_repair P of Some f \<Rightarrow> f knowledge a checks | None \<Rightarrow> so_propose P knowledge)"

definition direct_tools :: "string list" where
  "direct_tools = [''apply_cad_action_batch'', ''repair_route_connectivity'', ''repair_physical_track_width'',
     ''repair_route_endpoint_placement'']"

subsection \<open>The artifact to start from\<close>

definition start_artifact ::
  "('a, 'r, 'w) services \<Rightarrow> ('a, 'r, 'w) step_ops \<Rightarrow> string \<Rightarrow> (('a, 'r, 'w) pipeline, 'a \<times> bool) act" where
  "start_artifact C P knowledge s =
     (let s1 = s\<lparr>pl_resume := ddel (so_step P) (pl_resume s)\<rparr> in
      case dget (pl_resume s) (so_step P) of
        None \<Rightarrow> implement (so_propose P knowledge) s1
      | Some (resumed, used) \<Rightarrow>
          run_then (implement (so_prepare P resumed)) (\<lambda>a s2.
            case (if cx_placement C a \<and> pl_tool s2 = ''apply_cad_action_batch'' then pl_batch s2 else None) of
              Some batch \<Rightarrow>
                (case cx_place C a batch of
                   Inl e \<Rightarrow> (Inl e, s2)
                 | Inr (a', observed) \<Rightarrow> (Inr (a', used), s2\<lparr>pl_observed := Some observed\<rparr>))
            | None \<Rightarrow>
                if pl_tool s2 \<in> set direct_tools then
                  run_then (implement (so_check P a)) (\<lambda>checks.
                  run_then (implement (repair_of P knowledge a checks)) (\<lambda>(a', used').
                    give (a', used \<or> used'))) s2
                else if pl_feedback s2 \<noteq> [] then implement (so_replan P knowledge a (pl_feedback s2)) s2
                else (Inr (a, used), s2)) s1)"

subsection \<open>Failures and scopes\<close>

definition failures_for :: "('a, 'r, 'w) services \<Rightarrow> ('a, 'r, 'w) step_ops \<Rightarrow> bool \<Rightarrow> check_result list \<Rightarrow> failure list" where
  "failures_for C P available checks =
     map (\<lambda>c. make_failure (cx_digest C) (step_name (so_step P)) (cr_name c) (cr_message c)
               (available \<and> cr_origin c \<noteq> Some ExternalEvidenceOrigin) (cr_origin c) (cr_reason c) None (cr_refs c)
               (cr_evidence c))
       (filter failed_check checks)"

definition transient_retry :: "('a, 'r, 'w) services \<Rightarrow> ('a, 'r, 'w) step_ops \<Rightarrow> check_result list \<Rightarrow> bool" where
  "transient_retry C P checks =
     list_ex (\<lambda>c. failed_check c \<and>
       fl_recoverability (make_failure (cx_digest C) (step_name (so_step P)) (cr_name c) (cr_message c) False
         (cr_origin c) (cr_reason c) None [] []) = Retryable) checks"

definition strategy_of :: "('a, 'r, 'w) services \<Rightarrow> ('a, 'r, 'w) step_ops \<Rightarrow> check_result list \<Rightarrow> string" where
  "strategy_of C P checks =
     (case so_strategy P of
        Some s \<Rightarrow> if s \<noteq> [] then s else if custom_repair P then step_name (so_step P) @ ''_repair''
          else if transient_retry C P checks then ''bounded_transient_retry'' else ''llm_reproposal''
      | None \<Rightarrow> if custom_repair P then step_name (so_step P) @ ''_repair''
          else if transient_retry C P checks then ''bounded_transient_retry'' else ''llm_reproposal'')"

definition strategy_available ::
  "('a, 'r, 'w) services \<Rightarrow> ('a, 'r, 'w) step_ops \<Rightarrow> bool \<Rightarrow> check_result list \<Rightarrow> bool" where
  "strategy_available C P used checks =
     (custom_repair P \<or> transient_retry C P checks \<or> (used \<and> \<not> cx_offline C))"

definition proven_harness :: "failure list \<Rightarrow> bool" where
  "proven_harness fs = list_ex (\<lambda>f. fl_origin f \<in> {HarnessOrigin, InfrastructureOrigin}) fs"

definition harness_scope :: "('a, 'r, 'w) services \<Rightarrow> failure list \<Rightarrow> bool" where
  "harness_scope C fs = (\<not> cx_artifact_first C \<or> proven_harness fs)"

definition design_scope :: "('a, 'r, 'w) services \<Rightarrow> ('a, 'r, 'w) step_ops \<Rightarrow> failure list \<Rightarrow> bool" where
  "design_scope C P fs =
     (cx_artifact_first C \<and> \<not> proven_harness fs \<and>
      (cx_repair_release C \<or> (so_design P \<and> cx_design_attempts C > 0)))"

definition repair_scope :: "('a, 'r, 'w) services \<Rightarrow> ('a, 'r, 'w) step_ops \<Rightarrow> failure list \<Rightarrow> bool" where
  "repair_scope C P fs = (harness_scope C fs \<or> design_scope C P fs)"

definition note_events :: "string list \<Rightarrow> pipeline_step \<Rightarrow> ('a, 'r, 'w) pipeline \<Rightarrow> ('a, 'r, 'w) pipeline" where
  "note_events es step s = foldl (\<lambda>t e. note_event e step t) s es"

definition draft_prerequisite ::
  "('a, 'r, 'w) services \<Rightarrow> ('a, 'r, 'w) step_ops \<Rightarrow> 'a \<Rightarrow> check_result list \<Rightarrow> bool" where
  "draft_prerequisite C P a checks =
     (cx_draft_first C \<and> needs_prerequisite_repair (step_name (so_step P)) (Some (cx_draft_view C a)) checks)"

definition can_repair ::
  "('a, 'r, 'w) services \<Rightarrow> ('a, 'r, 'w) step_ops \<Rightarrow> 'a \<Rightarrow> bool \<Rightarrow> check_result list \<Rightarrow> ('a, 'r, 'w) pipeline \<Rightarrow> bool" where
  "can_repair C P a used checks s =
     (let available = strategy_available C P used checks; fs = failures_for C P available checks in
      list_ex failed_check checks \<and>
      (\<not> cx_draft_first C \<or> draft_prerequisite C P a checks) \<and>
      list_ex (\<lambda>c. \<not> cr_ok c \<and> cr_origin c \<noteq> Some ExternalEvidenceOrigin) checks \<and>
      pl_tool s = [] \<and> repair_scope C P fs \<and> (cx_ahe C \<or> design_scope C P fs) \<and> available \<and>
      so_applicable P s a checks \<and>
      (if design_scope C P fs then cx_design_attempts C else cx_repair_attempts C) > 0 \<and>
      cx_in_time C (pl_world s))"

subsection \<open>Budgets\<close>

definition count_records :: "(repair_record \<Rightarrow> bool) \<Rightarrow> ('a, 'r, 'w) pipeline \<Rightarrow> int" where
  "count_records Q s = int (length (filter Q (pl_repairs s)))"

definition remaining_budget ::
  "('a, 'r, 'w) services \<Rightarrow> ('a, 'r, 'w) step_ops \<Rightarrow> string \<Rightarrow> failure list \<Rightarrow> ('a, 'r, 'w) pipeline \<Rightarrow> int" where
  "remaining_budget C P strategy fs s =
     (if design_scope C P fs then
        min (max 0 (cx_max_design_total C - count_records (\<lambda>r. rp_kind r = DesignRepair) s))
            (max 0 (cx_max_design_step C
                    - count_records (\<lambda>r. rp_kind r = DesignRepair \<and> rp_step r = so_step P \<and> rp_strategy r = strategy) s))
      else
        max 0 (min (cx_max_repairs C - count_records (\<lambda>r. rp_kind r = HarnessRepair) s)
                   (cx_max_same_failure C
                    - foldl max 0 (map (\<lambda>f. count_records (\<lambda>r. rp_kind r = HarnessRepair \<and> fl_id f \<in> set (rp_failures r)) s) fs))))"

definition known_scores :: "('a, 'r, 'w) services \<Rightarrow> string \<Rightarrow> failure list \<Rightarrow> rat list" where
  "known_scores C strategy fs =
     (case cx_strategy_score C of
        None \<Rightarrow> []
      | Some f \<Rightarrow> concat (map (\<lambda>x. case f (fl_signature x) strategy of None \<Rightarrow> [] | Some v \<Rightarrow> [v]) fs))"

definition stagnation_budget ::
  "('a, 'r, 'w) services \<Rightarrow> ('a, 'r, 'w) step_ops \<Rightarrow> string \<Rightarrow> failure list \<Rightarrow> ('a, 'r, 'w) pipeline \<Rightarrow> int" where
  "stagnation_budget C P strategy fs s =
     (let remaining = remaining_budget C P strategy fs s;
          b = min (max 0 (if design_scope C P fs then cx_design_attempts C else cx_repair_attempts C)) remaining;
          known = known_scores C strategy fs
      in if b = 0 \<or> known = [] then b
         else if Max (set known) \<ge> 4 / 5 then min (b + 1) remaining
         else if Max (set known) < 1 / 5 then max 1 (b - 1)
         else b)"

definition attempt_limit ::
  "('a, 'r, 'w) services \<Rightarrow> ('a, 'r, 'w) step_ops \<Rightarrow> 'a \<Rightarrow> check_result list \<Rightarrow> string \<Rightarrow> failure list
     \<Rightarrow> ('a, 'r, 'w) pipeline \<Rightarrow> nat" where
  "attempt_limit C P a checks strategy fs s =
     (let hard = min 12 (remaining_budget C P strategy fs s)
      in nat (if draft_prerequisite C P a checks then min 1 hard else hard))"

subsection \<open>The repair loop\<close>

record 'a loop_state =
  lp_best :: 'a
  lp_checks :: "check_result list"
  lp_used :: bool
  lp_stagnant :: int
  lp_baseline :: string
  lp_records :: "repair_record list"

record repair_setting =
  rs_kind :: repair_kind
  rs_strategy :: string
  rs_available :: bool
  rs_knowledge :: string
  rs_budget :: int

definition save_progress ::
  "('a, 'r, 'w) services \<Rightarrow> ('a, 'r, 'w) step_ops \<Rightarrow> 'a loop_state \<Rightarrow> (('a, 'r, 'w) pipeline, unit) act" where
  "save_progress C P l s =
     (if cx_resumable C (lp_best l) then
        (case report_progress C (s\<lparr>pl_resume := dset (so_step P) (lp_best l, lp_used l) (pl_resume s)\<rparr>) of
           (r, s') \<Rightarrow> (r, s'\<lparr>pl_resume := ddel (so_step P) (pl_resume s')\<rparr>))
      else (Inr (), s))"

definition evaluate_repair ::
  "('a, 'r, 'w) step_ops \<Rightarrow> string \<Rightarrow> 'a loop_state \<Rightarrow> (('a, 'r, 'w) pipeline, 'a \<times> bool \<times> check_result list) act" where
  "evaluate_repair P knowledge l =
     run_then (implement (repair_of P knowledge (lp_best l) (lp_checks l))) (\<lambda>(a, used).
     run_then (implement (so_check P a)) (\<lambda>checks. give (a, used, checks)))"

definition error_text :: "step_error \<Rightarrow> string" where
  "error_text e = (case e of StructuredOutputFailed m \<Rightarrow> m | LlmFailed m \<Rightarrow> m | StepFailed m \<Rightarrow> m)"

definition record_repair :: "repair_record \<Rightarrow> ('a, 'r, 'w) pipeline \<Rightarrow> ('a, 'r, 'w) pipeline" where
  "record_repair r s =
     note_event (case rp_status r of RepairImproved \<Rightarrow> ''repair_improved'' | RepairVerified \<Rightarrow> ''repair_verified''
                 | RepairRejected \<Rightarrow> ''repair_rejected'' | RepairError \<Rightarrow> ''repair_error'') (rp_step r)
       (s\<lparr>pl_repairs := pl_repairs s @ [r]\<rparr>)"

definition clear_feedback :: "('a, 'r, 'w) pipeline \<Rightarrow> ('a, 'r, 'w) pipeline" where
  "clear_feedback s = s\<lparr>pl_feedback := []\<rparr>"

definition attempt_record ::
  "('a, 'r, 'w) services \<Rightarrow> ('a, 'r, 'w) step_ops \<Rightarrow> repair_setting \<Rightarrow> nat \<Rightarrow> 'a loop_state \<Rightarrow> repair_record" where
  "attempt_record C P setting attempt l =
     (let before = so_score P (lp_best l) (lp_checks l) in
      \<lparr>rp_kind = rs_kind setting, rp_step = so_step P, rp_strategy = rs_strategy setting, rp_attempt = attempt,
       rp_failures = map fl_id (failures_for C P (rs_available setting) (lp_checks l)), rp_status = RepairError,
       rp_before = before, rp_after = before, rp_detail = [], rp_baseline = lp_baseline l\<rparr>)"

text \<open>The attempt failed: its files are restored, whatever kind of error it was.\<close>

definition repair_failed ::
  "('a, 'r, 'w) services \<Rightarrow> repair_record \<Rightarrow> string \<Rightarrow> 'a loop_state \<Rightarrow> step_error
     \<Rightarrow> (('a, 'r, 'w) pipeline, 'a loop_state \<times> bool) act" where
  "repair_failed C r0 snap l e s =
     (let r = r0\<lparr>rp_detail := error_text e\<rparr>;
          s1 = (if is_llm_error e then record_repair r s else s)
      in case restore_files C snap s1 of
           (Inl f, s2) \<Rightarrow> (Inl f, clear_feedback s2)
         | (Inr _, s2) \<Rightarrow>
             (if is_llm_error e then Inr (l\<lparr>lp_records := lp_records l @ [r]\<rparr>, False) else Inl e, clear_feedback s2))"

definition judge_repair ::
  "('a, 'r, 'w) services \<Rightarrow> ('a, 'r, 'w) step_ops \<Rightarrow> repair_record \<Rightarrow> string \<Rightarrow> 'a loop_state
     \<Rightarrow> 'a \<times> bool \<times> check_result list \<Rightarrow> (('a, 'r, 'w) pipeline, 'a loop_state \<times> bool) act" where
  "judge_repair C P r0 snap l candidate s =
     (case candidate of (a, used, checks) \<Rightarrow>
        (let after = so_score P a checks; improved = (after < rp_before r0); verified = (fst after = 0);
             r = r0\<lparr>rp_after := after, rp_status := (if verified then RepairVerified
                      else if improved then RepairImproved else RepairRejected)\<rparr>;
             s1 = clear_feedback s;
             s2 = record_repair r (if improved then s1\<lparr>pl_revision := pl_revision s1 + 1\<rparr> else s1);
             l1 = l\<lparr>lp_records := lp_records l @ [r]\<rparr>
         in if improved then
              run_then (discard_files C snap) (\<lambda>_.
                give (l1\<lparr>lp_best := a, lp_checks := checks, lp_used := used, lp_baseline := cx_fingerprint C a,
                         lp_stagnant := 0\<rparr>, fst (so_score P a checks) \<noteq> 0)) s2
            else
              run_then (restore_files C snap) (\<lambda>_.
                if custom_repair P \<and> so_deterministic P then give (l1, False)
                else give (l1\<lparr>lp_stagnant := lp_stagnant l1 + 1\<rparr>, fst (rp_before r0) \<noteq> 0)) s2))"

definition repair_label :: "('a, 'r, 'w) step_ops \<Rightarrow> nat \<Rightarrow> ('a, 'r, 'w) pipeline \<Rightarrow> string" where
  "repair_label P attempt s =
     ''repair-'' @ step_name (so_step P) @ ''-'' @ nat_str (pl_revision s) @ ''-'' @ nat_str attempt"

definition repair_round ::
  "('a, 'r, 'w) services \<Rightarrow> ('a, 'r, 'w) step_ops \<Rightarrow> repair_setting \<Rightarrow> nat \<Rightarrow> 'a loop_state
     \<Rightarrow> (('a, 'r, 'w) pipeline, 'a loop_state \<times> bool) act" where
  "repair_round C P setting attempt l s =
     run_then (save_progress C P l) (\<lambda>_.
     run_then (\<lambda>s. snapshot_files C (repair_label P attempt s) s) (\<lambda>snap s1.
       case evaluate_repair P (rs_knowledge setting) l s1 of
         (Inl e, s2) \<Rightarrow> repair_failed C (attempt_record C P setting attempt l) snap l e s2
       | (Inr candidate, s2) \<Rightarrow> judge_repair C P (attempt_record C P setting attempt l) snap l candidate s2))
     (s\<lparr>pl_feedback := cx_rejected_text C (lp_best l) (lp_checks l)\<rparr>)"

text \<open>The loop with the number of attempts the limit still allows.\<close>

fun repair_loop ::
  "('a, 'r, 'w) services \<Rightarrow> ('a, 'r, 'w) step_ops \<Rightarrow> repair_setting \<Rightarrow> nat \<Rightarrow> nat \<Rightarrow> 'a loop_state
     \<Rightarrow> (('a, 'r, 'w) pipeline, 'a loop_state) act" where
  "repair_loop C P setting 0 attempt l s = (Inr l, s)"
| "repair_loop C P setting (Suc n) attempt l s =
     (if lp_stagnant l < rs_budget setting \<and> cx_in_time C (pl_world s) then
        run_then (repair_round C P setting (attempt + 1) l) (\<lambda>(l', go).
          if go then repair_loop C P setting n (attempt + 1) l' else give l') s
      else (Inr l, s))"


subsection \<open>The whole step\<close>

text \<open>What the repair phase hands on.\<close>

record 'a outcome =
  oc_artifact :: 'a
  oc_used :: bool
  oc_checks :: "check_result list"
  oc_blocked :: bool
  oc_records :: "repair_record list"
  oc_scope :: bool
  oc_design :: bool
  oc_available :: bool

definition repair_phase ::
  "('a, 'r, 'w) services \<Rightarrow> ('a, 'r, 'w) step_ops \<Rightarrow> string \<Rightarrow> 'a \<Rightarrow> bool \<Rightarrow> check_result list
     \<Rightarrow> (('a, 'r, 'w) pipeline, 'a outcome) act" where
  "repair_phase C P knowledge a used checks s =
     (let available = strategy_available C P used checks; fs = failures_for C P available checks;
          strategy = strategy_of C P checks;
          s1 = (if repair_scope C P fs then note_events (map (\<lambda>_. ''failure_detected'') fs) (so_step P) s else s)
      in if can_repair C P a used checks s1 then
           run_then (repair_loop C P
               \<lparr>rs_kind = (if design_scope C P fs then DesignRepair else HarnessRepair), rs_strategy = strategy,
                rs_available = available, rs_knowledge = knowledge,
                rs_budget = stagnation_budget C P strategy fs s1\<rparr>
               (attempt_limit C P a checks strategy fs s1) 0
               \<lparr>lp_best = a, lp_checks = checks, lp_used = used, lp_stagnant = 0, lp_baseline = cx_fingerprint C a,
                lp_records = []\<rparr>)
             (\<lambda>l s2. let fs' = failures_for C P available (lp_checks l) in
               (Inr \<lparr>oc_artifact = lp_best l, oc_used = lp_used l, oc_checks = lp_checks l,
                     oc_blocked = (fst (so_score P (lp_best l) (lp_checks l)) > 0), oc_records = lp_records l,
                     oc_scope = repair_scope C P fs', oc_design = (design_scope C P fs' \<and> \<not> proven_harness fs'),
                     oc_available = available\<rparr>, s2)) s1
         else
           (Inr \<lparr>oc_artifact = a, oc_used = used, oc_checks = checks, oc_blocked = list_ex failed_check checks,
                 oc_records = [], oc_scope = repair_scope C P fs, oc_design = design_scope C P fs,
                 oc_available = available\<rparr>, s1))"

text \<open>A recorded gap is resolved when the check of the same name passes for every reference it names.\<close>

definition passed_refs :: "check_result list \<Rightarrow> string \<Rightarrow> string list" where
  "passed_refs checks name = concat (map cr_refs (filter (\<lambda>c. cr_ok c \<and> cr_name c = name) checks))"

definition gap_resolved :: "pipeline_step \<Rightarrow> check_result list \<Rightarrow> capability_gap \<Rightarrow> bool" where
  "gap_resolved step checks g =
     (cg_step g = step_name step \<and> cg_refs g \<noteq> [] \<and> set (cg_refs g) \<subseteq> set (passed_refs checks (cg_check g)))"

definition resolve_gaps :: "pipeline_step \<Rightarrow> check_result list \<Rightarrow> ('a, 'r, 'w) pipeline \<Rightarrow> ('a, 'r, 'w) pipeline" where
  "resolve_gaps step checks s =
     (let resolved = filter (gap_resolved step checks) (pl_gaps s) in
      note_events (map (\<lambda>_. ''capability_gap_resolved'') resolved) step
        (s\<lparr>pl_gaps := filter (\<lambda>g. \<not> gap_resolved step checks g) (pl_gaps s)\<rparr>))"

definition action_event :: "failure_action \<Rightarrow> string" where
  "action_event a =
     (case a of RetryAction \<Rightarrow> ''retry_exhausted'' | RevisionAction \<Rightarrow> ''revision_required''
      | HitlAction \<Rightarrow> ''human_input_required'' | ObserveHarness \<Rightarrow> ''harness_defect_observed''
      | CapabilityGapAction \<Rightarrow> ''capability_gap'' | StopAction \<Rightarrow> ''hard_constraint_conflict'')"

definition failure_event :: "failure \<Rightarrow> string" where
  "failure_event f = (case attribute_failure f 1 1 of Inl _ \<Rightarrow> [] | Inr a \<Rightarrow> action_event (ab_action a))"

definition design_event :: "failure \<Rightarrow> string" where
  "design_event f =
     (if failure_event f = ''human_input_required'' then ''human_input_required'' else ''revision_required'')"

definition final_events ::
  "('a, 'r, 'w) services \<Rightarrow> ('a, 'r, 'w) step_ops \<Rightarrow> 'a outcome \<Rightarrow> failure list \<Rightarrow> ('a, 'r, 'w) pipeline \<Rightarrow> string list" where
  "final_events C P x fs s =
     (let upstream = (oc_blocked x \<and> \<not> cx_draft_first C \<and> oc_scope x \<and> cx_ahe C \<and>
            so_rollback P s (oc_artifact x) (oc_checks x) \<noteq> None)
      in if oc_blocked x \<and> oc_scope x \<and> \<not> upstream \<and> \<not> cx_draft_first C then map failure_event fs
         else if oc_blocked x \<and> oc_design x \<and> \<not> cx_draft_first C then map design_event fs
         else [])"

text \<open>\<^verbatim>\<open>defer_result\<close> of \<^verbatim>\<open>src/src/ratsnestpro/repair/draft.py\<close>.\<close>

definition defer_result ::
  "('a, 'r, 'w) services \<Rightarrow> 'a \<Rightarrow> step_result \<Rightarrow> ('a, 'r, 'w) pipeline \<Rightarrow> step_result \<times> ('a, 'r, 'w) pipeline" where
  "defer_result C a r s =
     (let checks = deferred_checks (step_name (st_step r)) (Some (cx_draft_view C a)) (st_checks r);
          r' = r\<lparr>st_checks := checks, st_execution_blocked := execution_blocked checks\<rparr>;
          issues = dset (st_step r) (cx_fingerprint C a, error_checks r') (dx_issues (pl_draft s));
          s' = s\<lparr>pl_draft := (pl_draft s)\<lparr>dx_issues := issues\<rparr>\<rparr>
      in (r', if error_checks r' \<noteq> [] \<and> \<not> st_execution_blocked r'
              then note_event ''draft_issues_deferred'' (st_step r) s' else s'))"

definition record_result ::
  "('a, 'r, 'w) services \<Rightarrow> ('a, 'r, 'w) step_ops \<Rightarrow> string list \<Rightarrow> 'a outcome
     \<Rightarrow> ('a, 'r, 'w) pipeline \<Rightarrow> step_result \<times> ('a, 'r, 'w) pipeline" where
  "record_result C P knowledge x s =
     (let fs = failures_for C P (oc_available x) (oc_checks x);
          s1 = (if oc_blocked x then s else resolve_gaps (so_step P) (oc_checks x) s);
          s2 = note_events (final_events C P x fs s1) (so_step P) s1;
          s3 = s2\<lparr>pl_artifacts := dset (so_step P) (oc_artifact x) (pl_artifacts s2)\<rparr>;
          r = \<lparr>st_step = so_step P, st_used_llm = oc_used x, st_knowledge = knowledge, st_checks = oc_checks x,
               st_failures = fs, st_repairs = oc_records x, st_blocked = oc_blocked x,
               st_execution_blocked = execution_blocked (oc_checks x), st_summary = so_summary P (oc_artifact x)\<rparr>;
          (r', s4) = (if cx_draft_first C then defer_result C (oc_artifact x) r s3 else (r, s3))
      in (r', s4\<lparr>pl_results := pl_results s4 @ [r']\<rparr>))"

text \<open>The summaries a subclass rewrites, in the results recorded so far.\<close>

definition rewrite_summaries ::
  "('a, 'r, 'w) step_ops \<Rightarrow> step_result \<times> ('a, 'r, 'w) pipeline \<Rightarrow> step_result \<times> ('a, 'r, 'w) pipeline" where
  "rewrite_summaries P x =
     (case x of (r, s) \<Rightarrow>
        (case so_after P s r of (summary, replaced, rest) \<Rightarrow>
           (r\<lparr>st_summary := summary (st_step r) (st_summary r)\<rparr>,
            s\<lparr>pl_results := map (\<lambda>q. q\<lparr>st_summary := summary (st_step q) (st_summary q)\<rparr>) (pl_results s),
              pl_artifacts := foldl (\<lambda>d (k, v). dset k v d) (pl_artifacts s) replaced, pl_rest := rest\<rparr>)))"

definition step_run ::
  "('a, 'r, 'w) services \<Rightarrow> ('a, 'r, 'w) step_ops \<Rightarrow> (('a, 'r, 'w) pipeline, step_result) act" where
  "step_run C P s =
     (case so_knowledge P s of (knowledge, ids) \<Rightarrow>
        run_then (start_artifact C P knowledge) (\<lambda>(a, used).
        run_then (implement (so_check P a)) (\<lambda>checks.
        run_then (repair_phase C P knowledge a used checks) (\<lambda>x s1.
          case rewrite_summaries P (record_result C P ids x s1) of (r, s2) \<Rightarrow> (Inr r, s2)))) s)"

end
