(* ===== verification/StepContract.thy ===== *)
theory StepContract
  imports StepRepair
begin

text \<open>
  What one step guarantees: a frame (the audit of the driver, the results before it and the
  snapshots of others are kept), the contract the driver relies on, the repair loop keeping
  its best candidate together with the files that candidate left, verdicts that agree with the
  checks, and repairs within the budgets.
\<close>

subsection \<open>What a step leaves alone\<close>

text \<open>
  The audit of the driver, the results and the snapshots named in \<open>U\<close> are kept; the revision
  and the repair history only grow.
\<close>

definition frame :: "string set \<Rightarrow> ('a, 'r, 'w) pipeline \<Rightarrow> ('a, 'r, 'w) pipeline \<Rightarrow> bool" where
  "frame U s t =
     (pl_results t = pl_results s \<and> pl_replans t = pl_replans s \<and> pl_turns t = pl_turns s \<and>
      pl_draft t = pl_draft s \<and> pl_gaps t = pl_gaps s \<and> pl_tool t = pl_tool s \<and> pl_batch t = pl_batch s \<and>
      pl_revision s \<le> pl_revision t \<and> (\<exists>rs. pl_repairs t = pl_repairs s @ rs) \<and>
      rd_configured (pl_dir t) = rd_configured (pl_dir s) \<and> rd_exists (pl_dir t) = rd_exists (pl_dir s) \<and>
      rd_name (pl_dir t) = rd_name (pl_dir s) \<and>
      (\<forall>u \<in> U. dget (rd_backups (pl_dir t)) u = dget (rd_backups (pl_dir s)) u))"


named_theorems kept_rules \<open>operations that keep the frame\<close>

lemma frame_refl [simp]: "frame U s s"
  by (auto simp: frame_def)

lemma frame_trans: "frame U s t \<Longrightarrow> frame U t u \<Longrightarrow> frame U s u"
  by (auto simp: frame_def)

lemma frame_updates [simp]:
  "frame U s0 (s\<lparr>pl_artifacts := a\<rparr>) = frame U s0 s" "frame U s0 (s\<lparr>pl_resume := b\<rparr>) = frame U s0 s"
  "frame U s0 (s\<lparr>pl_rest := c\<rparr>) = frame U s0 s" "frame U s0 (s\<lparr>pl_world := d\<rparr>) = frame U s0 s"
  "frame U s0 (s\<lparr>pl_feedback := e\<rparr>) = frame U s0 s" "frame U s0 (s\<lparr>pl_observed := f\<rparr>) = frame U s0 s"
  "frame U s0 (note_event g p s) = frame U s0 s" "frame U s0 (clear_feedback s) = frame U s0 s"
  "frame U s0 (s\<lparr>pl_dir := (pl_dir s)\<lparr>rd_files := h\<rparr>\<rparr>) = frame U s0 s"
  by (simp_all add: frame_def note_event_def clear_feedback_def)

lemma note_events_frame [simp]: "frame U s0 (note_events es p s) = frame U s0 s"
  by (induction es arbitrary: s) (simp_all add: note_events_def)

lemma frame_grows:
  "frame U s0 s \<Longrightarrow> frame U s0 (s\<lparr>pl_revision := pl_revision s + n\<rparr>)"
  "frame U s0 s \<Longrightarrow> frame U s0 (record_repair q s)"
  by (auto simp: frame_def record_repair_def note_event_def)

text \<open>The state an action ends in, success or not, keeps the frame of \<open>s0\<close>.\<close>

definition keeps_frame :: "string set \<Rightarrow> ('a, 'r, 'w) pipeline \<Rightarrow> 'x \<times> ('a, 'r, 'w) pipeline \<Rightarrow> bool" where
  "keeps_frame U s0 p = frame U s0 (snd p)"

lemma kept_pair [simp]: "keeps_frame U s0 (r, s) = frame U s0 s"
  by (simp add: keeps_frame_def)

lemma kept_then [kept_rules]:
  assumes "keeps_frame U s0 (f s)" and "\<And>x t. f s = (Inr x, t) \<Longrightarrow> frame U s0 t \<Longrightarrow> keeps_frame U s0 (k x t)"
  shows "keeps_frame U s0 (run_then f k s)"
  using assms by (auto simp: run_then_def keeps_frame_def split: prod.splits sum.splits)

lemma kept_give [kept_rules]: "frame U s0 s \<Longrightarrow> keeps_frame U s0 (give x s)"
  by (simp add: give_def)

lemma kept_implement [kept_rules]: "frame U s0 s \<Longrightarrow> keeps_frame U s0 (implement f s)"
  by (auto simp: implement_def keeps_frame_def frame_def split: prod.splits)

lemma kept_progress [kept_rules]: "frame U s0 s \<Longrightarrow> keeps_frame U s0 (report_progress C s)"
  by (auto simp: report_progress_def split: prod.splits)

lemma kept_save_progress [kept_rules]: "frame U s0 s \<Longrightarrow> keeps_frame U s0 (save_progress C P l s)"
  by (auto simp: save_progress_def report_progress_def split: prod.splits)

lemma kept_start [kept_rules]:
  assumes "frame U s0 s"
  shows "keeps_frame U s0 (start_artifact C P k s)"
  using assms unfolding start_artifact_def Let_def
  by (auto intro!: kept_rules split: option.splits prod.splits sum.splits)

lemma kept_evaluate [kept_rules]: "frame U s0 s \<Longrightarrow> keeps_frame U s0 (evaluate_repair P k l s)"
  unfolding evaluate_repair_def by (auto intro!: kept_rules split: prod.splits)


lemma snapshot_files_result:
  assumes "snapshot_files C label s = (r, t)" and mk: "fresh_names (cx_mk C)"
  obtains v d where "r = Inr v" "t = s\<lparr>pl_dir := d\<rparr>" "snapshot_candidate_files (cx_mk C) label (pl_dir s) = (v, d)"
    "dget (rd_backups (pl_dir s)) v = None \<or> v = []"
    "\<And>u. u \<noteq> v \<Longrightarrow> dget (rd_backups d) u = dget (rd_backups (pl_dir s)) u"
    "rd_files d = rd_files (pl_dir s)" "rd_configured d = rd_configured (pl_dir s)"
    "rd_exists d = rd_exists (pl_dir s)" "rd_name d = rd_name (pl_dir s)"
    "v = [] \<Longrightarrow> d = pl_dir s"
proof -
  obtain v d where vd: "snapshot_candidate_files (cx_mk C) label (pl_dir s) = (v, d)" by fastforce
  then have rt: "r = Inr v" "t = s\<lparr>pl_dir := d\<rparr>" using assms(1) by (auto simp: snapshot_files_def)
  have fresh: "cx_mk C l ns \<notin> set ns" for l ns using mk by (auto simp: fresh_names_def)
  show thesis
  proof (rule that[OF rt vd])
    show "dget (rd_backups (pl_dir s)) v = None \<or> v = []"
      using vd fresh[of "snapshot_label label" "dkeys (rd_backups (pl_dir s))"]
      by (auto simp: snapshot_candidate_files_def Let_def set_dkeys split: if_splits)
    show "v = [] \<Longrightarrow> d = pl_dir s"
      using vd snapshot_valid(2)[OF mk vd]
      by (auto simp: snapshot_candidate_files_def Let_def split: if_splits)
  qed (use vd in \<open>auto simp: snapshot_candidate_files_def Let_def dict_simps split: if_splits\<close>)
qed

lemma frame_snapshot:
  assumes "snapshot_files C label s = (r, t)" and "fresh_names (cx_mk C)" and "frame U s0 s"
    and "U \<subseteq> dom (dget (rd_backups (pl_dir s0)))"
  shows "frame U s0 t" and "\<And>w. r = Inr w \<Longrightarrow> w \<notin> U \<or> w = []"
proof -
  obtain v d where v: "r = Inr v" "t = s\<lparr>pl_dir := d\<rparr>" "dget (rd_backups (pl_dir s)) v = None \<or> v = []"
    "\<And>u. u \<noteq> v \<Longrightarrow> dget (rd_backups d) u = dget (rd_backups (pl_dir s)) u" "rd_configured d = rd_configured (pl_dir s)"
    "rd_exists d = rd_exists (pl_dir s)" "rd_name d = rd_name (pl_dir s)" "v = [] \<Longrightarrow> d = pl_dir s"
    using snapshot_files_result[OF assms(1,2)] by metis
  have out: "v \<notin> U \<or> v = []"
  proof (cases "v = []")
    case False
    then have "dget (rd_backups (pl_dir s)) v = None" using v(3) by blast
    then have "v \<in> U \<Longrightarrow> dget (rd_backups (pl_dir s0)) v = None" using assms(3) by (simp add: frame_def)
    then show ?thesis using assms(4) by blast
  qed simp
  then show "r = Inr w \<Longrightarrow> w \<notin> U \<or> w = []" for w using v(1) by simp
  have "u \<in> U \<Longrightarrow> dget (rd_backups d) u = dget (rd_backups (pl_dir s)) u" for u
    using v(4)[of u] v(8) out by (cases "u = v") auto
  then show "frame U s0 t" using assms(3) v by (auto simp: frame_def)
qed

lemma kept_restore [kept_rules]:
  assumes "frame U s0 s" and "good_name v" and "v \<notin> U \<or> v = []"
  shows "keeps_frame U s0 (restore_files C v s)"
proof -
  obtain r d where rd: "restore_candidate_files (cx_faults C (pl_world s)) v (pl_dir s) = (r, d)" by fastforce
  have "frame U s0 (s\<lparr>pl_dir := d\<rparr>)"
    using assms restore_keeps[OF rd assms(2)] by (auto simp: frame_def)
  then show ?thesis using rd by (auto simp: restore_files_def split: sum.splits)
qed

lemma kept_discard [kept_rules]:
  assumes "frame U s0 s" and "good_name v" and "v \<notin> U \<or> v = []"
  shows "keeps_frame U s0 (discard_files C v s)"
proof (cases "discard_candidate_files (rf_stuck (cx_faults C (pl_world s))) v (pl_dir s)")
  case (Inl e)
  then show ?thesis using assms by (simp add: discard_files_def)
next
  case (Inr d)
  then have "frame U s0 (s\<lparr>pl_dir := d\<rparr>)"
    using assms discard_keeps[OF Inr assms(2)] by (auto simp: frame_def)
  then show ?thesis using Inr by (simp add: discard_files_def)
qed

lemma kept_failed [kept_rules]:
  assumes "frame U s0 s" and "good_name v" and "v \<notin> U \<or> v = []"
  shows "keeps_frame U s0 (repair_failed C q v l e s)"
proof -
  have "keeps_frame U s0 (restore_files C v (if b then record_repair q' s else s))" for b q'
    using assms by (auto intro!: kept_restore frame_grows)
  then show ?thesis unfolding repair_failed_def Let_def keeps_frame_def
    by (auto split: prod.splits sum.splits simp del: if_split) (metis snd_conv)+
qed

lemma kept_judge [kept_rules]:
  assumes "frame U s0 s" and "good_name v" and "v \<notin> U \<or> v = []"
  shows "keeps_frame U s0 (judge_repair C P q v l x s)"
proof -
  have "frame U s0 (record_repair q' (clear_feedback s))"
    "frame U s0 (record_repair q' ((clear_feedback s)\<lparr>pl_revision := Suc (pl_revision (clear_feedback s))\<rparr>))" for q'
    using assms(1) frame_grows(1)[of U s0 "clear_feedback s" 1] by (auto intro!: frame_grows(2))
  then show ?thesis
    using assms(2,3) unfolding judge_repair_def Let_def
    by (auto intro!: kept_rules split: prod.splits)
qed

lemma kept_round [kept_rules]:
  assumes mk: "fresh_names (cx_mk C)" and U: "U \<subseteq> dom (dget (rd_backups (pl_dir s0)))" and "frame U s0 s"
  shows "keeps_frame U s0 (repair_round C P setting n l s)"
proof -
  have snap: "keeps_frame U s0 (snapshot_files C label t) \<and>
      (\<forall>v u. snapshot_files C label t = (Inr v, u) \<longrightarrow> good_name v \<and> (v \<notin> U \<or> v = []))" if "frame U s0 t" for label t
  proof -
    obtain r u where ru: "snapshot_files C label t = (r, u)" by fastforce
    from frame_snapshot[OF ru mk that U] show ?thesis
      using ru snapshot_good[OF mk] by (auto simp: snapshot_files_def split: prod.splits)
  qed
  show ?thesis
    unfolding repair_round_def
    using assms(3) snap
    by (auto intro!: kept_rules split: prod.splits sum.splits) (metis kept_evaluate kept_pair kept_failed kept_judge)+
qed

lemma kept_loop [kept_rules]:
  assumes mk: "fresh_names (cx_mk C)" and U: "U \<subseteq> dom (dget (rd_backups (pl_dir s0)))"
  shows "frame U s0 s \<Longrightarrow> keeps_frame U s0 (repair_loop C P setting n k l s)"
proof (induction n arbitrary: k l s)
  case 0
  then show ?case by simp
next
  case (Suc n)
  then show ?case by (auto intro!: kept_then kept_round[OF mk U] kept_give split: prod.splits)
qed

lemma give_eq [simp]: "give x s = (r, t) \<longleftrightarrow> r = Inr x \<and> t = s"
  by (auto simp: give_def)

lemma run_then_cases:
  assumes "run_then f k s = (r, t)"
  obtains (err) e where "f s = (Inl e, t)" "r = Inl e"
    | (ok) x s1 where "f s = (Inr x, s1)" "k x s1 = (r, t)"
  using assms by (auto simp: run_then_def split: prod.splits sum.splits)

lemma kept_phase [kept_rules]:
  assumes "fresh_names (cx_mk C)" and "U \<subseteq> dom (dget (rd_backups (pl_dir s0)))" and "frame U s0 s"
  shows "keeps_frame U s0 (repair_phase C P k a used checks s)"
  using assms unfolding repair_phase_def Let_def
  by (auto intro!: kept_then kept_loop)

subsection \<open>The contract of a step\<close>

text \<open>A result without the summary, which later steps may rewrite.\<close>

definition gate :: "step_result \<Rightarrow> step_result" where
  "gate r = r\<lparr>st_summary := []\<rparr>"

text \<open>What the driver may rely on between two of its own actions.\<close>

definition engine_frame :: "string set \<Rightarrow> ('a, 'r, 'w) pipeline \<Rightarrow> ('a, 'r, 'w) pipeline \<Rightarrow> bool" where
  "engine_frame U s t =
     (pl_replans t = pl_replans s \<and> pl_turns t = pl_turns s \<and> pl_tool t = pl_tool s \<and>
      pl_revision s \<le> pl_revision t \<and> (\<exists>rs. pl_repairs t = pl_repairs s @ rs) \<and>
      rd_configured (pl_dir t) = rd_configured (pl_dir s) \<and> rd_exists (pl_dir t) = rd_exists (pl_dir s) \<and>
      rd_name (pl_dir t) = rd_name (pl_dir s) \<and>
      (\<forall>u \<in> U. dget (rd_backups (pl_dir t)) u = dget (rd_backups (pl_dir s)) u))"

lemma frame_engine: "frame U s t \<Longrightarrow> engine_frame U s t"
  by (auto simp: frame_def engine_frame_def)

lemma engine_refl [simp]: "engine_frame U s s"
  by (auto simp: engine_frame_def)

lemma engine_trans: "engine_frame U s t \<Longrightarrow> engine_frame U t u \<Longrightarrow> engine_frame U s u"
  by (auto simp: engine_frame_def)

lemma note_events_eq: "note_events es p s = s\<lparr>pl_events := pl_events s @ map (\<lambda>e. (e, p)) es\<rparr>"
  by (induction es arbitrary: s) (simp_all add: note_events_def note_event_def)

lemma note_events_simps [simp]:
  "pl_results (note_events es p s) = pl_results s" "pl_artifacts (note_events es p s) = pl_artifacts s"
  "pl_repairs (note_events es p s) = pl_repairs s" "pl_dir (note_events es p s) = pl_dir s"
  "engine_frame U s0 (note_events es p s) = engine_frame U s0 s"
  by (simp_all add: note_events_eq engine_frame_def)

lemma defer_result_simps:
  assumes "defer_result C a r s = (q, t)"
  shows "st_step q = st_step r" "st_blocked q = st_blocked r" "pl_results t = pl_results s"
    "pl_artifacts t = pl_artifacts s" "pl_repairs t = pl_repairs s" "engine_frame U s0 t = engine_frame U s0 s"
    "st_checks q = deferred_checks (step_name (st_step r)) (Some (cx_draft_view C a)) (st_checks r)"
    "st_repairs q = st_repairs r" "st_execution_blocked q = execution_blocked (st_checks q)"
  using assms by (auto simp: defer_result_def Let_def note_event_def engine_frame_def split: if_splits)

lemma dget_replace: "dget d k = Some x \<Longrightarrow> \<exists>y. dget (foldl (\<lambda>d (k, v). dset k v d) d us) k = Some y"
proof (induction us arbitrary: d x)
  case Nil
  then show ?case by simp
next
  case (Cons u us)
  obtain k' v where u: "u = (k', v)" by fastforce
  have "\<exists>z. dget (dset k' v d) k = Some z" using Cons.prems by (simp add: dict_simps)
  then show ?case using Cons.IH u by auto
qed

lemma record_result_result:
  assumes "record_result C P ids x s = (r, t)"
  shows "st_step r = so_step P" "st_blocked r = oc_blocked x" "pl_results t = pl_results s @ [r]"
    "dget (pl_artifacts t) (so_step P) = Some (oc_artifact x)" "pl_repairs t = pl_repairs s"
    "engine_frame U s0 t = engine_frame U s0 s" "st_repairs r = oc_records x"
    "st_execution_blocked r = execution_blocked (st_checks r)"
    "st_checks r = (if cx_draft_first C
       then deferred_checks (step_name (so_step P)) (Some (cx_draft_view C (oc_artifact x))) (oc_checks x) else oc_checks x)"
proof -
  let ?fs = "failures_for C P (oc_available x) (oc_checks x)"
  define s1 where "s1 = (if oc_blocked x then s else resolve_gaps (so_step P) (oc_checks x) s)"
  define s2 where "s2 = note_events (final_events C P x ?fs s1) (so_step P) s1"
  define s3 where "s3 = s2\<lparr>pl_artifacts := dset (so_step P) (oc_artifact x) (pl_artifacts s2)\<rparr>"
  define q where "q = \<lparr>st_step = so_step P, st_used_llm = oc_used x, st_knowledge = ids, st_checks = oc_checks x,
      st_failures = ?fs, st_repairs = oc_records x, st_blocked = oc_blocked x,
      st_execution_blocked = execution_blocked (oc_checks x), st_summary = so_summary P (oc_artifact x)\<rparr>"
  obtain q' s4 where q': "(if cx_draft_first C then defer_result C (oc_artifact x) q s3 else (q, s3)) = (q', s4)"
    by fastforce
  have "record_result C P ids x s =
      (case (if cx_draft_first C then defer_result C (oc_artifact x) q s3 else (q, s3)) of
         (r', s4) \<Rightarrow> (r', s4\<lparr>pl_results := pl_results s4 @ [r']\<rparr>))"
    unfolding record_result_def Let_def s1_def s2_def s3_def q_def by (rule refl)
  then have rt: "r = q'" "t = s4\<lparr>pl_results := pl_results s4 @ [q']\<rparr>" using assms q' by simp_all
  have s3: "pl_results s3 = pl_results s" "dget (pl_artifacts s3) (so_step P) = Some (oc_artifact x)"
    "pl_repairs s3 = pl_repairs s" "engine_frame U s0 s3 = engine_frame U s0 s"
    by (simp_all add: s3_def s2_def s1_def dict_simps engine_frame_def resolve_gaps_def note_events_eq Let_def)
  have s4: "st_step q' = so_step P" "st_blocked q' = oc_blocked x" "pl_results s4 = pl_results s3"
    "pl_artifacts s4 = pl_artifacts s3" "pl_repairs s4 = pl_repairs s3" "engine_frame U s0 s4 = engine_frame U s0 s3"
    "st_repairs q' = oc_records x" "st_execution_blocked q' = execution_blocked (st_checks q')"
    "st_checks q' = (if cx_draft_first C
       then deferred_checks (step_name (so_step P)) (Some (cx_draft_view C (oc_artifact x))) (oc_checks x) else oc_checks x)"
    using q' defer_result_simps[of C "oc_artifact x" q s3 q' s4] by (auto simp: q_def split: if_splits)
  show "st_step r = so_step P" "st_blocked r = oc_blocked x" "pl_results t = pl_results s @ [r]"
    "dget (pl_artifacts t) (so_step P) = Some (oc_artifact x)" "pl_repairs t = pl_repairs s"
    "engine_frame U s0 t = engine_frame U s0 s" "st_repairs r = oc_records x"
    "st_execution_blocked r = execution_blocked (st_checks r)"
    "st_checks r = (if cx_draft_first C
       then deferred_checks (step_name (so_step P)) (Some (cx_draft_view C (oc_artifact x))) (oc_checks x) else oc_checks x)"
    using s3 s4 rt by (simp_all add: engine_frame_def)
qed

lemma repairs_kept [simp]:
  "pl_repairs (snd (implement f s)) = pl_repairs s" "pl_repairs (snd (save_progress C P l s)) = pl_repairs s"
  "pl_repairs (snd (snapshot_files C v s)) = pl_repairs s" "pl_repairs (snd (restore_files C w s)) = pl_repairs s"
  "pl_repairs (snd (discard_files C w s)) = pl_repairs s" "pl_repairs (snd (evaluate_repair P k l s)) = pl_repairs s"
  "pl_repairs (clear_feedback s) = pl_repairs s" "pl_repairs (record_repair q s) = pl_repairs s @ [q]"
proof -
  have i: "pl_repairs (snd (implement g t)) = pl_repairs t" for g :: "('a, 'r, 'w, 'x) impl" and t
    by (simp add: implement_def split: prod.splits)
  show "pl_repairs (snd (implement f s)) = pl_repairs s" by (simp add: implement_def split: prod.splits)
  show "pl_repairs (snd (evaluate_repair P k l s)) = pl_repairs s"
    by (auto simp: evaluate_repair_def run_then_def give_def implement_def split: prod.splits sum.splits)
qed (auto simp: save_progress_def report_progress_def snapshot_files_def restore_files_def discard_files_def
      clear_feedback_def record_repair_def note_event_def split: prod.splits sum.splits)

lemma start_repairs: "pl_repairs (snd (start_artifact C P k s)) = pl_repairs s"
  unfolding start_artifact_def Let_def
  by (auto simp: run_then_def give_def implement_def split: option.splits prod.splits sum.splits)

lemma step_run_cases:
  assumes mk: "fresh_names (cx_mk C)" and U: "U \<subseteq> dom (dget (rd_backups (pl_dir s)))"
    and run: "step_run C P s = (res, t)"
  obtains (err) e where "res = Inl e" "frame U s t"
    | (ok) r x ids s1 t1 k a used checks s0 where "res = Inr r" "frame U s s1" "record_result C P ids x s1 = (fst (record_result C P ids x s1), t1)"
        "(r, t) = rewrite_summaries P (fst (record_result C P ids x s1), t1)"
        "repair_phase C P k a used checks s0 = (Inr x, s1)" "pl_repairs s0 = pl_repairs s" "pl_tool s0 = pl_tool s"
proof -
  obtain knowledge ids where k: "so_knowledge P s = (knowledge, ids)" by fastforce
  let ?rest = "\<lambda>(a, used). run_then (implement (so_check P a)) (\<lambda>checks.
      run_then (repair_phase C P knowledge a used checks) (\<lambda>x s1.
        case rewrite_summaries P (record_result C P ids x s1) of (r, s2) \<Rightarrow> (Inr r, s2)))"
  have run': "run_then (start_artifact C P knowledge) ?rest s = (res, t)" using run k by (simp add: step_run_def)
  have start: "keeps_frame U s (start_artifact C P knowledge s)" by (rule kept_start) simp
  from run' show thesis
  proof (cases rule: run_then_cases)
    case (err e)
    then show thesis using start that(1) by (simp add: keeps_frame_def)
  next
    case (ok au s2)
    obtain a used where au: "au = (a, used)" by fastforce
    note start_eq = ok(1)
    have f2: "frame U s s2" using start ok(1) by (simp add: keeps_frame_def)
    from ok(2) au have "run_then (implement (so_check P a)) (\<lambda>checks.
        run_then (repair_phase C P knowledge a used checks) (\<lambda>x s1.
          case rewrite_summaries P (record_result C P ids x s1) of (r, s2) \<Rightarrow> (Inr r, s2))) s2 = (res, t)" by simp
    then show thesis
    proof (cases rule: run_then_cases)
      case (err e)
      then show thesis using kept_implement[OF f2, of "so_check P a"] that(1) by (simp add: keeps_frame_def)
    next
      case (ok checks s3)
      note s3 = ok(1)
      have f3: "frame U s s3" using kept_implement[OF f2, of "so_check P a"] ok(1) by (simp add: keeps_frame_def)
      note phase = kept_phase[OF mk U f3, of P knowledge a used checks]
      from ok(2) show thesis
      proof (cases rule: run_then_cases)
        case (err e)
        then show thesis using phase that(1) by (simp add: keeps_frame_def)
      next
        case (ok x s4)
        obtain r0 t1 where rt: "record_result C P ids x s4 = (r0, t1)" by fastforce
        have "frame U s s4" using phase ok(1) by (simp add: keeps_frame_def)
        moreover obtain r where "rewrite_summaries P (r0, t1) = (r, t)" "res = Inr r"
          using ok(2) rt by (auto split: prod.splits)
        moreover have "pl_repairs s3 = pl_repairs s"
          using repairs_kept(1)[of "so_check P a" s2] start_repairs[of C P knowledge s] ok(1) s3 start_eq by simp
        ultimately show thesis using that(2)[of r s4 ids x t1 knowledge a used checks s3] rt ok(1) f3
          by (simp add: frame_def)
      qed
    qed
  qed
qed

lemma step_run_contract:
  assumes mk: "fresh_names (cx_mk C)" and U: "U \<subseteq> dom (dget (rd_backups (pl_dir s)))"
  shows "step_run C P s = (Inr r, t) \<Longrightarrow>
      st_step r = so_step P \<and> map gate (pl_results t) = map gate (pl_results s) @ [gate r] \<and>
      dget (pl_artifacts t) (so_step P) \<noteq> None \<and> engine_frame U s t"
    and "step_run C P s = (Inl e, t) \<Longrightarrow> pl_results t = pl_results s \<and> engine_frame U s t"
proof -
  assume run: "step_run C P s = (Inr r, t)"
  show "st_step r = so_step P \<and> map gate (pl_results t) = map gate (pl_results s) @ [gate r] \<and>
      dget (pl_artifacts t) (so_step P) \<noteq> None \<and> engine_frame U s t"
  proof (cases rule: step_run_cases[OF mk U run])
    case (2 r' x ids s1 t1 k a used checks s0)
    note ok = this
    note rec = record_result_result[OF ok(3)]
    have fr: "frame U s s1" by (rule ok(2))
    have "engine_frame U s t1" using rec(6) frame_engine[OF fr] by blast
    moreover have "pl_results s1 = pl_results s" using fr by (simp add: frame_def)
    moreover have "dget (pl_artifacts t1) (so_step P) \<noteq> None" using rec(4) by simp
    ultimately show ?thesis using ok(1,4) rec(1,3)
      by (auto simp: rewrite_summaries_def gate_def engine_frame_def intro: dget_replace split: prod.splits)
  qed simp
next
  assume run: "step_run C P s = (Inl e, t)"
  show "pl_results t = pl_results s \<and> engine_frame U s t"
    by (cases rule: step_run_cases[OF mk U run]) (auto simp: frame_def engine_frame_def)
qed
subsection \<open>The loop keeps the best candidate\<close>

definition same_managed :: "'c tree \<Rightarrow> 'c tree \<Rightarrow> bool" where
  "same_managed t u = (\<forall>p. candidate_managed_file p \<longrightarrow> dget t p = dget u p)"

text \<open>Restores whose roll-back and clean-up succeed.\<close>

definition tidy :: "('a, 'r, 'w) services \<Rightarrow> bool" where
  "tidy C = (\<forall>w. rf_undo (cx_faults C w) = [] \<and> rf_unlink (cx_faults C w) = [])"

definition has_directory :: "('a, 'r, 'w) pipeline \<Rightarrow> bool" where
  "has_directory s = (rd_configured (pl_dir s) \<and> rd_exists (pl_dir s))"

definition evaluated ::
  "('a, 'r, 'w) step_ops \<Rightarrow> string \<Rightarrow> 'a \<Rightarrow> check_result list \<Rightarrow> string tree \<Rightarrow> bool" where
  "evaluated P k a checks files =
     (\<exists>l u used u'. evaluate_repair P k l u = (Inr (a, used, checks), u') \<and> same_managed (rd_files (pl_dir u')) files)"

text \<open>
  The best candidate is no worse than the first, and the files are those its own evaluation
  left behind (those at the start for the first one).
\<close>

definition loop_ok ::
  "('a, 'r, 'w) step_ops \<Rightarrow> string \<Rightarrow> 'a \<times> check_result list \<times> string tree \<Rightarrow> 'a loop_state \<Rightarrow> ('a, 'r, 'w) pipeline \<Rightarrow> bool" where
  "loop_ok P k first l s =
     (case first of (a0, checks0, files0) \<Rightarrow>
        so_score P (lp_best l) (lp_checks l) \<le> so_score P a0 checks0 \<and> has_directory s \<and>
        (lp_best l = a0 \<and> lp_checks l = checks0 \<and> same_managed files0 (rd_files (pl_dir s)) \<or>
         evaluated P k (lp_best l) (lp_checks l) (rd_files (pl_dir s))))"

lemma loop_ok_files:
  assumes "loop_ok P k first l s" and "same_managed (rd_files (pl_dir s)) (rd_files (pl_dir t))" and "has_directory t"
    and "lp_best l' = lp_best l" and "lp_checks l' = lp_checks l"
  shows "loop_ok P k first l' t"
  using assms by (auto simp: loop_ok_def evaluated_def same_managed_def split: prod.splits)

lemma loop_ok_better:
  assumes "loop_ok P k first l s" and "evaluate_repair P k l0 u = (Inr (a, used, checks), u')"
    and "so_score P a checks < so_score P (lp_best l) (lp_checks l)"
    and "same_managed (rd_files (pl_dir u')) (rd_files (pl_dir t))" and "has_directory t"
    and "lp_best l' = a" and "lp_checks l' = checks"
  shows "loop_ok P k first l' t"
proof -
  have "evaluated P k a checks (rd_files (pl_dir t))" using assms(2,4) unfolding evaluated_def by blast
  moreover have "so_score P a checks \<le> so_score P (lp_best l) (lp_checks l)" using assms(3) by (rule less_imp_le)
  ultimately show ?thesis using assms(1,5,6,7) by (auto simp: loop_ok_def split: prod.splits intro: order_trans)
qed

lemma restored_files:
  assumes mk: "fresh_names (cx_mk C)" and snap: "snapshot_candidate_files (cx_mk C) label d0 = (v, d1)"
    and dir: "rd_configured d0" "rd_exists d0" and tidy: "tidy C"
    and u: "rd_configured (pl_dir u)" "rd_exists (pl_dir u)" "dget (rd_backups (pl_dir u)) v = dget (rd_backups d1) v"
    and run: "restore_files C v u = (Inr x, t)"
  shows "same_managed (rd_files d0) (rd_files (pl_dir t)) \<and> has_directory t"
proof -
  let ?f = "cx_faults C (pl_world u)"
  obtain r d where rd: "restore_candidate_files ?f v (pl_dir u) = (r, d)" by fastforce
  then have r: "r = Inr ()" and t: "t = u\<lparr>pl_dir := d\<rparr>" using run by (auto simp: restore_files_def split: sum.splits)
  have f: "rf_undo ?f = []" "rf_unlink ?f = []" using tidy by (simp_all add: tidy_def)
  have "same_managed (rd_files d0) (rd_files d)"
    using restore_law[OF mk snap dir u(1,3) rd f(1)] r f(2) by (simp add: same_managed_def)
  moreover have "rd_configured d \<and> rd_exists d"
    using restore_keeps[OF rd snapshot_good[OF mk snap]] u by simp
  ultimately show ?thesis using t by (simp add: has_directory_def)
qed

lemma engine_evaluate:
  "evaluate_repair P k l s = (r, t) \<Longrightarrow> rd_configured (pl_dir t) = rd_configured (pl_dir s) \<and>
     rd_exists (pl_dir t) = rd_exists (pl_dir s) \<and> dget (rd_backups (pl_dir t)) v = dget (rd_backups (pl_dir s)) v"
  using kept_evaluate[of "{v}" s s P k l] by (simp add: keeps_frame_def frame_def)

lemma record_repair_simps [simp]:
  "pl_dir (record_repair q s) = pl_dir s" "pl_world (record_repair q s) = pl_world s"
  "pl_dir (clear_feedback s) = pl_dir s" "pl_world (clear_feedback s) = pl_world s"
  "has_directory (clear_feedback s) = has_directory s" "has_directory (record_repair q s) = has_directory s"
  by (simp_all add: record_repair_def note_event_def clear_feedback_def has_directory_def)

lemma discard_same:
  "discard_files C v s = (Inr x, t) \<Longrightarrow> good_name v \<Longrightarrow> rd_files (pl_dir t) = rd_files (pl_dir s) \<and>
     (has_directory t \<longleftrightarrow> has_directory s)"
  using discard_keeps by (fastforce simp: discard_files_def has_directory_def split: sum.splits)

lemma round_ok:
  assumes mk: "fresh_names (cx_mk C)" and tidy: "tidy C" and inv: "loop_ok P (rs_knowledge setting) first l s"
    and run: "repair_round C P setting n l s = (Inr (l', go), t)"
  shows "loop_ok P (rs_knowledge setting) first l' t \<and>
    (\<exists>q. lp_records l' = lp_records l @ [q] \<and> rp_before q = so_score P (lp_best l) (lp_checks l) \<and>
       so_score P (lp_best l') (lp_checks l') =
         (if rp_status q \<noteq> RepairError \<and> rp_after q < rp_before q then rp_after q else rp_before q))"
proof -
  have here: "has_directory s" using inv by (simp add: loop_ok_def split: prod.splits)
  let ?s1 = "s\<lparr>pl_feedback := cx_rejected_text C (lp_best l) (lp_checks l)\<rparr>"
  let ?label = "repair_label P n"
  let ?r0 = "attempt_record C P setting n l"
  obtain s2 where s2: "save_progress C P l ?s1 = (Inr (), s2)"
    and run2: "run_then (\<lambda>s. snapshot_files C (?label s) s) (\<lambda>snap s1.
       case evaluate_repair P (rs_knowledge setting) l s1 of
         (Inl e, s2) \<Rightarrow> repair_failed C ?r0 snap l e s2
       | (Inr candidate, s2) \<Rightarrow> judge_repair C P ?r0 snap l candidate s2) s2 = (Inr (l', go), t)"
    by (rule run_then_cases[OF run[unfolded repair_round_def]]) (simp, rule that, simp_all)
  have dir2: "pl_dir s2 = pl_dir s"
    using s2 by (auto simp: save_progress_def report_progress_def split: prod.splits if_splits)
  obtain v s3 where s3: "snapshot_files C (?label s2) s2 = (Inr v, s3)" and step:
    "(case evaluate_repair P (rs_knowledge setting) l s3 of
        (Inl e, s2) \<Rightarrow> repair_failed C ?r0 v l e s2
      | (Inr candidate, s2) \<Rightarrow> judge_repair C P ?r0 v l candidate s2) = (Inr (l', go), t)"
    using run2 by (auto elim: run_then_cases)
  obtain res s4 where s4: "evaluate_repair P (rs_knowledge setting) l s3 = (res, s4)" by fastforce
  have fin: "(case res of Inl e \<Rightarrow> repair_failed C ?r0 v l e s4
        | Inr candidate \<Rightarrow> judge_repair C P ?r0 v l candidate s4) = (Inr (l', go), t)"
    using step s4 by (simp split: sum.splits)
  obtain d where snap: "snapshot_candidate_files (cx_mk C) (?label s2) (pl_dir s) = (v, d)" and d: "pl_dir s3 = d"
    using s3 dir2 by (auto simp: snapshot_files_def split: prod.splits)
  have conf: "rd_configured (pl_dir s)" "rd_exists (pl_dir s)" using here by (simp_all add: has_directory_def)
  have "rd_configured d = rd_configured (pl_dir s) \<and> rd_exists d = rd_exists (pl_dir s)"
    using snap by (auto simp: snapshot_candidate_files_def Let_def split: if_splits)
  then have dir4: "rd_configured (pl_dir s4)" "rd_exists (pl_dir s4)"
    "dget (rd_backups (pl_dir s4)) v = dget (rd_backups d) v"
    using engine_evaluate[OF s4, of v] d conf by simp_all
  note good = snapshot_good[OF mk snap]
  have restored: "same_managed (rd_files (pl_dir s)) (rd_files (pl_dir t')) \<and> has_directory t'"
    if "restore_files C v u = (Inr y, t')" "pl_dir u = pl_dir s4" for u t' y
    using restored_files[OF mk snap conf tidy _ _ _ that(1)] dir4 that(2) by simp
  have before: "rp_before ?r0 = so_score P (lp_best l) (lp_checks l)" by (simp add: attempt_record_def Let_def)
  show ?thesis
  proof (cases res)
    case (Inl e)
    let ?q = "?r0\<lparr>rp_detail := error_text e\<rparr>"
    from fin[unfolded Inl sum.case] obtain t1 where "restore_files C v (if is_llm_error e then record_repair ?q s4 else s4) = (Inr (), t1)"
      "is_llm_error e" "l' = l\<lparr>lp_records := lp_records l @ [?q]\<rparr>" "t = clear_feedback t1"
      by (auto simp: repair_failed_def Let_def split: prod.splits sum.splits if_splits)
    moreover from restored[OF this(1)] this(2) have "same_managed (rd_files (pl_dir s)) (rd_files (pl_dir t1))" "has_directory t1" by simp_all
    moreover have "rp_status ?q = RepairError" by (simp add: attempt_record_def Let_def)
    ultimately show ?thesis using before loop_ok_files[OF inv, of t l'] by auto
  next
    case (Inr candidate)
    obtain a used checks where cand: "candidate = (a, used, checks)" by (cases candidate) auto
    let ?after = "so_score P a checks"
    let ?imp = "?after < rp_before ?r0"
    let ?q = "?r0\<lparr>rp_after := ?after, rp_status := (if fst ?after = 0 then RepairVerified
                      else if ?imp then RepairImproved else RepairRejected)\<rparr>"
    let ?l1 = "l\<lparr>lp_records := lp_records l @ [?q]\<rparr>"
    have stat: "rp_status ?q \<noteq> RepairError" by simp
    note end' = fin[unfolded Inr sum.case cand judge_repair_def prod.case Let_def]
    show ?thesis
    proof (cases ?imp)
      case True
      let ?s5 = "record_repair ?q ((clear_feedback s4)\<lparr>pl_revision := pl_revision (clear_feedback s4) + 1\<rparr>)"
      from end' True obtain y where y: "discard_files C v ?s5 = (Inr y, t)"
        "l' = ?l1\<lparr>lp_best := a, lp_checks := checks, lp_used := used, lp_baseline := cx_fingerprint C a, lp_stagnant := 0\<rparr>"
        by (auto elim!: run_then_cases)
      have "rd_files (pl_dir t) = rd_files (pl_dir s4) \<and> has_directory t"
        using discard_same[OF y(1) good] dir4 by (simp add: has_directory_def)
      then have "loop_ok P (rs_knowledge setting) first l' t"
        using True before y(2) cand Inr s4
        by (intro loop_ok_better[OF inv, of l s3 a used checks s4]) (simp_all add: same_managed_def)
      then show ?thesis using y(2) True stat before by simp
    next
      case False
      let ?s5 = "record_repair ?q (clear_feedback s4)"
      from end' False obtain y where y: "restore_files C v ?s5 = (Inr y, t)"
        "lp_best l' = lp_best l \<and> lp_checks l' = lp_checks l \<and> lp_records l' = lp_records ?l1"
        by (auto elim!: run_then_cases split: if_splits)
      from restored[OF y(1)] have "same_managed (rd_files (pl_dir s)) (rd_files (pl_dir t))" "has_directory t" by simp_all
      then have "loop_ok P (rs_knowledge setting) first l' t" using y(2) loop_ok_files[OF inv] by simp
      then show ?thesis using y(2) False before by simp
    qed
  qed
qed
subsection \<open>The records of a step\<close>

definition own_records :: "repair_setting \<Rightarrow> ('a, 'r, 'w) step_ops \<Rightarrow> nat \<Rightarrow> repair_record list \<Rightarrow> bool" where
  "own_records setting P n qs =
     (length qs \<le> n \<and> (\<forall>q \<in> set qs. rp_kind q = rs_kind setting \<and> rp_step q = so_step P \<and> rp_strategy q = rs_strategy setting))"

lemma repairs_of_action:
  "implement f s = (r, t) \<Longrightarrow> pl_repairs t = pl_repairs s"
  "save_progress C P l s = (r2, t) \<Longrightarrow> pl_repairs t = pl_repairs s"
  "snapshot_files C v s = (r3, t) \<Longrightarrow> pl_repairs t = pl_repairs s"
  "restore_files C w s = (r4, t) \<Longrightarrow> pl_repairs t = pl_repairs s"
  "discard_files C w s = (r5, t) \<Longrightarrow> pl_repairs t = pl_repairs s"
  "evaluate_repair P k l s = (r6, t) \<Longrightarrow> pl_repairs t = pl_repairs s"
  using repairs_kept(1)[of f s] repairs_kept(2)[of C P l s] repairs_kept(3)[of C v s] repairs_kept(4)[of C w s]
    repairs_kept(5)[of C w s] repairs_kept(6)[of P k l s] by simp_all

lemma attempt_record_simps [simp]:
  "rp_kind (attempt_record C P setting n l) = rs_kind setting" "rp_step (attempt_record C P setting n l) = so_step P"
  "rp_strategy (attempt_record C P setting n l) = rs_strategy setting"
  by (simp_all add: attempt_record_def Let_def)

lemma failed_records:
  assumes "repair_failed C q v l e s = (res, t)"
  shows "\<exists>qs. pl_repairs t = pl_repairs s @ qs \<and> qs \<in> {[], [q\<lparr>rp_detail := error_text e\<rparr>]} \<and>
    (\<forall>l' go. res = Inr (l', go) \<longrightarrow> lp_records l' = lp_records l @ qs)"
proof -
  let ?q = "q\<lparr>rp_detail := error_text e\<rparr>"
  obtain r t1 where rt: "restore_files C v (if is_llm_error e then record_repair ?q s else s) = (r, t1)" by fastforce
  have "pl_repairs t1 = pl_repairs s @ (if is_llm_error e then [?q] else [])"
    using repairs_of_action(4)[OF rt] by simp
  then show ?thesis using assms rt
    by (auto simp: repair_failed_def Let_def split: sum.splits if_splits)
qed

lemma judge_records:
  assumes "judge_repair C P q v l x s = (res, t)"
  shows "\<exists>q'. pl_repairs t = pl_repairs s @ [q'] \<and> rp_kind q' = rp_kind q \<and> rp_step q' = rp_step q \<and>
    rp_strategy q' = rp_strategy q \<and> (\<forall>l' go. res = Inr (l', go) \<longrightarrow> lp_records l' = lp_records l @ [q'])"
proof -
  obtain a used checks where x: "x = (a, used, checks)" by (cases x) auto
  let ?after = "so_score P a checks"
  let ?q = "q\<lparr>rp_after := ?after, rp_status := (if fst ?after = 0 then RepairVerified
                      else if ?after < rp_before q then RepairImproved else RepairRejected)\<rparr>"
  note run = assms[unfolded judge_repair_def x prod.case Let_def]
  show ?thesis
  proof (cases "?after < rp_before q")
    case True
    from run True repairs_of_action(5) show ?thesis
      by (fastforce elim!: run_then_cases intro!: exI[of _ ?q] simp: record_repair_def note_event_def clear_feedback_def)
  next
    case False
    from run False repairs_of_action(4) show ?thesis
      by (fastforce elim!: run_then_cases intro!: exI[of _ ?q] simp: record_repair_def note_event_def clear_feedback_def split: if_splits)
  qed
qed
lemma round_records:
  assumes "repair_round C P setting n l s = (res, t)"
  shows "\<exists>qs. pl_repairs t = pl_repairs s @ qs \<and> own_records setting P 1 qs \<and>
    (\<forall>l' go. res = Inr (l', go) \<longrightarrow> lp_records l' = lp_records l @ qs)"
proof -
  let ?s1 = "s\<lparr>pl_feedback := cx_rejected_text C (lp_best l) (lp_checks l)\<rparr>"
  let ?r0 = "attempt_record C P setting n l"
  from assms[unfolded repair_round_def] show ?thesis
  proof (cases rule: run_then_cases)
    case (err e)
    then show ?thesis using repairs_of_action(2)[OF err(1)] by (auto simp: own_records_def)
  next
    case (ok x s2)
    have p2: "pl_repairs s2 = pl_repairs s" using repairs_of_action(2)[OF ok(1)] by simp
    from ok(2) show ?thesis
    proof (cases rule: run_then_cases)
      case (err e)
      then show ?thesis using repairs_of_action(3)[OF err(1)] p2 by (auto simp: own_records_def)
    next
      case (ok v s3)
      obtain r s4 where s4: "evaluate_repair P (rs_knowledge setting) l s3 = (r, s4)" by fastforce
      have p4: "pl_repairs s4 = pl_repairs s"
        using repairs_of_action(3)[OF ok(1)] repairs_of_action(6)[OF s4] p2 by simp
      show ?thesis
      proof (cases r)
        case (Inl e)
        then have "repair_failed C ?r0 v l e s4 = (res, t)" using ok(2) s4 by simp
        from failed_records[OF this] p4 show ?thesis by (auto simp: own_records_def)
      next
        case (Inr y)
        then have "judge_repair C P ?r0 v l y s4 = (res, t)" using ok(2) s4 by simp
        from judge_records[OF this] p4 show ?thesis by (auto simp: own_records_def)
      qed
    qed
  qed
qed

lemma own_records_join:
  "own_records setting P m xs \<Longrightarrow> own_records setting P n ys \<Longrightarrow> own_records setting P (m + n) (xs @ ys)"
  by (auto simp: own_records_def)

lemma loop_records:
  "repair_loop C P setting n k l s = (res, t) \<Longrightarrow>
   \<exists>qs. pl_repairs t = pl_repairs s @ qs \<and> own_records setting P n qs \<and>
     (\<forall>l'. res = Inr l' \<longrightarrow> lp_records l' = lp_records l @ qs)"
proof (induction n arbitrary: k l s)
  case 0
  then show ?case by (auto simp: own_records_def)
next
  case (Suc n)
  show ?case
  proof (cases "lp_stagnant l < rs_budget setting \<and> cx_in_time C (pl_world s)")
    case False
    then show ?thesis using Suc.prems by (auto simp: own_records_def)
  next
    case True
    then have "run_then (repair_round C P setting (k + 1) l) (\<lambda>(l', go).
        if go then repair_loop C P setting n (k + 1) l' else give l') s = (res, t)" using Suc.prems by simp
    then show ?thesis
    proof (cases rule: run_then_cases)
      case (err e)
      from round_records[OF err(1)] err(2) show ?thesis by (auto simp: own_records_def)
    next
      case (ok x s1)
      obtain l1 go where x: "x = (l1, go)" by fastforce
      from round_records[OF ok(1)] obtain qs where qs: "pl_repairs s1 = pl_repairs s @ qs"
        "own_records setting P 1 qs" "lp_records l1 = lp_records l @ qs" using x by auto
      show ?thesis
      proof (cases go)
        case True
        then have "repair_loop C P setting n (k + 1) l1 s1 = (res, t)" using ok(2) x by simp
        from Suc.IH[OF this] obtain rs where rs: "pl_repairs t = pl_repairs s1 @ rs" "own_records setting P n rs"
          "\<forall>l'. res = Inr l' \<longrightarrow> lp_records l' = lp_records l1 @ rs" by auto
        then show ?thesis using own_records_join[OF qs(2) rs(2)] qs by (intro exI[of _ "qs @ rs"]) auto
      next
        case False
        then have "res = Inr l1 \<and> t = s1" using ok(2) x by simp
        then show ?thesis using qs by (auto simp: own_records_def)
      qed
    qed
  qed
qed

lemma loop_sound:
  assumes mk: "fresh_names (cx_mk C)" and tidy: "tidy C"
  shows "repair_loop C P setting n k l s = (Inr l', t) \<Longrightarrow> loop_ok P (rs_knowledge setting) first l s \<Longrightarrow>
     loop_ok P (rs_knowledge setting) first l' t"
proof (induction n arbitrary: k l s)
  case 0
  then show ?case by simp
next
  case (Suc n)
  show ?case
  proof (cases "lp_stagnant l < rs_budget setting \<and> cx_in_time C (pl_world s)")
    case True
    then have "run_then (repair_round C P setting (k + 1) l) (\<lambda>(l', go).
        if go then repair_loop C P setting n (k + 1) l' else give l') s = (Inr l', t)" using Suc.prems by simp
    then show ?thesis
    proof (cases rule: run_then_cases)
      case (ok x s1)
      obtain l1 go where x: "x = (l1, go)" by fastforce
      have "loop_ok P (rs_knowledge setting) first l1 s1" using round_ok[OF mk tidy Suc.prems(2)] ok(1) x by blast
      then show ?thesis using ok(2) x Suc.IH by (cases go) auto
    qed simp
  qed (use Suc.prems in auto)
qed

subsection \<open>Verdicts and budgets\<close>

text \<open>
  What \<^verbatim>\<open>convergence_score\<close> of every step keeps: the first component counts failed checks. The
  inherited score does (\<open>engineering_score_zero\<close>).
\<close>

definition sound_score :: "('a, 'r, 'w) step_ops \<Rightarrow> bool" where
  "sound_score P = (\<forall>a checks. fst (so_score P a checks) = 0 \<longleftrightarrow> \<not> list_ex failed_check checks)"

lemma deferred_failed: "list_ex failed_check (deferred_checks step a checks) = list_ex failed_check checks"
proof -
  have "failed_check (deferred_check step x c) = failed_check c" for x c
    by (simp add: deferred_check_def defer_check_def failed_check_def)
  then show ?thesis by (auto simp: deferred_checks_def list_ex_iff split: option.splits)
qed

definition budget_kept :: "('a, 'r, 'w) services \<Rightarrow> ('a, 'r, 'w) pipeline \<Rightarrow> ('a, 'r, 'w) pipeline \<Rightarrow> bool" where
  "budget_kept C s t =
     (count_records (\<lambda>r. rp_kind r = DesignRepair) t
        \<le> max (count_records (\<lambda>r. rp_kind r = DesignRepair) s) (cx_max_design_total C) \<and>
      count_records (\<lambda>r. rp_kind r = HarnessRepair) t
        \<le> max (count_records (\<lambda>r. rp_kind r = HarnessRepair) s) (cx_max_repairs C))"

lemma count_appended:
  assumes "pl_repairs t = pl_repairs s @ qs"
  shows "count_records Q t \<le> count_records Q s + int (length qs)"
    and "\<forall>q \<in> set qs. \<not> Q q \<Longrightarrow> count_records Q t = count_records Q s"
  using assms by (auto simp: count_records_def filter_empty_conv)

lemma attempt_limit_le:
  "int (attempt_limit C P a checks strategy fs s) \<le> max 0 (remaining_budget C P strategy fs s)"
  "attempt_limit C P a checks strategy fs s \<le> 12"
  "cx_draft_first C \<Longrightarrow> needs_prerequisite_repair (step_name (so_step P)) (Some (cx_draft_view C a)) checks \<Longrightarrow>
     attempt_limit C P a checks strategy fs s \<le> 1"
  by (auto simp: attempt_limit_def draft_prerequisite_def Let_def)

lemma foldl_max_ge: "m \<le> foldl max m xs" for m :: int
  by (induction xs arbitrary: m) (auto intro: order_trans[OF max.cobounded1])

lemma remaining_le:
  "design_scope C P fs \<Longrightarrow> max 0 (remaining_budget C P strategy fs s) \<le>
     max 0 (cx_max_design_total C - count_records (\<lambda>r. rp_kind r = DesignRepair) s)"
  "\<not> design_scope C P fs \<Longrightarrow> max 0 (remaining_budget C P strategy fs s) \<le>
     max 0 (cx_max_repairs C - count_records (\<lambda>r. rp_kind r = HarnessRepair) s)"
  by (auto simp: remaining_budget_def)

lemma phase_result:
  assumes "repair_phase C P k a used checks s = (res, t)" and score: "sound_score P"
  shows "\<exists>qs. pl_repairs t = pl_repairs s @ qs \<and> length qs \<le> 12 \<and> budget_kept C s t \<and>
     (cx_draft_first C \<longrightarrow> length qs \<le> 1) \<and> (pl_tool s \<noteq> [] \<longrightarrow> qs = []) \<and>
     (\<forall>x. res = Inr x \<longrightarrow> oc_records x = qs \<and> (oc_blocked x \<longleftrightarrow> list_ex failed_check (oc_checks x)))"
proof -
  let ?av = "strategy_available C P used checks"
  let ?fs = "failures_for C P ?av checks"
  let ?st = "strategy_of C P checks"
  define s1 where "s1 = (if repair_scope C P ?fs then note_events (map (\<lambda>_. ''failure_detected'') ?fs) (so_step P) s else s)"
  define setting where "setting = \<lparr>rs_kind = (if design_scope C P ?fs then DesignRepair else HarnessRepair),
      rs_strategy = ?st, rs_available = ?av, rs_knowledge = k, rs_budget = stagnation_budget C P ?st ?fs s1\<rparr>"
  let ?n = "attempt_limit C P a checks ?st ?fs s1"
  have p1: "pl_repairs s1 = pl_repairs s" "pl_tool s1 = pl_tool s" by (simp_all add: s1_def note_events_eq)
  have same: "count_records Q s1 = count_records Q s" for Q using p1 by (simp add: count_records_def)
  show ?thesis
  proof (cases "can_repair C P a used checks s1")
    case False
    then show ?thesis using assms(1) p1 same
      by (auto simp: repair_phase_def Let_def s1_def[symmetric] budget_kept_def intro!: exI[of _ "[]"])
  next
    case True
    let ?l = "\<lparr>lp_best = a, lp_checks = checks, lp_used = used, lp_stagnant = 0, lp_baseline = cx_fingerprint C a,
                lp_records = []\<rparr>"
    let ?out = "\<lambda>l. \<lparr>oc_artifact = lp_best l, oc_used = lp_used l, oc_checks = lp_checks l,
        oc_blocked = (fst (so_score P (lp_best l) (lp_checks l)) > 0), oc_records = lp_records l,
        oc_scope = repair_scope C P (failures_for C P ?av (lp_checks l)),
        oc_design = (design_scope C P (failures_for C P ?av (lp_checks l)) \<and>
                     \<not> proven_harness (failures_for C P ?av (lp_checks l))), oc_available = ?av\<rparr>"
    have "repair_phase C P k a used checks s =
        run_then (repair_loop C P setting ?n 0 ?l) (\<lambda>l s2. (Inr (?out l), s2)) s1"
      using True unfolding repair_phase_def Let_def s1_def[symmetric] setting_def by (simp only: if_True)
    then have "run_then (repair_loop C P setting ?n 0 ?l) (\<lambda>l s2. (Inr (?out l), s2)) s1 = (res, t)"
      using assms(1) by (simp only:)
    then obtain r where loop: "repair_loop C P setting ?n 0 ?l s1 = (r, t)"
      and r: "\<And>x. res = Inr x \<Longrightarrow> \<exists>l. r = Inr l \<and> x = ?out l"
      by (cases rule: run_then_cases) blast+
    from loop_records[OF loop] obtain qs where qs: "pl_repairs t = pl_repairs s1 @ qs" "own_records setting P ?n qs"
      "\<forall>l'. r = Inr l' \<longrightarrow> lp_records l' = qs" by auto
    have len: "length qs \<le> ?n" "\<forall>q \<in> set qs. rp_kind q = rs_kind setting" using qs(2) by (auto simp: own_records_def)
    have draft: "cx_draft_first C \<Longrightarrow> ?n \<le> 1"
      using True attempt_limit_le(3) by (auto simp: can_repair_def draft_prerequisite_def Let_def)
    have left: "int (length qs) \<le> max 0 (remaining_budget C P ?st ?fs s1)"
      using len(1) attempt_limit_le(1)[of C P a checks ?st ?fs s1] by linarith
    have "budget_kept C s1 t"
    proof (cases "design_scope C P ?fs")
      case True
      then have "\<forall>q \<in> set qs. rp_kind q \<noteq> HarnessRepair" using len(2) by (simp add: setting_def)
      moreover note count_appended(1)[OF qs(1), of "\<lambda>r. rp_kind r = DesignRepair"]
      ultimately show ?thesis
        using left remaining_le(1)[OF True, of ?st s1] count_appended(2)[OF qs(1), of "\<lambda>r. rp_kind r = HarnessRepair"]
        unfolding budget_kept_def by auto
    next
      case False
      then have "\<forall>q \<in> set qs. rp_kind q \<noteq> DesignRepair" using len(2) by (simp add: setting_def)
      moreover note count_appended(1)[OF qs(1), of "\<lambda>r. rp_kind r = HarnessRepair"]
      ultimately show ?thesis
        using left remaining_le(2)[OF False, of ?st s1] count_appended(2)[OF qs(1), of "\<lambda>r. rp_kind r = DesignRepair"]
        unfolding budget_kept_def by auto
    qed
    then have "budget_kept C s t" using same by (simp add: budget_kept_def)
    moreover have "pl_tool s = []" using True p1(2) by (simp add: can_repair_def Let_def)
    moreover have "length qs \<le> 12" using len(1) attempt_limit_le(2)[of C P a checks ?st ?fs s1] by linarith
    moreover have "oc_records x = qs \<and> (oc_blocked x \<longleftrightarrow> list_ex failed_check (oc_checks x))" if "res = Inr x" for x
    proof -
      from r[OF that] obtain l where "r = Inr l" "x = ?out l" by blast
      moreover have "fst (so_score P (lp_best l) (lp_checks l)) = 0 \<longleftrightarrow> \<not> list_ex failed_check (lp_checks l)"
        using score by (simp add: sound_score_def)
      ultimately show ?thesis using qs(3) by (simp flip: neq0_conv)
    qed
    ultimately show ?thesis using qs(1) p1(1) len(1) draft
      by (intro exI[of _ qs]) (auto intro: order_trans)
  qed
qed

subsection \<open>A small step, evaluated\<close>

text \<open>The artifact is the number of defects; a repair removes one and rewrites the board file.\<close>

definition defect_check :: "nat \<Rightarrow> check_result" where
  "defect_check n = \<lparr>cr_name = ''defects'', cr_ok = (n = 0), cr_severity = SevError, cr_message = ''defects remain'',
     cr_blocks = True, cr_origin = None, cr_reason = [], cr_refs = [],
     cr_evidence = [(''violation_count'', JInt (int n))]\<rparr>"

definition rewrite_board :: "'x \<Rightarrow> (nat, unit, nat, 'x) impl" where
  "rewrite_board v s = (Inr v, pl_artifacts s, dset [''board.kicad_pcb''] ''x'' (rd_files (pl_dir s)), (), pl_world s)"

definition sample_step :: "pipeline_step \<Rightarrow> nat \<Rightarrow> (nat, unit, nat) step_ops" where
  "sample_step p n =
     \<lparr>so_step = p, so_knowledge = (\<lambda>_. ([], [])), so_propose = (\<lambda>_. rewrite_board (n, False)),
      so_check = (\<lambda>a. rewrite_board [defect_check a]), so_repair = Some (\<lambda>_ a _. rewrite_board (a - 1, False)),
      so_deterministic = False, so_strategy = None, so_applicable = (\<lambda>_ _ _. True), so_prepare = rewrite_board,
      so_replan = (\<lambda>_ a _. rewrite_board (a, False)), so_replan_custom = False, so_rollback = (\<lambda>_ _ _. None),
      so_score = (\<lambda>_. engineering_score), so_summary = (\<lambda>_. []), so_design = False,
      so_after = (\<lambda>s r. ((\<lambda>_ x. x), [], pl_rest s))\<rparr>"

definition sample_services :: "(nat, unit, nat) services" where
  "sample_services = \<lparr>cx_offline = True, cx_client = False, cx_repair_attempts = 2, cx_capture_errors = False,
     cx_ahe = True, cx_max_repairs = 6, cx_max_same_failure = 2, cx_max_replans = 3, cx_artifact_first = False,
     cx_repair_release = False, cx_execution_retries = 1, cx_design_attempts = 0, cx_max_design_step = 2,
     cx_max_design_total = 4, cx_agentic = False, cx_max_turns_step = 2, cx_max_turns_total = 4,
     cx_max_intermediate = 1, cx_draft_first = False, cx_strategy_score = None, cx_replan_score = None,
     cx_digest = (\<lambda>x. x), cx_fingerprint = (\<lambda>n. replicate n CHR ''x''), cx_mk = sample_mk, cx_new_id = (\<lambda>_. ''id''),
     cx_faults = (\<lambda>_. no_faults), cx_in_time = (\<lambda>_. True), cx_progress = (\<lambda>s. (Inr (), pl_world s)),
     cx_place = (\<lambda>a _. Inr (a, JNull)), cx_placement = (\<lambda>_. False), cx_resumable = (\<lambda>_. False),
     cx_draft_view = (\<lambda>_. sample_artifact), cx_rejected_text = (\<lambda>_ _. ''fix'')\<rparr>"

definition empty_pipeline :: "(nat, unit, nat) pipeline" where
  "empty_pipeline = \<lparr>pl_artifacts = [], pl_results = [], pl_revision = 0, pl_repairs = [], pl_replans = [],
     pl_turns = [], pl_gaps = [], pl_resume = [], pl_rest = (),
     pl_draft = \<lparr>dx_policy = None, dx_phase = None, dx_issues = []\<rparr>,
     pl_dir = \<lparr>rd_configured = True, rd_exists = True, rd_name = ''board'', rd_files = [], rd_backups = []\<rparr>,
     pl_world = 0, pl_feedback = [], pl_tool = [], pl_batch = None, pl_observed = None, pl_events = []\<rparr>"

lemma sample_fresh: "fresh_names (cx_mk sample_services)"
  using sample_mk_fresh by (simp add: sample_services_def)

lemma sample_sound: "sound_score (sample_step p n)"
  by (simp add: sound_score_def sample_step_def Let_def engineering_score_zero)

lemma sample_tidy: "tidy sample_services"
  by (simp add: tidy_def sample_services_def no_faults_def)



text \<open>
  C15: The repair loop keeps its best candidate whole. When it ends, the artifact, its checks
  and the managed files of the run belong together: either they are those the loop started
  with, or some evaluation (a repair followed by its checks) returned this artifact and these
  checks and left exactly these files. The score is never worse than at the start, even when
  later attempts were rejected or failed. (Restores whose own roll-back works.)
\<close>

theorem repair_keeps_best:
  assumes "fresh_names (cx_mk C)" and "tidy C" and "has_directory s"
    and "repair_loop C P setting limit 0 l s = (Inr l', t)"
  shows "so_score P (lp_best l') (lp_checks l') \<le> so_score P (lp_best l) (lp_checks l) \<and>
    (lp_best l' = lp_best l \<and> lp_checks l' = lp_checks l \<and> same_managed (rd_files (pl_dir s)) (rd_files (pl_dir t)) \<or>
     (\<exists>l0 u used u'. evaluate_repair P (rs_knowledge setting) l0 u = (Inr (lp_best l', used, lp_checks l'), u') \<and>
        same_managed (rd_files (pl_dir u')) (rd_files (pl_dir t))))"
proof -
  have "loop_ok P (rs_knowledge setting) (lp_best l, lp_checks l, rd_files (pl_dir s)) l s"
    using assms(3) by (simp add: loop_ok_def same_managed_def)
  from loop_sound[OF assms(1,2,4) this] show ?thesis by (auto simp: loop_ok_def evaluated_def)
qed

text \<open>From three defects two attempts lead to one; the board file is the one the last attempt wrote.\<close>

theorem repair_keeps_best_witness:
  "\<exists>l' t. repair_loop sample_services (sample_step Erc 3)
       \<lparr>rs_kind = HarnessRepair, rs_strategy = ''erc_repair'', rs_available = True, rs_knowledge = [], rs_budget = 2\<rparr> 2 0
       \<lparr>lp_best = 3, lp_checks = [defect_check 3], lp_used = False, lp_stagnant = 0, lp_baseline = [], lp_records = []\<rparr>
       empty_pipeline = (Inr l', t) \<and> lp_best l' = 1 \<and>
     so_score (sample_step Erc 3) (lp_best l') (lp_checks l') \<le> so_score (sample_step Erc 3) 3 [defect_check 3]"
proof -
  let ?l = "\<lparr>lp_best = 3, lp_checks = [defect_check 3], lp_used = False, lp_stagnant = 0, lp_baseline = [], lp_records = []\<rparr>"
  let ?x = "repair_loop sample_services (sample_step Erc 3)
       \<lparr>rs_kind = HarnessRepair, rs_strategy = ''erc_repair'', rs_available = True, rs_knowledge = [], rs_budget = 2\<rparr> 2 0
       ?l empty_pipeline"
  have "case ?x of (Inr l', t) \<Rightarrow> lp_best l' = 1 | _ \<Rightarrow> False" by code_simp
  then obtain l' t where run: "?x = (Inr l', t)" and best: "lp_best l' = 1" by (auto split: prod.splits sum.splits)
  have "has_directory empty_pipeline" by (simp add: has_directory_def empty_pipeline_def)
  from repair_keeps_best[OF sample_fresh sample_tidy this run] show ?thesis using run best by auto
qed

end
