(* ===== verification/PipelineDriver.thy ===== *)
theory PipelineDriver
  imports StepContract
begin

text \<open>
  The driver of the pipeline, \<^verbatim>\<open>Pipeline.run\<close> of
  \<^verbatim>\<open>src/src/ratsnestpro/orchestration/pipeline.py\<close>: it runs the registered steps in
  their canonical order, captures exceptions at the boundary of a step, and answers a blocked
  gate with bounded recovery: a local repair or a retry of the step, or a replan that rolls back
  to an earlier step and is committed or rejected as a whole. The engine that runs one step is an
  argument of the definitions, instantiated with \<open>step_run\<close>.
\<close>

subsection \<open>What the driver is given\<close>

record cad_context =
  cc_operations :: "string list"
  cc_fingerprint :: string

text \<open>What identifies an executable recovery proposal.\<close>

record action_payload =
  ap_action :: recovery_action
  ap_target :: "string option"
  ap_tool :: string
  ap_implementation :: string
  ap_strategy :: string
  ap_instructions :: string
  ap_batch :: "json option"

text \<open>
  The model's proposal, the executor that is offered for an artifact, the reading of one entity
  repair plan (whether its policy is a bounded candidate, and its rollback step), texts and the
  callback after a completed step.
\<close>

record ('a, 'r, 'w) driver =
  dv_propose :: "('a, 'r, 'w) pipeline \<Rightarrow> step_result \<Rightarrow> 'a option \<Rightarrow> pipeline_step list \<Rightarrow> pipeline_step option
    \<Rightarrow> bool \<Rightarrow> (step_error, decision \<times> bool) result \<times> 'w"
  dv_skill :: "pipeline_step \<Rightarrow> string \<times> string"
  dv_cad :: "('a, 'r, 'w) pipeline \<Rightarrow> step_result \<Rightarrow> 'a option \<Rightarrow> cad_context option"
  dv_entity :: "json \<Rightarrow> (bool \<times> string option) option"
  dv_evidence :: "step_result \<Rightarrow> string"
  dv_describe :: "step_error \<Rightarrow> string"
  dv_action_digest :: "action_payload \<Rightarrow> string"
  dv_observed :: "json \<Rightarrow> string"
  dv_completed :: "('a, 'r, 'w) pipeline \<Rightarrow> step_result \<Rightarrow> (step_error, unit) result \<times> 'w"

text \<open>The engine.\<close>

type_synonym ('a, 'r, 'w) engine = "('a, 'r, 'w) step_ops \<Rightarrow> (('a, 'r, 'w) pipeline, step_result) act"

subsection \<open>Records of the audit\<close>

definition last_index :: "('x \<Rightarrow> bool) \<Rightarrow> 'x list \<Rightarrow> nat option" where
  "last_index P xs =
     (case filter (\<lambda>i. P (xs ! i)) (rev [0..<length xs]) of [] \<Rightarrow> None | i # _ \<Rightarrow> Some i)"

definition set_replan ::
  "nat \<Rightarrow> (('a, 'r) replan \<Rightarrow> ('a, 'r) replan) \<Rightarrow> ('a, 'r, 'w) pipeline \<Rightarrow> ('a, 'r, 'w) pipeline" where
  "set_replan i f s = s\<lparr>pl_replans := (pl_replans s)[i := f (pl_replans s ! i)]\<rparr>"

definition set_turn ::
  "nat \<Rightarrow> (('a, 'r) turn \<Rightarrow> ('a, 'r) turn) \<Rightarrow> ('a, 'r, 'w) pipeline \<Rightarrow> ('a, 'r, 'w) pipeline" where
  "set_turn i f s = s\<lparr>pl_turns := (pl_turns s)[i := f (pl_turns s ! i)]\<rparr>"

definition pending_replan :: "pipeline_step \<Rightarrow> ('a, 'r, 'w) pipeline \<Rightarrow> nat option" where
  "pending_replan p s = last_index (\<lambda>r. rn_trigger r = p \<and> rn_status r = Scheduled) (pl_replans s)"

definition active_replan :: "pipeline_step \<Rightarrow> ('a, 'r, 'w) pipeline \<Rightarrow> nat option" where
  "active_replan p s = last_index (\<lambda>r. rn_status r = Scheduled \<and> rn_rollback r \<le> p \<and> p \<le> rn_trigger r) (pl_replans s)"

definition active_turn :: "pipeline_step \<Rightarrow> ('a, 'r, 'w) pipeline \<Rightarrow> nat option" where
  "active_turn p s = last_index (\<lambda>t. tn_step t = p \<and> tn_status t = Acted) (pl_turns s)"

definition order_error :: step_error where
  "order_error = StepFailed ''resumed state must contain a contiguous canonical prefix without an execution-blocking result''"

definition validation_error :: step_error where
  "validation_error = StepFailed ''ValidationError''"

subsection \<open>Before the first step\<close>

definition start_draft :: "('a, 'r, 'w) services \<Rightarrow> ('a, 'r, 'w) pipeline \<Rightarrow> ('a, 'r, 'w) pipeline" where
  "start_draft C s =
     (if cx_draft_first C then
        s\<lparr>pl_draft := (pl_draft s)\<lparr>
            dx_policy := Some (case dx_policy (pl_draft s) of None \<Rightarrow> ''draft-then-repair.v1'' | Some p \<Rightarrow> p),
            dx_phase := Some (case dx_phase (pl_draft s) of None \<Rightarrow> ''draft'' | Some p \<Rightarrow> p)\<rparr>\<rparr>
      else s)"

text \<open>Scheduled replans that cannot be resumed as a transaction are retired, oldest first.\<close>

fun retire ::
  "('a, 'r, 'w) services \<Rightarrow> (nat \<Rightarrow> ('a, 'r) replan \<Rightarrow> bool) \<Rightarrow> nat list \<Rightarrow> (('a, 'r, 'w) pipeline, unit) act" where
  "retire C Q [] s = (Inr (), s)"
| "retire C Q (i # is) s =
     (let r = pl_replans s ! i in
      if rn_status r = Scheduled \<and> Q i r then
        run_then (commit_baseline C (rn_baseline r)) (\<lambda>_ t.
          retire C Q is (set_replan i (\<lambda>r. r\<lparr>rn_baseline := None, rn_status := Deferred, rn_after := Some (rn_before r)\<rparr>) t)) s
      else retire C Q is s)"

definition shadowed :: "('a, 'r, 'w) pipeline \<Rightarrow> nat \<Rightarrow> ('a, 'r) replan \<Rightarrow> bool" where
  "shadowed s i r =
     (rn_baseline r = None \<or>
      (case last_index (\<lambda>r. rn_status r = Scheduled \<and> rn_baseline r \<noteq> None) (pl_replans s) of
         None \<Rightarrow> False | Some j \<Rightarrow> i \<noteq> j))"

definition prologue :: "('a, 'r, 'w) services \<Rightarrow> (('a, 'r, 'w) pipeline, unit) act" where
  "prologue C s0 =
     (let s = start_draft C s0; all = [0..<length (pl_replans s)] in
      run_then (retire C (shadowed s) all) (\<lambda>_.
      run_then (if cx_artifact_first C \<and> \<not> cx_repair_release C then retire C (\<lambda>_ _. True) all else give ()) (\<lambda>_ t.
        if completed_steps t \<noteq> prefix_steps (length (completed_steps t)) \<or>
           (state_blocked t \<and> (\<not> cx_artifact_first C \<or> state_execution_blocked t))
        then (Inl order_error, t) else (Inr (), t))) s)"

subsection \<open>Going back\<close>

definition score_of ::
  "('a, 'r, 'w) step_ops list \<Rightarrow> ('a, 'r, 'w) pipeline \<Rightarrow> step_result \<Rightarrow> fail_score" where
  "score_of pipe s r =
     (case (dget (pl_artifacts s) (st_step r), find (\<lambda>P. so_step P = st_step r) pipe) of
        (Some a, Some P) \<Rightarrow> so_score P a (st_checks r)
      | _ \<Rightarrow> engineering_score (st_checks r))"

definition last_result :: "pipeline_step \<Rightarrow> ('a, 'r, 'w) pipeline \<Rightarrow> step_result option" where
  "last_result p s = find (\<lambda>r. st_step r = p) (rev (pl_results s))"

definition used_llm :: "step_result option \<Rightarrow> bool" where
  "used_llm r = (case r of None \<Rightarrow> False | Some x \<Rightarrow> st_used_llm x)"

definition cut_back :: "pipeline_step \<Rightarrow> ('a, 'r, 'w) pipeline \<Rightarrow> ('a, 'r, 'w) pipeline" where
  "cut_back p s =
     s\<lparr>pl_results := filter (\<lambda>r. st_step r < p) (pl_results s),
       pl_artifacts := filter (\<lambda>(k, _). k < p) (pl_artifacts s)\<rparr>"

definition reopen_failed_step :: "pipeline_step \<Rightarrow> ('a, 'r, 'w) pipeline \<Rightarrow> ('a, 'r, 'w) pipeline" where
  "reopen_failed_step p s =
     cut_back p
       (case dget (pl_artifacts s) p of
          None \<Rightarrow> s
        | Some a \<Rightarrow> s\<lparr>pl_resume := dset p (a, used_llm (last_result p s)) (pl_resume s)\<rparr>)"

definition rejected_upstream :: "step_result \<Rightarrow> string" where
  "rejected_upstream r = ''Upstream candidate rolled back after failure at '' @ step_name (st_step r) @ ''.''"

text \<open>A replan is rejected as a whole; \<open>i\<close> is its place in the history.\<close>

definition close_rejected ::
  "nat \<Rightarrow> pipeline_step \<Rightarrow> fail_score \<Rightarrow> step_result \<Rightarrow> ('a, 'r, 'w) pipeline \<Rightarrow> ('a, 'r, 'w) pipeline" where
  "close_rejected i p after failed s =
     (let s1 = set_replan i (\<lambda>r. r\<lparr>rn_baseline := None\<rparr>) s;
          s2 = (case last_index (\<lambda>t. tn_status t = Acted \<and> tn_step t = p \<and>
                         dc_action (tn_decision t) = ReplanUpstream) (pl_turns s1) of
                  None \<Rightarrow> s1
                | Some j \<Rightarrow> note_event ''recovery_observed'' p
                    (set_turn j (\<lambda>t. t\<lparr>tn_status := TurnRejected, tn_after := Some after,
                                       tn_observation := rejected_upstream failed\<rparr>) s1))
      in reopen_failed_step p (note_event ''replan_stagnated'' p s2))"

definition reject_replan ::
  "('a, 'r, 'w) services \<Rightarrow> ('a, 'r, 'w) step_ops list \<Rightarrow> nat \<Rightarrow> step_result \<Rightarrow> (('a, 'r, 'w) pipeline, nat) act" where
  "reject_replan C pipe i failed s =
     (let after = score_of pipe s failed; r = pl_replans s ! i; p = rn_trigger r in
      run_then (case rn_baseline r of None \<Rightarrow> (\<lambda>t. (Inl validation_error, t)) | Some b \<Rightarrow> restore_baseline C b) (\<lambda>_ t.
        run_then (report_progress C) (\<lambda>_. give (order_index p)) (close_rejected i p after failed t))
      (set_replan i (\<lambda>r. r\<lparr>rn_status := Stagnated, rn_after := Some after\<rparr>) s))"

subsection \<open>Running one step\<close>

definition local_tools :: "string list" where
  "local_tools = direct_tools @ [''repair_current_step'']"

definition decision_instructions :: "decision \<Rightarrow> string" where
  "decision_instructions d = take 6000 (case dc_instructions d of Some x \<Rightarrow> x | None \<Rightarrow> dc_strategy d)"

definition recovery_text :: "decision \<Rightarrow> string" where
  "recovery_text d =
     ''Agentic recovery plan. Preserve every immutable requirement.'' @ [CHR 0x0A]
     @ ''Hypothesis: '' @ dc_hypothesis d @ [CHR 0x0A] @ ''Action: '' @ ''local_repair'' @ [CHR 0x0A]
     @ ''Instructions: '' @ decision_instructions d @ [CHR 0x0A]
     @ ''The deterministic gate, not the model, decides success.''"

text \<open>What the next run of the step is told: the feedback of the replan it is part of, or the local repair.\<close>

definition instruct ::
  "pipeline_step \<Rightarrow> nat option \<Rightarrow> nat option \<Rightarrow> ('a, 'r, 'w) pipeline \<Rightarrow> ('a, 'r, 'w) pipeline" where
  "instruct p replan act s0 =
     (let s = s0\<lparr>pl_tool := [], pl_batch := None, pl_observed := None\<rparr>;
          d = map_option (\<lambda>j. tn_decision (pl_turns s ! j)) act;
          repairing = (case d of None \<Rightarrow> False | Some x \<Rightarrow> dc_action x = LocalRepair)
      in if replan \<noteq> None \<and> \<not> repairing then s\<lparr>pl_feedback := rn_feedback (pl_replans s ! the replan)\<rparr>
         else (case d of
             None \<Rightarrow> s
           | Some x \<Rightarrow>
               if dc_target x = Some (step_name p) \<and> dc_action x = LocalRepair then
                 (let s1 = (if dc_tool x \<in> set local_tools then
                      s\<lparr>pl_tool := dc_tool x,
                        pl_batch := (if dc_tool x = ''apply_cad_action_batch'' then dc_batch x else None)\<rparr> else s)
                  in s1\<lparr>pl_feedback := recovery_text x\<rparr>)
               else s))"

definition error_check_name :: "step_error \<Rightarrow> string" where
  "error_check_name e = (case e of StructuredOutputFailed _ \<Rightarrow> ''structured_output_invalid''
     | LlmFailed _ \<Rightarrow> ''llm_proposal_failed'' | StepFailed _ \<Rightarrow> ''step_execution_failed'')"

definition captured_failure ::
  "('a, 'r, 'w) services \<Rightarrow> ('a, 'r, 'w) driver \<Rightarrow> pipeline_step \<Rightarrow> step_error \<Rightarrow> failure" where
  "captured_failure C V p e =
     make_failure (cx_digest C) (step_name p) (error_check_name e) (dv_describe V e) False
       (if is_llm_error e then None else Some InfrastructureOrigin)
       (if is_llm_error e then error_check_name e else ''unhandled_step_exception'') None [] []"

definition captured_result ::
  "('a, 'r, 'w) services \<Rightarrow> ('a, 'r, 'w) driver \<Rightarrow> pipeline_step \<Rightarrow> step_error \<Rightarrow> step_result" where
  "captured_result C V p e =
     (let f = captured_failure C V p e in
      \<lparr>st_step = p, st_used_llm = is_llm_error e, st_knowledge = [],
       st_checks = [\<lparr>cr_name = error_check_name e, cr_ok = False, cr_severity = SevError, cr_message = dv_describe V e,
         cr_blocks = True, cr_origin = Some (fl_origin f),
         cr_reason = (if fl_origin f = InfrastructureOrigin then ''unhandled_step_exception'' else error_check_name e),
         cr_refs = [], cr_evidence = []\<rparr>],
       st_failures = [f], st_repairs = [], st_blocked = True, st_execution_blocked = True,
       st_summary = ''Step execution failed: '' @ error_text e\<rparr>)"

text \<open>
  The attempts at one step: an exception that counts as transient is retried, another one is
  captured as a blocked result. After every attempt of a recovering step the feedback is cleared.
\<close>

fun attempt_step ::
  "('a, 'r, 'w) engine \<Rightarrow> ('a, 'r, 'w) services \<Rightarrow> ('a, 'r, 'w) driver \<Rightarrow> ('a, 'r, 'w) step_ops \<Rightarrow> bool \<Rightarrow> nat
     \<Rightarrow> (('a, 'r, 'w) pipeline, step_result) act" where
  "attempt_step run C V P recovering n s =
     (case run P s of
        (Inr r, t) \<Rightarrow> (Inr r, if recovering then clear_feedback t else t)
      | (Inl e, t) \<Rightarrow>
          (let t' = (if recovering then clear_feedback t else t) in
           if \<not> cx_capture_errors C then (Inl e, t')
           else if fl_recoverability (captured_failure C V (so_step P) e) = Retryable \<and> n > 0
             then attempt_step run C V P recovering (n - 1) t'
           else (let r = captured_result C V (so_step P) e in
                 (Inr r, t'\<lparr>pl_results := pl_results t' @ [r]\<rparr>))))"

declare attempt_step.simps [simp del]

subsection \<open>Judging a recovery\<close>

definition gate_text :: "step_result \<Rightarrow> string" where
  "gate_text r = (if error_checks r = [] then ''all error checks passed''
     else take 10000 (py_join ''; '' (map (\<lambda>c. cr_name c @ '': '' @ cr_message c) (error_checks r))))"

definition observation_text :: "('a, 'r, 'w) driver \<Rightarrow> ('a, 'r, 'w) pipeline \<Rightarrow> step_result \<Rightarrow> string" where
  "observation_text V s r =
     (case pl_observed s of None \<Rightarrow> [] | Some x \<Rightarrow> ''CAD action observation: '' @ dv_observed V x @ [CHR 0x0A])
     @ ''Deterministic gate observation: '' @ gate_text r"

definition judge_turn :: "('a, 'r) turn \<Rightarrow> fail_score \<Rightarrow> bool \<Rightarrow> turn_status" where
  "judge_turn t after broken =
     (if broken then TurnError else if fst after = 0 then TurnVerified
      else if after < tn_before t then TurnImproved else TurnRejected)"

text \<open>The verdict on the turn \<open>j\<close>; the answer tells whether its candidate was rolled back.\<close>

definition settle_turn ::
  "('a, 'r, 'w) services \<Rightarrow> ('a, 'r, 'w) driver \<Rightarrow> ('a, 'r, 'w) step_ops list \<Rightarrow> nat \<Rightarrow> step_result
     \<Rightarrow> (('a, 'r, 'w) pipeline, bool) act" where
  "settle_turn C V pipe j r s =
     (let after = score_of pipe s r; t0 = pl_turns s ! j; p = tn_step t0;
          status = judge_turn t0 after (st_execution_blocked r); text = observation_text V s r;
          s1 = set_turn j (\<lambda>t. t\<lparr>tn_after := Some after, tn_status := status\<rparr>) s
      in if length text > 12000 then (Inl validation_error, s1)
         else (let s2 = set_turn j (\<lambda>t. t\<lparr>tn_observation := text\<rparr>) s1;
                   closed = (\<lambda>t. t\<lparr>tn_baseline := None\<rparr>)
               in case tn_baseline t0 of
                    None \<Rightarrow> (Inr False, note_event ''recovery_observed'' p s2)
                  | Some b \<Rightarrow>
                      if status \<in> {TurnRejected, TurnError} then
                        run_then (restore_baseline C b) (\<lambda>_ s3.
                          run_then (report_progress C) (\<lambda>_. give True)
                            (note_event ''recovery_observed'' p (reopen_failed_step p (set_turn j closed s3)))) s2
                      else
                        run_then (commit_baseline C (Some b)) (\<lambda>_ s3.
                          (Inr False, note_event ''recovery_observed'' p (set_turn j closed s3))) s2))"

subsection \<open>Passing a gate\<close>

definition can_continue :: "('a, 'r, 'w) services \<Rightarrow> step_result \<Rightarrow> bool" where
  "can_continue C r =
     (\<not> st_blocked r \<or>
      (cx_artifact_first C \<and> (cx_draft_first C \<or> \<not> cx_repair_release C) \<and> \<not> st_execution_blocked r))"

definition call_completed ::
  "('a, 'r, 'w) driver \<Rightarrow> step_result \<Rightarrow> (('a, 'r, 'w) pipeline, unit) act" where
  "call_completed V r s = (case dv_completed V s r of (x, w) \<Rightarrow> (x, s\<lparr>pl_world := w\<rparr>))"

definition pass_gate ::
  "('a, 'r, 'w) services \<Rightarrow> ('a, 'r, 'w) driver \<Rightarrow> pipeline_step \<Rightarrow> step_result \<Rightarrow> (('a, 'r, 'w) pipeline, unit) act" where
  "pass_gate C V p r s =
     run_then
       (case pending_replan p s of
          Some i \<Rightarrow>
            if \<not> st_blocked r then
              run_then (commit_baseline C (rn_baseline (pl_replans s ! i))) (\<lambda>_ t.
                (Inr (), note_event ''replan_recovered'' p
                   (set_replan i (\<lambda>r. r\<lparr>rn_baseline := None, rn_status := Recovered, rn_after := Some (0, 0, 0)\<rparr>) t)))
            else give ()
        | None \<Rightarrow> give ())
       (\<lambda>_. call_completed V r) s"

subsection \<open>Choosing a recovery\<close>

definition failure_ids :: "step_result \<Rightarrow> string list" where
  "failure_ids r = map fl_id (st_failures r)"

definition meets :: "string list \<Rightarrow> string list \<Rightarrow> bool" where
  "meets xs ys = list_ex (\<lambda>x. x \<in> set ys) xs"

definition all_external :: "step_result \<Rightarrow> bool" where
  "all_external r = (st_failures r \<noteq> [] \<and> list_all (\<lambda>f. fl_origin f = ExternalEvidenceOrigin) (st_failures r))"

definition step_of_name :: "string \<Rightarrow> pipeline_step option" where
  "step_of_name n = find (\<lambda>p. step_name p = n) canonical_order"

text \<open>The one step all failed checks name as their owner, when each carries only bounded plans.\<close>

definition plans_of :: "('a, 'r, 'w) driver \<Rightarrow> check_result \<Rightarrow> (bool \<times> string option) list option" where
  "plans_of V c =
     (case dget (cr_evidence c) ''entity_repair_plans'' of
        Some (JArr raws) \<Rightarrow>
          if raws = [] \<or> list_ex (\<lambda>x. dv_entity V x = None) raws then None else Some (map (\<lambda>x. the (dv_entity V x)) raws)
      | _ \<Rightarrow> None)"

definition evidence_owned_rollback :: "('a, 'r, 'w) driver \<Rightarrow> step_result \<Rightarrow> pipeline_step option" where
  "evidence_owned_rollback V r =
     (if list_ex (\<lambda>c. plans_of V c = None) (error_checks r) then None
      else (let plans = concat (map (\<lambda>c. the (plans_of V c)) (error_checks r));
                owners = fromkeys (map (\<lambda>(_, t). case t of None \<Rightarrow> None | Some n \<Rightarrow> step_of_name n) plans)
            in if plans = [] \<or> list_ex (\<lambda>(bounded, _). \<not> bounded) plans then None
               else (case owners of [Some p] \<Rightarrow> Some p | _ \<Rightarrow> None)))"

definition replan_uses ::
  "pipeline_step \<Rightarrow> pipeline_step \<Rightarrow> string list \<Rightarrow> ('a, 'r, 'w) pipeline \<Rightarrow> int" where
  "replan_uses p target ids s =
     int (length (filter (\<lambda>r. rn_trigger r = p \<and> rn_rollback r = target \<and> meets ids (rn_failures r)) (pl_replans s)))"

text \<open>The targets a replan may roll back to, the suggested one, and whether the step can be repaired locally.\<close>

definition recovery_options ::
  "('a, 'r, 'w) services \<Rightarrow> ('a, 'r, 'w) driver \<Rightarrow> ('a, 'r, 'w) step_ops \<Rightarrow> step_result \<Rightarrow> bool \<Rightarrow> ('a, 'r, 'w) pipeline
     \<Rightarrow> pipeline_step list \<times> pipeline_step option \<times> bool" where
  "recovery_options C V P r nested s =
     (let p = so_step P; artifact = dget (pl_artifacts s) p; ids = failure_ids r;
          suggested = (case artifact of
             Some a \<Rightarrow> if cx_ahe C \<and> (\<not> cx_artifact_first C \<or> cx_repair_release C) then so_rollback P s a (st_checks r) else None
           | None \<Rightarrow> None);
          allowed = filter (\<lambda>t. dget (pl_artifacts s) t \<noteq> None \<and> replan_uses p t ids s < max 0 (cx_max_replans C))
                      (drop 1 (prefix_steps (order_index p)));
          owner = evidence_owned_rollback V r;
          tool_failed = (p = RouteSignals \<and> list_ex (\<lambda>c. cr_name c = ''routing_tool_execution'') (error_checks r));
          binding_only = (p = Selection \<and> error_checks r \<noteq> [] \<and>
             list_all (\<lambda>c. cr_name c = ''footprints_bound_after_selection'' \<or>
                          starts_with (cr_name c) ''package_role_semantics:'') (error_checks r));
          allowed1 = (if tool_failed \<or> binding_only then [] else allowed);
          suggested1 = (if tool_failed \<or> binding_only then None else suggested);
          suggested2 = (if owner \<noteq> None then owner else suggested1);
          allowed3 = (if nested then [] else allowed1);
          suggested3 = (if nested then None else suggested2);
          local = (artifact \<noteq> None \<and>
             (custom_repair P \<or> so_replan_custom P \<or> st_used_llm r \<or> dv_cad V s r artifact \<noteq> None))
      in if all_external r then ([], None, False) else (allowed3, suggested3, local))"

text \<open>The move that is always available; more than 64 failure identifiers do not fit a decision.\<close>

definition bare_decision :: "string list \<Rightarrow> recovery_action \<Rightarrow> string option \<Rightarrow> string \<Rightarrow> string \<Rightarrow> string \<Rightarrow> string \<Rightarrow> decision" where
  "bare_decision ids a target strategy tool hypothesis expected =
     \<lparr>dc_failures = ids, dc_action = a, dc_origin = UnknownOrigin, dc_target = target, dc_strategy = strategy,
      dc_tool = tool, dc_instructions = None, dc_implementation = None, dc_batch = None, dc_hypothesis = hypothesis,
      dc_expected = expected\<rparr>"

definition fallback_choice ::
  "step_result \<Rightarrow> pipeline_step list \<Rightarrow> pipeline_step option \<Rightarrow> bool \<Rightarrow> decision" where
  "fallback_choice r allowed suggested local =
     (let ids = failure_ids r; here = Some (step_name (st_step r)) in
      if list_ex (\<lambda>f. fl_recoverability f = HardConflict) (st_failures r) then
        bare_decision ids StopRecovery None ''preserve_immutable_constraint'' ''stop_hard_conflict''
          ''A deterministic hard-constraint gate reported a conflict.'' ''No candidate mutation is authorized.''
      else if list_ex (\<lambda>f. fl_origin f = InfrastructureOrigin) (st_failures r) \<or> st_execution_blocked r then
        bare_decision ids RetryTool here ''bounded_tool_retry'' ''retry_current_step''
          ''The authoritative tool execution may be incomplete or transient.''
          ''A current, parseable tool result is produced.''
      else if suggested \<noteq> None \<and> the suggested \<in> set allowed then
        bare_decision ids ReplanUpstream (Some (step_name (the suggested))) ''deterministic_owner_rollback''
          ''replan_upstream_step'' ''The failed downstream gate is owned by an upstream artifact.''
          ''The failed gate score materially improves after replay.''
      else if local then
        bare_decision ids LocalRepair here ''step_local_repair'' ''repair_current_step''
          ''A project-local candidate change can address the failed gate.''
          ''At least one failed check or diagnostic count decreases.''
      else if allowed \<noteq> [] then
        bare_decision ids ReplanUpstream (Some (step_name (last allowed))) ''nearest_mutable_owner_rollback''
          ''replan_upstream_step'' ''The nearest mutable upstream artifact should be reconsidered.''
          ''The failed gate score materially improves after replay.''
      else if all_external r then
        bare_decision ids AskHuman None ''request_missing_authority_or_evidence'' ''request_human_input''
          ''Required grounded evidence or substitution authority is absent.''
          ''The missing evidence or explicit decision is supplied.''
      else
        bare_decision ids InvestigateHarness here ''independent_gate_recheck'' ''run_step_gate''
          ''The failure origin is unresolved and requires another observation.''
          ''Independent evidence distinguishes design from Harness failure.'')"

definition fallback_decision ::
  "step_result \<Rightarrow> pipeline_step list \<Rightarrow> pipeline_step option \<Rightarrow> bool \<Rightarrow> (step_error, decision) result" where
  "fallback_decision r allowed suggested local =
     (if length (failure_ids r) > 64 then Inl validation_error else Inr (fallback_choice r allowed suggested local))"

definition reflection_unavailable :: "pipeline_step \<Rightarrow> decision" where
  "reflection_unavailable p =
     (bare_decision [] StopRecovery (Some (step_name p)) ''recovery_output_unavailable_preserve_checkpoint'' []
        ''No validated recovery decision was obtained; no upstream fault is proven.''
        ''Resume this checkpoint after recovery output is available.'')\<lparr>dc_origin := HarnessOrigin\<rparr>"

definition plan_recovery ::
  "('a, 'r, 'w) driver \<Rightarrow> step_result \<Rightarrow> pipeline_step list \<Rightarrow> pipeline_step option \<Rightarrow> bool
     \<Rightarrow> (('a, 'r, 'w) pipeline, decision \<times> bool) act" where
  "plan_recovery V r allowed suggested local s =
     (case dv_propose V s r (dget (pl_artifacts s) (st_step r)) allowed suggested local of (x, w) \<Rightarrow>
        (case x of
           Inl e \<Rightarrow> if is_llm_error e then Inr (reflection_unavailable (st_step r), False) else Inl e
         | Inr d \<Rightarrow> Inr d, s\<lparr>pl_world := w\<rparr>))"

subsection \<open>A batch of board edits\<close>

definition json_field :: "string \<Rightarrow> json \<Rightarrow> json" where
  "json_field k j = (case j of JObj kvs \<Rightarrow> (case dget kvs k of Some v \<Rightarrow> v | None \<Rightarrow> JNull) | _ \<Rightarrow> JNull)"

definition json_text :: "json \<Rightarrow> string" where
  "json_text j = (case j of JStr s \<Rightarrow> s | _ \<Rightarrow> [])"

definition batch_actions :: "json \<Rightarrow> (string \<times> string) list" where
  "batch_actions b =
     (case json_field ''actions'' b of
        JArr xs \<Rightarrow> map (\<lambda>x. (json_text (json_field ''operation'' x), json_text (json_field ''reference'' (json_field ''target'' x)))) xs
      | _ \<Rightarrow> [])"

text \<open>\<^verbatim>\<open>repr\<close> of an operation's name, which has neither quotes nor escapes.\<close>

definition quoted_repr :: "string \<Rightarrow> string" where
  "quoted_repr op = CHR 0x27 # op @ [CHR 0x27]"

definition validate_batch ::
  "('a, 'r, 'w) services \<Rightarrow> ('a, 'r, 'w) driver \<Rightarrow> ('a, 'r, 'w) pipeline \<Rightarrow> step_result \<Rightarrow> json option
     \<Rightarrow> json option \<times> failure option" where
  "validate_batch C V s r batch =
     (case batch of
        None \<Rightarrow> (None, None)
      | Some b \<Rightarrow>
          (let p = step_name (st_step r); actions = batch_actions b in
           case dv_cad V s r (dget (pl_artifacts s) (st_step r)) of
             None \<Rightarrow>
               (let op = fst (hd actions) in
                (None, Some (missing_mutation_failure (cx_digest C) p op (quoted_repr op)
                   ''no governed executor is available for this artifact stage'' [] [])))
           | Some x \<Rightarrow>
               (case filter (\<lambda>op. op \<notin> set (cc_operations x)) (map fst actions) of
                  op # _ \<Rightarrow>
                    (None, Some (missing_mutation_failure (cx_digest C) p op (quoted_repr op) []
                       (map snd (filter (\<lambda>(o', ref). o' = op \<and> ref \<noteq> []) actions))
                       [(''allowed_operations'', JArr (map JStr (sort (fromkeys (cc_operations x)))))]))
                | [] \<Rightarrow>
                    if json_text (json_field ''owner_step'' b) \<noteq> p then (None, None)
                    else if json_text (json_field ''base_artifact_fingerprint'' b) \<noteq> cc_fingerprint x then (None, None)
                    else (Some b, None))))"

subsection \<open>One recovery turn\<close>

definition unicode_word :: "char \<Rightarrow> bool" where
  "unicode_word c = (word_char c \<or> (let n = (of_char c :: nat) in
     n \<in> {170, 178, 179, 181, 185, 186, 188, 189, 190} \<or> (192 \<le> n \<and> n \<noteq> 215 \<and> n \<noteq> 247)))"

text \<open>A pattern between two word boundaries; \<open>before\<close> tells whether a word character comes first.\<close>

fun found_word :: "char option list \<Rightarrow> bool \<Rightarrow> string \<Rightarrow> bool" where
  "found_word p before [] = False"
| "found_word p before (c # cs) =
     ((\<not> before \<and> matches_here p (c # cs) \<and>
       (case drop (length p) (c # cs) of [] \<Rightarrow> True | d # _ \<Rightarrow> \<not> unicode_word d))
      \<or> found_word p (unicode_word c) cs)"

definition width_patterns :: "string list" where
  "width_patterns = [''width'', ''widen'', ''minimum.track'', ''undersized'', ''track.size'']"

text \<open>White-space runs become single spaces.\<close>

function space_words :: "string \<Rightarrow> string list" where
  "space_words [] = []"
| "space_words (c # cs) =
     (if py_space c then space_words cs
      else (c # takeWhile (\<lambda>d. \<not> py_space d) cs) # space_words (dropWhile (\<lambda>d. \<not> py_space d) cs))"
  by pat_completeness auto

termination space_words
  by (relation "measure length") (simp_all add: length_dropWhile_le less_Suc_eq_le)

definition plain_words :: "string \<Rightarrow> string" where
  "plain_words s = py_join '' '' (space_words (casefold s))"

definition bind_local_tool :: "step_result \<Rightarrow> string \<Rightarrow> string" where
  "bind_local_tool r instructions =
     (if st_step r \<noteq> RouteSignals then ''repair_current_step''
      else (let names = map cr_name (error_checks r);
                reasons = map casefold (filter (\<lambda>x. x \<noteq> []) (map cr_reason (error_checks r) @ map fl_reason (st_failures r)));
                text = plain_words instructions @ '' '' @ py_join '' '' (map (\<lambda>c. casefold (cr_message c)) (error_checks r))
            in if meets [''routing_physical_invariants'', ''net_class_geometry''] names \<and>
                  list_ex (\<lambda>p. found_word (pattern p) False text) width_patterns then ''repair_physical_track_width''
               else if ''signals_routed'' \<in> set names \<or> meets [''kicad_drc_unconnected'', ''routing_incomplete''] reasons
                 then ''repair_route_connectivity''
               else ''repair_current_step''))"

definition action_fingerprint :: "('a, 'r, 'w) driver \<Rightarrow> decision \<Rightarrow> string" where
  "action_fingerprint V d =
     dv_action_digest V
       \<lparr>ap_action = dc_action d, ap_target = dc_target d, ap_tool = dc_tool d,
        ap_implementation = (case dc_implementation d of None \<Rightarrow> [] | Some x \<Rightarrow> x),
        ap_strategy = plain_words (dc_strategy d),
        ap_instructions = plain_words (case dc_instructions d of None \<Rightarrow> [] | Some x \<Rightarrow> x), ap_batch = dc_batch d\<rparr>"

text \<open>A proposal the current gate does not permit.\<close>

definition invalid_action ::
  "step_result \<Rightarrow> pipeline_step list \<Rightarrow> bool \<Rightarrow> bool \<Rightarrow> decision \<Rightarrow> bool" where
  "invalid_action r allowed local used d =
     (let a = dc_action d; external = all_external r;
          hard = list_ex (\<lambda>f. fl_recoverability f = HardConflict) (st_failures r);
          valid_target = (case dc_target d of None \<Rightarrow> False | Some t \<Rightarrow> t \<in> set (map step_name allowed))
      in (external \<and> a \<notin> {AskHuman, StopRecovery}) \<or>
         (a = LocalRepair \<and> dc_batch d = None \<and>
            py_strip (case dc_instructions d of None \<Rightarrow> [] | Some x \<Rightarrow> x) = [] \<and> py_strip (dc_strategy d) = []) \<or>
         (a = LocalRepair \<and> \<not> local) \<or>
         (a = ReplanUpstream \<and> \<not> valid_target) \<or>
         (a = AskHuman \<and> \<not> external) \<or>
         (a = StopRecovery \<and> \<not> hard \<and>
            \<not> (\<not> used \<and> dc_strategy d = ''recovery_output_unavailable_preserve_checkpoint'' \<and> dc_origin d = HarnessOrigin) \<and>
            (allowed \<noteq> [] \<or> local)))"

definition action_tool :: "recovery_action \<Rightarrow> string \<Rightarrow> string" where
  "action_tool a local_tool =
     (case a of LocalRepair \<Rightarrow> local_tool | ReplanUpstream \<Rightarrow> ''replan_upstream_step'' | RetryTool \<Rightarrow> ''retry_current_step''
      | InvestigateHarness \<Rightarrow> ''run_step_gate'' | AskHuman \<Rightarrow> ''request_human_input'' | StopRecovery \<Rightarrow> ''stop_hard_conflict'')"

text \<open>The decision that is carried out: the harness binds target, tool and arguments.\<close>

definition bind_decision ::
  "('a, 'r, 'w) step_ops \<Rightarrow> step_result \<Rightarrow> string list \<Rightarrow> json option \<Rightarrow> decision \<Rightarrow> decision \<Rightarrow> decision" where
  "bind_decision P r ids batch fallback d =
     (let p = so_step P; a = dc_action d; instructions = decision_instructions d;
          tool0 = (if a = LocalRepair \<and> batch \<noteq> None then ''apply_cad_action_batch'' else bind_local_tool r instructions);
          tool = (if tool0 \<in> set local_tools then tool0 else ''repair_current_step'');
          expected = py_strip (dc_expected d)
      in d\<lparr>dc_failures := sort (fromkeys ids),
           dc_target := (if a = ReplanUpstream then dc_target d else Some (step_name p)),
           dc_tool := action_tool a tool, dc_instructions := Some instructions,
           dc_implementation := Some (case so_strategy P of
               Some x \<Rightarrow> if x \<noteq> [] then x else step_name p | None \<Rightarrow> step_name p),
           dc_batch := (if a = LocalRepair then batch else None),
           dc_expected := take 4000 (if expected \<noteq> [] then expected else dc_expected fallback)\<rparr>)"

text \<open>The decision after validation, the failures with a rejected batch's own, and whether the model made it.\<close>

definition settle_decision ::
  "('a, 'r, 'w) services \<Rightarrow> ('a, 'r, 'w) driver \<Rightarrow> ('a, 'r, 'w) step_ops \<Rightarrow> ('a, 'r, 'w) pipeline \<Rightarrow> step_result
     \<Rightarrow> pipeline_step list \<Rightarrow> bool \<Rightarrow> decision \<times> bool \<Rightarrow> decision \<Rightarrow> decision \<times> bool \<times> step_result \<times> string list" where
  "settle_decision C V P s r allowed local proposal fallback =
     (case proposal of (d0, used0) \<Rightarrow>
        (case validate_batch C V s r (dc_batch d0) of (batch, missing) \<Rightarrow>
           (let r' = (case missing of None \<Rightarrow> r
                      | Some f \<Rightarrow> if fl_id f \<in> set (failure_ids r) then r else r\<lparr>st_failures := st_failures r @ [f]\<rparr>);
                ids = failure_ids r @ (case missing of None \<Rightarrow> [] | Some f \<Rightarrow> [fl_id f]);
                stale = (dc_batch d0 \<noteq> None \<and> batch = None);
                (d1, used1) = (if stale then (fallback, False) else (d0, used0));
                (d2, used2) = (if invalid_action r' allowed local used1 d1 then (fallback, False) else (d1, used1))
            in (bind_decision P r' ids batch fallback d2, used2, r', ids))))"

definition related_turns :: "pipeline_step \<Rightarrow> string list \<Rightarrow> ('a, 'r, 'w) pipeline \<Rightarrow> ('a, 'r) turn list" where
  "related_turns p ids s = filter (\<lambda>t. tn_step t = p \<and> (ids = [] \<or> meets ids (tn_failures t))) (pl_turns s)"

definition agentic_budget ::
  "('a, 'r, 'w) services \<Rightarrow> ('a, 'r) turn list \<Rightarrow> ('a, 'r, 'w) pipeline \<Rightarrow> bool" where
  "agentic_budget C related s =
     (cx_agentic C \<and> \<not> cx_offline C \<and> cx_client C \<and> int (length related) < max 0 (cx_max_turns_step C) \<and>
      int (length (pl_turns s)) < max 0 (cx_max_turns_total C) \<and> cx_in_time C (pl_world s))"

text \<open>A result of the step that just ran is the last one; its failures may still grow.\<close>

definition set_last_result :: "step_result \<Rightarrow> ('a, 'r, 'w) pipeline \<Rightarrow> ('a, 'r, 'w) pipeline" where
  "set_last_result r s = s\<lparr>pl_results := butlast (pl_results s) @ [r]\<rparr>"

definition new_turn ::
  "('a, 'r, 'w) services \<Rightarrow> ('a, 'r, 'w) driver \<Rightarrow> ('a, 'r, 'w) step_ops \<Rightarrow> ('a, 'r) turn list \<Rightarrow> fail_score \<Rightarrow> decision
     \<Rightarrow> bool \<Rightarrow> string list \<Rightarrow> ('a, 'r, 'w) pipeline \<Rightarrow> ('a, 'r) turn" where
  "new_turn C V P related before d used ids s =
     (let p = so_step P; fp = fingerprint_of C (dget (pl_artifacts s) p);
          repeated = (dc_action d \<noteq> AskHuman \<and>
            list_ex (\<lambda>t. action_fingerprint V (tn_decision t) = action_fingerprint V d \<and> tn_fingerprint t = fp \<and>
                         tn_status t \<in> {TurnRejected, TurnExhausted, TurnError}) related)
      in \<lparr>tn_step = p, tn_attempt = length related + 1, tn_revision = pl_revision s, tn_failures = sort (fromkeys ids),
          tn_decision = d, tn_status = (if repeated then TurnExhausted else Planned), tn_before = before,
          tn_after = (if repeated then Some before else None),
          tn_observation = (if repeated then ''The same action, target, artifact fingerprint and gate score already stagnated; exact replay rejected.'' else []),
          tn_fingerprint = fp, tn_used_llm = used, tn_skill = dv_skill V p, tn_baseline = None\<rparr>)"

text \<open>What a turn record accepts.\<close>

definition turn_fits :: "('a, 'r) turn \<Rightarrow> bool" where
  "turn_fits t = (length (tn_failures t) \<le> 64 \<and> length (fst (tn_skill t)) \<le> 120 \<and> length (snd (tn_skill t)) \<le> 128 \<and>
     length (tn_fingerprint t) \<le> 120)"

text \<open>Plan: the new turn is recorded; its place in the history is returned with the result.\<close>

definition plan_turn ::
  "('a, 'r, 'w) services \<Rightarrow> ('a, 'r, 'w) driver \<Rightarrow> ('a, 'r, 'w) step_ops \<Rightarrow> step_result
     \<Rightarrow> pipeline_step list \<times> pipeline_step option \<times> bool \<Rightarrow> fail_score
     \<Rightarrow> (('a, 'r, 'w) pipeline, nat \<times> step_result \<times> string list) act" where
  "plan_turn C V P r options before s =
     (case options of (allowed, suggested, local) \<Rightarrow>
        run_then (plan_recovery V r allowed suggested local) (\<lambda>proposal s1.
          case fallback_decision r allowed suggested local of
            Inl e \<Rightarrow> (Inl e, s1)
          | Inr fallback \<Rightarrow>
              (case settle_decision C V P s1 r allowed local proposal fallback of (d, used, r', ids) \<Rightarrow>
                 (let s2 = set_last_result r' s1;
                      t = new_turn C V P (related_turns (so_step P) (failure_ids r) s2) before d used ids s2
                  in if \<not> turn_fits t then (Inl validation_error, s2)
                     else (Inr (length (pl_turns s2), r', ids),
                       note_event (if tn_status t = TurnExhausted then ''recovery_exhausted'' else ''recovery_planned'')
                         (so_step P) (s2\<lparr>pl_turns := pl_turns s2 @ [t]\<rparr>))))) s)"

text \<open>Act: a local repair, a retry or an investigation runs the step again from a captured baseline.\<close>

definition starts_candidate :: "('a, 'r) turn \<Rightarrow> bool" where
  "starts_candidate t =
     (tn_status t \<noteq> TurnExhausted \<and> dc_action (tn_decision t) \<in> {LocalRepair, RetryTool, InvestigateHarness})"

definition launch_turn ::
  "pipeline_step \<Rightarrow> nat \<Rightarrow> step_result \<Rightarrow> ('a, 'r) baseline \<Rightarrow> ('a, 'r, 'w) pipeline \<Rightarrow> ('a, 'r, 'w) pipeline" where
  "launch_turn p j r b s =
     (let s1 = s\<lparr>pl_revision := pl_revision s + 1\<rparr>;
          s2 = set_turn j (\<lambda>t. t\<lparr>tn_baseline := Some b, tn_status := Acted, tn_revision := pl_revision s1\<rparr>) s1;
          s3 = (case dget (pl_artifacts s) p of
                  Some a \<Rightarrow> if dc_action (tn_decision (pl_turns s ! j)) = LocalRepair
                    then s2\<lparr>pl_resume := dset p (a, st_used_llm r) (pl_resume s2)\<rparr> else s2
                | None \<Rightarrow> s2);
          s4 = s3\<lparr>pl_results := butlast (pl_results s3), pl_artifacts := ddel p (pl_artifacts s3)\<rparr>
      in note_event ''recovery_action_started'' p s4)"

definition act_turn ::
  "('a, 'r, 'w) services \<Rightarrow> ('a, 'r, 'w) step_ops \<Rightarrow> nat \<Rightarrow> step_result \<Rightarrow> (('a, 'r, 'w) pipeline, unit) act" where
  "act_turn C P j r s =
     run_then (capture_baseline C (cx_new_id C (pl_world s)))
       (\<lambda>b t. report_progress C (launch_turn (so_step P) j r b t)) s"

subsection \<open>Replanning upstream\<close>

definition prior_replans ::
  "pipeline_step \<Rightarrow> string \<Rightarrow> string list \<Rightarrow> ('a, 'r, 'w) pipeline \<Rightarrow> ('a, 'r) replan list" where
  "prior_replans p fp ids s =
     filter (\<lambda>r. rn_trigger r = p \<and> rn_fingerprint r = fp \<and> meets ids (rn_failures r)) (pl_replans s)"

definition replan_limit :: "('a, 'r, 'w) services \<Rightarrow> pipeline_step \<Rightarrow> pipeline_step option \<Rightarrow> int" where
  "replan_limit C p target =
     (let n = max 0 (cx_max_replans C) in
      case (target, cx_replan_score C) of
        (Some t, Some score) \<Rightarrow>
          (case score (step_name p) (step_name t) of
             Some v \<Rightarrow> if v \<ge> 4 / 5 then min 5 (n + 1) else if v < 1 / 5 then min n 1 else n
           | None \<Rightarrow> n)
      | _ \<Rightarrow> n)"

text \<open>The target of the turn \<open>j\<close>, or the suggested one when no turn was planned.\<close>

definition rollback_choice ::
  "nat option \<Rightarrow> pipeline_step option \<Rightarrow> ('a, 'r, 'w) pipeline \<Rightarrow> (step_error, pipeline_step option) result" where
  "rollback_choice turn suggested s =
     (case turn of
        None \<Rightarrow> Inr suggested
      | Some j \<Rightarrow>
          (let t = pl_turns s ! j in
           if tn_status t \<noteq> TurnExhausted \<and> dc_action (tn_decision t) = ReplanUpstream then
             (case dc_target (tn_decision t) of
                None \<Rightarrow> Inl (StepFailed ''ValueError'')
              | Some n \<Rightarrow> (case step_of_name n of None \<Rightarrow> Inl (StepFailed ''ValueError'') | Some p \<Rightarrow> Inr (Some p)))
           else Inr None))"

definition replan_text ::
  "('a, 'r, 'w) driver \<Rightarrow> pipeline_step \<Rightarrow> pipeline_step \<Rightarrow> step_result \<Rightarrow> decision option \<Rightarrow> string" where
  "replan_text V p target r d =
     (let nl = [CHR 0x0A]; evidence = dv_evidence V r in
      take 12000 (''Downstream '' @ step_name p @ '' checks failed. Replan from '' @ step_name target
        @ '' without weakening any requirement:'' @ nl
        @ (case d of None \<Rightarrow> []
           | Some x \<Rightarrow> nl @ ''Agentic recovery hypothesis: '' @ dc_hypothesis x @ nl @ ''Recovery instructions: ''
               @ (case dc_instructions x of None \<Rightarrow> [] | Some i \<Rightarrow> i) @ nl @ ''Expected observation: '' @ dc_expected x @ nl)
        @ py_join nl (map (\<lambda>c. ''- '' @ cr_name c @ '': '' @ cr_message c) (error_checks r))
        @ (if evidence = [] then [] else nl @ ''Structured verifier evidence (authoritative):'' @ nl @ evidence)))"

definition new_replan ::
  "('a, 'r, 'w) services \<Rightarrow> ('a, 'r, 'w) driver \<Rightarrow> pipeline_step \<Rightarrow> step_result \<Rightarrow> fail_score \<Rightarrow> nat option
     \<Rightarrow> pipeline_step \<Rightarrow> nat \<Rightarrow> ('a, 'r) baseline \<Rightarrow> ('a, 'r, 'w) pipeline \<Rightarrow> ('a, 'r) replan" where
  "new_replan C V p r before turn target uses b s =
     \<lparr>rn_trigger = p, rn_rollback = target, rn_attempt = uses + 1, rn_failures = failure_ids r, rn_status = Scheduled,
      rn_before = before, rn_after = None,
      rn_feedback = replan_text V p target r (map_option (\<lambda>j. tn_decision (pl_turns s ! j)) turn),
      rn_fingerprint = fingerprint_of C (dget (pl_artifacts s) target), rn_baseline = Some b, rn_intermediate = 0\<rparr>"

definition launch_replan ::
  "pipeline_step \<Rightarrow> nat option \<Rightarrow> pipeline_step \<Rightarrow> ('a, 'r) replan \<Rightarrow> ('a, 'r, 'w) pipeline \<Rightarrow> ('a, 'r, 'w) pipeline" where
  "launch_replan p turn target record s =
     (let s2 = s\<lparr>pl_replans := pl_replans s @ [record], pl_revision := pl_revision s + 1\<rparr>;
          s3 = (case dget (pl_artifacts s) target of None \<Rightarrow> s2
                | Some a \<Rightarrow> s2\<lparr>pl_resume := dset target (a, used_llm (last_result target s2)) (pl_resume s2)\<rparr>);
          s4 = cut_back target (s3\<lparr>pl_resume := filter (\<lambda>(k, _). k \<le> target) (pl_resume s3)\<rparr>);
          s5 = note_event ''replan_scheduled'' p s4
      in case turn of None \<Rightarrow> s5
         | Some j \<Rightarrow> note_event ''recovery_action_started'' p
             (set_turn j (\<lambda>t. t\<lparr>tn_status := Acted, tn_revision := pl_revision s5\<rparr>) s5))"

definition schedule_replan ::
  "('a, 'r, 'w) services \<Rightarrow> ('a, 'r, 'w) driver \<Rightarrow> ('a, 'r, 'w) step_ops \<Rightarrow> step_result \<Rightarrow> fail_score \<Rightarrow> nat option
     \<Rightarrow> pipeline_step \<Rightarrow> nat \<Rightarrow> (('a, 'r, 'w) pipeline, unit) act" where
  "schedule_replan C V P r before turn target uses s =
     run_then (capture_baseline C (cx_new_id C (pl_world s))) (\<lambda>b t.
       report_progress C
         (launch_replan (so_step P) turn target (new_replan C V (so_step P) r before turn target uses b t) t)) s"

text \<open>No replan is possible: what was planned or scheduled ends.\<close>

definition no_evidence_text :: string where
  "no_evidence_text = ''Human evidence or a decision is required; no gate was waived.''"

definition unscheduled_text :: string where
  "unscheduled_text = ''The selected action could not be scheduled within the validated target and recovery budgets.''"

definition end_recovery ::
  "pipeline_step \<Rightarrow> fail_score \<Rightarrow> bool \<Rightarrow> nat option \<Rightarrow> ('a, 'r, 'w) pipeline \<Rightarrow> ('a, 'r, 'w) pipeline" where
  "end_recovery p before spent turn s =
     (let s1 = (case pending_replan p s of
                  None \<Rightarrow> s
                | Some i \<Rightarrow> note_event (if spent then ''replan_exhausted'' else ''replan_stagnated'') p
                    (set_replan i (\<lambda>r. r\<lparr>rn_status := (if spent then Exhausted else Stagnated), rn_after := Some before\<rparr>) s))
      in case turn of
           None \<Rightarrow> s1
         | Some j \<Rightarrow>
             if tn_status (pl_turns s1 ! j) = Planned then
               (let human = (dc_action (tn_decision (pl_turns s1 ! j)) = AskHuman) in
                note_event (if human then ''human_input_required'' else ''recovery_exhausted'') p
                  (set_turn j (\<lambda>t. t\<lparr>tn_status := (if human then AwaitingHuman else TurnExhausted), tn_after := Some before,
                     tn_observation := (if human then no_evidence_text else unscheduled_text)\<rparr>) s1))
             else s1)"

subsection \<open>The loop\<close>

text \<open>Where the loop goes: on with an index and the completed steps, or out.\<close>

datatype next_move = Onward nat "pipeline_step list" | Halt

definition go_on :: "nat \<Rightarrow> (('a, 'r, 'w) pipeline, next_move) act" where
  "go_on i s = (Inr (Onward i (completed_steps s)), s)"

definition has_baseline :: "nat option \<Rightarrow> ('a, 'r, 'w) pipeline \<Rightarrow> bool" where
  "has_baseline i s = (case i of None \<Rightarrow> False | Some k \<Rightarrow> rn_baseline (pl_replans s ! k) \<noteq> None)"

definition extends_candidate ::
  "('a, 'r, 'w) services \<Rightarrow> ('a, 'r, 'w) step_ops \<Rightarrow> nat option \<Rightarrow> step_result \<Rightarrow> ('a, 'r, 'w) pipeline \<Rightarrow> bool" where
  "extends_candidate C P replan r s =
     (has_baseline replan s \<and> rn_intermediate (pl_replans s ! the replan) < max 0 (cx_max_intermediate C) \<and>
      cx_agentic C \<and> cx_client C \<and> \<not> cx_offline C \<and> \<not> st_execution_blocked r \<and>
      dget (pl_artifacts s) (so_step P) \<noteq> None)"

text \<open>After the turn, if one was planned: a replan when one is possible, else the end.\<close>

definition replan_or_end ::
  "('a, 'r, 'w) services \<Rightarrow> ('a, 'r, 'w) driver \<Rightarrow> ('a, 'r, 'w) step_ops list \<Rightarrow> ('a, 'r, 'w) step_ops \<Rightarrow> nat option
     \<Rightarrow> pipeline_step option \<Rightarrow> fail_score \<Rightarrow> nat option \<times> step_result \<times> string list
     \<Rightarrow> (('a, 'r, 'w) pipeline, next_move) act" where
  "replan_or_end C V pipe P replan suggested before planned s =
     (case planned of (turn, r, ids) \<Rightarrow>
        (case rollback_choice turn suggested s of
           Inl e \<Rightarrow> (Inl e, s)
         | Inr target \<Rightarrow>
             (let p = so_step P;
                  fp = fingerprint_of C (case target of None \<Rightarrow> None | Some t \<Rightarrow> dget (pl_artifacts s) t);
                  uses = length (prior_replans p fp ids s); limit = replan_limit C p target
              in if target \<noteq> None \<and> the target < p \<and> int uses < limit then
                   run_then (schedule_replan C V P r before turn (the target) uses) (\<lambda>_. go_on (order_index (the target))) s
                 else
                   (let s1 = end_recovery p before (int uses \<ge> limit) turn s in
                    if has_baseline replan s1 then
                      run_then (reject_replan C pipe (the replan) r) go_on s1
                    else
                      run_then (call_completed V r) (\<lambda>_. give Halt)
                        (note_events (map failure_event (st_failures r)) p s1)))))"

definition recover ::
  "('a, 'r, 'w) services \<Rightarrow> ('a, 'r, 'w) driver \<Rightarrow> ('a, 'r, 'w) step_ops list \<Rightarrow> nat \<Rightarrow> ('a, 'r, 'w) step_ops \<Rightarrow> nat option
     \<Rightarrow> step_result \<Rightarrow> (('a, 'r, 'w) pipeline, next_move) act" where
  "recover C V pipe index P replan r s =
     (let extend = extends_candidate C P replan r s in
      if has_baseline replan s \<and> \<not> extend then run_then (reject_replan C pipe (the replan) r) go_on s
      else
        (let s1 = (if extend then set_replan (the replan) (\<lambda>x. x\<lparr>rn_intermediate := rn_intermediate x + 1\<rparr>) s else s);
             options = recovery_options C V P r (replan \<noteq> None) s1; before = score_of pipe s1 r
         in if agentic_budget C (related_turns (so_step P) (failure_ids r) s1) s1 then
              run_then (plan_turn C V P r options before) (\<lambda>(j, r', ids) s2.
                if starts_candidate (pl_turns s2 ! j) then run_then (act_turn C P j r') (\<lambda>_. go_on index) s2
                else replan_or_end C V pipe P replan (fst (snd options)) before (Some j, r', ids) s2) s1
            else replan_or_end C V pipe P replan (fst (snd options)) before (None, r, failure_ids r) s1))"

definition drive_step ::
  "('a, 'r, 'w) engine \<Rightarrow> ('a, 'r, 'w) services \<Rightarrow> ('a, 'r, 'w) driver \<Rightarrow> ('a, 'r, 'w) step_ops list \<Rightarrow> nat
     \<Rightarrow> pipeline_step list \<Rightarrow> ('a, 'r, 'w) step_ops \<Rightarrow> (('a, 'r, 'w) pipeline, next_move) act" where
  "drive_step run C V pipe index finished P s =
     (let p = so_step P; replan = active_replan p s; turn = active_turn p s in
      run_then (attempt_step run C V P (replan \<noteq> None \<or> turn \<noteq> None) (nat (max 0 (cx_execution_retries C)))) (\<lambda>r.
      run_then (case turn of None \<Rightarrow> give False | Some j \<Rightarrow> settle_turn C V pipe j r) (\<lambda>undone s1.
        if undone then go_on (order_index (tn_step (pl_turns s1 ! the turn))) s1
        else if can_continue C r then
          run_then (pass_gate C V p r) (\<lambda>_. give (Onward (index + 1) (finished @ [p]))) s1
        else if cx_draft_first C then run_then (report_progress C) (\<lambda>_. give Halt) s1
        else if st_blocked r then recover C V pipe index P replan r s1
        else (Inr (Onward index finished), s1))) (instruct p replan turn s))"

text \<open>\<open>None\<close>: the fuel did not suffice.\<close>

fun drive ::
  "('a, 'r, 'w) engine \<Rightarrow> ('a, 'r, 'w) services \<Rightarrow> ('a, 'r, 'w) driver \<Rightarrow> ('a, 'r, 'w) step_ops list \<Rightarrow> nat \<Rightarrow> nat
     \<Rightarrow> nat \<Rightarrow> pipeline_step list \<Rightarrow> ('a, 'r, 'w) pipeline \<Rightarrow> ((step_error, unit) result \<times> ('a, 'r, 'w) pipeline) option" where
  "drive run C V pipe limit 0 index finished s = None"
| "drive run C V pipe limit (Suc fuel) index finished s =
     (if index < length pipe \<and> order_index (so_step (pipe ! index)) \<le> limit then
        (if so_step (pipe ! index) \<in> set finished then drive run C V pipe limit fuel (index + 1) finished s
         else (case drive_step run C V pipe index finished (pipe ! index) s of
                 (Inl e, t) \<Rightarrow> Some (Inl e, t)
               | (Inr Halt, t) \<Rightarrow> Some (Inr (), t)
               | (Inr (Onward i f), t) \<Rightarrow> drive run C V pipe limit fuel i f t))
      else Some (Inr (), s))"

definition valid_order :: "('a, 'r, 'w) step_ops list \<Rightarrow> bool" where
  "valid_order pipe = (map so_step pipe = prefix_steps (length pipe))"

definition limit_index :: "('a, 'r, 'w) step_ops list \<Rightarrow> pipeline_step option \<Rightarrow> nat" where
  "limit_index pipe until = (case until of Some p \<Rightarrow> order_index p | None \<Rightarrow> length pipe - 1)"

definition pipeline_run ::
  "('a, 'r, 'w) engine \<Rightarrow> ('a, 'r, 'w) services \<Rightarrow> ('a, 'r, 'w) driver \<Rightarrow> ('a, 'r, 'w) step_ops list
     \<Rightarrow> pipeline_step option \<Rightarrow> nat \<Rightarrow> ('a, 'r, 'w) pipeline
     \<Rightarrow> ((step_error, unit) result \<times> ('a, 'r, 'w) pipeline) option" where
  "pipeline_run run C V pipe until fuel s =
     (case prologue C s of
        (Inl e, t) \<Rightarrow> Some (Inl e, t)
      | (Inr _, t) \<Rightarrow> drive run C V pipe (limit_index pipe until) fuel 0 (completed_steps t) t)"

end
