(* ===== verification/DriverOutcomes.thy ===== *)
theory DriverOutcomes
  imports PipelineDriver
begin

text \<open>
  A calculus of outcomes for the driver (\<open>outcome_in\<close>: what holds after an action returned, and after
  it raised), and what its parts do to the results and to the audit: going back, passing a gate,
  the verdict on a turn, planning, acting and scheduling.
\<close>

subsection \<open>Outcomes of an action\<close>

definition outcome_in :: "('x \<Rightarrow> 's \<Rightarrow> bool) \<Rightarrow> ('s \<Rightarrow> bool) \<Rightarrow> (step_error, 'x) result \<times> 's \<Rightarrow> bool" where
  "outcome_in Q E p = (case p of (Inr x, t) \<Rightarrow> Q x t | (Inl _, t) \<Rightarrow> E t)"

named_theorems outcome_rules \<open>what an action of the driver guarantees\<close>

lemma outcome_simps [simp]:
  "outcome_in Q E (Inr x, t) = Q x t" "outcome_in Q E (Inl e, t) = E t" "outcome_in Q E (give x t) = Q x t"
  by (simp_all add: outcome_in_def give_def)

lemma outcome_go_on [simp]: "outcome_in Q E (go_on i t) = Q (Onward i (completed_steps t)) t"
  by (simp add: go_on_def)

lemma outcome_then:
  assumes "outcome_in R E (f s)" and "\<And>x t. f s = (Inr x, t) \<Longrightarrow> R x t \<Longrightarrow> outcome_in Q E (k x t)"
  shows "outcome_in Q E (run_then f k s)"
  using assms by (auto simp: run_then_def outcome_in_def split: prod.splits sum.splits)

lemma outcome_mono:
  assumes "outcome_in R F p" and "\<And>x t. p = (Inr x, t) \<Longrightarrow> R x t \<Longrightarrow> Q x t" and "\<And>t. F t \<Longrightarrow> E t"
  shows "outcome_in Q E p"
  using assms by (auto simp: outcome_in_def split: prod.splits sum.splits)

lemma outcome_conj: "outcome_in Q E p \<Longrightarrow> outcome_in R F p \<Longrightarrow> outcome_in (\<lambda>x t. Q x t \<and> R x t) (\<lambda>t. E t \<and> F t) p"
  by (auto simp: outcome_in_def split: prod.splits sum.splits)

text \<open>Callbacks change the world only; file operations the directory only.\<close>

lemma outcome_progress [outcome_rules]:
  "outcome_in (\<lambda>_ t. \<exists>w. t = s\<lparr>pl_world := w\<rparr>) (\<lambda>t. \<exists>w. t = s\<lparr>pl_world := w\<rparr>) (report_progress C s)"
  by (auto simp: report_progress_def outcome_in_def split: prod.splits sum.splits)

lemma outcome_completed [outcome_rules]:
  "outcome_in (\<lambda>_ t. \<exists>w. t = s\<lparr>pl_world := w\<rparr>) (\<lambda>t. \<exists>w. t = s\<lparr>pl_world := w\<rparr>) (call_completed V r s)"
  by (auto simp: call_completed_def outcome_in_def split: prod.splits sum.splits)

lemma outcome_commit [outcome_rules]:
  "outcome_in (\<lambda>_ t. \<exists>d. t = s\<lparr>pl_dir := d\<rparr>) (\<lambda>t. t = s) (commit_baseline C b s)"
proof -
  have "\<exists>d. s = s\<lparr>pl_dir := d\<rparr>" by (rule exI[of _ "pl_dir s"]) simp
  then show ?thesis
    by (auto simp: commit_baseline_def discard_files_def outcome_in_def give_def split: option.splits sum.splits)
qed

lemma outcome_restore [outcome_rules]:
  "outcome_in (\<lambda>_ t. \<exists>d. t = s\<lparr>pl_dir := d, pl_results := bl_results b, pl_artifacts := bl_artifacts b,
       pl_resume := bl_resume b, pl_rest := bl_rest b, pl_gaps := bl_gaps b\<rparr>)
     (\<lambda>t. \<exists>d. t = s\<lparr>pl_dir := d\<rparr>) (restore_baseline C b s)"
  by (auto simp: restore_baseline_def restore_files_def run_then_def outcome_in_def split: prod.splits sum.splits)

lemma outcome_capture [outcome_rules]:
  "outcome_in (\<lambda>b t. (\<exists>d. t = s\<lparr>pl_dir := d\<rparr>) \<and> bl_results b = pl_results s \<and> bl_artifacts b = pl_artifacts s)
     (\<lambda>t. False) (capture_baseline C label s)"
  by (auto simp: capture_baseline_def snapshot_files_def run_then_def outcome_in_def split: prod.splits sum.splits)

lemma last_index_set: "set (filter (\<lambda>i. P (xs ! i)) (rev [0..<length xs])) = {i. i < length xs \<and> P (xs ! i)}"
  by auto

lemma last_index_Some: "last_index P xs = Some i \<Longrightarrow> i < length xs \<and> P (xs ! i)"
proof -
  assume "last_index P xs = Some i"
  then obtain js where "filter (\<lambda>i. P (xs ! i)) (rev [0..<length xs]) = i # js"
    by (auto simp: last_index_def split: list.splits)
  then have "i \<in> set (filter (\<lambda>i. P (xs ! i)) (rev [0..<length xs]))" by (simp only: list.set_intros)
  then show ?thesis unfolding last_index_set by simp
qed

lemma last_index_None: "last_index P xs = None \<longleftrightarrow> \<not> list_ex P xs"
proof -
  have "last_index P xs = None \<longleftrightarrow> set (filter (\<lambda>i. P (xs ! i)) (rev [0..<length xs])) = {}"
    unfolding last_index_def set_empty by (simp split: list.splits)
  then show ?thesis unfolding last_index_set by (auto simp: list_ex_length)
qed

subsection \<open>The gate invariant\<close>

definition passable :: "('a, 'r, 'w) services \<Rightarrow> step_result \<Rightarrow> bool" where
  "passable C r = (\<not> st_blocked r \<or> (cx_artifact_first C \<and> \<not> st_execution_blocked r))"

definition prefix_results :: "step_result list \<Rightarrow> bool" where
  "prefix_results rs = (map st_step rs = prefix_steps (length rs))"

text \<open>A baseline stored for a step: the results up to and with that step, all before it passed.\<close>

definition baseline_ok :: "('a, 'r, 'w) services \<Rightarrow> pipeline_step \<Rightarrow> ('a, 'r) baseline \<Rightarrow> bool" where
  "baseline_ok C p b =
     (map st_step (bl_results b) = prefix_steps (Suc (order_index p)) \<and> list_all (passable C) (butlast (bl_results b)))"

definition history_ok :: "('a, 'r, 'w) services \<Rightarrow> ('a, 'r, 'w) pipeline \<Rightarrow> bool" where
  "history_ok C s =
     ((\<forall>x \<in> set (pl_replans s). \<forall>b. rn_baseline x = Some b \<longrightarrow> baseline_ok C (rn_trigger x) b) \<and>
      (\<forall>x \<in> set (pl_turns s). \<forall>b. tn_baseline x = Some b \<longrightarrow> baseline_ok C (tn_step x) b))"

text \<open>At the head of the loop; after the step \<open>p\<close> ran with the result \<open>r\<close>; in any final state.\<close>

definition ready :: "('a, 'r, 'w) services \<Rightarrow> ('a, 'r, 'w) pipeline \<Rightarrow> bool" where
  "ready C s = (prefix_results (pl_results s) \<and> list_all (passable C) (pl_results s) \<and> history_ok C s)"

definition just_ran :: "('a, 'r, 'w) services \<Rightarrow> pipeline_step \<Rightarrow> step_result \<Rightarrow> ('a, 'r, 'w) pipeline \<Rightarrow> bool" where
  "just_ran C p r s =
     (map st_step (pl_results s) = prefix_steps (Suc (order_index p)) \<and> list_all (passable C) (butlast (pl_results s)) \<and>
      gate (last (pl_results s)) = gate r \<and> st_step r = p \<and> history_ok C s)"

definition halted :: "('a, 'r, 'w) services \<Rightarrow> ('a, 'r, 'w) pipeline \<Rightarrow> bool" where
  "halted C s = (prefix_results (pl_results s) \<and> list_all (passable C) (butlast (pl_results s)))"

lemma history_updates [simp]:
  "history_ok C (s\<lparr>pl_artifacts := a\<rparr>) = history_ok C s" "history_ok C (s\<lparr>pl_resume := b\<rparr>) = history_ok C s"
  "history_ok C (s\<lparr>pl_rest := c\<rparr>) = history_ok C s" "history_ok C (s\<lparr>pl_world := d\<rparr>) = history_ok C s"
  "history_ok C (s\<lparr>pl_results := rs\<rparr>) = history_ok C s" "history_ok C (s\<lparr>pl_dir := f\<rparr>) = history_ok C s"
  "history_ok C (s\<lparr>pl_revision := n\<rparr>) = history_ok C s" "history_ok C (s\<lparr>pl_gaps := g\<rparr>) = history_ok C s"
  "history_ok C (note_event e q s) = history_ok C s" "history_ok C (clear_feedback s) = history_ok C s"
  "history_ok C (cut_back p s) = history_ok C s" "history_ok C (reopen_failed_step p s) = history_ok C s"
  "history_ok C (note_events es q s) = history_ok C s" "history_ok C (set_last_result r s) = history_ok C s"
  by (simp_all add: history_ok_def note_event_def clear_feedback_def cut_back_def reopen_failed_step_def
      note_events_eq set_last_result_def split: option.splits)

lemma results_updates [simp]:
  "pl_results (note_event e q s) = pl_results s" "pl_results (clear_feedback s) = pl_results s"
  "pl_results (set_replan i f s) = pl_results s" "pl_results (set_turn j g s) = pl_results s"
  "pl_turns (set_replan i f s) = pl_turns s" "pl_replans (set_turn j g s) = pl_replans s"
  "pl_results (reopen_failed_step p s) = filter (\<lambda>r. st_step r < p) (pl_results s)"
  "pl_results (cut_back p s) = filter (\<lambda>r. st_step r < p) (pl_results s)"
  by (simp_all add: note_event_def clear_feedback_def set_replan_def set_turn_def reopen_failed_step_def
      cut_back_def split: option.splits)

lemma history_set_replan:
  assumes "history_ok C s"
    and "i < length (pl_replans s) \<Longrightarrow> rn_trigger (f (pl_replans s ! i)) = rn_trigger (pl_replans s ! i) \<and>
      (rn_baseline (f (pl_replans s ! i)) = None \<or> rn_baseline (f (pl_replans s ! i)) = rn_baseline (pl_replans s ! i))"
  shows "history_ok C (set_replan i f s)"
proof (cases "i < length (pl_replans s)")
  case True
  then have "pl_replans s ! i \<in> set (pl_replans s)" by simp
  then show ?thesis using assms(1) assms(2)[OF True]
    by (fastforce simp: history_ok_def set_replan_def dest!: subsetD[OF set_update_subset_insert])
next
  case False
  then show ?thesis using assms(1) by (simp add: set_replan_def history_ok_def not_less list_update_beyond)
qed

lemma history_set_turn:
  assumes "history_ok C s"
    and "j < length (pl_turns s) \<Longrightarrow> tn_step (f (pl_turns s ! j)) = tn_step (pl_turns s ! j) \<and>
      (case tn_baseline (f (pl_turns s ! j)) of None \<Rightarrow> True
       | Some b \<Rightarrow> tn_baseline (pl_turns s ! j) = Some b \<or> baseline_ok C (tn_step (pl_turns s ! j)) b)"
  shows "history_ok C (set_turn j f s)"
proof (cases "j < length (pl_turns s)")
  case True
  then have "pl_turns s ! j \<in> set (pl_turns s)" by simp
  then show ?thesis using assms(1) assms(2)[OF True]
    by (fastforce simp: history_ok_def set_turn_def split: option.splits dest!: subsetD[OF set_update_subset_insert])
next
  case False
  then show ?thesis using assms(1) by (simp add: set_turn_def history_ok_def not_less list_update_beyond)
qed

subsection \<open>Prefixes\<close>

lemma prefix_before:
  assumes "map st_step rs = prefix_steps n" and "order_index p \<le> n"
  shows "map st_step (filter (\<lambda>r. st_step r < p) rs) = prefix_steps (order_index p)"
    and "length (filter (\<lambda>r. st_step r < p) rs) = order_index p"
proof -
  have "map st_step (filter (\<lambda>r. st_step r < p) rs) = filter (\<lambda>q. q < p) (map st_step rs)"
    by (simp add: filter_map o_def)
  also have "\<dots> = filter (\<lambda>q. q < p) (prefix_steps n)" using assms(1) by simp
  also have "\<dots> = prefix_steps (order_index p)"
  proof -
    have n: "prefix_steps n = prefix_steps (order_index p) @ drop (order_index p) (prefix_steps n)"
      using append_take_drop_id[of "order_index p" "prefix_steps n"] assms(2) by (simp add: take_take min_def)
    have low: "q < p" if "q \<in> set (prefix_steps (order_index p))" for q
      using that by (simp add: set_prefix_steps less_pipeline_step_def)
    have high: "\<not> q < p" if "q \<in> set (drop (order_index p) (prefix_steps n))" for q
    proof -
      have "distinct (prefix_steps (order_index p) @ drop (order_index p) (prefix_steps n))"
        unfolding n[symmetric] by simp
      then have "q \<notin> set (prefix_steps (order_index p))" using that by auto
      then show ?thesis by (simp add: set_prefix_steps less_pipeline_step_def)
    qed
    show ?thesis by (subst n) (simp add: low high filter_id_conv filter_empty_conv)
  qed
  finally show pre: "map st_step (filter (\<lambda>r. st_step r < p) rs) = prefix_steps (order_index p)" .
  have "length (prefix_steps (order_index p)) = order_index p"
    using order_index_less[of p] by (simp add: length_canonical)
  then show "length (filter (\<lambda>r. st_step r < p) rs) = order_index p"
    using arg_cong[OF pre, of length] by simp
qed

lemma prefix_length:
  assumes "map st_step rs = prefix_steps (Suc (order_index p))"
  shows "length rs = Suc (order_index p)"
  using arg_cong[OF assms, of length] order_index_less[of p] by simp

lemma list_all_butlast_filter:
  assumes "list_all P (butlast rs)" and "rs \<noteq> [] \<Longrightarrow> \<not> Q (last rs)"
  shows "list_all P (filter Q rs)"
proof (cases "rs = []")
  case False
  then have "filter Q rs = filter Q (butlast rs @ [last rs])" by simp
  also have "\<dots> = filter Q (butlast rs)" using assms(2)[OF False] by (simp del: append_butlast_last_id)
  finally show ?thesis using assms(1) by (auto simp: list_all_iff)
qed simp

lemma prefix_last:
  assumes "map st_step rs = prefix_steps (Suc (order_index p))"
  shows "rs \<noteq> []" and "st_step (last rs) = p" and "map st_step (butlast rs) = prefix_steps (order_index p)"
proof -
  have len: "length rs = Suc (order_index p)" by (rule prefix_length[OF assms])
  then show ne: "rs \<noteq> []" by auto
  have "st_step (last rs) = map st_step rs ! order_index p" using len ne by (simp add: last_conv_nth)
  also have "\<dots> = p" unfolding assms using order_index_less[of p] by (simp add: canonical_nth)
  finally show "st_step (last rs) = p" .
  have "map st_step (butlast rs) = butlast (prefix_steps (Suc (order_index p)))" using assms by (simp add: map_butlast)
  then show "map st_step (butlast rs) = prefix_steps (order_index p)"
    using order_index_less[of p] by (simp add: butlast_take length_canonical)
qed

subsection \<open>What each action keeps\<close>

lemma ran_updates [simp]:
  "just_ran C p r (s\<lparr>pl_world := w\<rparr>) = just_ran C p r s" "just_ran C p r (s\<lparr>pl_dir := d\<rparr>) = just_ran C p r s"
  "just_ran C p r (note_event e q s) = just_ran C p r s" "just_ran C p r (s\<lparr>pl_revision := n\<rparr>) = just_ran C p r s"
  "just_ran C p r (clear_feedback s) = just_ran C p r s" "just_ran C p r (note_events es q s) = just_ran C p r s"
  "ready C (s\<lparr>pl_world := w\<rparr>) = ready C s" "ready C (s\<lparr>pl_dir := d\<rparr>) = ready C s"
  "ready C (note_event e q s) = ready C s" "ready C (clear_feedback s) = ready C s"
  "ready C (s\<lparr>pl_artifacts := a\<rparr>) = ready C s" "ready C (s\<lparr>pl_resume := b\<rparr>) = ready C s"
  "halted C (s\<lparr>pl_world := w\<rparr>) = halted C s" "halted C (s\<lparr>pl_dir := d\<rparr>) = halted C s"
  "halted C (note_event e q s) = halted C s" "halted C (note_events es q s) = halted C s"
  "halted C (clear_feedback s) = halted C s"
  "halted C (set_turn j g s) = halted C s" "halted C (set_replan i f s) = halted C s"
  "halted C (s\<lparr>pl_artifacts := a\<rparr>) = halted C s" "halted C (s\<lparr>pl_resume := b\<rparr>) = halted C s"
  by (simp_all add: just_ran_def ready_def halted_def)

lemma ran_halted: "just_ran C p r s \<Longrightarrow> halted C s"
  by (simp add: just_ran_def halted_def prefix_results_def prefix_length)

lemma ready_halted: "ready C s \<Longrightarrow> halted C s"
  by (auto simp: ready_def halted_def list_all_iff dest: in_set_butlastD)

lemma gate_simps [simp]:
  "st_blocked (gate r) = st_blocked r" "st_execution_blocked (gate r) = st_execution_blocked r" "st_step (gate r) = st_step r"
  by (simp_all add: gate_def)

lemma gate_same:
  "gate r = gate q \<Longrightarrow> st_blocked r = st_blocked q \<and> st_execution_blocked r = st_execution_blocked q \<and> st_step r = st_step q"
  by (metis gate_simps)

lemma ran_result:
  assumes "just_ran C p r s"
  shows "st_blocked (last (pl_results s)) = st_blocked r" "st_execution_blocked (last (pl_results s)) = st_execution_blocked r"
    "length (pl_results s) = Suc (order_index p)" "pl_results s \<noteq> []" "st_step (last (pl_results s)) = p"
proof -
  have m: "map st_step (pl_results s) = prefix_steps (Suc (order_index p))" using assms by (simp add: just_ran_def)
  have "gate (last (pl_results s)) = gate r" using assms by (simp add: just_ran_def)
  then show "st_blocked (last (pl_results s)) = st_blocked r"
    "st_execution_blocked (last (pl_results s)) = st_execution_blocked r"
    using gate_same by blast+
  show "length (pl_results s) = Suc (order_index p)" "pl_results s \<noteq> []" "st_step (last (pl_results s)) = p"
    by (rule prefix_length[OF m] prefix_last(1)[OF m] prefix_last(2)[OF m])+
qed

text \<open>Going back from any state whose results reach the step: everything before it passed.\<close>

lemma back_ready:
  assumes res: "map st_step rs = prefix_steps (Suc (order_index q))" "list_all (passable C) (butlast rs)"
    and "history_ok C s" and "p \<le> q" and "pl_results s = filter (\<lambda>r. st_step r < p) rs"
  shows "ready C s" and "length (pl_results s) = order_index p"
proof -
  have le: "order_index p \<le> Suc (order_index q)" using assms(4) by (simp add: less_eq_pipeline_step_def)
  note pre = prefix_before[OF res(1) le]
  show len: "length (pl_results s) = order_index p" using pre(2) assms(5) by simp
  have "\<not> st_step (last rs) < p" using prefix_last(2)[OF res(1)] assms(4) by simp
  then have "list_all (passable C) (pl_results s)"
    using list_all_butlast_filter[OF res(2), of "\<lambda>r. st_step r < p"] assms(5) by simp
  then show "ready C s" using pre assms(3,5) len by (simp add: ready_def prefix_results_def)
qed

lemma butlast_ready:
  assumes "just_ran C p r s" and "pl_results t = butlast (pl_results s)" and "history_ok C t"
  shows "ready C t" and "length (pl_results t) = order_index p"
proof -
  have m: "map st_step (pl_results s) = prefix_steps (Suc (order_index p))" using assms(1) by (simp add: just_ran_def)
  have len: "length (butlast (pl_results s)) = order_index p" using ran_result(3)[OF assms(1)] by simp
  then show "length (pl_results t) = order_index p" using assms(2) by simp
  then show "ready C t" using assms prefix_last(3)[OF m] by (simp add: ready_def prefix_results_def just_ran_def)
qed

lemma ran_ready:
  assumes "just_ran C p r s" and "passable C r"
  shows "ready C s" and "length (pl_results s) = Suc (order_index p)"
proof -
  note last = ran_result[OF assms(1)]
  have "passable C (last (pl_results s))" using assms(2) last(1,2) by (simp add: passable_def)
  moreover have "list_all (passable C) (butlast (pl_results s))" using assms(1) by (simp add: just_ran_def)
  ultimately have "list_all (passable C) (butlast (pl_results s) @ [last (pl_results s)])" by simp
  then have "list_all (passable C) (pl_results s)" using last(4) by simp
  then show "ready C s" using ran_halted[OF assms(1)] assms(1) by (simp add: ready_def halted_def just_ran_def)
qed (rule ran_result(3)[OF assms(1)])

definition reached :: "('a, 'r, 'w) services \<Rightarrow> nat \<Rightarrow> ('a, 'r, 'w) pipeline \<Rightarrow> bool" where
  "reached C i s = (ready C s \<and> length (pl_results s) = i)"

lemma reached_updates [simp]:
  "reached C i (s\<lparr>pl_world := w\<rparr>) = reached C i s" "reached C i (note_event e q s) = reached C i s"
  "reached C i (s\<lparr>pl_dir := d\<rparr>) = reached C i s"
  by (simp_all add: reached_def)

lemma reached_halted: "reached C i s \<Longrightarrow> halted C s"
  by (simp add: reached_def ready_halted)

lemma outcome_progress_to:
  "Q () s \<Longrightarrow> (\<And>w. Q () (s\<lparr>pl_world := w\<rparr>) = Q () s) \<Longrightarrow> (\<And>w. E (s\<lparr>pl_world := w\<rparr>)) \<Longrightarrow>
   outcome_in Q E (report_progress C s)"
  by (rule outcome_mono[OF outcome_progress]) auto

text \<open>Rejecting a replan.\<close>

lemma close_reached:
  assumes "history_ok C s" and "pl_results s = bl_results b" and "baseline_ok C p b"
  shows "reached C (order_index p) (close_rejected i p after failed s)"
proof -
  define s1 where "s1 = set_replan i (\<lambda>r. r\<lparr>rn_baseline := None\<rparr>) s"
  have s1: "history_ok C s1" "pl_results s1 = bl_results b"
    unfolding s1_def using assms by (auto intro: history_set_replan)
  define s2 where "s2 = (case last_index (\<lambda>t. tn_status t = Acted \<and> tn_step t = p \<and> dc_action (tn_decision t) = ReplanUpstream)
        (pl_turns s1) of None \<Rightarrow> s1
      | Some j \<Rightarrow> note_event ''recovery_observed'' p
          (set_turn j (\<lambda>t. t\<lparr>tn_status := TurnRejected, tn_after := Some after, tn_observation := rejected_upstream failed\<rparr>) s1))"
  have s2: "history_ok C s2" "pl_results s2 = bl_results b"
    unfolding s2_def using s1 by (auto intro!: history_set_turn split: option.splits)
  have "close_rejected i p after failed s = reopen_failed_step p (note_event ''replan_stagnated'' p s2)"
    unfolding close_rejected_def Let_def s1_def[symmetric] s2_def[symmetric] ..
  then show ?thesis
    using assms(3) s2 back_ready[of "bl_results b" p C "reopen_failed_step p (note_event ''replan_stagnated'' p s2)" p]
    by (simp add: reached_def baseline_ok_def)
qed

lemma reject_outcome [outcome_rules]:
  assumes "history_ok C s" and "halted C s" and i: "i < length (pl_replans s)" "rn_baseline (pl_replans s ! i) \<noteq> None"
  shows "outcome_in (\<lambda>k t. reached C k t) (halted C) (reject_replan C pipe i failed s)"
proof -
  let ?after = "score_of pipe s failed" and ?p = "rn_trigger (pl_replans s ! i)"
  define s1 where "s1 = set_replan i (\<lambda>r. r\<lparr>rn_status := Stagnated, rn_after := Some ?after\<rparr>) s"
  from i obtain b where b: "rn_baseline (pl_replans s ! i) = Some b" by auto
  have h1: "history_ok C s1" unfolding s1_def by (rule history_set_replan[OF assms(1)]) simp
  have ok: "baseline_ok C ?p b" using assms(1) b nth_mem[OF i(1)] by (auto simp: history_ok_def)
  show ?thesis
    unfolding reject_replan_def Let_def s1_def[symmetric] b option.case
  proof (rule outcome_then[OF outcome_mono[OF outcome_restore]])
    fix t assume "\<exists>d. t = s1\<lparr>pl_dir := d\<rparr>"
    then show "halted C t" using assms(2) by (auto simp: s1_def)
  next
    fix x t
    assume "\<exists>d. t = s1\<lparr>pl_dir := d, pl_results := bl_results b, pl_artifacts := bl_artifacts b,
       pl_resume := bl_resume b, pl_rest := bl_rest b, pl_gaps := bl_gaps b\<rparr>"
    then have "history_ok C t" "pl_results t = bl_results b" using h1 by auto
    note reached = close_reached[OF this ok, of i ?after failed]
    then show "outcome_in (\<lambda>k t. reached C k t) (halted C)
        (run_then (report_progress C) (\<lambda>_. give (order_index ?p)) (close_rejected i ?p ?after failed t))"
      by (intro outcome_then[OF outcome_progress_to[of "\<lambda>_. reached C (order_index ?p)"]]) (use reached_halted[OF reached] in auto)
  qed auto
qed

subsection \<open>Judging, passing, planning\<close>

definition in_turns :: "nat \<Rightarrow> pipeline_step \<Rightarrow> ('a, 'r, 'w) pipeline \<Rightarrow> bool" where
  "in_turns j p s = (j < length (pl_turns s) \<and> tn_step (pl_turns s ! j) = p)"

lemma set_turn_nth [simp]: "j < length (pl_turns s) \<Longrightarrow> pl_turns (set_turn j f s) ! j = f (pl_turns s ! j)"
  by (simp add: set_turn_def)

lemma turns_kept [simp]:
  "length (pl_turns (set_turn j f s)) = length (pl_turns s)" "pl_turns (note_event e q s) = pl_turns s"
  "pl_turns (reopen_failed_step p s) = pl_turns s" "pl_turns (clear_feedback s) = pl_turns s"
  "pl_replans (note_event e q s) = pl_replans s" "pl_replans (reopen_failed_step p s) = pl_replans s"
  "pl_replans (clear_feedback s) = pl_replans s" "length (pl_replans (set_replan i g s)) = length (pl_replans s)"
  "pl_turns (cut_back p s) = pl_turns s" "pl_replans (cut_back p s) = pl_replans s"
  "pl_turns (note_events es q s) = pl_turns s" "pl_replans (note_events es q s) = pl_replans s"
  by (simp_all add: set_turn_def set_replan_def note_event_def reopen_failed_step_def cut_back_def clear_feedback_def
      note_events_eq split: option.splits)

lemma ran_set_turn:
  assumes "just_ran C p r s"
    and "j < length (pl_turns s) \<Longrightarrow> tn_step (f (pl_turns s ! j)) = tn_step (pl_turns s ! j) \<and>
      (case tn_baseline (f (pl_turns s ! j)) of None \<Rightarrow> True
       | Some b \<Rightarrow> tn_baseline (pl_turns s ! j) = Some b \<or> baseline_ok C (tn_step (pl_turns s ! j)) b)"
  shows "just_ran C p r (set_turn j f s)"
proof -
  have "history_ok C (set_turn j f s)"
    by (rule history_set_turn) (use assms(1) in \<open>simp add: just_ran_def\<close>, erule assms(2))
  then show ?thesis using assms(1) by (simp add: just_ran_def)
qed

lemma ran_set_replan:
  assumes "just_ran C p r s"
    and "i < length (pl_replans s) \<Longrightarrow> rn_trigger (f (pl_replans s ! i)) = rn_trigger (pl_replans s ! i) \<and>
      (rn_baseline (f (pl_replans s ! i)) = None \<or> rn_baseline (f (pl_replans s ! i)) = rn_baseline (pl_replans s ! i))"
  shows "just_ran C p r (set_replan i f s)"
proof -
  have "history_ok C (set_replan i f s)"
    by (rule history_set_replan) (use assms(1) in \<open>simp add: just_ran_def\<close>, erule assms(2))
  then show ?thesis using assms(1) by (simp add: just_ran_def)
qed

lemma settle_outcome [outcome_rules]:
  assumes ran: "just_ran C p r s" and j: "in_turns j p s"
  shows "outcome_in (\<lambda>undone t. in_turns j p t \<and> (if undone then reached C (order_index p) t else just_ran C p r t))
    (halted C) (settle_turn C V pipe j r s)"
proof -
  let ?after = "score_of pipe s r" and ?t0 = "pl_turns s ! j" and ?text = "observation_text V s r"
  let ?status = "judge_turn ?t0 ?after (st_execution_blocked r)"
  define s1 where "s1 = set_turn j (\<lambda>t. t\<lparr>tn_after := Some ?after, tn_status := ?status\<rparr>) s"
  define s2 where "s2 = set_turn j (\<lambda>t. t\<lparr>tn_observation := ?text\<rparr>) s1"
  let ?closed = "\<lambda>t. t\<lparr>tn_baseline := None\<rparr>"
  have p: "tn_step ?t0 = p" and len: "j < length (pl_turns s)" using j by (simp_all add: in_turns_def)
  have r1: "just_ran C p r s1" unfolding s1_def by (rule ran_set_turn[OF ran]) (simp split: option.split)
  have r2: "just_ran C p r s2" unfolding s2_def by (rule ran_set_turn[OF r1]) (simp split: option.split)
  have j2: "in_turns j p s2" using len p by (simp add: in_turns_def s2_def s1_def)
  have closed: "just_ran C p r (set_turn j ?closed t)" if "just_ran C p r t" for t
    by (rule ran_set_turn[OF that]) simp
  show ?thesis
  proof (cases "length ?text > 12000")
    case True
    then show ?thesis using ran_halted[OF r1] by (simp add: settle_turn_def Let_def s1_def)
  next
    case False
    note unf = settle_turn_def Let_def s1_def[symmetric] s2_def[symmetric] p
    show ?thesis
    proof (cases "tn_baseline ?t0")
      case None
      then show ?thesis using False r2 j2 by (simp add: unf) (simp add: in_turns_def)
    next
      case (Some b)
      have "?t0 \<in> set (pl_turns s)" using len by simp
      then have b: "baseline_ok C p b" using ran Some p by (auto simp: just_ran_def history_ok_def)
      show ?thesis
      proof (cases "?status \<in> {TurnRejected, TurnError}")
        case True
        have "outcome_in (\<lambda>undone t. in_turns j p t \<and> (if undone then reached C (order_index p) t else just_ran C p r t)) (halted C)
          (run_then (restore_baseline C b) (\<lambda>_ s3. run_then (report_progress C) (\<lambda>_. give True)
             (note_event ''recovery_observed'' p (reopen_failed_step p (set_turn j ?closed s3)))) s2)"
        proof (rule outcome_then[OF outcome_mono[OF outcome_restore]])
          fix t assume "\<exists>d. t = s2\<lparr>pl_dir := d\<rparr>"
          then show "halted C t" using ran_halted[OF r2] by auto
        next
          fix x t
          assume "\<exists>d. t = s2\<lparr>pl_dir := d, pl_results := bl_results b, pl_artifacts := bl_artifacts b,
             pl_resume := bl_resume b, pl_rest := bl_rest b, pl_gaps := bl_gaps b\<rparr>"
          then have t: "history_ok C t" "pl_results t = bl_results b" "pl_turns t = pl_turns s2"
            using r2 by (auto simp: just_ran_def)
          define s4 where "s4 = note_event ''recovery_observed'' p (reopen_failed_step p (set_turn j ?closed t))"
          have "history_ok C (set_turn j ?closed t)" by (rule history_set_turn[OF t(1)]) simp
          then have "reached C (order_index p) s4"
            using b t(2) back_ready[of "bl_results b" p C s4 p] by (simp add: reached_def s4_def baseline_ok_def)
          moreover have "in_turns j p s4" using j2 t(3) by (simp add: in_turns_def s4_def)
          ultimately show "outcome_in (\<lambda>undone t. in_turns j p t \<and> (if undone then reached C (order_index p) t else just_ran C p r t))
              (halted C) (run_then (report_progress C) (\<lambda>_. give True)
                 (note_event ''recovery_observed'' p (reopen_failed_step p (set_turn j ?closed t))))"
            unfolding s4_def[symmetric]
            by (intro outcome_then[OF outcome_progress_to[of "\<lambda>_ t. in_turns j p t \<and> reached C (order_index p) t"]])
               (auto simp: in_turns_def dest: reached_halted)
        qed
        then show ?thesis using False True Some by (simp add: unf del: insert_iff)
      next
        case ok: False
        have "outcome_in (\<lambda>undone t. in_turns j p t \<and> (if undone then reached C (order_index p) t else just_ran C p r t)) (halted C)
          (run_then (commit_baseline C (Some b)) (\<lambda>_ s3. (Inr False, note_event ''recovery_observed'' p (set_turn j ?closed s3))) s2)"
          by (rule outcome_then[OF outcome_mono[OF outcome_commit]])
             (use r2 j2 closed ran_halted[OF r2] in \<open>auto simp: in_turns_def\<close>)
        then show ?thesis using False ok Some by (simp add: unf del: insert_iff)
      qed
    qed
  qed
qed

lemma pass_outcome [outcome_rules]:
  assumes ran: "just_ran C p r s" and "passable C r"
  shows "outcome_in (\<lambda>_ t. reached C (Suc (order_index p)) t \<and> completed_steps t = prefix_steps (Suc (order_index p)))
    (halted C) (pass_gate C V p r s)"
proof -
  let ?Q = "\<lambda>t. just_ran C p r t"
  have fin: "reached C (Suc (order_index p)) t \<and> completed_steps t = prefix_steps (Suc (order_index p))" if "?Q t" for t
    using ran_ready[OF that assms(2)] that by (simp add: reached_def completed_steps_def just_ran_def)
  have closing: "just_ran C p r (note_event e q (set_replan i (\<lambda>x. x\<lparr>rn_baseline := None, rn_status := st, rn_after := af\<rparr>) t))"
    if "?Q t" for t e q i st af
    using ran_set_replan[OF that, of i "\<lambda>x. x\<lparr>rn_baseline := None, rn_status := st, rn_after := af\<rparr>"] by simp
  show ?thesis
    unfolding pass_gate_def
  proof (rule outcome_then[where R = "\<lambda>_ t. ?Q t"])
    show "outcome_in (\<lambda>_ t. ?Q t) (halted C)
      ((case pending_replan p s of None \<Rightarrow> give ()
        | Some i \<Rightarrow> if \<not> st_blocked r then run_then (commit_baseline C (rn_baseline (pl_replans s ! i))) (\<lambda>_ t.
              (Inr (), note_event ''replan_recovered'' p
                 (set_replan i (\<lambda>r. r\<lparr>rn_baseline := None, rn_status := Recovered, rn_after := Some (0, 0, 0)\<rparr>) t)))
            else give ()) s)"
    proof (cases "pending_replan p s")
      case None
      then show ?thesis using ran by simp
    next
      case (Some i)
      have "outcome_in (\<lambda>_ t. ?Q t) (halted C) (run_then (commit_baseline C (rn_baseline (pl_replans s ! i))) (\<lambda>_ t.
              (Inr (), note_event ''replan_recovered'' p
                 (set_replan i (\<lambda>r. r\<lparr>rn_baseline := None, rn_status := Recovered, rn_after := Some (0, 0, 0)\<rparr>) t))) s)"
      proof (rule outcome_then[where R = "\<lambda>_. ?Q"])
        show "outcome_in (\<lambda>_. ?Q) (halted C) (commit_baseline C (rn_baseline (pl_replans s ! i)) s)"
          by (rule outcome_mono[OF outcome_commit]) (use ran ran_halted[OF ran] in auto)
      qed (use closing in simp)
      then show ?thesis using Some ran by simp
    qed
  next
    fix x t assume "?Q t"
    then show "outcome_in (\<lambda>_ t. reached C (Suc (order_index p)) t \<and> completed_steps t = prefix_steps (Suc (order_index p)))
        (halted C) (call_completed V r t)"
      by (intro outcome_mono[OF outcome_completed]) (use fin ran_halted in \<open>auto simp: completed_steps_def\<close>)
  qed
qed

lemma plan_recovery_frame:
  "plan_recovery V r allowed suggested local s = (x, t) \<Longrightarrow> \<exists>w. t = s\<lparr>pl_world := w\<rparr>"
  by (auto simp: plan_recovery_def split: prod.splits)

lemma settle_decision_result:
  assumes "settle_decision C V P s r allowed local proposal fallback = (d, used, r', ids)"
  shows "st_step r' = st_step r" "st_blocked r' = st_blocked r" "st_execution_blocked r' = st_execution_blocked r"
    "st_checks r' = st_checks r"
  using assms by (auto simp: settle_decision_def Let_def split: prod.splits option.splits if_splits)

lemma ran_new_result:
  assumes ran: "just_ran C p r s" and "st_step r' = st_step r"
  shows "just_ran C p r' (set_last_result r' s)"
proof -
  have m: "map st_step (pl_results s) = prefix_steps (Suc (order_index p))" using ran by (simp add: just_ran_def)
  have p: "st_step r' = p" using ran assms(2) by (simp add: just_ran_def)
  have "map st_step (butlast (pl_results s) @ [r']) = map st_step (butlast (pl_results s) @ [last (pl_results s)])"
    using p prefix_last(2)[OF m] by simp
  also have "\<dots> = prefix_steps (Suc (order_index p))" using m prefix_last(1)[OF m] by simp
  finally have "map st_step (pl_results (set_last_result r' s)) = prefix_steps (Suc (order_index p))"
    by (simp add: set_last_result_def)
  then show ?thesis using ran p by (simp add: just_ran_def set_last_result_def)
qed

lemma plan_outcome [outcome_rules]:
  assumes ran: "just_ran C (so_step P) r s"
  shows "outcome_in (\<lambda>(j, r', ids) t. just_ran C (so_step P) r' t \<and> in_turns j (so_step P) t \<and> st_blocked r' = st_blocked r \<and>
      pl_replans t = pl_replans s) (halted C) (plan_turn C V P r options before s)"
proof -
  obtain allowed suggested local where options: "options = (allowed, suggested, local)" by (cases options) auto
  show ?thesis
    unfolding plan_turn_def options prod.case
  proof (rule outcome_then[where R = "\<lambda>_ t. \<exists>w. t = s\<lparr>pl_world := w\<rparr>"])
    show "outcome_in (\<lambda>_ t. \<exists>w. t = s\<lparr>pl_world := w\<rparr>) (halted C) (plan_recovery V r allowed suggested local s)"
      using ran_halted[OF ran] by (auto simp: outcome_in_def dest!: plan_recovery_frame split: prod.splits sum.splits)
  next
    fix proposal s1 assume "\<exists>w. s1 = s\<lparr>pl_world := w\<rparr>"
    then have s1: "just_ran C (so_step P) r s1" "pl_replans s1 = pl_replans s" using ran by auto
    show "outcome_in (\<lambda>(j, r', ids) t. just_ran C (so_step P) r' t \<and> in_turns j (so_step P) t \<and> st_blocked r' = st_blocked r \<and>
        pl_replans t = pl_replans s) (halted C)
      (case fallback_decision r allowed suggested local of
            Inl e \<Rightarrow> (Inl e, s1)
          | Inr fallback \<Rightarrow>
              (case settle_decision C V P s1 r allowed local proposal fallback of (d, used, r', ids) \<Rightarrow>
                 (let s2 = set_last_result r' s1;
                      t = new_turn C V P (related_turns (so_step P) (failure_ids r) s2) before d used ids s2
                  in if \<not> turn_fits t then (Inl validation_error, s2)
                     else (Inr (length (pl_turns s2), r', ids),
                       note_event (if tn_status t = TurnExhausted then ''recovery_exhausted'' else ''recovery_planned'')
                         (so_step P) (s2\<lparr>pl_turns := pl_turns s2 @ [t]\<rparr>)))))"
    proof (cases "fallback_decision r allowed suggested local")
      case (Inl e)
      then show ?thesis using ran_halted[OF s1(1)] by simp
    next
      case (Inr fallback)
      obtain d used r' ids where sd: "settle_decision C V P s1 r allowed local proposal fallback = (d, used, r', ids)"
        by (metis prod_cases4)
      define s2 where "s2 = set_last_result r' s1"
      define t where "t = new_turn C V P (related_turns (so_step P) (failure_ids r) s2) before d used ids s2"
      have r2: "just_ran C (so_step P) r' s2"
        unfolding s2_def by (rule ran_new_result[OF s1(1)]) (rule settle_decision_result(1)[OF sd])
      have t: "tn_step t = so_step P" "tn_baseline t = None" by (simp_all add: t_def new_turn_def Let_def)
      have "just_ran C (so_step P) r' (s2\<lparr>pl_turns := pl_turns s2 @ [t]\<rparr>)"
        using r2 t(2) by (auto simp: just_ran_def history_ok_def)
      moreover have "pl_replans s2 = pl_replans s" using s1(2) by (simp add: s2_def set_last_result_def)
      ultimately show ?thesis
        using Inr sd settle_decision_result(2)[OF sd] ran_halted[OF r2] t(1)
        by (simp add: s2_def[symmetric] t_def[symmetric] Let_def in_turns_def)
    qed
  qed
qed

end
