(* ===== verification/DriverGates.thy ===== *)
theory DriverGates
  imports DriverOutcomes
begin

text \<open>
  No gate is passed: the recovery of a blocked step, the contract the driver relies on as a locale
  over the engine, and its interpretation by \<open>step_run\<close>.
\<close>

subsection \<open>Acting\<close>

definition moved :: "('a, 'r, 'w) services \<Rightarrow> next_move \<Rightarrow> ('a, 'r, 'w) pipeline \<Rightarrow> bool" where
  "moved C m t =
     (case m of
        Onward i f \<Rightarrow> reached C i t \<and> set f = set (completed_steps t)
      | Halt \<Rightarrow> halted C t \<and> pl_results t \<noteq> [] \<and> st_blocked (last (pl_results t)))"

lemma moved_go [simp]: "moved C (Onward i (completed_steps t)) t = reached C i t"
  by (simp add: moved_def)

lemma ran_baseline_ok:
  assumes "just_ran C p r s" and "bl_results b = pl_results s"
  shows "baseline_ok C p b"
  using assms by (simp add: just_ran_def baseline_ok_def)

lemma launch_turn_reached:
  assumes ran: "just_ran C p r s" and j: "in_turns j p s" and b: "baseline_ok C p b"
  shows "reached C (order_index p) (launch_turn p j r' b s)"
proof -
  let ?f = "\<lambda>t. t\<lparr>tn_baseline := Some b, tn_status := Acted, tn_revision := pl_revision (s\<lparr>pl_revision := pl_revision s + 1\<rparr>)\<rparr>"
  have turned: "just_ran C p r (set_turn j ?f (s\<lparr>pl_revision := pl_revision s + 1\<rparr>))"
    using ran j b by (intro ran_set_turn) (simp_all add: in_turns_def)
  note prev = butlast_ready[OF this]
  have "pl_results (launch_turn p j r' b s) = butlast (pl_results s)" "history_ok C (launch_turn p j r' b s)"
    using turned
    by (simp_all add: launch_turn_def Let_def just_ran_def split: option.split)
  then show ?thesis using prev[of "launch_turn p j r' b s"] by (simp add: reached_def)
qed

lemma launch_replan_reached:
  assumes ran: "just_ran C p r s" and turn: "\<And>j. turn = Some j \<Longrightarrow> in_turns j p s" and b: "baseline_ok C p b"
    and x: "rn_trigger x = p" "rn_baseline x = Some b" and target: "target < p"
  shows "reached C (order_index target) (launch_replan p turn target x s)"
proof -
  have m: "map st_step (pl_results s) = prefix_steps (Suc (order_index p))" "list_all (passable C) (butlast (pl_results s))"
    using ran by (simp_all add: just_ran_def)
  have h: "history_ok C (s\<lparr>pl_replans := pl_replans s @ [x]\<rparr>)" using ran b x by (auto simp: just_ran_def history_ok_def)
  have turned: "history_ok C (set_turn j (\<lambda>t. t\<lparr>tn_status := Acted, tn_revision := n\<rparr>) u)" if "history_ok C u" for j n u
    by (rule history_set_turn[OF that]) (simp split: option.split)
  have "history_ok C (launch_replan p turn target x s)"
    using h by (auto simp: launch_replan_def Let_def intro!: turned split: option.split)
  moreover have "pl_results (launch_replan p turn target x s) = filter (\<lambda>r. st_step r < target) (pl_results s)"
    by (simp add: launch_replan_def Let_def split: option.split)
  ultimately show ?thesis
    using back_ready[OF m, of "launch_replan p turn target x s" target] target by (simp add: reached_def)
qed

lemma act_outcome [outcome_rules]:
  fixes s :: "('a, 'r, 'w) pipeline"
  assumes ran: "just_ran C (so_step P) r s" and j: "in_turns j (so_step P) s"
  shows "outcome_in (\<lambda>_ t. reached C (order_index (so_step P)) t) (halted C) (act_turn C P j r' s)"
  unfolding act_turn_def
proof (rule outcome_then[OF outcome_mono[OF outcome_capture]])
  fix b :: "('a, 'r) baseline" and t
  assume "(\<exists>d. t = s\<lparr>pl_dir := d\<rparr>) \<and> bl_results b = pl_results s \<and> bl_artifacts b = pl_artifacts s"
  then have "just_ran C (so_step P) r t" "in_turns j (so_step P) t" "baseline_ok C (so_step P) b"
    using ran j ran_baseline_ok[OF ran] by (auto simp: in_turns_def)
  note reached = launch_turn_reached[OF this, of r']
  then show "outcome_in (\<lambda>_ t. reached C (order_index (so_step P)) t) (halted C)
      (report_progress C (launch_turn (so_step P) j r' b t))"
    by (intro outcome_progress_to) (use reached_halted in auto)
qed auto

lemma schedule_outcome [outcome_rules]:
  fixes s :: "('a, 'r, 'w) pipeline"
  assumes ran: "just_ran C (so_step P) r s" and turn: "\<And>j. turn = Some j \<Longrightarrow> in_turns j (so_step P) s" and target: "target < so_step P"
  shows "outcome_in (\<lambda>_ t. reached C (order_index target) t) (halted C) (schedule_replan C V P r' before turn target uses s)"
  unfolding schedule_replan_def
proof (rule outcome_then[OF outcome_mono[OF outcome_capture]])
  fix b :: "('a, 'r) baseline" and t
  assume "(\<exists>d. t = s\<lparr>pl_dir := d\<rparr>) \<and> bl_results b = pl_results s \<and> bl_artifacts b = pl_artifacts s"
  then have t: "just_ran C (so_step P) r t" "\<And>j. turn = Some j \<Longrightarrow> in_turns j (so_step P) t" "baseline_ok C (so_step P) b"
    using ran turn ran_baseline_ok[OF ran] by (auto simp: in_turns_def)
  have "reached C (order_index target) (launch_replan (so_step P) turn target (new_replan C V (so_step P) r' before turn target uses b t) t)"
    by (rule launch_replan_reached[OF t]) (simp_all add: new_replan_def target)
  then show "outcome_in (\<lambda>_ t. reached C (order_index target) t) (halted C) (report_progress C
      (launch_replan (so_step P) turn target (new_replan C V (so_step P) r' before turn target uses b t) t))"
    by (intro outcome_progress_to) (use reached_halted in auto)
qed auto

definition in_replans :: "nat option \<Rightarrow> ('a, 'r, 'w) pipeline \<Rightarrow> bool" where
  "in_replans i s = (case i of None \<Rightarrow> True | Some k \<Rightarrow> k < length (pl_replans s))"

lemma end_recovery_keeps:
  assumes "just_ran C p r s" and "in_replans replan s"
  shows "just_ran C p r (end_recovery p before spent turn s)" "in_replans replan (end_recovery p before spent turn s)"
    "has_baseline replan (end_recovery p before spent turn s) = has_baseline replan s"
proof -
  define s1 where "s1 = (case pending_replan p s of None \<Rightarrow> s
      | Some i \<Rightarrow> note_event (if spent then ''replan_exhausted'' else ''replan_stagnated'') p
          (set_replan i (\<lambda>r. r\<lparr>rn_status := (if spent then Exhausted else Stagnated), rn_after := Some before\<rparr>) s))"
  have u: "end_recovery p before spent turn s = (case turn of None \<Rightarrow> s1
      | Some j \<Rightarrow> if tn_status (pl_turns s1 ! j) = Planned then
          (let human = (dc_action (tn_decision (pl_turns s1 ! j)) = AskHuman) in
           note_event (if human then ''human_input_required'' else ''recovery_exhausted'') p
             (set_turn j (\<lambda>t. t\<lparr>tn_status := (if human then AwaitingHuman else TurnExhausted), tn_after := Some before,
                tn_observation := (if human then no_evidence_text else unscheduled_text)\<rparr>) s1)) else s1)"
    unfolding end_recovery_def Let_def s1_def[symmetric] ..
  have s1: "just_ran C p r s1" unfolding s1_def using assms(1) by (auto intro!: ran_set_replan split: option.split)
  show "just_ran C p r (end_recovery p before spent turn s)"
    unfolding u using s1 by (auto simp: Let_def intro!: ran_set_turn split: option.split)
  have len: "length (pl_replans s1) = length (pl_replans s)" by (simp add: s1_def split: option.split)
  have same: "pl_replans (end_recovery p before spent turn s) = pl_replans s1"
    unfolding u by (simp add: Let_def split: option.split)
  show "in_replans replan (end_recovery p before spent turn s)"
    using assms(2) len same by (simp add: in_replans_def split: option.splits)
  have "k < length (pl_replans s) \<Longrightarrow> rn_baseline (pl_replans s1 ! k) = rn_baseline (pl_replans s ! k)" for k
    by (cases "pending_replan p s"; cases "the (pending_replan p s) = k") (simp_all add: s1_def set_replan_def)
  then show "has_baseline replan (end_recovery p before spent turn s) = has_baseline replan s"
    using assms(2) same by (simp add: has_baseline_def in_replans_def split: option.splits)
qed

lemma reject_moved:
  assumes ran: "just_ran C p r s" and "in_replans replan s" and "has_baseline replan s"
  shows "outcome_in (moved C) (halted C) (run_then (reject_replan C pipe (the replan) r') go_on s)"
proof -
  from assms(2,3) obtain k where k: "replan = Some k" "k < length (pl_replans s)" "rn_baseline (pl_replans s ! k) \<noteq> None"
    by (auto simp: in_replans_def has_baseline_def split: option.splits)
  have "outcome_in (\<lambda>k t. reached C k t) (halted C) (reject_replan C pipe k r' s)"
    using ran k ran_halted[OF ran] by (intro reject_outcome) (simp_all add: just_ran_def)
  then show ?thesis unfolding k(1) option.sel by (rule outcome_then) simp
qed

lemma replan_or_end_outcome [outcome_rules]:
  assumes ran: "just_ran C (so_step P) r s" and turn: "\<And>j. turn = Some j \<Longrightarrow> in_turns j (so_step P) s"
    and rp: "in_replans replan s" and blocked: "st_blocked r"
  shows "outcome_in (moved C) (halted C) (replan_or_end C V pipe P replan suggested before (turn, r, ids) s)"
proof (cases "rollback_choice turn suggested s")
  case (Inl e)
  then show ?thesis using ran_halted[OF ran] by (simp add: replan_or_end_def)
next
  case (Inr target)
  let ?p = "so_step P"
  let ?uses = "length (prior_replans ?p (fingerprint_of C (case target of None \<Rightarrow> None | Some t \<Rightarrow> dget (pl_artifacts s) t)) ids s)"
  let ?limit = "replan_limit C ?p target"
  let ?s1 = "end_recovery ?p before (int ?uses \<ge> ?limit) turn s"
  have eq: "replan_or_end C V pipe P replan suggested before (turn, r, ids) s =
     (if target \<noteq> None \<and> the target < ?p \<and> int ?uses < ?limit then
        run_then (schedule_replan C V P r before turn (the target) ?uses) (\<lambda>_. go_on (order_index (the target))) s
      else if has_baseline replan ?s1 then run_then (reject_replan C pipe (the replan) r) go_on ?s1
      else run_then (call_completed V r) (\<lambda>_. give Halt) (note_events (map failure_event (st_failures r)) ?p ?s1))"
    by (simp only: replan_or_end_def prod.case Inr sum.case Let_def)
  show ?thesis
  proof (cases "target \<noteq> None \<and> the target < ?p \<and> int ?uses < ?limit")
    case True
    then have "outcome_in (moved C) (halted C)
        (run_then (schedule_replan C V P r before turn (the target) ?uses) (\<lambda>_. go_on (order_index (the target))) s)"
      by (intro outcome_then[where R = "\<lambda>_. reached C (order_index (the target))"] schedule_outcome[OF ran turn]) simp_all
    then show ?thesis unfolding eq if_P[OF True] .
  next
    case False
    note keeps = end_recovery_keeps[OF ran rp, of before "int ?uses \<ge> ?limit" turn]
    show ?thesis
    proof (cases "has_baseline replan ?s1")
      case True
      from reject_moved[OF keeps(1,2) True] show ?thesis unfolding eq if_not_P[OF False] if_P[OF True] .
    next
      case no: False
      have "moved C Halt u" if "just_ran C ?p r u" for u
        using ran_halted[OF that] ran_result[OF that] blocked by (simp add: moved_def)
      then have "outcome_in (moved C) (halted C)
          (run_then (call_completed V r) (\<lambda>_. give Halt) (note_events (map failure_event (st_failures r)) ?p ?s1))"
        using keeps(1) ran_halted[OF keeps(1)]
        by (intro outcome_then[where R = "\<lambda>_. just_ran C ?p r"] outcome_mono[OF outcome_completed]) auto
      then show ?thesis unfolding eq if_not_P[OF False] if_not_P[OF no] .
    qed
  qed
qed

definition same_audit :: "('a, 'r, 'w) pipeline \<Rightarrow> ('a, 'r, 'w) pipeline \<Rightarrow> bool" where
  "same_audit s t = (pl_replans t = pl_replans s \<and> pl_turns t = pl_turns s)"

lemma audit_kept [outcome_rules]:
  "outcome_in (\<lambda>_. same_audit s) (same_audit s) (report_progress C s)"
  "outcome_in (\<lambda>_. same_audit s) (same_audit s) (call_completed V r s)"
  "outcome_in (\<lambda>_. same_audit s) (same_audit s) (commit_baseline C c s)"
  "outcome_in (\<lambda>_. same_audit s) (same_audit s) (restore_baseline C b s)"
  "outcome_in (\<lambda>_. same_audit s) (same_audit s) (capture_baseline C label s)"
proof -
  show "outcome_in (\<lambda>_. same_audit s) (same_audit s) (report_progress C s)"
    by (rule outcome_mono[OF outcome_progress]) (auto simp: same_audit_def)
  show "outcome_in (\<lambda>_. same_audit s) (same_audit s) (call_completed V r s)"
    by (rule outcome_mono[OF outcome_completed]) (auto simp: same_audit_def)
  show "outcome_in (\<lambda>_. same_audit s) (same_audit s) (commit_baseline C c s)"
    by (rule outcome_mono[OF outcome_commit]) (auto simp: same_audit_def)
  show "outcome_in (\<lambda>_. same_audit s) (same_audit s) (restore_baseline C b s)"
    by (rule outcome_mono[OF outcome_restore]) (auto simp: same_audit_def)
  show "outcome_in (\<lambda>_. same_audit s) (same_audit s) (capture_baseline C label s)"
    by (rule outcome_mono[OF outcome_capture]) (auto simp: same_audit_def)
qed

lemma same_audit_refl [simp]: "same_audit s s"
  by (simp add: same_audit_def)

text \<open>A verdict closes its turn.\<close>

definition open_turn :: "('a, 'r) turn \<Rightarrow> bool" where
  "open_turn t = (tn_status t \<in> {Planned, Acted})"

definition closes_turn :: "nat \<Rightarrow> ('a, 'r, 'w) pipeline \<Rightarrow> ('a, 'r, 'w) pipeline \<Rightarrow> bool" where
  "closes_turn j s t =
     (pl_replans t = pl_replans s \<and> (\<exists>x. pl_turns t = (pl_turns s)[j := x] \<and> \<not> open_turn x))"

lemma judge_not_open [simp]: "judge_turn t after broken \<noteq> Planned" "judge_turn t after broken \<noteq> Acted"
  by (simp_all add: judge_turn_def)

lemma closes_step:
  "closes_turn j s t \<Longrightarrow> same_audit t u \<Longrightarrow> closes_turn j s u"
  "closes_turn j s (note_event e q t) = closes_turn j s t"
  "closes_turn j s (reopen_failed_step p t) = closes_turn j s t"
  by (simp_all add: closes_turn_def same_audit_def)

lemma closes_set:
  assumes "closes_turn j s t" and "\<And>x. tn_status (f x) = tn_status x" and "j < length (pl_turns s)"
  shows "closes_turn j s (set_turn j f t)"
  using assms by (auto simp: closes_turn_def set_turn_def open_turn_def)

lemma settle_closes:
  assumes len: "j < length (pl_turns s)"
  shows "outcome_in (\<lambda>_. closes_turn j s) (\<lambda>_. True) (settle_turn C V pipe j r s)"
proof -
  let ?after = "score_of pipe s r" and ?t0 = "pl_turns s ! j" and ?text = "observation_text V s r"
  let ?status = "judge_turn ?t0 ?after (st_execution_blocked r)"
  define s1 where "s1 = set_turn j (\<lambda>t. t\<lparr>tn_after := Some ?after, tn_status := ?status\<rparr>) s"
  define s2 where "s2 = set_turn j (\<lambda>t. t\<lparr>tn_observation := ?text\<rparr>) s1"
  let ?closed = "\<lambda>t. t\<lparr>tn_baseline := None\<rparr>"
  have "closes_turn j s s1" by (auto simp: closes_turn_def s1_def) (auto simp: set_turn_def open_turn_def)
  then have s2: "closes_turn j s s2" unfolding s2_def by (rule closes_set[OF _ _ len]) simp
  have next': "closes_turn j s (set_turn j ?closed t)" if "same_audit s2 t" for t
    by (rule closes_set[OF closes_step(1)[OF s2 that] _ len]) simp
  have keep: "outcome_in (\<lambda>_. closes_turn j s) (\<lambda>_. True)
      (run_then (commit_baseline C (Some b)) (\<lambda>_ s3. (Inr False, note_event e p (set_turn j ?closed s3))) s2)" for b e p
    by (rule outcome_then[where R = "\<lambda>_. same_audit s2"])
       (rule outcome_mono[OF audit_kept(3)], simp_all add: closes_step next')
  have undo: "outcome_in (\<lambda>_. closes_turn j s) (\<lambda>_. True)
      (run_then (restore_baseline C b) (\<lambda>_ s3. run_then (report_progress C) (\<lambda>_. give True)
         (note_event e p (reopen_failed_step p (set_turn j ?closed s3)))) s2)" for b e p
  proof (rule outcome_then[where R = "\<lambda>_. same_audit s2"])
    show "outcome_in (\<lambda>_. same_audit s2) (\<lambda>_. True) (restore_baseline C b s2)"
      by (rule outcome_mono[OF audit_kept(4)]) simp_all
  next
    fix x t assume t: "same_audit s2 t"
    let ?u = "note_event e p (reopen_failed_step p (set_turn j ?closed t))"
    have u: "closes_turn j s ?u" using next'[OF t] by (simp add: closes_step)
    show "outcome_in (\<lambda>_. closes_turn j s) (\<lambda>_. True) (run_then (report_progress C) (\<lambda>_. give True) ?u)"
      by (rule outcome_then[where R = "\<lambda>_. same_audit ?u"])
         (rule outcome_mono[OF audit_kept(1)], use closes_step(1)[OF u] in simp_all)
  qed
  show ?thesis
    unfolding settle_turn_def Let_def s1_def[symmetric] s2_def[symmetric]
    using s2 keep undo by (auto simp: closes_step split: option.split)
qed

lemma recover_outcome [outcome_rules]:
  assumes ran: "just_ran C (so_step P) r s" and rp: "in_replans replan s" and blocked: "st_blocked r"
    and index: "index = order_index (so_step P)"
  shows "outcome_in (moved C) (halted C) (recover C V pipe index P replan r s)"
proof (cases "has_baseline replan s \<and> \<not> extends_candidate C P replan r s")
  case True
  then show ?thesis using reject_moved[OF ran rp] by (simp add: recover_def)
next
  case False
  let ?p = "so_step P"
  define s1 where "s1 = (if extends_candidate C P replan r s
      then set_replan (the replan) (\<lambda>x. x\<lparr>rn_intermediate := rn_intermediate x + 1\<rparr>) s else s)"
  have s1: "just_ran C ?p r s1" "in_replans replan s1"
    unfolding s1_def using ran rp by (auto simp: in_replans_def intro!: ran_set_replan split: option.splits)
  let ?options = "recovery_options C V P r (replan \<noteq> None) s1" and ?before = "score_of pipe s1 r"
  let ?k = "\<lambda>(j, r', ids) s2. if starts_candidate (pl_turns s2 ! j) then run_then (act_turn C P j r') (\<lambda>_. go_on index) s2
         else replan_or_end C V pipe P replan (fst (snd ?options)) ?before (Some j, r', ids) s2"
  let ?R = "\<lambda>(j, r', ids :: string list) t. just_ran C ?p r' t \<and> in_turns j ?p t \<and> st_blocked r' = st_blocked r \<and>
      pl_replans t = pl_replans s1"
  have "outcome_in (moved C) (halted C) (run_then (plan_turn C V P r ?options ?before) ?k s1)"
  proof (rule outcome_then)
    show "outcome_in ?R (halted C) (plan_turn C V P r ?options ?before s1)" by (rule plan_outcome[OF s1(1)])
  next
    fix x s2 assume x: "?R x s2"
    obtain j r' ids where xe: "x = (j, r', ids)" by (cases x) auto
    have s2: "just_ran C ?p r' s2" "in_turns j ?p s2" "st_blocked r'" "in_replans replan s2"
      using x blocked s1(2) unfolding xe by (simp_all add: in_replans_def split: option.splits)
    have "outcome_in (moved C) (halted C) (run_then (act_turn C P j r') (\<lambda>_. go_on index) s2)"
      by (rule outcome_then[where R = "\<lambda>_. reached C (order_index ?p)"]) (rule act_outcome[OF s2(1,2)], simp add: index)
    moreover have "outcome_in (moved C) (halted C)
        (replan_or_end C V pipe P replan (fst (snd ?options)) ?before (Some j, r', ids) s2)"
      by (rule replan_or_end_outcome[OF s2(1) _ s2(4,3)]) (use s2(2) in simp)
    ultimately show "outcome_in (moved C) (halted C) (?k x s2)"
      unfolding xe by simp
  qed
  moreover have "outcome_in (moved C) (halted C)
      (replan_or_end C V pipe P replan (fst (snd ?options)) ?before (None, r, failure_ids r) s1)"
    by (rule replan_or_end_outcome[OF s1(1) _ s1(2) blocked]) simp
  ultimately show ?thesis unfolding recover_def Let_def s1_def[symmetric] if_not_P[OF False] by simp
qed

subsection \<open>The engine, and the loop over it\<close>

text \<open>Every requested step up to the limit has a result.\<close>

definition finished_to :: "nat \<Rightarrow> ('a, 'r, 'w) step_ops list \<Rightarrow> ('a, 'r, 'w) pipeline \<Rightarrow> bool" where
  "finished_to limit pipe t = (\<forall>i < length pipe. i \<le> limit \<longrightarrow> canonical_order ! i \<in> set (completed_steps t))"

text \<open>
  What the driver needs of the engine, for lawful services: a result is appended (summaries
  apart, the earlier ones stay), a failed one leaves the results, and either way the audit and
  the named snapshots are kept.
\<close>

locale step_engine =
  fixes run :: "('a, 'r, 'w) services \<Rightarrow> ('a, 'r, 'w) engine"
    and lawful :: "('a, 'r, 'w) services \<Rightarrow> bool"
  assumes run_ok: "lawful C \<Longrightarrow> run C P s = (Inr r, t) \<Longrightarrow> U \<subseteq> dom (dget (rd_backups (pl_dir s))) \<Longrightarrow>
      st_step r = so_step P \<and> map gate (pl_results t) = map gate (pl_results s) @ [gate r] \<and>
      engine_frame U s t"
    and run_failed: "lawful C \<Longrightarrow> run C P s = (Inl e, t) \<Longrightarrow> U \<subseteq> dom (dget (rd_backups (pl_dir s))) \<Longrightarrow>
      pl_results t = pl_results s \<and> engine_frame U s t"
begin

lemma gates_eq:
  assumes "map gate xs = map gate ys"
  shows "map st_step xs = map st_step ys" "list_all (passable C) xs = list_all (passable C) ys"
proof -
  have "map (st_step \<circ> gate) xs = map (st_step \<circ> gate) ys" using assms by (metis map_map)
  then show "map st_step xs = map st_step ys" by (simp add: o_def)
  have "list_all (passable C) (map gate xs) = list_all (passable C) (map gate ys)" using assms by simp
  then show "list_all (passable C) xs = list_all (passable C) ys" by (simp add: list_all_iff passable_def)
qed

lemma reached_ran:
  assumes s: "reached C (order_index p) s" and m: "map gate (pl_results t) = map gate (pl_results s) @ [gate r]"
    and p: "st_step r = p" and h: "pl_turns t = pl_turns s" "pl_replans t = pl_replans s"
  shows "just_ran C p r t"
proof -
  have "map gate (pl_results t) = map gate (pl_results s @ [r])" using m by simp
  note g = gates_eq(1)[OF this]
  have "map gate (butlast (pl_results t)) = map gate (pl_results s)" using m by (simp add: map_butlast)
  note gs = gates_eq(2)[OF this]
  have ne: "pl_results t \<noteq> []" using m by auto
  have "gate (last (pl_results t)) = last (map gate (pl_results t))" using ne by (simp add: last_map)
  then have "gate (last (pl_results t)) = gate r" using m by simp
  moreover have "map st_step (pl_results t) = prefix_steps (Suc (order_index p))"
  proof -
    have "map st_step (pl_results s) = prefix_steps (order_index p)"
      using s by (simp add: reached_def ready_def prefix_results_def)
    then show ?thesis using g p order_index_less[of p] by (simp add: take_Suc_conv_app_nth)
  qed
  moreover have "list_all (passable C) (butlast (pl_results t))" using s by (simp add: gs reached_def ready_def)
  moreover have "history_ok C t" using s h by (simp add: reached_def ready_def history_ok_def)
  ultimately show ?thesis using p by (simp add: just_ran_def)
qed

lemma attempt_outcome:
  assumes lawful: "lawful C"
  shows "reached C (order_index (so_step P)) s \<Longrightarrow>
   outcome_in (\<lambda>r t. just_ran C (so_step P) r t \<and> pl_turns t = pl_turns s \<and> pl_replans t = pl_replans s) (halted C) (attempt_step (run C) C V P recovering n s)"
proof (induction n arbitrary: s rule: less_induct)
  case (less n)
  obtain x t where run: "run C P s = (x, t)" by fastforce
  define t' where "t' = (if recovering then clear_feedback t else t)"
  show ?case
  proof (cases x)
    case (Inr r)
    note ok = run_ok[OF lawful run[unfolded Inr] empty_subsetI]
    have "just_ran C (so_step P) r t" using ok by (intro reached_ran[OF less.prems]) (auto simp: engine_frame_def)
    then show ?thesis using run Inr ok by (subst attempt_step.simps) (auto simp: engine_frame_def)
  next
    case (Inl e)
    note failed = run_failed[OF lawful run[unfolded Inl] empty_subsetI]
    have t': "pl_results t' = pl_results s" "pl_turns t' = pl_turns s" "pl_replans t' = pl_replans s"
      using failed by (simp_all add: t'_def engine_frame_def)
    have reach: "reached C (order_index (so_step P)) t'"
      using less.prems t' by (simp add: reached_def ready_def history_ok_def)
    let ?f = "captured_failure C V (so_step P) e" and ?r = "captured_result C V (so_step P) e"
    show ?thesis
    proof (cases "cx_capture_errors C")
      case False
      then show ?thesis using run Inl reached_halted[OF reach]
        by (subst attempt_step.simps) (simp add: t'_def[symmetric])
    next
      case True
      show ?thesis
      proof (cases "fl_recoverability ?f = Retryable \<and> n > 0")
        case retry: True
        then have "n - 1 < n" by simp
        from less.IH[OF this reach] show ?thesis
          using run Inl True retry t' by (subst attempt_step.simps) (simp add: t'_def[symmetric])
      next
        case False
        have "just_ran C (so_step P) ?r (t'\<lparr>pl_results := pl_results t' @ [?r]\<rparr>)"
          using t' by (intro reached_ran[OF less.prems]) (simp_all add: captured_result_def Let_def)
        then show ?thesis using run Inl True False t'
          by (subst attempt_step.simps) (auto simp: t'_def[symmetric] captured_result_def Let_def)
      qed
    qed
  qed
qed

lemma instruct_same [simp]:
  "pl_results (instruct p replan turn s) = pl_results s" "pl_turns (instruct p replan turn s) = pl_turns s"
  "pl_replans (instruct p replan turn s) = pl_replans s"
  by (simp_all add: instruct_def Let_def split: option.split)

lemma step_outcome:
  assumes lawful: "lawful C" and s: "reached C (order_index (so_step P)) s" and index: "index = order_index (so_step P)"
    and f: "set finished = set (completed_steps s)"
  shows "outcome_in (moved C) (halted C) (drive_step (run C) C V pipe index finished P s)"
proof -
  let ?p = "so_step P"
  define replan turn where "replan = active_replan ?p s" and "turn = active_turn ?p s"
  have s0: "reached C (order_index ?p) (instruct ?p replan turn s)"
    using s by (simp add: reached_def ready_def history_ok_def)
  have "outcome_in (moved C) (halted C)
    (run_then (attempt_step (run C) C V P (replan \<noteq> None \<or> turn \<noteq> None) (nat (max 0 (cx_execution_retries C)))) (\<lambda>r.
      run_then (case turn of None \<Rightarrow> give False | Some j \<Rightarrow> settle_turn C V pipe j r) (\<lambda>undone s1.
        if undone then go_on (order_index (tn_step (pl_turns s1 ! the turn))) s1
        else if can_continue C r then
          run_then (pass_gate C V ?p r) (\<lambda>_. give (Onward (index + 1) (finished @ [?p]))) s1
        else if cx_draft_first C then run_then (report_progress C) (\<lambda>_. give Halt) s1
        else if st_blocked r then recover C V pipe index P replan r s1
        else (Inr (Onward index finished), s1))) (instruct ?p replan turn s))"
  proof (rule outcome_then[where R = "\<lambda>r t. just_ran C ?p r t \<and> pl_turns t = pl_turns s \<and>
      pl_replans t = pl_replans s"])
    show "outcome_in (\<lambda>r t. just_ran C ?p r t \<and> pl_turns t = pl_turns s \<and>
      pl_replans t = pl_replans s) (halted C)
      (attempt_step (run C) C V P (replan \<noteq> None \<or> turn \<noteq> None) (nat (max 0 (cx_execution_retries C))) (instruct ?p replan turn s))"
      using attempt_outcome[OF lawful s0] by simp
  next
    fix r t
    assume r: "just_ran C ?p r t \<and> pl_turns t = pl_turns s \<and> pl_replans t = pl_replans s"
    then have t: "just_ran C ?p r t" "pl_turns t = pl_turns s" "pl_replans t = pl_replans s" by simp_all
    have turn_in: "in_turns j ?p t" if "turn = Some j" for j
      using that t(2) last_index_Some[of _ "pl_turns s" j] by (auto simp: turn_def active_turn_def in_turns_def)
    let ?R = "\<lambda>undone t'. (\<forall>j. turn = Some j \<longrightarrow> in_turns j ?p t') \<and> (undone \<longrightarrow> turn \<noteq> None) \<and>
      (if undone then reached C (order_index ?p) t' else just_ran C ?p r t') \<and> pl_replans t' = pl_replans t"
    show "outcome_in (moved C) (halted C)
      (run_then (case turn of None \<Rightarrow> give False | Some j \<Rightarrow> settle_turn C V pipe j r) (\<lambda>undone s1.
        if undone then go_on (order_index (tn_step (pl_turns s1 ! the turn))) s1
        else if can_continue C r then
          run_then (pass_gate C V ?p r) (\<lambda>_. give (Onward (index + 1) (finished @ [?p]))) s1
        else if cx_draft_first C then run_then (report_progress C) (\<lambda>_. give Halt) s1
        else if st_blocked r then recover C V pipe index P replan r s1
        else (Inr (Onward index finished), s1)) t)"
    proof (rule outcome_then[where R = ?R])
      show "outcome_in ?R (halted C) ((case turn of None \<Rightarrow> give False | Some j \<Rightarrow> settle_turn C V pipe j r) t)"
      proof (cases turn)
        case (Some j)
        have "outcome_in (\<lambda>_. closes_turn j t) (\<lambda>_. True) (settle_turn C V pipe j r t)"
          using turn_in[OF Some] by (intro settle_closes) (simp add: in_turns_def)
        from outcome_conj[OF settle_outcome[OF t(1) turn_in[OF Some]] this]
        show ?thesis unfolding Some by (auto simp: closes_turn_def elim!: outcome_mono split: if_splits)
      qed (use t in simp)
    next
      fix undone s1 assume R: "?R undone s1"
      have rp: "in_replans replan s1"
        using R t(3) last_index_Some[of _ "pl_replans s"]
        by (auto simp: in_replans_def replan_def active_replan_def split: option.split)
      have halt: "moved C Halt u" if "just_ran C ?p r u" "st_blocked r" for u
        using ran_halted[OF that(1)] ran_result[OF that(1)] that(2) by (simp add: moved_def)
      have f': "set (finished @ [?p]) = set (prefix_steps (Suc (order_index ?p)))"
      proof -
        have "completed_steps s = prefix_steps (order_index ?p)"
          using s by (simp add: reached_def ready_def prefix_results_def completed_steps_def)
        then show ?thesis using f order_index_less[of ?p] by (simp add: take_Suc_conv_app_nth)
      qed
      show "outcome_in (moved C) (halted C) (if undone then go_on (order_index (tn_step (pl_turns s1 ! the turn))) s1
        else if can_continue C r then
          run_then (pass_gate C V ?p r) (\<lambda>_. give (Onward (index + 1) (finished @ [?p]))) s1
        else if cx_draft_first C then run_then (report_progress C) (\<lambda>_. give Halt) s1
        else if st_blocked r then recover C V pipe index P replan r s1
        else (Inr (Onward index finished), s1))"
      proof (cases undone)
        case True
        then show ?thesis using R by (auto simp: in_turns_def)
      next
        case ongoing: False
        then have r1: "just_ran C ?p r s1" using R by simp
        consider (pass) "can_continue C r" | (draft) "\<not> can_continue C r" "cx_draft_first C" "st_blocked r"
          | (stuck) "\<not> can_continue C r" "\<not> cx_draft_first C" "st_blocked r"
          by (auto simp: can_continue_def)
        then show ?thesis
        proof cases
          case pass
          then have "passable C r" by (auto simp: can_continue_def passable_def)
          have "outcome_in (moved C) (halted C)
              (run_then (pass_gate C V ?p r) (\<lambda>_. give (Onward (index + 1) (finished @ [?p]))) s1)"
            by (rule outcome_then[where R = "\<lambda>_ t. reached C (Suc (order_index ?p)) t \<and>
                  completed_steps t = prefix_steps (Suc (order_index ?p))"])
               (rule pass_outcome[OF r1 \<open>passable C r\<close>], use f' index in \<open>simp add: moved_def\<close>)
          then show ?thesis using ongoing pass by simp
        next
          case draft
          have "outcome_in (moved C) (halted C) (run_then (report_progress C) (\<lambda>_. give Halt) s1)"
            by (rule outcome_then[OF outcome_progress_to[of "\<lambda>_. just_ran C ?p r"]])
               (use r1 draft halt ran_halted[OF r1] in auto)
          then show ?thesis using ongoing draft by simp
        next
          case stuck
          then show ?thesis using ongoing recover_outcome[OF r1 rp _ index] by simp
        qed
      qed
    qed
  qed
  then show ?thesis unfolding drive_step_def Let_def replan_def[symmetric] turn_def[symmetric] .
qed

text \<open>The loop, from any point where the results reach the index.\<close>

lemma pipe_step:
  assumes "valid_order pipe" and "i < length pipe"
  shows "so_step (pipe ! i) = canonical_order ! i" and "order_index (so_step (pipe ! i)) = i" and "i < 17"
proof -
  have v: "map so_step pipe = prefix_steps (length pipe)" using assms(1) by (simp add: valid_order_def)
  have "length pipe \<le> 17" using arg_cong[OF v, of length] by simp
  then show i: "i < 17" using assms(2) by simp
  have "so_step (pipe ! i) = map so_step pipe ! i" using assms(2) by simp
  then show "so_step (pipe ! i) = canonical_order ! i" unfolding v using assms(2) by simp
  then show "order_index (so_step (pipe ! i)) = i" using i by (simp add: order_index_nth)
qed

lemma ready_member:
  assumes "ready C s"
  shows "p \<in> set (completed_steps s) \<longleftrightarrow> order_index p < length (pl_results s)"
proof -
  have "completed_steps s = prefix_steps (length (pl_results s))"
    using assms by (simp add: ready_def prefix_results_def completed_steps_def)
  then show ?thesis by (simp add: set_prefix_steps)
qed

lemma loop_head:
  assumes pipe: "valid_order pipe" "index < length pipe" and s: "ready C s" "index \<le> length (pl_results s)"
    and f: "set finished = set (completed_steps s)"
  shows "so_step (pipe ! index) \<in> set finished \<Longrightarrow> index + 1 \<le> length (pl_results s)"
    and "so_step (pipe ! index) \<notin> set finished \<Longrightarrow> reached C (order_index (so_step (pipe ! index))) s"
  using ready_member[OF s(1), of "so_step (pipe ! index)"] pipe_step(2)[OF pipe] f s by (auto simp: reached_def)

lemma drive_outcome:
  assumes lawful: "lawful C" and pipe: "valid_order pipe"
  shows "drive (run C) C V pipe limit fuel index finished s = Some (res, t) \<Longrightarrow> ready C s \<Longrightarrow>
    index \<le> length (pl_results s) \<Longrightarrow> set finished = set (completed_steps s) \<Longrightarrow>
    halted C t \<and> (res = Inr () \<longrightarrow> finished_to limit pipe t \<or> (pl_results t \<noteq> [] \<and> st_blocked (last (pl_results t))))"
proof (induction fuel arbitrary: index finished s)
  case 0
  then show ?case by simp
next
  case (Suc fuel)
  show ?case
  proof (cases "index < length pipe \<and> order_index (so_step (pipe ! index)) \<le> limit")
    case False
    have "finished_to limit pipe s"
    proof -
      have "canonical_order ! i \<in> set (completed_steps s)" if "i < length pipe" "i \<le> limit" for i
      proof -
        have "i < index" using False that pipe_step(2)[OF pipe] by fastforce
        then show ?thesis using ready_member[OF Suc.prems(2)] pipe_step(1,2)[OF pipe that(1)] Suc.prems(3) by simp
      qed
      then show ?thesis by (simp add: finished_to_def)
    qed
    then show ?thesis using False Suc.prems ready_halted by auto
  next
    case True
    note head = loop_head[OF pipe conjunct1[OF True] Suc.prems(2-4)]
    show ?thesis
    proof (cases "so_step (pipe ! index) \<in> set finished")
      case skip: True
      then have "drive (run C) C V pipe limit fuel (index + 1) finished s = Some (res, t)" using Suc.prems(1) True by simp
      from Suc.IH[OF this Suc.prems(2) _ Suc.prems(4)] show ?thesis using head(1)[OF skip] by simp
    next
      case go: False
      have "index = order_index (so_step (pipe ! index))" using pipe_step(2)[OF pipe] True by simp
      note out = step_outcome[OF lawful head(2)[OF go] this Suc.prems(4), of V pipe]
      obtain m u where m: "drive_step (run C) C V pipe index finished (pipe ! index) s = (m, u)" by fastforce
      show ?thesis
      proof (cases m)
        case (Inl e)
        then show ?thesis using out m Suc.prems(1) True go by auto
      next
        case (Inr x)
        then have moved: "moved C x u" using out m by simp
        show ?thesis
        proof (cases x)
          case Halt
          then show ?thesis using moved m Inr Suc.prems(1) True go by (auto simp: moved_def)
        next
          case (Onward i f)
          then have "drive (run C) C V pipe limit fuel i f u = Some (res, t)" using m Inr Suc.prems(1) True go by simp
          then show ?thesis by (rule Suc.IH) (use moved Onward in \<open>simp_all add: moved_def reached_def\<close>)
        qed
      qed
    qed
  qed
qed

lemma retire_keeps:
  "history_ok C s \<Longrightarrow> outcome_in (\<lambda>_ t. history_ok C t \<and> pl_results t = pl_results s) (\<lambda>_. True) (retire C Q js s)"
proof (induction js arbitrary: s)
  case Nil
  then show ?case by simp
next
  case (Cons j js)
  let ?f = "\<lambda>r. r\<lparr>rn_baseline := None, rn_status := Deferred, rn_after := Some (rn_before r)\<rparr>"
  have "outcome_in (\<lambda>_ t. history_ok C t \<and> pl_results t = pl_results s) (\<lambda>_. True)
      (run_then (commit_baseline C b) (\<lambda>_ t. retire C Q js (set_replan j ?f t)) s)" for b
  proof (rule outcome_then[where R = "\<lambda>_ t. history_ok C t \<and> pl_results t = pl_results s"])
    show "outcome_in (\<lambda>_ t. history_ok C t \<and> pl_results t = pl_results s) (\<lambda>_. True) (commit_baseline C b s)"
      by (rule outcome_mono[OF outcome_commit]) (use Cons.prems in auto)
  next
    fix x t assume t: "history_ok C t \<and> pl_results t = pl_results s"
    then have "history_ok C (set_replan j ?f t)" by (auto intro: history_set_replan)
    from Cons.IH[OF this] show "outcome_in (\<lambda>_ t. history_ok C t \<and> pl_results t = pl_results s) (\<lambda>_. True)
        (retire C Q js (set_replan j ?f t))" by (rule outcome_mono) (use t in auto)
  qed
  then show ?case using Cons by (simp add: Let_def)
qed

lemma prologue_ready:
  assumes h: "history_ok C s"
  shows "outcome_in (\<lambda>_ t. ready C t) (\<lambda>_. True) (prologue C s)"
proof -
  have h0: "history_ok C (start_draft C s)" using h by (simp add: start_draft_def history_ok_def)
  have r: "outcome_in (\<lambda>_ t. history_ok C t) (\<lambda>_. True) (retire C Q js u)" if "history_ok C u" for Q js u
    by (rule outcome_mono[OF retire_keeps[OF that]]) auto
  show ?thesis
    unfolding prologue_def Let_def
  proof (rule outcome_then[where R = "\<lambda>_ t. history_ok C t"], rule r[OF h0])
    fix x t assume t: "history_ok C t"
    let ?check = "\<lambda>t. if completed_steps t \<noteq> prefix_steps (length (completed_steps t)) \<or>
           (state_blocked t \<and> (\<not> cx_artifact_first C \<or> state_execution_blocked t))
        then (Inl order_error, t) else (Inr (), t)"
    show "outcome_in (\<lambda>_ t. ready C t) (\<lambda>_. True)
      (run_then (if cx_artifact_first C \<and> \<not> cx_repair_release C
                 then retire C (\<lambda>_ _. True) [0..<length (pl_replans (start_draft C s))] else give ()) (\<lambda>_. ?check) t)"
    proof (rule outcome_then[where R = "\<lambda>_ t. history_ok C t"])
      show "outcome_in (\<lambda>_ t. history_ok C t) (\<lambda>_. True)
        ((if cx_artifact_first C \<and> \<not> cx_repair_release C
          then retire C (\<lambda>_ _. True) [0..<length (pl_replans (start_draft C s))] else give ()) t)"
        using r[OF t] t by simp
    next
      fix y u assume "history_ok C u"
      then show "outcome_in (\<lambda>_ t. ready C t) (\<lambda>_. True) (?check u)"
        by (auto simp: ready_def prefix_results_def completed_steps_def state_blocked_def state_execution_blocked_def
            passable_def list_ex_iff list_all_iff)
    qed
  qed
qed

lemma run_gates:
  assumes lawful: "lawful C" and pipe: "valid_order pipe" and h: "history_ok C s"
    and finish: "pipeline_run (run C) C V pipe until fuel s = Some (Inr (), t)"
  shows "halted C t \<and> (finished_to (limit_index pipe until) pipe t \<or> (pl_results t \<noteq> [] \<and> st_blocked (last (pl_results t))))"
proof -
  obtain x u where u: "prologue C s = (x, u)" by fastforce
  then have x: "x = Inr ()" using finish by (cases x) (auto simp: pipeline_run_def)
  then have "ready C u" using prologue_ready[OF h] u by simp
  moreover have "drive (run C) C V pipe (limit_index pipe until) fuel 0 (completed_steps u) u = Some (Inr (), t)"
    using finish u x by (simp add: pipeline_run_def)
  ultimately show ?thesis using drive_outcome[OF lawful pipe] by blast
qed

end

subsection \<open>The engine of the steps\<close>

interpretation eng: step_engine step_run "\<lambda>C. fresh_names (cx_mk C)"
proof
  fix C :: "('a, 'r, 'w) services" and P :: "('a, 'r, 'w) step_ops" and s :: "('a, 'r, 'w) pipeline" and r t U e
  assume mk: "fresh_names (cx_mk C)" and U: "U \<subseteq> dom (dget (rd_backups (pl_dir s)))"
  show "step_run C P s = (Inr r, t) \<Longrightarrow> st_step r = so_step P \<and>
      map gate (pl_results t) = map gate (pl_results s) @ [gate r] \<and> engine_frame U s t"
    using step_run_contract(1)[OF mk U] by blast
  show "step_run C P s = (Inl e, t) \<Longrightarrow> pl_results t = pl_results s \<and> engine_frame U s t"
    using step_run_contract(2)[OF mk U] by blast
qed

definition sample_driver :: "(nat, unit, nat) driver" where
  "sample_driver =
     \<lparr>dv_propose = (\<lambda>s _ _ _ _ _. (Inl (LlmFailed ''no model''), pl_world s)), dv_skill = (\<lambda>_. ([], [])),
      dv_cad = (\<lambda>_ _ _. None), dv_entity = (\<lambda>_. None), dv_evidence = (\<lambda>_. []), dv_describe = (\<lambda>_. ''error''),
      dv_action_digest = (\<lambda>_. []), dv_observed = (\<lambda>_. []), dv_completed = (\<lambda>s _. (Inr (), pl_world s + 1))\<rparr>"

definition sample_pipe :: "(nat, unit, nat) step_ops list" where
  "sample_pipe = [sample_step (canonical_order ! 0) 0, sample_step (canonical_order ! 1) 0]"

lemma sample_pipe_order: "valid_order sample_pipe"
  by code_simp

text \<open>
  C10: No gate is skipped. When \<^verbatim>\<open>Pipeline.run\<close> returns, on any registered steps in canonical order,
  whatever the steps, the model and the recovery did, the recorded results are those of the first
  steps of the canonical order, and every one but the last passed its gate: it is not blocked, or
  the run defers design issues (artifact first) and the block is not one of execution. Either every
  step up to the requested one has its result, or the last result is blocked. (Every stored
  baseline of the history the run resumes is one the driver could have taken.)
\<close>

theorem pipeline_gates:
  assumes "fresh_names (cx_mk C)" and "valid_order pipe" and "history_ok C s"
    and "pipeline_run (step_run C) C V pipe until fuel s = Some (Inr (), t)"
  shows "map st_step (pl_results t) = prefix_steps (length (pl_results t)) \<and>
    (\<forall>i < length (pl_results t) - 1. passable C (pl_results t ! i)) \<and>
    ((\<forall>i < length pipe. i \<le> limit_index pipe until \<longrightarrow> canonical_order ! i \<in> set (completed_steps t)) \<or>
     (pl_results t \<noteq> [] \<and> st_blocked (last (pl_results t))))"
  using eng.run_gates[OF assms]
  by (auto simp: halted_def prefix_results_def finished_to_def list_all_length nth_butlast)

theorem pipeline_gates_witness:
  "\<exists>t. pipeline_run (step_run sample_services) sample_services sample_driver sample_pipe None 3 empty_pipeline = Some (Inr (), t) \<and>
     length (pl_results t) = 2 \<and> passable sample_services (pl_results t ! 0) \<and>
     \<not> st_blocked (last (pl_results t))"
proof -
  let ?x = "pipeline_run (step_run sample_services) sample_services sample_driver sample_pipe None 3 empty_pipeline"
  have "case ?x of Some (Inr _, t) \<Rightarrow> length (pl_results t) = 2 \<and> \<not> st_blocked (last (pl_results t)) | _ \<Rightarrow> False" by code_simp
  then obtain t where run: "?x = Some (Inr (), t)" and t: "length (pl_results t) = 2" "\<not> st_blocked (last (pl_results t))"
    by (auto split: prod.splits sum.splits option.splits)
  have "history_ok sample_services empty_pipeline" by (simp add: history_ok_def empty_pipeline_def)
  from pipeline_gates[OF sample_fresh sample_pipe_order this run] show ?thesis using run t by auto
qed

end
