(* ===== verification/DriverAudit.thy ===== *)
theory DriverAudit
  imports DriverGates
begin

text \<open>
  The recovery of a run, as an abstract system over its audit (which replans are scheduled, which
  turns are open): the driver refines it, its moves keep the budgets, and it comes to rest, from
  which the end of every run follows. A second locale adds to the engine contract that failures have
  names of a known set.
\<close>

subsection \<open>The audit as an abstract system\<close>

text \<open>A replan: its trigger, fingerprint and failures, and whether it is scheduled; a turn: whether it is open.\<close>

type_synonym replan_entry = "pipeline_step \<times> string \<times> string list \<times> bool"

record audit =
  au_replans :: "replan_entry list"
  au_turns :: "bool list"

definition audit_of :: "('a, 'r, 'w) pipeline \<Rightarrow> audit" where
  "audit_of s = \<lparr>au_replans = map (\<lambda>r. (rn_trigger r, rn_fingerprint r, rn_failures r, rn_status r = Scheduled)) (pl_replans s),
     au_turns = map open_turn (pl_turns s)\<rparr>"

definition audit_uses :: "pipeline_step \<Rightarrow> string \<Rightarrow> string list \<Rightarrow> audit \<Rightarrow> nat" where
  "audit_uses p fp ids a = length (filter (\<lambda>(p', fp', ids', _). p' = p \<and> fp' = fp \<and> meets ids ids') (au_replans a))"

text \<open>
  The moves of a recovery: a scheduled replan or an open turn is closed, for good; a turn is
  planned while the total allows it; a replan is scheduled while its trigger, the fingerprint it
  goes back to and its failures have not spent their limit.
\<close>

inductive audit_step :: "('a, 'r, 'w) services \<Rightarrow> string set \<Rightarrow> audit \<Rightarrow> audit \<Rightarrow> bool" for C I where
  close_replan: "i < length (au_replans a) \<Longrightarrow> au_replans a ! i = (p, fp, ids, True) \<Longrightarrow>
    audit_step C I a (a\<lparr>au_replans := (au_replans a)[i := (p, fp, ids, False)]\<rparr>)"
| close_turn: "j < length (au_turns a) \<Longrightarrow> au_turns a ! j \<Longrightarrow>
    audit_step C I a (a\<lparr>au_turns := (au_turns a)[j := False]\<rparr>)"
| plan: "int (length (au_turns a)) < max 0 (cx_max_turns_total C) \<Longrightarrow>
    audit_step C I a (a\<lparr>au_turns := au_turns a @ [b]\<rparr>)"
| schedule: "int (audit_uses p fp ids a) < replan_limit C p (Some t) \<Longrightarrow> fp \<in> range (fingerprint_of C) \<Longrightarrow>
    set ids \<inter> I \<noteq> {} \<Longrightarrow> audit_step C I a (a\<lparr>au_replans := au_replans a @ [(p, fp, ids, True)]\<rparr>)"

subsection \<open>The audit system comes to rest\<close>

definition audit_count :: "pipeline_step \<Rightarrow> string \<Rightarrow> string \<Rightarrow> audit \<Rightarrow> nat" where
  "audit_count p fp x a = length (filter (\<lambda>(p', fp', ids, _). p' = p \<and> fp' = fp \<and> x \<in> set ids) (au_replans a))"

definition replan_cap :: "('a, 'r, 'w) services \<Rightarrow> nat" where
  "replan_cap C = nat (max 0 (cx_max_replans C)) + 1"

definition free_turns :: "('a, 'r, 'w) services \<Rightarrow> audit \<Rightarrow> nat" where
  "free_turns C a = nat (max 0 (cx_max_turns_total C)) - length (au_turns a)"

definition free_replans :: "('a, 'r, 'w) services \<Rightarrow> string set \<Rightarrow> audit \<Rightarrow> nat" where
  "free_replans C I a =
     (\<Sum>(p, fp, x) \<in> UNIV \<times> range (fingerprint_of C) \<times> I. replan_cap C - audit_count p fp x a)"

text \<open>Free turns, then free replans, then the scheduled replans, then the open turns.\<close>

definition potential :: "('a, 'r, 'w) services \<Rightarrow> string set \<Rightarrow> audit \<Rightarrow> nat \<times> nat \<times> nat \<times> nat" where
  "potential C I a =
     (free_turns C a, free_replans C I a, length (filter (\<lambda>(_, _, _, b). b) (au_replans a)), length (filter id (au_turns a)))"

lemma limit_cap: "replan_limit C p t \<le> int (replan_cap C)"
  by (auto simp: replan_limit_def replan_cap_def Let_def split: option.splits)

lemma filter_le: "(\<And>x. P x \<Longrightarrow> Q x) \<Longrightarrow> length (filter P xs) \<le> length (filter Q xs)"
  by (induction xs) (auto simp: le_Suc_eq)

lemma finite_steps: "finite (UNIV :: pipeline_step set)"
  by (metis List.finite_set set_canonical)

lemma count_uses: "x \<in> set ids \<Longrightarrow> audit_count p fp x a \<le> audit_uses p fp ids a"
  unfolding audit_count_def audit_uses_def by (rule filter_le) (auto simp: meets_def list_ex_iff)

lemma filter_close: "i < length xs \<Longrightarrow> P (xs ! i) \<Longrightarrow> \<not> P y \<Longrightarrow> length (filter P (xs[i := y])) < length (filter P xs)"
proof (induction xs arbitrary: i)
  case (Cons x xs)
  then show ?case by (cases i) (auto simp: less_Suc_eq_0_disj)
qed simp

lemma filter_same: "(i < length xs \<Longrightarrow> P y = P (xs ! i)) \<Longrightarrow> length (filter P (xs[i := y])) = length (filter P xs)"
proof (induction xs arbitrary: i)
  case (Cons x xs)
  show ?case
  proof (cases i)
    case (Suc k)
    have "length (filter P (xs[k := y])) = length (filter P xs)" using Cons.prems Suc by (intro Cons.IH) simp
    then show ?thesis using Suc by simp
  qed (use Cons.prems in simp)
qed simp

lemma free_replans_close:
  assumes "au_replans a ! i = (p, fp, ids, b)"
  shows "free_replans C I (a\<lparr>au_replans := (au_replans a)[i := (p, fp, ids, c)]\<rparr>) = free_replans C I a"
proof -
  have "audit_count q f x (a\<lparr>au_replans := (au_replans a)[i := (p, fp, ids, c)]\<rparr>) = audit_count q f x a" for q f x
    unfolding audit_count_def by (simp, rule filter_same) (simp add: assms)
  then show ?thesis by (simp add: free_replans_def)
qed

lemma free_replans_schedule:
  assumes fin: "finite I" "finite (range (fingerprint_of C))" and new: "x \<in> set ids" "x \<in> I" "fp \<in> range (fingerprint_of C)"
    and free: "int (audit_uses p fp ids a) < replan_limit C p t"
  shows "free_replans C I (a\<lparr>au_replans := au_replans a @ [(p, fp, ids, True)]\<rparr>) < free_replans C I a"
proof -
  let ?b = "a\<lparr>au_replans := au_replans a @ [(p, fp, ids, True)]\<rparr>"
  let ?K = "(UNIV :: pipeline_step set) \<times> range (fingerprint_of C) \<times> I"
  have grows: "audit_count q f y a \<le> audit_count q f y ?b" for q f y by (simp add: audit_count_def)
  have "audit_count p fp x ?b = Suc (audit_count p fp x a)" using new by (simp add: audit_count_def)
  moreover have "audit_count p fp x a < replan_cap C"
    using free count_uses[OF new(1), of p fp a] limit_cap[of C p t] by linarith
  ultimately have less: "replan_cap C - audit_count p fp x ?b < replan_cap C - audit_count p fp x a" by simp
  show ?thesis
    unfolding free_replans_def
  proof (rule sum_strict_mono_ex1)
    show "finite ?K" using fin finite_steps by (intro finite_cartesian_product)
    show "\<forall>k\<in>?K. (case k of (q, f, y) \<Rightarrow> replan_cap C - audit_count q f y ?b) \<le>
        (case k of (q, f, y) \<Rightarrow> replan_cap C - audit_count q f y a)"
      using grows by (auto intro: diff_le_mono2)
    show "\<exists>k\<in>?K. (case k of (q, f, y) \<Rightarrow> replan_cap C - audit_count q f y ?b) <
        (case k of (q, f, y) \<Rightarrow> replan_cap C - audit_count q f y a)"
      using less new by (intro bexI[of _ "(p, fp, x)"]) auto
  qed
qed

lemma audit_step_potential:
  assumes fin: "finite I" "finite (range (fingerprint_of C))" and "audit_step C I a b"
  shows "potential C I b < potential C I a"
  using assms(3)
proof cases
  case (close_replan i p fp ids)
  then show ?thesis
    using filter_close[OF close_replan(2), of "\<lambda>(_, _, _, b). b" "(p, fp, ids, False)"]
    by (simp add: potential_def free_turns_def free_replans_close[OF close_replan(3)])
next
  case (close_turn j)
  then show ?thesis using filter_close[OF close_turn(2), of id False]
    by (simp add: potential_def free_turns_def free_replans_def audit_count_def)
next
  case (plan c)
  then have "free_turns C b < free_turns C a" by (auto simp: free_turns_def)
  then show ?thesis by (simp add: potential_def)
next
  case (schedule p fp ids t)
  then obtain x where "x \<in> set ids" "x \<in> I" by auto
  then show ?thesis using free_replans_schedule[OF fin _ _ schedule(3,2)] schedule(1)
    by (simp add: potential_def free_turns_def)
qed

lemma audit_steps_potential:
  assumes "finite I" "finite (range (fingerprint_of C))" and "(audit_step C I)\<^sup>+\<^sup>+ a b"
  shows "potential C I b < potential C I a"
  using assms(3)
proof (induction rule: tranclp_induct)
  case (base b)
  then show ?case by (rule audit_step_potential[OF assms(1,2)])
next
  case (step b c)
  then show ?case using audit_step_potential[OF assms(1,2) step(2)] by (rule_tac order.strict_trans)
qed
subsection \<open>The driver moves the audit only by these moves\<close>

definition trail :: "('a, 'r, 'w) services \<Rightarrow> string set \<Rightarrow> ('a, 'r, 'w) pipeline \<Rightarrow> ('a, 'r, 'w) pipeline \<Rightarrow> bool" where
  "trail C I s t = (audit_step C I)\<^sup>*\<^sup>* (audit_of s) (audit_of t)"

named_theorems trail_rules \<open>actions that move the audit by its moves\<close>

lemma trail_refl [simp]: "trail C I s s"
  by (simp add: trail_def)

lemma trail_trans: "trail C I s t \<Longrightarrow> trail C I t u \<Longrightarrow> trail C I s u"
  by (simp add: trail_def)

lemma same_audit_of: "same_audit s t \<Longrightarrow> audit_of t = audit_of s"
  by (simp add: same_audit_def audit_of_def)

lemma audit_updates [simp]:
  "audit_of (s\<lparr>pl_artifacts := a\<rparr>) = audit_of s" "audit_of (s\<lparr>pl_resume := b\<rparr>) = audit_of s"
  "audit_of (s\<lparr>pl_results := c\<rparr>) = audit_of s" "audit_of (s\<lparr>pl_revision := d\<rparr>) = audit_of s"
  "audit_of (s\<lparr>pl_draft := e\<rparr>) = audit_of s" "audit_of (s\<lparr>pl_feedback := f\<rparr>) = audit_of s"
  "audit_of (s\<lparr>pl_tool := g\<rparr>) = audit_of s" "audit_of (s\<lparr>pl_batch := h\<rparr>) = audit_of s"
  "audit_of (s\<lparr>pl_observed := i\<rparr>) = audit_of s" "audit_of (s\<lparr>pl_world := j\<rparr>) = audit_of s"
  "audit_of (s\<lparr>pl_dir := k\<rparr>) = audit_of s" "audit_of (s\<lparr>pl_rest := l\<rparr>) = audit_of s" "audit_of (s\<lparr>pl_gaps := m\<rparr>) = audit_of s"
  by (simp_all add: audit_of_def)

lemma audit_actions [simp]:
  "audit_of (note_event e q s) = audit_of s" "audit_of (clear_feedback s) = audit_of s" "audit_of (cut_back p s) = audit_of s"
  "audit_of (reopen_failed_step p s) = audit_of s" "audit_of (note_events es q s) = audit_of s"
  "audit_of (start_draft C s) = audit_of s" "audit_of (set_last_result r s) = audit_of s"
  by (simp_all add: audit_of_def set_last_result_def start_draft_def)

lemma trail_same:
  "audit_of t = audit_of s \<Longrightarrow> trail C I s t"
  by (simp add: trail_def)

lemma trail_audited: "trail C I s t \<Longrightarrow> same_audit t u \<Longrightarrow> trail C I s u"
  by (simp add: trail_def same_audit_of)

lemma trail_step: "audit_step C I (audit_of s) (audit_of t) \<Longrightarrow> trail C I s t"
  by (simp add: trail_def)

lemma trail_replan:
  assumes keys: "\<And>x. rn_trigger (f x) = rn_trigger x \<and> rn_fingerprint (f x) = rn_fingerprint x \<and> rn_failures (f x) = rn_failures x"
    and status: "rn_status (f (pl_replans s ! i)) = Scheduled \<Longrightarrow> rn_status (pl_replans s ! i) = Scheduled"
  shows "trail C I s (set_replan i f s)"
proof (cases "i < length (pl_replans s)")
  case False
  then show ?thesis by (simp add: trail_def set_replan_def list_update_beyond audit_of_def)
next
  case True
  let ?r = "pl_replans s ! i"
  let ?e = "\<lambda>b. (rn_trigger ?r, rn_fingerprint ?r, rn_failures ?r, b)"
  have at: "au_replans (audit_of s) ! i = ?e (rn_status ?r = Scheduled)" "i < length (au_replans (audit_of s))"
    using True by (simp_all add: audit_of_def)
  have after: "audit_of (set_replan i f s) =
      (audit_of s)\<lparr>au_replans := (au_replans (audit_of s))[i := ?e (rn_status (f ?r) = Scheduled)]\<rparr>"
    using keys by (simp add: audit_of_def set_replan_def map_update)
  show ?thesis
  proof (cases "rn_status (f ?r) = Scheduled \<longleftrightarrow> rn_status ?r = Scheduled")
    case True
    then have "(au_replans (audit_of s))[i := ?e (rn_status (f ?r) = Scheduled)] = au_replans (audit_of s)"
      using at(1) list_update_id[of "au_replans (audit_of s)" i] by simp
    then show ?thesis using after by (simp add: trail_def)
  next
    case False
    then have "rn_status (f ?r) \<noteq> Scheduled" "rn_status ?r = Scheduled" using status by blast+
    then have "audit_step C I (audit_of s) (audit_of (set_replan i f s))"
      unfolding after using at by (auto intro!: audit_step.close_replan)
    then show ?thesis by (rule trail_step)
  qed
qed

lemma trail_turn:
  assumes "open_turn (f (pl_turns s ! j)) \<Longrightarrow> open_turn (pl_turns s ! j)"
  shows "trail C I s (set_turn j f s)"
proof (cases "j < length (pl_turns s)")
  case False
  then show ?thesis by (simp add: trail_def set_turn_def list_update_beyond audit_of_def)
next
  case True
  let ?t = "pl_turns s ! j"
  have at: "au_turns (audit_of s) ! j = open_turn ?t" "j < length (au_turns (audit_of s))"
    using True by (simp_all add: audit_of_def)
  have after: "audit_of (set_turn j f s) = (audit_of s)\<lparr>au_turns := (au_turns (audit_of s))[j := open_turn (f ?t)]\<rparr>"
    by (simp add: audit_of_def set_turn_def map_update)
  show ?thesis
  proof (cases "open_turn (f ?t) \<longleftrightarrow> open_turn ?t")
    case True
    then have "(au_turns (audit_of s))[j := open_turn (f ?t)] = au_turns (audit_of s)"
      using at(1) list_update_id[of "au_turns (audit_of s)" j] by simp
    then show ?thesis using after by (simp add: trail_def)
  next
    case False
    then have "\<not> open_turn (f ?t)" "open_turn ?t" using assms by blast+
    then have "audit_step C I (audit_of s) (audit_of (set_turn j f s))"
      unfolding after using at by (auto intro!: audit_step.close_turn)
    then show ?thesis by (rule trail_step)
  qed
qed

text \<open>An action whose states, after a return or an exception, lie on the trail from \<open>s0\<close>.\<close>

abbreviation on_trail :: "('a, 'r, 'w) services \<Rightarrow> string set \<Rightarrow> ('a, 'r, 'w) pipeline \<Rightarrow>
    ((step_error, 'x) result \<times> ('a, 'r, 'w) pipeline) \<Rightarrow> bool" where
  "on_trail C I s0 \<equiv> outcome_in (\<lambda>_. trail C I s0) (trail C I s0)"

lemma trail_then:
  assumes "on_trail C I s0 (f s)" and "\<And>x t. f s = (Inr x, t) \<Longrightarrow> trail C I s0 t \<Longrightarrow> outcome_in Q (trail C I s0) (k x t)"
  shows "outcome_in Q (trail C I s0) (run_then f k s)"
  using assms by (rule outcome_then)

lemma trail_kept:
  assumes "outcome_in (\<lambda>_. same_audit s) (same_audit s) p" and "trail C I s0 s"
  shows "on_trail C I s0 p"
  by (rule outcome_mono[OF assms(1)]) (use assms(2) in \<open>auto intro: trail_trans trail_same same_audit_of\<close>)

lemmas trail_audit [trail_rules] =
  audit_kept(1)[THEN trail_kept] audit_kept(2)[THEN trail_kept] audit_kept(3)[THEN trail_kept]
  audit_kept(4)[THEN trail_kept] audit_kept(5)[THEN trail_kept]

lemma trail_give [simp]: "trail C I s0 s \<Longrightarrow> on_trail C I s0 (give x s)"
  by simp

lemma trail_retire [trail_rules]: "trail C I s0 s \<Longrightarrow> on_trail C I s0 (retire C Q js s)"
proof (induction js arbitrary: s)
  case (Cons j js)
  have "trail C I s0 (set_replan j (\<lambda>r. r\<lparr>rn_baseline := None, rn_status := Deferred, rn_after := Some (rn_before r)\<rparr>) t)"
    if "trail C I s0 t" for t
    by (rule trail_trans[OF that trail_replan]) simp_all
  then show ?case using Cons by (auto simp: Let_def intro!: trail_then trail_audit)
qed simp

lemma replan_at: "i < length (pl_replans s) \<Longrightarrow> pl_replans (set_replan i f s) ! i = f (pl_replans s ! i)"
  by (simp add: set_replan_def)

lemma trail_reject:
  assumes s: "trail C I s0 s" and i: "i < length (pl_replans s)"
  shows "outcome_in (\<lambda>_ t. trail C I s0 t \<and> i < length (pl_replans t) \<and> rn_status (pl_replans t ! i) \<noteq> Scheduled)
    (trail C I s0) (reject_replan C pipe i r s)"
proof -
  let ?Q = "\<lambda>t. trail C I s0 t \<and> i < length (pl_replans t) \<and> rn_status (pl_replans t ! i) \<noteq> Scheduled"
  have same: "?Q u" if "?Q t" "same_audit t u" for t u
    using that trail_audited[of C I s0 t u] by (simp add: same_audit_def)
  have close: "?Q (close_rejected i p after r t)" if t: "?Q t" for p after t
  proof -
    let ?s1 = "set_replan i (\<lambda>r. r\<lparr>rn_baseline := None\<rparr>) t"
    have "trail C I s0 ?s1" by (rule trail_trans[OF conjunct1[OF t] trail_replan]) simp_all
    then have s1: "?Q ?s1" using t by (simp add: replan_at)
    let ?f = "\<lambda>t. t\<lparr>tn_status := TurnRejected, tn_after := Some after, tn_observation := rejected_upstream r\<rparr>"
    have "trail C I s0 (set_turn j ?f ?s1)" for j
      by (rule trail_trans[OF conjunct1[OF s1] trail_turn]) (simp add: open_turn_def)
    moreover have "pl_replans (set_turn j ?f ?s1) = pl_replans ?s1" for j by simp
    ultimately show ?thesis using s1
      by (auto simp: close_rejected_def Let_def trail_def split: option.split)
  qed
  let ?s1 = "set_replan i (\<lambda>x. x\<lparr>rn_status := Stagnated, rn_after := Some (score_of pipe s r)\<rparr>) s"
  have "trail C I s0 ?s1" by (rule trail_trans[OF s trail_replan]) simp_all
  then have s1: "?Q ?s1" using i by (simp add: replan_at)
  have undo: "outcome_in (\<lambda>_. ?Q) (trail C I s0)
      ((case rn_baseline x of None \<Rightarrow> (\<lambda>t. (Inl validation_error, t)) | Some b \<Rightarrow> restore_baseline C b) ?s1)" for x
  proof (cases "rn_baseline x")
    case (Some b)
    then show ?thesis using same[OF s1] by (auto intro!: outcome_mono[OF audit_kept(4)])
  qed (use s1 in simp)
  have report: "outcome_in (\<lambda>_. ?Q) (trail C I s0) (run_then (report_progress C) (\<lambda>_. give n) t)" if "?Q t" for t and n :: nat
    by (rule outcome_then[where R = "\<lambda>_. ?Q"]) (use same[OF that] in \<open>auto intro!: outcome_mono[OF audit_kept(1)]\<close>)
  show ?thesis
    unfolding reject_replan_def Let_def
    by (rule outcome_then[where R = "\<lambda>_. ?Q"]) (rule undo, rule report, rule close, assumption)
qed

lemma trail_settle [trail_rules]:
  assumes s: "trail C I s0 s" and j: "j < length (pl_turns s)"
  shows "on_trail C I s0 (settle_turn C V pipe j r s)"
proof -
  let ?after = "score_of pipe s r" and ?t0 = "pl_turns s ! j" and ?text = "observation_text V s r"
  define s1 where "s1 = set_turn j (\<lambda>t. t\<lparr>tn_after := Some ?after, tn_status := judge_turn ?t0 ?after (st_execution_blocked r)\<rparr>) s"
  define s2 where "s2 = set_turn j (\<lambda>t. t\<lparr>tn_observation := ?text\<rparr>) s1"
  have next': "trail C I s0 (set_turn j (\<lambda>t. t\<lparr>tn_observation := x\<rparr>) t)" "trail C I s0 (set_turn j (\<lambda>t. t\<lparr>tn_baseline := None\<rparr>) t)"
    if "trail C I s0 t" for t x
    by (rule trail_trans[OF that trail_turn], simp add: open_turn_def)+
  have s1: "trail C I s0 s1" unfolding s1_def
    by (rule trail_trans[OF s trail_turn]) (simp add: open_turn_def judge_turn_def split: if_splits)
  then have s2: "trail C I s0 s2" unfolding s2_def by (rule next'(1))
  have noted: "trail C I s0 (note_event e p t)" "trail C I s0 (reopen_failed_step p t)" if "trail C I s0 t" for e p t
    using that by (simp_all add: trail_def)
  show ?thesis
    unfolding settle_turn_def Let_def s1_def[symmetric] s2_def[symmetric]
    using s1 s2 noted next'(2)
    by (auto intro!: trail_then trail_audit split: option.split)
qed

lemma trail_pass [trail_rules]:
  assumes s: "trail C I s0 s"
  shows "on_trail C I s0 (pass_gate C V p r s)"
proof -
  have "trail C I s0 (note_event e p (set_replan i (\<lambda>r. r\<lparr>rn_baseline := None, rn_status := Recovered, rn_after := Some z\<rparr>) t))"
    if "trail C I s0 t" for e i z t
  proof -
    have "trail C I s0 (set_replan i (\<lambda>r. r\<lparr>rn_baseline := None, rn_status := Recovered, rn_after := Some z\<rparr>) t)"
      by (rule trail_trans[OF that trail_replan]) simp_all
    then show ?thesis by (simp add: trail_def)
  qed
  then show ?thesis unfolding pass_gate_def using s
    by (auto intro!: trail_then trail_audit split: option.split)
qed

text \<open>A planned turn is open or exhausted, and the failures it is about include those of the result.\<close>

lemma settle_decision_failures:
  assumes "settle_decision C V P s r allowed local proposal fallback = (d, used, r', ids)"
  shows "set ids = set (failure_ids r')" "set (failure_ids r) \<subseteq> set (failure_ids r')"
  using assms by (auto simp: settle_decision_def failure_ids_def Let_def split: prod.splits option.splits if_splits)

definition planned_turn :: "nat \<Rightarrow> ('a, 'r, 'w) pipeline \<Rightarrow> bool" where
  "planned_turn j s = (j < length (pl_turns s) \<and> tn_status (pl_turns s ! j) \<in> {Planned, TurnExhausted})"

lemma trail_plan:
  assumes s: "trail C I s0 s" and room: "int (length (pl_turns s)) < max 0 (cx_max_turns_total C)"
  shows "outcome_in (\<lambda>(j, r', ids) t. trail C I s0 t \<and> length (pl_turns t) = Suc (length (pl_turns s)) \<and> planned_turn j t \<and>
      pl_replans t = pl_replans s \<and> set ids = set (failure_ids r') \<and> set (failure_ids r) \<subseteq> set (failure_ids r'))
    (trail C I s0) (plan_turn C V P r options before s)"
proof -
  obtain allowed suggested local where options: "options = (allowed, suggested, local)" by (cases options) auto
  show ?thesis
    unfolding plan_turn_def options prod.case
  proof (rule outcome_then[where R = "\<lambda>_ t. \<exists>w. t = s\<lparr>pl_world := w\<rparr>"])
    show "outcome_in (\<lambda>_ t. \<exists>w. t = s\<lparr>pl_world := w\<rparr>) (trail C I s0) (plan_recovery V r allowed suggested local s)"
      using s by (auto simp: outcome_in_def trail_def dest!: plan_recovery_frame split: prod.splits sum.splits)
  next
    fix proposal s1 assume "\<exists>w. s1 = s\<lparr>pl_world := w\<rparr>"
    then have s1: "trail C I s0 s1" "pl_replans s1 = pl_replans s" "pl_turns s1 = pl_turns s" using s by (auto simp: trail_def)
    let ?out = "\<lambda>x. outcome_in (\<lambda>(j, r', ids) t. trail C I s0 t \<and> length (pl_turns t) = Suc (length (pl_turns s)) \<and>
        planned_turn j t \<and> pl_replans t = pl_replans s \<and> set ids = set (failure_ids r') \<and>
        set (failure_ids r) \<subseteq> set (failure_ids r')) (trail C I s0) x"
    show "?out (case fallback_decision r allowed suggested local of
            Inl e \<Rightarrow> (Inl e, s1)
          | Inr fallback \<Rightarrow>
              (case settle_decision C V P s1 r allowed local proposal fallback of (d, used, r', ids) \<Rightarrow>
                 (let s2 = set_last_result r' s1;
                      t = new_turn C V P (related_turns (so_step P) (failure_ids r) s2) before d used ids s2
                  in if \<not> turn_fits t then (Inl validation_error, s2)
                     else (Inr (length (pl_turns s2), r', ids),
                       note_event (if tn_status t = TurnExhausted then ''recovery_exhausted'' else ''recovery_planned'')
                         (so_step P) (s2\<lparr>pl_turns := pl_turns s2 @ [t]\<rparr>)))))"
    proof (cases "fallback_decision r allowed suggested local")
      case (Inl e)
      then show ?thesis using s1 by simp
    next
      case (Inr fallback)
      obtain d used r' ids where sd: "settle_decision C V P s1 r allowed local proposal fallback = (d, used, r', ids)"
        by (metis prod_cases4)
      define s2 where "s2 = set_last_result r' s1"
      define t where "t = new_turn C V P (related_turns (so_step P) (failure_ids r) s2) before d used ids s2"
      define s3 where "s3 = s2\<lparr>pl_turns := pl_turns s2 @ [t]\<rparr>"
      have s2: "trail C I s0 s2" "pl_replans s2 = pl_replans s" "pl_turns s2 = pl_turns s"
        using s1 by (simp_all add: s2_def trail_def set_last_result_def audit_of_def)
      have t: "tn_status t \<in> {Planned, TurnExhausted}" by (simp add: t_def new_turn_def Let_def)
      have "audit_of s3 = (audit_of s2)\<lparr>au_turns := au_turns (audit_of s2) @ [open_turn t]\<rparr>"
        by (simp add: s3_def audit_of_def)
      moreover have "int (length (au_turns (audit_of s2))) < max 0 (cx_max_turns_total C)"
        using room s2(3) by (simp add: audit_of_def)
      ultimately have "audit_step C I (audit_of s2) (audit_of s3)" by (simp add: audit_step.plan)
      then have "trail C I s0 s3" by (rule trail_trans[OF s2(1) trail_step])
      then show ?thesis
        using Inr sd settle_decision_failures[OF sd] s2 t
        by (simp add: s2_def[symmetric] t_def[symmetric] s3_def[symmetric] Let_def)
           (auto simp: trail_def s3_def planned_turn_def nth_append)
    qed
  qed
qed

subsection \<open>Going on costs a move\<close>

definition advance :: "('a, 'r, 'w) services \<Rightarrow> string set \<Rightarrow> ('a, 'r, 'w) pipeline \<Rightarrow> ('a, 'r, 'w) pipeline \<Rightarrow> bool" where
  "advance C I s t = (audit_step C I)\<^sup>+\<^sup>+ (audit_of s) (audit_of t)"

lemma advance_changed: "trail C I s t \<Longrightarrow> audit_of s \<noteq> audit_of t \<Longrightarrow> advance C I s t"
  by (auto simp: trail_def advance_def dest: rtranclpD)

lemma advance_trail: "advance C I s t \<Longrightarrow> trail C I s t"
  by (simp add: trail_def advance_def tranclp_into_rtranclp)

lemma advance_join:
  "trail C I s t \<Longrightarrow> advance C I t u \<Longrightarrow> advance C I s u" "advance C I s t \<Longrightarrow> trail C I t u \<Longrightarrow> advance C I s u"
  by (auto simp: trail_def advance_def intro: rtranclp_tranclp_tranclp tranclp_rtranclp_tranclp)

lemma advance_closed:
  assumes "trail C I s t" and "i < length (pl_replans s)" and "rn_status (pl_replans s ! i) = Scheduled"
    and "i < length (pl_replans t)" and "rn_status (pl_replans t ! i) \<noteq> Scheduled"
  shows "advance C I s t"
proof -
  have "au_replans (audit_of s) ! i \<noteq> au_replans (audit_of t) ! i" using assms by (simp add: audit_of_def)
  then show ?thesis using assms(1) by (auto intro: advance_changed)
qed

lemma open_acted:
  assumes "open_turn (pl_turns s ! j)"
  shows "trail C I s (set_turn j (\<lambda>t. t\<lparr>tn_baseline := b, tn_status := Acted, tn_revision := n\<rparr>) s)"
    "trail C I s (set_turn j (\<lambda>t. t\<lparr>tn_status := Acted, tn_revision := n\<rparr>) s)"
  by (rule trail_turn, simp add: assms)+

lemma open_noted:
  assumes "audit_of w = audit_of v" and "open_turn (pl_turns w ! j)"
  shows "trail C I v (note_event e p (set_turn j (\<lambda>t. t\<lparr>tn_status := Acted, tn_revision := pl_revision w\<rparr>) w))"
  using open_acted(2)[OF assms(2), of C I "pl_revision w"] assms(1) by (simp add: trail_def)

lemma trail_act [trail_rules]:
  assumes s: "trail C I s0 s" and j: "open_turn (pl_turns s ! j)"
  shows "on_trail C I s0 (act_turn C P j r s)"
  unfolding act_turn_def
proof (rule outcome_then[where R = "\<lambda>_ t. trail C I s0 t \<and> pl_turns t = pl_turns s"])
  show "outcome_in (\<lambda>_ t. trail C I s0 t \<and> pl_turns t = pl_turns s) (trail C I s0)
      (capture_baseline C (cx_new_id C (pl_world s)) s)"
  proof -
    have "trail C I s0 t \<and> pl_turns t = pl_turns s" if "same_audit s t" for t
      using trail_audited[OF s that] that by (simp add: same_audit_def)
    then show ?thesis by (intro outcome_mono[OF audit_kept(5)]) blast+
  qed
next
  fix b t assume t: "trail C I s0 t \<and> pl_turns t = pl_turns s"
  let ?u = "launch_turn (so_step P) j r b t"
  let ?v = "t\<lparr>pl_revision := pl_revision t + 1\<rparr>"
  have "audit_of ?u = audit_of (set_turn j (\<lambda>x. x\<lparr>tn_baseline := Some b, tn_status := Acted, tn_revision := pl_revision ?v\<rparr>) ?v)"
    by (simp add: launch_turn_def Let_def split: option.split)
  moreover have "trail C I ?v (set_turn j (\<lambda>x. x\<lparr>tn_baseline := Some b, tn_status := Acted, tn_revision := pl_revision ?v\<rparr>) ?v)"
    by (rule open_acted) (use t j in simp)
  ultimately have "trail C I t ?u" by (simp add: trail_def)
  then have "trail C I s0 ?u" using t trail_trans by blast
  then show "on_trail C I s0 (report_progress C ?u)" by (rule trail_audit(1))
qed

lemma audit_uses_of: "audit_uses p fp ids (audit_of s) = length (prior_replans p fp ids s)"
  by (simp add: audit_uses_def prior_replans_def audit_of_def filter_map o_def)

lemma meets_set: "set xs = set ys \<Longrightarrow> meets xs = meets ys"
  by (rule ext) (simp add: meets_def list_ex_iff)

lemma trail_schedule:
  assumes s: "trail C I s0 s" and free: "int (length (prior_replans (so_step P) fp ids s)) < replan_limit C (so_step P) (Some target)"
    and fp: "fp = fingerprint_of C (dget (pl_artifacts s) target)"
    and ids: "set ids = set (failure_ids r)" "set (failure_ids r) \<inter> I \<noteq> {}"
    and turn: "\<And>j. turn = Some j \<Longrightarrow> open_turn (pl_turns s ! j)"
  shows "outcome_in (\<lambda>_. advance C I s0) (trail C I s0) (schedule_replan C V P r before turn target uses s)"
  unfolding schedule_replan_def
proof (rule outcome_then[where R = "\<lambda>_ t. trail C I s0 t \<and> same_audit s t \<and> pl_artifacts t = pl_artifacts s"])
  have "trail C I s0 t \<and> same_audit s t \<and> pl_artifacts t = pl_artifacts s" if "\<exists>d. t = s\<lparr>pl_dir := d\<rparr>" for t
  proof -
    have "same_audit s t" using that by (auto simp: same_audit_def)
    then show ?thesis using trail_audited[OF s] that by auto
  qed
  then show "outcome_in (\<lambda>_ t. trail C I s0 t \<and> same_audit s t \<and> pl_artifacts t = pl_artifacts s) (trail C I s0)
      (capture_baseline C (cx_new_id C (pl_world s)) s)"
    by (intro outcome_mono[OF outcome_capture]) blast+
next
  fix b t assume t: "trail C I s0 t \<and> same_audit s t \<and> pl_artifacts t = pl_artifacts s"
  let ?p = "so_step P" and ?entry = "new_replan C V (so_step P) r before turn target uses b t"
  let ?u = "launch_replan ?p turn target ?entry t"
  let ?v = "t\<lparr>pl_replans := pl_replans t @ [?entry], pl_revision := pl_revision t + 1\<rparr>"
  have same: "prior_replans ?p fp ids s = prior_replans ?p fp (failure_ids r) t"
    using t ids(1) by (simp add: prior_replans_def same_audit_def meets_set[OF ids(1)])
  have "audit_of ?v = (audit_of t)\<lparr>au_replans := au_replans (audit_of t) @ [(?p, fp, failure_ids r, True)]\<rparr>"
    using t fp by (simp add: audit_of_def new_replan_def)
  moreover have "audit_step C I (audit_of t) ((audit_of t)\<lparr>au_replans := au_replans (audit_of t) @ [(?p, fp, failure_ids r, True)]\<rparr>)"
  proof (rule audit_step.schedule)
    show "int (audit_uses ?p fp (failure_ids r) (audit_of t)) < replan_limit C ?p (Some target)"
      unfolding audit_uses_of using free same by simp
    show "fp \<in> range (fingerprint_of C)" using fp by simp
  qed (rule ids(2))
  ultimately have v: "advance C I t ?v" by (simp add: advance_def tranclp.r_into_trancl)
  have "trail C I ?v ?u"
  proof (cases turn)
    case None
    then show ?thesis by (auto simp: launch_replan_def Let_def trail_def split: option.split)
  next
    case (Some j)
    then have j: "open_turn (pl_turns ?v ! j)" using turn t by (simp add: same_audit_def)
    show ?thesis unfolding launch_replan_def Let_def Some option.case
      by (rule open_noted) (use j in \<open>simp_all split: option.split\<close>)
  qed
  then have "advance C I s0 ?u" using t v advance_join by blast
  moreover from this have "advance C I s0 x" if "same_audit ?u x" for x
    using that by (simp add: advance_def same_audit_of)
  ultimately show "outcome_in (\<lambda>_. advance C I s0) (trail C I s0) (report_progress C ?u)"
    by (intro outcome_mono[OF audit_kept(1)]) (blast intro: advance_trail)+
qed

lemma trail_end: "trail C I s (end_recovery p before spent turn s)"
proof -
  have noted: "trail C I s (note_event e q t)" if "trail C I s t" for e q t using that by (simp add: trail_def)
  have r: "trail C I s (set_replan i (\<lambda>r. r\<lparr>rn_status := st, rn_after := x\<rparr>) s)" if "st \<noteq> Scheduled" for i x st
    by (rule trail_replan) (use that in simp_all)
  have t: "trail C I s (set_turn j (\<lambda>t. t\<lparr>tn_status := st, tn_after := x, tn_observation := y\<rparr>) t)"
    if "trail C I s t" "st \<notin> {Planned, Acted}" for j st x y t
    by (rule trail_trans[OF that(1) trail_turn]) (use that(2) in \<open>simp add: open_turn_def\<close>)
  show ?thesis unfolding end_recovery_def Let_def
    by (auto intro!: noted t r split: option.split)
qed

lemma end_recovery_replans:
  "length (pl_replans (end_recovery p before spent turn s)) = length (pl_replans s)"
  by (auto simp: end_recovery_def Let_def split: option.split)

lemma rollback_open:
  assumes "rollback_choice (Some j) suggested s = Inr (Some target)" and "planned_turn j s"
  shows "open_turn (pl_turns s ! j)"
  using assms by (auto simp: rollback_choice_def planned_turn_def open_turn_def Let_def split: if_splits)

text \<open>What going on from \<open>s\<close> costs: \<open>m\<close> is where the loop goes.\<close>

definition paid :: "('a, 'r, 'w) services \<Rightarrow> string set \<Rightarrow> ('a, 'r, 'w) pipeline \<Rightarrow> next_move \<Rightarrow> ('a, 'r, 'w) pipeline \<Rightarrow> bool" where
  "paid C I s m t = (trail C I s t \<and> (m = Halt \<or> advance C I s t))"

lemma reject_paid:
  assumes s: "trail C I s u" and i: "i < length (pl_replans s)" "rn_status (pl_replans s ! i) = Scheduled"
    and len: "length (pl_replans u) = length (pl_replans s)"
  shows "outcome_in (paid C I s) (trail C I s) (run_then (reject_replan C pipe i r) go_on u)"
proof (rule outcome_then)
  show "outcome_in (\<lambda>_ t. trail C I s t \<and> i < length (pl_replans t) \<and> rn_status (pl_replans t ! i) \<noteq> Scheduled)
      (trail C I s) (reject_replan C pipe i r u)"
    by (rule trail_reject[OF s]) (use i len in simp)
next
  fix n t assume t: "trail C I s t \<and> i < length (pl_replans t) \<and> rn_status (pl_replans t ! i) \<noteq> Scheduled"
  then have "advance C I s t" using advance_closed i by blast
  then show "outcome_in (paid C I s) (trail C I s) (go_on n t)" using t by (simp add: paid_def)
qed

definition scheduled_at :: "nat option \<Rightarrow> ('a, 'r, 'w) pipeline \<Rightarrow> bool" where
  "scheduled_at replan s = (case replan of None \<Rightarrow> True
     | Some i \<Rightarrow> i < length (pl_replans s) \<and> rn_status (pl_replans s ! i) = Scheduled)"

lemma replan_or_end_paid:
  assumes replan: "scheduled_at replan s" and turn: "\<And>j. turn = Some j \<Longrightarrow> planned_turn j s"
    and ids: "set ids = set (failure_ids r)" "set (failure_ids r) \<inter> I \<noteq> {}"
  shows "outcome_in (paid C I s) (trail C I s) (replan_or_end C V pipe P replan suggested before (turn, r, ids) s)"
proof (cases "rollback_choice turn suggested s")
  case (Inl e)
  then show ?thesis by (simp add: replan_or_end_def)
next
  case (Inr target)
  let ?p = "so_step P"
  define fp where "fp = fingerprint_of C (case target of None \<Rightarrow> None | Some t \<Rightarrow> dget (pl_artifacts s) t)"
  define uses where "uses = length (prior_replans ?p fp ids s)"
  let ?limit = "replan_limit C ?p target"
  have eq: "replan_or_end C V pipe P replan suggested before (turn, r, ids) s =
     (if target \<noteq> None \<and> the target < ?p \<and> int uses < ?limit then
        run_then (schedule_replan C V P r before turn (the target) uses) (\<lambda>_. go_on (order_index (the target))) s
      else (let s1 = end_recovery ?p before (int uses \<ge> ?limit) turn s in
            if has_baseline replan s1 then run_then (reject_replan C pipe (the replan) r) go_on s1
            else run_then (call_completed V r) (\<lambda>_. give Halt) (note_events (map failure_event (st_failures r)) ?p s1)))"
    by (simp only: replan_or_end_def prod.case Inr sum.case Let_def fp_def uses_def)
  show ?thesis
  proof (cases "target \<noteq> None \<and> the target < ?p \<and> int uses < ?limit")
    case True
    then obtain q where q: "target = Some q" by auto
    have "outcome_in (\<lambda>_. advance C I s) (trail C I s) (schedule_replan C V P r before turn q uses s)"
    proof (rule trail_schedule[OF trail_refl])
      show "int (length (prior_replans ?p fp ids s)) < replan_limit C ?p (Some q)" using True q by (simp add: uses_def)
      show "fp = fingerprint_of C (dget (pl_artifacts s) q)" using q by (simp add: fp_def)
      show "open_turn (pl_turns s ! j)" if "turn = Some j" for j
        using rollback_open[of j suggested s q] turn[OF that] Inr that q by simp
    qed (rule ids)+
    then have "outcome_in (paid C I s) (trail C I s)
        (run_then (schedule_replan C V P r before turn q uses) (\<lambda>_. go_on (order_index q)) s)"
      by (rule outcome_then) (simp add: paid_def advance_trail)
    then show ?thesis using eq True q by simp
  next
    case False
    define u where "u = end_recovery ?p before (int uses \<ge> ?limit) turn s"
    have u: "trail C I s u" "length (pl_replans u) = length (pl_replans s)"
      unfolding u_def by (rule trail_end, rule end_recovery_replans)
    have reject: "outcome_in (paid C I s) (trail C I s) (run_then (reject_replan C pipe (the replan) r) go_on u)"
      if "has_baseline replan u"
    proof -
      obtain i where "replan = Some i" using \<open>has_baseline replan u\<close> by (auto simp: has_baseline_def split: option.splits)
      then show ?thesis using reject_paid[OF u(1) _ _ u(2), of i] replan by (simp add: scheduled_at_def)
    qed
    have "outcome_in (paid C I s) (trail C I s)
        (run_then (call_completed V r) (\<lambda>_. give Halt) (note_events (map failure_event (st_failures r)) ?p u))"
      by (rule trail_then[OF trail_audit(2)]) (use u(1) in \<open>simp_all add: trail_def paid_def\<close>)
    then show ?thesis unfolding eq if_not_P[OF False] Let_def u_def[symmetric] using reject by simp
  qed
qed

lemma recover_paid:
  assumes replan: "scheduled_at replan s" and named: "set (failure_ids r) \<inter> I \<noteq> {}"
  shows "outcome_in (paid C I s) (trail C I s) (recover C V pipe index P replan r s)"
proof (cases "has_baseline replan s \<and> \<not> extends_candidate C P replan r s")
  case True
  then obtain i where i: "replan = Some i" by (auto simp: has_baseline_def split: option.splits)
  have "outcome_in (paid C I s) (trail C I s) (run_then (reject_replan C pipe i r) go_on s)"
    by (rule reject_paid) (use replan i in \<open>simp_all add: scheduled_at_def\<close>)
  then show ?thesis using True i by (simp add: recover_def)
next
  case False
  define s1 where "s1 = (if extends_candidate C P replan r s
      then set_replan (the replan) (\<lambda>x. x\<lparr>rn_intermediate := rn_intermediate x + 1\<rparr>) s else s)"
  have s1: "trail C I s s1" unfolding s1_def by (auto intro!: trail_replan)
  have r1: "scheduled_at replan s1" using replan unfolding s1_def scheduled_at_def
    by (auto simp: set_replan_def nth_list_update split: option.splits)
  let ?options = "recovery_options C V P r (replan \<noteq> None) s1" and ?before = "score_of pipe s1 r"
  have join: "outcome_in (paid C I s) (trail C I s) x" if "trail C I s u" "outcome_in (paid C I u) (trail C I u) x" for u x
    by (rule outcome_mono[OF that(2)]) (use that(1) in \<open>auto simp: paid_def intro: trail_trans advance_join\<close>)
  show ?thesis
  proof (cases "agentic_budget C (related_turns (so_step P) (failure_ids r) s1) s1")
    case True
    let ?k = "\<lambda>(j, r', ids) s2. if starts_candidate (pl_turns s2 ! j) then run_then (act_turn C P j r') (\<lambda>_. go_on index) s2
        else replan_or_end C V pipe P replan (fst (snd ?options)) ?before (Some j, r', ids) s2"
    let ?R = "\<lambda>(j, r', ids) t. trail C I s1 t \<and> length (pl_turns t) = Suc (length (pl_turns s1)) \<and> planned_turn j t \<and>
      pl_replans t = pl_replans s1 \<and> set ids = set (failure_ids r') \<and> set (failure_ids r) \<subseteq> set (failure_ids r')"
    have "outcome_in (paid C I s) (trail C I s) (run_then (plan_turn C V P r ?options ?before) ?k s1)"
    proof (rule outcome_then)
      show "outcome_in ?R (trail C I s) (plan_turn C V P r ?options ?before s1)"
        by (rule outcome_mono[OF trail_plan[OF trail_refl]]) (use True s1 in \<open>auto simp: agentic_budget_def intro: trail_trans\<close>)
    next
      fix x s2 assume x: "?R x s2"
      obtain j r' ids where xe: "x = (j, r', ids)" by (cases x) auto
      have s2: "trail C I s1 s2" "length (pl_turns s2) = Suc (length (pl_turns s1))" "planned_turn j s2"
        "set ids = set (failure_ids r')" "set (failure_ids r') \<inter> I \<noteq> {}"
        using x named unfolding xe by auto
      have "au_turns (audit_of s1) \<noteq> au_turns (audit_of s2)"
        using s2(2) by (auto simp: audit_of_def dest: arg_cong[of _ _ length])
      then have "advance C I s1 s2" using s2(1) by (auto intro: advance_changed)
      then have adv: "advance C I s s2" using s1 advance_join by blast
      have onward: "advance C I s u" "trail C I s u" if "trail C I s2 u \<or> advance C I s u" for u
        using that advance_join(2)[OF adv] advance_trail by blast+
      have here: "scheduled_at replan s2" using x r1 unfolding xe by (auto simp: scheduled_at_def split: option.splits)
      show "outcome_in (paid C I s) (trail C I s) (?k x s2)"
      proof (cases "starts_candidate (pl_turns s2 ! j)")
        case True
        then have "open_turn (pl_turns s2 ! j)" using s2(3) by (auto simp: starts_candidate_def planned_turn_def open_turn_def)
        then have "on_trail C I s2 (act_turn C P j r' s2)" by (intro trail_act) simp_all
        then have "outcome_in (paid C I s) (trail C I s) (run_then (act_turn C P j r') (\<lambda>_. go_on index) s2)"
          using onward by (intro outcome_then[where R = "\<lambda>_. advance C I s"]) (auto simp: paid_def elim!: outcome_mono)
        then show ?thesis using True xe by simp
      next
        case no: False
        have "outcome_in (paid C I s2) (trail C I s2)
            (replan_or_end C V pipe P replan (fst (snd ?options)) ?before (Some j, r', ids) s2)"
          by (rule replan_or_end_paid[OF here _ s2(4,5)]) (use s2(3) in simp)
        from join[OF advance_trail[OF adv] this] show ?thesis using no xe by simp
      qed
    qed
    then show ?thesis using True unfolding recover_def Let_def s1_def[symmetric] if_not_P[OF False] by simp
  next
    case no: False
    have "outcome_in (paid C I s1) (trail C I s1)
        (replan_or_end C V pipe P replan (fst (snd ?options)) ?before (None, r, failure_ids r) s1)"
      by (rule replan_or_end_paid[OF r1]) (use named in simp_all)
    from join[OF s1 this] show ?thesis using no unfolding recover_def Let_def s1_def[symmetric] if_not_P[OF False] by simp
  qed
qed

subsection \<open>The engine whose failures have names of a known set\<close>

text \<open>
  The engine contract again, with the names: \<open>naming C I P\<close> says that the failures of the step
  \<open>P\<close> have their identifiers in \<open>I\<close>; then a blocked result has at least one.
\<close>

locale named_engine = step_engine run lawful
  for run :: "('a, 'r, 'w) services \<Rightarrow> ('a, 'r, 'w) engine" and lawful :: "('a, 'r, 'w) services \<Rightarrow> bool" +
  fixes naming :: "('a, 'r, 'w) services \<Rightarrow> string set \<Rightarrow> ('a, 'r, 'w) step_ops \<Rightarrow> bool"
  assumes run_named: "lawful C \<Longrightarrow> naming C I P \<Longrightarrow> run C P s = (Inr r, t) \<Longrightarrow>
      set (failure_ids r) \<subseteq> I \<and> (st_blocked r \<longrightarrow> failure_ids r \<noteq> [])"
    and captured_named: "naming C I P \<Longrightarrow> fl_id (captured_failure C V (so_step P) e) \<in> I"
begin

lemma attempt_named:
  assumes lawful: "lawful C" and naming: "naming C I P"
  shows "outcome_in (\<lambda>r t. same_audit s t \<and> (st_blocked r \<longrightarrow> set (failure_ids r) \<inter> I \<noteq> {})) (same_audit s)
    (attempt_step (run C) C V P recovering n s)"
proof (induction n arbitrary: s rule: less_induct)
  case (less n)
  obtain x t where run: "run C P s = (x, t)" by fastforce
  define t' where "t' = (if recovering then clear_feedback t else t)"
  show ?case
  proof (cases x)
    case (Inr r)
    have "same_audit s t" using run_ok[OF lawful run[unfolded Inr] empty_subsetI] by (simp add: engine_frame_def same_audit_def)
    moreover have "st_blocked r \<longrightarrow> set (failure_ids r) \<inter> I \<noteq> {}"
      using run_named[OF lawful naming run[unfolded Inr]] by (cases "failure_ids r") auto
    ultimately show ?thesis using run Inr by (subst attempt_step.simps) (simp add: same_audit_def)
  next
    case (Inl e)
    have t': "same_audit s t'"
      using run_failed[OF lawful run[unfolded Inl] empty_subsetI] by (simp add: t'_def engine_frame_def same_audit_def)
    let ?f = "captured_failure C V (so_step P) e" and ?r = "captured_result C V (so_step P) e"
    have eq: "attempt_step (run C) C V P recovering n s =
      (if \<not> cx_capture_errors C then (Inl e, t')
       else if fl_recoverability ?f = Retryable \<and> n > 0 then attempt_step (run C) C V P recovering (n - 1) t'
       else (Inr ?r, t'\<lparr>pl_results := pl_results t' @ [?r]\<rparr>))"
      using run Inl by (subst attempt_step.simps) (simp add: t'_def Let_def)
    have "fl_id ?f \<in> I" by (rule captured_named[OF naming])
    then have ids: "set (failure_ids ?r) \<inter> I \<noteq> {}" by (simp add: captured_result_def failure_ids_def Let_def)
    have again: "outcome_in (\<lambda>r t. same_audit s t \<and> (st_blocked r \<longrightarrow> set (failure_ids r) \<inter> I \<noteq> {})) (same_audit s)
        (attempt_step (run C) C V P recovering (n - 1) t')" if "n > 0"
      by (rule outcome_mono[OF less.IH]) (use that t' in \<open>auto simp: same_audit_def\<close>)
    have "same_audit s (t'\<lparr>pl_results := pl_results t' @ [?r]\<rparr>)" using t' by (simp add: same_audit_def)
    then show ?thesis unfolding eq using t' again ids by simp
  qed
qed

lemma step_paid:
  assumes lawful: "lawful C" and naming: "naming C I P"
  shows "outcome_in (\<lambda>m t. trail C I s t \<and> (\<forall>i f. m = Onward i f \<longrightarrow> advance C I s t \<or> i = Suc index)) (trail C I s)
    (drive_step (run C) C V pipe index finished P s)"
proof -
  let ?p = "so_step P"
  define replan turn where "replan = active_replan ?p s" and "turn = active_turn ?p s"
  define s0 where "s0 = instruct ?p replan turn s"
  have s0: "same_audit s s0" by (simp add: s0_def instruct_def same_audit_def Let_def split: option.split)
  let ?Q = "\<lambda>m t. trail C I s t \<and> (\<forall>i f. m = Onward i f \<longrightarrow> advance C I s t \<or> i = Suc index)"
  let ?n = "nat (max 0 (cx_execution_retries C))"
  let ?verdict = "\<lambda>r. case turn of None \<Rightarrow> give False | Some j \<Rightarrow> settle_turn C V pipe j r"
  let ?next = "\<lambda>r undone s1.
        if undone then go_on (order_index (tn_step (pl_turns s1 ! the turn))) s1
        else if can_continue C r then
          run_then (pass_gate C V ?p r) (\<lambda>_. give (Onward (index + 1) (finished @ [?p]))) s1
        else if cx_draft_first C then run_then (report_progress C) (\<lambda>_. give Halt) s1
        else if st_blocked r then recover C V pipe index P replan r s1
        else (Inr (Onward index finished), s1)"
  let ?R = "\<lambda>r t. same_audit s t \<and> (st_blocked r \<longrightarrow> set (failure_ids r) \<inter> I \<noteq> {})"
  have "outcome_in ?Q (trail C I s) (run_then
      (attempt_step (run C) C V P (replan \<noteq> None \<or> turn \<noteq> None) ?n)
      (\<lambda>r. run_then (?verdict r) (?next r)) s0)"
  proof (rule outcome_then[where R = ?R])
    have "same_audit s u" "trail C I s u" if "same_audit s0 u" for u
      using that s0 trail_audited[OF trail_audited[OF trail_refl s0] that] by (simp_all add: same_audit_def)
    then show "outcome_in ?R (trail C I s) (attempt_step (run C) C V P (replan \<noteq> None \<or> turn \<noteq> None) ?n s0)"
      by (intro outcome_mono[OF attempt_named[OF lawful naming]]) blast+
  next
    fix r t assume t: "?R r t"
    have st: "trail C I s t" using t by (simp add: trail_same same_audit_of)
    have turn_in: "j < length (pl_turns t)" "open_turn (pl_turns t ! j)" "open_turn (pl_turns s ! j)" if "turn = Some j" for j
      using that t last_index_Some[of _ "pl_turns s" j]
      by (auto simp: turn_def active_turn_def same_audit_def open_turn_def)
    let ?V = "\<lambda>undone u. trail C I s u \<and> pl_replans u = pl_replans s \<and> (undone \<longrightarrow> advance C I s u)"
    show "outcome_in ?Q (trail C I s) (run_then (?verdict r) (?next r) t)"
    proof (rule outcome_then[where R = ?V])
      show "outcome_in ?V (trail C I s) (?verdict r t)"
      proof (cases turn)
        case (Some j)
        have "advance C I s u" if "closes_turn j t u" "trail C I s u" for u
        proof -
          from that(1) obtain x where "pl_turns u = (pl_turns t)[j := x]" "\<not> open_turn x" by (auto simp: closes_turn_def)
          then have "au_turns (audit_of u) ! j \<noteq> au_turns (audit_of s) ! j"
            using turn_in[OF Some] t by (simp add: audit_of_def same_audit_def)
          then show ?thesis using that(2) by (auto intro: advance_changed)
        qed
        then have V: "?V undone u" if "trail C I s u \<and> closes_turn j t u" for undone u
          using that t by (simp add: closes_turn_def same_audit_def)
        have "outcome_in (\<lambda>_. closes_turn j t) (\<lambda>_. True) (settle_turn C V pipe j r t)"
          by (rule settle_closes) (use turn_in[OF Some] in simp)
        from outcome_conj[OF trail_settle[OF st turn_in(1)[OF Some]] this]
        have "outcome_in ?V (trail C I s) (settle_turn C V pipe j r t)" by (rule outcome_mono) (use V in blast)+
        then show ?thesis using Some by simp
      qed (use st t in \<open>simp add: same_audit_def\<close>)
    next
      fix undone u assume u: "?V undone u"
      have pass: "outcome_in ?Q (trail C I s) (run_then (pass_gate C V ?p r) (\<lambda>_. give (Onward (index + 1) (finished @ [?p]))) u)"
        by (rule trail_then[OF trail_pass]) (use u in simp_all)
      have draft: "outcome_in ?Q (trail C I s) (run_then (report_progress C) (\<lambda>_. give Halt) u)"
        by (rule trail_then[OF trail_audit(1)]) (use u in simp_all)
      have here: "scheduled_at replan u" using u last_index_Some[of _ "pl_replans s"]
        by (auto simp: scheduled_at_def replan_def active_replan_def split: option.split)
      have join: "?Q m x" if "paid C I u m x" for m x
        using u that trail_trans[of C I s u x] advance_join(1)[of C I s u x] by (auto simp: paid_def)
      have recovered: "outcome_in ?Q (trail C I s) (recover C V pipe index P replan r u)" if "st_blocked r"
      proof -
        have "set (failure_ids r) \<inter> I \<noteq> {}" using t that by blast
        from recover_paid[OF here this] show ?thesis
          by (rule outcome_mono) (use join u trail_trans in blast)+
      qed
      have blocked: "\<not> can_continue C r \<Longrightarrow> st_blocked r" by (simp add: can_continue_def)
      show "outcome_in ?Q (trail C I s) (?next r undone u)"
      proof (cases undone)
        case True
        then show ?thesis using u by simp
      next
        case False
        then show ?thesis using pass draft recovered blocked
          by (simp only: if_not_P split: if_split) blast
      qed
    qed
  qed
  then show ?thesis unfolding drive_step_def Let_def replan_def[symmetric] turn_def[symmetric] s0_def[symmetric] .
qed

lemma drive_trail:
  assumes lawful: "lawful C" and naming: "\<forall>P \<in> set pipe. naming C I P"
  shows "drive (run C) C V pipe limit fuel index finished s = Some (res, t) \<Longrightarrow> trail C I s t"
proof (induction fuel arbitrary: index finished s)
  case (Suc fuel)
  show ?case
  proof (cases "index < length pipe \<and> order_index (so_step (pipe ! index)) \<le> limit \<and> so_step (pipe ! index) \<notin> set finished")
    case False
    then show ?thesis using Suc by (auto split: if_splits)
  next
    case True
    obtain m u where m: "drive_step (run C) C V pipe index finished (pipe ! index) s = (m, u)" by fastforce
    have "naming C I (pipe ! index)" using True naming by simp
    from step_paid[OF lawful this, of s index V pipe finished] have u: "trail C I s u"
      using m by (simp add: outcome_in_def split: sum.splits)
    then show ?thesis using Suc m True by (auto split: sum.splits next_move.splits intro: trail_trans)
  qed
qed simp

lemma prologue_trail: "on_trail C I s (prologue C s)"
proof -
  have "trail C I s (start_draft C s)" by (simp add: trail_def)
  then show ?thesis unfolding prologue_def Let_def by (auto intro!: trail_then trail_retire)
qed

lemma run_trail:
  assumes "lawful C" and "\<forall>P \<in> set pipe. naming C I P"
    and "pipeline_run (run C) C V pipe until fuel s = Some (res, t)"
  shows "trail C I s t"
proof -
  obtain x u where u: "prologue C s = (x, u)" by fastforce
  then have "trail C I s u" using prologue_trail[of C I s] by (simp add: outcome_in_def split: sum.splits)
  then show ?thesis using drive_trail[OF assms(1,2)] assms(3) u
    by (auto simp: pipeline_run_def split: sum.splits intro: trail_trans)
qed

text \<open>Every iteration moves the audit or the index, so the loop ends.\<close>

lemma drive_ends:
  assumes lawful: "lawful C" and naming: "\<forall>P \<in> set pipe. naming C I P"
    and fin: "finite I" "finite (range (fingerprint_of C))"
  shows "\<exists>fuel. drive (run C) C V pipe limit fuel index finished s \<noteq> None"
proof (induction "(potential C I (audit_of s), length pipe - index)" arbitrary: s index finished rule: less_induct)
  case less
  show ?case
  proof (cases "index < length pipe \<and> order_index (so_step (pipe ! index)) \<le> limit")
    case False
    then have "drive (run C) C V pipe limit (Suc 0) index finished s = Some (Inr (), s)" by auto
    then show ?thesis by (metis option.distinct(1))
  next
    case True
    have later: "\<exists>fuel. drive (run C) C V pipe limit fuel (Suc index) f s \<noteq> None" for f
      using diff_less_mono2[of index "Suc index" "length pipe"] True by (intro less) simp
    show ?thesis
    proof (cases "so_step (pipe ! index) \<in> set finished")
      case skip: True
      from later obtain n where "drive (run C) C V pipe limit n (Suc index) finished s \<noteq> None" by blast
      then have "drive (run C) C V pipe limit (Suc n) index finished s \<noteq> None" using True skip by simp
      then show ?thesis by blast
    next
      case go: False
      obtain m u where m: "drive_step (run C) C V pipe index finished (pipe ! index) s = (m, u)" by fastforce
      have "naming C I (pipe ! index)" using True naming by simp
      from step_paid[OF lawful this, of s index V pipe finished] have u: "trail C I s u"
        and next': "\<And>i f. m = Inr (Onward i f) \<Longrightarrow> advance C I s u \<or> i = Suc index"
        using m by (auto simp: outcome_in_def split: sum.splits)
      have onward: "\<exists>n. drive (run C) C V pipe limit n i f u \<noteq> None" if "m = Inr (Onward i f)" for i f
      proof (rule less)
        have "potential C I (audit_of u) < potential C I (audit_of s)" if "advance C I s u"
          using audit_steps_potential[OF fin] that by (simp add: advance_def)
        moreover have "audit_of u = audit_of s" if "\<not> advance C I s u"
          using that u advance_changed by metis
        ultimately show "(potential C I (audit_of u), length pipe - i) < (potential C I (audit_of s), length pipe - index)"
          using next'[OF that] diff_less_mono2[of index "Suc index" "length pipe"] True
          by (cases "advance C I s u") auto
      qed
      have "\<exists>n. drive (run C) C V pipe limit (Suc n) index finished s \<noteq> None"
      proof (cases m)
        case (Inr x)
        then show ?thesis using onward m True go by (cases x) auto
      qed (use m True go in simp)
      then show ?thesis by blast
    qed
  qed
qed

lemma run_ends:
  assumes "lawful C" and "\<forall>P \<in> set pipe. naming C I P" and "finite I" and "finite (range (fingerprint_of C))"
  shows "\<exists>fuel res t. pipeline_run (run C) C V pipe until fuel s = Some (res, t)"
proof -
  obtain x u where u: "prologue C s = (x, u)" by fastforce
  obtain fuel where "drive (run C) C V pipe (limit_index pipe until) fuel 0 (completed_steps u) u \<noteq> None"
    using drive_ends[OF assms] by blast
  then have "pipeline_run (run C) C V pipe until fuel s \<noteq> None" using u by (auto simp: pipeline_run_def split: sum.split)
  then show ?thesis by (metis not_None_eq prod.exhaust)
qed

end

subsection \<open>The names of a step's failures\<close>

text \<open>The checks of a step have their names in \<open>N\<close>.\<close>

definition checks_named :: "string set \<Rightarrow> ('a, 'r, 'w) step_ops \<Rightarrow> bool" where
  "checks_named N P = (\<forall>a s cs. fst (so_check P a s) = Inr cs \<longrightarrow> (\<forall>c \<in> set cs. cr_name c \<in> N))"

definition named_checks :: "string set \<Rightarrow> check_result list \<Rightarrow> bool" where
  "named_checks N cs = (\<forall>c \<in> set cs. cr_name c \<in> N)"

lemma outcome_check: "checks_named N P \<Longrightarrow> outcome_in (\<lambda>cs _. named_checks N cs) (\<lambda>_. True) (implement (so_check P a) s)"
  by (auto simp: implement_def outcome_in_def checks_named_def named_checks_def split: prod.splits sum.splits)
     (metis fst_conv)

lemma outcome_any: "outcome_in (\<lambda>_ _. True) (\<lambda>_. True) p"
  by (simp add: outcome_in_def split: prod.split sum.split)

lemma outcome_evaluate:
  "checks_named N P \<Longrightarrow> outcome_in (\<lambda>(_, _, cs) _. named_checks N cs) (\<lambda>_. True) (evaluate_repair P k l s)"
  unfolding evaluate_repair_def
  by (rule outcome_then[OF outcome_any])
     (auto intro!: outcome_then[where R = "\<lambda>cs _. named_checks N cs"] outcome_check split: prod.split)

lemma outcome_failed: "outcome_in (\<lambda>(l', _) _. lp_checks l' = lp_checks l) (\<lambda>_. True) (repair_failed C q v l e s)"
  by (auto simp: repair_failed_def Let_def outcome_in_def split: prod.splits sum.splits)

lemma outcome_judge:
  assumes "named_checks N (lp_checks l)" and "case x of (_, _, cs) \<Rightarrow> named_checks N cs"
  shows "outcome_in (\<lambda>(l', _) _. named_checks N (lp_checks l')) (\<lambda>_. True) (judge_repair C P q v l x s)"
  using assms unfolding judge_repair_def Let_def
  by (auto intro!: outcome_then[OF outcome_any] split: prod.split)

lemma outcome_round:
  assumes named: "checks_named N P" and l: "named_checks N (lp_checks l)"
  shows "outcome_in (\<lambda>(l', _) _. named_checks N (lp_checks l')) (\<lambda>_. True) (repair_round C P setting n l s)"
  unfolding repair_round_def
proof (intro outcome_then[OF outcome_any])
  fix u snap s1
  let ?q = "attempt_record C P setting n l"
  have e: "outcome_in (\<lambda>(_, _, cs) _. named_checks N cs) (\<lambda>_. True) (evaluate_repair P (rs_knowledge setting) l s1)"
    by (rule outcome_evaluate[OF named])
  show "outcome_in (\<lambda>(l', _) _. named_checks N (lp_checks l')) (\<lambda>_. True)
      (case evaluate_repair P (rs_knowledge setting) l s1 of (Inl e, s2) \<Rightarrow> repair_failed C ?q snap l e s2
       | (Inr candidate, s2) \<Rightarrow> judge_repair C P ?q snap l candidate s2)"
  proof (cases "evaluate_repair P (rs_knowledge setting) l s1")
    case (Pair r s2)
    show ?thesis
    proof (cases r)
      case (Inl e)
      then show ?thesis using Pair l by (auto intro: outcome_mono[OF outcome_failed])
    next
      case (Inr x)
      then show ?thesis using Pair e outcome_judge[OF l, of x] by (cases x) simp
    qed
  qed
qed

lemma outcome_loop:
  assumes named: "checks_named N P"
  shows "named_checks N (lp_checks l) \<Longrightarrow>
    outcome_in (\<lambda>l' _. named_checks N (lp_checks l')) (\<lambda>_. True) (repair_loop C P setting n k l s)"
proof (induction n arbitrary: k l s)
  case (Suc n)
  then show ?case
    by (auto intro!: outcome_then[OF outcome_round[OF named Suc.prems]] split: prod.splits)
qed simp

lemma outcome_phase:
  assumes "checks_named N P" and "named_checks N checks" and "sound_score P"
  shows "outcome_in (\<lambda>x _. named_checks N (oc_checks x) \<and> (oc_blocked x \<longleftrightarrow> list_ex failed_check (oc_checks x))) (\<lambda>_. True)
    (repair_phase C P k a used checks s)"
proof -
  have "outcome_in (\<lambda>x _. named_checks N (oc_checks x)) (\<lambda>_. True) (repair_phase C P k a used checks s)"
    unfolding repair_phase_def Let_def
    using assms(2) by (auto intro!: outcome_then[OF outcome_loop[OF assms(1)]])
  moreover have "outcome_in (\<lambda>x _. oc_blocked x \<longleftrightarrow> list_ex failed_check (oc_checks x)) (\<lambda>_. True) (repair_phase C P k a used checks s)"
    using phase_result[OF _ assms(3), of C k a used checks s] unfolding outcome_in_def by (fastforce split: prod.splits sum.splits)
  ultimately show ?thesis by (auto dest: outcome_conj)
qed

lemma recorded_failures:
  assumes "rewrite_summaries P (record_result C P ids x s) = (r, t)"
  shows "st_failures r = failures_for C P (oc_available x) (oc_checks x)" "st_blocked r = oc_blocked x"
  using assms by (auto simp: rewrite_summaries_def record_result_def defer_result_def Let_def note_event_def split: prod.splits if_splits)

lemma outcome_step:
  fixes P :: "('a, 'r, 'w) step_ops"
  assumes "checks_named N P" and "sound_score P"
  shows "outcome_in (\<lambda>r _. \<exists>av cs. named_checks N cs \<and> st_failures r = failures_for C P av cs \<and>
    (st_blocked r \<longleftrightarrow> list_ex failed_check cs)) (\<lambda>_. True) (step_run C P s)"
proof -
  obtain knowledge ids where k: "so_knowledge P s = (knowledge, ids)" by fastforce
  show ?thesis
    unfolding step_run_def k prod.case
  proof (rule outcome_then[OF outcome_any])
    fix au :: "'a \<times> bool" and s1
    obtain a used where au: "au = (a, used)" by fastforce
    show "outcome_in (\<lambda>r _. \<exists>av cs. named_checks N cs \<and> st_failures r = failures_for C P av cs \<and>
        (st_blocked r \<longleftrightarrow> list_ex failed_check cs)) (\<lambda>_. True)
      ((\<lambda>(a, used). run_then (implement (so_check P a)) (\<lambda>checks.
        run_then (repair_phase C P knowledge a used checks) (\<lambda>x s1.
          case rewrite_summaries P (record_result C P ids x s1) of (r, s2) \<Rightarrow> (Inr r, s2)))) au s1)"
      unfolding au prod.case
    proof (rule outcome_then[OF outcome_check[OF assms(1)]], rule outcome_then[OF outcome_phase[OF assms(1) _ assms(2)]])
      fix checks t u and x :: "'a outcome"
      assume x: "named_checks N (oc_checks x) \<and> (oc_blocked x \<longleftrightarrow> list_ex failed_check (oc_checks x))"
      obtain r v where r: "rewrite_summaries P (record_result C P ids x u) = (r, v)" by fastforce
      show "outcome_in (\<lambda>r _. \<exists>av cs. named_checks N cs \<and> st_failures r = failures_for C P av cs \<and>
        (st_blocked r \<longleftrightarrow> list_ex failed_check cs)) (\<lambda>_. True)
        (case rewrite_summaries P (record_result C P ids x u) of (r, s2) \<Rightarrow> (Inr r, s2))"
        using x recorded_failures[OF r] by (auto simp: r)
    qed assumption
  qed
qed

text \<open>The identifiers a step's failures can have.\<close>

definition error_names :: "string set" where
  "error_names = range error_check_name"

definition failure_names :: "('a, 'r, 'w) services \<Rightarrow> string set \<Rightarrow> pipeline_step \<Rightarrow> string set" where
  "failure_names C N p = {step_name p @ '':'' @ n @ '':'' @ g | n g. n \<in> N \<union> error_names \<and> g \<in> range (cx_digest C)}"

lemma make_failure_id: "\<exists>x. fl_id (make_failure D step name message av origin reason cap refs ev) = step @ '':'' @ name @ '':'' @ D x"
  by (auto simp: make_failure_def Let_def)

definition step_names :: "('a, 'r, 'w) services \<Rightarrow> string set \<Rightarrow> ('a, 'r, 'w) step_ops \<Rightarrow> bool" where
  "step_names C I P = (sound_score P \<and> (\<exists>N. checks_named N P \<and> failure_names C N (so_step P) \<subseteq> I))"

interpretation ids: named_engine step_run "\<lambda>C. fresh_names (cx_mk C)" step_names
proof
  fix C :: "('a, 'r, 'w) services" and I and P :: "('a, 'r, 'w) step_ops" and s t :: "('a, 'r, 'w) pipeline" and r
  assume "step_names C I P" and run: "step_run C P s = (Inr r, t)"
  then obtain N where N: "checks_named N P" "sound_score P" "failure_names C N (so_step P) \<subseteq> I"
    by (auto simp: step_names_def)
  from outcome_step[OF N(1,2), of C s] run obtain av cs where r: "named_checks N cs"
    "st_failures r = failures_for C P av cs" "st_blocked r \<longleftrightarrow> list_ex failed_check cs" by auto
  have "fl_id f \<in> failure_names C N (so_step P)" if f: "f \<in> set (st_failures r)" for f
  proof -
    from f obtain c where c: "c \<in> set cs" "f = make_failure (cx_digest C) (step_name (so_step P)) (cr_name c) (cr_message c)
        (av \<and> cr_origin c \<noteq> Some ExternalEvidenceOrigin) (cr_origin c) (cr_reason c) None (cr_refs c) (cr_evidence c)"
      unfolding r(2) failures_for_def by auto
    then show ?thesis using make_failure_id r(1) by (fastforce simp: failure_names_def named_checks_def)
  qed
  moreover have "st_blocked r \<longrightarrow> failure_ids r \<noteq> []"
    using r by (auto simp: failure_ids_def failures_for_def list_ex_iff filter_empty_conv)
  ultimately show "set (failure_ids r) \<subseteq> I \<and> (st_blocked r \<longrightarrow> failure_ids r \<noteq> [])"
    using N(3) by (auto simp: failure_ids_def)
next
  fix C :: "('a, 'r, 'w) services" and I and P :: "('a, 'r, 'w) step_ops" and V :: "('a, 'r, 'w) driver" and e
  assume "step_names C I P"
  then obtain N where "failure_names C N (so_step P) \<subseteq> I" by (auto simp: step_names_def)
  then show "fl_id (captured_failure C V (so_step P) e) \<in> I"
    using make_failure_id by (fastforce simp: captured_failure_def failure_names_def error_names_def)
qed

subsection \<open>What follows for every run\<close>

text \<open>
  C12: \<^verbatim>\<open>Pipeline.run\<close> refines the audit system: from the start to any end of a run, returned or
  raised, and whatever the model proposed, the recovery history went only through its moves. No
  closed turn or replan is ever reopened, a turn is planned only while the total allows it, and a
  replan is scheduled only within the limit of its trigger, artifact and failures.
\<close>

theorem recovery_refines_audit:
  assumes "fresh_names (cx_mk C)" and "\<forall>P \<in> set pipe. sound_score P"
    and "pipeline_run (step_run C) C V pipe until fuel s = Some (res, t)"
  shows "(audit_step C UNIV)\<^sup>*\<^sup>* (audit_of s) (audit_of t)"
proof -
  have "\<forall>P \<in> set pipe. step_names C UNIV P" using assms(2) by (auto simp: step_names_def checks_named_def)
  from ids.run_trail[OF assms(1) this assms(3)] show ?thesis by (simp add: trail_def)
qed

text \<open>What the moves keep below the budgets.\<close>

lemma audit_turns_bounded:
  assumes "(audit_step C I)\<^sup>*\<^sup>* a b"
  shows "length (au_turns b) \<le> max (length (au_turns a)) (nat (cx_max_turns_total C))"
  using assms
proof (induction rule: rtranclp_induct)
  case (step b c)
  from step(2,3) show ?case by cases auto
qed simp

lemma audit_replans_bounded:
  assumes "(audit_step C I)\<^sup>*\<^sup>* a b"
  shows "audit_count p fp x b \<le> max (audit_count p fp x a) (replan_cap C)"
  using assms
proof (induction rule: rtranclp_induct)
  case (step b c)
  from step(2) show ?case
  proof cases
    case (close_replan i q f ids)
    have "audit_count p fp x c = audit_count p fp x b"
      unfolding close_replan(1) audit_count_def by (simp, rule filter_same) (simp add: close_replan)
    then show ?thesis using step by simp
  next
    case (schedule q f ids t)
    show ?thesis
    proof (cases "q = p \<and> f = fp \<and> x \<in> set ids")
      case True
      then have "audit_count p fp x b < replan_cap C"
        using schedule(2) count_uses[of x ids p fp b] limit_cap[of C p "Some t"] by simp
      then show ?thesis using schedule(1) True by (simp add: audit_count_def)
    next
      case False
      then show ?thesis using schedule(1) step(3) by (auto simp: audit_count_def)
    qed
  qed (use step in \<open>simp_all add: audit_count_def\<close>)
qed simp

text \<open>
  C13: The recovery of a whole run stays within its configured bounds, whatever the steps and the
  model return: at most \<open>max_agentic_turns_total\<close> turns (or those the run was resumed with), and for
  each trigger, artifact fingerprint and failure at most one replan more than \<open>max_upstream_replans\<close>
  (the extra one for a transition whose history scores well).
\<close>

theorem recovery_bounded:
  assumes "fresh_names (cx_mk C)" and "\<forall>P \<in> set pipe. sound_score P"
    and "pipeline_run (step_run C) C V pipe until fuel s = Some (res, t)"
  shows "length (pl_turns t) \<le> max (length (pl_turns s)) (nat (cx_max_turns_total C)) \<and>
    length (filter (\<lambda>r. rn_trigger r = p \<and> rn_fingerprint r = fp \<and> x \<in> set (rn_failures r)) (pl_replans t))
      \<le> max (length (filter (\<lambda>r. rn_trigger r = p \<and> rn_fingerprint r = fp \<and> x \<in> set (rn_failures r)) (pl_replans s)))
            (nat (max 0 (cx_max_replans C)) + 1)"
proof -
  have "\<forall>P \<in> set pipe. step_names C UNIV P" using assms(2) by (auto simp: step_names_def checks_named_def)
  from ids.run_trail[OF assms(1) this assms(3)]
  have a: "(audit_step C UNIV)\<^sup>*\<^sup>* (audit_of s) (audit_of t)" by (simp add: trail_def)
  show ?thesis using audit_turns_bounded[OF a] audit_replans_bounded[OF a, of p fp x]
    by (simp add: audit_of_def audit_count_def replan_cap_def filter_map o_def)
qed

lemma finite_failure_names:
  assumes "finite N" and "finite (range (cx_digest C))"
  shows "finite (failure_names C N p)"
proof -
  have "error_names \<subseteq> {''structured_output_invalid'', ''llm_proposal_failed'', ''step_execution_failed''}"
    by (auto simp: error_names_def error_check_name_def split: step_error.split)
  then have "finite error_names" by (rule finite_subset) simp
  moreover have "failure_names C N p =
      (\<lambda>(n, g). step_name p @ '':'' @ n @ '':'' @ g) ` ((N \<union> error_names) \<times> range (cx_digest C))"
    by (auto simp: failure_names_def)
  ultimately show ?thesis using assms by simp
qed

lemma finite_fingerprints:
  assumes "finite (range (cx_fingerprint C))"
  shows "finite (range (fingerprint_of C))"
proof (rule finite_subset)
  show "range (fingerprint_of C) \<subseteq> insert [] (range (cx_fingerprint C))"
    by (auto simp: fingerprint_of_def split: option.splits)
qed (use assms in simp)

lemma drive_more_fuel:
  "drive run C V pipe limit fuel index finished s = Some x \<Longrightarrow> fuel \<le> n \<Longrightarrow>
   drive run C V pipe limit n index finished s = Some x"
proof (induction fuel arbitrary: index finished s n)
  case (Suc fuel)
  then obtain m where "n = Suc m" "fuel \<le> m" by (cases n) auto
  then show ?case using Suc by (auto split: prod.splits sum.splits next_move.splits if_splits)
qed simp

text \<open>
  C11: \<^verbatim>\<open>Pipeline.run\<close> ends. Whatever the steps do, return or raise, and whatever the model
  proposes, with enough fuel the loop over steps, turns and replans returns or raises, provided
  digests and artifact fingerprints have finitely many values (as hashes of fixed width do) and the
  checks finitely many names, and every step's score counts its failed checks.
\<close>

theorem pipeline_terminates:
  assumes "fresh_names (cx_mk C)" and "finite N" and "\<forall>P \<in> set pipe. sound_score P \<and> checks_named N P"
    and "finite (range (cx_digest C))" and "finite (range (cx_fingerprint C))"
  shows "\<exists>n res t. \<forall>fuel \<ge> n. pipeline_run (step_run C) C V pipe until fuel s = Some (res, t)"
proof -
  define I where "I = (\<Union>p. failure_names C N p)"
  have "finite I" using finite_steps finite_failure_names[OF assms(2,4)] by (simp add: I_def)
  moreover have "\<forall>P \<in> set pipe. step_names C I P" using assms(3) by (auto simp: step_names_def I_def)
  ultimately obtain n res t where run: "pipeline_run (step_run C) C V pipe until n s = Some (res, t)"
    using ids.run_ends[OF assms(1)] finite_fingerprints[OF assms(5)] by blast
  have "pipeline_run (step_run C) C V pipe until fuel s = Some (res, t)" if "n \<le> fuel" for fuel
    using run drive_more_fuel[OF _ that] by (auto simp: pipeline_run_def split: prod.splits sum.splits)
  then show ?thesis by blast
qed

subsection \<open>Small runs\<close>

definition hashed_services :: "(nat, unit, nat) services" where
  "hashed_services = sample_services\<lparr>cx_digest := (\<lambda>_. ''d''), cx_fingerprint := (\<lambda>_. ''f'')\<rparr>"

lemma hashed_pipe:
  "fresh_names (cx_mk hashed_services)" "finite {''defects''}" "\<forall>P \<in> set sample_pipe. sound_score P \<and> checks_named {''defects''} P"
  "finite (range (cx_digest hashed_services))" "finite (range (cx_fingerprint hashed_services))"
proof -
  show "fresh_names (cx_mk hashed_services)" using sample_fresh by (simp add: hashed_services_def)
  have "checks_named {''defects''} (sample_step p n)" for p n
    by (auto simp: checks_named_def sample_step_def rewrite_board_def defect_check_def)
  then show "\<forall>P \<in> set sample_pipe. sound_score P \<and> checks_named {''defects''} P"
    by (simp add: sample_pipe_def sample_sound)
qed (simp_all add: hashed_services_def)

theorem pipeline_terminates_witness:
  "\<exists>n res t. \<forall>fuel \<ge> n. pipeline_run (step_run hashed_services) hashed_services sample_driver sample_pipe None fuel empty_pipeline = Some (res, t)"
  by (rule pipeline_terminates[OF hashed_pipe])

lemma sample_run:
  obtains n res t where
    "pipeline_run (step_run hashed_services) hashed_services sample_driver sample_pipe None n empty_pipeline = Some (res, t)"
proof -
  have "\<forall>P \<in> set sample_pipe. step_names hashed_services (\<Union>p. failure_names hashed_services {''defects''} p) P"
    using hashed_pipe(3) by (auto simp: step_names_def)
  moreover have "finite (failure_names hashed_services {''defects''} p)" for p
    by (rule finite_failure_names) (use hashed_pipe in auto)
  then have "finite (\<Union>p. failure_names hashed_services {''defects''} p)" using finite_steps by simp
  ultimately show thesis
    using ids.run_ends[OF hashed_pipe(1)] finite_fingerprints[OF hashed_pipe(5)] that by blast
qed

theorem recovery_refines_audit_witness:
  "\<exists>n res t. pipeline_run (step_run hashed_services) hashed_services sample_driver sample_pipe None n empty_pipeline = Some (res, t) \<and>
     (audit_step hashed_services UNIV)\<^sup>*\<^sup>* (audit_of empty_pipeline) (audit_of t)"
proof -
  have sound: "\<forall>P \<in> set sample_pipe. sound_score P" using hashed_pipe(3) by blast
  obtain n res t where
    "pipeline_run (step_run hashed_services) hashed_services sample_driver sample_pipe None n empty_pipeline = Some (res, t)"
    by (rule sample_run)
  with recovery_refines_audit[OF hashed_pipe(1) sound this] show ?thesis by blast
qed

theorem recovery_bounded_witness:
  "\<exists>n res t. pipeline_run (step_run hashed_services) hashed_services sample_driver sample_pipe None n empty_pipeline = Some (res, t) \<and>
     length (pl_turns t) \<le> 4"
proof -
  have sound: "\<forall>P \<in> set sample_pipe. sound_score P" using hashed_pipe(3) by blast
  obtain n res t where run:
    "pipeline_run (step_run hashed_services) hashed_services sample_driver sample_pipe None n empty_pipeline = Some (res, t)"
    by (rule sample_run)
  have "length (pl_turns t) \<le> 4" using recovery_bounded[OF hashed_pipe(1) sound run]
    by (simp add: hashed_services_def sample_services_def empty_pipeline_def)
  then show ?thesis using run by blast
qed

end
