(* ===== verification/SharedRegistry.thy ===== *)
theory SharedRegistry
  imports RunRegistry
begin

text \<open>
  The shared run registry, \<^verbatim>\<open>src/src/service/redis_run_registry.py\<close>: run records in Redis that
  several service instances work on. Every change is one Lua script, which Redis runs atomically;
  each script is a function on the server state, and an interleaving of instances is a sequence of
  scripts with any arguments. A run is owned by an instance under a lease, and each execution of it
  holds a fencing token. The server's clock is passed in.
\<close>

subsection \<open>What the server stores\<close>

text \<open>An entry of the event stream; a question has neither token nor flag.\<close>

record stream_event =
  ev_id :: nat
  ev_payload :: string
  ev_fence :: "nat option"
  ev_terminal :: "bool option"

text \<open>One hash remembers the events of keys and the responses accepted.\<close>

datatype remembered = IssuedEvent nat | AcceptedResponse "string \<times> int"

text \<open>An entry of the lifecycle stream.\<close>

datatype lifecycle_entry = StatusEntry run_state | LeaseTakenOver

record shared_run =
  sr_request :: string
  sr_fingerprint :: string
  sr_kind :: run_kind
  sr_agent :: string
  sr_thread :: string
  sr_user :: string
  sr_timeout :: rat
  sr_buffer :: int
  sr_status :: run_state
  sr_run_id :: string
  sr_created :: string
  sr_started :: string
  sr_finished :: string
  sr_result :: string
  sr_error_code :: string
  sr_error :: string
  sr_http :: int
  sr_stream_failed :: bool
  sr_terminal_emitted :: bool
  sr_interaction :: string
  sr_version :: "int option"
  sr_last_event :: nat
  sr_owner :: string
  sr_fence :: nat
  sr_lease :: int
  sr_state_version :: nat
  sr_events :: "stream_event list"
  sr_remembered :: "(string, remembered) dict"
  sr_lifecycle :: "lifecycle_entry list"
  sr_expires :: "int option"

text \<open>The audit outbox, which the relay drains: a row about the run, or a safe copy of an event.\<close>

record audit_row =
  ar_type :: string
  ar_request :: string
  ar_scope :: "string option"
  ar_status :: run_state
  ar_owner :: string
  ar_fence :: nat
  ar_code :: string

datatype audit_entry = AuditRow audit_row | AuditStream string

record server =
  sv_runs :: "(string, shared_run) dict"
  sv_active :: "(string, int) dict"
  sv_running :: "(string, int) dict"
  sv_counts :: "(run_state, int) dict"
  sv_retained :: int
  sv_audit :: "audit_entry list"

definition terminal_state :: "run_state \<Rightarrow> bool" where
  "terminal_state st = (st \<in> {Completed, Failed, Cancelled, TimedOut})"

definition live_state :: "run_state \<Rightarrow> bool" where
  "live_state st = (st \<in> {Queued, Running})"

definition put_run :: "string \<Rightarrow> shared_run \<Rightarrow> server \<Rightarrow> server" where
  "put_run k r s = s\<lparr>sv_runs := dset k r (sv_runs s)\<rparr>"

definition hincr :: "run_state \<Rightarrow> int \<Rightarrow> server \<Rightarrow> server" where
  "hincr st n s = s\<lparr>sv_counts := dset st ((case dget (sv_counts s) st of None \<Rightarrow> 0 | Some m \<Rightarrow> m) + n) (sv_counts s)\<rparr>"

definition recount :: "run_state \<Rightarrow> run_state \<Rightarrow> server \<Rightarrow> server" where
  "recount old new s = hincr new 1 (hincr old (- 1) s)"

text \<open>\<^verbatim>\<open>ZCOUNT\<close> of the leases that end after now.\<close>

definition zcount :: "int \<Rightarrow> (string, int) dict \<Rightarrow> int" where
  "zcount now z = int (length (filter (\<lambda>(_, lease). now < lease) z))"

definition outbox :: "audit_entry \<Rightarrow> server \<Rightarrow> server" where
  "outbox a s = s\<lparr>sv_audit := sv_audit s @ [a]\<rparr>"

definition identity_scope :: "string \<Rightarrow> string" where
  "identity_scope u = (if take 4 u = ''rt1:'' then u else [])"

definition audit_about :: "string \<Rightarrow> string option \<Rightarrow> string \<Rightarrow> shared_run \<Rightarrow> audit_entry" where
  "audit_about t scope code r =
     AuditRow \<lparr>ar_type = t, ar_request = sr_request r, ar_scope = scope, ar_status = sr_status r, ar_owner = sr_owner r,
       ar_fence = sr_fence r, ar_code = code\<rparr>"

definition noted :: "lifecycle_entry \<Rightarrow> shared_run \<Rightarrow> shared_run" where
  "noted e r = r\<lparr>sr_lifecycle := sr_lifecycle r @ [e]\<rparr>"

text \<open>Only the instance that owns the run, with the token of its execution, may write.\<close>

definition owns :: "string \<Rightarrow> nat \<Rightarrow> shared_run \<Rightarrow> bool" where
  "owns owner fence r = (sr_owner r = owner \<and> sr_fence r = fence)"

definition next_version :: "shared_run \<Rightarrow> shared_run" where
  "next_version r = r\<lparr>sr_state_version := sr_state_version r + 1\<rparr>"

subsection \<open>Starting a run\<close>

record create_args =
  ca_request :: string
  ca_fingerprint :: string
  ca_kind :: run_kind
  ca_agent :: string
  ca_thread :: string
  ca_user :: string
  ca_timeout :: rat
  ca_buffer :: int
  ca_owner :: string
  ca_lease :: int
  ca_time :: string
  ca_limit :: int

definition fresh_run :: "int \<Rightarrow> create_args \<Rightarrow> shared_run" where
  "fresh_run now a =
     \<lparr>sr_request = ca_request a, sr_fingerprint = ca_fingerprint a, sr_kind = ca_kind a, sr_agent = ca_agent a,
      sr_thread = ca_thread a, sr_user = ca_user a, sr_timeout = ca_timeout a, sr_buffer = ca_buffer a, sr_status = Queued,
      sr_run_id = [], sr_created = ca_time a, sr_started = [], sr_finished = [], sr_result = [], sr_error_code = [],
      sr_error = [], sr_http = 500, sr_stream_failed = False, sr_terminal_emitted = False, sr_interaction = [],
      sr_version = None, sr_last_event = 0, sr_owner = ca_owner a, sr_fence = 1, sr_lease = now + ca_lease a,
      sr_state_version = 1, sr_events = [], sr_remembered = [], sr_lifecycle = [StatusEntry Queued], sr_expires = None\<rparr>"

text \<open>The lease has run out: the caller takes the run over with the next token.\<close>

definition taken_over :: "int \<Rightarrow> create_args \<Rightarrow> shared_run \<Rightarrow> shared_run" where
  "taken_over now a r =
     noted LeaseTakenOver (next_version (r\<lparr>sr_fence := sr_fence r + 1, sr_owner := ca_owner a, sr_lease := now + ca_lease a,
       sr_status := Queued, sr_started := [], sr_finished := [], sr_error_code := [], sr_error := [], sr_http := 500,
       sr_terminal_emitted := False\<rparr>))"

definition create_or_get :: "int \<Rightarrow> string \<Rightarrow> create_args \<Rightarrow> server \<Rightarrow> (int \<times> nat) \<times> server" where
  "create_or_get now k a s =
     (case dget (sv_runs s) k of
        Some r \<Rightarrow>
          if sr_user r \<noteq> [] \<and> sr_user r \<noteq> ca_user a then ((- 2, 0), s)
          else if sr_fingerprint r \<noteq> ca_fingerprint a \<or> sr_kind r \<noteq> ca_kind a then ((- 1, 0), s)
          else if sr_status r = WaitingForInput \<or> terminal_state (sr_status r) \<or> now < sr_lease r then ((0, sr_fence r), s)
          else (let r' = taken_over now a r;
                    s1 = put_run k r' (s\<lparr>sv_active := dset k (now + ca_lease a) (sv_active s), sv_running := ddel k (sv_running s)\<rparr>);
                    s2 = (if sr_status r \<noteq> Queued then recount (sr_status r) Queued s1 else s1)
                in ((2, sr_fence r'),
                    outbox (audit_about ''RunLeaseTakenOver'' (Some (identity_scope (ca_user a))) []
                       (r'\<lparr>sr_request := ca_request a\<rparr>)) s2))
      | None \<Rightarrow>
          if zcount now (sv_active s) \<ge> ca_limit a then ((- 3, 0), s)
          else (let r = fresh_run now a;
                    s1 = hincr Queued 1 (put_run k r (s\<lparr>sv_active := dset k (now + ca_lease a) (sv_active s)\<rparr>))
                in ((1, 1), outbox (audit_about ''RunAccepted'' (Some (identity_scope (ca_user a))) [] r)
                      (s1\<lparr>sv_retained := sv_retained s1 + 1\<rparr>))))"

subsection \<open>Writing as the owner\<close>

text \<open>\<^verbatim>\<open>XADD\<close> with the next identifier, and \<^verbatim>\<open>XTRIM MAXLEN\<close>.\<close>

definition xadd :: "string \<Rightarrow> nat option \<Rightarrow> bool option \<Rightarrow> shared_run \<Rightarrow> shared_run" where
  "xadd payload fence final r =
     (let n = sr_last_event r + 1 in
      r\<lparr>sr_last_event := n,
        sr_events := sr_events r @ [\<lparr>ev_id = n, ev_payload = payload, ev_fence = fence, ev_terminal = final\<rparr>]\<rparr>)"

definition xtrim :: "nat \<Rightarrow> shared_run \<Rightarrow> shared_run" where
  "xtrim n r = r\<lparr>sr_events := drop (length (sr_events r) - n) (sr_events r)\<rparr>"

definition remember :: "string \<Rightarrow> remembered \<Rightarrow> shared_run \<Rightarrow> shared_run" where
  "remember key x r = r\<lparr>sr_remembered := dset key x (sr_remembered r)\<rparr>"

record append_args =
  aa_payload :: string
  aa_maxlen :: nat
  aa_key :: string
  aa_terminal :: bool
  aa_audit :: string

definition append_shared ::
  "string \<Rightarrow> string \<Rightarrow> nat \<Rightarrow> append_args \<Rightarrow> server \<Rightarrow> (int \<times> nat option) \<times> server" where
  "append_shared k owner fence a s =
     (case dget (sv_runs s) k of
        None \<Rightarrow> ((- 1, Some 0), s)
      | Some r \<Rightarrow>
          if \<not> owns owner fence r then ((- 2, Some 0), s)
          else if terminal_state (sr_status r) then ((- 3, Some 0), s)
          else if sr_status r = WaitingForInput \<and> aa_terminal a then ((- 4, Some 0), s)
          else (case (if aa_key a \<noteq> [] then dget (sr_remembered r) (aa_key a) else None) of
              Some x \<Rightarrow> ((0, case x of IssuedEvent n \<Rightarrow> Some n | AcceptedResponse _ \<Rightarrow> None), s)
            | None \<Rightarrow>
                (let r1 = xtrim (aa_maxlen a) (xadd (aa_payload a) (Some fence) (Some (aa_terminal a)) r);
                     n = sr_last_event r1;
                     r2 = (if aa_key a \<noteq> [] then remember (aa_key a) (IssuedEvent n) r1 else r1);
                     r3 = (if aa_terminal a then r2\<lparr>sr_terminal_emitted := True\<rparr> else r2);
                     s1 = put_run k r3 s
                 in ((1, Some n), if aa_audit a \<noteq> [] then outbox (AuditStream (aa_audit a)) s1 else s1))))"

definition acquire_running ::
  "int \<Rightarrow> string \<Rightarrow> string \<Rightarrow> nat \<Rightarrow> int \<Rightarrow> int \<Rightarrow> string \<Rightarrow> server \<Rightarrow> int \<times> server" where
  "acquire_running now k owner fence limit lease time s =
     (case dget (sv_runs s) k of
        None \<Rightarrow> (- 1, s)
      | Some r \<Rightarrow>
          if \<not> owns owner fence r then (- 2, s)
          else if sr_status r \<noteq> Queued then (- 3, s)
          else if zcount now (sv_running s) \<ge> limit then (0, s)
          else (let r' = noted (StatusEntry Running) (next_version
                      (r\<lparr>sr_status := Running, sr_started := time, sr_lease := now + lease\<rparr>));
                    s1 = put_run k r' (s\<lparr>sv_active := dset k (now + lease) (sv_active s),
                                         sv_running := dset k (now + lease) (sv_running s)\<rparr>)
                in (1, outbox (audit_about ''RunStarted'' (Some (identity_scope (sr_user r))) [] r') (recount Queued Running s1))))"

definition heartbeat :: "int \<Rightarrow> string \<Rightarrow> string \<Rightarrow> nat \<Rightarrow> int \<Rightarrow> server \<Rightarrow> int \<times> server" where
  "heartbeat now k owner fence lease s =
     (case dget (sv_runs s) k of
        None \<Rightarrow> (0, s)
      | Some r \<Rightarrow>
          if \<not> owns owner fence r \<or> sr_status r = WaitingForInput \<or> terminal_state (sr_status r) then (0, s)
          else (let s1 = put_run k (r\<lparr>sr_lease := now + lease\<rparr>) (s\<lparr>sv_active := dset k (now + lease) (sv_active s)\<rparr>)
                in (1, if sr_status r = Running then s1\<lparr>sv_running := dset k (now + lease) (sv_running s1)\<rparr> else s1)))"

definition release_lease :: "string \<Rightarrow> string \<Rightarrow> nat \<Rightarrow> server \<Rightarrow> int \<times> server" where
  "release_lease k owner fence s =
     (case dget (sv_runs s) k of
        None \<Rightarrow> (0, s)
      | Some r \<Rightarrow>
          if \<not> owns owner fence r then (0, s)
          else if sr_status r = WaitingForInput then (1, s)
          else if terminal_state (sr_status r) then (0, s)
          else (1, put_run k (r\<lparr>sr_lease := 0\<rparr>)
                  (s\<lparr>sv_active := dset k 0 (sv_active s), sv_running := dset k 0 (sv_running s)\<rparr>)))"

subsection \<open>Ending a run\<close>

record end_args =
  ea_status :: run_state
  ea_time :: string
  ea_result :: string
  ea_code :: string
  ea_error :: string
  ea_http :: int
  ea_retention :: int

definition state_title :: "run_state \<Rightarrow> string" where
  "state_title st = (case st of Queued \<Rightarrow> ''Queued'' | Running \<Rightarrow> ''Running'' | WaitingForInput \<Rightarrow> ''Waiting_for_input''
     | Completed \<Rightarrow> ''Completed'' | Failed \<Rightarrow> ''Failed'' | Cancelled \<Rightarrow> ''Cancelled'' | TimedOut \<Rightarrow> ''Timed_out'')"

definition drop_leases :: "string \<Rightarrow> server \<Rightarrow> server" where
  "drop_leases k s = s\<lparr>sv_active := ddel k (sv_active s), sv_running := ddel k (sv_running s)\<rparr>"

definition transition :: "int \<Rightarrow> string \<Rightarrow> string \<Rightarrow> nat \<Rightarrow> end_args \<Rightarrow> server \<Rightarrow> int \<times> server" where
  "transition now k owner fence a s =
     (case dget (sv_runs s) k of
        None \<Rightarrow> (- 1, s)
      | Some r \<Rightarrow>
          if \<not> owns owner fence r then (- 2, s)
          else if sr_status r = ea_status a then (0, s)
          else if terminal_state (sr_status r) then (- 3, s)
          else if \<not> terminal_state (ea_status a) then (- 4, s)
          else (let r' = noted (StatusEntry (ea_status a)) (next_version
                      (r\<lparr>sr_status := ea_status a, sr_finished := ea_time a, sr_result := ea_result a,
                         sr_error_code := ea_code a, sr_error := ea_error a, sr_http := ea_http a, sr_lease := 0,
                         sr_expires := Some (now + ea_retention a)\<rparr>));
                    s1 = recount (sr_status r) (ea_status a) (put_run k r' (drop_leases k s))
                in (1, outbox (audit_about (''Run'' @ state_title (ea_status a)) (Some (identity_scope (sr_user r)))
                         (ea_code a) r') s1)))"

record cancel_args =
  na_user :: string
  na_time :: string
  na_retention :: int
  na_error :: string
  na_maxlen :: nat

definition cancel_shared :: "int \<Rightarrow> string \<Rightarrow> cancel_args \<Rightarrow> server \<Rightarrow> (int \<times> nat) \<times> server" where
  "cancel_shared now k a s =
     (case dget (sv_runs s) k of
        None \<Rightarrow> ((- 1, 0), s)
      | Some r \<Rightarrow>
          if sr_user r \<noteq> [] \<and> sr_user r \<noteq> na_user a then ((- 2, 0), s)
          else if terminal_state (sr_status r) then ((0, sr_fence r), s)
          else (let fence = sr_fence r + 1;
                    r1 = next_version (r\<lparr>sr_fence := fence, sr_status := Cancelled, sr_finished := na_time a,
                           sr_error_code := ''run_cancelled'', sr_error := ''Run was cancelled.'', sr_http := 409,
                           sr_lease := 0, sr_expires := Some (now + na_retention a)\<rparr>);
                    r2 = (if sr_kind r = Stream then
                            xtrim (na_maxlen a) ((xadd done_event (Some fence) (Some True)
                              (xadd (na_error a) (Some fence) (Some False) r1))\<lparr>sr_terminal_emitted := True\<rparr>)
                          else r1);
                    r3 = noted (StatusEntry Cancelled) r2;
                    s1 = recount (sr_status r) Cancelled (put_run k r3 (drop_leases k s))
                in ((1, fence), outbox (audit_about ''RunCancelled'' (Some (identity_scope (sr_user r))) ''run_cancelled'' r3) s1)))"

subsection \<open>Marks of the owner\<close>

definition set_shared_id :: "string \<Rightarrow> string \<Rightarrow> nat \<Rightarrow> string \<Rightarrow> server \<Rightarrow> int \<times> server" where
  "set_shared_id k owner fence x s =
     (case dget (sv_runs s) k of
        None \<Rightarrow> (- 1, s)
      | Some r \<Rightarrow>
          if \<not> owns owner fence r then (- 2, s)
          else (1, outbox (audit_about ''RunIdAssigned'' (Some (identity_scope (sr_user r))) [] r)
                     (put_run k (r\<lparr>sr_run_id := x\<rparr>) s)))"

definition mark_shared_failed ::
  "string \<Rightarrow> string \<Rightarrow> nat \<Rightarrow> string \<Rightarrow> string \<Rightarrow> int \<Rightarrow> server \<Rightarrow> int \<times> server" where
  "mark_shared_failed k owner fence code message http s =
     (case dget (sv_runs s) k of
        None \<Rightarrow> (- 1, s)
      | Some r \<Rightarrow>
          if \<not> owns owner fence r then (- 2, s)
          else if terminal_state (sr_status r) then (- 3, s)
          else (1, outbox (audit_about ''RunStreamFailed'' (Some (identity_scope (sr_user r))) code r)
                     (put_run k (r\<lparr>sr_stream_failed := True, sr_error_code := code, sr_error := message, sr_http := http\<rparr>) s)))"

subsection \<open>Questions\<close>

record pause_args =
  pa_interaction :: string
  pa_version :: int
  pa_payload :: string
  pa_maxlen :: nat
  pa_key :: string
  pa_audit :: string

definition pause_shared :: "string \<Rightarrow> string \<Rightarrow> nat \<Rightarrow> pause_args \<Rightarrow> server \<Rightarrow> (int \<times> nat option) \<times> server" where
  "pause_shared k owner fence a s =
     (case dget (sv_runs s) k of
        None \<Rightarrow> ((- 1, Some 0), s)
      | Some r \<Rightarrow>
          if \<not> owns owner fence r then ((- 2, Some 0), s)
          else if sr_status r = WaitingForInput then
            (if sr_interaction r = pa_interaction a \<and> sr_version r = Some (pa_version a) then
               ((0, case dget (sr_remembered r) (pa_key a) of None \<Rightarrow> Some 0 | Some (IssuedEvent n) \<Rightarrow> Some n
                     | Some (AcceptedResponse _) \<Rightarrow> None), s)
             else ((- 4, Some 0), s))
          else if sr_status r \<noteq> Running then ((- 3, Some 0), s)
          else (let r1 = xtrim (pa_maxlen a) (xadd (pa_payload a) None None r);
                    n = sr_last_event r1;
                    r2 = noted (StatusEntry WaitingForInput) (next_version
                      ((remember (pa_key a) (IssuedEvent n) r1)\<lparr>sr_status := WaitingForInput,
                         sr_interaction := pa_interaction a, sr_version := Some (pa_version a), sr_lease := 0, sr_finished := []\<rparr>));
                    s1 = recount Running WaitingForInput (put_run k r2 (drop_leases k s));
                    s2 = outbox (audit_about ''RunWaitingForInput'' None [] r2) s1
                in ((1, Some n), if pa_audit a \<noteq> [] then outbox (AuditStream (pa_audit a)) s2 else s2)))"

record resume_args =
  ra_user :: string
  ra_interaction :: string
  ra_response :: string
  ra_version :: int
  ra_owner :: string
  ra_lease :: int

definition response_key :: "string \<Rightarrow> string" where
  "response_key x = ''response:'' @ x"

definition asks :: "string \<Rightarrow> int \<Rightarrow> shared_run \<Rightarrow> bool" where
  "asks interaction version r = (sr_interaction r = interaction \<and> sr_version r = Some version)"

definition resume_shared :: "int \<Rightarrow> string \<Rightarrow> resume_args \<Rightarrow> server \<Rightarrow> (int \<times> nat) \<times> server" where
  "resume_shared now k a s =
     (case dget (sv_runs s) k of
        None \<Rightarrow> ((- 1, 0), s)
      | Some r \<Rightarrow>
          (let identity = AcceptedResponse (ra_interaction a, ra_version a);
               pending = (sr_status r = WaitingForInput \<and> asks (ra_interaction a) (ra_version a) r);
               prior = dget (sr_remembered r) (response_key (ra_response a))
           in if sr_user r \<noteq> [] \<and> sr_user r \<noteq> ra_user a then ((- 2, 0), s)
              else if prior \<noteq> None \<and> prior \<noteq> Some identity then ((- 5, 0), s)
              else if prior \<noteq> None \<and> \<not> pending then ((0, sr_fence r), s)
              else if sr_status r \<noteq> WaitingForInput then ((- 3, 0), s)
              else if \<not> asks (ra_interaction a) (ra_version a) r then ((- 4, 0), s)
              else (let r' = noted (StatusEntry Queued) (remember (response_key (ra_response a)) identity (next_version
                        (r\<lparr>sr_fence := sr_fence r + 1, sr_status := Queued, sr_owner := ra_owner a,
                           sr_lease := now + ra_lease a, sr_interaction := [], sr_version := None, sr_finished := [],
                           sr_error_code := [], sr_error := [], sr_terminal_emitted := False\<rparr>)));
                        s1 = put_run k r' (s\<lparr>sv_active := dset k (now + ra_lease a) (sv_active s),
                                            sv_running := ddel k (sv_running s)\<rparr>)
                    in ((1, sr_fence r'), outbox (audit_about ''RunInputAccepted'' None [] r') (recount WaitingForInput Queued s1)))))"

subsection \<open>Reading\<close>

text \<open>Whether a done marker of the stream is delivered, skipped, or read again later.\<close>

datatype delivery = Deliver | Skip | WaitForEnd

definition done_payload :: "string \<Rightarrow> bool" where
  "done_payload p = (py_strip p = done_marker)"

definition done_delivery_action :: "stream_event \<Rightarrow> run_state \<Rightarrow> nat \<Rightarrow> nat \<Rightarrow> delivery" where
  "done_delivery_action e st fence newest =
     (if \<not> done_payload (ev_payload e) then Deliver
      else (case ev_fence e of
          None \<Rightarrow> if terminal_state st \<and> ev_id e = newest then Deliver else Skip
        | Some f \<Rightarrow>
            if f \<noteq> fence then Skip
            else if \<not> terminal_state st then WaitForEnd
            else if ev_id e = newest then Deliver else Skip))"

text \<open>The events of one read after the cursor: what is delivered, the new cursor, whether to wait.\<close>

fun deliver_entries ::
  "run_state \<Rightarrow> nat \<Rightarrow> nat \<Rightarrow> nat \<Rightarrow> stream_event list \<Rightarrow> (nat \<times> string) list \<times> nat \<times> bool" where
  "deliver_entries st fence newest cursor [] = ([], cursor, False)"
| "deliver_entries st fence newest cursor (e # es) =
     (if ev_id e \<le> cursor then deliver_entries st fence newest cursor es
      else (case done_delivery_action e st fence newest of
          WaitForEnd \<Rightarrow> ([], cursor, True)
        | Skip \<Rightarrow> deliver_entries st fence newest (ev_id e) es
        | Deliver \<Rightarrow> (case deliver_entries st fence newest (ev_id e) es of
              (out, c, w) \<Rightarrow> ((ev_id e, ev_payload e) # out, c, w))))"

text \<open>One blocking read: at most 256 entries after the cursor.\<close>

definition xread :: "nat \<Rightarrow> shared_run \<Rightarrow> stream_event list" where
  "xread cursor r = take 256 (filter (\<lambda>e. cursor < ev_id e) (sr_events r))"

definition shared_replay_gap :: "shared_run \<Rightarrow> nat \<Rightarrow> nat option" where
  "shared_replay_gap r cursor =
     (case sr_events r of
        [] \<Rightarrow> if cursor < sr_last_event r then Some (sr_last_event r + 1) else None
      | e # _ \<Rightarrow> if cursor + 1 < ev_id e then Some (ev_id e) else None)"

text \<open>What a snapshot says about the execution.\<close>

definition execution_lease_active :: "int \<Rightarrow> shared_run \<Rightarrow> bool" where
  "execution_lease_active now r = (live_state (sr_status r) \<and> now < sr_lease r)"

definition recoverable :: "int \<Rightarrow> shared_run \<Rightarrow> bool" where
  "recoverable now r = (live_state (sr_status r) \<and> sr_lease r \<le> now)"

end
