(* ===== verification/SharedSafety.thy ===== *)
theory SharedSafety
  imports SharedRegistry "HOL-Library.Code_Target_Nat"
begin

text \<open>
  What the shared registry keeps under every interleaving of the scripts of several instances. Each
  script changes at most one run, and changes it along \<^verbatim>\<open>run_evolves\<close>; from that one effect
  follow the invariant of the server, the fencing of old tokens, and that an ended run stays as it is.
  The reader's part shows that a subscriber misses nothing and that the done marker comes last.
\<close>

subsection \<open>Scripts, and the steps of the server\<close>

datatype script =
    CreateOrGet string create_args
  | AppendEvent string string nat append_args
  | AcquireRunning string string nat int int string
  | Heartbeat string string nat int
  | ReleaseLease string string nat
  | Transition string string nat end_args
  | CancelRun string cancel_args
  | SetRunId string string nat string
  | MarkFailed string string nat string string int
  | PauseRun string string nat pause_args
  | ResumeRun string resume_args

definition run_script :: "int \<Rightarrow> script \<Rightarrow> server \<Rightarrow> server" where
  "run_script now c s =
     (case c of
        CreateOrGet k a \<Rightarrow> snd (create_or_get now k a s)
      | AppendEvent k ow f a \<Rightarrow> snd (append_shared k ow f a s)
      | AcquireRunning k ow f limit lease time \<Rightarrow> snd (acquire_running now k ow f limit lease time s)
      | Heartbeat k ow f lease \<Rightarrow> snd (heartbeat now k ow f lease s)
      | ReleaseLease k ow f \<Rightarrow> snd (release_lease k ow f s)
      | Transition k ow f a \<Rightarrow> snd (transition now k ow f a s)
      | CancelRun k a \<Rightarrow> snd (cancel_shared now k a s)
      | SetRunId k ow f x \<Rightarrow> snd (set_shared_id k ow f x s)
      | MarkFailed k ow f code m http \<Rightarrow> snd (mark_shared_failed k ow f code m http s)
      | PauseRun k ow f a \<Rightarrow> snd (pause_shared k ow f a s)
      | ResumeRun k a \<Rightarrow> snd (resume_shared now k a s))"

definition script_key :: "script \<Rightarrow> string" where
  "script_key c = (case c of CreateOrGet k _ \<Rightarrow> k | AppendEvent k _ _ _ \<Rightarrow> k | AcquireRunning k _ _ _ _ _ \<Rightarrow> k
     | Heartbeat k _ _ _ \<Rightarrow> k | ReleaseLease k _ _ \<Rightarrow> k | Transition k _ _ _ \<Rightarrow> k | CancelRun k _ \<Rightarrow> k
     | SetRunId k _ _ _ \<Rightarrow> k | MarkFailed k _ _ _ _ _ \<Rightarrow> k | PauseRun k _ _ _ \<Rightarrow> k | ResumeRun k _ \<Rightarrow> k)"

text \<open>Scripts with any arguments, the expiry of an ended run with all its keys, and the relay, which takes any rows from the outbox.\<close>

inductive shared_step :: "server \<Rightarrow> server \<Rightarrow> bool" where
  script: "shared_step s (run_script now c s)"
| expire: "dget (sv_runs s) k = Some r \<Longrightarrow> sr_expires r = Some e \<Longrightarrow> e \<le> now \<Longrightarrow>
    shared_step s (s\<lparr>sv_runs := ddel k (sv_runs s)\<rparr>)"
| relayed: "shared_step s (s\<lparr>sv_audit := nths (sv_audit s) K\<rparr>)"

definition empty_server :: server where
  "empty_server = \<lparr>sv_runs = [], sv_active = [], sv_running = [], sv_counts = [], sv_retained = 0, sv_audit = []\<rparr>"

subsection \<open>Invariants\<close>

definition window :: "shared_run \<Rightarrow> bool" where
  "window r = (length (sr_events r) \<le> sr_last_event r \<and>
     map ev_id (sr_events r) = [Suc (sr_last_event r) - length (sr_events r) ..< Suc (sr_last_event r)])"

definition run_ok :: "shared_run \<Rightarrow> bool" where
  "run_ok r = (window r \<and> (\<forall>key n. dget (sr_remembered r) key = Some (IssuedEvent n) \<longrightarrow> 1 \<le> n \<and> n \<le> sr_last_event r) \<and>
     (\<forall>key x. dget (sr_remembered r) key = Some (AcceptedResponse x) \<longrightarrow> take 9 key = ''response:'') \<and>
     1 \<le> sr_fence r \<and> (sr_status r = WaitingForInput \<longrightarrow> sr_version r \<noteq> None) \<and>
     (\<not> live_state (sr_status r) \<longrightarrow> sr_lease r = 0) \<and> (terminal_state (sr_status r) \<longleftrightarrow> sr_expires r \<noteq> None))"

definition leases_at :: "string \<Rightarrow> run_state \<Rightarrow> server \<Rightarrow> bool" where
  "leases_at k st s = ((dget (sv_active s) k \<noteq> None \<longleftrightarrow> live_state st) \<and> (dget (sv_running s) k \<noteq> None \<longrightarrow> live_state st) \<and>
     (st = Running \<longrightarrow> dget (sv_running s) k \<noteq> None))"

definition tally :: "server \<Rightarrow> run_state \<Rightarrow> int" where
  "tally s st = dget_or (sv_counts s) st 0"

definition census :: "run_state \<Rightarrow> server \<Rightarrow> int" where
  "census st s = int (length (filter (\<lambda>(_, r). sr_status r = st) (sv_runs s)))"

definition shared_inv :: "server \<Rightarrow> bool" where
  "shared_inv s =
     (dict_wf (sv_runs s) \<and> dict_wf (sv_active s) \<and> dict_wf (sv_running s) \<and>
      (\<forall>k r. dget (sv_runs s) k = Some r \<longrightarrow> run_ok r \<and> leases_at k (sr_status r) s) \<and>
      (\<forall>k. dget (sv_runs s) k = None \<longrightarrow> dget (sv_active s) k = None \<and> dget (sv_running s) k = None) \<and>
      (\<forall>st. \<not> terminal_state st \<longrightarrow> tally s st = census st s))"

text \<open>How one run may change; an ended run keeps everything but its identifier.\<close>

definition run_evolves :: "shared_run \<Rightarrow> shared_run \<Rightarrow> bool" where
  "run_evolves r r' =
     (sr_fence r \<le> sr_fence r' \<and> sr_last_event r \<le> sr_last_event r' \<and>
      (sr_owner r' \<noteq> sr_owner r \<longrightarrow> sr_fence r < sr_fence r') \<and>
      (sr_status r = WaitingForInput \<and> sr_fence r' = sr_fence r \<longrightarrow>
        sr_status r' = WaitingForInput \<or> terminal_state (sr_status r')) \<and>
      (terminal_state (sr_status r) \<longrightarrow> (\<exists>x. r' = r\<lparr>sr_run_id := x\<rparr>)) \<and>
      sr_request r' = sr_request r \<and> sr_fingerprint r' = sr_fingerprint r \<and> sr_kind r' = sr_kind r \<and> sr_user r' = sr_user r)"

text \<open>What a script does to the server: nothing, one run, or one new run.\<close>

definition changes :: "string \<Rightarrow> run_state option \<Rightarrow> shared_run \<Rightarrow> server \<Rightarrow> server \<Rightarrow> bool" where
  "changes k old r' s t =
     (sv_runs t = dset k r' (sv_runs s) \<and>
      (\<forall>j. j \<noteq> k \<longrightarrow> dget (sv_active t) j = dget (sv_active s) j \<and> dget (sv_running t) j = dget (sv_running s) j) \<and>
      (dict_wf (sv_active s) \<longrightarrow> dict_wf (sv_active t)) \<and> (dict_wf (sv_running s) \<longrightarrow> dict_wf (sv_running t)) \<and>
      ((case old of None \<Rightarrow> dget (sv_active s) k = None \<and> dget (sv_running s) k = None | Some st \<Rightarrow> leases_at k st s)
        \<longrightarrow> leases_at k (sr_status r') t) \<and>
      (\<forall>st. tally t st = tally s st + of_bool (st = sr_status r') - of_bool (old = Some st)))"

definition effect :: "string \<Rightarrow> server \<Rightarrow> server \<Rightarrow> bool" where
  "effect k s t =
     (t = s \<or>
      (\<exists>r r'. dget (sv_runs s) k = Some r \<and> run_evolves r r' \<and> (run_ok r \<longrightarrow> run_ok r') \<and> changes k (Some (sr_status r)) r' s t) \<or>
      (\<exists>r'. dget (sv_runs s) k = None \<and> run_ok r' \<and> changes k None r' s t))"

lemma effect_same [simp]: "effect k s s"
  by (simp add: effect_def)

lemma tally_simps [simp]:
  "tally (hincr st n s) st' = tally s st' + (if st' = st then n else 0)"
  "tally (put_run k r s) st' = tally s st'" "tally (outbox a s) st' = tally s st'" "tally (drop_leases k s) st' = tally s st'"
  "tally (s\<lparr>sv_active := x\<rparr>) st' = tally s st'" "tally (s\<lparr>sv_running := y\<rparr>) st' = tally s st'"
  "tally (s\<lparr>sv_retained := z\<rparr>) st' = tally s st'" "tally (s\<lparr>sv_runs := w\<rparr>) st' = tally s st'" "tally (s\<lparr>sv_audit := v\<rparr>) st' = tally s st'"
  by (auto simp: tally_def hincr_def put_run_def outbox_def drop_leases_def dget_or_def dict_simps split: option.split)

lemma tally_recount [simp]: "tally (recount old new s) st = tally s st + of_bool (st = new) - of_bool (st = old)"
  by (simp add: recount_def)

lemma server_fields [simp]:
  "sv_runs (put_run k r s) = dset k r (sv_runs s)" "sv_active (put_run k r s) = sv_active s" "sv_running (put_run k r s) = sv_running s"
  "sv_runs (hincr st n s) = sv_runs s" "sv_active (hincr st n s) = sv_active s" "sv_running (hincr st n s) = sv_running s"
  "sv_runs (recount old new s) = sv_runs s" "sv_active (recount old new s) = sv_active s" "sv_running (recount old new s) = sv_running s"
  "sv_runs (outbox a s) = sv_runs s" "sv_active (outbox a s) = sv_active s" "sv_running (outbox a s) = sv_running s"
  "sv_runs (drop_leases k s) = sv_runs s" "sv_active (drop_leases k s) = ddel k (sv_active s)"
  "sv_running (drop_leases k s) = ddel k (sv_running s)"
  by (simp_all add: put_run_def hincr_def recount_def outbox_def drop_leases_def)

lemma window_xadd: "window r \<Longrightarrow> window (xadd p f b r)"
proof -
  assume w: "window r"
  let ?m = "Suc (sr_last_event r) - length (sr_events r)"
  have "?m \<le> Suc (sr_last_event r)" "Suc (Suc (sr_last_event r)) - Suc (length (sr_events r)) = ?m" using w by (auto simp: window_def)
  then show ?thesis using w by (auto simp: window_def xadd_def Let_def)
qed

lemma window_xtrim: "window r \<Longrightarrow> window (xtrim n r)"
  by (auto simp: window_def xtrim_def drop_map[symmetric] drop_upt)

lemma window_fields [simp]:
  "window (r\<lparr>sr_status := a\<rparr>) = window r" "window (r\<lparr>sr_started := b\<rparr>) = window r" "window (r\<lparr>sr_finished := c\<rparr>) = window r"
  "window (r\<lparr>sr_lease := d\<rparr>) = window r" "window (r\<lparr>sr_fence := e\<rparr>) = window r" "window (r\<lparr>sr_owner := f\<rparr>) = window r"
  "window (r\<lparr>sr_error_code := g\<rparr>) = window r" "window (r\<lparr>sr_error := h\<rparr>) = window r" "window (r\<lparr>sr_http := i\<rparr>) = window r"
  "window (r\<lparr>sr_run_id := j\<rparr>) = window r" "window (r\<lparr>sr_result := l\<rparr>) = window r" "window (r\<lparr>sr_expires := m\<rparr>) = window r"
  "window (r\<lparr>sr_stream_failed := n\<rparr>) = window r" "window (r\<lparr>sr_interaction := z\<rparr>) = window r" "window (r\<lparr>sr_version := p\<rparr>) = window r"
  "window (r\<lparr>sr_terminal_emitted := q\<rparr>) = window r"
  by (simp_all add: window_def)

lemma window_updates [simp]:
  "window (remember key x r) = window r" "window (noted e r) = window r"
  "window (next_version r) = window r"
  by (simp_all add: window_def remember_def noted_def next_version_def)

subsection \<open>What each script does\<close>

lemma xadd_simps [simp]:
  "sr_last_event (xadd p f b r) = Suc (sr_last_event r)" "sr_status (xadd p f b r) = sr_status r"
  "sr_fence (xadd p f b r) = sr_fence r" "sr_owner (xadd p f b r) = sr_owner r" "sr_remembered (xadd p f b r) = sr_remembered r"
  "sr_request (xadd p f b r) = sr_request r" "sr_fingerprint (xadd p f b r) = sr_fingerprint r" "sr_kind (xadd p f b r) = sr_kind r"
  "sr_user (xadd p f b r) = sr_user r" "sr_version (xadd p f b r) = sr_version r" "sr_lease (xadd p f b r) = sr_lease r"
  "sr_expires (xadd p f b r) = sr_expires r"
  by (simp_all add: xadd_def Let_def)

lemma xtrim_simps [simp]:
  "sr_last_event (xtrim n r) = sr_last_event r" "sr_status (xtrim n r) = sr_status r"
  "sr_fence (xtrim n r) = sr_fence r" "sr_owner (xtrim n r) = sr_owner r" "sr_remembered (xtrim n r) = sr_remembered r"
  "sr_request (xtrim n r) = sr_request r" "sr_fingerprint (xtrim n r) = sr_fingerprint r" "sr_kind (xtrim n r) = sr_kind r"
  "sr_user (xtrim n r) = sr_user r" "sr_version (xtrim n r) = sr_version r" "sr_lease (xtrim n r) = sr_lease r"
  "sr_expires (xtrim n r) = sr_expires r"
  by (simp_all add: xtrim_def)

lemma small_updates [simp]:
  "sr_last_event (noted e r) = sr_last_event r" "sr_status (noted e r) = sr_status r" "sr_fence (noted e r) = sr_fence r"
  "sr_owner (noted e r) = sr_owner r" "sr_remembered (noted e r) = sr_remembered r" "sr_request (noted e r) = sr_request r"
  "sr_fingerprint (noted e r) = sr_fingerprint r" "sr_kind (noted e r) = sr_kind r" "sr_user (noted e r) = sr_user r"
  "sr_version (noted e r) = sr_version r" "sr_lease (noted e r) = sr_lease r" "sr_expires (noted e r) = sr_expires r"
  "sr_last_event (next_version r) = sr_last_event r" "sr_status (next_version r) = sr_status r" "sr_fence (next_version r) = sr_fence r"
  "sr_owner (next_version r) = sr_owner r" "sr_remembered (next_version r) = sr_remembered r" "sr_request (next_version r) = sr_request r"
  "sr_fingerprint (next_version r) = sr_fingerprint r" "sr_kind (next_version r) = sr_kind r" "sr_user (next_version r) = sr_user r"
  "sr_version (next_version r) = sr_version r" "sr_lease (next_version r) = sr_lease r" "sr_expires (next_version r) = sr_expires r"
  "sr_last_event (remember k x r) = sr_last_event r" "sr_status (remember k x r) = sr_status r" "sr_fence (remember k x r) = sr_fence r"
  "sr_owner (remember k x r) = sr_owner r" "sr_request (remember k x r) = sr_request r"
  "sr_fingerprint (remember k x r) = sr_fingerprint r" "sr_kind (remember k x r) = sr_kind r" "sr_user (remember k x r) = sr_user r"
  "sr_version (remember k x r) = sr_version r" "sr_lease (remember k x r) = sr_lease r" "sr_expires (remember k x r) = sr_expires r"
  "sr_remembered (remember k x r) = dset k x (sr_remembered r)"
  by (simp_all add: noted_def next_version_def remember_def)

lemma state_kinds [simp]:
  "terminal_state Completed" "terminal_state Failed" "terminal_state Cancelled" "terminal_state TimedOut"
  "\<not> terminal_state Queued" "\<not> terminal_state Running" "\<not> terminal_state WaitingForInput"
  "live_state Queued" "live_state Running" "\<not> live_state WaitingForInput" "\<not> live_state Completed"
  "\<not> live_state Failed" "\<not> live_state Cancelled" "\<not> live_state TimedOut"
  by (simp_all add: terminal_state_def live_state_def)

lemma not_live: "\<not> live_state st \<longleftrightarrow> terminal_state st \<or> st = WaitingForInput"
  by (cases st) (simp_all add: terminal_state_def live_state_def)

text \<open>One run changes from \<open>r\<close> to \<open>r'\<close>.\<close>

lemma effect_run:
  assumes "dget (sv_runs s) k = Some r" and "run_evolves r r'" and "run_ok r \<Longrightarrow> run_ok r'"
    and "changes k (Some (sr_status r)) r' s t"
  shows "effect k s t"
  using assms by (auto simp: effect_def)

lemma effect_create: "effect k s (snd (create_or_get now k a s))"
proof (cases "dget (sv_runs s) k")
  case None
  have "run_ok (fresh_run now a)"
    by (auto simp: run_ok_def fresh_run_def window_def)
  moreover have "sr_status (fresh_run now a) = Queued" by (simp add: fresh_run_def)
  ultimately show ?thesis using None
    by (auto simp: create_or_get_def effect_def changes_def Let_def leases_at_def dict_simps)
next
  case (Some r)
  show ?thesis
  proof (cases "snd (create_or_get now k a s) = s")
    case False
    then have live: "live_state (sr_status r)" using Some not_live by (auto simp: create_or_get_def split: if_splits)
    show ?thesis
    proof (rule effect_run[OF Some])
      show "run_evolves r (taken_over now a r)" using live not_live by (auto simp: run_evolves_def taken_over_def)
      show "run_ok r \<Longrightarrow> run_ok (taken_over now a r)"
        using live not_live[of "sr_status r"] by (auto simp: run_ok_def taken_over_def)
      show "changes k (Some (sr_status r)) (taken_over now a r) s (snd (create_or_get now k a s))"
        using Some False live by (auto simp: create_or_get_def changes_def Let_def leases_at_def dict_simps taken_over_def split: if_splits)
    qed
  qed simp
qed

lemma effect_append: "effect k s (snd (append_shared k ow f a s))"
proof (cases "snd (append_shared k ow f a s) = s")
  case False
  then obtain r where r: "dget (sv_runs s) k = Some r" "owns ow f r" "\<not> terminal_state (sr_status r)"
    "(if aa_key a \<noteq> [] then dget (sr_remembered r) (aa_key a) else None) = None"
    by (auto simp: append_shared_def split: option.splits if_splits)
  define r1 where "r1 = xtrim (aa_maxlen a) (xadd (aa_payload a) (Some f) (Some (aa_terminal a)) r)"
  define r2 where "r2 = (if aa_key a \<noteq> [] then remember (aa_key a) (IssuedEvent (sr_last_event r1)) r1 else r1)"
  define r3 where "r3 = (if aa_terminal a then r2\<lparr>sr_terminal_emitted := True\<rparr> else r2)"
  have run: "sv_runs (snd (append_shared k ow f a s)) = dset k r3 (sv_runs s)"
    "sv_active (snd (append_shared k ow f a s)) = sv_active s" "sv_running (snd (append_shared k ow f a s)) = sv_running s"
    "\<And>st. tally (snd (append_shared k ow f a s)) st = tally s st"
    using r False by (auto simp: append_shared_def Let_def r3_def r2_def r1_def split: if_splits)
  have same: "sr_status r3 = sr_status r" by (simp add: r3_def r2_def r1_def)
  show ?thesis
  proof (rule effect_run[OF r(1)])
    show "run_evolves r r3" using r by (auto simp: run_evolves_def r3_def r2_def r1_def)
    assume ok: "run_ok r"
    have "window r3" using ok window_xtrim window_xadd by (auto simp: run_ok_def r3_def r2_def r1_def)
    then show "run_ok r3" using ok by (auto simp: run_ok_def r3_def r2_def r1_def dict_simps intro!: le_SucI split: if_splits)
  next
    show "changes k (Some (sr_status r)) r3 s (snd (append_shared k ow f a s))"
      using run same by (auto simp: changes_def leases_at_def)
  qed
qed simp

lemma effect_acquire: "effect k s (snd (acquire_running now k ow f limit lease time s))"
proof (cases "snd (acquire_running now k ow f limit lease time s) = s")
  case False
  then obtain r where r: "dget (sv_runs s) k = Some r" "owns ow f r" "sr_status r = Queued"
    by (auto simp: acquire_running_def split: option.splits if_splits)
  show ?thesis
    by (rule effect_run[OF r(1), of "noted (StatusEntry Running) (next_version
                      (r\<lparr>sr_status := Running, sr_started := time, sr_lease := now + lease\<rparr>))"])
       (use r False in \<open>auto simp: run_evolves_def run_ok_def acquire_running_def changes_def leases_at_def
          Let_def dict_simps split: if_splits\<close>)
qed simp

lemma effect_heartbeat: "effect k s (snd (heartbeat now k ow f lease s))"
proof (cases "snd (heartbeat now k ow f lease s) = s")
  case False
  then obtain r where r: "dget (sv_runs s) k = Some r" "owns ow f r" "live_state (sr_status r)"
    using not_live by (auto simp: heartbeat_def split: option.splits if_splits)
  show ?thesis
    by (rule effect_run[OF r(1), of "r\<lparr>sr_lease := now + lease\<rparr>"])
       (use r False not_live[of "sr_status r"] in \<open>auto simp: run_evolves_def run_ok_def heartbeat_def changes_def leases_at_def
          Let_def dict_simps split: if_splits\<close>)
qed simp

lemma effect_release: "effect k s (snd (release_lease k ow f s))"
proof (cases "snd (release_lease k ow f s) = s")
  case False
  then obtain r where r: "dget (sv_runs s) k = Some r" "owns ow f r" "live_state (sr_status r)"
    using not_live by (auto simp: release_lease_def split: option.splits if_splits)
  show ?thesis
    by (rule effect_run[OF r(1), of "r\<lparr>sr_lease := 0\<rparr>"])
       (use r False not_live[of "sr_status r"] in \<open>auto simp: run_evolves_def run_ok_def release_lease_def changes_def leases_at_def
          dict_simps split: if_splits\<close>)
qed simp

lemma effect_transition: "effect k s (snd (transition now k ow f a s))"
proof (cases "snd (transition now k ow f a s) = s")
  case False
  then obtain r where r: "dget (sv_runs s) k = Some r" "owns ow f r" "\<not> terminal_state (sr_status r)" "terminal_state (ea_status a)"
    by (auto simp: transition_def split: option.splits if_splits)
  then have "\<not> live_state (ea_status a)" "ea_status a \<noteq> WaitingForInput" using not_live by auto
  then show ?thesis
    by (intro effect_run[OF r(1), of "noted (StatusEntry (ea_status a)) (next_version
            (r\<lparr>sr_status := ea_status a, sr_finished := ea_time a, sr_result := ea_result a,
               sr_error_code := ea_code a, sr_error := ea_error a, sr_http := ea_http a, sr_lease := 0,
               sr_expires := Some (now + ea_retention a)\<rparr>))"])
       (use r False in \<open>auto simp: run_evolves_def run_ok_def transition_def changes_def leases_at_def
          Let_def dict_simps split: if_splits\<close>)
qed simp

lemma effect_marks:
  "effect k s (snd (set_shared_id k ow f x s))" "effect k s (snd (mark_shared_failed k ow f code m http s))"
proof -
  show "effect k s (snd (set_shared_id k ow f x s))"
  proof (cases "snd (set_shared_id k ow f x s) = s")
    case False
    then obtain r where r: "dget (sv_runs s) k = Some r" by (auto simp: set_shared_id_def split: option.splits)
    show ?thesis
      by (rule effect_run[OF r, of "r\<lparr>sr_run_id := x\<rparr>"])
         (use r False in \<open>auto simp: run_evolves_def run_ok_def set_shared_id_def changes_def leases_at_def split: if_splits\<close>)
  qed simp
  show "effect k s (snd (mark_shared_failed k ow f code m http s))"
  proof (cases "snd (mark_shared_failed k ow f code m http s) = s")
    case False
    then obtain r where r: "dget (sv_runs s) k = Some r" "\<not> terminal_state (sr_status r)"
      by (auto simp: mark_shared_failed_def split: option.splits if_splits)
    show ?thesis
      by (rule effect_run[OF r(1), of "r\<lparr>sr_stream_failed := True, sr_error_code := code, sr_error := m, sr_http := http\<rparr>"])
         (use r False in \<open>auto simp: run_evolves_def run_ok_def mark_shared_failed_def changes_def leases_at_def split: if_splits\<close>)
  qed simp
qed

lemma window_marks [simp]:
  "window (r\<lparr>sr_finished := c, sr_error_code := g, sr_error := h, sr_http := i, sr_lease := d, sr_expires := m\<rparr>) = window r"
  by (simp add: window_def)

lemma effect_cancel: "effect k s (snd (cancel_shared now k a s))"
proof (cases "snd (cancel_shared now k a s) = s")
  case False
  then obtain r where r: "dget (sv_runs s) k = Some r" "\<not> terminal_state (sr_status r)"
    "\<not> (sr_user r \<noteq> [] \<and> sr_user r \<noteq> na_user a)"
    by (auto simp: cancel_shared_def split: option.splits if_splits)
  define fence where "fence = sr_fence r + 1"
  define r1 where "r1 = next_version (r\<lparr>sr_fence := fence, sr_status := Cancelled, sr_finished := na_time a,
     sr_error_code := ''run_cancelled'', sr_error := ''Run was cancelled.'', sr_http := 409,
     sr_lease := 0, sr_expires := Some (now + na_retention a)\<rparr>)"
  define r2 where "r2 = (if sr_kind r = Stream then
     xtrim (na_maxlen a) ((xadd done_event (Some fence) (Some True)
       (xadd (na_error a) (Some fence) (Some False) r1))\<lparr>sr_terminal_emitted := True\<rparr>) else r1)"
  define r3 where "r3 = noted (StatusEntry Cancelled) r2"
  have run: "sv_runs (snd (cancel_shared now k a s)) = dset k r3 (sv_runs s)"
    "sv_active (snd (cancel_shared now k a s)) = ddel k (sv_active s)"
    "sv_running (snd (cancel_shared now k a s)) = ddel k (sv_running s)"
    "\<And>st. tally (snd (cancel_shared now k a s)) st = tally s st + of_bool (st = Cancelled) - of_bool (st = sr_status r)"
    using r by (auto simp: cancel_shared_def Let_def r3_def r2_def r1_def fence_def)
  have st: "sr_status r3 = Cancelled" by (simp add: r3_def r2_def r1_def)
  show ?thesis
  proof (rule effect_run[OF r(1)])
    show "run_evolves r r3" using r by (auto simp: run_evolves_def r3_def r2_def r1_def fence_def)
    assume ok: "run_ok r"
    have "window r1" using ok by (simp add: run_ok_def r1_def window_def next_version_def)
    then have "window r3" by (auto simp: r3_def r2_def intro!: window_xtrim window_xadd)
    then show "run_ok r3" using ok by (auto simp: run_ok_def r3_def r2_def r1_def fence_def intro!: le_SucI)
  next
    show "changes k (Some (sr_status r)) r3 s (snd (cancel_shared now k a s))"
      using run st by (auto simp: changes_def leases_at_def dict_simps)
  qed
qed simp

lemma effect_pause: "effect k s (snd (pause_shared k ow f a s))"
proof (cases "snd (pause_shared k ow f a s) = s")
  case False
  then obtain r where r: "dget (sv_runs s) k = Some r" "owns ow f r" "sr_status r = Running"
    by (auto simp: pause_shared_def split: option.splits if_splits)
  define r1 where "r1 = xtrim (pa_maxlen a) (xadd (pa_payload a) None None r)"
  define r2 where "r2 = noted (StatusEntry WaitingForInput) (next_version
     ((remember (pa_key a) (IssuedEvent (sr_last_event r1)) r1)\<lparr>sr_status := WaitingForInput,
        sr_interaction := pa_interaction a, sr_version := Some (pa_version a), sr_lease := 0, sr_finished := []\<rparr>))"
  have run: "sv_runs (snd (pause_shared k ow f a s)) = dset k r2 (sv_runs s)"
    "sv_active (snd (pause_shared k ow f a s)) = ddel k (sv_active s)"
    "sv_running (snd (pause_shared k ow f a s)) = ddel k (sv_running s)"
    "\<And>st. tally (snd (pause_shared k ow f a s)) st = tally s st + of_bool (st = WaitingForInput) - of_bool (st = Running)"
    using r by (simp_all add: pause_shared_def Let_def r2_def r1_def)
  have st: "sr_status r2 = WaitingForInput" by (simp add: r2_def)
  show ?thesis
  proof (rule effect_run[OF r(1)])
    show "run_evolves r r2" using r by (auto simp: run_evolves_def r2_def r1_def)
    assume ok: "run_ok r"
    have "window r1" using ok by (auto simp: run_ok_def r1_def intro!: window_xtrim window_xadd)
    then have "window r2" by (simp add: r2_def window_def noted_def next_version_def remember_def)
    then show "run_ok r2" using ok r by (auto simp: run_ok_def r2_def r1_def dict_simps intro!: le_SucI split: if_splits)
  next
    show "changes k (Some (sr_status r)) r2 s (snd (pause_shared k ow f a s))"
      using run st r by (auto simp: changes_def leases_at_def dict_simps)
  qed
qed simp

lemma effect_resume: "effect k s (snd (resume_shared now k a s))"
proof (cases "snd (resume_shared now k a s) = s")
  case False
  then obtain r where r: "dget (sv_runs s) k = Some r" "sr_status r = WaitingForInput"
    by (auto simp: resume_shared_def Let_def split: option.splits if_splits)
  define r' where "r' = noted (StatusEntry Queued) (remember (response_key (ra_response a))
     (AcceptedResponse (ra_interaction a, ra_version a)) (next_version
       (r\<lparr>sr_fence := sr_fence r + 1, sr_status := Queued, sr_owner := ra_owner a,
          sr_lease := now + ra_lease a, sr_interaction := [], sr_version := None, sr_finished := [],
          sr_error_code := [], sr_error := [], sr_terminal_emitted := False\<rparr>)))"
  have run: "sv_runs (snd (resume_shared now k a s)) = dset k r' (sv_runs s)"
    "sv_active (snd (resume_shared now k a s)) = dset k (now + ra_lease a) (sv_active s)"
    "sv_running (snd (resume_shared now k a s)) = ddel k (sv_running s)"
    "\<And>st. tally (snd (resume_shared now k a s)) st = tally s st + of_bool (st = Queued) - of_bool (st = WaitingForInput)"
    using r False by (auto simp: resume_shared_def Let_def r'_def split: if_splits)
  show ?thesis
  proof (rule effect_run[OF r(1)])
    show "run_evolves r r'" using r by (auto simp: run_evolves_def r'_def)
    assume ok: "run_ok r"
    have "window r'" using ok by (simp add: run_ok_def r'_def window_def noted_def next_version_def remember_def)
    then show "run_ok r'" using ok r by (auto simp: run_ok_def r'_def dict_simps response_key_def split: if_splits)
  next
    show "changes k (Some (sr_status r)) r' s (snd (resume_shared now k a s))"
      using run r by (auto simp: changes_def leases_at_def dict_simps r'_def)
  qed
qed simp

lemma effect_script: "effect (script_key c) s (run_script now c s)"
  by (cases c) (simp_all add: run_script_def script_key_def effect_create effect_append effect_acquire effect_heartbeat
    effect_release effect_transition effect_marks effect_cancel effect_pause effect_resume)

subsection \<open>Every step keeps the invariant\<close>

lemma count_dset:
  "int (length (filter P (dset k v d))) =
     int (length (filter P d)) + of_bool (P (k, v)) - (case dget d k of None \<Rightarrow> 0 | Some w \<Rightarrow> of_bool (P (k, w)))"
  by (induction k v d rule: dset.induct) (auto split: option.splits)

lemma count_ddel:
  "dict_wf d \<Longrightarrow> int (length (filter P (ddel k d))) =
     int (length (filter P d)) - (case dget d k of None \<Rightarrow> 0 | Some w \<Rightarrow> of_bool (P (k, w)))"
proof (induction d)
  case Nil
  then show ?case by (simp add: ddel_def)
next
  case (Cons x d)
  obtain j w where x: "x = (j, w)" by (cases x)
  have d: "dict_wf d" and new: "dget d j = None"
    using Cons.prems by (auto simp: x dict_wf_def dkeys_def map_of_eq_None_iff)
  show ?case using Cons.IH[OF d] new by (cases "j = k") (auto simp: x ddel_def split: option.splits)
qed

lemma census_dset:
  "sv_runs t = dset k r' (sv_runs s) \<Longrightarrow>
     census st t = census st s + of_bool (sr_status r' = st) -
       (case dget (sv_runs s) k of None \<Rightarrow> 0 | Some r \<Rightarrow> of_bool (sr_status r = st))"
  by (simp add: census_def count_dset split: option.split)

lemma leases_other:
  "leases_at j st s \<Longrightarrow> dget (sv_active t) j = dget (sv_active s) j \<Longrightarrow> dget (sv_running t) j = dget (sv_running s) j \<Longrightarrow>
     leases_at j st t"
  by (simp add: leases_at_def)

lemma changes_inv:
  assumes inv: "shared_inv s" and ch: "changes k old r' s t" and ok: "run_ok r'"
    and old: "old = map_option sr_status (dget (sv_runs s) k)"
  shows "shared_inv t"
proof -
  have runs: "sv_runs t = dset k r' (sv_runs s)" using ch by (simp add: changes_def)
  have here: "leases_at k (sr_status r') t"
    using ch inv old by (cases "dget (sv_runs s) k") (auto simp: changes_def shared_inv_def)
  have other: "\<And>j. j \<noteq> k \<Longrightarrow> dget (sv_active t) j = dget (sv_active s) j \<and> dget (sv_running t) j = dget (sv_running s) j"
    using ch by (simp add: changes_def)
  have "run_ok r \<and> leases_at j (sr_status r) t" if "dget (sv_runs t) j = Some r" for j r
    using that here ok other[of j] inv
    by (cases "j = k") (auto simp: runs dict_simps shared_inv_def intro: leases_other)
  moreover have "dget (sv_active t) j = None \<and> dget (sv_running t) j = None" if "dget (sv_runs t) j = None" for j
    using that other[of j] inv by (cases "j = k") (auto simp: runs dict_simps shared_inv_def)
  moreover have "tally t st = census st t" if "\<not> terminal_state st" for st
    using ch inv that old unfolding census_dset[OF runs]
    by (cases "dget (sv_runs s) k") (auto simp: changes_def shared_inv_def)
  ultimately show ?thesis using inv ch by (simp add: shared_inv_def changes_def runs dict_simps)
qed

lemma effect_inv: "shared_inv s \<Longrightarrow> effect k s t \<Longrightarrow> shared_inv t"
  unfolding effect_def
proof (elim disjE exE conjE)
  fix r r' assume inv: "shared_inv s" and r: "dget (sv_runs s) k = Some r" "run_ok r \<longrightarrow> run_ok r'" "changes k (Some (sr_status r)) r' s t"
  then show "shared_inv t" by (intro changes_inv[OF inv r(3)]) (auto simp: shared_inv_def)
next
  fix r' assume inv: "shared_inv s" and r: "dget (sv_runs s) k = None" "run_ok r'" "changes k None r' s t"
  then show "shared_inv t" by (intro changes_inv[OF inv r(3)]) auto
qed simp

lemma expire_inv:
  assumes inv: "shared_inv s" and r: "dget (sv_runs s) k = Some r" "sr_expires r = Some e"
  shows "shared_inv (s\<lparr>sv_runs := ddel k (sv_runs s)\<rparr>)"
proof -
  have "run_ok r" "leases_at k (sr_status r) s" using inv r by (auto simp: shared_inv_def)
  then have "terminal_state (sr_status r)" "\<not> live_state (sr_status r)" and none: "dget (sv_active s) k = None" "dget (sv_running s) k = None"
    using r(2) not_live[of "sr_status r"] by (auto simp: run_ok_def leases_at_def)
  then have "census st (s\<lparr>sv_runs := ddel k (sv_runs s)\<rparr>) = census st s" if "\<not> terminal_state st" for st
    using inv r that by (auto simp: census_def count_ddel shared_inv_def)
  then show ?thesis using inv none by (auto simp: shared_inv_def dict_simps leases_at_def)
qed

inductive_cases shared_stepE: "shared_step s t"

lemma relayed_inv: "shared_inv s \<Longrightarrow> shared_inv (s\<lparr>sv_audit := x\<rparr>)"
  by (simp add: shared_inv_def leases_at_def census_def)

lemma shared_step_inv:
  assumes "shared_inv s" and "shared_step s t"
  shows "shared_inv t"
  using assms(2) by (rule shared_stepE) (use assms(1) effect_inv effect_script expire_inv relayed_inv in blast)+

lemma empty_server_inv: "shared_inv empty_server"
  by (simp add: shared_inv_def empty_server_def tally_def census_def dict_simps dget_or_def)

interpretation shared: safe_system "\<lambda>s. s = empty_server" shared_step shared_inv
  by unfold_locales (auto intro: shared_step_inv simp: empty_server_inv)

text \<open>The steps during which the run of a key stays stored.\<close>

definition keeps :: "string \<Rightarrow> server \<Rightarrow> server \<Rightarrow> bool" where
  "keeps k s t = (shared_step s t \<and> dget (sv_runs t) k \<noteq> None)"

lemma effect_other: "effect j s t \<Longrightarrow> j \<noteq> k \<Longrightarrow> dget (sv_runs t) k = dget (sv_runs s) k"
  by (auto simp: effect_def changes_def dict_simps)

lemma run_evolves_refl [simp]: "run_evolves r r"
  by (auto simp: run_evolves_def intro: exI[of _ "sr_run_id r"])

lemma effect_evolves:
  assumes "effect j s t" and "dget (sv_runs s) k = Some r"
  shows "\<exists>r'. dget (sv_runs t) k = Some r' \<and> run_evolves r r'"
  using assms by (cases "j = k") (auto simp: effect_def changes_def dict_simps)

lemma keeps_evolves:
  assumes "keeps k s t" and r: "dget (sv_runs s) k = Some r"
  obtains r' where "dget (sv_runs t) k = Some r'" and "run_evolves r r'"
proof -
  have step: "shared_step s t" and kept: "dget (sv_runs t) k \<noteq> None" using assms by (auto simp: keeps_def)
  from step have "\<exists>r'. dget (sv_runs t) k = Some r' \<and> run_evolves r r'"
  proof (rule shared_stepE)
    fix now c assume "t = run_script now c s"
    then show ?thesis using effect_evolves[OF effect_script r] by blast
  next
    fix j r0 e now assume "t = s\<lparr>sv_runs := ddel j (sv_runs s)\<rparr>"
    then show ?thesis using kept r by (cases "j = k") (auto simp: dict_simps)
  next
    fix K assume "t = s\<lparr>sv_audit := nths (sv_audit s) K\<rparr>"
    then show ?thesis using r by simp
  qed
  then show ?thesis using that by blast
qed

lemma run_evolves_trans: "run_evolves a b \<Longrightarrow> run_evolves b c \<Longrightarrow> run_evolves a c"
proof -
  assume ab: "run_evolves a b" and bc: "run_evolves b c"
  have "\<exists>x. c = a\<lparr>sr_run_id := x\<rparr>" if t: "terminal_state (sr_status a)"
  proof -
    obtain x where b: "b = a\<lparr>sr_run_id := x\<rparr>" using ab t by (auto simp: run_evolves_def)
    then obtain y where "c = b\<lparr>sr_run_id := y\<rparr>" using bc t by (auto simp: run_evolves_def)
    then show ?thesis using b by auto
  qed
  moreover have "sr_fence a < sr_fence c" if "sr_owner c \<noteq> sr_owner a"
    using ab bc that by (cases "sr_owner b = sr_owner a") (simp_all add: run_evolves_def)
  moreover have "sr_status c = WaitingForInput \<or> terminal_state (sr_status c)"
    if w: "sr_status a = WaitingForInput" "sr_fence c = sr_fence a"
  proof -
    have f: "sr_fence b = sr_fence a" "sr_fence c = sr_fence b" using ab bc w by (simp_all add: run_evolves_def)
    then have "sr_status b = WaitingForInput \<or> terminal_state (sr_status b)" using ab w by (simp add: run_evolves_def)
    then show ?thesis
    proof
      assume "sr_status b = WaitingForInput"
      then show ?thesis using bc f by (simp add: run_evolves_def)
    next
      assume t: "terminal_state (sr_status b)"
      then obtain y where "c = b\<lparr>sr_run_id := y\<rparr>" using bc by (auto simp: run_evolves_def)
      then show ?thesis using t by simp
    qed
  qed
  moreover have "sr_fence a \<le> sr_fence c \<and> sr_last_event a \<le> sr_last_event c \<and> sr_request c = sr_request a \<and>
      sr_fingerprint c = sr_fingerprint a \<and> sr_kind c = sr_kind a \<and> sr_user c = sr_user a"
    using ab bc by (simp add: run_evolves_def)
  ultimately show ?thesis by (simp add: run_evolves_def)
qed

lemma kept_evolves:
  assumes "(keeps k)\<^sup>*\<^sup>* s t" and r: "dget (sv_runs s) k = Some r"
  obtains r' where "dget (sv_runs t) k = Some r'" and "run_evolves r r'"
proof -
  have "\<exists>r'. dget (sv_runs t) k = Some r' \<and> run_evolves r r'"
    using assms(1)
  proof (induction rule: rtranclp_induct)
    case base
    then show ?case using r by simp
  next
    case (step t u)
    then obtain r' where r': "dget (sv_runs t) k = Some r'" "run_evolves r r'" by blast
    obtain r2 where "dget (sv_runs u) k = Some r2" "run_evolves r' r2" by (rule keeps_evolves[OF step.hyps(2) r'(1)])
    then show ?case using run_evolves_trans[OF r'(2)] by blast
  qed
  then show ?thesis using that by blast
qed

lemma keeps_step: "(keeps k)\<^sup>*\<^sup>* s t \<Longrightarrow> shared_step\<^sup>*\<^sup>* s t"
  by (rule rtranclp_mono[THEN predicate2D]) (auto simp: keeps_def)

lemma kept_inv: "(keeps k)\<^sup>*\<^sup>* s t \<Longrightarrow> shared_inv s \<Longrightarrow> shared_inv t"
  using shared.run_inv keeps_step by blast

subsection \<open>Tokens\<close>

text \<open>The run and the token that a script of an owner carries.\<close>

definition script_token :: "script \<Rightarrow> (string \<times> nat) option" where
  "script_token c = (case c of AppendEvent k _ f _ \<Rightarrow> Some (k, f) | AcquireRunning k _ f _ _ _ \<Rightarrow> Some (k, f)
     | Heartbeat k _ f _ \<Rightarrow> Some (k, f) | ReleaseLease k _ f \<Rightarrow> Some (k, f) | Transition k _ f _ \<Rightarrow> Some (k, f)
     | SetRunId k _ f _ \<Rightarrow> Some (k, f) | MarkFailed k _ f _ _ _ \<Rightarrow> Some (k, f) | PauseRun k _ f _ \<Rightarrow> Some (k, f)
     | CreateOrGet _ _ \<Rightarrow> None | CancelRun _ _ \<Rightarrow> None | ResumeRun _ _ \<Rightarrow> None)"

lemma stale_script:
  "script_token c = Some (k, f) \<Longrightarrow> dget (sv_runs s) k = Some r \<Longrightarrow> f \<noteq> sr_fence r \<Longrightarrow> run_script now c s = s"
  by (cases c) (auto simp: script_token_def run_script_def owns_def append_shared_def acquire_running_def heartbeat_def
    release_lease_def transition_def set_shared_id_def mark_shared_failed_def pause_shared_def)

text \<open>A takeover, an accepted response and a cancellation replace the token.\<close>

definition regranted :: "string \<Rightarrow> nat \<Rightarrow> server \<Rightarrow> server \<Rightarrow> bool" where
  "regranted k g s t = (\<exists>now. (\<exists>a. create_or_get now k a s = ((2, g), t)) \<or> (\<exists>a. resume_shared now k a s = ((1, g), t)) \<or>
     (\<exists>a. cancel_shared now k a s = ((1, g), t)))"

lemma regranted_token:
  assumes "regranted k g s t" and r: "dget (sv_runs s) k = Some r"
  shows "g = Suc (sr_fence r)" and "\<exists>r'. dget (sv_runs t) k = Some r' \<and> sr_fence r' = g"
  using assms by (auto simp: regranted_def create_or_get_def resume_shared_def cancel_shared_def taken_over_def Let_def
    dict_simps split: if_splits)

subsection \<open>Reading the stream\<close>

lemma deliver_done:
  "deliver_entries st fence newest cursor es = (out, c, w) \<Longrightarrow> (n, p) \<in> set out \<Longrightarrow> done_payload p \<Longrightarrow>
     terminal_state st \<and> n = newest"
  by (induction st fence newest cursor es arbitrary: out c w rule: deliver_entries.induct)
     (auto simp: done_delivery_action_def split: if_splits option.splits delivery.splits prod.splits)

lemma deliver_cursor:
  "deliver_entries st fence newest cursor es = (out, c, w) \<Longrightarrow>
     cursor \<le> c \<and> (\<forall>(n, p)\<in>set out. n \<le> c \<and> n \<in> set (map ev_id es))"
proof (induction st fence newest cursor es arbitrary: out c w rule: deliver_entries.induct)
  case (2 st fence newest cursor e es)
  show ?case
  proof (cases "ev_id e \<le> cursor")
    case True
    then show ?thesis using 2(1)[OF True, of out c w] 2(4) by auto
  next
    case new: False
    obtain o' c' w' where rest: "deliver_entries st fence newest (ev_id e) es = (o', c', w')" by (metis prod.exhaust)
    show ?thesis
    proof (cases "done_delivery_action e st fence newest")
      case Deliver
      then show ?thesis using 2(2)[OF new Deliver rest] 2(4) new rest by auto
    next
      case Skip
      then show ?thesis using 2(3)[OF new Skip rest] 2(4) new rest by auto
    qed (use 2(4) new in auto)
  qed
qed simp

lemma deliver_exact:
  "deliver_entries st fence newest cursor es = (out, c, w) \<Longrightarrow> map ev_id es = [Suc cursor ..< Suc (cursor + length es)] \<Longrightarrow>
     (\<not> w \<longrightarrow> c = cursor + length es) \<and>
     filter (\<lambda>(_, p). \<not> done_payload p) out =
       map (\<lambda>e. (ev_id e, ev_payload e)) (filter (\<lambda>e. ev_id e \<le> c \<and> \<not> done_payload (ev_payload e)) es)"
proof (induction st fence newest cursor es arbitrary: out c w rule: deliver_entries.induct)
  case (2 st fence newest cursor e es)
  have e: "ev_id e = Suc cursor" and es: "map ev_id es = [Suc (Suc cursor) ..< Suc (Suc cursor + length es)]"
    using 2(5) by (auto simp: upt_rec split: if_splits)
  have above: "\<forall>x\<in>set es. Suc cursor < ev_id x"
  proof
    fix x assume "x \<in> set es"
    then have "ev_id x \<in> set (map ev_id es)" by simp
    then show "Suc cursor < ev_id x" unfolding es by (simp del: upt_Suc)
  qed
  show ?case
  proof (cases "done_delivery_action e st fence newest")
    case WaitForEnd
    then show ?thesis using 2(4) e above by (auto simp: filter_empty_conv)
  next
    case Skip
    then have d: "done_payload (ev_payload e)" by (auto simp: done_delivery_action_def split: if_splits)
    show ?thesis using 2(3)[OF _ Skip, of out c w] 2(4) e es d Skip by simp
  next
    case Deliver
    obtain o' c' w' where rest: "deliver_entries st fence newest (ev_id e) es = (o', c', w')" by (metis prod.exhaust)
    have "cursor < c'" using deliver_cursor[OF rest] e by simp
    then show ?thesis using 2(2)[OF _ Deliver rest] 2(4) e es Deliver rest by auto
  qed
qed simp

subsection \<open>Properties\<close>

lemma stored_ok: "shared_inv s \<Longrightarrow> dget (sv_runs s) k = Some r \<Longrightarrow> run_ok r"
  by (simp add: shared_inv_def)

lemma window_ids:
  assumes "window r" and "e \<in> set (sr_events r)"
  shows "ev_id e \<le> sr_last_event r"
proof -
  have "ev_id e \<in> set (map ev_id (sr_events r))" using assms(2) by simp
  then show ?thesis using assms(1) unfolding window_def by (simp del: upt_Suc)
qed

abbreviation reachable_server :: "server \<Rightarrow> bool" where
  "reachable_server \<equiv> reach (\<lambda>s. s = empty_server) shared_step"

fun run_scripts :: "(int \<times> script) list \<Rightarrow> server \<Rightarrow> server" where
  "run_scripts [] s = s"
| "run_scripts ((now, c) # cs) s = run_scripts cs (run_script now c s)"

lemma reach_scripts: "reachable_server s \<Longrightarrow> reachable_server (run_scripts cs s)"
  by (induction cs s rule: run_scripts.induct) (auto intro: reach.advance shared_step.script)

lemma reach_sample: "reachable_server (run_scripts cs empty_server)"
  by (intro reach_scripts reach.initial) simp

definition sample_create :: "string \<Rightarrow> create_args" where
  "sample_create owner = \<lparr>ca_request = ''r'', ca_fingerprint = ''f'', ca_kind = Stream, ca_agent = ''a'', ca_thread = ''t'',
     ca_user = ''u'', ca_timeout = 60, ca_buffer = 100, ca_owner = owner, ca_lease = 30, ca_time = ''t0'', ca_limit = 4\<rparr>"

definition sample_append :: "nat \<Rightarrow> string \<Rightarrow> append_args" where
  "sample_append n p = \<lparr>aa_payload = p, aa_maxlen = n, aa_key = [], aa_terminal = done_payload p, aa_audit = []\<rparr>"

definition sample_end :: end_args where
  "sample_end = \<lparr>ea_status = Completed, ea_time = ''t1'', ea_result = ''{}'', ea_code = [], ea_error = [], ea_http = 500, ea_retention = 1000\<rparr>"

text \<open>A stream from its start to its end, and the same run taken over when its lease is out.\<close>

definition sample_scripts :: "(int \<times> script) list" where
  "sample_scripts = [(0, CreateOrGet ''k'' (sample_create ''a'')), (1, AcquireRunning ''k'' ''a'' 1 4 30 ''t''),
     (2, AppendEvent ''k'' ''a'' 1 (sample_append 9 ''e1'')), (3, AppendEvent ''k'' ''a'' 1 (sample_append 9 done_event)),
     (4, Transition ''k'' ''a'' 1 sample_end)]"

text \<open>Two runs and one slot: the first owner's heartbeat comes when its lease has run out.\<close>

definition late_scripts :: "(int \<times> script) list" where
  "late_scripts = [(0, CreateOrGet ''k'' (sample_create ''a'')), (1, AcquireRunning ''k'' ''a'' 1 1 30 ''t''),
     (40, CreateOrGet ''m'' (sample_create ''b'')), (41, AcquireRunning ''m'' ''b'' 1 1 30 ''t''),
     (42, Heartbeat ''k'' ''a'' 1 30)]"

text \<open>
  C5: In every reachable state of the shared registry the counters of the states that are
  not final count exactly the stored runs in those states, a run has a lease in the active set
  exactly while it is stored and queued or running, a running run has one in the running set too, and
  only runs with an active lease are there; a run expires exactly when it has ended, and its retained
  events carry the consecutive identifiers up to the last one issued.
\<close>

theorem shared_registry_exact:
  assumes "reachable_server s"
  shows "(\<forall>st\<in>{Queued, Running, WaitingForInput}.
        dget_or (sv_counts s) st 0 = int (length (filter (\<lambda>(_, r). sr_status r = st) (sv_runs s)))) \<and>
    (\<forall>k. dget (sv_active s) k \<noteq> None \<longleftrightarrow> (\<exists>r. dget (sv_runs s) k = Some r \<and> sr_status r \<in> {Queued, Running})) \<and>
    (\<forall>k. dget (sv_running s) k \<noteq> None \<longrightarrow> dget (sv_active s) k \<noteq> None) \<and>
    (\<forall>k r. dget (sv_runs s) k = Some r \<longrightarrow>
      (sr_status r = Running \<longrightarrow> dget (sv_running s) k \<noteq> None) \<and>
      (sr_expires r \<noteq> None \<longleftrightarrow> sr_status r \<in> {Completed, Failed, Cancelled, TimedOut}) \<and>
      map ev_id (sr_events r) = [Suc (sr_last_event r) - length (sr_events r) ..< Suc (sr_last_event r)])"
    (is "?counts \<and> ?active \<and> ?running \<and> ?runs")
proof (intro conjI)
  have inv: "shared_inv s" using shared.reach_inv[OF assms] .
  show ?counts using inv by (simp add: shared_inv_def tally_def census_def)
  have no: "dget (sv_active s) k = None \<and> dget (sv_running s) k = None" if "dget (sv_runs s) k = None" for k
    using inv that by (simp add: shared_inv_def)
  have yes: "leases_at k (sr_status r) s" if "dget (sv_runs s) k = Some r" for k r
    using inv that by (simp add: shared_inv_def)
  show ?active
  proof
    fix k show "dget (sv_active s) k \<noteq> None \<longleftrightarrow> (\<exists>r. dget (sv_runs s) k = Some r \<and> sr_status r \<in> {Queued, Running})"
      using no[of k] yes[of k] by (cases "dget (sv_runs s) k") (auto simp: leases_at_def live_state_def)
  qed
  show ?running
  proof
    fix k show "dget (sv_running s) k \<noteq> None \<longrightarrow> dget (sv_active s) k \<noteq> None"
      using no[of k] yes[of k] by (cases "dget (sv_runs s) k") (auto simp: leases_at_def)
  qed
  show ?runs
  proof (intro allI impI)
    fix k r assume r: "dget (sv_runs s) k = Some r"
    show "(sr_status r = Running \<longrightarrow> dget (sv_running s) k \<noteq> None) \<and>
      (sr_expires r \<noteq> None \<longleftrightarrow> sr_status r \<in> {Completed, Failed, Cancelled, TimedOut}) \<and>
      map ev_id (sr_events r) = [Suc (sr_last_event r) - length (sr_events r) ..< Suc (sr_last_event r)]"
      using yes[OF r] stored_ok[OF inv r] by (simp add: leases_at_def run_ok_def window_def terminal_state_def)
  qed
qed

lemma shared_registry_exact_witness:
  "let s = run_scripts sample_scripts empty_server in
     (\<forall>k r. dget (sv_runs s) k = Some r \<longrightarrow> (sr_expires r \<noteq> None \<longleftrightarrow> sr_status r \<in> {Completed, Failed, Cancelled, TimedOut})) \<and>
     dget (sv_runs s) ''k'' \<noteq> None"
proof -
  have "dget (sv_runs (run_scripts sample_scripts empty_server)) ''k'' \<noteq> None" by code_simp
  then show ?thesis using shared_registry_exact[OF reach_sample, of sample_scripts] unfolding Let_def by blast
qed

text \<open>
  C4: Once a run has been taken over, resumed or cancelled, every token issued before is
  fenced off for as long as the run is stored: whatever scripts run in between, in any interleaving,
  a script of an owner that carries an earlier token leaves the server as it is.
\<close>

theorem fenced_forever:
  assumes "dget (sv_runs s) k = Some r" and "f \<le> sr_fence r"
    and "regranted k g s t" and "(keeps k)\<^sup>*\<^sup>* t u" and "script_token c = Some (k, f)"
  shows "f < g \<and> run_script now c u = u"
proof -
  obtain r' where r': "dget (sv_runs t) k = Some r'" "sr_fence r' = g" using regranted_token(2)[OF assms(3,1)] by blast
  obtain v where v: "dget (sv_runs u) k = Some v" "run_evolves r' v" by (rule kept_evolves[OF assms(4) r'(1)])
  have "f < g" using regranted_token(1)[OF assms(3,1)] assms(2) by simp
  moreover have "g \<le> sr_fence v" using v(2) r'(2) by (simp add: run_evolves_def)
  ultimately show ?thesis using stale_script[OF assms(5) v(1)] by simp
qed

text \<open>
  C8: A subscriber of the shared registry gets the done marker only at the true end: when
  a read, made at one state of the server and judged by a later one, delivers it, the run has ended
  for good, the marker is its last event, everything delivered before has a smaller identifier, and
  no later read yields anything.
\<close>

theorem done_marker_last:
  assumes s: "reachable_server s" and r: "dget (sv_runs s) k = Some r"
    and st: "(keeps k)\<^sup>*\<^sup>* s t" and v: "dget (sv_runs t) k = Some v"
    and out: "deliver_entries (sr_status v) (sr_fence v) (sr_last_event v) cursor (xread cursor r) = (out, c, w)"
    and n: "(n, p) \<in> set out" "done_payload p"
    and tu: "(keeps k)\<^sup>*\<^sup>* t u" and x: "dget (sv_runs u) k = Some x"
  shows "terminal_state (sr_status x) \<and> n = sr_last_event x \<and> (\<forall>(m, _)\<in>set out. m \<le> n) \<and> xread c x = []"
proof -
  have last: "terminal_state (sr_status v)" "n = sr_last_event v" using deliver_done[OF out n] by auto
  obtain v' where "dget (sv_runs u) k = Some v'" "run_evolves v v'" by (rule kept_evolves[OF tu v])
  then obtain y where y: "x = v\<lparr>sr_run_id := y\<rparr>" using x last by (auto simp: run_evolves_def)
  obtain v2 where "dget (sv_runs t) k = Some v2" "run_evolves r v2" by (rule kept_evolves[OF st r])
  then have le: "sr_last_event r \<le> n" using v last by (simp add: run_evolves_def)
  have wr: "window r" "window v" using stored_ok[OF shared.reach_inv[OF s] r] stored_ok[OF kept_inv[OF st shared.reach_inv[OF s]] v]
    by (auto simp: run_ok_def)
  have "n \<le> c" using deliver_cursor[OF out] n by auto
  then have "xread c x = []" using window_ids[OF wr(2)] last y by (fastforce simp: xread_def filter_empty_conv)
  moreover have "\<forall>(m, _)\<in>set out. m \<le> n"
    using deliver_cursor[OF out] window_ids[OF wr(1)] le by (fastforce simp: xread_def dest: in_set_takeD)
  ultimately show ?thesis using last y by simp
qed

text \<open>A second owner takes the run over, and the first goes on.\<close>

lemma fenced_forever_witness:
  "let s = run_script 0 (CreateOrGet ''k'' (sample_create ''a'')) empty_server;
       t = run_script 40 (CreateOrGet ''k'' (sample_create ''b'')) s
   in (1::nat) < 2 \<and> run_script 41 (Heartbeat ''k'' ''a'' 1 30) t = t"
proof -
  define s where "s = run_script 0 (CreateOrGet ''k'' (sample_create ''a'')) empty_server"
  define t where "t = run_script 40 (CreateOrGet ''k'' (sample_create ''b'')) s"
  have r: "dget (sv_runs s) ''k'' = Some (fresh_run 0 (sample_create ''a''))" unfolding s_def by code_simp
  have "fst (create_or_get 40 ''k'' (sample_create ''b'') s) = (2, 2)" unfolding s_def by code_simp
  then have "create_or_get 40 ''k'' (sample_create ''b'') s = ((2, 2), t)" by (simp add: t_def run_script_def prod_eq_iff)
  then have "regranted ''k'' 2 s t" unfolding regranted_def by blast
  then show ?thesis unfolding Let_def s_def[symmetric] t_def[symmetric]
    by (intro fenced_forever[OF r _ _ rtranclp.rtrancl_refl]) (simp_all add: fresh_run_def script_token_def)
qed

lemma done_marker_last_witness:
  "let s = run_scripts sample_scripts empty_server; v = the (dget (sv_runs s) ''k'');
       out = deliver_entries (sr_status v) (sr_fence v) (sr_last_event v) 0 (xread 0 v)
   in map fst (fst out) = [1, 2] \<and> terminal_state (sr_status v) \<and> xread (fst (snd out)) v = []"
proof -
  define s where "s = run_scripts sample_scripts empty_server"
  define v where "v = the (dget (sv_runs s) ''k'')"
  define out where "out = deliver_entries (sr_status v) (sr_fence v) (sr_last_event v) 0 (xread 0 v)"
  have v: "dget (sv_runs s) ''k'' = Some v" unfolding v_def s_def by code_simp
  have out3: "fst out = [(1, ''e1''), (2, done_event)]" unfolding out_def v_def s_def by code_simp
  then have eq: "deliver_entries (sr_status v) (sr_fence v) (sr_last_event v) 0 (xread 0 v) =
      ([(1, ''e1''), (2, done_event)], fst (snd out), snd (snd out))"
    by (metis out_def prod.collapse)
  have done_e: "done_payload done_event" by code_simp
  have "(2, done_event) \<in> set [(1, ''e1''), (2, done_event)]" by simp
  from done_marker_last[OF reach_sample[of sample_scripts, folded s_def] v rtranclp.rtrancl_refl v eq this done_e rtranclp.rtrancl_refl v]
  have "terminal_state (sr_status v) \<and> xread (fst (snd out)) v = []" by blast
  then show ?thesis unfolding Let_def s_def[symmetric] v_def[symmetric] out_def[symmetric] using out3 by simp
qed

lemma filter_above_upt: "filter (\<lambda>i. a < i) [m ..< n] = [max m (Suc a) ..< n]"
proof (induction n)
  case (Suc n)
  then show ?case by (auto simp: max_def le_Suc_eq)
qed simp

text \<open>
  C22: A subscriber that is at a position the gap check accepts misses nothing: the events
  read are the consecutive ones after the cursor, at most 256 of them; what it is given, done markers
  aside, is exactly the events up to the new cursor, in order; and unless it has to wait for the end
  of the run, the cursor moves past all that was read.
\<close>

theorem reader_misses_nothing:
  assumes s: "reachable_server s" and r: "dget (sv_runs s) k = Some r" and gap: "shared_replay_gap r cursor = None"
    and out: "deliver_entries st fence newest cursor (xread cursor r) = (out, c, w)"
  shows "map ev_id (xread cursor r) = [Suc cursor ..< Suc (min (cursor + 256) (sr_last_event r))] \<and>
    (\<not> w \<longrightarrow> c = cursor + min 256 (sr_last_event r - cursor)) \<and>
    filter (\<lambda>(_, p). \<not> done_payload p) out =
      map (\<lambda>e. (ev_id e, ev_payload e)) (filter (\<lambda>e. ev_id e \<le> c \<and> \<not> done_payload (ev_payload e)) (xread cursor r))"
proof -
  define m where "m = Suc (sr_last_event r) - length (sr_events r)"
  have win: "map ev_id (sr_events r) = [m ..< Suc (sr_last_event r)]" "m \<le> Suc (sr_last_event r)"
    using stored_ok[OF shared.reach_inv[OF s] r] by (auto simp: run_ok_def window_def m_def)
  have first: "m \<le> Suc cursor \<or> sr_last_event r \<le> cursor"
  proof (cases "sr_events r")
    case Nil
    then show ?thesis using gap by (auto simp: shared_replay_gap_def split: if_splits)
  next
    case (Cons e es)
    then have "ev_id e = m" using win by (auto simp: upt_rec split: if_splits)
    then show ?thesis using gap Cons by (auto simp: shared_replay_gap_def split: if_splits)
  qed
  have "map ev_id (filter (\<lambda>e. cursor < ev_id e) (sr_events r)) = filter (\<lambda>i. cursor < i) (map ev_id (sr_events r))"
    by (simp add: filter_map o_def)
  also have "\<dots> = [max m (Suc cursor) ..< Suc (sr_last_event r)]" unfolding win(1) by (rule filter_above_upt)
  also have "\<dots> = [Suc cursor ..< Suc (sr_last_event r)]" using first win(2) by (auto simp: max_def simp del: upt_Suc)
  finally have ids: "map ev_id (xread cursor r) = [Suc cursor ..< Suc (min (cursor + 256) (sr_last_event r))]"
    by (simp add: xread_def take_map[symmetric] take_upt min_def del: upt_Suc)
  then have len: "length (xread cursor r) = min 256 (sr_last_event r - cursor)"
    by (metis (no_types, lifting) add_diff_cancel_left' diff_Suc_Suc length_map length_upt nat_minus_add_max min_diff)
  have "map ev_id (xread cursor r) = [Suc cursor ..< Suc (cursor + length (xread cursor r))]"
    unfolding ids len by (cases "cursor \<le> sr_last_event r") (auto simp: min_def simp del: upt_Suc)
  then show ?thesis using deliver_exact[OF out] ids len by simp
qed

lemma reader_misses_nothing_witness:
  "let v = the (dget (sv_runs (run_scripts (take 4 sample_scripts) empty_server)) ''k'')
   in map ev_id (xread 0 v) = [1, 2] \<and> deliver_entries Running 1 2 0 (xread 0 v) = ([(1, ''e1'')], 1, True)"
proof -
  define s where "s = run_scripts (take 4 sample_scripts) empty_server"
  define v where "v = the (dget (sv_runs s) ''k'')"
  have v: "dget (sv_runs s) ''k'' = Some v" unfolding v_def s_def by code_simp
  have gap: "shared_replay_gap v 0 = None" unfolding v_def s_def by code_simp
  have out: "deliver_entries Running 1 2 0 (xread 0 v) = ([(1, ''e1'')], 1, True)" unfolding v_def s_def by code_simp
  have "sr_last_event v = 2" unfolding v_def s_def by code_simp
  then have "map ev_id (xread 0 v) = [1, 2]"
    using reader_misses_nothing[OF reach_sample[of "take 4 sample_scripts", folded s_def] v gap out] by (simp add: upt_rec)
  then show ?thesis unfolding Let_def s_def[symmetric] v_def[symmetric] using out by simp
qed

text \<open>Two events are appended between the check and the read, and the older ones are trimmed.\<close>

lemma slow_reader_loses:
  "let v = the (dget (sv_runs (run_scripts (take 3 sample_scripts) empty_server)) ''k'');
       u = the (dget (sv_runs (run_scripts [(3, AppendEvent ''k'' ''a'' 1 (sample_append 1 ''e2'')),
             (4, AppendEvent ''k'' ''a'' 1 (sample_append 1 ''e3''))] (run_scripts (take 3 sample_scripts) empty_server))) ''k'')
   in shared_replay_gap v 0 = None \<and> deliver_entries Running 1 3 0 (xread 0 u) = ([(3, ''e3'')], 3, False)"
  by code_simp

text \<open>
  A run starts only while fewer than the permitted number of leases are live: after a
  successful acquisition at most that many are, and the bound is refused before anything changes.
\<close>
lemma acquire_bound:
  assumes "acquire_running now k ow f limit lease time s = (code, t)"
  shows "(code = 1 \<longrightarrow> zcount now (sv_running t) \<le> limit) \<and> (code = 0 \<longrightarrow> limit \<le> zcount now (sv_running s)) \<and>
    (code \<noteq> 1 \<longrightarrow> t = s)"
proof -
  have "zcount now (dset k v d) \<le> zcount now d + 1" for v d
    by (simp add: zcount_def count_dset split: option.split)
  then show ?thesis using assms
    by (auto simp: acquire_running_def Let_def split: option.splits if_splits intro: order_trans[of _ "zcount now (sv_running s) + 1"])
qed

text \<open>
  The bound of running leases holds at acquisitions only: although every acquisition
  respects a limit of one, an owner whose lease ran out and who renews it after another run took the
  slot brings two live leases into the running set.
\<close>
lemma late_heartbeat:
  "map (\<lambda>n. zcount (fst (last (take n late_scripts))) (sv_running (run_scripts (take n late_scripts) empty_server))) [2, 4, 5] = [1, 1, 2] \<and>
   [limit. AcquireRunning _ _ _ limit _ _ \<leftarrow> map snd late_scripts] = [1, 1]"
  by code_simp

end
