(* ===== verification/SharedExecution.thy ===== *)
theory SharedExecution
  imports SharedSafety
begin

text \<open>
  How an instance executes a run of the shared registry (\<^verbatim>\<open>_execute\<close>, \<^verbatim>\<open>_wait_for_running_slot\<close>,
  \<^verbatim>\<open>append_event\<close>, \<^verbatim>\<open>_append_terminal_error\<close> and \<^verbatim>\<open>_transition\<close> of
  \<^verbatim>\<open>src/src/service/redis_run_registry.py\<close>): the phases between its awaits, one step per script or read
  of the server. Other instances act in between. A failing connection to the server is not modelled.
\<close>

subsection \<open>The execution of a run\<close>

text \<open>
  How an execution ends: the producer returned, the time ran out, the task was cancelled (at a
  shutdown or not), the request was rejected, or any other exception.
\<close>

datatype execution_end = Returned string | OutOfTime | Interrupted bool | RejectedWith string int | Broken

record failure_report =
  fl_message :: string
  fl_code :: string
  fl_retryable :: bool
  fl_status :: run_state
  fl_error :: string
  fl_http :: int

record goal =
  go_status :: run_state
  go_result :: string
  go_code :: string
  go_error :: string
  go_http :: int

text \<open>What is being sent: the done marker of a success, the error of a failure, its done marker.\<close>

datatype purpose = FinishDone string | FailError failure_report | FailDone failure_report

text \<open>Between two phases other instances act. The flag of a goal says that it is set within the try block.\<close>

datatype exec_phase =
    Acquiring | Refused | Producing | Ended execution_end
  | Sending purpose | Oversized purpose | Resending purpose
  | Reloading string | Settling bool goal | Checking bool goal
  | Abandoned | Released | Concluded | Raised | Torn

record execution =
  xe_key :: string
  xe_instance :: string
  xe_fence :: nat
  xe_kind :: run_kind
  xe_buffer :: nat
  xe_max_bytes :: nat
  xe_limit :: int
  xe_lease :: int
  xe_retention :: int
  xe_time :: string
  xe_timeout_text :: string
  xe_audit :: "string \<Rightarrow> string"
  xe_emitted :: bool

definition failure_of :: "execution \<Rightarrow> execution_end \<Rightarrow> failure_report" where
  "failure_of x e = (case e of
       OutOfTime \<Rightarrow> \<lparr>fl_message = ''Run exceeded its configured timeout.'', fl_code = ''run_timeout'', fl_retryable = True,
         fl_status = TimedOut, fl_error = xe_timeout_text x, fl_http = 504\<rparr>
     | Interrupted _ \<Rightarrow> \<lparr>fl_message = ''Run was cancelled.'', fl_code = ''run_cancelled'', fl_retryable = False,
         fl_status = Cancelled, fl_error = ''Run was cancelled.'', fl_http = 409\<rparr>
     | RejectedWith detail http \<Rightarrow> \<lparr>fl_message = detail, fl_code = ''request_rejected'', fl_retryable = False,
         fl_status = Failed, fl_error = detail, fl_http = http\<rparr>
     | _ \<Rightarrow> \<lparr>fl_message = ''Internal server error'', fl_code = ''internal_error'', fl_retryable = False,
         fl_status = Failed, fl_error = ''Internal server error'', fl_http = 500\<rparr>)"

definition failure_goal :: "failure_report \<Rightarrow> goal" where
  "failure_goal f = \<lparr>go_status = fl_status f, go_result = [], go_code = fl_code f, go_error = fl_error f, go_http = fl_http f\<rparr>"

definition success_goal :: "shared_run \<Rightarrow> string \<Rightarrow> goal" where
  "success_goal r res = \<lparr>go_status = (if sr_stream_failed r then Failed else Completed), go_result = res,
     go_code = sr_error_code r, go_error = sr_error r, go_http = sr_http r\<rparr>"

definition given_up :: "execution \<Rightarrow> shared_run \<Rightarrow> bool" where
  "given_up x r = (sr_fence r \<noteq> xe_fence x \<or> sr_owner r \<noteq> xe_instance x \<or> sr_status r = WaitingForInput)"

definition purpose_payload :: "purpose \<Rightarrow> string" where
  "purpose_payload p = (case p of FailError f \<Rightarrow> error_payload (fl_message f) (fl_code f) (fl_retryable f) | _ \<Rightarrow> done_event)"

definition purpose_key :: "execution \<Rightarrow> purpose \<Rightarrow> string" where
  "purpose_key x p = (case p of FailError f \<Rightarrow> ''terminal-error:'' @ fl_code f
     | _ \<Rightarrow> ''terminal-done:'' @ nat_str (xe_fence x))"

definition raised_from :: "bool \<Rightarrow> exec_phase" where
  "raised_from trying = (if trying then Ended Broken else Raised)"

text \<open>What follows a reply; a terminal error swallows conflicts and missing runs.\<close>

definition after_send :: "execution \<Rightarrow> purpose \<Rightarrow> int \<Rightarrow> exec_phase" where
  "after_send x p code =
     (case p of
        FinishDone res \<Rightarrow> if code \<ge> 0 then Reloading res else Ended Broken
      | FailError f \<Rightarrow> if code \<in> {- 1, - 2, - 3} then Settling False (failure_goal f) else if code < 0 then Raised
          else if xe_emitted x then Settling False (failure_goal f) else Sending (FailDone f)
      | FailDone f \<Rightarrow> if code \<in> {- 1, - 2, - 3} \<or> code \<ge> 0 then Settling False (failure_goal f) else Raised)"

definition send_step :: "execution \<Rightarrow> purpose \<Rightarrow> string \<Rightarrow> server \<Rightarrow> exec_phase \<times> execution \<times> server" where
  "send_step x p payload s =
     (let ((code, event), t) = append_shared (xe_key x) (xe_instance x) (xe_fence x)
            \<lparr>aa_payload = payload, aa_maxlen = xe_buffer x, aa_key = purpose_key x p, aa_terminal = done_payload payload,
             aa_audit = xe_audit x payload\<rparr> s
      in if event = None then (after_send x p (- 5), x, t)
         else (let x' = (if code \<ge> 0 \<and> done_payload payload then x\<lparr>xe_emitted := True\<rparr> else x)
               in (after_send x' p code, x', t)))"

definition exec_step :: "int \<Rightarrow> execution \<Rightarrow> exec_phase \<Rightarrow> server \<Rightarrow> exec_phase \<times> execution \<times> server" where
  "exec_step now x ph s =
     (let stored = dget (sv_runs s) (xe_key x) in
      case ph of
        Acquiring \<Rightarrow>
          (let (code, t) = acquire_running now (xe_key x) (xe_instance x) (xe_fence x) (xe_limit x) (xe_lease x) (xe_time x) s
           in (if code = 1 then Producing else if code = 0 then Acquiring else Refused, x, t))
      | Refused \<Rightarrow>
          (case stored of
             Some r \<Rightarrow> (if terminal_state (sr_status r) then Ended (Interrupted False) else Ended Broken, x, s)
           | None \<Rightarrow> (Ended Broken, x, s))
      | Ended (Returned res) \<Rightarrow>
          (case stored of
             None \<Rightarrow> (Ended Broken, x, s)
           | Some r \<Rightarrow>
               if given_up x r then (Abandoned, x, s)
               else if xe_kind x = Stream \<and> \<not> sr_terminal_emitted r then (Sending (FinishDone res), x, s)
               else (Settling True (success_goal r res), x, s))
      | Ended (Interrupted True) \<Rightarrow> (Released, x, snd (release_lease (xe_key x) (xe_instance x) (xe_fence x) s))
      | Ended e \<Rightarrow>
          (case stored of
             None \<Rightarrow> (Raised, x, s)
           | Some r \<Rightarrow>
               if given_up x r \<or> e = Interrupted False \<and> terminal_state (sr_status r) then (Abandoned, x, s)
               else if xe_kind x = Stream then (Sending (FailError (failure_of x e)), x, s)
               else (Settling False (failure_goal (failure_of x e)), x, s))
      | Sending p \<Rightarrow>
          if utf8_length (purpose_payload p) > xe_max_bytes x then (Oversized p, x, s) else send_step x p (purpose_payload p) s
      | Oversized p \<Rightarrow>
          (let (code, t) = mark_shared_failed (xe_key x) (xe_instance x) (xe_fence x) ''event_too_large''
                 (too_large_message (xe_max_bytes x)) 500 s
           in (if code = 1 then Resending p else after_send x p code, x, t))
      | Resending p \<Rightarrow> send_step x p (error_payload (too_large_message (xe_max_bytes x)) ''event_too_large'' False) s
      | Reloading res \<Rightarrow>
          (case stored of None \<Rightarrow> (Ended Broken, x, s) | Some r \<Rightarrow> (Settling True (success_goal r res), x, s))
      | Settling trying g \<Rightarrow>
          (let (code, t) = transition now (xe_key x) (xe_instance x) (xe_fence x)
                 \<lparr>ea_status = go_status g, ea_time = xe_time x, ea_result = go_result g, ea_code = go_code g,
                  ea_error = go_error g, ea_http = go_http g, ea_retention = xe_retention x\<rparr> s
           in (if code \<in> {- 1, - 2} then raised_from trying else if code \<in> {- 3, - 4} then Checking trying g else Concluded, x, t))
      | Checking trying g \<Rightarrow>
          (case stored of
             None \<Rightarrow> (raised_from trying, x, s)
           | Some r \<Rightarrow> (if sr_status r = go_status g then Concluded else raised_from trying, x, s))
      | _ \<Rightarrow> (ph, x, s))"

definition phase_final :: "exec_phase \<Rightarrow> bool" where
  "phase_final ph = (ph \<in> {Abandoned, Released, Concluded, Raised, Torn})"

text \<open>Where a cancellation of the task hits: in the try block it is caught, in a handler it is not.\<close>

definition finishing :: "purpose \<Rightarrow> bool" where
  "finishing p = (case p of FinishDone _ \<Rightarrow> True | _ \<Rightarrow> False)"

definition within_try :: "exec_phase \<Rightarrow> bool" where
  "within_try ph = (case ph of Acquiring \<Rightarrow> True | Refused \<Rightarrow> True | Producing \<Rightarrow> True
     | Ended e \<Rightarrow> (case e of Returned _ \<Rightarrow> True | _ \<Rightarrow> False)
     | Sending p \<Rightarrow> finishing p | Oversized p \<Rightarrow> finishing p | Resending p \<Rightarrow> finishing p
     | Reloading _ \<Rightarrow> True | Settling trying _ \<Rightarrow> trying | Checking trying _ \<Rightarrow> trying | _ \<Rightarrow> False)"

definition interrupted_at :: "bool \<Rightarrow> exec_phase \<Rightarrow> exec_phase" where
  "interrupted_at closing ph = (if within_try ph then Ended (Interrupted closing) else if phase_final ph then ph else Torn)"

subsection \<open>The execution among other instances\<close>

text \<open>The number counts the steps of the execution itself; in between anything may happen to the server.\<close>

inductive execution_run :: "nat \<Rightarrow> exec_phase \<times> execution \<times> server \<Rightarrow> exec_phase \<times> execution \<times> server \<Rightarrow> bool" where
  start: "execution_run 0 c c"
| own: "execution_run n c (ph, x, s) \<Longrightarrow> execution_run (Suc n) c (exec_step now x ph s)"
| other: "execution_run n c (ph, x, s) \<Longrightarrow> keeps (xe_key x) s t \<Longrightarrow> execution_run n c (ph, x, t)"
| interrupt: "execution_run n c (ph, x, s) \<Longrightarrow> execution_run n c (interrupted_at closing ph, x, s)"

fun rank :: "exec_phase \<Rightarrow> nat" where
  "rank (Ended (Returned _)) = 16"
| "rank (Sending (FinishDone _)) = 15"
| "rank (Oversized (FinishDone _)) = 14"
| "rank (Resending (FinishDone _)) = 13"
| "rank (Reloading _) = 12"
| "rank (Settling True _) = 11"
| "rank (Checking True _) = 10"
| "rank (Ended _) = 9"
| "rank (Sending (FailError _)) = 8"
| "rank (Oversized (FailError _)) = 7"
| "rank (Resending (FailError _)) = 6"
| "rank (Sending (FailDone _)) = 5"
| "rank (Oversized (FailDone _)) = 4"
| "rank (Resending (FailDone _)) = 3"
| "rank (Settling False _) = 2"
| "rank (Checking False _) = 1"
| "rank Acquiring = 19"
| "rank Refused = 17"
| "rank Producing = 18"
| "rank _ = 0"

lemma rank_zero: "rank ph = 0 \<longleftrightarrow> phase_final ph"
  by (cases ph rule: rank.cases) (auto simp: phase_final_def)

lemma rank_after_send:
  "12 < n \<Longrightarrow> rank (after_send x (FinishDone r) code) < n"
  "5 < n \<Longrightarrow> rank (after_send x (FailError f) code) < n"
  "2 < n \<Longrightarrow> rank (after_send x (FailDone f) code) < n"
  by (auto simp: after_send_def)

lemma rank_send_step:
  "12 < n \<Longrightarrow> rank (fst (send_step x (FinishDone r) payload s)) < n"
  "5 < n \<Longrightarrow> rank (fst (send_step x (FailError f) payload s)) < n"
  "2 < n \<Longrightarrow> rank (fst (send_step x (FailDone f) payload s)) < n"
  by (auto simp: send_step_def Let_def rank_after_send split: prod.split)

lemma rank_step:
  assumes "rank ph \<le> 16" and "0 < rank ph"
  shows "rank (fst (exec_step now x ph s)) < rank ph"
  by (cases ph rule: rank.cases)
     (use assms in \<open>auto simp: exec_step_def Let_def raised_from_def rank_after_send rank_send_step
        split: option.split prod.split bool.split\<close>)

lemma rank_interrupted: "rank ph \<le> 16 \<Longrightarrow> rank (interrupted_at closing ph) \<le> rank ph"
  by (cases ph rule: rank.cases) (auto simp: interrupted_at_def within_try_def finishing_def phase_final_def)

text \<open>What the execution knows of its run, and when the run is no longer its business.\<close>

definition held :: "execution \<Rightarrow> server \<Rightarrow> bool" where
  "held x s = (shared_inv s \<and> (\<exists>r. dget (sv_runs s) (xe_key x) = Some r \<and> xe_fence x \<le> sr_fence r \<and>
     (sr_fence r = xe_fence x \<longrightarrow> sr_owner r = xe_instance x)))"

definition run_settled :: "execution \<Rightarrow> server \<Rightarrow> bool" where
  "run_settled x s = (\<exists>r. dget (sv_runs s) (xe_key x) = Some r \<and>
     (terminal_state (sr_status r) \<or> sr_status r = WaitingForInput \<or> xe_fence x < sr_fence r))"

definition failing :: "purpose \<Rightarrow> bool" where
  "failing p = (case p of FinishDone _ \<Rightarrow> True | FailError f \<Rightarrow> terminal_state (fl_status f) | FailDone f \<Rightarrow> terminal_state (fl_status f))"

definition phase_ok :: "execution \<Rightarrow> server \<Rightarrow> exec_phase \<Rightarrow> bool" where
  "phase_ok x s ph = (case ph of Abandoned \<Rightarrow> run_settled x s | Concluded \<Rightarrow> run_settled x s | Raised \<Rightarrow> run_settled x s
     | Checking _ g \<Rightarrow> run_settled x s \<and> terminal_state (go_status g) | Settling _ g \<Rightarrow> terminal_state (go_status g)
     | Sending p \<Rightarrow> failing p | Oversized p \<Rightarrow> failing p | Resending p \<Rightarrow> failing p | _ \<Rightarrow> True)"

lemma evolves_ended:
  assumes "run_evolves r r'" and "terminal_state (sr_status r)"
  shows "terminal_state (sr_status r')"
proof -
  obtain y where "r' = r\<lparr>sr_run_id := y\<rparr>" using assms unfolding run_evolves_def by blast
  then show ?thesis using assms(2) by simp
qed

lemma evolves_token:
  assumes "run_evolves r r'"
  shows "sr_fence r \<le> sr_fence r'" and "sr_fence r' = sr_fence r \<Longrightarrow> sr_owner r' = sr_owner r"
    and "sr_status r = WaitingForInput \<Longrightarrow> sr_fence r' = sr_fence r \<Longrightarrow>
      sr_status r' = WaitingForInput \<or> terminal_state (sr_status r')"
proof -
  show "sr_fence r \<le> sr_fence r'" using assms unfolding run_evolves_def by blast
  have "sr_owner r' \<noteq> sr_owner r \<longrightarrow> sr_fence r < sr_fence r'" using assms unfolding run_evolves_def by blast
  then show "sr_fence r' = sr_fence r \<Longrightarrow> sr_owner r' = sr_owner r" by fastforce
  show "sr_status r = WaitingForInput \<Longrightarrow> sr_fence r' = sr_fence r \<Longrightarrow>
      sr_status r' = WaitingForInput \<or> terminal_state (sr_status r')"
    using assms unfolding run_evolves_def by blast
qed

lemma stay_held:
  assumes "held x s" and "dget (sv_runs s) (xe_key x) = Some r" and "dget (sv_runs t) (xe_key x) = Some r'"
    and "run_evolves r r'" and "shared_inv t"
  shows "held x t"
proof -
  have "xe_fence x \<le> sr_fence r" "sr_fence r = xe_fence x \<longrightarrow> sr_owner r = xe_instance x" using assms(1,2) by (auto simp: held_def)
  then have "xe_fence x \<le> sr_fence r' \<and> (sr_fence r' = xe_fence x \<longrightarrow> sr_owner r' = xe_instance x)"
    using evolves_token[OF assms(4)] by (metis le_antisym le_trans)
  then show ?thesis using assms(3,5) by (simp add: held_def)
qed

lemma stay_settled:
  assumes "run_settled x s" and "held x s" and r: "dget (sv_runs s) (xe_key x) = Some r"
    and r': "dget (sv_runs t) (xe_key x) = Some r'" and ev: "run_evolves r r'"
  shows "run_settled x t"
proof -
  have "xe_fence x \<le> sr_fence r" using assms(2) r by (auto simp: held_def)
  moreover have "terminal_state (sr_status r) \<or> sr_status r = WaitingForInput \<or> xe_fence x < sr_fence r"
    using assms(1) r by (auto simp: run_settled_def)
  ultimately have "terminal_state (sr_status r') \<or> sr_status r' = WaitingForInput \<or> xe_fence x < sr_fence r'"
    using evolves_token[OF ev] evolves_ended[OF ev] by (metis le_less le_less_trans less_le_trans)
  then show ?thesis using r' by (simp add: run_settled_def)
qed

lemma phase_ok_mono: "phase_ok x s ph \<Longrightarrow> (run_settled x s \<Longrightarrow> run_settled x t) \<Longrightarrow> phase_ok x t ph"
  by (cases ph) (auto simp: phase_ok_def)

lemma not_owned: "held x s \<Longrightarrow> dget (sv_runs s) (xe_key x) = Some r \<Longrightarrow> \<not> owns (xe_instance x) (xe_fence x) r \<Longrightarrow> run_settled x s"
  by (auto simp: held_def run_settled_def owns_def)

lemma left_alone: "held x s \<Longrightarrow> dget (sv_runs s) (xe_key x) = Some r \<Longrightarrow> given_up x r \<Longrightarrow> run_settled x s"
  by (auto simp: held_def run_settled_def given_up_def)

text \<open>The replies of the server.\<close>

lemma append_reply:
  assumes "held x s" and "append_shared (xe_key x) (xe_instance x) (xe_fence x) a s = ((code, event), t)"
    and "\<And>y. take 9 (aa_key a) = ''response:'' \<Longrightarrow> False"
  shows "event \<noteq> None \<and> code \<in> {- 4, - 3, - 2, - 1, 0, 1} \<and> (code = - 4 \<longrightarrow> run_settled x t)"
proof -
  obtain r where r: "dget (sv_runs s) (xe_key x) = Some r" "run_ok r" using assms(1) stored_ok by (auto simp: held_def)
  then have "dget (sr_remembered r) (aa_key a) \<noteq> Some (AcceptedResponse y)" for y using assms(3) by (auto simp: run_ok_def)
  then show ?thesis using assms(2) r(1)
    by (auto simp: append_shared_def run_settled_def Let_def split: if_splits option.splits remembered.splits)
qed

lemma transition_reply:
  assumes "held x s" and g: "terminal_state (ea_status a)"
    and "transition now (xe_key x) (xe_instance x) (xe_fence x) a s = (code, t)"
  shows "run_settled x t"
proof -
  obtain r where r: "dget (sv_runs s) (xe_key x) = Some r" using assms(1) by (auto simp: held_def)
  show ?thesis
  proof (cases "owns (xe_instance x) (xe_fence x) r")
    case True
    then show ?thesis using assms(3) r g
      by (auto simp: transition_def run_settled_def Let_def dict_simps split: if_splits)
  next
    case False
    then show ?thesis using not_owned[OF assms(1) r] assms(3) r by (simp add: transition_def)
  qed
qed

lemma transition_code:
  "transition now k ow f a s = (code, t) \<Longrightarrow> code \<in> {- 4, - 3, - 2, - 1, 0, 1}"
  by (auto simp: transition_def Let_def split: option.splits if_splits)

lemma purpose_key_fresh: "take 9 (purpose_key x p) \<noteq> ''response:''"
  by (simp add: purpose_key_def split: purpose.split)

lemma after_send_ok:
  "failing p \<Longrightarrow> (code = - 4 \<Longrightarrow> run_settled x t) \<Longrightarrow> code \<in> {- 4, - 3, - 2, - 1, 0, 1} \<Longrightarrow> phase_ok x t (after_send x' p code)"
  by (auto simp: after_send_def phase_ok_def failing_def failure_goal_def split: purpose.split)

lemma send_ok:
  assumes "held x s" and "failing p" and "send_step x p payload s = (ph', x', t)"
  shows "phase_ok x t ph'"
proof -
  define a where "a = \<lparr>aa_payload = payload, aa_maxlen = xe_buffer x, aa_key = purpose_key x p, aa_terminal = done_payload payload,
     aa_audit = xe_audit x payload\<rparr>"
  obtain code event u where reply: "append_shared (xe_key x) (xe_instance x) (xe_fence x) a s = ((code, event), u)"
    by (metis prod.exhaust)
  have "event \<noteq> None \<and> code \<in> {- 4, - 3, - 2, - 1, 0, 1} \<and> (code = - 4 \<longrightarrow> run_settled x u)"
    using append_reply[OF assms(1) reply] purpose_key_fresh by (simp add: a_def)
  then show ?thesis using after_send_ok[OF assms(2), of code x u] assms(3) reply
    by (auto simp: send_step_def a_def[symmetric] Let_def)
qed

lemma phase_ok_simps [simp]:
  "phase_ok x s Abandoned = run_settled x s" "phase_ok x s Concluded = run_settled x s" "phase_ok x s Raised = run_settled x s"
  "phase_ok x s (Checking b g) = (run_settled x s \<and> terminal_state (go_status g))"
  "phase_ok x s (Settling b g) = terminal_state (go_status g)"
  "phase_ok x s (Sending p) = failing p" "phase_ok x s (Oversized p) = failing p" "phase_ok x s (Resending p) = failing p"
  "phase_ok x s (Ended e)" "phase_ok x s Acquiring" "phase_ok x s Refused" "phase_ok x s Producing" "phase_ok x s Released"
  "phase_ok x s Torn" "phase_ok x s (Reloading res)"
  by (simp_all add: phase_ok_def)

lemma raised_ok: "run_settled x s \<Longrightarrow> phase_ok x s (raised_from trying)"
  by (simp add: raised_from_def)

lemma failure_status: "terminal_state (fl_status (failure_of x e))"
  by (simp add: failure_of_def split: execution_end.split)

lemma goal_status [simp]: "terminal_state (go_status (success_goal r res))" "go_status (failure_goal f) = fl_status f"
  by (simp_all add: success_goal_def failure_goal_def)

lemma mark_code: "mark_shared_failed k ow f code m http s = (c, t) \<Longrightarrow> c \<in> {- 3, - 2, - 1, 1}"
  by (auto simp: mark_shared_failed_def Let_def split: option.splits if_splits)

lemma step_ok:
  assumes held: "held x s" and ok: "phase_ok x s ph" and step: "exec_step now x ph s = (ph', x', t)"
  shows "phase_ok x t ph'"
proof -
  obtain r where r: "dget (sv_runs s) (xe_key x) = Some r" using held by (auto simp: held_def)
  show ?thesis
  proof (cases ph)
    case (Ended e)
    then show ?thesis using step r left_alone[OF held r] failure_status
      by (cases e) (auto simp: exec_step_def failing_def run_settled_def split: if_splits bool.splits)
  next
    case (Sending p)
    then show ?thesis using step ok send_ok[OF held] by (auto simp: exec_step_def split: if_splits)
  next
    case (Oversized p)
    then have p: "failing p" using ok by simp
    obtain c u where m: "mark_shared_failed (xe_key x) (xe_instance x) (xe_fence x) ''event_too_large''
        (too_large_message (xe_max_bytes x)) 500 s = (c, u)" by fastforce
    show ?thesis using step Oversized m p mark_code[OF m] after_send_ok[OF p, of c x u x]
      by (auto simp: exec_step_def split: if_splits)
  next
    case (Resending p)
    then show ?thesis using step ok send_ok[OF held] by (auto simp: exec_step_def)
  next
    case (Settling trying g)
    then have g: "terminal_state (go_status g)" using ok by simp
    define a where "a = \<lparr>ea_status = go_status g, ea_time = xe_time x, ea_result = go_result g, ea_code = go_code g,
                  ea_error = go_error g, ea_http = go_http g, ea_retention = xe_retention x\<rparr>"
    obtain c u where m: "transition now (xe_key x) (xe_instance x) (xe_fence x) a s = (c, u)" by fastforce
    have "run_settled x u" using transition_reply[OF held _ m] g by (simp add: a_def)
    then show ?thesis using step m g raised_ok[of x u trying] unfolding Settling
      by (auto simp: exec_step_def a_def[symmetric] split: if_splits)
  next
    case (Checking trying g)
    then show ?thesis using step ok r raised_ok[of x s trying]
      by (auto simp: exec_step_def split: if_splits)
  qed (use step ok r in \<open>auto simp: exec_step_def split: if_splits prod.splits\<close>)
qed

lemma interrupted_ok: "phase_ok x s ph \<Longrightarrow> phase_ok x s (interrupted_at closing ph)"
  by (simp add: interrupted_at_def)

text \<open>A step of the execution is at most one script on the server.\<close>

lemma send_server: "\<exists>a. snd (snd (send_step x p payload s)) = snd (append_shared (xe_key x) (xe_instance x) (xe_fence x) a s)"
  by (rule exI[of _ "\<lparr>aa_payload = payload, aa_maxlen = xe_buffer x, aa_key = purpose_key x p, aa_terminal = done_payload payload,
             aa_audit = xe_audit x payload\<rparr>"])
     (simp add: send_step_def Let_def split: prod.split)

lemma exec_server: "snd (snd (exec_step now x ph s)) = s \<or> (\<exists>c. snd (snd (exec_step now x ph s)) = run_script now c s)"
proof (cases ph)
  case Acquiring
  then show ?thesis
    by (auto simp: exec_step_def run_script_def Let_def split: prod.split
        intro!: disjI2 exI[of _ "AcquireRunning (xe_key x) (xe_instance x) (xe_fence x) (xe_limit x) (xe_lease x) (xe_time x)"])
next
  case (Ended e)
  then show ?thesis
    by (cases e) (auto simp: exec_step_def run_script_def split: option.split bool.split
        intro!: exI[of _ "ReleaseLease (xe_key x) (xe_instance x) (xe_fence x)"])
next
  case (Sending p)
  obtain a where "snd (snd (send_step x p (purpose_payload p) s)) = snd (append_shared (xe_key x) (xe_instance x) (xe_fence x) a s)"
    using send_server by blast
  then show ?thesis unfolding Sending
    by (auto simp: exec_step_def run_script_def intro!: exI[of _ "AppendEvent (xe_key x) (xe_instance x) (xe_fence x) a"])
next
  case (Oversized p)
  then show ?thesis
    by (auto simp: exec_step_def run_script_def split: prod.split
        intro!: disjI2 exI[of _ "MarkFailed (xe_key x) (xe_instance x) (xe_fence x) ''event_too_large'' (too_large_message (xe_max_bytes x)) 500"])
next
  case (Resending p)
  obtain a where "snd (snd (send_step x p (error_payload (too_large_message (xe_max_bytes x)) ''event_too_large'' False) s)) =
      snd (append_shared (xe_key x) (xe_instance x) (xe_fence x) a s)"
    using send_server by blast
  then show ?thesis unfolding Resending
    by (auto simp: exec_step_def run_script_def intro!: exI[of _ "AppendEvent (xe_key x) (xe_instance x) (xe_fence x) a"])
next
  case (Settling trying g)
  then show ?thesis
    by (auto simp: exec_step_def run_script_def split: prod.split
        intro!: disjI2 exI[of _ "Transition (xe_key x) (xe_instance x) (xe_fence x)
          \<lparr>ea_status = go_status g, ea_time = xe_time x, ea_result = go_result g, ea_code = go_code g,
           ea_error = go_error g, ea_http = go_http g, ea_retention = xe_retention x\<rparr>"])
qed (auto simp: exec_step_def split: option.split)

lemma exec_identity:
  "xe_key (fst (snd (exec_step now x ph s))) = xe_key x \<and> xe_fence (fst (snd (exec_step now x ph s))) = xe_fence x \<and>
   xe_instance (fst (snd (exec_step now x ph s))) = xe_instance x"
  by (cases ph) (auto simp: exec_step_def send_step_def Let_def split: option.split prod.split execution_end.split bool.split)

lemma same_execution:
  assumes "xe_key y = xe_key x" "xe_fence y = xe_fence x" "xe_instance y = xe_instance x"
  shows "held y s = held x s" and "run_settled y s = run_settled x s" and "phase_ok y s ph = phase_ok x s ph"
  using assms by (cases ph; simp add: held_def run_settled_def)+

lemma script_evolves:
  assumes "held x s" and t: "t = s \<or> (\<exists>c. t = run_script now c s)"
  obtains r r' where "dget (sv_runs s) (xe_key x) = Some r" and "dget (sv_runs t) (xe_key x) = Some r'"
    and "run_evolves r r'" and "shared_inv t"
proof -
  obtain r where r: "dget (sv_runs s) (xe_key x) = Some r" and inv: "shared_inv s" using assms(1) by (auto simp: held_def)
  have "\<exists>r'. dget (sv_runs t) (xe_key x) = Some r' \<and> run_evolves r r' \<and> shared_inv t"
    using t
  proof
    assume "t = s"
    then show ?thesis using r inv by simp
  next
    assume "\<exists>c. t = run_script now c s"
    then show ?thesis using effect_evolves[OF effect_script r] effect_inv[OF inv effect_script] by blast
  qed
  then show ?thesis using that r by blast
qed

lemma execution_keeps:
  assumes "execution_run n c d" and "c = (Ended e, x0, s0)" and "held x0 s0"
  shows "case d of (ph, x, s) \<Rightarrow> held x s \<and> phase_ok x s ph \<and> rank ph \<le> 16 \<and> (rank ph = 0 \<or> rank ph + n \<le> 16) \<and>
    xe_key x = xe_key x0 \<and> xe_fence x = xe_fence x0"
  using assms
proof (induction rule: execution_run.induct)
  case (start c)
  then show ?case by (cases e) simp_all
next
  case (own n c ph x s now)
  have h: "held x s" and ok: "phase_ok x s ph" and rk: "rank ph \<le> 16" "rank ph = 0 \<or> rank ph + n \<le> 16"
    and same: "xe_key x = xe_key x0" "xe_fence x = xe_fence x0"
    using own.IH[OF own.prems] by simp_all
  obtain ph' x' t where st: "exec_step now x ph s = (ph', x', t)" by (metis prod.exhaust)
  have ids: "xe_key x' = xe_key x" "xe_fence x' = xe_fence x" "xe_instance x' = xe_instance x"
    using exec_identity[of now x ph s] st by simp_all
  obtain r r' where ev: "dget (sv_runs s) (xe_key x) = Some r" "dget (sv_runs t) (xe_key x) = Some r'" "run_evolves r r'" "shared_inv t"
    using script_evolves[OF h] exec_server[of now x ph s] st by (metis snd_conv)
  have "held x' t" "phase_ok x' t ph'"
    using stay_held[OF h ev] step_ok[OF h ok st] same_execution[OF ids] by simp_all
  moreover have "rank ph' = 0 \<or> rank ph' + Suc n \<le> 16"
  proof (cases "rank ph = 0")
    case True
    then have "ph' = ph" using st by (auto simp: rank_zero phase_final_def exec_step_def)
    then show ?thesis using True by simp
  next
    case False
    then show ?thesis using rank_step[OF rk(1), of now x s] st rk(2) by simp
  qed
  ultimately show ?case using st ids same by auto
next
  case (other n c ph x s t)
  have h: "held x s" and ok: "phase_ok x s ph" using other.IH[OF other.prems] by simp_all
  obtain r where r: "dget (sv_runs s) (xe_key x) = Some r" using h by (auto simp: held_def)
  obtain r' where r': "dget (sv_runs t) (xe_key x) = Some r'" "run_evolves r r'" by (rule keeps_evolves[OF other.hyps(2) r])
  have inv: "shared_inv t" using other.hyps(2) h shared_step_inv by (auto simp: keeps_def held_def)
  show ?case using other.IH[OF other.prems] stay_held[OF h r r' inv] phase_ok_mono[OF ok] stay_settled[OF _ h r r'] by auto
next
  case (interrupt n c ph x s closing)
  then show ?case using interrupted_ok rank_interrupted[of ph closing] by fastforce
qed

definition sample_execution :: execution where
  "sample_execution = \<lparr>xe_key = ''k'', xe_instance = ''a'', xe_fence = 1, xe_kind = Stream, xe_buffer = 9, xe_max_bytes = 1000,
     xe_limit = 4, xe_lease = 30, xe_retention = 1000, xe_time = ''t1'', xe_timeout_text = ''late'', xe_audit = (\<lambda>_. []),
     xe_emitted = False\<rparr>"



end
