(* ===== verification/AuditRelay.thy ===== *)
theory AuditRelay
  imports SharedSafety RepairContracts "HOL-Library.Monad_Syntax"
begin

text \<open>
  The audit relay, \<^verbatim>\<open>src/src/service/kafka_relay.py\<close>, and the event it relays,
  \<^verbatim>\<open>src/src/service/kafka_audit.py\<close>: the decoding of an outbox entry in its three shapes, one relay as
  a machine that waits for the answers of Redis and Kafka, and any number of relays over one outbox and
  one topic. What Redis and Kafka answer is an input of the machine; the JSON reader, the reader of
  moments and the clock are arguments of the decoder. The command line, the options of the
  connections and the names of consumers are not modelled.
\<close>

subsection \<open>Audit events\<close>

text \<open>The metadata is JSON; the moment of an event is its text, as the data model prints it.\<close>

record audit_event =
  ae_id :: string
  ae_type :: string
  ae_time :: string
  ae_source :: string
  ae_outcome :: "string option"
  ae_actor :: "string option"
  ae_tenant :: "string option"
  ae_request :: "string option"
  ae_correlation :: "string option"
  ae_resource_type :: "string option"
  ae_resource :: "string option"
  ae_meta :: "(string \<times> json) list"

definition audit_schema :: string where
  "audit_schema = ''1.0''"

text \<open>The key of the Kafka record, and its deterministic text.\<close>

definition kafka_key :: "audit_event \<Rightarrow> string" where
  "kafka_key e = (case ae_request e of Some r \<Rightarrow> if r \<noteq> [] then r else ae_id e | None \<Rightarrow> ae_id e)"

definition json_opt :: "string option \<Rightarrow> json" where
  "json_opt v = (case v of None \<Rightarrow> JNull | Some s \<Rightarrow> JStr s)"

definition event_text :: "audit_event \<Rightarrow> string" where
  "event_text e = canonical_json (JObj
     [(''schema_version'', JStr audit_schema), (''audit_event_id'', JStr (ae_id e)), (''event_type'', JStr (ae_type e)),
      (''occurred_at'', JStr (ae_time e)), (''source'', JStr (ae_source e)), (''outcome'', json_opt (ae_outcome e)),
      (''actor_id'', json_opt (ae_actor e)), (''tenant_id'', json_opt (ae_tenant e)), (''request_id'', json_opt (ae_request e)),
      (''correlation_id'', json_opt (ae_correlation e)), (''resource_type'', json_opt (ae_resource_type e)),
      (''resource_id'', json_opt (ae_resource e)), (''metadata'', JObj (ae_meta e))])"

text \<open>
  What the decoder takes from outside: the model read from one JSON text, a moment with its time zone,
  the clock, and a JSON object.
\<close>

record decoder =
  de_payload :: "string \<Rightarrow> audit_event option"
  de_time :: "string \<Rightarrow> string option"
  de_now :: string
  de_object :: "string \<Rightarrow> (string \<times> json) list option"

text \<open>A text field is stripped before its length is checked.\<close>

definition required_text :: "(string, string) dict \<Rightarrow> string \<Rightarrow> nat \<Rightarrow> string option" where
  "required_text c k hi =
     (case dget c k of None \<Rightarrow> None
      | Some s \<Rightarrow> if 1 \<le> length (py_strip s) \<and> length (py_strip s) \<le> hi then Some (py_strip s) else None)"

definition optional_text :: "(string, string) dict \<Rightarrow> string \<Rightarrow> nat \<Rightarrow> string option option" where
  "optional_text c k hi =
     (case dget c k of None \<Rightarrow> Some None
      | Some s \<Rightarrow> if length (py_strip s) \<le> hi then Some (Some (py_strip s)) else None)"

definition validate_event :: "decoder \<Rightarrow> (string, string) dict \<Rightarrow> (string \<times> json) list \<Rightarrow> audit_event option" where
  "validate_event de c meta = do {
     _ \<leftarrow> (if dget_or c ''schema_version'' audit_schema = audit_schema then Some () else None);
     i \<leftarrow> required_text c ''audit_event_id'' 200;
     t \<leftarrow> required_text c ''event_type'' 200;
     moment \<leftarrow> (case dget c ''occurred_at'' of None \<Rightarrow> Some (de_now de) | Some s \<Rightarrow> de_time de s);
     src \<leftarrow> required_text c ''source'' 200;
     outcome \<leftarrow> optional_text c ''outcome'' 100;
     actor \<leftarrow> optional_text c ''actor_id'' 200;
     tenant \<leftarrow> optional_text c ''tenant_id'' 200;
     request \<leftarrow> optional_text c ''request_id'' 200;
     correlation \<leftarrow> optional_text c ''correlation_id'' 200;
     kind \<leftarrow> optional_text c ''resource_type'' 200;
     resource \<leftarrow> optional_text c ''resource_id'' 500;
     Some \<lparr>ae_id = i, ae_type = t, ae_time = moment, ae_source = src, ae_outcome = outcome, ae_actor = actor,
       ae_tenant = tenant, ae_request = request, ae_correlation = correlation, ae_resource_type = kind,
       ae_resource = resource, ae_meta = meta\<rparr>
   }"

text \<open>\<^verbatim>\<open>audit_scopes\<close>: the tenant and the project of an owner \<^verbatim>\<open>rt1:tenant:project:principal\<close>.\<close>

definition audit_scopes :: "string option \<Rightarrow> (string \<times> string) option" where
  "audit_scopes owner =
     (case owner of None \<Rightarrow> None
      | Some s \<Rightarrow>
          (case split_on CHR '':'' s of
             [p, tenant, project, user] \<Rightarrow>
               if p = ''rt1'' \<and> list_all (\<lambda>w. length w = 16) [tenant, project, user] then Some (tenant, project) else None
           | _ \<Rightarrow> None))"

definition given_text :: "(string, string) dict \<Rightarrow> string \<Rightarrow> string option" where
  "given_text n k = (case dget n k of Some s \<Rightarrow> if s \<noteq> [] then Some s else None | None \<Rightarrow> None)"

definition entry_if :: "'k \<Rightarrow> 'v option \<Rightarrow> ('k, 'v) dict" where
  "entry_if k v = (case v of None \<Rightarrow> [] | Some x \<Rightarrow> [(k, x)])"

definition metadata_keys :: "string list" where
  "metadata_keys = [''agent_id'', ''thread_id'', ''status'', ''owner_id'', ''fencing_token'', ''error_code'', ''detail_digest'']"

text \<open>The envelope the scripts of the registry write field by field; a missing timestamp is an error.\<close>

definition decode_envelope :: "decoder \<Rightarrow> (string, string) dict \<Rightarrow> string \<Rightarrow> audit_event option" where
  "decode_envelope de n ident =
     (let scopes = audit_scopes (dget n ''identity_scope'');
          meta = concat (map (\<lambda>k. entry_if k (map_option JStr (given_text n k))) metadata_keys) @
                 entry_if ''project_scope'' (map_option (JStr \<circ> snd) scopes);
          c = [(''audit_event_id'', ident), (''event_type'', dget_or n ''event_type'' ''RunEvent''),
               (''source'', dget_or n ''source'' ''service.run_registry''), (''resource_type'', ''agent_run'')] @
              entry_if ''outcome'' (given_text n ''status'') @ entry_if ''tenant_id'' (map_option fst scopes) @
              entry_if ''request_id'' (given_text n ''request_id'') @ entry_if ''resource_id'' (given_text n ''request_id'')
      in case dget n ''timestamp'' of None \<Rightarrow> None
         | Some moment \<Rightarrow> validate_event de ((''occurred_at'', moment) # c) meta)"

definition decode_fields :: "decoder \<Rightarrow> (string, string) dict \<Rightarrow> audit_event option" where
  "decode_fields de n =
     (case dget n ''metadata'' of
        None \<Rightarrow> validate_event de n []
      | Some m \<Rightarrow> (case de_object de m of None \<Rightarrow> None | Some meta \<Rightarrow> validate_event de n meta))"

text \<open>
  The fields of an entry, or bytes that are no UTF-8: those fail before the \<^verbatim>\<open>try\<close> of the decoder, so
  that the fault is not the decoder's own.
\<close>

datatype outbox_fields = NotUtf8 | Fields "(string, string) dict"

datatype decode_fault = UnicodeFault | InvalidEvent

definition decode_outbox_event :: "decoder \<Rightarrow> string \<Rightarrow> outbox_fields \<Rightarrow> (decode_fault, audit_event) result" where
  "decode_outbox_event de payload_field raw =
     (case raw of
        NotUtf8 \<Rightarrow> Inl UnicodeFault
      | Fields n \<Rightarrow>
          (case (case dget n payload_field of
                   Some p \<Rightarrow> de_payload de p
                 | None \<Rightarrow> (case dget n ''event_id'' of Some i \<Rightarrow> decode_envelope de n i | None \<Rightarrow> decode_fields de n)) of
             None \<Rightarrow> Inl InvalidEvent
           | Some e \<Rightarrow> Inr e))"

subsection \<open>The relay\<close>

record relay_config =
  rc_batch :: int
  rc_block :: int
  rc_idle :: int
  rc_interval :: rat
  rc_payload :: string

datatype relay_fault = EmptyName | BadBatch | BadBlock | BadIdle | BadInterval | WeakAcks | NotIdempotent

text \<open>The constructor: names, bounds, and the two options of the producer that must not be weakened.\<close>

definition check_relay ::
  "string list \<Rightarrow> relay_config \<Rightarrow> string option \<Rightarrow> bool option \<Rightarrow> (relay_fault, unit) result" where
  "check_relay names cfg acks idempotent =
     demand (list_all (\<lambda>s. s \<noteq> []) names) EmptyName
    (demand (1 \<le> rc_batch cfg \<and> rc_batch cfg \<le> 1000) BadBatch
    (demand (100 \<le> rc_block cfg \<and> rc_block cfg \<le> 5000) BadBlock
    (demand (1000 \<le> rc_idle cfg) BadIdle
    (demand (0 < rc_interval cfg) BadInterval
    (demand (acks \<in> {None, Some ''all''}) WeakAcks
    (demand (idempotent \<in> {None, Some True}) NotIdempotent (Inr ())))))))"

type_synonym outbox_entry = "string \<times> outbox_fields"

text \<open>
  The calls a relay waits for: the reclaimed entries, the new ones after so many were published in this
  turn, the send of an entry, and its acknowledgement. A batch is worked on for the reclaim or for the
  read, with the number published from it, the entry in hand and the entries after it.
\<close>

datatype batch_source = Reclaimed | Fresh int

datatype relay_phase =
    Resting
  | AwaitClaim
  | AwaitRead int
  | AwaitSend batch_source int outbox_entry audit_event "outbox_entry list"
  | AwaitAck batch_source int outbox_entry audit_event "outbox_entry list"

datatype turn_result = NoTurn | Processed int | Raised

record relay =
  rl_producer :: bool
  rl_shutdown :: bool
  rl_cursor :: string
  rl_next_claim :: rat
  rl_delay :: rat
  rl_phase :: relay_phase
  rl_result :: turn_result

definition new_relay :: relay where
  "new_relay = \<lparr>rl_producer = False, rl_shutdown = False, rl_cursor = ''0-0'', rl_next_claim = 0, rl_delay = 1 / 4,
     rl_phase = Resting, rl_result = NoTurn\<rparr>"

text \<open>A turn that raised is retried after a delay that doubles up to ten seconds; one that returned resets it.\<close>

definition turn_raised :: "relay \<Rightarrow> relay" where
  "turn_raised rl = rl\<lparr>rl_phase := Resting, rl_result := Raised, rl_delay := min (rl_delay rl * 2) 10\<rparr>"

definition turn_returned :: "int \<Rightarrow> relay \<Rightarrow> relay" where
  "turn_returned n rl = rl\<lparr>rl_phase := Resting, rl_result := Processed n, rl_delay := 1 / 4\<rparr>"

text \<open>After the reclaim, or without it: what is left of the batch is read.\<close>

definition read_rest :: "relay_config \<Rightarrow> int \<Rightarrow> relay \<Rightarrow> relay" where
  "read_rest cfg processed rl =
     (if rc_batch cfg - processed \<le> 0 \<or> rl_shutdown rl then turn_returned processed rl
      else rl\<lparr>rl_phase := AwaitRead processed\<rparr>)"

definition batch_done :: "relay_config \<Rightarrow> rat \<Rightarrow> batch_source \<Rightarrow> int \<Rightarrow> relay \<Rightarrow> relay" where
  "batch_done cfg now src published rl =
     (case src of
        Reclaimed \<Rightarrow> read_rest cfg published (rl\<lparr>rl_next_claim := now + rc_interval cfg\<rparr>)
      | Fresh processed \<Rightarrow> turn_returned (processed + published) rl)"

text \<open>\<^verbatim>\<open>_publish_entries\<close> up to its next send: malformed entries are passed over without acknowledgement.\<close>

fun publish_entries ::
  "relay_config \<Rightarrow> decoder \<Rightarrow> rat \<Rightarrow> batch_source \<Rightarrow> int \<Rightarrow> outbox_entry list \<Rightarrow> relay \<Rightarrow> relay" where
  "publish_entries cfg de now src published [] rl = batch_done cfg now src published rl"
| "publish_entries cfg de now src published (e # es) rl =
     (if rl_shutdown rl then batch_done cfg now src published rl
      else (case decode_outbox_event de (rc_payload cfg) (snd e) of
          Inl InvalidEvent \<Rightarrow> publish_entries cfg de now src published es rl
        | Inl UnicodeFault \<Rightarrow> turn_raised rl
        | Inr ev \<Rightarrow>
            if rl_producer rl then rl\<lparr>rl_phase := AwaitSend src published e ev es\<rparr> else turn_raised rl))"

definition run_once :: "relay_config \<Rightarrow> rat \<Rightarrow> relay \<Rightarrow> relay" where
  "run_once cfg now rl =
     (if \<not> rl_producer rl then turn_raised rl
      else if rl_next_claim rl \<le> now then rl\<lparr>rl_phase := AwaitClaim\<rparr>
      else read_rest cfg 0 rl)"

text \<open>Starting creates the consumer group, unless it exists, and connects the producer.\<close>

definition group_usable :: "string option \<Rightarrow> bool" where
  "group_usable err = (case err of None \<Rightarrow> True | Some s \<Rightarrow> contains_sub (py_upper s) ''BUSYGROUP'')"

definition start_relay :: "string option \<Rightarrow> bool \<Rightarrow> relay \<Rightarrow> relay" where
  "start_relay group_error online rl =
     (if rl_producer rl \<or> \<not> group_usable group_error \<or> \<not> online then rl else rl\<lparr>rl_producer := True\<rparr>)"

text \<open>
  What happens to a relay: it is started, begins a turn (its loop does until shutdown is requested),
  hears the answer it waits for with the time of its arrival, loses the call to an exception, or is asked
  to end. The reclaim answers with the next cursor and entries, or with nothing.
\<close>

datatype relay_input =
    Started "string option" bool
  | TurnBegins rat
  | ClaimAnswer rat "(string \<times> outbox_entry list) option"
  | ReadAnswer rat "outbox_entry list"
  | Sent
  | Acknowledged rat int
  | CallFailed
  | ShutdownRequested
  | Stopped

definition relay_hears :: "relay_config \<Rightarrow> decoder \<Rightarrow> relay_input \<Rightarrow> relay \<Rightarrow> relay" where
  "relay_hears cfg de inp rl =
     (case inp of
        Started group_error online \<Rightarrow> start_relay group_error online rl
      | ShutdownRequested \<Rightarrow> rl\<lparr>rl_shutdown := True\<rparr>
      | Stopped \<Rightarrow> rl\<lparr>rl_shutdown := True, rl_producer := False\<rparr>
      | TurnBegins now \<Rightarrow> if rl_phase rl = Resting \<and> \<not> rl_shutdown rl then run_once cfg now rl else rl
      | CallFailed \<Rightarrow> if rl_phase rl = Resting then rl else turn_raised rl
      | ClaimAnswer now answer \<Rightarrow>
          (case rl_phase rl of
             AwaitClaim \<Rightarrow>
               (case answer of
                  None \<Rightarrow> publish_entries cfg de now Reclaimed 0 [] (rl\<lparr>rl_cursor := ''0-0''\<rparr>)
                | Some (cursor, es) \<Rightarrow>
                    publish_entries cfg de now Reclaimed 0 (take (nat (rc_batch cfg)) es) (rl\<lparr>rl_cursor := cursor\<rparr>))
           | _ \<Rightarrow> rl)
      | ReadAnswer now es \<Rightarrow>
          (case rl_phase rl of
             AwaitRead processed \<Rightarrow>
               publish_entries cfg de now (Fresh processed) 0 (take (nat (rc_batch cfg - processed)) es) rl
           | _ \<Rightarrow> rl)
      | Sent \<Rightarrow>
          (case rl_phase rl of AwaitSend src n e ev es \<Rightarrow> rl\<lparr>rl_phase := AwaitAck src n e ev es\<rparr> | _ \<Rightarrow> rl)
      | Acknowledged now k \<Rightarrow>
          (case rl_phase rl of
             AwaitAck src n e ev es \<Rightarrow>
               if k = 1 then publish_entries cfg de now src (n + 1) es rl else turn_raised rl
           | _ \<Rightarrow> rl))"

subsection \<open>Relays, the outbox and the topic\<close>

text \<open>
  Any number of relays by name, the entries ever added to the outbox, those still in it, and the topic:
  identifiers of entries and their events. Redis answers a read or a reclaim with entries of the
  outbox, and acknowledges with one exactly when it deletes the entry; a call may have its effect
  although its answer is lost, and a relay may crash at any time.
\<close>

record relay_world =
  w_added :: "outbox_entry list"
  w_outbox :: "outbox_entry list"
  w_topic :: "(string \<times> audit_event) list"
  w_relays :: "string \<Rightarrow> relay"

definition offered :: "relay_world \<Rightarrow> relay_input \<Rightarrow> bool" where
  "offered w inp =
     (case inp of
        ClaimAnswer now (Some (cursor, es)) \<Rightarrow> set es \<subseteq> set (w_outbox w)
      | ReadAnswer now es \<Rightarrow> set es \<subseteq> set (w_outbox w)
      | Sent \<Rightarrow> False
      | Acknowledged now k \<Rightarrow> k \<noteq> 1
      | _ \<Rightarrow> True)"

definition with_relay :: "string \<Rightarrow> relay \<Rightarrow> relay_world \<Rightarrow> relay_world" where
  "with_relay c rl w = w\<lparr>w_relays := (w_relays w)(c := rl)\<rparr>"

definition published :: "outbox_entry \<Rightarrow> audit_event \<Rightarrow> relay_world \<Rightarrow> relay_world" where
  "published e ev w = w\<lparr>w_topic := w_topic w @ [(fst e, ev)]\<rparr>"

definition removed :: "outbox_entry \<Rightarrow> relay_world \<Rightarrow> relay_world" where
  "removed e w = w\<lparr>w_outbox := filter (\<lambda>x. fst x \<noteq> fst e) (w_outbox w)\<rparr>"

inductive relay_step :: "relay_config \<Rightarrow> decoder \<Rightarrow> relay_world \<Rightarrow> relay_world \<Rightarrow> bool" for cfg de where
  added: "fst e \<notin> fst ` set (w_added w) \<Longrightarrow>
    relay_step cfg de w (w\<lparr>w_added := w_added w @ [e], w_outbox := w_outbox w @ [e]\<rparr>)"
| heard: "offered w inp \<Longrightarrow> relay_step cfg de w (with_relay c (relay_hears cfg de inp (w_relays w c)) w)"
| sent: "rl_phase (w_relays w c) = AwaitSend src n e ev es \<Longrightarrow> inp = Sent \<or> inp = CallFailed \<Longrightarrow>
    relay_step cfg de w (published e ev (with_relay c (relay_hears cfg de inp (w_relays w c)) w))"
| acked: "rl_phase (w_relays w c) = AwaitAck src n e ev es \<Longrightarrow> inp = Acknowledged now 1 \<or> inp = CallFailed \<Longrightarrow>
    relay_step cfg de w (removed e (with_relay c (relay_hears cfg de inp (w_relays w c)) w))"
| crashed: "relay_step cfg de w (with_relay c new_relay w)"

definition empty_outbox :: relay_world where
  "empty_outbox = \<lparr>w_added = [], w_outbox = [], w_topic = [], w_relays = (\<lambda>_. new_relay)\<rparr>"

subsection \<open>Nothing is lost\<close>

definition in_hand :: "relay_phase \<Rightarrow> outbox_entry list" where
  "in_hand p = (case p of AwaitSend src n e ev es \<Rightarrow> e # es | AwaitAck src n e ev es \<Rightarrow> e # es | _ \<Rightarrow> [])"

text \<open>What a relay holds was added, and what it acknowledges is in the topic.\<close>

definition relay_ok :: "relay_config \<Rightarrow> decoder \<Rightarrow> relay_world \<Rightarrow> relay \<Rightarrow> bool" where
  "relay_ok cfg de w rl =
     (set (in_hand (rl_phase rl)) \<subseteq> set (w_added w) \<and>
      (case rl_phase rl of
         AwaitSend src n e ev es \<Rightarrow> decode_outbox_event de (rc_payload cfg) (snd e) = Inr ev
       | AwaitAck src n e ev es \<Rightarrow>
           decode_outbox_event de (rc_payload cfg) (snd e) = Inr ev \<and> (fst e, ev) \<in> set (w_topic w)
       | _ \<Rightarrow> True))"

definition delivered :: "relay_config \<Rightarrow> decoder \<Rightarrow> relay_world \<Rightarrow> outbox_entry \<Rightarrow> bool" where
  "delivered cfg de w e =
     (\<exists>ev. decode_outbox_event de (rc_payload cfg) (snd e) = Inr ev \<and> (fst e, ev) \<in> set (w_topic w))"

definition outbox_inv :: "relay_config \<Rightarrow> decoder \<Rightarrow> relay_world \<Rightarrow> bool" where
  "outbox_inv cfg de w =
     (distinct (map fst (w_added w)) \<and> set (w_outbox w) \<subseteq> set (w_added w) \<and>
      (\<forall>e\<in>set (w_added w). e \<in> set (w_outbox w) \<or> delivered cfg de w e) \<and>
      (\<forall>(i, ev)\<in>set (w_topic w). \<exists>e\<in>set (w_added w). fst e = i \<and> decode_outbox_event de (rc_payload cfg) (snd e) = Inr ev) \<and>
      (\<forall>c. relay_ok cfg de w (w_relays w c)))"

lemma idle_ok [simp]: "in_hand (rl_phase rl) = [] \<Longrightarrow> relay_ok cfg de w rl"
  by (auto simp: relay_ok_def in_hand_def split: relay_phase.splits)

lemma in_hand_simps [simp]:
  "in_hand Resting = []" "in_hand AwaitClaim = []" "in_hand (AwaitRead p) = []"
  "in_hand (AwaitSend src n e ev es) = e # es" "in_hand (AwaitAck src n e ev es) = e # es"
  by (simp_all add: in_hand_def)

lemma turn_phase [simp]:
  "rl_phase (turn_raised rl) = Resting" "rl_phase (turn_returned n rl) = Resting"
  "in_hand (rl_phase (batch_done cfg now src n rl)) = []" "in_hand (rl_phase (read_rest cfg n rl)) = []"
  by (auto simp: turn_raised_def turn_returned_def batch_done_def read_rest_def split: batch_source.splits)

lemma relay_ok_send:
  "relay_ok cfg de w (rl\<lparr>rl_phase := AwaitSend src n e ev es\<rparr>) \<longleftrightarrow>
     set (e # es) \<subseteq> set (w_added w) \<and> decode_outbox_event de (rc_payload cfg) (snd e) = Inr ev"
  by (simp add: relay_ok_def)

lemma publish_entries_ok:
  "set es \<subseteq> set (w_added w) \<Longrightarrow> relay_ok cfg de w (publish_entries cfg de now src n es rl)"
proof (induction es)
  case (Cons e es)
  then show ?case by (simp add: relay_ok_send split: sum.split decode_fault.split)
qed simp

lemma run_once_ok [simp]: "relay_ok cfg de w (run_once cfg now rl)"
  by (simp add: run_once_def)

text \<open>A message that is no answer to a send keeps what a relay may hold.\<close>

lemma relay_hears_ok:
  assumes ok: "relay_ok cfg de w rl" and off: "offered w inp" and sub: "set (w_outbox w) \<subseteq> set (w_added w)"
  shows "relay_ok cfg de w (relay_hears cfg de inp rl)"
proof (cases inp)
  case (TurnBegins now)
  then show ?thesis using ok by (simp add: relay_hears_def)
next
  case (ClaimAnswer now answer)
  have "set (take k es) \<subseteq> set (w_added w)" if "answer = Some (cur, es)" for cur es k
    using off that ClaimAnswer sub set_take_subset[of k es] by (auto simp: offered_def)
  then show ?thesis using ok ClaimAnswer publish_entries_ok[of _ w] publish_entries_ok[of "[]" w]
    by (auto simp: relay_hears_def split: relay_phase.split option.split)
next
  case (ReadAnswer now es)
  have "set (take k es) \<subseteq> set (w_added w)" for k using off ReadAnswer sub set_take_subset[of k es] by (auto simp: offered_def)
  then show ?thesis using ok ReadAnswer publish_entries_ok[of _ w]
    by (auto simp: relay_hears_def split: relay_phase.split)
qed (use ok off in \<open>auto simp: relay_hears_def offered_def start_relay_def relay_ok_def split: relay_phase.split\<close>)

lemma relay_ok_mono:
  "relay_ok cfg de w rl \<Longrightarrow> set (w_added w) \<subseteq> set (w_added v) \<Longrightarrow> set (w_topic w) \<subseteq> set (w_topic v) \<Longrightarrow> relay_ok cfg de v rl"
  by (auto simp: relay_ok_def split: relay_phase.splits)

lemma delivered_mono: "delivered cfg de w e \<Longrightarrow> set (w_topic w) \<subseteq> set (w_topic v) \<Longrightarrow> delivered cfg de v e"
  by (auto simp: delivered_def)

lemma world_simps [simp]:
  "w_added (with_relay c rl w) = w_added w" "w_outbox (with_relay c rl w) = w_outbox w" "w_topic (with_relay c rl w) = w_topic w"
  "w_relays (with_relay c rl w) = (w_relays w)(c := rl)"
  "w_added (published e ev w) = w_added w" "w_outbox (published e ev w) = w_outbox w"
  "w_topic (published e ev w) = w_topic w @ [(fst e, ev)]" "w_relays (published e ev w) = w_relays w"
  "w_added (removed e w) = w_added w" "w_outbox (removed e w) = filter (\<lambda>x. fst x \<noteq> fst e) (w_outbox w)"
  "w_topic (removed e w) = w_topic w" "w_relays (removed e w) = w_relays w"
  by (simp_all add: with_relay_def published_def removed_def)

text \<open>A change that adds entries and records, and keeps what is undelivered, keeps the invariant.\<close>

lemma outbox_inv_step:
  assumes inv: "outbox_inv cfg de w" and dist: "distinct (map fst (w_added v))"
    and sub: "set (w_added w) \<subseteq> set (w_added v)" "set (w_topic w) \<subseteq> set (w_topic v)" "set (w_outbox v) \<subseteq> set (w_added v)"
    and kept: "\<And>e. e \<in> set (w_added v) \<Longrightarrow> e \<in> set (w_outbox w) \<or> e \<notin> set (w_added w) \<Longrightarrow> e \<in> set (w_outbox v) \<or> delivered cfg de v e"
    and new: "\<And>i ev. (i, ev) \<in> set (w_topic v) - set (w_topic w) \<Longrightarrow>
      \<exists>e\<in>set (w_added v). fst e = i \<and> decode_outbox_event de (rc_payload cfg) (snd e) = Inr ev"
    and relays: "\<And>c. w_relays v c = w_relays w c \<or> relay_ok cfg de v (w_relays v c)"
  shows "outbox_inv cfg de v"
proof -
  have all: "\<forall>e\<in>set (w_added v). e \<in> set (w_outbox v) \<or> delivered cfg de v e"
  proof
    fix e assume e: "e \<in> set (w_added v)"
    show "e \<in> set (w_outbox v) \<or> delivered cfg de v e"
    proof (cases "e \<in> set (w_added w) \<and> e \<notin> set (w_outbox w)")
      case True
      then have "delivered cfg de w e" using inv by (auto simp: outbox_inv_def)
      then show ?thesis using sub(2) delivered_mono by blast
    qed (use kept[OF e] in blast)
  qed
  have topic: "\<exists>e\<in>set (w_added v). fst e = i \<and> decode_outbox_event de (rc_payload cfg) (snd e) = Inr ev"
    if "(i, ev) \<in> set (w_topic v)" for i ev
  proof (cases "(i, ev) \<in> set (w_topic w)")
    case True
    then show ?thesis using inv sub(1) unfolding outbox_inv_def by fastforce
  qed (use new that in blast)
  have "relay_ok cfg de v (w_relays v c)" for c
    using relays[of c] inv relay_ok_mono[OF _ sub(1,2)] by (auto simp: outbox_inv_def)
  then show ?thesis using all topic dist sub(3) unfolding outbox_inv_def by blast
qed

inductive_cases relay_stepE: "relay_step cfg de w v"

lemma relay_step_inv:
  assumes inv: "outbox_inv cfg de w" and step: "relay_step cfg de w v"
  shows "outbox_inv cfg de v"
  using step
proof (rule relay_stepE)
  fix e assume "v = w\<lparr>w_added := w_added w @ [e], w_outbox := w_outbox w @ [e]\<rparr>" "fst e \<notin> fst ` set (w_added w)"
  then show ?thesis by (intro outbox_inv_step[OF inv]) (use inv in \<open>auto simp: outbox_inv_def\<close>)
next
  fix inp c assume v: "v = with_relay c (relay_hears cfg de inp (w_relays w c)) w" and off: "offered w inp"
  have "relay_ok cfg de w (relay_hears cfg de inp (w_relays w c))"
    using inv off by (intro relay_hears_ok) (auto simp: outbox_inv_def)
  then have "relay_ok cfg de v (w_relays v c)" using v by (auto intro: relay_ok_mono)
  then show ?thesis by (intro outbox_inv_step[OF inv]) (use inv v in \<open>auto simp: outbox_inv_def\<close>)
next
  fix c src n e ev es inp
  assume v: "v = published e ev (with_relay c (relay_hears cfg de inp (w_relays w c)) w)"
    and phase: "rl_phase (w_relays w c) = AwaitSend src n e ev es" and inp: "inp = Sent \<or> inp = CallFailed"
  have ok: "relay_ok cfg de w (w_relays w c)" using inv by (simp add: outbox_inv_def)
  have "relay_ok cfg de v (w_relays v c)"
    using ok phase inp v by (auto simp: relay_ok_def relay_hears_def)
  moreover have "e \<in> set (w_added w)" "decode_outbox_event de (rc_payload cfg) (snd e) = Inr ev"
    using ok phase by (auto simp: relay_ok_def)
  ultimately show ?thesis by (intro outbox_inv_step[OF inv]) (use inv v in \<open>auto simp: outbox_inv_def\<close>)
next
  fix c src n e ev es inp now
  assume v: "v = removed e (with_relay c (relay_hears cfg de inp (w_relays w c)) w)"
    and phase: "rl_phase (w_relays w c) = AwaitAck src n e ev es" and inp: "inp = Acknowledged now 1 \<or> inp = CallFailed"
  have ok: "relay_ok cfg de w (w_relays w c)" using inv by (simp add: outbox_inv_def)
  have e: "e \<in> set (w_added w)" and es: "set es \<subseteq> set (w_added w)" and del: "delivered cfg de w e"
    using ok phase by (auto simp: relay_ok_def delivered_def)
  have "relay_ok cfg de w (publish_entries cfg de now src (n + 1) es (w_relays w c))" using es by (rule publish_entries_ok)
  then have "relay_ok cfg de v (w_relays v c)"
    using phase inp v by (auto simp: relay_hears_def intro: relay_ok_mono)
  moreover have "x = e" if "x \<in> set (w_added w)" "fst x = fst e" for x
    using inv e that by (auto simp: outbox_inv_def distinct_map dest: inj_onD)
  ultimately show ?thesis
    by (intro outbox_inv_step[OF inv]) (use inv v del in \<open>auto simp: outbox_inv_def delivered_def\<close>)
next
  fix c assume v: "v = with_relay c new_relay w"
  then have "relay_ok cfg de v (w_relays v c)" by (simp add: new_relay_def)
  then show ?thesis by (intro outbox_inv_step[OF inv]) (use inv v in \<open>auto simp: outbox_inv_def\<close>)
qed

lemma empty_outbox_inv: "outbox_inv cfg de empty_outbox"
  by (simp add: outbox_inv_def empty_outbox_def new_relay_def)

interpretation outboxes: safe_system "\<lambda>w. w = empty_outbox" "relay_step cfg de" "outbox_inv cfg de"
  for cfg de
  by unfold_locales (auto intro: relay_step_inv empty_outbox_inv)

text \<open>
  C7: Whatever the relays do, wherever they crash and whichever answers are lost, no audit event
  is: every entry ever added to the outbox is still in it or its decoded event is in the topic. Entries
  that do not decode are never removed, and the topic holds nothing but events of added entries.
\<close>

theorem relay_loses_nothing:
  assumes "reach (\<lambda>w. w = empty_outbox) (relay_step cfg de) w"
  shows "(\<forall>e\<in>set (w_added w). e \<in> set (w_outbox w) \<or>
        (\<exists>ev. decode_outbox_event de (rc_payload cfg) (snd e) = Inr ev \<and> (fst e, ev) \<in> set (w_topic w))) \<and>
    (\<forall>e\<in>set (w_added w). isl (decode_outbox_event de (rc_payload cfg) (snd e)) \<longrightarrow> e \<in> set (w_outbox w)) \<and>
    (\<forall>(i, ev)\<in>set (w_topic w). \<exists>e\<in>set (w_added w). fst e = i \<and> decode_outbox_event de (rc_payload cfg) (snd e) = Inr ev)"
proof -
  have inv: "outbox_inv cfg de w" using assms by (rule outboxes.reach_inv)
  then have "e \<in> set (w_outbox w) \<or>
      (\<exists>ev. decode_outbox_event de (rc_payload cfg) (snd e) = Inr ev \<and> (fst e, ev) \<in> set (w_topic w))" if "e \<in> set (w_added w)" for e
    using that by (auto simp: outbox_inv_def delivered_def)
  moreover have "\<forall>(i, ev)\<in>set (w_topic w). \<exists>e\<in>set (w_added w). fst e = i \<and> decode_outbox_event de (rc_payload cfg) (snd e) = Inr ev"
    using inv by (simp add: outbox_inv_def)
  ultimately show ?thesis by fastforce
qed

definition sample_config :: relay_config where
  "sample_config = \<lparr>rc_batch = 2, rc_block = 1000, rc_idle = 60000, rc_interval = 30, rc_payload = ''payload''\<rparr>"

definition sample_decoder :: decoder where
  "sample_decoder = \<lparr>de_payload = (\<lambda>_. None), de_time = Some, de_now = ''now'', de_object = (\<lambda>_. None)\<rparr>"

definition row_about :: "string \<Rightarrow> outbox_entry" where
  "row_about i = (i, Fields [(''event_id'', i), (''event_type'', ''RunStarted''), (''request_id'', ''r''), (''timestamp'', ''t'')])"

lemma relay_loses_nothing_witness:
  "\<exists>w. reach (\<lambda>w. w = empty_outbox) (relay_step sample_config sample_decoder) w \<and>
     w_added w = [row_about ''1-0''] \<and> w_outbox w = [] \<and> (\<exists>ev. (''1-0'', ev) \<in> set (w_topic w))"
proof -
  let ?step = "relay_step sample_config sample_decoder" and ?hears = "relay_hears sample_config sample_decoder"
  let ?e = "row_about ''1-0''"
  obtain ev where ev: "decode_outbox_event sample_decoder (rc_payload sample_config) (snd ?e) = Inr ev"
  proof -
    have "\<not> isl (decode_outbox_event sample_decoder (rc_payload sample_config) (snd ?e))" by code_simp
    then show ?thesis using that by (metis sum.collapse(2))
  qed
  define r1 where "r1 = ?hears (Started None True) new_relay"
  define r2 where "r2 = ?hears (TurnBegins 0) r1"
  define r3 where "r3 = ?hears (ClaimAnswer 0 (Some (''0-0'', [?e]))) r2"
  define r4 where "r4 = ?hears Sent r3"
  define r5 where "r5 = ?hears (Acknowledged 0 1) r4"
  define w1 where "w1 = empty_outbox\<lparr>w_added := [?e], w_outbox := [?e]\<rparr>"
  define w2 where "w2 = with_relay ''c'' r1 w1"
  define w3 where "w3 = with_relay ''c'' r2 w2"
  define w4 where "w4 = with_relay ''c'' r3 w3"
  define w5 where "w5 = published ?e ev (with_relay ''c'' r4 w4)"
  define w6 where "w6 = removed ?e (with_relay ''c'' r5 w5)"
  have p2: "rl_phase r2 = AwaitClaim" by (simp add: r2_def r1_def relay_hears_def start_relay_def group_usable_def new_relay_def run_once_def)
  have p3: "rl_phase r3 = AwaitSend Reclaimed 0 ?e ev []"
    using p2 ev by (simp add: r3_def r2_def r1_def relay_hears_def start_relay_def group_usable_def new_relay_def run_once_def
        sample_config_def)
  have p4: "rl_phase r4 = AwaitAck Reclaimed 0 ?e ev []" using p3 by (simp add: r4_def relay_hears_def)
  have start: "reach (\<lambda>w. w = empty_outbox) ?step empty_outbox" by (simp add: reach.initial)
  have s1: "?step empty_outbox w1" using relay_step.added[of ?e empty_outbox] by (simp add: w1_def empty_outbox_def)
  have s2: "?step w1 w2"
    using relay_step.heard[of w1 "Started None True" _ _ "''c''"] by (simp add: w2_def r1_def w1_def empty_outbox_def offered_def)
  have s3: "?step w2 w3"
    using relay_step.heard[of w2 "TurnBegins 0" _ _ "''c''"] by (simp add: w3_def r2_def w2_def offered_def)
  have s4: "?step w3 w4"
    using relay_step.heard[of w3 "ClaimAnswer 0 (Some (''0-0'', [?e]))" _ _ "''c''"]
    by (simp add: w4_def r3_def w3_def w2_def w1_def offered_def)
  have s5: "?step w4 w5"
    using relay_step.sent[of w4 "''c''" Reclaimed 0 ?e ev "[]" Sent] p3 by (simp add: w5_def r4_def w4_def)
  have s6: "?step w5 w6"
    using relay_step.acked[of w5 "''c''" Reclaimed 0 ?e ev "[]" "Acknowledged 0 1"] p4 by (simp add: w6_def r5_def w5_def)
  have r: "reach (\<lambda>w. w = empty_outbox) ?step w6"
    by (rule reach.advance[OF reach.advance[OF reach.advance[OF reach.advance[OF reach.advance[OF reach.advance[OF start s1] s2] s3] s4] s5] s6])
  have w6: "w_added w6 = [?e]" "w_outbox w6 = []" by (simp_all add: w6_def w5_def w4_def w3_def w2_def w1_def)
  have "\<exists>ev. (fst ?e, ev) \<in> set (w_topic w6)" using relay_loses_nothing[OF r] w6 by auto
  then show ?thesis using r w6 by (auto simp: row_about_def)
qed

subsection \<open>A turn is bounded\<close>

text \<open>The answers a call can get.\<close>

definition answers :: "relay_phase \<Rightarrow> relay_input \<Rightarrow> bool" where
  "answers p inp =
     (case (p, inp) of
        (AwaitClaim, ClaimAnswer now answer) \<Rightarrow> True
      | (AwaitRead n, ReadAnswer now es) \<Rightarrow> True
      | (AwaitSend src n e ev es, Sent) \<Rightarrow> True
      | (AwaitAck src n e ev es, Acknowledged now k) \<Rightarrow> True
      | (p', CallFailed) \<Rightarrow> p' \<noteq> Resting
      | _ \<Rightarrow> False)"

fun answered :: "relay_config \<Rightarrow> decoder \<Rightarrow> relay \<Rightarrow> relay_input list \<Rightarrow> bool" where
  "answered cfg de rl [] = True"
| "answered cfg de rl (inp # inps) = (answers (rl_phase rl) inp \<and> answered cfg de (relay_hears cfg de inp rl) inps)"

definition after_inputs :: "relay_config \<Rightarrow> decoder \<Rightarrow> relay \<Rightarrow> relay_input list \<Rightarrow> relay" where
  "after_inputs cfg de rl inps = foldl (\<lambda>r inp. relay_hears cfg de inp r) rl inps"

definition source_work :: "relay_config \<Rightarrow> batch_source \<Rightarrow> nat" where
  "source_work cfg src = (case src of Reclaimed \<Rightarrow> 2 * nat (rc_batch cfg) + 1 | Fresh p \<Rightarrow> 0)"

definition phase_work :: "relay_config \<Rightarrow> relay_phase \<Rightarrow> nat" where
  "phase_work cfg p =
     (case p of
        Resting \<Rightarrow> 0
      | AwaitClaim \<Rightarrow> 4 * nat (rc_batch cfg) + 2
      | AwaitRead n \<Rightarrow> 2 * nat (rc_batch cfg - n) + 1
      | AwaitSend src n e ev es \<Rightarrow> 2 * length es + 2 + source_work cfg src
      | AwaitAck src n e ev es \<Rightarrow> 2 * length es + 1 + source_work cfg src)"

text \<open>How many entries a phase may still count towards its batch.\<close>

definition counted :: "batch_source \<Rightarrow> int \<Rightarrow> int" where
  "counted src n = (case src of Reclaimed \<Rightarrow> n | Fresh p \<Rightarrow> p + n)"

definition within_batch :: "relay_config \<Rightarrow> relay \<Rightarrow> bool" where
  "within_batch cfg rl =
     (case rl_phase rl of
        Resting \<Rightarrow> (case rl_result rl of Processed n \<Rightarrow> 0 \<le> n \<and> n \<le> rc_batch cfg | _ \<Rightarrow> True)
      | AwaitClaim \<Rightarrow> 0 \<le> rc_batch cfg
      | AwaitRead n \<Rightarrow> 0 \<le> n \<and> n \<le> rc_batch cfg
      | AwaitSend src n e ev es \<Rightarrow> 0 \<le> n \<and> 0 \<le> counted src n \<and> counted src n + 1 + int (length es) \<le> rc_batch cfg
      | AwaitAck src n e ev es \<Rightarrow> 0 \<le> n \<and> 0 \<le> counted src n \<and> counted src n + 1 + int (length es) \<le> rc_batch cfg)"

lemma counted_bounds:
  "0 \<le> n \<Longrightarrow> 0 \<le> counted src n \<Longrightarrow> 0 \<le> counted src (n + 1) \<and> counted src (n + 1) = counted src n + 1"
  by (auto simp: counted_def split: batch_source.splits)

lemma publish_entries_bounds:
  "0 \<le> n \<Longrightarrow> 0 \<le> counted src n \<Longrightarrow> counted src n + int (length es) \<le> rc_batch cfg \<Longrightarrow>
     phase_work cfg (rl_phase (publish_entries cfg de now src n es rl)) \<le> 2 * length es + source_work cfg src \<and>
     within_batch cfg (publish_entries cfg de now src n es rl)"
proof (induction es)
  case Nil
  then show ?case
    by (auto simp: batch_done_def read_rest_def turn_returned_def phase_work_def source_work_def within_batch_def counted_def
        split: batch_source.splits)
next
  case (Cons e es)
  have ended: "phase_work cfg (rl_phase (batch_done cfg now src n rl)) \<le> source_work cfg src \<and> within_batch cfg (batch_done cfg now src n rl)"
    using Cons.prems
    by (auto simp: batch_done_def read_rest_def turn_returned_def phase_work_def source_work_def within_batch_def counted_def
        split: batch_source.splits)
  have "counted src n + int (length es) \<le> rc_batch cfg" using Cons.prems by simp
  then have ih: "phase_work cfg (rl_phase (publish_entries cfg de now src n es rl)) \<le> 2 * length es + source_work cfg src \<and>
     within_batch cfg (publish_entries cfg de now src n es rl)" using Cons by blast
  have raised: "phase_work cfg (rl_phase (turn_raised rl)) = 0" "within_batch cfg (turn_raised rl)"
    by (simp_all add: turn_raised_def phase_work_def within_batch_def)
  have sending: "phase_work cfg (AwaitSend src n e ev es) \<le> 2 * length (e # es) + source_work cfg src"
    "within_batch cfg (rl\<lparr>rl_phase := AwaitSend src n e ev es\<rparr>)" for ev
    using Cons.prems by (simp_all add: phase_work_def within_batch_def)
  show ?case using ended ih raised sending by (auto split: sum.split decode_fault.split)
qed

lemma answer_decreases:
  assumes "within_batch cfg rl" and "answers (rl_phase rl) inp"
  shows "phase_work cfg (rl_phase (relay_hears cfg de inp rl)) < phase_work cfg (rl_phase rl) \<and>
    within_batch cfg (relay_hears cfg de inp rl)"
proof (cases "inp = CallFailed")
  case True
  then show ?thesis using assms
    by (cases "rl_phase rl") (simp_all add: answers_def relay_hears_def turn_raised_def phase_work_def within_batch_def)
next
  case False
  show ?thesis
  proof (cases "rl_phase rl")
    case Resting
    then show ?thesis using assms False by (cases inp) (simp_all add: answers_def)
  next
    case AwaitClaim
    then obtain now answer where inp: "inp = ClaimAnswer now answer"
      using assms False by (cases inp) (simp_all add: answers_def)
    have batch: "0 \<le> rc_batch cfg" using assms(1) AwaitClaim by (simp add: within_batch_def)
    have bound: "phase_work cfg (rl_phase (publish_entries cfg de now Reclaimed 0 es r)) \<le> 4 * nat (rc_batch cfg) + 1 \<and>
        within_batch cfg (publish_entries cfg de now Reclaimed 0 es r)" if "length es \<le> nat (rc_batch cfg)" for es r
    proof -
      have "int (length es) \<le> rc_batch cfg" using that batch by linarith
      then have "phase_work cfg (rl_phase (publish_entries cfg de now Reclaimed 0 es r)) \<le> 2 * length es + (2 * nat (rc_batch cfg) + 1) \<and>
          within_batch cfg (publish_entries cfg de now Reclaimed 0 es r)"
        using publish_entries_bounds[of 0 Reclaimed es cfg de now r] by (simp add: counted_def source_work_def)
      then show ?thesis using that by linarith
    qed
    show ?thesis using inp AwaitClaim bound[of "[]" "rl\<lparr>rl_cursor := ''0-0''\<rparr>"] bound
      by (auto simp: relay_hears_def phase_work_def[of cfg AwaitClaim] less_Suc_eq_le split: option.split)
  next
    case (AwaitRead p)
    then obtain now es where inp: "inp = ReadAnswer now es"
      using assms False by (cases inp) (simp_all add: answers_def)
    have p: "0 \<le> p" "p \<le> rc_batch cfg" using assms(1) AwaitRead by (simp_all add: within_batch_def)
    let ?es = "take (nat (rc_batch cfg - p)) es"
    have "int (length ?es) \<le> rc_batch cfg - p" using p by simp
    then have "phase_work cfg (rl_phase (publish_entries cfg de now (Fresh p) 0 ?es rl)) \<le> 2 * length ?es \<and>
        within_batch cfg (publish_entries cfg de now (Fresh p) 0 ?es rl)"
      using publish_entries_bounds[of 0 "Fresh p" ?es cfg de now rl] p by (simp add: counted_def source_work_def)
    moreover have "length ?es \<le> nat (rc_batch cfg - p)" by simp
    ultimately have "phase_work cfg (rl_phase (publish_entries cfg de now (Fresh p) 0 ?es rl)) < 2 * nat (rc_batch cfg - p) + 1 \<and>
        within_batch cfg (publish_entries cfg de now (Fresh p) 0 ?es rl)" by linarith
    then show ?thesis using inp AwaitRead by (simp add: relay_hears_def phase_work_def[of cfg "AwaitRead p"])
  next
    case (AwaitSend src n e ev es)
    then have "inp = Sent" using assms False by (cases inp) (simp_all add: answers_def)
    then show ?thesis using AwaitSend assms(1) by (simp add: relay_hears_def phase_work_def within_batch_def)
  next
    case (AwaitAck src n e ev es)
    then obtain now k where inp: "inp = Acknowledged now k" using assms False by (cases inp) (simp_all add: answers_def)
    have n: "0 \<le> n" "0 \<le> counted src n" "counted src n + 1 + int (length es) \<le> rc_batch cfg"
      using assms(1) AwaitAck by (simp_all add: within_batch_def)
    then have "phase_work cfg (rl_phase (publish_entries cfg de now src (n + 1) es rl)) \<le> 2 * length es + source_work cfg src \<and>
        within_batch cfg (publish_entries cfg de now src (n + 1) es rl)"
      using counted_bounds[OF n(1,2)] by (intro publish_entries_bounds) simp_all
    then show ?thesis using inp AwaitAck
      by (auto simp: relay_hears_def phase_work_def[of cfg "AwaitAck src n e ev es"] phase_work_def[of cfg Resting]
          turn_raised_def within_batch_def[of cfg "rl\<lparr>rl_phase := Resting, rl_result := Raised, rl_delay := min (rl_delay rl * 2) 10\<rparr>"])
  qed
qed

lemma answered_bounded:
  "within_batch cfg rl \<Longrightarrow> answered cfg de rl inps \<Longrightarrow>
     length inps \<le> phase_work cfg (rl_phase rl) \<and> within_batch cfg (after_inputs cfg de rl inps)"
proof (induction inps arbitrary: rl)
  case (Cons inp inps)
  have "phase_work cfg (rl_phase (relay_hears cfg de inp rl)) < phase_work cfg (rl_phase rl)"
    "within_batch cfg (relay_hears cfg de inp rl)"
    using answer_decreases[OF Cons.prems(1)] Cons.prems(2) by auto
  then show ?case using Cons.IH[of "relay_hears cfg de inp rl"] Cons.prems(2) by (auto simp: after_inputs_def)
qed (simp add: after_inputs_def)



subsection \<open>What is not kept\<close>

text \<open>
  After a failed send the relay goes on with newer entries, here one of the same run, and comes back to
  the failed one only when it is reclaimed: the lifecycle of a run is not published in its order.
\<close>

lemma order_not_kept:
  "case rl_phase (after_inputs sample_config sample_decoder new_relay
      [Started None True, TurnBegins 0, ClaimAnswer 0 None, ReadAnswer 0 [row_about ''1-0''], CallFailed,
       TurnBegins 1, ReadAnswer 1 [row_about ''2-0'']]) of
     AwaitSend src n e ev es \<Rightarrow> fst e = ''2-0'' \<and> kafka_key ev = ''r'' | _ \<Rightarrow> False"
  by code_simp

text \<open>One entry that is not UTF-8 ends the turn, and the valid entries after it wait for the reclaim.\<close>

lemma undecodable_ends_turn:
  "let rl = after_inputs sample_config sample_decoder new_relay
      [Started None True, TurnBegins 0, ClaimAnswer 0 None, ReadAnswer 0 [(''1-0'', NotUtf8), row_about ''2-0'']]
   in rl_phase rl = Resting \<and> rl_result rl = Raised"
  by code_simp

subsection \<open>The outbox of the shared registry\<close>

text \<open>Seen from the shared registry, a step of the relays is its step \<open>relayed\<close>, or an entry it adds itself.\<close>

lemma relay_step_outbox:
  assumes "relay_step cfg de w v" and "w_added v = w_added w"
  shows "\<exists>P. w_outbox v = filter P (w_outbox w)"
  using assms(1)
proof (rule relay_stepE)
  fix e assume "v = w\<lparr>w_added := w_added w @ [e], w_outbox := w_outbox w @ [e]\<rparr>"
  then show ?thesis using assms(2) by simp
qed (auto intro: exI[of _ "\<lambda>_. True"])

lemma relay_is_relayed:
  assumes "relay_step cfg de w v" and "w_added v = w_added w" and "sv_audit s = map row (w_outbox w)"
  shows "shared_step s (s\<lparr>sv_audit := map row (w_outbox v)\<rparr>)"
proof -
  obtain P where "w_outbox v = filter P (w_outbox w)" using relay_step_outbox[OF assms(1,2)] by blast
  then have "map row (w_outbox v) = nths (sv_audit s) {i. i < length (w_outbox w) \<and> P (w_outbox w ! i)}"
    using assms(3) by (simp add: filter_eq_nths nths_map)
  then show ?thesis using shared_step.relayed by metis
qed

end
