(* ===== verification/Evaluation.thy ===== *)
theory Evaluation
  imports Complex_Main RepairContracts "HOL-Library.List_Lexorder" "HOL-Library.Char_ord" "HOL-Library.Code_Target_Nat"
begin

text \<open>
  The deterministic graders of \<^verbatim>\<open>src/src/evolution/evaluator.py\<close> over the records of
  \<^verbatim>\<open>src/src/evolution/contracts.py\<close>: the verdict of each grader on a recorded run, the report of a
  suite, and the comparison that promotes a candidate. Floats are rationals; an objection of a grader
  is a constructor instead of its text.
\<close>

subsection \<open>Cases and evidence\<close>

datatype delivery_outcome = ExecutionBlocked | DeliveredWithIssues | ReleaseReady

datatype grader = IntentGrade | ToolCallGrade | TrajectoryGrade | ArtifactGrade | ReleaseTruthGrade | RecoveryGrade
  | SecurityGrade | CostGrade

datatype run_intent = BuildIntent | ReviewIntent | ContinueIntent | IrrelevantIntent

datatype review_state = ReviewPassed | ReviewFailed | ReviewNotRun

record expectation =
  xp_outcomes :: "delivery_outcome list"
  xp_intent :: "run_intent option"
  xp_artifacts :: "string list"
  xp_min_steps :: nat
  xp_complete :: "bool option"
  xp_review :: bool
  xp_recovery :: bool
  xp_roles :: "string list"
  xp_required_tools :: "string list"
  xp_forbidden_tools :: "string list"
  xp_max_repairs :: "nat option"
  xp_max_tokens :: "nat option"
  xp_max_seconds :: "rat option"

record eval_case =
  ec_id :: string
  ec_invariants :: "string list"
  ec_graders :: "grader list"
  ec_expectation :: expectation

record artifact_evidence =
  ae_path :: string
  ae_exists :: bool
  ae_valid :: bool
  ae_sha :: "string option"

record run_evidence =
  re_outcome :: delivery_outcome
  re_intent :: run_intent
  re_complete :: bool
  re_completed_steps :: nat
  re_total_steps :: nat
  re_artifacts :: "artifact_evidence list"
  re_blockers :: "string list"
  re_review :: review_state
  re_roles :: "string list"
  re_tools :: "string list"
  re_repairs :: nat
  re_recovered :: bool
  re_tokens :: nat
  re_seconds :: rat
  re_invariants :: "(string, bool) dict"

text \<open>What a grader objects to.\<close>

datatype objection =
    MissingArtifact string | UngroundedArtifact string | WrongIntent run_intent run_intent
  | ToolNotCalled string | ForbiddenTool string | TooFewSteps nat nat | WrongTotal nat | WrongRoles
  | UnexpectedOutcome delivery_outcome | WrongCompletion | ReadyIncomplete | ReadyWithBlockers | ReadyUnreviewed
  | IssuesIncomplete | IssuesUnnamed | ReviewNotPassed | NoRepair | NotRecovered | InvariantNotProven string
  | RepairBudget | TokenBudget | TimeBudget

record grader_result =
  gr_grader :: grader
  gr_passed :: bool
  gr_score :: rat
  gr_details :: "objection list"

definition graded :: "grader \<Rightarrow> objection list \<Rightarrow> rat option \<Rightarrow> grader_result" where
  "graded g details score =
     \<lparr>gr_grader = g, gr_passed = (details = []), gr_score = (case score of None \<Rightarrow> if details = [] then 1 else 0 | Some q \<Rightarrow> q),
      gr_details = details\<rparr>"

subsection \<open>The graders\<close>

definition posix_text :: "string \<Rightarrow> string" where
  "posix_text s = map (\<lambda>c. if c = CHR 0x5C then CHR ''/'' else c) s"

definition artifact_matches :: "string \<Rightarrow> string \<Rightarrow> bool" where
  "artifact_matches path requirement =
     (if starts_with requirement ''.'' then ends_with (casefold (posix_text path)) (casefold requirement)
      else casefold (path_name (posix_text path)) = casefold requirement)"

definition grounded :: "artifact_evidence \<Rightarrow> bool" where
  "grounded a = (ae_exists a \<and> ae_valid a \<and> ae_sha a \<notin> {None, Some []})"

definition artifact_objections :: "run_evidence \<Rightarrow> string \<Rightarrow> objection list" where
  "artifact_objections e required =
     (let found = filter (\<lambda>a. artifact_matches (ae_path a) required) (re_artifacts e)
      in if found = [] then [MissingArtifact required]
         else if \<not> list_ex grounded found then [UngroundedArtifact required] else [])"

definition artifact_grader :: "eval_case \<Rightarrow> run_evidence \<Rightarrow> grader_result" where
  "artifact_grader c e = graded ArtifactGrade (concat (map (artifact_objections e) (xp_artifacts (ec_expectation c)))) None"

definition intent_grader :: "eval_case \<Rightarrow> run_evidence \<Rightarrow> grader_result" where
  "intent_grader c e =
     graded IntentGrade (case xp_intent (ec_expectation c) of None \<Rightarrow> []
       | Some i \<Rightarrow> if re_intent e = i then [] else [WrongIntent (re_intent e) i]) None"

text \<open>A set of tool names, sorted.\<close>

definition tool_set :: "string list \<Rightarrow> string list" where
  "tool_set ts = sort (remdups ts)"

definition tool_score :: "string list \<Rightarrow> string list \<Rightarrow> string list \<Rightarrow> rat" where
  "tool_score required forbidden actual =
     (let checks = length (tool_set required) + length (tool_set forbidden);
          satisfied = length (filter (\<lambda>t. t \<in> set actual) (tool_set required)) +
            length (filter (\<lambda>t. t \<notin> set actual) (tool_set forbidden))
      in if checks = 0 then 1 else of_nat satisfied / of_nat checks)"

definition tool_call_grader :: "eval_case \<Rightarrow> run_evidence \<Rightarrow> grader_result" where
  "tool_call_grader c e =
     (let required = xp_required_tools (ec_expectation c); forbidden = xp_forbidden_tools (ec_expectation c); actual = re_tools e
      in graded ToolCallGrade
           (map ToolNotCalled (filter (\<lambda>t. t \<notin> set actual) (tool_set required)) @
            map ForbiddenTool (filter (\<lambda>t. t \<in> set actual) (tool_set forbidden)))
           (Some (tool_score required forbidden actual)))"

definition trajectory_grader :: "eval_case \<Rightarrow> run_evidence \<Rightarrow> grader_result" where
  "trajectory_grader c e =
     graded TrajectoryGrade
       ((if re_completed_steps e < xp_min_steps (ec_expectation c)
         then [TooFewSteps (re_completed_steps e) (xp_min_steps (ec_expectation c))] else []) @
        (if re_total_steps e \<noteq> 17 then [WrongTotal (re_total_steps e)] else []) @
        (if xp_roles (ec_expectation c) \<noteq> [] \<and> re_roles e \<noteq> xp_roles (ec_expectation c) then [WrongRoles] else [])) None"

definition release_truth_grader :: "eval_case \<Rightarrow> run_evidence \<Rightarrow> grader_result" where
  "release_truth_grader c e =
     graded ReleaseTruthGrade
       ((if re_outcome e \<notin> set (xp_outcomes (ec_expectation c)) then [UnexpectedOutcome (re_outcome e)] else []) @
        (case xp_complete (ec_expectation c) of None \<Rightarrow> [] | Some b \<Rightarrow> if re_complete e \<noteq> b then [WrongCompletion] else []) @
        (if re_outcome e = ReleaseReady then
           (if \<not> re_complete e \<or> re_completed_steps e \<noteq> re_total_steps e then [ReadyIncomplete] else []) @
           (if re_blockers e \<noteq> [] then [ReadyWithBlockers] else []) @
           (if re_review e \<noteq> ReviewPassed then [ReadyUnreviewed] else []) else []) @
        (if re_outcome e = DeliveredWithIssues then
           (if \<not> re_complete e then [IssuesIncomplete] else []) @ (if re_blockers e = [] then [IssuesUnnamed] else []) else []) @
        (if xp_review (ec_expectation c) \<and> re_review e \<noteq> ReviewPassed then [ReviewNotPassed] else [])) None"

definition recovery_grader :: "eval_case \<Rightarrow> run_evidence \<Rightarrow> grader_result" where
  "recovery_grader c e =
     graded RecoveryGrade
       (if xp_recovery (ec_expectation c) then
          (if re_repairs e < 1 then [NoRepair] else []) @ (if \<not> re_recovered e then [NotRecovered] else []) else []) None"

definition security_grader :: "eval_case \<Rightarrow> run_evidence \<Rightarrow> grader_result" where
  "security_grader c e =
     graded SecurityGrade (map InvariantNotProven (filter (\<lambda>i. dget (re_invariants e) i \<noteq> Some True) (ec_invariants c))) None"

definition over_budget :: "'n::linorder option \<Rightarrow> 'n \<Rightarrow> bool" where
  "over_budget limit n = (case limit of None \<Rightarrow> False | Some m \<Rightarrow> m < n)"

definition cost_grader :: "eval_case \<Rightarrow> run_evidence \<Rightarrow> grader_result" where
  "cost_grader c e =
     graded CostGrade
       ((if over_budget (xp_max_repairs (ec_expectation c)) (re_repairs e) then [RepairBudget] else []) @
        (if over_budget (xp_max_tokens (ec_expectation c)) (re_tokens e) then [TokenBudget] else []) @
        (if over_budget (xp_max_seconds (ec_expectation c)) (re_seconds e) then [TimeBudget] else [])) None"

definition grade_by :: "grader \<Rightarrow> eval_case \<Rightarrow> run_evidence \<Rightarrow> grader_result" where
  "grade_by g = (case g of IntentGrade \<Rightarrow> intent_grader | ToolCallGrade \<Rightarrow> tool_call_grader | TrajectoryGrade \<Rightarrow> trajectory_grader
     | ArtifactGrade \<Rightarrow> artifact_grader | ReleaseTruthGrade \<Rightarrow> release_truth_grader | RecoveryGrade \<Rightarrow> recovery_grader
     | SecurityGrade \<Rightarrow> security_grader | CostGrade \<Rightarrow> cost_grader)"

subsection \<open>Evaluation of a suite\<close>

record case_evaluation =
  cv_id :: string
  cv_passed :: bool
  cv_results :: "grader_result list"

definition evaluate_case :: "eval_case \<Rightarrow> run_evidence \<Rightarrow> case_evaluation" where
  "evaluate_case c e =
     (let results = map (\<lambda>g. grade_by g c e) (ec_graders c)
      in \<lparr>cv_id = ec_id c, cv_passed = list_all gr_passed results, cv_results = results\<rparr>)"

record suite_measures =
  mt_case_count :: nat
  mt_passed_cases :: nat
  mt_grader_count :: nat
  mt_passed_graders :: nat
  mt_pass_rate :: rat
  mt_tokens :: nat
  mt_seconds :: rat
  mt_grader_rates :: "(grader, rat) dict"
  mt_tool_calls :: rat
  mt_transitions :: rat
  mt_goals :: rat
  mt_gates :: rat
  mt_recovery :: rat
  mt_false_releases :: nat
  mt_false_rate :: rat

record eval_report =
  er_harness :: string
  er_cases :: "case_evaluation list"
  er_metrics :: suite_measures

datatype eval_fault = MissingEvidence string | DifferentCases | RateOutOfRange

definition average :: "rat list \<Rightarrow> rat" where
  "average xs = (if xs = [] then 0 else sum_list xs / of_nat (length xs))"

definition all_results :: "case_evaluation list \<Rightarrow> grader_result list" where
  "all_results evs = concat (map cv_results evs)"

definition results_of :: "grader \<Rightarrow> case_evaluation list \<Rightarrow> grader_result list" where
  "results_of g evs = filter (\<lambda>r. gr_grader r = g) (all_results evs)"

definition grader_list :: "grader list" where
  "grader_list = [IntentGrade, ToolCallGrade, TrajectoryGrade, ArtifactGrade, ReleaseTruthGrade, RecoveryGrade, SecurityGrade, CostGrade]"

definition gate_results :: "case_evaluation \<Rightarrow> grader_result list" where
  "gate_results v = filter (\<lambda>r. gr_grader r \<in> {ArtifactGrade, ReleaseTruthGrade, SecurityGrade}) (cv_results v)"

definition false_release :: "eval_case \<Rightarrow> run_evidence \<Rightarrow> case_evaluation \<Rightarrow> bool" where
  "false_release c e v =
     (re_outcome e = ReleaseReady \<and>
      (ReleaseReady \<notin> set (xp_outcomes (ec_expectation c)) \<or> \<not> list_all gr_passed (gate_results v)))"

definition rate_ok :: "rat \<Rightarrow> bool" where
  "rate_ok q = (0 \<le> q \<and> q \<le> 1)"

text \<open>The constraints of the metrics record.\<close>

definition metrics_ok :: "suite_measures \<Rightarrow> bool" where
  "metrics_ok m = (list_all rate_ok [mt_pass_rate m, mt_tool_calls m, mt_transitions m, mt_goals m, mt_gates m, mt_recovery m,
     mt_false_rate m] \<and> 0 \<le> mt_seconds m)"

definition collect_evidence :: "eval_case list \<Rightarrow> (string, run_evidence) dict \<Rightarrow> (eval_fault, run_evidence list) result" where
  "collect_evidence cs evidence =
     rmap (\<lambda>c. case dget evidence (ec_id c) of None \<Rightarrow> Inl (MissingEvidence (ec_id c)) | Some e \<Rightarrow> Inr e) cs"

definition suite_metrics :: "eval_case list \<Rightarrow> run_evidence list \<Rightarrow> case_evaluation list \<Rightarrow> suite_measures" where
  "suite_metrics cs es vs =
     (let n = length vs; passed = length (filter cv_passed vs);
          false_releases = length (filter (\<lambda>(c, e, v). false_release c e v) (zip cs (zip es vs)))
      in \<lparr>mt_case_count = n, mt_passed_cases = passed, mt_grader_count = length (all_results vs),
          mt_passed_graders = length (filter gr_passed (all_results vs)),
          mt_pass_rate = (if vs = [] then 0 else of_nat passed / of_nat n),
          mt_tokens = sum_list (map re_tokens es), mt_seconds = sum_list (map re_seconds es),
          mt_grader_rates = map (\<lambda>g. (g, average (map (\<lambda>r. of_bool (gr_passed r)) (results_of g vs))))
            (filter (\<lambda>g. results_of g vs \<noteq> []) grader_list),
          mt_tool_calls = average (map gr_score (results_of ToolCallGrade vs)),
          mt_transitions = average (map gr_score (results_of TrajectoryGrade vs)),
          mt_goals = average (map gr_score (results_of ArtifactGrade vs)),
          mt_gates = average (map (\<lambda>v. of_bool (list_all gr_passed (gate_results v))) (filter (\<lambda>v. gate_results v \<noteq> []) vs)),
          mt_recovery = average (map gr_score (results_of RecoveryGrade vs)),
          mt_false_releases = false_releases,
          mt_false_rate = (if vs = [] then 0 else of_nat false_releases / of_nat n)\<rparr>)"

definition evaluate_suite :: "eval_case list \<Rightarrow> (string, run_evidence) dict \<Rightarrow> string \<Rightarrow> (eval_fault, eval_report) result" where
  "evaluate_suite cs evidence harness =
     rbind (collect_evidence cs evidence) (\<lambda>es.
       let vs = map2 evaluate_case cs es; m = suite_metrics cs es vs
       in demand (metrics_ok m) RateOutOfRange (Inr \<lparr>er_harness = harness, er_cases = vs, er_metrics = m\<rparr>))"

subsection \<open>Comparison of two reports\<close>

record comparison =
  cm_improved :: "string list"
  cm_regressed :: "string list"
  cm_unchanged :: "string list"
  cm_cost_guard :: bool
  cm_candidate_passed :: bool
  cm_token_delta :: int
  cm_seconds_delta :: rat

text \<open>A dictionary comprehension: the last entry of a key counts.\<close>

definition verdicts :: "eval_report \<Rightarrow> (string, bool) dict" where
  "verdicts r = foldl (\<lambda>d v. dset (cv_id v) (cv_passed v) d) [] (er_cases r)"

definition within_cost_guard :: "rat \<Rightarrow> rat \<Rightarrow> bool" where
  "within_cost_guard candidate baseline = (if baseline = 0 then candidate = 0 else candidate \<le> baseline * (6 / 5))"

definition keys_where :: "(bool \<Rightarrow> bool \<Rightarrow> bool) \<Rightarrow> (string, bool) dict \<Rightarrow> (string, bool) dict \<Rightarrow> string list" where
  "keys_where P base current = sort (filter (\<lambda>k. P (dget base k = Some True) (dget current k = Some True)) (dkeys base))"

definition compare_reports :: "eval_report \<Rightarrow> eval_report \<Rightarrow> (eval_fault, comparison) result" where
  "compare_reports baseline candidate =
     (let base = verdicts baseline; current = verdicts candidate;
          improved = keys_where (\<lambda>b c. \<not> b \<and> c) base current;
          regressed = keys_where (\<lambda>b c. b \<and> \<not> c) base current;
          guard = (within_cost_guard (of_nat (mt_tokens (er_metrics candidate))) (of_nat (mt_tokens (er_metrics baseline))) \<and>
            within_cost_guard (mt_seconds (er_metrics candidate)) (mt_seconds (er_metrics baseline)))
      in demand (set (dkeys base) = set (dkeys current)) DifferentCases
           (Inr \<lparr>cm_improved = improved, cm_regressed = regressed, cm_unchanged = keys_where (=) base current,
             cm_cost_guard = guard,
             cm_candidate_passed = (improved \<noteq> [] \<and> regressed = [] \<and>
               mt_passed_cases (er_metrics candidate) = length (er_cases candidate) \<and> guard),
             cm_token_delta = int (mt_tokens (er_metrics candidate)) - int (mt_tokens (er_metrics baseline)),
             cm_seconds_delta = mt_seconds (er_metrics candidate) - mt_seconds (er_metrics baseline)\<rparr>))"

subsection \<open>Reports\<close>

definition evidence_of :: "(string, run_evidence) dict \<Rightarrow> eval_case \<Rightarrow> run_evidence" where
  "evidence_of evidence c = the (dget evidence (ec_id c))"

text \<open>The case passes every grader it names.\<close>

definition case_passes :: "(string, run_evidence) dict \<Rightarrow> eval_case \<Rightarrow> bool" where
  "case_passes evidence c = (\<forall>g\<in>set (ec_graders c). gr_passed (grade_by g c (evidence_of evidence c)))"

lemma grade_grader [simp]: "gr_grader (grade_by g c e) = g"
  by (cases g) (simp_all add: grade_by_def graded_def intent_grader_def tool_call_grader_def trajectory_grader_def Let_def
    artifact_grader_def release_truth_grader_def recovery_grader_def security_grader_def cost_grader_def)

lemma evaluate_case_simps [simp]:
  "cv_id (evaluate_case c e) = ec_id c" "cv_passed (evaluate_case c (evidence_of ev c)) = case_passes ev c"
  "cv_results (evaluate_case c e) = map (\<lambda>g. grade_by g c e) (ec_graders c)"
  by (simp_all add: evaluate_case_def Let_def case_passes_def list_all_iff)

lemma collect_found:
  "collect_evidence cs evidence = Inr es \<longleftrightarrow>
     (\<forall>c\<in>set cs. dget evidence (ec_id c) \<noteq> None) \<and> es = map (evidence_of evidence) cs"
proof (induction cs arbitrary: es)
  case (Cons c cs)
  then show ?case unfolding collect_evidence_def
    by (cases "dget evidence (ec_id c)") (auto simp: evidence_of_def result_simps)
qed (auto simp: collect_evidence_def)

lemma map2_map_right: "map2 f xs (map g xs) = map (\<lambda>x. f x (g x)) xs"
  by (induction xs) simp_all

lemma evaluate_suite_Inr:
  assumes "evaluate_suite cs evidence h = Inr rep"
  shows "\<forall>c\<in>set cs. dget evidence (ec_id c) \<noteq> None"
    and "er_cases rep = map (\<lambda>c. evaluate_case c (evidence_of evidence c)) cs"
    and "er_metrics rep = suite_metrics cs (map (evidence_of evidence) cs) (er_cases rep)"
  using assms by (auto simp: evaluate_suite_def result_simps collect_found map2_map_right Let_def)

subsection \<open>Rates\<close>

lemma average_bounds: "(\<And>x. x \<in> set xs \<Longrightarrow> 0 \<le> x \<and> x \<le> 1) \<Longrightarrow> rate_ok (average xs)"
proof -
  assume b: "\<And>x. x \<in> set xs \<Longrightarrow> 0 \<le> x \<and> x \<le> 1"
  have "0 \<le> sum_list xs" using b by (auto intro: sum_list_nonneg)
  moreover have "sum_list xs \<le> of_nat (length xs)" using b by (induction xs) (auto intro: add_mono)
  ultimately show ?thesis by (auto simp: average_def rate_ok_def divide_simps)
qed

lemma ratio_ok: "m \<le> n \<Longrightarrow> 0 < n \<Longrightarrow> rate_ok (of_nat m / of_nat n)"
  by (simp add: rate_ok_def divide_simps)

lemma tool_score_ok: "rate_ok (tool_score required forbidden actual)"
  unfolding tool_score_def Let_def by (auto intro!: ratio_ok add_mono simp: rate_ok_def simp del: of_nat_add)

lemma grade_score: "rate_ok (gr_score (grade_by g c e))"
proof (cases "g = ToolCallGrade")
  case True
  then show ?thesis using tool_score_ok by (simp add: grade_by_def tool_call_grader_def graded_def Let_def)
next
  case False
  then show ?thesis by (cases g) (simp_all add: grade_by_def graded_def rate_ok_def intent_grader_def trajectory_grader_def
    artifact_grader_def release_truth_grader_def recovery_grader_def security_grader_def cost_grader_def)
qed

lemma suite_metrics_ok:
  assumes "\<And>e. e \<in> set es \<Longrightarrow> 0 \<le> re_seconds e" and "length es = length cs"
  shows "metrics_ok (suite_metrics cs es (map2 evaluate_case cs es))"
proof -
  let ?vs = "map2 evaluate_case cs es"
  have scores: "rate_ok (average (map gr_score (results_of g ?vs)))" for g
  proof (rule average_bounds)
    fix x assume "x \<in> set (map gr_score (results_of g ?vs))"
    then obtain k c e where "x = gr_score (grade_by k c e)" by (auto simp: results_of_def all_results_def evaluate_case_def Let_def)
    then show "0 \<le> x \<and> x \<le> 1" using grade_score by (simp add: rate_ok_def)
  qed
  have gates: "rate_ok (average (map (\<lambda>v. of_bool (list_all gr_passed (gate_results v))) xs))" for xs
    by (rule average_bounds) auto
  have len: "length ?vs = length cs" using assms(2) by simp
  have "rate_ok (of_nat (length (filter cv_passed ?vs)) / of_nat (length ?vs))" if "?vs \<noteq> []"
    using that by (intro ratio_ok length_filter_le) simp
  moreover have "rate_ok (of_nat (length (filter (\<lambda>(c, e, v). false_release c e v) (zip cs (zip es ?vs)))) / of_nat (length ?vs))"
    if "?vs \<noteq> []"
    using that by (intro ratio_ok order_trans[OF length_filter_le]) simp_all
  moreover have "0 \<le> sum_list (map re_seconds es)" using assms(1) by (intro sum_list_nonneg) auto
  ultimately show ?thesis using scores gates unfolding suite_metrics_def metrics_ok_def Let_def
    by (auto simp: rate_ok_def[of 0])
qed

subsection \<open>Properties\<close>

text \<open>
  C40: An evaluation of recorded runs fails only when a case has no evidence: then it names the
  first such case; otherwise every score and rate it reports lies between zero and one, as the
  metrics record demands.
\<close>

theorem evaluation_total:
  assumes "\<And>k e. dget evidence k = Some e \<Longrightarrow> 0 \<le> re_seconds e"
  shows "(case find (\<lambda>c. dget evidence (ec_id c) = None) cs of
       Some c \<Rightarrow> evaluate_suite cs evidence h = Inl (MissingEvidence (ec_id c))
     | None \<Rightarrow> (\<exists>rep. evaluate_suite cs evidence h = Inr rep \<and> metrics_ok (er_metrics rep) \<and>
         (\<forall>r\<in>set (all_results (er_cases rep)). rate_ok (gr_score r))))"
proof (cases "find (\<lambda>c. dget evidence (ec_id c) = None) cs")
  case None
  then have all: "\<forall>c\<in>set cs. dget evidence (ec_id c) \<noteq> None" by (auto simp: find_None_iff)
  let ?es = "map (evidence_of evidence) cs"
  have "0 \<le> re_seconds e" if "e \<in> set ?es" for e
    using that all assms by (fastforce simp: evidence_of_def)
  then have ok: "metrics_ok (suite_metrics cs ?es (map2 evaluate_case cs ?es))" by (intro suite_metrics_ok) auto
  have "collect_evidence cs evidence = Inr ?es" using all by (simp add: collect_found)
  then have "evaluate_suite cs evidence h = Inr \<lparr>er_harness = h, er_cases = map2 evaluate_case cs ?es,
      er_metrics = suite_metrics cs ?es (map2 evaluate_case cs ?es)\<rparr>"
    using ok by (simp add: evaluate_suite_def Let_def demand_def)
  then show ?thesis using None ok grade_score by (auto simp: all_results_def evaluate_case_def Let_def)
next
  case (Some c)
  have "collect_evidence cs evidence = Inl (MissingEvidence (ec_id c))"
    using Some by (induction cs) (auto simp: collect_evidence_def split: if_splits option.splits)
  then show ?thesis using Some by (simp add: evaluate_suite_def)
qed

text \<open>One case with the three gates, and a run that meets it.\<close>

definition sample_case :: eval_case where
  "sample_case = \<lparr>ec_id = ''case-1'', ec_invariants = [''release-truth''], ec_graders = [ArtifactGrade, ReleaseTruthGrade, SecurityGrade],
     ec_expectation = \<lparr>xp_outcomes = [ReleaseReady], xp_intent = None, xp_artifacts = [''.kicad_pcb''], xp_min_steps = 0,
       xp_complete = None, xp_review = True, xp_recovery = False, xp_roles = [], xp_required_tools = [], xp_forbidden_tools = [],
       xp_max_repairs = None, xp_max_tokens = None, xp_max_seconds = None\<rparr>\<rparr>"

definition sample_evidence :: "review_state \<Rightarrow> run_evidence" where
  "sample_evidence review = \<lparr>re_outcome = ReleaseReady, re_intent = BuildIntent, re_complete = True, re_completed_steps = 17,
     re_total_steps = 17, re_artifacts = [\<lparr>ae_path = ''out/Board.KiCad_pcb'', ae_exists = True, ae_valid = True, ae_sha = Some ''ab''\<rparr>],
     re_blockers = [], re_review = review, re_roles = [], re_tools = [], re_repairs = 0, re_recovered = False, re_tokens = 100,
     re_seconds = 60, re_invariants = [(''release-truth'', True)]\<rparr>"

lemma sample_evidence_seconds: "dget [(''case-1'', sample_evidence v)] k = Some e \<Longrightarrow> 0 \<le> re_seconds e"
  by (auto simp: sample_evidence_def split: if_splits)

lemma evaluation_total_witness:
  "\<exists>rep. evaluate_suite [sample_case] [(''case-1'', sample_evidence ReviewPassed)] ''h'' = Inr rep \<and> metrics_ok (er_metrics rep)"
proof -
  have find: "find (\<lambda>c. dget [(''case-1'', sample_evidence ReviewPassed)] (ec_id c) = None) [sample_case] = None"
    by (simp add: sample_case_def)
  have "(case find (\<lambda>c. dget [(''case-1'', sample_evidence ReviewPassed)] (ec_id c) = None) [sample_case] of
       Some c \<Rightarrow> evaluate_suite [sample_case] [(''case-1'', sample_evidence ReviewPassed)] ''h'' = Inl (MissingEvidence (ec_id c))
     | None \<Rightarrow> (\<exists>rep. evaluate_suite [sample_case] [(''case-1'', sample_evidence ReviewPassed)] ''h'' = Inr rep \<and>
         metrics_ok (er_metrics rep) \<and> (\<forall>r\<in>set (all_results (er_cases rep)). rate_ok (gr_score r))))"
    by (rule evaluation_total) (rule sample_evidence_seconds)
  then show ?thesis unfolding find option.case by (elim exE conjE) (intro exI conjI, assumption+)
qed

lemma artifact_grade_passes:
  "gr_passed (grade_by ArtifactGrade c e) \<longleftrightarrow>
     (\<forall>p\<in>set (xp_artifacts (ec_expectation c)). \<exists>a\<in>set (re_artifacts e). artifact_matches (ae_path a) p \<and> grounded a)"
proof -
  have "artifact_objections e p = [] \<longleftrightarrow> (\<exists>a\<in>set (re_artifacts e). artifact_matches (ae_path a) p \<and> grounded a)" for p
    by (auto simp: artifact_objections_def Let_def list_ex_iff filter_empty_conv)
  then show ?thesis by (simp add: grade_by_def artifact_grader_def graded_def)
qed

lemma security_grade_passes:
  "gr_passed (grade_by SecurityGrade c e) \<longleftrightarrow> (\<forall>i\<in>set (ec_invariants c). dget (re_invariants e) i = Some True)"
  by (auto simp: grade_by_def security_grader_def graded_def filter_empty_conv)

lemma release_truth_passes:
  "gr_passed (grade_by ReleaseTruthGrade c e) \<Longrightarrow> re_outcome e = ReleaseReady \<Longrightarrow>
     re_complete e \<and> re_completed_steps e = re_total_steps e \<and> re_blockers e = [] \<and> re_review e = ReviewPassed"
  by (auto simp: grade_by_def release_truth_grader_def graded_def split: if_splits)

text \<open>
  When a suite reports no false release, every run of a case with the three gates that
  claims to be ready for release was allowed to, completed all its steps, has no blockers, passed the
  independent review, has for every required artifact an existing, valid and hashed file, and has
  every invariant of the case proven.
\<close>

theorem release_ready_honest:
  assumes run: "evaluate_suite cs evidence h = Inr rep" and none: "mt_false_releases (er_metrics rep) = 0"
    and c: "c \<in> set cs" "{ArtifactGrade, ReleaseTruthGrade, SecurityGrade} \<subseteq> set (ec_graders c)"
    and e: "dget evidence (ec_id c) = Some e" "re_outcome e = ReleaseReady"
  shows "ReleaseReady \<in> set (xp_outcomes (ec_expectation c)) \<and> re_complete e \<and> re_completed_steps e = re_total_steps e \<and>
    re_blockers e = [] \<and> re_review e = ReviewPassed \<and>
    (\<forall>p\<in>set (xp_artifacts (ec_expectation c)). \<exists>a\<in>set (re_artifacts e). artifact_matches (ae_path a) p \<and> grounded a) \<and>
    (\<forall>i\<in>set (ec_invariants c). dget (re_invariants e) i = Some True)"
proof -
  let ?v = "\<lambda>c. evaluate_case c (evidence_of evidence c)"
  have zips: "zip cs (zip (map (evidence_of evidence) cs) (map ?v cs)) = map (\<lambda>c. (c, evidence_of evidence c, ?v c)) cs"
    by (induction cs) simp_all
  have "mt_false_releases (er_metrics rep) = length (filter (\<lambda>c. false_release c (evidence_of evidence c) (?v c)) cs)"
    using evaluate_suite_Inr(2,3)[OF run] by (simp add: suite_metrics_def Let_def zips filter_map o_def)
  then have "\<not> false_release c (evidence_of evidence c) (?v c)" using none c(1) by (simp add: filter_empty_conv)
  moreover have "evidence_of evidence c = e" using e(1) by (simp add: evidence_of_def)
  ultimately have ok: "ReleaseReady \<in> set (xp_outcomes (ec_expectation c))" and gates: "list_all gr_passed (gate_results (?v c))"
    using e(2) by (auto simp: false_release_def)
  have here: "evidence_of evidence c = e" by fact
  have "\<forall>g\<in>set (ec_graders c). g \<in> {ArtifactGrade, ReleaseTruthGrade, SecurityGrade} \<longrightarrow> gr_passed (grade_by g c e)"
    using gates unfolding here by (simp add: gate_results_def list_all_iff)
  then have pass: "g \<in> {ArtifactGrade, ReleaseTruthGrade, SecurityGrade} \<Longrightarrow> gr_passed (grade_by g c e)" for g
    using c(2) by blast
  have art: "\<forall>p\<in>set (xp_artifacts (ec_expectation c)). \<exists>a\<in>set (re_artifacts e). artifact_matches (ae_path a) p \<and> grounded a"
    by (rule iffD1[OF artifact_grade_passes pass]) simp
  have sec: "\<forall>i\<in>set (ec_invariants c). dget (re_invariants e) i = Some True"
    by (rule iffD1[OF security_grade_passes pass]) simp
  have rel: "re_complete e \<and> re_completed_steps e = re_total_steps e \<and> re_blockers e = [] \<and> re_review e = ReviewPassed"
    by (rule release_truth_passes[OF pass e(2)]) simp
  show ?thesis using ok rel art sec by (elim conjE, intro conjI) assumption+
qed

lemma release_ready_honest_witness:
  "re_review (sample_evidence ReviewPassed) = ReviewPassed \<and>
   (\<exists>a\<in>set (re_artifacts (sample_evidence ReviewPassed)). artifact_matches (ae_path a) ''.kicad_pcb'' \<and> grounded a)"
proof -
  have run: "is_ok (evaluate_suite [sample_case] [(''case-1'', sample_evidence ReviewPassed)] ''h'')"
    and none: "(case evaluate_suite [sample_case] [(''case-1'', sample_evidence ReviewPassed)] ''h'' of Inl _ \<Rightarrow> False
      | Inr rep \<Rightarrow> mt_false_releases (er_metrics rep) = 0)"
    by code_simp+
  then obtain rep where rep: "evaluate_suite [sample_case] [(''case-1'', sample_evidence ReviewPassed)] ''h'' = Inr rep"
    "mt_false_releases (er_metrics rep) = 0"
    by (auto split: sum.splits)
  show ?thesis
    using release_ready_honest[OF rep, of sample_case "sample_evidence ReviewPassed"]
    by (simp add: sample_case_def sample_evidence_def)
qed

subsection \<open>Promotion\<close>

lemma verdicts_fold:
  "distinct (map cv_id vs) \<Longrightarrow>
     dget (foldl (\<lambda>d v. dset (cv_id v) (cv_passed v) d) d0 vs) k =
       (case map_of (map (\<lambda>v. (cv_id v, cv_passed v)) vs) k of None \<Rightarrow> dget d0 k | Some p \<Rightarrow> Some p)"
proof (induction vs arbitrary: d0)
  case (Cons v vs)
  have "map_of (map (\<lambda>v. (cv_id v, cv_passed v)) vs) (cv_id v) = None"
    using Cons.prems by (simp add: map_of_eq_None_iff image_image)
  then show ?case using Cons by (auto simp: dict_simps split: option.split)
qed simp

lemma verdict_of:
  assumes "evaluate_suite cs evidence h = Inr rep" and "distinct (map ec_id cs)" and "c \<in> set cs"
  shows "dget (verdicts rep) (ec_id c) = Some (case_passes evidence c)"
proof -
  have ids: "map cv_id (er_cases rep) = map ec_id cs" using evaluate_suite_Inr(2)[OF assms(1)] by simp
  have "map (\<lambda>v. (cv_id v, cv_passed v)) (er_cases rep) = map (\<lambda>c. (ec_id c, case_passes evidence c)) cs"
    using evaluate_suite_Inr(2)[OF assms(1)] by simp
  moreover have "map_of (map (\<lambda>c. (ec_id c, case_passes evidence c)) cs) (ec_id c) = Some (case_passes evidence c)"
    using assms(2,3) by (intro map_of_is_SomeI) (auto simp: o_def)
  ultimately show ?thesis using verdicts_fold[of "er_cases rep" "[]" "ec_id c"] assms(2) ids by (simp add: verdicts_def)
qed

lemma verdict_keys:
  assumes "evaluate_suite cs evidence h = Inr rep" and "distinct (map ec_id cs)"
  shows "set (dkeys (verdicts rep)) = ec_id ` set cs"
proof -
  have ids: "map cv_id (er_cases rep) = map ec_id cs" using evaluate_suite_Inr(2)[OF assms(1)] by simp
  have "set (dkeys (verdicts rep)) = cv_id ` set (er_cases rep)"
    using verdicts_fold[of "er_cases rep" "[]"] assms(2) ids
    by (auto simp: verdicts_def dict_simps dom_def map_of_eq_None_iff image_image split: option.splits)
  then show ?thesis using ids by (metis list.set_map)
qed

lemma keys_where_empty: "keys_where P base current = [] \<longleftrightarrow>
    (\<forall>k\<in>set (dkeys base). \<not> P (dget base k = Some True) (dget current k = Some True))"
  by (auto simp: keys_where_def filter_empty_conv simp flip: set_empty)

lemma all_pass_count: "length (filter P xs) = length xs \<longleftrightarrow> (\<forall>x\<in>set xs. P x)"
  by (metis filter_True length_filter_less less_irrefl)

text \<open>
  C29: Comparing two evaluations of the same suite promotes the candidate exactly when it
  passes every case, passes one the baseline fails, and stays within a fifth above the baseline in
  tokens and in time.
\<close>

theorem promotion_exact:
  assumes base: "evaluate_suite cs old h = Inr baseline" and cand: "evaluate_suite cs new h' = Inr candidate"
    and ids: "distinct (map ec_id cs)"
  shows "\<exists>r. compare_reports baseline candidate = Inr r \<and>
    (cm_candidate_passed r \<longleftrightarrow> (\<forall>c\<in>set cs. case_passes new c) \<and> (\<exists>c\<in>set cs. \<not> case_passes old c) \<and>
      within_cost_guard (of_nat (\<Sum>c\<leftarrow>cs. re_tokens (evidence_of new c))) (of_nat (\<Sum>c\<leftarrow>cs. re_tokens (evidence_of old c))) \<and>
      within_cost_guard (\<Sum>c\<leftarrow>cs. re_seconds (evidence_of new c)) (\<Sum>c\<leftarrow>cs. re_seconds (evidence_of old c)))"
proof -
  note vb = verdict_of[OF base ids] and vc = verdict_of[OF cand ids]
  have kb: "set (dkeys (verdicts baseline)) = ec_id ` set cs" and kc: "set (dkeys (verdicts candidate)) = ec_id ` set cs"
    using verdict_keys[OF base ids] verdict_keys[OF cand ids] .
  have improved: "keys_where (\<lambda>b c. \<not> b \<and> c) (verdicts baseline) (verdicts candidate) = [] \<longleftrightarrow>
      (\<forall>c\<in>set cs. case_passes old c \<or> \<not> case_passes new c)"
    unfolding keys_where_empty kb using vb vc by auto
  have regressed: "keys_where (\<lambda>b c. b \<and> \<not> c) (verdicts baseline) (verdicts candidate) = [] \<longleftrightarrow>
      (\<forall>c\<in>set cs. \<not> case_passes old c \<or> case_passes new c)"
    unfolding keys_where_empty kb using vb vc by auto
  have "mt_passed_cases (er_metrics candidate) = length (filter (case_passes new) cs)"
    using evaluate_suite_Inr(2,3)[OF cand] by (simp add: suite_metrics_def Let_def filter_map o_def)
  then have all: "mt_passed_cases (er_metrics candidate) = length (er_cases candidate) \<longleftrightarrow> (\<forall>c\<in>set cs. case_passes new c)"
    using evaluate_suite_Inr(2)[OF cand] all_pass_count[of "case_passes new" cs] by simp
  have costs: "mt_tokens (er_metrics candidate) = (\<Sum>c\<leftarrow>cs. re_tokens (evidence_of new c))"
      "mt_tokens (er_metrics baseline) = (\<Sum>c\<leftarrow>cs. re_tokens (evidence_of old c))"
      "mt_seconds (er_metrics candidate) = (\<Sum>c\<leftarrow>cs. re_seconds (evidence_of new c))"
      "mt_seconds (er_metrics baseline) = (\<Sum>c\<leftarrow>cs. re_seconds (evidence_of old c))"
    using evaluate_suite_Inr(3)[OF base] evaluate_suite_Inr(3)[OF cand] by (simp_all add: suite_metrics_def Let_def o_def)
  show ?thesis unfolding compare_reports_def Let_def demand_def kb kc improved regressed all costs by auto
qed

lemma promotion_exact_witness:
  "case evaluate_suite [sample_case] [(''case-1'', sample_evidence ReviewFailed)] ''h'' of Inl _ \<Rightarrow> False | Inr b \<Rightarrow>
     (case evaluate_suite [sample_case] [(''case-1'', sample_evidence ReviewPassed)] ''h2'' of Inl _ \<Rightarrow> False | Inr c \<Rightarrow>
       (\<exists>r. compare_reports b c = Inr r \<and> cm_candidate_passed r))"
proof -
  have "is_ok (evaluate_suite [sample_case] [(''case-1'', sample_evidence ReviewFailed)] ''h'')"
    "is_ok (evaluate_suite [sample_case] [(''case-1'', sample_evidence ReviewPassed)] ''h2'')"
    by code_simp+
  then obtain b c where b: "evaluate_suite [sample_case] [(''case-1'', sample_evidence ReviewFailed)] ''h'' = Inr b"
    and c: "evaluate_suite [sample_case] [(''case-1'', sample_evidence ReviewPassed)] ''h2'' = Inr c"
    by (auto simp: is_ok_def split: sum.splits)
  have pass: "case_passes [(''case-1'', sample_evidence ReviewPassed)] sample_case"
    "\<not> case_passes [(''case-1'', sample_evidence ReviewFailed)] sample_case" by code_simp+
  have guard: "within_cost_guard (of_nat (re_tokens (evidence_of [(''case-1'', sample_evidence ReviewPassed)] sample_case)))
      (of_nat (re_tokens (evidence_of [(''case-1'', sample_evidence ReviewFailed)] sample_case)))"
    "within_cost_guard (re_seconds (evidence_of [(''case-1'', sample_evidence ReviewPassed)] sample_case))
      (re_seconds (evidence_of [(''case-1'', sample_evidence ReviewFailed)] sample_case))"
    by (simp_all add: evidence_of_def sample_case_def sample_evidence_def within_cost_guard_def)
  show ?thesis using promotion_exact[OF b c] pass guard b c by auto
qed

end
