(* ===== verification/PatchGovernance.thy ===== *)
theory PatchGovernance
  imports Evaluation
begin

text \<open>
  The governance of patches to the harness, \<^verbatim>\<open>src/src/evolution/optimizer.py\<close>: normal paths, the glob
  patterns of the policy, and the validation a proposal of the model passes before it may be applied.
  SHA-256 is a parameter; a validator returns its first fault; free-text fields are not modelled.
\<close>

subsection \<open>The policy and the proposals\<close>

record policy_invariant =
  iv_id :: string
  iv_mutable :: bool

record governance_policy =
  gp_invariants :: "policy_invariant list"
  gp_low_risk :: "string list"
  gp_generator :: "string list"
  gp_denied :: "string list"
  gp_max_files :: nat
  gp_max_lines :: nat
  gp_merge :: bool
  gp_promotion :: bool

datatype file_operation = CreateFile | ReplaceFile

text \<open>The plan says \<^verbatim>\<open>modify\<close> where the bundle says \<^verbatim>\<open>replace\<close>; both are \<open>ReplaceFile\<close> here.\<close>

record patch_change =
  ch_operation :: file_operation
  ch_path :: string
  ch_lines :: nat

record patch_plan =
  pn_candidate :: string
  pn_base :: string
  pn_changes :: "patch_change list"
  pn_preserved :: "string list"

record file_patch =
  fp_operation :: file_operation
  fp_path :: string
  fp_old :: "string option"
  fp_hash :: string
  fp_content :: string

record patch_bundle =
  pb_candidate :: string
  pb_base :: string
  pb_files :: "file_patch list"

record evolution_target =
  et_candidate :: string
  et_base_manifest :: string

record harness_manifest =
  hm_commit :: string
  hm_digest :: string

datatype patch_fault =
    NotRelative string | UnsafeSegment string | RepeatedPath | BadLength | BadCommit | NotNormalized | ContentNul
  | FileTooLarge | WrongHash | UnexpectedOld | MissingOld | BundleTooLarge | CandidateMismatch | CommitMismatch
  | FilesDiffer | ManifestMismatch | TooManyFiles | TooManyLines | InvariantsDropped "string list"
  | SealedPath string | DeniedPath string | OutsideAllowlist string | AutomaticMerge | AutomaticPromotion

subsection \<open>Paths\<close>

definition reserved_names :: "string list" where
  "reserved_names = [''aux'', ''con'', ''nul'', ''prn''] @
     concat (map (\<lambda>i. [''com'' @ nat_str i, ''lpt'' @ nat_str i]) [1 ..< 10])"

definition unsafe_segment :: "string \<Rightarrow> bool" where
  "unsafe_segment part =
     (part \<in> {[], ''.'', ''..''} \<or> ends_with part ''.'' \<or> ends_with part '' '' \<or>
      casefold (takeWhile (\<lambda>c. c \<noteq> CHR ''.'') part) \<in> set reserved_names)"

definition normalized_path :: "string \<Rightarrow> (patch_fault, string) result" where
  "normalized_path raw =
     (let candidate = py_strip (posix_text raw); parts = relative_parts candidate
      in if candidate = [] \<or> starts_with candidate ''/'' \<or> CHR '':'' \<in> set candidate \<or> CHR 0x00 \<in> set candidate
         then Inl (NotRelative raw)
         else if list_ex unsafe_segment parts then Inl (UnsafeSegment raw) else Inr (py_join ''/'' parts))"

text \<open>A bracket set of a pattern: whether it is negated, its characters and ranges, and what follows.\<close>

definition bracket_set :: "string \<Rightarrow> (bool \<times> string \<times> string) option" where
  "bracket_set ps =
     (let neg = starts_with ps ''!''; q = (if neg then tl ps else ps);
          lead = (if starts_with q '']'' then '']'' else []); q' = drop (length lead) q;
          rest = dropWhile (\<lambda>c. c \<noteq> CHR '']'') q'
      in if rest = [] then None else Some (neg, lead @ takeWhile (\<lambda>c. c \<noteq> CHR '']'') q', tl rest))"

fun in_set_of :: "char \<Rightarrow> string \<Rightarrow> bool" where
  "in_set_of c (x # d # y # rest) =
     (if d = CHR ''-'' then x \<le> c \<and> c \<le> y \<or> in_set_of c rest else c = x \<or> in_set_of c (d # y # rest))"
| "in_set_of c (x # rest) = (c = x \<or> in_set_of c rest)"
| "in_set_of c [] = False"

lemma bracket_set_shorter: "bracket_set ps = Some (neg, stuff, rest) \<Longrightarrow> length rest < length ps"
proof -
  assume b: "bracket_set ps = Some (neg, stuff, rest)"
  define q where "q = (if starts_with ps ''!'' then tl ps else ps)"
  define q' where "q' = drop (length (if starts_with q '']'' then '']'' else [])) q"
  have "rest = tl (dropWhile (\<lambda>c. c \<noteq> CHR '']'') q')" "dropWhile (\<lambda>c. c \<noteq> CHR '']'') q' \<noteq> []"
    using b by (auto simp: bracket_set_def Let_def q_def q'_def split: if_splits)
  then have "length rest < length q'"
    by (metis diff_less length_dropWhile_le length_greater_0_conv length_tl less_le_trans zero_less_one)
  then show ?thesis by (simp add: q'_def q_def split: if_splits)
qed

text \<open>\<^verbatim>\<open>fnmatch.fnmatchcase\<close>; a star also crosses slashes.\<close>

function glob :: "string \<Rightarrow> string \<Rightarrow> bool" where
  "glob [] s = (s = [])"
| "glob (p # ps) s =
     (if p = CHR ''*'' then glob ps s \<or> (case s of [] \<Rightarrow> False | _ # s' \<Rightarrow> glob (p # ps) s')
      else (case s of [] \<Rightarrow> False
          | c # s' \<Rightarrow>
              if p = CHR ''?'' then glob ps s'
              else if p = CHR ''['' then
                (case bracket_set ps of None \<Rightarrow> c = p \<and> glob ps s'
                 | Some (neg, stuff, rest) \<Rightarrow> in_set_of c stuff \<noteq> neg \<and> glob rest s')
              else c = p \<and> glob ps s'))"
  by pat_completeness auto
termination by (relation "measure (\<lambda>(p, s). length p + length s)") (auto dest: bracket_set_shorter)

text \<open>The first \<^verbatim>\<open>/**/\<close> becomes one slash.\<close>

fun drop_level :: "string \<Rightarrow> string option" where
  "drop_level [] = None"
| "drop_level (c # s) =
     (if starts_with (c # s) ''/**/'' then Some (CHR ''/'' # drop 3 s) else map_option ((#) c) (drop_level s))"

lemma drop_level_shorter: "drop_level s = Some t \<Longrightarrow> length t < length s"
proof (induction s arbitrary: t)
  case (Cons c s)
  have "3 \<le> length s" if "starts_with (c # s) ''/**/''"
  proof -
    have "length (take 4 (c # s)) = 4" using that by (simp add: starts_with_def eval_nat_numeral)
    then show ?thesis by simp
  qed
  then show ?case using Cons by (fastforce split: if_splits)
qed simp

function pattern_variants :: "string \<Rightarrow> string list" where
  "pattern_variants p = p # (case drop_level p of None \<Rightarrow> [] | Some q \<Rightarrow> pattern_variants q)"
  by pat_completeness auto
termination by (relation "measure length") (auto dest: drop_level_shorter)

declare pattern_variants.simps [simp del]

definition path_matches :: "string \<Rightarrow> string \<Rightarrow> bool" where
  "path_matches path pattern = list_ex (\<lambda>q. glob q path) (pattern_variants (posix_text pattern))"

definition sealed_tests :: "string list" where
  "sealed_tests = [''tests/evolution/conftest.py'', ''tests/evolution/test_evolution_core.py'', ''tests/evolution/test_sandbox.py'']"

definition is_sealed :: "string \<Rightarrow> bool" where
  "is_sealed path =
     (casefold path = ''evals/sealed'' \<or> starts_with (casefold path) ''evals/sealed/'' \<or> casefold path \<in> set sealed_tests)"

definition allowed_globs :: "governance_policy \<Rightarrow> string list" where
  "allowed_globs g = gp_low_risk g @ gp_generator g"

text \<open>The gate every path passes, of a plan, of a bundle and of the context the optimizer reads.\<close>

definition path_gate :: "governance_policy \<Rightarrow> string \<Rightarrow> (patch_fault, string) result" where
  "path_gate g raw =
     rbind (normalized_path raw) (\<lambda>path.
       demand (\<not> is_sealed path) (SealedPath path)
      (demand (\<not> list_ex (path_matches path) (gp_denied g)) (DeniedPath path)
      (demand (list_ex (path_matches path) (allowed_globs g)) (OutsideAllowlist path) (Inr path))))"

subsection \<open>Validation\<close>

definition hex_digest :: "nat \<Rightarrow> nat \<Rightarrow> string \<Rightarrow> bool" where
  "hex_digest lo hi s = (lo \<le> length s \<and> length s \<le> hi \<and> list_all (\<lambda>c. c \<in> set ''0123456789abcdef'') s)"

definition check_patch_plan :: "patch_plan \<Rightarrow> (patch_fault, unit) result" where
  "check_patch_plan p =
     demand (1 \<le> length (pn_candidate p) \<and> length (pn_candidate p) \<le> 128 \<and> 1 \<le> length (pn_changes p) \<and>
        length (pn_changes p) \<le> 100 \<and> 1 \<le> length (pn_preserved p) \<and> length (pn_preserved p) \<le> 128 \<and>
        list_all (\<lambda>c. 1 \<le> length (ch_path c) \<and> length (ch_path c) \<le> 500 \<and> ch_lines c \<le> 10000) (pn_changes p)) BadLength
    (demand (hex_digest 40 64 (pn_base p)) BadCommit
    (demand (distinct (map ch_path (pn_changes p))) RepeatedPath (Inr ())))"

definition check_file_patch :: "(string \<Rightarrow> string) \<Rightarrow> file_patch \<Rightarrow> (patch_fault, unit) result" where
  "check_file_patch sha f =
     demand (1 \<le> length (fp_path f) \<and> length (fp_path f) \<le> 500 \<and> length (fp_content f) \<le> 65536 \<and> hex_digest 64 64 (fp_hash f) \<and>
        (case fp_old f of None \<Rightarrow> True | Some h \<Rightarrow> hex_digest 64 64 h)) BadLength
    (rbind (normalized_path (fp_path f)) (\<lambda>path.
       demand (path = fp_path f) NotNormalized
      (demand (CHR 0x00 \<notin> set (fp_content f)) ContentNul
      (demand (utf8_length (fp_content f) \<le> 65536) FileTooLarge
      (demand (sha (fp_content f) = fp_hash f) WrongHash
      (demand (fp_operation f = CreateFile \<longrightarrow> fp_old f = None) UnexpectedOld
      (demand (fp_operation f = ReplaceFile \<longrightarrow> fp_old f \<noteq> None) MissingOld (Inr ()))))))))"

definition check_bundle :: "(string \<Rightarrow> string) \<Rightarrow> patch_bundle \<Rightarrow> (patch_fault, unit) result" where
  "check_bundle sha b =
     demand (1 \<le> length (pb_candidate b) \<and> length (pb_candidate b) \<le> 128 \<and> 1 \<le> length (pb_files b) \<and> length (pb_files b) \<le> 8) BadLength
    (demand (hex_digest 40 64 (pb_base b)) BadCommit
    (rbind (rmap (check_file_patch sha) (pb_files b)) (\<lambda>_.
       demand (distinct (map (\<lambda>f. casefold (fp_path f)) (pb_files b))) RepeatedPath
      (demand (sum_list (map (\<lambda>f. utf8_length (fp_content f)) (pb_files b)) \<le> 262144) BundleTooLarge (Inr ())))))"

definition check_patch_proposal :: "patch_plan \<Rightarrow> patch_bundle \<Rightarrow> (patch_fault, unit) result" where
  "check_patch_proposal p b =
     demand (pn_candidate p = pb_candidate b) CandidateMismatch
    (demand (pn_base p = pb_base b) CommitMismatch
    (demand (set (map (\<lambda>c. (ch_path c, ch_operation c)) (pn_changes p)) = set (map (\<lambda>f. (fp_path f, fp_operation f)) (pb_files b)))
       FilesDiffer (Inr ())))"

definition validate_patch_plan ::
  "patch_plan \<Rightarrow> evolution_target \<Rightarrow> harness_manifest \<Rightarrow> governance_policy \<Rightarrow> (patch_fault, unit) result" where
  "validate_patch_plan p c m g =
     demand (pn_candidate p = et_candidate c) CandidateMismatch
    (demand (et_base_manifest c = hm_digest m) ManifestMismatch
    (demand (pn_base p = hm_commit m) CommitMismatch
    (demand (length (pn_changes p) \<le> gp_max_files g) TooManyFiles
    (demand (sum_list (map ch_lines (pn_changes p)) \<le> gp_max_lines g) TooManyLines
    (let immutable = map iv_id (filter (\<lambda>i. \<not> iv_mutable i) (gp_invariants g)) in
     demand (set immutable \<subseteq> set (pn_preserved p))
       (InvariantsDropped (sort (remdups (filter (\<lambda>i. i \<notin> set (pn_preserved p)) immutable))))
    (rbind (rmap (\<lambda>ch. path_gate g (ch_path ch)) (pn_changes p)) (\<lambda>_.
       demand (\<not> gp_merge g) AutomaticMerge
      (demand (\<not> gp_promotion g) AutomaticPromotion (Inr ())))))))))"

definition validate_patch_bundle :: "patch_bundle \<Rightarrow> patch_plan \<Rightarrow> governance_policy \<Rightarrow> (patch_fault, unit) result" where
  "validate_patch_bundle b p g =
     rbind (check_patch_proposal p b) (\<lambda>_.
       demand (length (pb_files b) \<le> gp_max_files g) TooManyFiles
      (rbind (rmap (\<lambda>f. path_gate g (fp_path f)) (pb_files b)) (\<lambda>_. Inr ())))"

text \<open>What a proposal of the model goes through before it may be applied.\<close>

definition accept_proposal ::
  "(string \<Rightarrow> string) \<Rightarrow> evolution_target \<Rightarrow> harness_manifest \<Rightarrow> governance_policy \<Rightarrow> patch_plan \<Rightarrow> patch_bundle \<Rightarrow>
     (patch_fault, unit) result" where
  "accept_proposal sha c m g p b =
     rbind (check_patch_plan p) (\<lambda>_. rbind (check_bundle sha b) (\<lambda>_. rbind (check_patch_proposal p b) (\<lambda>_.
       rbind (validate_patch_plan p c m g) (\<lambda>_. validate_patch_bundle b p g))))"

subsection \<open>Normal paths\<close>

lemma rmap_each: "rmap f xs = Inr ys \<Longrightarrow> x \<in> set xs \<Longrightarrow> \<exists>y. f x = Inr y"
  by (induction xs arbitrary: ys) (auto simp: result_simps)

lemma split_on_word: "c \<notin> set w \<Longrightarrow> split_on c (w @ c # r) = w # split_on c r"
  by (induction w) auto

lemma split_on_parts: "w \<in> set (split_on c s) \<Longrightarrow> c \<notin> set w \<and> set w \<subseteq> set s"
proof (induction s arbitrary: w)
  case (Cons x xs)
  show ?case
  proof (cases "x = c")
    case True
    then show ?thesis using Cons by fastforce
  next
    case False
    then show ?thesis using Cons by (cases "split_on c xs") fastforce+
  qed
qed simp

lemma split_on_join:
  "ws \<noteq> [] \<Longrightarrow> (\<And>w. w \<in> set ws \<Longrightarrow> c \<notin> set w) \<Longrightarrow> split_on c (py_join [c] ws) = ws"
proof (induction "[c]" ws rule: py_join.induct)
  case (2 x)
  then show ?case by (simp add: split_on_name)
next
  case (3 x y xs)
  then show ?case using split_on_word[of c x "py_join [c] (y # xs)"] by simp
qed simp

lemma join_chars: "set (py_join sep ws) \<subseteq> (\<Union>w\<in>set ws. set w) \<union> set sep"
  by (induction sep ws rule: py_join.induct) auto

lemma parts_of_join:
  "(\<And>w. w \<in> set ws \<Longrightarrow> w \<noteq> [] \<and> w \<noteq> ''.'' \<and> CHR ''/'' \<notin> set w) \<Longrightarrow> relative_parts (py_join ''/'' ws) = ws"
  by (cases "ws = []") (auto simp: relative_parts_def split_on_join intro!: filter_True)

lemma posix_text_plain: "CHR 0x5C \<notin> set (posix_text s)"
  by (auto simp: posix_text_def)

lemma strip_chars: "set (py_strip s) \<subseteq> set s"
  by (auto simp: py_strip_def dest!: set_dropWhileD)

lemma relative_part:
  assumes "w \<in> set (relative_parts s)"
  shows "w \<noteq> []" "w \<noteq> ''.''" "CHR ''/'' \<notin> set w" "set w \<subseteq> set s"
  using assms split_on_parts[of w "CHR ''/''" s] by (auto simp: relative_parts_def)

text \<open>What the normal form of a path is like, and that its parts are the safe ones.\<close>

lemma normalized_parts:
  assumes "normalized_path raw = Inr p"
  shows "\<forall>w\<in>set (relative_parts p). \<not> unsafe_segment w" and "CHR 0x5C \<notin> set p" and "CHR '':'' \<notin> set p" and "CHR 0x00 \<notin> set p"
proof -
  define s where "s = py_strip (posix_text raw)"
  have p: "p = py_join ''/'' (relative_parts s)" and safe: "\<not> list_ex unsafe_segment (relative_parts s)"
    and plain: "CHR '':'' \<notin> set s" "CHR 0x00 \<notin> set s"
    using assms by (auto simp: normalized_path_def Let_def s_def split: if_splits)
  have parts: "relative_parts p = relative_parts s" unfolding p by (rule parts_of_join) (use relative_part[of _ s] in blast)
  have chars: "set p \<subseteq> set s \<union> {CHR ''/''}"
    using join_chars[of "''/''" "relative_parts s"] relative_part(4)[of _ s] unfolding p by fastforce
  show "\<forall>w\<in>set (relative_parts p). \<not> unsafe_segment w" using safe by (simp add: parts list_ex_iff)
  have "CHR 0x5C \<notin> set s" using posix_text_plain[of raw] strip_chars[of "posix_text raw"] by (auto simp: s_def)
  then show "CHR 0x5C \<notin> set p" "CHR '':'' \<notin> set p" "CHR 0x00 \<notin> set p" using chars plain by auto
qed

lemma normalized_relative: "normalized_path p = Inr p \<Longrightarrow> \<not> is_absolute p"
proof -
  assume n: "normalized_path p = Inr p"
  define s where "s = py_strip (posix_text p)"
  have p: "p = py_join ''/'' (relative_parts s)" using n by (auto simp: normalized_path_def Let_def s_def split: if_splits)
  show ?thesis
  proof (cases "relative_parts s")
    case Nil
    then show ?thesis using p by (simp add: is_absolute_def starts_with_def)
  next
    case (Cons w ws)
    then obtain c w' where w: "w = c # w'" "c \<noteq> CHR ''/''" using relative_part[of w s] by (cases w) auto
    then have "\<exists>r. p = c # r" using p Cons by (cases ws) auto
    then show ?thesis using w by (auto simp: is_absolute_def starts_with_def)
  qed
qed

lemma gate_path: "path_gate g raw = Inr p \<longleftrightarrow> normalized_path raw = Inr p \<and> \<not> is_sealed p \<and>
    (\<forall>d\<in>set (gp_denied g). \<not> path_matches p d) \<and> (\<exists>a\<in>set (allowed_globs g). path_matches p a)"
  by (auto simp: path_gate_def result_simps list_ex_iff)

text \<open>
  C28: An accepted proposal stays inside the policy: it is pinned to the candidate and the
  commit of the harness, preserves every immutable invariant, changes at most the permitted number of
  files, and every file it writes is one the plan names with the same operation, has the announced
  digest, and lies at a normal relative path that no step leaves upwards, that is neither sealed nor
  denied, and that the allowlist names.
\<close>

theorem proposal_confined:
  assumes ok: "accept_proposal sha c m g p b = Inr ()" and f: "f \<in> set (pb_files b)"
  shows "pb_candidate b = et_candidate c \<and> pb_base b = hm_commit m \<and> length (pb_files b) \<le> gp_max_files g \<and>
    (\<forall>i\<in>set (gp_invariants g). \<not> iv_mutable i \<longrightarrow> iv_id i \<in> set (pn_preserved p)) \<and>
    (\<exists>ch\<in>set (pn_changes p). ch_path ch = fp_path f \<and> ch_operation ch = fp_operation f) \<and> sha (fp_content f) = fp_hash f \<and>
    \<not> is_absolute (fp_path f) \<and> CHR 0x5C \<notin> set (fp_path f) \<and> CHR '':'' \<notin> set (fp_path f) \<and>
    (\<forall>root k. walk root (take k (relative_parts (fp_path f))) = root @ take k (relative_parts (fp_path f))) \<and>
    \<not> is_sealed (fp_path f) \<and> (\<forall>d\<in>set (gp_denied g). \<not> path_matches (fp_path f) d) \<and>
    (\<exists>a\<in>set (allowed_globs g). path_matches (fp_path f) a)"
proof -
  have whole: "check_bundle sha b = Inr ()" and agree: "check_patch_proposal p b = Inr ()"
    and plan: "validate_patch_plan p c m g = Inr ()" and files: "validate_patch_bundle b p g = Inr ()"
    using ok by (auto simp: accept_proposal_def result_simps)
  have pins: "pb_candidate b = et_candidate c" "pb_base b = hm_commit m"
    using plan agree by (auto simp: validate_patch_plan_def check_patch_proposal_def result_simps Let_def)
  have immutable: "\<forall>i\<in>set (gp_invariants g). \<not> iv_mutable i \<longrightarrow> iv_id i \<in> set (pn_preserved p)"
    using plan by (auto simp: validate_patch_plan_def result_simps Let_def)
  have "(fp_path f, fp_operation f) \<in> set (map (\<lambda>c. (ch_path c, ch_operation c)) (pn_changes p))"
    using agree f by (auto simp: check_patch_proposal_def result_simps)
  then have named: "\<exists>ch\<in>set (pn_changes p). ch_path ch = fp_path f \<and> ch_operation ch = fp_operation f" by fastforce
  have "check_file_patch sha f = Inr ()" using whole f rmap_each[of "check_file_patch sha"] by (fastforce simp: check_bundle_def result_simps)
  then have normal: "normalized_path (fp_path f) = Inr (fp_path f)" and hash: "sha (fp_content f) = fp_hash f"
    by (auto simp: check_file_patch_def result_simps)
  obtain q where "path_gate g (fp_path f) = Inr q"
    using files f rmap_each[of "\<lambda>f. path_gate g (fp_path f)"] by (fastforce simp: validate_patch_bundle_def result_simps)
  then have gate: "\<not> is_sealed (fp_path f)" "\<forall>d\<in>set (gp_denied g). \<not> path_matches (fp_path f) d"
    "\<exists>a\<in>set (allowed_globs g). path_matches (fp_path f) a"
    using normal by (auto simp: gate_path)
  have "''..'' \<notin> set (relative_parts (fp_path f))" using normalized_parts(1)[OF normal] by (auto simp: unsafe_segment_def)
  then have down: "walk root (take k (relative_parts (fp_path f))) = root @ take k (relative_parts (fp_path f))" for root k
    by (intro walk_down) (auto dest: in_set_takeD)
  have "length (pb_files b) \<le> gp_max_files g" using files by (auto simp: validate_patch_bundle_def result_simps)
  then show ?thesis
    using pins immutable named hash gate down normalized_relative[OF normal] normalized_parts(2,3)[OF normal] by simp
qed

text \<open>The policy of the repository, \<^verbatim>\<open>config/harness/invariants.v1.json\<close>, in part, and a proposal of one file.\<close>

definition sample_policy :: governance_policy where
  "sample_policy = \<lparr>gp_invariants = [\<lparr>iv_id = ''release-truth'', iv_mutable = False\<rparr>],
     gp_low_risk = [''src/agents/ratsnestpro/profiles/*.json'', ''docs/**/*.md''], gp_generator = [],
     gp_denied = [''evals/sealed/**'', ''**/.env'', ''**/*secret*''], gp_max_files = 8, gp_max_lines = 500,
     gp_merge = False, gp_promotion = False\<rparr>"

definition sample_patch :: "string \<Rightarrow> patch_plan" where
  "sample_patch path = \<lparr>pn_candidate = ''c1'', pn_base = replicate 40 (CHR ''0''),
     pn_changes = [\<lparr>ch_operation = CreateFile, ch_path = path, ch_lines = 3\<rparr>], pn_preserved = [''release-truth'']\<rparr>"

definition sample_bundle :: "string \<Rightarrow> patch_bundle" where
  "sample_bundle path = \<lparr>pb_candidate = ''c1'', pb_base = replicate 40 (CHR ''0''),
     pb_files = [\<lparr>fp_operation = CreateFile, fp_path = path, fp_old = None, fp_hash = replicate 64 (CHR ''a''), fp_content = ''# text''\<rparr>]\<rparr>"

definition sample_verdict :: "string \<Rightarrow> (patch_fault, unit) result" where
  "sample_verdict path = accept_proposal (\<lambda>_. replicate 64 (CHR ''a'')) \<lparr>et_candidate = ''c1'', et_base_manifest = ''m''\<rparr>
     \<lparr>hm_commit = replicate 40 (CHR ''0''), hm_digest = ''m''\<rparr> sample_policy (sample_patch path) (sample_bundle path)"

lemma proposal_confined_witness:
  "\<not> is_sealed ''docs/a/b.md'' \<and> walk [''repo''] [''docs'', ''a''] = [''repo'', ''docs'', ''a'']"
proof -
  have ok: "sample_verdict ''docs/a/b.md'' = Inr ()" by code_simp
  have parts: "relative_parts ''docs/a/b.md'' = [''docs'', ''a'', ''b.md'']" by code_simp
  obtain f where f: "f \<in> set (pb_files (sample_bundle ''docs/a/b.md''))" "fp_path f = ''docs/a/b.md''"
    by (auto simp: sample_bundle_def)
  have "walk [''repo''] (take 2 (relative_parts (fp_path f))) = [''repo''] @ take 2 (relative_parts (fp_path f)) \<and> \<not> is_sealed (fp_path f)"
    using proposal_confined[OF ok[unfolded sample_verdict_def] f(1)] by blast
  then show ?thesis by (simp add: f(2) parts eval_nat_numeral)
qed

text \<open>Denied patterns distinguish case, so a name the policy means to deny passes in capitals.\<close>

lemma denial_is_case_sensitive:
  "sample_verdict ''docs/secret.md'' = Inl (DeniedPath ''docs/secret.md'') \<and> sample_verdict ''docs/SECRET.md'' = Inr ()"
  by code_simp

end
