(* ===== verification/Decisions.thy ===== *)
theory Decisions
  imports PatchGovernance "HOL-Library.List_Lexorder" "HOL-Library.Char_ord"
begin

text \<open>
  The questions a design leaves to its user and their answers,
  \<^verbatim>\<open>src/src/agents/ratsnestpro/decision_engine.py\<close>: which questions are open, the check of a structured
  answer against the questions that were offered, and the answers written into the requirement as
  lines. Decoding of the JSON text is an argument (the envelope, or nothing when it is not valid), and so
  are the table of gaps, its specialisation and the tests of a requirement. The texts shown are the
  English ones; the checks of the data model on lengths and patterns are not modelled.
\<close>

subsection \<open>Decisions and answers\<close>

record decision_option =
  do_key :: string
  do_label :: string
  do_value :: string
  do_basis :: string
  do_free :: bool

record open_decision =
  od_slot :: string
  od_kind :: string
  od_question :: string
  od_options :: "decision_option list"
  od_recommended :: string
  od_citation :: string

record decision_answer =
  da_slot :: string
  da_key :: string
  da_text :: string

record resolution =
  rs_slot :: string
  rs_kind :: string
  rs_key :: string
  rs_label :: string
  rs_text :: string
  rs_citation :: string

datatype answer_fault =
    NotStructured | UnsupportedSchema | AnsweredTwice string | NotOffered string | Incomplete "string list"
  | OptionNotOffered string string | TextRequired string

definition answer_schema :: string where
  "answer_schema = ''ratsnest.decision-answer.v1''"

definition find_option :: "open_decision \<Rightarrow> string \<Rightarrow> decision_option option" where
  "find_option d key = find (\<lambda>o'. do_key o' = py_upper (py_strip key)) (od_options d)"

definition offered_slots :: "open_decision list \<Rightarrow> string list" where
  "offered_slots ds = map od_slot ds"

text \<open>The loop over the answers: each slot is offered and answered once.\<close>

definition receive_answer ::
  "open_decision list \<Rightarrow> (string, decision_answer) dict \<Rightarrow> decision_answer \<Rightarrow> (answer_fault, (string, decision_answer) dict) result" where
  "receive_answer ds received a =
     demand (dget received (da_slot a) = None) (AnsweredTwice (da_slot a))
    (demand (da_slot a \<in> set (offered_slots ds)) (NotOffered (da_slot a)) (Inr (dset (da_slot a) a received)))"

definition resolve_one :: "(string, decision_answer) dict \<Rightarrow> open_decision \<Rightarrow> (answer_fault, resolution) result" where
  "resolve_one received d =
     (case dget received (od_slot d) of
        None \<Rightarrow> Inl (Incomplete [od_slot d])
      | Some a \<Rightarrow>
          (case find_option d (da_key a) of
             None \<Rightarrow> Inl (OptionNotOffered (da_key a) (od_slot d))
           | Some opt \<Rightarrow>
               (let text = py_strip (da_text a) in
                demand (\<not> (do_free opt \<and> text = [])) (TextRequired (od_slot d))
                  (Inr \<lparr>rs_slot = od_slot d, rs_kind = od_kind d, rs_key = do_key opt, rs_label = do_label opt,
                    rs_text = (if do_free opt then ''For '' @ od_slot d @ '', the user supplied: '' @ text else do_value opt),
                    rs_citation = (if do_basis opt \<noteq> [] then do_basis opt else od_citation d)\<rparr>))))"

text \<open>The envelope is what the JSON text decodes to, or nothing when it is no valid envelope.\<close>

definition parse_resolutions ::
  "(string \<times> decision_answer list) option \<Rightarrow> open_decision list \<Rightarrow> (answer_fault, resolution list) result" where
  "parse_resolutions envelope ds =
     (case envelope of
        None \<Rightarrow> Inl NotStructured
      | Some (schema, answers) \<Rightarrow>
          demand (schema = answer_schema) UnsupportedSchema
         (rbind (rfold (receive_answer ds) [] answers) (\<lambda>received.
            let missing = filter (\<lambda>s. dget received s = None) (offered_slots ds) in
            demand (missing = []) (Incomplete missing) (rmap (resolve_one received) ds))))"

subsection \<open>Which questions are open\<close>

text \<open>
  A gap of a requirement. Its tokens and patterns contain characters outside the modelled set, so the
  tests of the requirement are functions here, and the table of gaps is an argument.
\<close>

record requirement_gap =
  ga_slot :: string
  ga_question :: string
  ga_assumed :: string
  ga_alternatives :: "string list"
  ga_basis :: string
  ga_relevant :: "string \<Rightarrow> bool"
  ga_stated :: "string \<Rightarrow> bool"

definition accepts_resolution ::
  "requirement_gap list \<Rightarrow> (requirement_gap \<Rightarrow> string \<Rightarrow> requirement_gap option) \<Rightarrow> string \<Rightarrow> string \<Rightarrow> bool" where
  "accepts_resolution gaps specialize requirement slot =
     (case find (\<lambda>g. ga_slot g = slot) gaps of
        None \<Rightarrow> True
      | Some base \<Rightarrow>
          (case specialize base (casefold requirement) of
             None \<Rightarrow> False
           | Some g \<Rightarrow> ga_relevant g (casefold requirement) \<and> \<not> ga_stated g (casefold requirement)))"

definition applicable_decisions ::
  "(string \<Rightarrow> string \<Rightarrow> bool) \<Rightarrow> string \<Rightarrow> open_decision list \<Rightarrow> open_decision list" where
  "applicable_decisions accepts requirement ds = filter (\<lambda>d. accepts requirement (od_slot d)) ds"

definition option_key :: "nat \<Rightarrow> string" where
  "option_key i = [char_of (65 + i)]"

definition confirmed :: "string \<Rightarrow> string \<Rightarrow> string" where
  "confirmed slot choice = ''For '' @ slot @ '', the user confirmed: '' @ choice @ ''. Use exactly this and do not substitute it.''"

definition gap_options :: "requirement_gap \<Rightarrow> decision_option list" where
  "gap_options g =
     (let choices = ga_assumed g # take 4 (ga_alternatives g) in
      map (\<lambda>(i, x). \<lparr>do_key = option_key i, do_label = ''Use '' @ x, do_value = confirmed (ga_slot g) x, do_basis = ga_basis g,
             do_free = False\<rparr>) (enumerate 0 choices) @
      [\<lparr>do_key = option_key (length choices), do_label = ''Use a custom value'', do_value = [], do_basis = ''user supplied'',
        do_free = True\<rparr>])"

definition gap_decision :: "requirement_gap \<Rightarrow> open_decision" where
  "gap_decision g = \<lparr>od_slot = ga_slot g, od_kind = ''assumption'', od_question = ga_question g, od_options = gap_options g,
     od_recommended = ''A'', od_citation = ga_basis g\<rparr>"

fun raise_gaps ::
  "(requirement_gap \<Rightarrow> string \<Rightarrow> requirement_gap option) \<Rightarrow> string set \<Rightarrow> nat \<Rightarrow> string \<Rightarrow> requirement_gap list \<Rightarrow>
     open_decision list \<Rightarrow> open_decision list" where
  "raise_gaps specialize settled limit lowered [] ds = ds"
| "raise_gaps specialize settled limit lowered (base # gaps) ds =
     (if length ds \<ge> limit then ds
      else (case specialize base lowered of
          None \<Rightarrow> raise_gaps specialize settled limit lowered gaps ds
        | Some g \<Rightarrow>
            if ga_slot g \<in> settled \<or> \<not> ga_relevant g lowered \<or> ga_stated g lowered
            then raise_gaps specialize settled limit lowered gaps ds
            else raise_gaps specialize settled limit lowered gaps (ds @ [gap_decision g])))"

definition design_decisions ::
  "requirement_gap list \<Rightarrow> (requirement_gap \<Rightarrow> string \<Rightarrow> requirement_gap option) \<Rightarrow> string set \<Rightarrow> nat \<Rightarrow> string \<Rightarrow> open_decision list" where
  "design_decisions gaps specialize settled limit requirement =
     (if py_strip (casefold requirement) = [] then []
      else raise_gaps specialize settled limit (casefold requirement) gaps [])"

subsection \<open>Answers in the requirement\<close>

definition line_break :: "char \<Rightarrow> bool" where
  "line_break c = ((of_char c :: nat) \<in> {10, 11, 12, 13, 28, 29, 30, 133})"

text \<open>\<^verbatim>\<open>str.splitlines\<close>\<close>

function py_splitlines :: "string \<Rightarrow> string list" where
  "py_splitlines [] = []"
| "py_splitlines (c # s) =
     (if line_break c then [] # py_splitlines (if c = CHR 0x0D \<and> starts_with s [CHR 0x0A] then tl s else s)
      else (case py_splitlines s of [] \<Rightarrow> [[c]] | l # ls \<Rightarrow> (c # l) # ls))"
  by pat_completeness auto
termination by (relation "measure length") auto

definition py_rstrip :: "string \<Rightarrow> string" where
  "py_rstrip s = rev (dropWhile py_space (rev s))"

definition line_feed :: string where
  "line_feed = [CHR 0x0A]"

definition is_decision_line :: "string \<Rightarrow> bool" where
  "is_decision_line line = starts_with (dropWhile py_space line) ''DECISION:''"

definition base_requirement :: "string \<Rightarrow> string" where
  "base_requirement requirement =
     py_rstrip (py_join line_feed (filter (\<lambda>l. \<not> is_decision_line l) (py_splitlines requirement)))"

definition merge_resolutions :: "resolution list \<Rightarrow> resolution list \<Rightarrow> resolution list" where
  "merge_resolutions carried fresh =
     map snd (foldl (\<lambda>d r. dset (rs_slot r) r d) [] (filter (\<lambda>r. rs_slot r \<noteq> []) (carried @ fresh)))"

text \<open>The dash of a decision line is a character outside the modelled set: an argument.\<close>

definition decision_line :: "string \<Rightarrow> resolution \<Rightarrow> string" where
  "decision_line dash r = ''DECISION: '' @ rs_slot r @ ''='' @ rs_key r @ dash @ rs_text r"

definition apply_resolutions ::
  "(string \<Rightarrow> string \<Rightarrow> bool) \<Rightarrow> string \<Rightarrow> string \<Rightarrow> resolution list \<Rightarrow> (string list, string) result" where
  "apply_resolutions accepts dash requirement resolved =
     (let stale = filter (\<lambda>s. s \<noteq> [] \<and> \<not> accepts requirement s) (map rs_slot resolved);
          lines = map (decision_line dash) (filter (\<lambda>r. rs_text r \<noteq> []) resolved)
      in demand (stale = []) (sort (remdups stale))
           (Inr (if lines = [] then requirement else py_rstrip requirement @ line_feed @ py_join line_feed lines)))"

definition reconcile_resolutions ::
  "(string \<Rightarrow> string \<Rightarrow> bool) \<Rightarrow> string \<Rightarrow> string \<Rightarrow> resolution list \<Rightarrow> (string list, string \<times> resolution list) result" where
  "reconcile_resolutions accepts dash requirement carried =
     (let base = base_requirement requirement;
          valid = filter (\<lambda>r. rs_slot r \<noteq> [] \<and> accepts base (rs_slot r)) carried
      in rbind (apply_resolutions accepts dash base valid) (\<lambda>text. Inr (text, valid)))"

subsection \<open>Every offered question gets one offered answer\<close>

lemma receive_answers:
  "rfold (receive_answer ds) received answers = Inr d \<Longrightarrow>
     distinct (map da_slot answers) \<and> set (map da_slot answers) \<subseteq> set (offered_slots ds) \<and>
     set (map da_slot answers) \<inter> dom (dget received) = {} \<and>
     dget d = (\<lambda>s. case find (\<lambda>a. da_slot a = s) answers of None \<Rightarrow> dget received s | Some a \<Rightarrow> Some a)"
proof (induction answers arbitrary: received)
  case (Cons a as)
  have first: "dget received (da_slot a) = None" "da_slot a \<in> set (offered_slots ds)"
    and rest: "rfold (receive_answer ds) (dset (da_slot a) a received) as = Inr d"
    using Cons.prems by (auto simp: receive_answer_def[of ds received a] result_simps)
  note ih = Cons.IH[OF rest]
  have new: "da_slot a \<notin> set (map da_slot as)" using ih by (auto simp: dict_simps)
  have "find (\<lambda>x. da_slot x = da_slot a) as = None" unfolding find_None_iff using new by (metis image_eqI list.set_map)
  then show ?case using ih first new by (auto simp: dict_simps fun_eq_iff split: option.splits)
qed auto

lemma resolve_one_Inr:
  assumes "resolve_one received d = Inr r"
  obtains a opt where "dget received (od_slot d) = Some a" and "opt \<in> set (od_options d)"
    and "do_key opt = py_upper (py_strip (da_key a))" and "rs_slot r = od_slot d" and "rs_key r = do_key opt"
    and "if do_free opt then py_strip (da_text a) \<noteq> [] \<and>
        rs_text r = ''For '' @ od_slot d @ '', the user supplied: '' @ py_strip (da_text a) else rs_text r = do_value opt"
proof -
  obtain a where a: "dget received (od_slot d) = Some a" using assms by (auto simp: resolve_one_def split: option.splits)
  obtain opt where opt: "find_option d (da_key a) = Some opt" using assms a by (auto simp: resolve_one_def split: option.splits)
  have "opt \<in> set (od_options d)" "do_key opt = py_upper (py_strip (da_key a))"
    using opt by (auto simp: find_option_def find_Some_iff)
  moreover have "rs_slot r = od_slot d" "rs_key r = do_key opt"
    "if do_free opt then py_strip (da_text a) \<noteq> [] \<and>
        rs_text r = ''For '' @ od_slot d @ '', the user supplied: '' @ py_strip (da_text a) else rs_text r = do_value opt"
    using assms a opt by (auto simp: resolve_one_def Let_def result_simps)
  ultimately show ?thesis using that a by blast
qed

text \<open>
  C37: An accepted answer settles exactly the offered decisions: each slot is answered once and
  no other, the resolutions come in the order of the decisions, and each takes an option that was
  offered for its slot, with the option's own value, or with a custom text that is not empty where
  the option asks for one.
\<close>

theorem answers_exact:
  assumes "parse_resolutions (Some (schema, answers)) ds = Inr out"
  shows "schema = answer_schema \<and> distinct (map da_slot answers) \<and> set (map da_slot answers) = set (offered_slots ds) \<and>
    list_all2 (\<lambda>d r. rs_slot r = od_slot d \<and>
      (\<exists>a\<in>set answers. \<exists>opt\<in>set (od_options d). da_slot a = od_slot d \<and> do_key opt = py_upper (py_strip (da_key a)) \<and>
        rs_key r = do_key opt \<and>
        (if do_free opt then py_strip (da_text a) \<noteq> [] \<and>
           rs_text r = ''For '' @ od_slot d @ '', the user supplied: '' @ py_strip (da_text a) else rs_text r = do_value opt))) ds out"
proof -
  obtain received where rec: "rfold (receive_answer ds) [] answers = Inr received"
    and none: "filter (\<lambda>s. dget received s = None) (offered_slots ds) = []"
    and out: "rmap (resolve_one received) ds = Inr out" and schema: "schema = answer_schema"
    using assms by (auto simp: parse_resolutions_def result_simps Let_def)
  note got = receive_answers[OF rec]
  have slot: "a \<in> set answers \<and> da_slot a = s" if "dget received s = Some a" for s a
    using got that by (auto simp: find_Some_iff split: option.splits)
  have "set (offered_slots ds) \<subseteq> set (map da_slot answers)"
  proof
    fix s assume "s \<in> set (offered_slots ds)"
    then obtain a where "dget received s = Some a" using none by (auto simp: filter_empty_conv)
    then show "s \<in> set (map da_slot answers)" using slot by force
  qed
  moreover have "list_all2 (\<lambda>d r. rs_slot r = od_slot d \<and>
      (\<exists>a\<in>set answers. \<exists>opt\<in>set (od_options d). da_slot a = od_slot d \<and> do_key opt = py_upper (py_strip (da_key a)) \<and>
        rs_key r = do_key opt \<and>
        (if do_free opt then py_strip (da_text a) \<noteq> [] \<and>
           rs_text r = ''For '' @ od_slot d @ '', the user supplied: '' @ py_strip (da_text a) else rs_text r = do_value opt))) ds out"
    using rmap_all2[OF out]
  proof (rule list_all2_mono)
    fix d r assume "resolve_one received d = Inr r"
    then show "rs_slot r = od_slot d \<and>
      (\<exists>a\<in>set answers. \<exists>opt\<in>set (od_options d). da_slot a = od_slot d \<and> do_key opt = py_upper (py_strip (da_key a)) \<and>
        rs_key r = do_key opt \<and>
        (if do_free opt then py_strip (da_text a) \<noteq> [] \<and>
           rs_text r = ''For '' @ od_slot d @ '', the user supplied: '' @ py_strip (da_text a) else rs_text r = do_value opt))"
      by (rule resolve_one_Inr) (use slot in blast)
  qed
  ultimately show ?thesis using got schema by blast
qed

definition sample_decision :: open_decision where
  "sample_decision = \<lparr>od_slot = ''mounting'', od_kind = ''assumption'', od_question = ''Mounting?'',
     od_options = [\<lparr>do_key = ''A'', do_label = ''Use holes'', do_value = ''four holes'', do_basis = [], do_free = False\<rparr>,
       \<lparr>do_key = ''B'', do_label = ''Custom'', do_value = [], do_basis = [], do_free = True\<rparr>],
     od_recommended = ''A'', od_citation = ''usual''\<rparr>"

lemma answers_exact_witness:
  "\<exists>out. parse_resolutions (Some (answer_schema, [\<lparr>da_slot = ''mounting'', da_key = '' b '', da_text = ''clip''\<rparr>])) [sample_decision]
       = Inr out \<and> map rs_slot out = [''mounting'']"
proof -
  let ?a = "\<lparr>da_slot = ''mounting'', da_key = '' b '', da_text = ''clip''\<rparr>"
  have "isl (parse_resolutions (Some (answer_schema, [?a])) [sample_decision]) = False" by code_simp
  then obtain out where out: "parse_resolutions (Some (answer_schema, [?a])) [sample_decision] = Inr out"
    by (metis sum.collapse(2))
  have "list_all2 (\<lambda>d r. rs_slot r = od_slot d) [sample_decision] out"
    using answers_exact[OF out] by (elim conjE) (erule list_all2_mono, blast)
  moreover have "od_slot sample_decision = ''mounting''" by (simp add: sample_decision_def)
  ultimately have "map rs_slot out = [''mounting'']" by (auto simp: list_all2_Cons1)
  then show ?thesis by (intro exI[of _ out] conjI out)
qed

subsection \<open>Lines\<close>

definition lf_only :: "string \<Rightarrow> bool" where
  "lf_only s = (\<forall>c\<in>set s. line_break c \<longrightarrow> c = CHR 0x0A)"

definition unbroken :: "string \<Rightarrow> bool" where
  "unbroken s = (\<forall>c\<in>set s. \<not> line_break c)"

lemma lf_breaks [simp]: "line_break (CHR 0x0A)" "py_space (CHR 0x0A)"
  by (simp_all add: line_break_def py_space_def)

lemma lf_only_Cons [simp]: "lf_only (c # s) \<longleftrightarrow> (line_break c \<longrightarrow> c = CHR 0x0A) \<and> lf_only s"
  by (simp add: lf_only_def)

lemma splitlines_unbroken: "l \<in> set (py_splitlines s) \<Longrightarrow> unbroken l"
proof (induction s arbitrary: l rule: py_splitlines.induct)
  case (2 c s)
  show ?case
  proof (cases "line_break c")
    case True
    then show ?thesis using 2(1)[OF True] 2(3) by (auto simp: unbroken_def)
  next
    case False
    show ?thesis
    proof (cases "py_splitlines s")
      case (Cons l' ls)
      have "unbroken l'" "\<forall>x\<in>set ls. unbroken x" using 2(2)[OF False] Cons by auto
      then show ?thesis using 2(3) False Cons by (auto simp: unbroken_def)
    qed (use 2(3) False in \<open>simp add: unbroken_def\<close>)
  qed
qed simp

lemma splitlines_Nil [simp]: "py_splitlines s = [] \<longleftrightarrow> s = []"
  by (cases s) (auto split: list.split)

lemma splitlines_lf: "lf_only b \<Longrightarrow> py_splitlines (b @ CHR 0x0A # s) = py_splitlines (b @ [CHR 0x0A]) @ py_splitlines s"
proof (induction b)
  case (Cons c b)
  have ne: "py_splitlines (b @ [CHR 0x0A]) \<noteq> []" by simp
  show ?case
  proof (cases "line_break c")
    case True
    then show ?thesis using Cons by simp
  next
    case False
    then show ?thesis using Cons ne by (simp split: list.split)
  qed
qed simp

lemma splitlines_line: "unbroken l \<Longrightarrow> l \<noteq> [] \<Longrightarrow> py_splitlines l = [l]"
proof (induction l)
  case (Cons c l)
  then show ?case by (cases l) (auto simp: unbroken_def)
qed simp

lemma splitlines_join:
  "(\<And>l. l \<in> set ls \<Longrightarrow> unbroken l \<and> l \<noteq> []) \<Longrightarrow> py_splitlines (py_join [CHR 0x0A] ls) = ls"
proof (induction "[CHR 0x0A]" ls rule: py_join.induct)
  case (2 x)
  then show ?case by (simp add: splitlines_line)
next
  case (3 x y xs)
  have x: "unbroken x" "x \<noteq> []" using 3(2) by auto
  have "py_splitlines (x @ [CHR 0x0A]) = [x]"
    using x
  proof (induction x)
    case (Cons c x)
    then show ?case by (cases x) (auto simp: unbroken_def)
  qed simp
  moreover have "lf_only x" using x by (auto simp: unbroken_def lf_only_def)
  ultimately show ?case using splitlines_lf[of x "py_join [CHR 0x0A] (y # xs)"] 3 by simp
qed simp

lemma join_splitlines:
  "lf_only b \<Longrightarrow> b = [] \<or> last b \<noteq> CHR 0x0A \<Longrightarrow> py_join [CHR 0x0A] (py_splitlines b) = b"
proof (induction b)
  case (Cons c b)
  show ?case
  proof (cases "b = []")
    case True
    then show ?thesis using Cons.prems by auto
  next
    case b: False
    then have ih: "py_join [CHR 0x0A] (py_splitlines b) = b" using Cons by auto
    obtain l ls where ls: "py_splitlines b = l # ls" using b by (metis list.exhaust splitlines_Nil)
    show ?thesis using ih ls Cons.prems by (cases ls) auto
  qed
qed simp

lemma rstrip_prefix: "\<exists>t. s = py_rstrip s @ t"
proof -
  have "rev s = takeWhile py_space (rev s) @ dropWhile py_space (rev s)" by simp
  then show ?thesis unfolding py_rstrip_def by (metis rev_append rev_rev_ident)
qed

lemma rstrip_idem [simp]: "py_rstrip (py_rstrip s) = py_rstrip s"
  by (simp add: py_rstrip_def)

lemma rstrip_last: "py_rstrip s = [] \<or> \<not> py_space (last (py_rstrip s))"
  by (metis hd_dropWhile last_rev py_rstrip_def rev_is_Nil_conv)

lemma decision_some: "is_decision_line l \<Longrightarrow> dropWhile py_space l \<noteq> [] \<and> l \<noteq> []"
  by (cases "dropWhile py_space l = []") (auto simp: is_decision_line_def starts_with_def)

lemma starts_with_longer: "starts_with s p \<Longrightarrow> starts_with (s @ t) p"
  unfolding starts_with_def by (metis append_eq_appendI append_take_drop_id append_eq_conv_conj)

lemma decision_prefix: "is_decision_line l \<Longrightarrow> is_decision_line (l @ t)"
proof -
  assume d: "is_decision_line l"
  have some: "dropWhile py_space l \<noteq> []" using decision_some[OF d] by simp
  then have "dropWhile py_space (l @ t) = dropWhile py_space l @ t" by (metis dropWhile_append1 dropWhile_eq_Nil_conv)
  then show "is_decision_line (l @ t)" using d starts_with_longer by (simp only: is_decision_line_def)
qed

text \<open>The lines of a beginning of a text are beginnings of its lines.\<close>

lemma splitlines_prefix:
  "lf_only (b @ t) \<Longrightarrow> l \<in> set (py_splitlines b) \<Longrightarrow> \<exists>u. l @ u \<in> set (py_splitlines (b @ t))"
proof -
  have "list_all2 (\<lambda>l m. \<exists>u. m = l @ u) (py_splitlines b) (take (length (py_splitlines b)) (py_splitlines (b @ t)))"
    if "lf_only (b @ t)" for b t
    using that
  proof (induction b)
    case (Cons c b)
    show ?case
    proof (cases "line_break c")
      case True
      then show ?thesis using Cons by simp
    next
      case c: False
      then have ih: "list_all2 (\<lambda>l m. \<exists>u. m = l @ u) (py_splitlines b) (take (length (py_splitlines b)) (py_splitlines (b @ t)))"
        using Cons by simp
      show ?thesis
      proof (cases "b = []")
        case True
        then show ?thesis using c by (cases "py_splitlines t") auto
      next
        case False
        obtain l ls where b: "py_splitlines b = l # ls" using False by (metis list.exhaust splitlines_Nil)
        obtain m ms where bt: "py_splitlines (b @ t) = m # ms" using False by (metis append_is_Nil_conv list.exhaust splitlines_Nil)
        show ?thesis using ih c b bt by auto
      qed
    qed
  qed simp
  moreover assume "lf_only (b @ t)" and l: "l \<in> set (py_splitlines b)"
  ultimately have "list_all2 (\<lambda>l m. \<exists>u. m = l @ u) (py_splitlines b) (take (length (py_splitlines b)) (py_splitlines (b @ t)))" by blast
  note both = this
  obtain i where i: "i < length (py_splitlines b)" "l = py_splitlines b ! i" using l by (auto simp: in_set_conv_nth)
  have len: "length (take (length (py_splitlines b)) (py_splitlines (b @ t))) = length (py_splitlines b)"
    using list_all2_lengthD[OF both] by simp
  then obtain u where "take (length (py_splitlines b)) (py_splitlines (b @ t)) ! i = l @ u"
    using list_all2_nthD[OF both i(1)] i(2) by auto
  moreover have "take (length (py_splitlines b)) (py_splitlines (b @ t)) ! i \<in> set (py_splitlines (b @ t))"
    by (rule in_set_takeD[OF nth_mem]) (use i(1) len in argo)
  ultimately show "\<exists>u. l @ u \<in> set (py_splitlines (b @ t))" by (intro exI[of _ u]) argo
qed

lemma join_set: "(\<And>l. l \<in> set ls \<Longrightarrow> unbroken l) \<Longrightarrow> lf_only (py_join [CHR 0x0A] ls)"
  using join_chars[of "[CHR 0x0A]" ls] by (fastforce simp: lf_only_def unbroken_def)

lemma splitlines_join_subset:
  "(\<And>l. l \<in> set ls \<Longrightarrow> unbroken l) \<Longrightarrow> set (py_splitlines (py_join [CHR 0x0A] ls)) \<subseteq> set ls"
proof (induction "[CHR 0x0A]" ls rule: py_join.induct)
  case (2 x)
  then show ?case by (cases "x = []") (simp_all add: splitlines_line)
next
  case (3 x y xs)
  have x: "unbroken x" using 3(2) by auto
  have "py_splitlines (x @ [CHR 0x0A]) = [x]"
    using x
  proof (induction x)
    case (Cons c x)
    then show ?case by (cases x) (auto simp: unbroken_def)
  qed simp
  moreover have "lf_only x" using x by (auto simp: unbroken_def lf_only_def)
  ultimately show ?case using splitlines_lf[of x "py_join [CHR 0x0A] (y # xs)"] 3 by auto
qed simp

text \<open>The base requirement: its own base, without decision lines, and so also with decision lines after it.\<close>

lemma base_facts:
  "lf_only (base_requirement r)" "base_requirement r = [] \<or> last (base_requirement r) \<noteq> CHR 0x0A"
  "l \<in> set (py_splitlines (base_requirement r)) \<Longrightarrow> \<not> is_decision_line l"
  "py_rstrip (base_requirement r) = base_requirement r"
proof -
  define ls where "ls = filter (\<lambda>l. \<not> is_decision_line l) (py_splitlines r)"
  define b where "b = base_requirement r"
  have lines: "\<And>l. l \<in> set ls \<Longrightarrow> unbroken l" using splitlines_unbroken by (auto simp: ls_def)
  have b: "b = py_rstrip (py_join [CHR 0x0A] ls)" by (simp add: b_def base_requirement_def ls_def line_feed_def)
  obtain t where t: "py_join [CHR 0x0A] ls = b @ t" using rstrip_prefix b by blast
  have all: "lf_only (b @ t)" using join_set[of ls, OF lines] t by simp
  then show "lf_only (base_requirement r)" by (auto simp: lf_only_def b_def)
  show "base_requirement r = [] \<or> last (base_requirement r) \<noteq> CHR 0x0A"
    using rstrip_last[of "py_join [CHR 0x0A] ls"] b by (auto simp: b_def[symmetric] py_space_def)
  show "py_rstrip (base_requirement r) = base_requirement r" using b by (simp add: b_def[symmetric])
  assume "l \<in> set (py_splitlines (base_requirement r))"
  then obtain u where "l @ u \<in> set (py_splitlines (b @ t))" using splitlines_prefix[OF all] by (auto simp: b_def)
  then have "l @ u \<in> set ls" using splitlines_join_subset[of ls, OF lines] t by auto
  then show "\<not> is_decision_line l" using decision_prefix by (auto simp: ls_def)
qed

lemma base_of_base [simp]: "base_requirement (base_requirement r) = base_requirement r"
proof -
  have "filter (\<lambda>l. \<not> is_decision_line l) (py_splitlines (base_requirement r)) = py_splitlines (base_requirement r)"
    using base_facts(3) by (auto intro!: filter_True)
  then show ?thesis
    using base_facts[of r] join_splitlines[OF base_facts(1,2)] by (simp add: base_requirement_def[of "base_requirement r"] line_feed_def)
qed

lemma splitlines_ended:
  "lf_only b \<Longrightarrow> b = [] \<or> last b \<noteq> CHR 0x0A \<Longrightarrow> py_splitlines (b @ [CHR 0x0A]) = (if b = [] then [[]] else py_splitlines b)"
proof (induction b)
  case (Cons c b)
  then show ?case
  proof (cases "b = []")
    case False
    then show ?thesis using Cons by (auto split: list.split if_splits)
  qed auto
qed simp

lemma base_with_decisions:
  assumes "\<And>l. l \<in> set ls \<Longrightarrow> unbroken l \<and> is_decision_line l"
  shows "base_requirement (base_requirement r @ line_feed @ py_join line_feed ls) = base_requirement r"
proof -
  let ?b = "base_requirement r"
  have "\<And>l. l \<in> set ls \<Longrightarrow> unbroken l \<and> l \<noteq> []" using assms decision_some by blast
  then have ls: "py_splitlines (py_join [CHR 0x0A] ls) = ls" by (rule splitlines_join)
  have split: "py_splitlines (?b @ line_feed @ py_join line_feed ls) = (if ?b = [] then [[]] else py_splitlines ?b) @ ls"
    using splitlines_lf[OF base_facts(1)[of r], of "py_join [CHR 0x0A] ls"] splitlines_ended[OF base_facts(1,2)] ls
    by (simp add: line_feed_def)
  have none: "filter (\<lambda>l. \<not> is_decision_line l) ls = []" using assms by (simp add: filter_empty_conv)
  have own: "filter (\<lambda>l. \<not> is_decision_line l) (py_splitlines ?b) = py_splitlines ?b" using base_facts(3) by (auto intro!: filter_True)
  have nil: "\<not> is_decision_line []" using decision_some by blast
  show ?thesis
  proof (cases "?b = []")
    case True
    then show ?thesis unfolding base_requirement_def[of "?b @ line_feed @ py_join line_feed ls"] split
      using none nil by (simp add: py_rstrip_def)
  next
    case False
    then show ?thesis unfolding base_requirement_def[of "?b @ line_feed @ py_join line_feed ls"] split
      using own none join_splitlines[OF base_facts(1,2)] base_facts(4)[of r] by (simp add: line_feed_def)
  qed
qed

lemma decision_line_is: "is_decision_line (decision_line dash r)"
  by (simp add: is_decision_line_def decision_line_def starts_with_def py_space_def)

definition one_line :: "string \<Rightarrow> resolution \<Rightarrow> bool" where
  "one_line dash r = unbroken (decision_line dash r)"

text \<open>
  C38: Reconciling a requirement with the answers carried so far never fails, keeps the
  requirement's own text, keeps exactly the answers the text still accepts, and is stable: doing it
  again with its own result changes nothing, provided that no answer breaks its line.
\<close>

theorem reconcile_stable:
  assumes "\<And>r. r \<in> set carried \<Longrightarrow> one_line dash r"
  shows "\<exists>out valid. reconcile_resolutions accepts dash requirement carried = Inr (out, valid) \<and>
    base_requirement out = base_requirement requirement \<and> starts_with out (base_requirement requirement) \<and>
    valid = filter (\<lambda>r. rs_slot r \<noteq> [] \<and> accepts (base_requirement requirement) (rs_slot r)) carried \<and>
    reconcile_resolutions accepts dash out valid = Inr (out, valid)"
proof -
  define base where "base = base_requirement requirement"
  define valid where "valid = filter (\<lambda>r. rs_slot r \<noteq> [] \<and> accepts base (rs_slot r)) carried"
  define ls where "ls = map (decision_line dash) (filter (\<lambda>r. rs_text r \<noteq> []) valid)"
  define out where "out = (if ls = [] then base else base @ line_feed @ py_join line_feed ls)"
  have lines: "\<And>l. l \<in> set ls \<Longrightarrow> unbroken l \<and> is_decision_line l"
    using assms decision_line_is by (auto simp: ls_def valid_def one_line_def)
  have fresh: "filter (\<lambda>s. s \<noteq> [] \<and> \<not> accepts base s) (map rs_slot valid) = []"
    by (auto simp: valid_def filter_empty_conv)
  have applied: "apply_resolutions accepts dash base valid = Inr out"
    using fresh base_facts(4)[of requirement] by (simp add: apply_resolutions_def Let_def out_def ls_def base_def)
  have first: "reconcile_resolutions accepts dash requirement carried = Inr (out, valid)"
    using applied by (simp add: reconcile_resolutions_def Let_def base_def valid_def)
  have same: "base_requirement out = base"
    using base_with_decisions[of ls requirement, OF lines] by (simp add: out_def base_def)
  have kept: "filter (\<lambda>r. rs_slot r \<noteq> [] \<and> accepts base (rs_slot r)) valid = valid"
    by (intro filter_True) (simp add: valid_def)
  have again: "reconcile_resolutions accepts dash out valid = Inr (out, valid)"
    using applied same kept by (simp add: reconcile_resolutions_def Let_def)
  have "starts_with out base" by (simp add: out_def starts_with_def)
  then show ?thesis using first same again by (auto simp: valid_def base_def)
qed

definition sample_resolution :: "string \<Rightarrow> resolution" where
  "sample_resolution out = \<lparr>rs_slot = ''mounting'', rs_kind = ''assumption'', rs_key = ''A'', rs_label = ''Use'', rs_text = out,
     rs_citation = []\<rparr>"

lemma reconcile_stable_witness:
  "base_requirement (''LED board'' @ line_feed @ ''DECISION: old=A'') = ''LED board'' \<and>
   (\<exists>out valid. reconcile_resolutions (\<lambda>_ _. True) '' - '' (''LED board'' @ line_feed @ ''DECISION: old=A'')
       [sample_resolution ''four holes''] = Inr (out, valid) \<and>
     reconcile_resolutions (\<lambda>_ _. True) '' - '' out valid = Inr (out, valid))"
proof -
  have "one_line '' - '' r" if "r \<in> set [sample_resolution ''four holes'']" for r
  proof -
    have "r = sample_resolution ''four holes''" using that by simp
    moreover have "list_all (\<lambda>c. \<not> line_break c) (decision_line '' - '' (sample_resolution ''four holes''))" by code_simp
    ultimately show ?thesis by (simp add: one_line_def unbroken_def list_all_iff)
  qed
  then have stable: "\<exists>out valid. reconcile_resolutions (\<lambda>_ _. True) '' - '' (''LED board'' @ line_feed @ ''DECISION: old=A'')
      [sample_resolution ''four holes''] = Inr (out, valid) \<and>
    base_requirement out = base_requirement (''LED board'' @ line_feed @ ''DECISION: old=A'') \<and>
    starts_with out (base_requirement (''LED board'' @ line_feed @ ''DECISION: old=A'')) \<and>
    valid = filter (\<lambda>r. rs_slot r \<noteq> [] \<and> True) [sample_resolution ''four holes''] \<and>
    reconcile_resolutions (\<lambda>_ _. True) '' - '' out valid = Inr (out, valid)"
    by (rule reconcile_stable)
  have "base_requirement (''LED board'' @ line_feed @ ''DECISION: old=A'') = ''LED board''" by code_simp
  then show ?thesis using stable by blast
qed

text \<open>An answer of two lines leaks its second line into the requirement and grows at every turn.\<close>

lemma answer_leaks:
  "let once = reconcile_resolutions (\<lambda>_ _. True) '' - '' ''LED'' [sample_resolution (''x'' @ line_feed @ ''y'')];
       out = fst (projr once); valid = snd (projr once)
   in map length (py_splitlines out) = [3, 24, 1] \<and>
      map length (py_splitlines (fst (projr (reconcile_resolutions (\<lambda>_ _. True) '' - '' out valid)))) = [3, 1, 24, 1]"
  by code_simp

end
