(* ===== verification/WarningContract.thy ===== *)
theory WarningContract
  imports Sexpr Json
begin

text \<open>
  The contract on the warnings KiCad leaves, \<^verbatim>\<open>src/src/agents/ratsnestpro/warning_contract.py\<close>: their
  classification, waivers bound to the digests of the current files, the evidence that an embedded
  symbol is the one of the library, over the trees of \<open>Sexpr\<close>, and the disposition of every rule. Files
  are their contents; the digest, the regular expressions, the installed libraries and the evidence for
  bindings and footprints are arguments. JSON objects have distinct keys and no floats here, and
  a waiver file that is not UTF-8, for which the code raises, is not modelled.
\<close>

subsection \<open>Warnings and their classification\<close>

text \<open>A finding of a check: its severity, its rule, and the descriptions of its items.\<close>

record finding =
  fi_severity :: string
  fi_rule :: string
  fi_items :: "string list"

datatype disposition =
    Blocked string
  | AutoEquivalent string string
  | Waived string string string string

text \<open>\<open>AutoEquivalent\<close> has the digests of the artifact and of the report, \<open>Waived\<close> the rationale and approver before them.\<close>

record classification =
  cl_count :: int
  cl_category :: string
  cl_policy :: string
  cl_disposition :: disposition

definition warning_policies :: "(string, string \<times> string) dict" where
  "warning_policies =
     [(''lib_symbol_issues'', ''library_provenance'', ''repair_required''),
      (''lib_symbol_mismatch'', ''library_provenance'', ''normalized_structure_evidence_required''),
      (''endpoint_off_grid'', ''connectivity_integrity'', ''repair_required''),
      (''lib_footprint_mismatch'', ''library_provenance'', ''normalized_structure_evidence_required''),
      (''silk_over_copper'', ''assembly_readability'', ''repair_or_explicit_waiver_required''),
      (''silk_edge_clearance'', ''assembly_readability'', ''repair_or_explicit_waiver_required''),
      (''silk_overlap'', ''assembly_readability'', ''repair_or_explicit_waiver_required'')]"

definition waiverable_categories :: "string list" where
  "waiverable_categories = [''assembly_readability'']"

definition non_waiverable_categories :: "string list" where
  "non_waiverable_categories =
     [''connectivity_integrity'', ''electrical_integrity'', ''structural_integrity'', ''library_provenance'']"

definition is_warning :: "finding \<Rightarrow> bool" where
  "is_warning f = (casefold (fi_severity f) = ''warning'')"

definition count_rule :: "(string, int) dict \<Rightarrow> finding \<Rightarrow> (string, int) dict" where
  "count_rule counts f = (if is_warning f then dset (fi_rule f) (dget_or counts (fi_rule f) 0 + 1) counts else counts)"

definition classify_rule :: "string \<Rightarrow> int \<Rightarrow> classification" where
  "classify_rule rule n =
     (let (category, policy) = dget_or warning_policies rule (''unclassified'', ''explicit_review_required'')
      in \<lparr>cl_count = n, cl_category = category, cl_policy = policy,
           cl_disposition = Blocked ''no governed disposition has been verified''\<rparr>)"

definition classify_warnings :: "finding list \<Rightarrow> (string, classification) dict" where
  "classify_warnings findings = map (\<lambda>(rule, n). (rule, classify_rule rule n)) (foldl count_rule [] findings)"

definition rule_findings :: "string \<Rightarrow> finding list \<Rightarrow> finding list" where
  "rule_findings rule findings = filter (\<lambda>f. is_warning f \<and> fi_rule f = rule) findings"

subsection \<open>Waivers\<close>

text \<open>\<^verbatim>\<open>str\<close> of a JSON value; of a list or an object it is an argument.\<close>

definition json_str :: "(json \<Rightarrow> string) \<Rightarrow> json \<Rightarrow> string" where
  "json_str repr v =
     (case v of JStr s \<Rightarrow> s | JNull \<Rightarrow> ''None'' | JBool b \<Rightarrow> if b then ''True'' else ''False'' | JInt i \<Rightarrow> int_str i | _ \<Rightarrow> repr v)"

type_synonym waiver = "(string, json) dict"

definition waiver_text :: "(json \<Rightarrow> string) \<Rightarrow> waiver \<Rightarrow> string \<Rightarrow> string" where
  "waiver_text repr w k = (case dget w k of None \<Rightarrow> [] | Some v \<Rightarrow> json_str repr v)"

definition sha256_hex :: "string \<Rightarrow> bool" where
  "sha256_hex s = (length s = 64 \<and> list_all (\<lambda>c. c \<in> set ''0123456789abcdef'') s)"

text \<open>The waiver file: absent, unreadable, or JSON.\<close>

datatype waiver_file = NoWaivers | UnreadableWaivers | WaiverPayload json

definition is_object :: "json \<Rightarrow> bool" where
  "is_object v = (case v of JObj _ \<Rightarrow> True | _ \<Rightarrow> False)"

definition members :: "json \<Rightarrow> waiver" where
  "members v = (case v of JObj kvs \<Rightarrow> kvs | _ \<Rightarrow> [])"

definition read_waivers :: "waiver_file \<Rightarrow> waiver list \<times> string option" where
  "read_waivers f =
     (case f of
        NoWaivers \<Rightarrow> ([], None)
      | UnreadableWaivers \<Rightarrow> ([], Some ''warning-waiver contract is unreadable'')
      | WaiverPayload v \<Rightarrow>
          if \<not> is_object v \<or> dget (members v) ''schema_version'' \<noteq> Some (JStr ''ratsnestpro.warning-waiver.v1'')
          then ([], Some ''warning-waiver contract has an unsupported schema'')
          else (case dget (members v) ''waivers'' of
              Some (JArr ws) \<Rightarrow>
                if list_all is_object ws then (map members ws, None)
                else ([], Some ''warning-waiver contract waivers must be an object list'')
            | _ \<Rightarrow> ([], Some ''warning-waiver contract waivers must be an object list'')))"

definition waiver_matches :: "(json \<Rightarrow> string) \<Rightarrow> string \<Rightarrow> int \<Rightarrow> string \<Rightarrow> string \<Rightarrow> waiver \<Rightarrow> bool" where
  "waiver_matches repr rule n pcb report w =
     (let waiver_pcb = casefold (waiver_text repr w ''pcb_sha256''); waiver_report = casefold (waiver_text repr w ''report_sha256'')
      in dget w ''approved'' = Some (JBool True) \<and>
         py_strip (waiver_text repr w ''approved_by'') \<noteq> [] \<and> py_strip (waiver_text repr w ''rationale'') \<noteq> [] \<and>
         waiver_text repr w ''rule_id'' = rule \<and> dget w ''count'' = Some (JInt n) \<and>
         sha256_hex waiver_pcb \<and> sha256_hex waiver_report \<and> waiver_pcb = pcb \<and> waiver_report = report)"

subsection \<open>Evidence that embedded symbols are those of the library\<close>

definition node_text :: "(node list \<Rightarrow> string) \<Rightarrow> node \<Rightarrow> string" where
  "node_text repr n = (case n of Atom v \<Rightarrow> v | QStr s \<Rightarrow> s | Lst cs \<Rightarrow> repr cs)"

definition children :: "node \<Rightarrow> node list" where
  "children n = (case n of Lst cs \<Rightarrow> cs | _ \<Rightarrow> [])"

definition symbol_property :: "(node list \<Rightarrow> string) \<Rightarrow> node \<Rightarrow> string \<Rightarrow> string" where
  "symbol_property repr n name =
     (case find (\<lambda>c. tag_of c = Some ''property'' \<and> length (children c) > 2 \<and> node_text repr (children c ! 1) = name) (children n) of
        None \<Rightarrow> [] | Some c \<Rightarrow> node_text repr (children c ! 2))"

datatype evidence_fault =
    SchematicUnavailable | EvidenceUnreadable | InvalidRoot | CountMismatch | SymbolsUnavailable
  | NotOneSymbol | DefinitionUnavailable string | StructureDiffers string

record symbol_comparison =
  sc_ref :: string
  sc_lib_id :: string
  sc_embedded :: string
  sc_library :: string

text \<open>
  What the evidence takes from outside: the digest, the text of a list, the reference an item's
  description names, and the installed definition of a symbol.
\<close>

record symbol_sources =
  sy_sha :: "string \<Rightarrow> string"
  sy_repr :: "node list \<Rightarrow> string"
  sy_reference :: "string \<Rightarrow> string option"
  sy_definition :: "string \<Rightarrow> node option"

definition symbols_of :: "node \<Rightarrow> node list" where
  "symbols_of n = filter (\<lambda>c. tag_of c = Some ''symbol'') (children n)"

definition embedded_symbols :: "(node list \<Rightarrow> string) \<Rightarrow> node \<Rightarrow> (string, node) dict" where
  "embedded_symbols repr lib =
     foldl (\<lambda>d c. dset (node_text repr (children c ! 1)) c d) [] (filter (\<lambda>c. length (children c) > 1) (symbols_of lib))"

definition finding_references :: "symbol_sources \<Rightarrow> finding \<Rightarrow> string list" where
  "finding_references S f = remdups (concat (map (\<lambda>d. case sy_reference S d of None \<Rightarrow> [] | Some r \<Rightarrow> [r]) (fi_items f)))"

definition instance_lib_id :: "symbol_sources \<Rightarrow> node \<Rightarrow> string \<Rightarrow> string" where
  "instance_lib_id S tree ref =
     (case find (\<lambda>n. symbol_property (sy_repr S) n ''Reference'' = ref) (symbols_of tree) of
        None \<Rightarrow> []
      | Some n \<Rightarrow>
          (case find_first n ''lib_id'' of
             None \<Rightarrow> []
           | Some l \<Rightarrow> if length (children l) > 1 then node_text (sy_repr S) (children l ! 1) else []))"

definition structure_digest :: "symbol_sources \<Rightarrow> node \<Rightarrow> string" where
  "structure_digest S n = sy_sha S (dumps n True)"

definition compare_symbol ::
  "symbol_sources \<Rightarrow> node \<Rightarrow> (string, node) dict \<Rightarrow> finding \<Rightarrow> (evidence_fault, symbol_comparison) result" where
  "compare_symbol S tree embedded f =
     (case finding_references S f of
        [ref] \<Rightarrow>
          (let lib_id = instance_lib_id S tree ref
           in case (dget embedded lib_id, if lib_id = [] then None else sy_definition S lib_id) of
                (Some e, Some l) \<Rightarrow>
                  demand (structure_digest S e = structure_digest S l) (StructureDiffers ref)
                    (Inr \<lparr>sc_ref = ref, sc_lib_id = lib_id, sc_embedded = structure_digest S e, sc_library = structure_digest S l\<rparr>)
              | _ \<Rightarrow> Inl (DefinitionUnavailable lib_id))
      | _ \<Rightarrow> Inl NotOneSymbol)"

text \<open>The schematic and the findings of the report, which do not exist where they cannot be read.\<close>

definition symbol_evidence ::
  "symbol_sources \<Rightarrow> string option \<Rightarrow> finding list option \<Rightarrow> int \<Rightarrow> (evidence_fault, symbol_comparison list) result" where
  "symbol_evidence S schematic report n =
     (case schematic of
        None \<Rightarrow> Inl SchematicUnavailable
      | Some text \<Rightarrow>
          (case (loads text, report) of
             (Inr tree, Some all) \<Rightarrow>
               demand (tag_of tree = Some ''kicad_sch'') InvalidRoot
                 (let fs = rule_findings ''lib_symbol_mismatch'' all in
                  demand (int (length fs) = n \<and> fs \<noteq> []) CountMismatch
                    (case find_first tree ''lib_symbols'' of
                       None \<Rightarrow> Inl SymbolsUnavailable
                     | Some lib \<Rightarrow> rmap (compare_symbol S tree (embedded_symbols (sy_repr S) lib)) fs))
           | _ \<Rightarrow> Inl EvidenceUnreadable))"

subsection \<open>Dispositions\<close>

text \<open>
  The files of a check, by their contents, and the proofs of the other two library rules, which are
  arguments: the binding of the schematic's symbols to project libraries, and the normalised footprints.
\<close>

record warning_files =
  wi_pcb :: "string option"
  wi_schematic :: "string option"
  wi_report :: "string option"
  wi_report_findings :: "finding list option"
  wi_waivers :: waiver_file

record warning_proofs =
  wp_symbols :: symbol_sources
  wp_show :: "json \<Rightarrow> string"
  wp_binding :: "string \<Rightarrow> finding list \<Rightarrow> int \<Rightarrow> bool"
  wp_footprints :: "string \<Rightarrow> finding list \<Rightarrow> int \<Rightarrow> bool"

definition artifact_digest :: "warning_proofs \<Rightarrow> string option \<Rightarrow> string" where
  "artifact_digest E f = (case f of None \<Rightarrow> [] | Some c \<Rightarrow> sy_sha (wp_symbols E) c)"

definition waive :: "warning_proofs \<Rightarrow> warning_files \<Rightarrow> string \<Rightarrow> int \<Rightarrow> disposition" where
  "waive E F rule n =
     (let (waivers, fault) = read_waivers (wi_waivers F); pcb = artifact_digest E (wi_pcb F); report = artifact_digest E (wi_report F)
      in case filter (waiver_matches (wp_show E) rule n pcb report) waivers of
           [w] \<Rightarrow> Waived (waiver_text (wp_show E) w ''rationale'') (waiver_text (wp_show E) w ''approved_by'') pcb report
         | ws \<Rightarrow> Blocked (case fault of Some e \<Rightarrow> e
               | None \<Rightarrow> if ws = [] then ''no current digest/rule/count-bound waiver exists''
                   else ''multiple matching waivers make the disposition ambiguous''))"

definition settle_warning :: "warning_proofs \<Rightarrow> warning_files \<Rightarrow> finding list \<Rightarrow> string \<Rightarrow> classification \<Rightarrow> disposition" where
  "settle_warning E F findings rule c =
     (let own = rule_findings rule findings; report = artifact_digest E (wi_report F)
      in if rule = ''lib_symbol_issues'' then
           (case wi_schematic F of
              Some text \<Rightarrow>
                if wp_binding E text own (cl_count c) then AutoEquivalent (artifact_digest E (wi_schematic F)) report
                else Blocked ''project-local symbol binding equivalence was not proven''
            | None \<Rightarrow> Blocked ''project-local symbol binding equivalence was not proven'')
         else if rule = ''lib_symbol_mismatch'' then
           (if is_ok (symbol_evidence (wp_symbols E) (wi_schematic F) (wi_report_findings F) (cl_count c))
            then AutoEquivalent (artifact_digest E (wi_schematic F)) report
            else Blocked ''normalized symbol equivalence was not proven'')
         else if rule = ''lib_footprint_mismatch'' then
           (case wi_pcb F of
              None \<Rightarrow> Blocked ''PCB evidence is unavailable''
            | Some board \<Rightarrow>
                if wp_footprints E board own (cl_count c) then AutoEquivalent (artifact_digest E (wi_pcb F)) report
                else Blocked ''normalized footprint equivalence was not proven'')
         else if cl_category c \<in> set non_waiverable_categories then Blocked (cl_category c @ '' warnings are non-waiverable'')
         else if cl_category c \<notin> set waiverable_categories then Blocked ''the warning category has no governed waiver policy''
         else waive E F rule (cl_count c))"

definition apply_warning_contract ::
  "warning_proofs \<Rightarrow> warning_files \<Rightarrow> (string, classification) dict \<Rightarrow> finding list \<Rightarrow> (string, classification) dict" where
  "apply_warning_contract E F classes findings =
     (case wi_report F of
        None \<Rightarrow> classes
      | Some _ \<Rightarrow> map (\<lambda>(rule, c). (rule, c\<lparr>cl_disposition := settle_warning E F findings rule c\<rparr>)) classes)"

subsection \<open>Every warning is counted\<close>

lemma count_rules:
  "dget (foldl count_rule d findings) rule =
     (let n = int (length (rule_findings rule findings)) in
      if n = 0 then dget d rule else Some (dget_or d rule 0 + n))"
proof (induction findings arbitrary: d)
  case (Cons f fs)
  show ?case using Cons[of "count_rule d f"]
    by (auto simp: rule_findings_def count_rule_def Let_def dict_simps dget_or_def split: option.splits)
qed (simp add: rule_findings_def)

lemma classify_rule_parts:
  "cl_category (classify_rule rule n) = fst (dget_or warning_policies rule (''unclassified'', ''explicit_review_required''))"
  "cl_policy (classify_rule rule n) = snd (dget_or warning_policies rule (''unclassified'', ''explicit_review_required''))"
  "cl_count (classify_rule rule n) = n"
  "cl_disposition (classify_rule rule n) = Blocked ''no governed disposition has been verified''"
  by (simp_all add: classify_rule_def Let_def split: prod.split)

lemma count_rules_wf: "dict_wf d \<Longrightarrow> dict_wf (foldl count_rule d findings)"
  by (induction findings arbitrary: d) (auto simp: count_rule_def dict_simps)

lemma dget_of_wf: "dict_wf d \<Longrightarrow> (k, v) \<in> set d \<Longrightarrow> dget d k = Some v"
  by (simp add: dict_wf_def dkeys_def)

lemma classified:
  assumes "(rule, c) \<in> set (classify_warnings findings)"
  shows "cl_count c = int (length (rule_findings rule findings)) \<and> c = classify_rule rule (cl_count c)"
proof -
  obtain n where n: "(rule, n) \<in> set (foldl count_rule [] findings)" and c: "c = classify_rule rule n"
    using assms by (auto simp: classify_warnings_def)
  have "dget (foldl count_rule [] findings) rule = Some n"
    using count_rules_wf[OF dict_wf_empty] n by (rule dget_of_wf)
  then have "n = int (length (rule_findings rule findings))"
    by (auto simp: count_rules Let_def dget_or_def split: if_splits)
  then show ?thesis using c by (simp add: classify_rule_parts)
qed

subsection \<open>Nothing is cleared without evidence\<close>

definition unresolved :: "disposition \<Rightarrow> bool" where
  "unresolved d = (case d of Blocked _ \<Rightarrow> True | _ \<Rightarrow> False)"

lemma unresolved_simps [simp]:
  "unresolved (Blocked why)" "\<not> unresolved (AutoEquivalent a r)" "\<not> unresolved (Waived why who a r)"
  by (simp_all add: unresolved_def)

lemma waive_resolved:
  assumes "\<not> unresolved (waive E F rule n)"
  shows "\<exists>w. filter (waiver_matches (wp_show E) rule n (artifact_digest E (wi_pcb F)) (artifact_digest E (wi_report F)))
      (fst (read_waivers (wi_waivers F))) = [w] \<and>
    waive E F rule n = Waived (waiver_text (wp_show E) w ''rationale'') (waiver_text (wp_show E) w ''approved_by'')
      (artifact_digest E (wi_pcb F)) (artifact_digest E (wi_report F))"
  using assms by (auto simp: waive_def Let_def split: prod.splits list.splits)

lemma waived_current:
  assumes "waiver_matches show' rule n (artifact_digest E f) r w"
  shows "\<exists>board. f = Some board"
  using assms by (cases f) (auto simp: waiver_matches_def Let_def sha256_hex_def artifact_digest_def)

definition library_evidence :: "warning_proofs \<Rightarrow> warning_files \<Rightarrow> finding list \<Rightarrow> string \<Rightarrow> int \<Rightarrow> bool" where
  "library_evidence E F own rule n =
     ((rule = ''lib_symbol_issues'' \<and> (\<exists>text. wi_schematic F = Some text \<and> wp_binding E text own n)) \<or>
      (rule = ''lib_symbol_mismatch'' \<and> is_ok (symbol_evidence (wp_symbols E) (wi_schematic F) (wi_report_findings F) n)) \<or>
      (rule = ''lib_footprint_mismatch'' \<and> (\<exists>board. wi_pcb F = Some board \<and> wp_footprints E board own n)))"

lemma settled:
  assumes "\<not> unresolved (settle_warning E F findings rule c)"
  shows "library_evidence E F (rule_findings rule findings) rule (cl_count c) \<or>
    (cl_category c \<in> set waiverable_categories \<and> settle_warning E F findings rule c = waive E F rule (cl_count c))"
  using assms by (auto simp: settle_warning_def library_evidence_def Let_def split: if_splits option.splits)

text \<open>
  C33: The warning contract is fail-closed. A warning rule that is not blocked was counted exactly,
  and either is one of the three library rules with their evidence over the current files, or is of a
  readability category with exactly one matching waiver: approved, with an approver and a rationale, for
  this rule and this count, and bound to the digests of the current board and report.
\<close>

theorem warnings_fail_closed:
  assumes "(rule, c) \<in> set (apply_warning_contract E F (classify_warnings findings) findings)"
    and "\<not> unresolved (cl_disposition c)"
  shows "cl_count c = int (length (rule_findings rule findings)) \<and> (\<exists>report. wi_report F = Some report \<and>
    (library_evidence E F (rule_findings rule findings) rule (cl_count c) \<or>
     (cl_category c = ''assembly_readability'' \<and> dget warning_policies rule = Some (cl_category c, cl_policy c) \<and>
      (\<exists>w board. wi_pcb F = Some board \<and>
        filter (waiver_matches (wp_show E) rule (cl_count c) (sy_sha (wp_symbols E) board) (sy_sha (wp_symbols E) report))
          (fst (read_waivers (wi_waivers F))) = [w] \<and>
        dget w ''approved'' = Some (JBool True) \<and> dget w ''count'' = Some (JInt (cl_count c)) \<and>
        waiver_text (wp_show E) w ''rule_id'' = rule \<and>
        casefold (waiver_text (wp_show E) w ''pcb_sha256'') = sy_sha (wp_symbols E) board \<and>
        casefold (waiver_text (wp_show E) w ''report_sha256'') = sy_sha (wp_symbols E) report \<and>
        cl_disposition c = Waived (waiver_text (wp_show E) w ''rationale'') (waiver_text (wp_show E) w ''approved_by'')
          (sy_sha (wp_symbols E) board) (sy_sha (wp_symbols E) report)))))"
proof (cases "wi_report F")
  case None
  then have "(rule, c) \<in> set (classify_warnings findings)" using assms(1) by (simp add: apply_warning_contract_def)
  then have "c = classify_rule rule (cl_count c)" using classified by blast
  then have "cl_disposition c = Blocked ''no governed disposition has been verified''" using classify_rule_parts(4) by metis
  then show ?thesis using assms(2) by simp
next
  case (Some report)
  obtain c0 where c0: "(rule, c0) \<in> set (classify_warnings findings)"
    and c: "c = c0\<lparr>cl_disposition := settle_warning E F findings rule c0\<rparr>"
    using assms(1) Some by (auto simp: apply_warning_contract_def)
  have n: "cl_count c0 = int (length (rule_findings rule findings))" and c0': "c0 = classify_rule rule (cl_count c0)"
    using classified[OF c0] by auto
  have resolved: "\<not> unresolved (settle_warning E F findings rule c0)" using assms(2) c by simp
  from settled[OF resolved] show ?thesis
  proof
    assume "library_evidence E F (rule_findings rule findings) rule (cl_count c0)"
    then show ?thesis using n c Some by simp
  next
    assume w: "cl_category c0 \<in> set waiverable_categories \<and> settle_warning E F findings rule c0 = waive E F rule (cl_count c0)"
    then obtain w where one: "filter (waiver_matches (wp_show E) rule (cl_count c0) (artifact_digest E (wi_pcb F)) (artifact_digest E (wi_report F)))
        (fst (read_waivers (wi_waivers F))) = [w]"
      and d: "settle_warning E F findings rule c0 = Waived (waiver_text (wp_show E) w ''rationale'')
        (waiver_text (wp_show E) w ''approved_by'') (artifact_digest E (wi_pcb F)) (artifact_digest E (wi_report F))"
      using waive_resolved[of E F rule "cl_count c0"] resolved by metis
    have m: "waiver_matches (wp_show E) rule (cl_count c0) (artifact_digest E (wi_pcb F)) (artifact_digest E (wi_report F)) w"
      using one by (auto simp: filter_eq_Cons_iff)
    obtain board where board: "wi_pcb F = Some board" using waived_current[OF m] by blast
    have category: "cl_category c0 = ''assembly_readability''" using w by (simp add: waiverable_categories_def)
    have policy: "dget warning_policies rule = Some (cl_category c0, cl_policy c0)"
    proof -
      have "cl_category c0 = fst (dget_or warning_policies rule (''unclassified'', ''explicit_review_required''))"
        "cl_policy c0 = snd (dget_or warning_policies rule (''unclassified'', ''explicit_review_required''))"
        using c0' classify_rule_parts(1,2) by metis+
      then show ?thesis using category by (cases "dget warning_policies rule") (simp_all add: dget_or_def)
    qed
    show ?thesis using m one d n c board Some category policy
      by (auto simp: artifact_digest_def waiver_matches_def Let_def)
  qed
qed

definition sample_proofs :: warning_proofs where
  "sample_proofs = \<lparr>wp_symbols = \<lparr>sy_sha = (\<lambda>_. replicate 64 CHR ''a''), sy_repr = (\<lambda>_. []), sy_reference = Some,
       sy_definition = (\<lambda>_. None)\<rparr>,
     wp_show = (\<lambda>_. []), wp_binding = (\<lambda>_ _ _. False), wp_footprints = (\<lambda>_ _ _. False)\<rparr>"

definition silk_waiver :: "json \<Rightarrow> json" where
  "silk_waiver approver = JObj
     [(''approved'', JBool True), (''approved_by'', approver), (''rationale'', JStr ''logo''), (''rule_id'', JStr ''silk_overlap''),
      (''count'', JInt 1), (''pcb_sha256'', JStr (replicate 64 CHR ''A'')), (''report_sha256'', JStr (replicate 64 CHR ''a''))]"

definition silk_files :: "json \<Rightarrow> warning_files" where
  "silk_files approver = \<lparr>wi_pcb = Some ''board'', wi_schematic = None, wi_report = Some ''report'', wi_report_findings = None,
     wi_waivers = WaiverPayload (JObj [(''schema_version'', JStr ''ratsnestpro.warning-waiver.v1''),
       (''waivers'', JArr [silk_waiver approver])])\<rparr>"

definition silk_finding :: finding where
  "silk_finding = \<lparr>fi_severity = ''Warning'', fi_rule = ''silk_overlap'', fi_items = []\<rparr>"

lemma warnings_fail_closed_witness:
  "\<exists>c. (''silk_overlap'', c) \<in> set (apply_warning_contract sample_proofs (silk_files (JStr ''ann'')) (classify_warnings [silk_finding]) [silk_finding]) \<and>
     \<not> unresolved (cl_disposition c) \<and> cl_category c = ''assembly_readability''"
proof -
  let ?out = "apply_warning_contract sample_proofs (silk_files (JStr ''ann'')) (classify_warnings [silk_finding]) [silk_finding]"
  have out: "map fst ?out = [''silk_overlap'']" "list_all (\<lambda>(r, c). \<not> unresolved (cl_disposition c)) ?out" by code_simp+
  then obtain c where c: "(''silk_overlap'', c) \<in> set ?out" "\<not> unresolved (cl_disposition c)" by (cases ?out) auto
  have "\<not> library_evidence sample_proofs (silk_files (JStr ''ann'')) own ''silk_overlap'' n" for own n
    by (simp add: library_evidence_def)
  then show ?thesis using c warnings_fail_closed[OF c] by blast
qed

text \<open>A waiver whose approver is null is accepted, approved by the word None.\<close>

lemma null_approver_accepted:
  "map (\<lambda>(r, c). (r, cl_disposition c))
     (apply_warning_contract sample_proofs (silk_files JNull) (classify_warnings [silk_finding]) [silk_finding]) =
   [(''silk_overlap'', Waived ''logo'' ''None'' (replicate 64 CHR ''a'') (replicate 64 CHR ''a''))]"
  by code_simp

subsection \<open>Equal symbols\<close>

lemma wf_children: "wf_node n \<Longrightarrow> c \<in> set (children n) \<Longrightarrow> wf_node c"
  by (cases n) (auto simp: children_def list_all_iff)

lemma embedded_from:
  "dget (embedded_symbols repr lib) k = Some c \<Longrightarrow> c \<in> set (children lib)"
proof -
  have "dget (foldl (\<lambda>d c. dset (node_text repr (children c ! 1)) c d) d cs) k = Some c \<Longrightarrow> dget d k = Some c \<or> c \<in> set cs" for d cs
    by (induction cs arbitrary: d) (fastforce simp: dict_simps split: if_splits)+
  then show "dget (embedded_symbols repr lib) k = Some c \<Longrightarrow> c \<in> set (children lib)"
    by (fastforce simp: embedded_symbols_def symbols_of_def)
qed

lemma find_first_child: "find_first n tag = Some c \<Longrightarrow> c \<in> set (children n)"
  by (cases n) (auto simp: find_first_def children_def filter_eq_Cons_iff split: list.splits)

lemma compare_symbol_Inr:
  assumes "compare_symbol S tree embedded f = Inr c"
  obtains e l where "finding_references S f = [sc_ref c]" and "sc_lib_id c = instance_lib_id S tree (sc_ref c)"
    and "dget embedded (sc_lib_id c) = Some e" and "sy_definition S (sc_lib_id c) = Some l"
    and "structure_digest S e = structure_digest S l"
  using assms
  by (auto simp: compare_symbol_def Let_def result_simps split: list.splits option.splits if_splits)

text \<open>
  C34: Where the evidence for mismatched symbols succeeds and the digest has no collision, every
  mismatch warning of the report names one symbol instance, as many as were counted, and the
  definition embedded in the schematic for that instance is, as a tree, the one the library holds.
\<close>

theorem symbol_evidence_exact:
  assumes "symbol_evidence S schematic report n = Inr cs"
    and "inj (sy_sha S)" and "\<And>i l. sy_definition S i = Some l \<Longrightarrow> wf_node l"
  shows "\<exists>src tree lib all. schematic = Some src \<and> loads src = Inr tree \<and> tag_of tree = Some ''kicad_sch'' \<and>
    find_first tree ''lib_symbols'' = Some lib \<and> report = Some all \<and> 0 < n \<and>
    int (length (rule_findings ''lib_symbol_mismatch'' all)) = n \<and>
    list_all2 (\<lambda>f c. finding_references S f = [sc_ref c] \<and> sc_lib_id c = instance_lib_id S tree (sc_ref c) \<and>
        dget (embedded_symbols (sy_repr S) lib) (sc_lib_id c) \<noteq> None \<and>
        dget (embedded_symbols (sy_repr S) lib) (sc_lib_id c) = sy_definition S (sc_lib_id c))
      (rule_findings ''lib_symbol_mismatch'' all) cs"
proof -
  obtain src tree all lib where parts: "schematic = Some src" "loads src = Inr tree" "report = Some all"
      "tag_of tree = Some ''kicad_sch''" "find_first tree ''lib_symbols'' = Some lib"
    and n: "int (length (rule_findings ''lib_symbol_mismatch'' all)) = n" "rule_findings ''lib_symbol_mismatch'' all \<noteq> []"
    and cs: "rmap (compare_symbol S tree (embedded_symbols (sy_repr S) lib)) (rule_findings ''lib_symbol_mismatch'' all) = Inr cs"
    using assms(1) by (auto simp: symbol_evidence_def Let_def result_simps split: option.splits sum.splits)
  have lib: "wf_node lib" using sx.decode_wf[OF parts(2)] find_first_child[OF parts(5)] wf_children by blast
  have "list_all2 (\<lambda>f c. finding_references S f = [sc_ref c] \<and> sc_lib_id c = instance_lib_id S tree (sc_ref c) \<and>
        dget (embedded_symbols (sy_repr S) lib) (sc_lib_id c) \<noteq> None \<and>
        dget (embedded_symbols (sy_repr S) lib) (sc_lib_id c) = sy_definition S (sc_lib_id c))
      (rule_findings ''lib_symbol_mismatch'' all) cs"
    using rmap_all2[OF cs]
  proof (rule list_all2_mono)
    fix f c assume "compare_symbol S tree (embedded_symbols (sy_repr S) lib) f = Inr c"
    then obtain e l where c: "finding_references S f = [sc_ref c]" "sc_lib_id c = instance_lib_id S tree (sc_ref c)"
      "dget (embedded_symbols (sy_repr S) lib) (sc_lib_id c) = Some e" "sy_definition S (sc_lib_id c) = Some l"
      and same: "structure_digest S e = structure_digest S l" by (rule compare_symbol_Inr)
    have "wf_node e" using embedded_from[OF c(3)] lib wf_children by blast
    moreover have "dumps e True = dumps l True" using same assms(2) by (simp add: structure_digest_def inj_eq)
    ultimately have "e = l" using sx.encode_inj assms(3)[OF c(4)] by blast
    then show "finding_references S f = [sc_ref c] \<and> sc_lib_id c = instance_lib_id S tree (sc_ref c) \<and>
        dget (embedded_symbols (sy_repr S) lib) (sc_lib_id c) \<noteq> None \<and>
        dget (embedded_symbols (sy_repr S) lib) (sc_lib_id c) = sy_definition S (sc_lib_id c)" using c by simp
  qed
  moreover have "0 < n" using n by (metis length_greater_0_conv of_nat_0_less_iff)
  ultimately show ?thesis using parts n by blast
qed

definition sample_symbol :: node where
  "sample_symbol = Lst [Atom ''symbol'', QStr ''Device:R'']"

definition sample_schematic :: string where
  "sample_schematic = dumps (Lst [Atom ''kicad_sch'', Lst [Atom ''lib_symbols'', sample_symbol],
     Lst [Atom ''symbol'', Lst [Atom ''lib_id'', QStr ''Device:R''], Lst [Atom ''property'', QStr ''Reference'', QStr ''R1'']]]) True"

definition sample_sources :: symbol_sources where
  "sample_sources = \<lparr>sy_sha = (\<lambda>s. s), sy_repr = (\<lambda>_. []), sy_reference = Some, sy_definition = (\<lambda>_. Some sample_symbol)\<rparr>"

lemma symbol_evidence_exact_witness:
  "\<exists>cs. symbol_evidence sample_sources (Some sample_schematic)
       (Some [\<lparr>fi_severity = ''warning'', fi_rule = ''lib_symbol_mismatch'', fi_items = [''R1'']\<rparr>]) 1 = Inr cs \<and> map sc_ref cs = [''R1'']"
proof -
  let ?f = "\<lparr>fi_severity = ''warning'', fi_rule = ''lib_symbol_mismatch'', fi_items = [''R1'']\<rparr>"
  have ok: "is_ok (symbol_evidence sample_sources (Some sample_schematic) (Some [?f]) 1)" by code_simp
  obtain cs where cs: "symbol_evidence sample_sources (Some sample_schematic) (Some [?f]) 1 = Inr cs" using ok unfolding is_ok_iff ..
  have inj: "inj (sy_sha sample_sources)" by (simp add: sample_sources_def inj_on_def)
  have wf: "wf_node l" if "sy_definition sample_sources i = Some l" for i l
  proof -
    have "l = sample_symbol" using that by (simp add: sample_sources_def)
    moreover have "wf_node sample_symbol" by code_simp
    ultimately show ?thesis by simp
  qed
  have fs: "rule_findings ''lib_symbol_mismatch'' [?f] = [?f]" by code_simp
  have refs: "finding_references sample_sources ?f = [''R1'']" by code_simp
  have "list_all2 (\<lambda>f c. finding_references sample_sources f = [sc_ref c]) [?f] cs"
    using symbol_evidence_exact[OF cs inj wf] fs by (fastforce elim: list_all2_mono)
  then have "map sc_ref cs = [''R1'']" using refs by (auto simp: list_all2_Cons1)
  then show ?thesis by (intro exI[of _ cs] conjI cs)
qed

end
