(* ===== verification/NetlistPatch.thy ===== *)
theory NetlistPatch
  imports DesignContracts
begin

text \<open>
  The bounded repair of a netlist, \<^verbatim>\<open>NetlistPatch\<close> of \<^verbatim>\<open>src/src/ratsnestpro/orchestration/pipeline_contracts.py\<close>
  and \<^verbatim>\<open>_apply_netlist_patch\<close> of \<^verbatim>\<open>pipeline.py\<close>. The code mutates the nets of one list; here a net is a
  position in that list. The bounds that constructing the result checks again are \<open>check_netlist\<close>.
\<close>

subsection \<open>The patch\<close>

record netlist_patch =
  np_parts :: "selected_part list"
  np_remove_nets :: "string list"
  np_remove_pins :: "logical_pin list"
  np_upserts :: "net_intent list"
  np_add_no_connect :: "logical_pin list"
  np_remove_no_connect :: "logical_pin list"

definition folded_key :: "logical_pin \<Rightarrow> string" where
  "folded_key p = casefold (pin_key p)"

definition folded_keys :: "logical_pin list \<Rightarrow> string set" where
  "folded_keys ps = folded_key ` set ps"

text \<open>Taking the pins of some keys off every net.\<close>

definition off_nets :: "string set \<Rightarrow> net_intent list \<Rightarrow> net_intent list" where
  "off_nets K nets = map (\<lambda>n. n\<lparr>ni_pins := filter (\<lambda>p. folded_key p \<notin> K) (ni_pins n)\<rparr>) nets"

type_synonym no_connects = "(string, logical_pin) dict"

definition keyed_pins :: "logical_pin list \<Rightarrow> no_connects" where
  "keyed_pins ps = foldl (\<lambda>d p. dset (folded_key p) p d) [] ps"

text \<open>The inner loop of an update: a pin leaves every net and the no-connects, and joins the target.\<close>

definition move_pin :: "nat \<Rightarrow> net_intent list \<times> no_connects \<Rightarrow> logical_pin \<Rightarrow> net_intent list \<times> no_connects" where
  "move_pin i s p =
     (let nets = off_nets {folded_key p} (fst s)
      in (nets[i := (nets ! i)\<lparr>ni_pins := ni_pins (nets ! i) @ [p]\<rparr>], ddel (folded_key p) (snd s)))"

text \<open>The nets by folded name, as positions in the list; of two names that fold alike the last one counts.\<close>

definition net_index :: "net_intent list \<Rightarrow> (string, nat) dict" where
  "net_index nets = foldl (\<lambda>d (i, n). dset (casefold (ni_name n)) i d) [] (enumerate 0 nets)"

definition upsert_net ::
  "(net_intent list \<times> no_connects) \<times> (string, nat) dict \<Rightarrow> net_intent \<Rightarrow> (net_intent list \<times> no_connects) \<times> (string, nat) dict" where
  "upsert_net s u =
     (let ((nets, nc), by_name) = s; name = casefold (ni_name u);
          (nets', i, by_name') = (case dget by_name name of
              None \<Rightarrow> (nets @ [u\<lparr>ni_pins := []\<rparr>], length nets, dset name (length nets) by_name)
            | Some i \<Rightarrow> (if ni_purpose u \<noteq> [] then nets[i := (nets ! i)\<lparr>ni_purpose := ni_purpose u\<rparr>] else nets, i, by_name))
      in (foldl (move_pin i) (nets', nc) (ni_pins u), by_name'))"

definition add_no_connect :: "net_intent list \<times> no_connects \<Rightarrow> logical_pin \<Rightarrow> net_intent list \<times> no_connects" where
  "add_no_connect s p = (off_nets {folded_key p} (fst s), dset (folded_key p) p (snd s))"

definition patch_supply :: "string \<Rightarrow> string list \<Rightarrow> net_intent \<Rightarrow> string list" where
  "patch_supply ground supply u =
     (if ni_kind u = ''power'' \<and> casefold (ni_name u) \<noteq> casefold ground \<and> ni_name u \<notin> set supply
      then supply @ [ni_name u] else supply)"

definition after_removals :: "netlist \<Rightarrow> netlist_patch \<Rightarrow> net_intent list \<times> no_connects" where
  "after_removals plan patch =
     (off_nets (folded_keys (np_remove_pins patch))
        (filter (\<lambda>n. casefold (ni_name n) \<notin> casefold ` set (np_remove_nets patch)) (nl_nets plan)),
      keyed_pins (filter (\<lambda>p. folded_key p \<notin> folded_keys (np_remove_no_connect patch)) (nl_no_connect plan)))"

definition after_updates :: "netlist \<Rightarrow> netlist_patch \<Rightarrow> net_intent list \<times> no_connects" where
  "after_updates plan patch =
     (let s = after_removals plan patch
      in foldl add_no_connect (fst (foldl upsert_net (s, net_index (fst s)) (np_upserts patch))) (np_add_no_connect patch))"

definition apply_netlist_patch :: "netlist \<Rightarrow> netlist_patch \<Rightarrow> netlist" where
  "apply_netlist_patch plan patch =
     (let (updated, nc) = after_updates plan patch;
          nets = filter (\<lambda>n. ni_pins n \<noteq> []) updated;
          kept = filter (\<lambda>s. s \<in> ni_name ` set nets \<and> casefold s \<noteq> casefold (nl_ground plan)) (nl_supply plan)
      in \<lparr>nl_additional_parts = np_parts patch, nl_nets = nets, nl_no_connect = map snd nc,
           nl_supply = foldl (patch_supply (nl_ground plan)) kept (np_upserts patch),
           nl_ground = nl_ground plan, nl_rationale = nl_rationale plan\<rparr>)"

subsection \<open>Where a pin is\<close>

text \<open>How often a key is on a net; a netlist is exclusive when no key is used twice.\<close>

definition uses :: "string \<Rightarrow> net_intent list \<Rightarrow> nat" where
  "uses k nets = length (filter (\<lambda>p. folded_key p = k) (concat (map ni_pins nets)))"

definition exclusive :: "netlist \<Rightarrow> bool" where
  "exclusive n = (\<forall>k. uses k (nl_nets n) + length (filter (\<lambda>p. folded_key p = k) (nl_no_connect n)) \<le> 1)"

definition state_uses :: "string \<Rightarrow> net_intent list \<times> no_connects \<Rightarrow> nat" where
  "state_uses k s = uses k (fst s) + (if dget (snd s) k = None then 0 else 1)"

text \<open>A no-connect is stored under the key of its pin.\<close>

definition keyed :: "no_connects \<Rightarrow> bool" where
  "keyed d = (dict_wf d \<and> (\<forall>(k, p)\<in>set d. folded_key p = k))"

lemma uses_simps [simp]:
  "uses k [] = 0" "uses k (n # ns) = length (filter (\<lambda>p. folded_key p = k) (ni_pins n)) + uses k ns"
  "uses k (ns @ ms) = uses k ns + uses k ms"
  by (simp_all add: uses_def)

lemma uses_off [simp]: "uses k (off_nets K nets) = (if k \<in> K then 0 else uses k nets)"
proof (induction nets)
  case (Cons n ns)
  have "length (filter (\<lambda>p. folded_key p \<notin> K \<and> folded_key p = k) (ni_pins n)) =
      (if k \<in> K then 0 else length (filter (\<lambda>p. folded_key p = k) (ni_pins n)))"
    by (cases "k \<in> K") (auto intro!: arg_cong[of _ _ length] filter_cong simp: filter_empty_conv)
  then show ?case using Cons by (simp add: off_nets_def)
qed (simp add: off_nets_def)

lemma off_nets_length [simp]: "length (off_nets K nets) = length nets"
  by (simp add: off_nets_def)

lemma off_nets_name [simp]: "i < length nets \<Longrightarrow> ni_name (off_nets K nets ! i) = ni_name (nets ! i)"
  by (simp add: off_nets_def)

lemma uses_update:
  "i < length nets \<Longrightarrow> uses k (nets[i := n]) + length (filter (\<lambda>p. folded_key p = k) (ni_pins (nets ! i))) =
     uses k nets + length (filter (\<lambda>p. folded_key p = k) (ni_pins n))"
proof (induction nets arbitrary: i)
  case (Cons m ms)
  then show ?case by (cases i) fastforce+
qed simp

lemma uses_purpose [simp]:
  "i < length nets \<Longrightarrow> uses k (nets[i := (nets ! i)\<lparr>ni_purpose := x\<rparr>]) = uses k nets"
  using uses_update[of i nets k "(nets ! i)\<lparr>ni_purpose := x\<rparr>"] by simp

lemma uses_append_pin:
  "i < length nets \<Longrightarrow> uses k (nets[i := (nets ! i)\<lparr>ni_pins := ni_pins (nets ! i) @ [p]\<rparr>]) =
     uses k nets + (if folded_key p = k then 1 else 0)"
  using uses_update[of i nets k "(nets ! i)\<lparr>ni_pins := ni_pins (nets ! i) @ [p]\<rparr>"] by auto

lemma move_pin_uses:
  "i < length (fst s) \<Longrightarrow> state_uses k (move_pin i s p) = (if folded_key p = k then 1 else state_uses k s)"
  by (auto simp: state_uses_def move_pin_def Let_def uses_append_pin dict_simps)

lemma off_nets_names [simp]: "map ni_name (off_nets K nets) = map ni_name nets"
  by (simp add: off_nets_def)

lemma move_pin_length [simp]: "length (fst (move_pin i s p)) = length (fst s)"
  by (simp add: move_pin_def Let_def)

lemma move_pin_names [simp]: "map ni_name (fst (move_pin i s p)) = map ni_name (fst s)"
proof (cases "i < length (fst s)")
  case True
  let ?nets = "off_nets {folded_key p} (fst s)"
  have "map ni_name (?nets[i := (?nets ! i)\<lparr>ni_pins := ni_pins (?nets ! i) @ [p]\<rparr>]) = map ni_name ?nets"
    using True by (intro map_update_same) simp_all
  then show ?thesis by (simp add: move_pin_def Let_def)
qed (simp add: move_pin_def Let_def not_less list_update_beyond)

lemma keyed_simps [simp]: "keyed [] " "keyed d \<Longrightarrow> keyed (ddel k d)" "keyed d \<Longrightarrow> keyed (dset (folded_key p) p d)"
proof -
  show "keyed []" by (simp add: keyed_def dict_simps)
  have "set (ddel k d) \<subseteq> set d" by (auto simp: ddel_def)
  then show "keyed d \<Longrightarrow> keyed (ddel k d)" by (auto simp: keyed_def dict_simps)
  have "set (dset a b d) \<subseteq> insert (a, b) (set d)" for a :: string and b :: logical_pin
    by (induction a b d rule: dset.induct) auto
  then show "keyed d \<Longrightarrow> keyed (dset (folded_key p) p d)" by (fastforce simp: keyed_def dict_simps)
qed

lemma keyed_pins_ok: "keyed (keyed_pins ps)"
proof -
  have "keyed d \<Longrightarrow> keyed (foldl (\<lambda>d p. dset (folded_key p) p d) d ps)" for d
    by (induction ps arbitrary: d) simp_all
  then show ?thesis by (simp add: keyed_pins_def)
qed

lemma keyed_count: "keyed d \<Longrightarrow> length (filter (\<lambda>e. folded_key (snd e) = k) d) = (if dget d k = None then 0 else 1)"
proof (induction d)
  case (Cons e d)
  obtain j p where e: "e = (j, p)" by (cases e)
  have d: "keyed d" and j: "folded_key p = j" "dget d j = None"
    using Cons.prems e by (auto simp: keyed_def dict_wf_def dkeys_def map_of_eq_None_iff)
  then show ?case using Cons.IH[OF d] e j by auto
qed simp

text \<open>Positions in the index are positions of nets of that folded name.\<close>

definition index_ok :: "net_intent list \<Rightarrow> (string, nat) dict \<Rightarrow> bool" where
  "index_ok nets by_name = (\<forall>name i. dget by_name name = Some i \<longrightarrow> i < length nets \<and> casefold (ni_name (nets ! i)) = name)"

definition on_net :: "string \<Rightarrow> string \<Rightarrow> net_intent list \<Rightarrow> bool" where
  "on_net k name nets = (\<exists>n\<in>set nets. ni_name n = name \<and> k \<in> folded_keys (ni_pins n))"

lemma on_net_nth: "on_net k name nets \<longleftrightarrow> (\<exists>j<length nets. ni_name (nets ! j) = name \<and> k \<in> folded_keys (ni_pins (nets ! j)))"
  by (auto simp: on_net_def in_set_conv_nth Bex_def)

lemma folded_keys_simps [simp]: "folded_keys [] = {}" "folded_keys (p # ps) = insert (folded_key p) (folded_keys ps)"
  "folded_keys (ps @ qs) = folded_keys ps \<union> folded_keys qs"
  "folded_keys (filter (\<lambda>p. folded_key p \<notin> K) ps) = folded_keys ps - K"
  "folded_keys (filter (\<lambda>p. folded_key p \<noteq> k) ps) = folded_keys ps - {k}"
  by (auto simp: folded_keys_def)

lemma move_pin_keys:
  "j < length (fst s) \<Longrightarrow> i < length (fst s) \<Longrightarrow> folded_keys (ni_pins (fst (move_pin i s p) ! j)) =
     (if j = i then insert (folded_key p) (folded_keys (ni_pins (fst s ! j))) else folded_keys (ni_pins (fst s ! j)) - {folded_key p})"
  by (auto simp: move_pin_def Let_def off_nets_def nth_list_update)

lemma map_eq_nth: "map f xs = map f ys \<Longrightarrow> j < length xs \<Longrightarrow> f (xs ! j) = f (ys ! j)"
  by (metis length_map nth_map)

lemmas names_nth = map_eq_nth[of ni_name]

lemma index_ok_names: "map ni_name xs = map ni_name ys \<Longrightarrow> index_ok xs by_name = index_ok ys by_name"
proof -
  assume a: "map ni_name xs = map ni_name ys"
  then have "length xs = length ys" by (metis length_map)
  then show ?thesis using names_nth[OF a] unfolding index_ok_def by metis
qed

lemma index_ok_new:
  "index_ok nets by_name \<Longrightarrow> casefold (ni_name n) = name \<Longrightarrow> index_ok (nets @ [n]) (dset name (length nets) by_name)"
  by (fastforce simp: index_ok_def dict_simps nth_append split: if_splits)

lemma moved_pins:
  assumes "i < length (fst s)"
  shows "map ni_name (fst (foldl (move_pin i) s ps)) = map ni_name (fst s) \<and>
    state_uses k (foldl (move_pin i) s ps) = (if k \<in> folded_keys ps then 1 else state_uses k s) \<and>
    (keyed (snd s) \<longrightarrow> keyed (snd (foldl (move_pin i) s ps))) \<and>
    dget (snd (foldl (move_pin i) s ps)) k = (if k \<in> folded_keys ps then None else dget (snd s) k) \<and>
    (\<forall>j<length (fst s). k \<in> folded_keys (ni_pins (fst (foldl (move_pin i) s ps) ! j)) \<longleftrightarrow>
      (if k \<in> folded_keys ps then j = i else k \<in> folded_keys (ni_pins (fst s ! j))))"
  using assms
proof (induction ps arbitrary: s)
  case (Cons p ps)
  have i: "i < length (fst (move_pin i s p))" using Cons.prems by simp
  have "keyed (snd s) \<Longrightarrow> keyed (snd (move_pin i s p))" by (simp add: move_pin_def Let_def)
  moreover have "dget (snd (move_pin i s p)) k = (if k = folded_key p then None else dget (snd s) k)"
    by (simp add: move_pin_def Let_def dict_simps)
  moreover have "k \<in> folded_keys (ni_pins (fst (foldl (move_pin i) s (p # ps)) ! j)) \<longleftrightarrow>
      (if k \<in> folded_keys (p # ps) then j = i else k \<in> folded_keys (ni_pins (fst s ! j)))" if "j < length (fst s)" for j
    using Cons.IH[OF i] that Cons.prems by (auto simp: move_pin_keys)
  ultimately show ?case using Cons.IH[OF i] Cons.prems by (auto simp: move_pin_uses)
qed simp

text \<open>What an update does: its pins are on its net and nowhere else, and no other pin moves.\<close>

definition upserted :: "net_intent \<Rightarrow> net_intent list \<times> no_connects \<Rightarrow> net_intent list \<times> no_connects \<Rightarrow> bool" where
  "upserted u s t =
     ((keyed (snd s) \<longrightarrow> keyed (snd t)) \<and>
      (\<forall>k. dget (snd t) k = (if k \<in> folded_keys (ni_pins u) then None else dget (snd s) k)) \<and>
      (\<forall>k. state_uses k t = (if k \<in> folded_keys (ni_pins u) then 1 else state_uses k s)) \<and>
      (\<forall>k\<in>folded_keys (ni_pins u). \<exists>name. casefold name = casefold (ni_name u) \<and> on_net k name (fst t)) \<and>
      (\<forall>k name. k \<notin> folded_keys (ni_pins u) \<longrightarrow> on_net k name (fst t) = on_net k name (fst s)))"

lemma moved_upserted:
  assumes i: "i < length nets" and name: "casefold (ni_name (nets ! i)) = casefold (ni_name u)"
    and same: "\<And>k. state_uses k (nets, nc) = state_uses k s" "\<And>k name. on_net k name nets = on_net k name (fst s)"
    and nc: "nc = snd s"
  shows "upserted u s (foldl (move_pin i) (nets, nc) (ni_pins u))"
proof -
  let ?t = "foldl (move_pin i) (nets, nc) (ni_pins u)"
  note moved = moved_pins[of i "(nets, nc)" "ni_pins u", simplified, OF i]
  have names: "map ni_name (fst ?t) = map ni_name nets" using moved by blast
  then have len: "length (fst ?t) = length nets" by (metis length_map)
  have "\<exists>name. casefold name = casefold (ni_name u) \<and> on_net k name (fst ?t)" if "k \<in> folded_keys (ni_pins u)" for k
  proof -
    have "k \<in> folded_keys (ni_pins (fst ?t ! i))" using moved[of k] that i by simp
    then have "on_net k (ni_name (fst ?t ! i)) (fst ?t)" using i len by (auto simp: on_net_nth)
    then show ?thesis using name names_nth[OF names] i len by metis
  qed
  moreover have "on_net k name (fst ?t) = on_net k name (fst s)" if "k \<notin> folded_keys (ni_pins u)" for k name
  proof -
    have "on_net k name (fst ?t) = on_net k name nets"
      using moved[of k] that len names_nth[OF names] by (auto simp: on_net_nth)
    then show ?thesis using same(2) by simp
  qed
  ultimately show ?thesis using moved same(1) nc unfolding upserted_def by fastforce
qed

lemma on_net_same:
  "map ni_name xs = map ni_name ys \<Longrightarrow> map ni_pins xs = map ni_pins ys \<Longrightarrow> on_net k name xs = on_net k name ys"
proof -
  assume a: "map ni_name xs = map ni_name ys" "map ni_pins xs = map ni_pins ys"
  then have "length xs = length ys" by (metis length_map)
  then show ?thesis using map_eq_nth[OF a(1)] map_eq_nth[OF a(2)] by (auto simp: on_net_nth)
qed

lemma upsert_net_step:
  assumes "index_ok (fst (fst s)) (snd s)"
  shows "upserted u (fst s) (fst (upsert_net s u)) \<and> index_ok (fst (fst (upsert_net s u))) (snd (upsert_net s u))"
proof -
  obtain nets nc by_name where s: "s = ((nets, nc), by_name)" by (metis prod.collapse)
  let ?name = "casefold (ni_name u)"
  show ?thesis
  proof (cases "dget by_name ?name")
    case None
    let ?nets = "nets @ [u\<lparr>ni_pins := []\<rparr>]"
    have out: "upsert_net s u = (foldl (move_pin (length nets)) (?nets, nc) (ni_pins u), dset ?name (length nets) by_name)"
      using None by (simp add: upsert_net_def s Let_def)
    have "upserted u (nets, nc) (foldl (move_pin (length nets)) (?nets, nc) (ni_pins u))"
      by (rule moved_upserted) (simp_all add: state_uses_def on_net_def)
    moreover have names: "map ni_name (fst (foldl (move_pin (length nets)) (?nets, nc) (ni_pins u))) = map ni_name ?nets"
      using moved_pins[of "length nets" "(?nets, nc)"] by simp
    moreover have "index_ok ?nets (dset ?name (length nets) by_name)"
      using assms s by (intro index_ok_new) simp_all
    then have "index_ok (fst (foldl (move_pin (length nets)) (?nets, nc) (ni_pins u))) (dset ?name (length nets) by_name)"
      unfolding index_ok_names[OF names] .
    ultimately show ?thesis using out s by simp
  next
    case (Some i)
    let ?nets = "if ni_purpose u \<noteq> [] then nets[i := (nets ! i)\<lparr>ni_purpose := ni_purpose u\<rparr>] else nets"
    have out: "upsert_net s u = (foldl (move_pin i) (?nets, nc) (ni_pins u), by_name)"
      using Some by (simp add: upsert_net_def s Let_def)
    have i: "i < length nets" "casefold (ni_name (nets ! i)) = ?name" using assms Some s by (auto simp: index_ok_def)
    have names: "map ni_name ?nets = map ni_name nets" and pins: "map ni_pins ?nets = map ni_pins nets"
      using i(1) by (simp_all add: map_update_same)
    have "upserted u (nets, nc) (foldl (move_pin i) (?nets, nc) (ni_pins u))"
    proof (rule moved_upserted)
      show "i < length ?nets" "casefold (ni_name (?nets ! i)) = ?name" using i by auto
      show "state_uses k (?nets, nc) = state_uses k (nets, nc)" for k using i(1) by (simp add: state_uses_def)
      show "on_net k name ?nets = on_net k name (fst (nets, nc))" for k name using on_net_same[OF names pins] by simp
    qed simp
    moreover have moved: "map ni_name (fst (foldl (move_pin i) (?nets, nc) (ni_pins u))) = map ni_name nets"
      using moved_pins[of i "(?nets, nc)"] i(1) names by simp
    have "index_ok (fst (foldl (move_pin i) (?nets, nc) (ni_pins u))) by_name"
      unfolding index_ok_names[OF moved] using assms s by simp
    ultimately show ?thesis using out s by simp
  qed
qed

subsection \<open>What a patch does\<close>

lemma net_index_from:
  "dget (foldl (\<lambda>d (i, n). dset (casefold (ni_name n)) i d) d es) name = Some i \<Longrightarrow>
     dget d name = Some i \<or> (\<exists>n. (i, n) \<in> set es \<and> casefold (ni_name n) = name)"
  by (induction es arbitrary: d) (fastforce simp: dict_simps split: if_splits)+

lemma net_index_ok: "index_ok nets (net_index nets)"
proof -
  have "i < length nets \<and> casefold (ni_name (nets ! i)) = name" if "dget (net_index nets) name = Some i" for name i
    using net_index_from[of "[]" "enumerate 0 nets" name i] that by (auto simp: net_index_def in_set_enumerate_eq)
  then show ?thesis by (simp add: index_ok_def)
qed

lemma upsert_nets:
  assumes "index_ok (fst (fst s)) (snd s)"
  shows "let t = fst (foldl upsert_net s us) in
    (keyed (snd (fst s)) \<longrightarrow> keyed (snd t)) \<and>
    (\<forall>k. dget (snd t) k = (if k \<in> folded_keys (concat (map ni_pins us)) then None else dget (snd (fst s)) k)) \<and>
    (\<forall>k. state_uses k t = (if k \<in> folded_keys (concat (map ni_pins us)) then 1 else state_uses k (fst s))) \<and>
    (\<forall>k name. k \<notin> folded_keys (concat (map ni_pins us)) \<longrightarrow> on_net k name (fst t) = on_net k name (fst (fst s))) \<and>
    (distinct (map folded_key (concat (map ni_pins us))) \<longrightarrow>
      (\<forall>u\<in>set us. \<forall>k\<in>folded_keys (ni_pins u). \<exists>name. casefold name = casefold (ni_name u) \<and> on_net k name (fst t)))"
  using assms
proof (induction us arbitrary: s)
  case (Cons u us)
  let ?s = "upsert_net s u"
  have up: "upserted u (fst s) (fst ?s)" and ok: "index_ok (fst (fst ?s)) (snd ?s)" using upsert_net_step[OF Cons.prems] by auto
  note ih = Cons.IH[OF ok, unfolded Let_def]
  let ?t = "fst (foldl upsert_net ?s us)"
  have "\<exists>name. casefold name = casefold (ni_name v) \<and> on_net k name (fst ?t)"
    if dist: "distinct (map folded_key (concat (map ni_pins (u # us))))" and v: "v \<in> set (u # us)" and k: "k \<in> folded_keys (ni_pins v)" for v k
  proof (cases "v \<in> set us")
    case True
    then show ?thesis using ih dist k by simp
  next
    case False
    then have vu: "v = u" using v by simp
    then have "k \<notin> folded_keys (concat (map ni_pins us))" using dist k by (auto simp: folded_keys_def)
    then have "on_net k name (fst ?t) = on_net k name (fst (fst ?s))" for name using ih by blast
    then show ?thesis using up k vu unfolding upserted_def by blast
  qed
  then show ?case using ih up unfolding upserted_def Let_def by simp
qed simp

lemma on_net_off: "on_net k name (off_nets K nets) \<longleftrightarrow> on_net k name nets \<and> k \<notin> K"
  by (auto simp: on_net_def off_nets_def)

lemma add_no_connects:
  "let t = foldl add_no_connect s ps in
    (keyed (snd s) \<longrightarrow> keyed (snd t)) \<and>
    (\<forall>k. state_uses k t = (if k \<in> folded_keys ps then 1 else state_uses k s)) \<and>
    (\<forall>k. k \<in> folded_keys ps \<longrightarrow> dget (snd t) k \<noteq> None \<and> uses k (fst t) = 0) \<and>
    (\<forall>k. k \<notin> folded_keys ps \<longrightarrow> dget (snd t) k = dget (snd s) k) \<and>
    (\<forall>k name. k \<notin> folded_keys ps \<longrightarrow> on_net k name (fst t) = on_net k name (fst s))"
proof (induction ps arbitrary: s)
  case (Cons p ps)
  let ?s = "add_no_connect s p"
  have step: "keyed (snd s) \<Longrightarrow> keyed (snd ?s)" "state_uses k ?s = (if k = folded_key p then 1 else state_uses k s)"
    "k \<noteq> folded_key p \<Longrightarrow> on_net k name (fst ?s) = on_net k name (fst s)" for k name
    by (auto simp: add_no_connect_def state_uses_def dict_simps on_net_off)
  have other: "k \<noteq> folded_key p \<Longrightarrow> dget (snd ?s) k = dget (snd s) k" for k by (simp add: add_no_connect_def dict_simps)
  have own: "dget (snd ?s) (folded_key p) \<noteq> None" "uses (folded_key p) (fst ?s) = 0" by (simp_all add: add_no_connect_def dict_simps)
  have stays: "dget (snd (foldl add_no_connect s' qs)) k \<noteq> None \<and> uses k (fst (foldl add_no_connect s' qs)) = 0"
    if "dget (snd s') k \<noteq> None \<and> uses k (fst s') = 0" for s' k qs
    using that by (induction qs arbitrary: s') (auto simp: add_no_connect_def dict_simps)
  show ?case using Cons.IH[of ?s] step own other stays[of ?s "folded_key p" ps] unfolding Let_def by auto
qed simp

lemma keyed_pins_get: "dget (keyed_pins ps) k = None \<longleftrightarrow> k \<notin> folded_keys ps"
proof -
  have "dget (foldl (\<lambda>d p. dset (folded_key p) p d) d ps) k = None \<longleftrightarrow> dget d k = None \<and> k \<notin> folded_keys ps" for d
    by (induction ps arbitrary: d) (auto simp: dict_simps)
  then show ?thesis by (simp add: keyed_pins_def)
qed

lemma uses_filter: "uses k (filter P nets) \<le> uses k nets"
  by (induction nets) auto

lemma uses_nonempty [simp]: "uses k (filter (\<lambda>n. ni_pins n \<noteq> []) nets) = uses k nets"
  by (induction nets) auto

lemma on_net_nonempty [simp]: "on_net k name (filter (\<lambda>n. ni_pins n \<noteq> []) nets) = on_net k name nets"
  by (auto simp: on_net_def)

lemma uses_on_net: "uses k nets = 0 \<longleftrightarrow> (\<forall>name. \<not> on_net k name nets)"
  by (auto simp: uses_def on_net_def folded_keys_def filter_empty_conv)

lemma removals:
  "keyed (snd (after_removals plan patch))"
  "exclusive plan \<Longrightarrow> state_uses k (after_removals plan patch) \<le> 1"
  "on_net k name (fst (after_removals plan patch)) \<longleftrightarrow>
     on_net k name (nl_nets plan) \<and> k \<notin> folded_keys (np_remove_pins patch) \<and> casefold name \<notin> casefold ` set (np_remove_nets patch)"
proof -
  let ?ps = "filter (\<lambda>p. folded_key p \<notin> folded_keys (np_remove_no_connect patch)) (nl_no_connect plan)"
  show "keyed (snd (after_removals plan patch))" by (simp add: after_removals_def keyed_pins_ok)
  show "on_net k name (fst (after_removals plan patch)) \<longleftrightarrow>
      on_net k name (nl_nets plan) \<and> k \<notin> folded_keys (np_remove_pins patch) \<and> casefold name \<notin> casefold ` set (np_remove_nets patch)"
    by (auto simp: after_removals_def on_net_off) (auto simp: on_net_def)
  assume "exclusive plan"
  then have plan: "uses k (nl_nets plan) + length (filter (\<lambda>p. folded_key p = k) (nl_no_connect plan)) \<le> 1" by (simp add: exclusive_def)
  have fewer: "uses k (fst (after_removals plan patch)) \<le> uses k (nl_nets plan)"
    using uses_filter by (simp add: after_removals_def)
  show "state_uses k (after_removals plan patch) \<le> 1"
  proof (cases "k \<in> folded_keys (nl_no_connect plan)")
    case True
    then have "0 < length (filter (\<lambda>p. folded_key p = k) (nl_no_connect plan))" by (auto simp: folded_keys_def filter_empty_conv)
    then have "uses k (fst (after_removals plan patch)) = 0" using plan fewer by linarith
    then show ?thesis by (simp add: state_uses_def)
  next
    case False
    then have "dget (snd (after_removals plan patch)) k = None" by (simp add: after_removals_def keyed_pins_get)
    then show ?thesis using plan fewer by (simp add: state_uses_def)
  qed
qed

lemma patch_facts:
  assumes "exclusive plan" and "apply_netlist_patch plan patch = out"
  shows "exclusive out \<and> (\<forall>n\<in>set (nl_nets out). ni_pins n \<noteq> []) \<and>
    (\<forall>k\<in>folded_keys (np_add_no_connect patch). k \<in> folded_keys (nl_no_connect out) \<and> (\<forall>name. \<not> on_net k name (nl_nets out))) \<and>
    (distinct (map folded_key (concat (map ni_pins (np_upserts patch)))) \<longrightarrow>
      (\<forall>u\<in>set (np_upserts patch). \<forall>k\<in>folded_keys (ni_pins u) - folded_keys (np_add_no_connect patch).
        \<exists>name. casefold name = casefold (ni_name u) \<and> on_net k name (nl_nets out))) \<and>
    (\<forall>k name. k \<notin> folded_keys (concat (map ni_pins (np_upserts patch))) \<union> folded_keys (np_add_no_connect patch) \<longrightarrow>
      on_net k name (nl_nets out) = (on_net k name (nl_nets plan) \<and> k \<notin> folded_keys (np_remove_pins patch) \<and>
        casefold name \<notin> casefold ` set (np_remove_nets patch))) \<and>
    (\<forall>k. k \<notin> folded_keys (concat (map ni_pins (np_upserts patch))) \<union> folded_keys (np_add_no_connect patch) \<longrightarrow>
      (k \<in> folded_keys (nl_no_connect out)) = (k \<in> folded_keys (nl_no_connect plan) \<and> k \<notin> folded_keys (np_remove_no_connect patch)))"
proof -
  let ?r = "after_removals plan patch"
  define s where "s = fst (foldl upsert_net (?r, net_index (fst ?r)) (np_upserts patch))"
  define t where "t = foldl add_no_connect s (np_add_no_connect patch)"
  have out: "nl_nets out = filter (\<lambda>n. ni_pins n \<noteq> []) (fst t)" "nl_no_connect out = map snd (snd t)"
    using assms(2) by (auto simp: apply_netlist_patch_def after_updates_def s_def t_def Let_def split: prod.splits)
  note up = upsert_nets[of "(?r, net_index (fst ?r))" "np_upserts patch", unfolded Let_def fst_conv snd_conv, OF net_index_ok, folded s_def]
  note add = add_no_connects[of s "np_add_no_connect patch", unfolded Let_def, folded t_def]
  have keyed: "keyed (snd t)" using up add removals(1) by blast
  have uses: "state_uses k t \<le> 1" for k using up add removals(2)[OF assms(1), of k patch] by auto
  have noc: "k \<in> folded_keys (nl_no_connect out) \<longleftrightarrow> dget (snd t) k \<noteq> None" for k
    using keyed by (force simp: out keyed_def folded_keys_def map_of_eq_None_iff)
  have "exclusive out"
    using uses keyed_count[OF keyed] by (simp add: exclusive_def out state_uses_def filter_map o_def)
  moreover have "(k \<in> folded_keys (nl_no_connect out)) = (k \<in> folded_keys (nl_no_connect plan) \<and> k \<notin> folded_keys (np_remove_no_connect patch))"
    if "k \<notin> folded_keys (concat (map ni_pins (np_upserts patch))) \<union> folded_keys (np_add_no_connect patch)" for k
  proof -
    have "dget (snd t) k = dget (snd ?r) k" using up add that by auto
    then show ?thesis by (simp add: noc after_removals_def keyed_pins_get)
  qed
  moreover have "k \<in> folded_keys (nl_no_connect out) \<and> (\<forall>name. \<not> on_net k name (nl_nets out))"
    if "k \<in> folded_keys (np_add_no_connect patch)" for k
  proof -
    have "dget (snd t) k \<noteq> None" "uses k (fst t) = 0" using add that by blast+
    then have "\<forall>name. \<not> on_net k name (nl_nets out)" by (simp add: out uses_on_net)
    then show ?thesis using noc[of k] \<open>dget (snd t) k \<noteq> None\<close> by blast
  qed
  moreover have "on_net k name (nl_nets out) = on_net k name (fst s)" if "k \<notin> folded_keys (np_add_no_connect patch)" for k name
    using add that by (simp add: out)
  ultimately show ?thesis using up removals(3) out(1) by simp
qed


definition sample_pin :: "string \<Rightarrow> string \<Rightarrow> logical_pin" where
  "sample_pin ref pin = \<lparr>lp_ref = ref, lp_pin = pin\<rparr>"

definition small_plan :: netlist where
  "small_plan = \<lparr>nl_additional_parts = [],
     nl_nets = [\<lparr>ni_name = ''VCC'', ni_kind = ''power'', ni_pins = [sample_pin ''U1'' ''1'', sample_pin ''U2'' ''1''], ni_purpose = []\<rparr>],
     nl_no_connect = [sample_pin ''U1'' ''2''], nl_supply = [''VCC''], nl_ground = ''GND'', nl_rationale = []\<rparr>"

definition pin_patch :: "string \<Rightarrow> string \<Rightarrow> logical_pin list \<Rightarrow> netlist_patch" where
  "pin_patch name kind pins = \<lparr>np_parts = [], np_remove_nets = [], np_remove_pins = [],
     np_upserts = [\<lparr>ni_name = name, ni_kind = kind, ni_pins = pins, ni_purpose = []\<rparr>], np_add_no_connect = [],
     np_remove_no_connect = []\<rparr>"

lemma exclusive_by_keys:
  "distinct (map folded_key (concat (map ni_pins (nl_nets n)) @ nl_no_connect n)) \<Longrightarrow> exclusive n"
proof -
  have "length (filter (\<lambda>p. folded_key p = k) ps) \<le> 1" if "distinct (map folded_key ps)" for k and ps :: "logical_pin list"
    using that by (induction ps) (auto simp: filter_empty_conv image_iff)
  then show "distinct (map folded_key (concat (map ni_pins (nl_nets n)) @ nl_no_connect n)) \<Longrightarrow> exclusive n"
    unfolding exclusive_def uses_def by (metis filter_append length_append)
qed


text \<open>A power update without pins leaves a supply name that no net has, and so does one in another case.\<close>

lemma dangling_supply:
  "nl_supply (apply_netlist_patch small_plan (pin_patch ''+5V'' ''power'' [])) = [''VCC'', ''+5V''] \<and>
   nl_supply (apply_netlist_patch small_plan (pin_patch ''vcc'' ''power'' [])) = [''VCC'', ''vcc''] \<and>
   map ni_name (nl_nets (apply_netlist_patch small_plan (pin_patch ''vcc'' ''power'' []))) = [''VCC'']"
  by code_simp

end
