(* ===== verification/CadActions.thy ===== *)
theory CadActions
  imports NetlistPatch RepairContracts
begin

text \<open>
  The governed mutations of a design: the contract of typed actions and their atomic batches,
  \<^verbatim>\<open>src/src/ratsnestpro/orchestration/entity_repairs.py\<close>; batches on the netlist and on the placement,
  \<^verbatim>\<open>src/src/ratsnestpro/orchestration/pipeline.py\<close>; and batches on the board with their receipts,
  \<^verbatim>\<open>src/src/ratsnestpro/eda/routing.py\<close>. Digests and the text of a batch are arguments, what the KiCad
  worker answers is an input, and a receipt that cannot be read is absent. A validator returns its
  first fault; floats are rationals. The path of an observation and the details of its results are not
  modelled.
\<close>

subsection \<open>Actions and their contract\<close>

datatype cad_operation =
    MoveFootprint | RotateFootprint | SwapFootprints | RipupNet | AddTrack | AddVia | ResizeTrack | RefillZones
  | MoveSilkscreen | UpsertNetPin | RemoveNetPin | SetNoConnect

datatype cad_kind = FootprintKind | NetKind | TrackKind | ViaKind | ZoneKind | SilkscreenKind | PinKind

record cad_target =
  ct_kind :: cad_kind
  ct_reference :: "string option"
  ct_net :: "string option"
  ct_item :: "string option"
  ct_pin :: "string option"
  ct_field :: "string option"

type_synonym cad_point = "rat \<times> rat"

record cad_precondition =
  pc_position :: "cad_point option"
  pc_rotation :: "rat option"
  pc_net :: "string option"
  pc_layer :: "string option"
  pc_count :: "int option"
  pc_unlocked :: bool

record cad_action =
  ac_id :: string
  ac_operation :: cad_operation
  ac_target :: cad_target
  ac_pre :: cad_precondition
  ac_position :: "cad_point option"
  ac_start :: "cad_point option"
  ac_end :: "cad_point option"
  ac_rotation :: "rat option"
  ac_other :: "string option"
  ac_layer :: "string option"
  ac_layers :: "(string \<times> string) option"
  ac_width :: "rat option"
  ac_diameter :: "rat option"
  ac_drill :: "rat option"

record cad_batch =
  cb_id :: string
  cb_key :: string
  cb_owner :: string
  cb_base :: string
  cb_actions :: "cad_action list"
  cb_checks :: "string list"

datatype cad_fault =
    FieldOutOfRange string | TargetNotNamed cad_kind | WrongTarget cad_operation cad_kind
  | MissingFields "string list" | UnexpectedFields "string list" | TrackWithoutLength | NotCopper | DrillTooLarge
  | SameLayer | NotSilkscreen | SwapWithItself | NetNotNamed | ActionIdsRepeat | NotOwned "cad_operation list"

definition text_within :: "string \<Rightarrow> nat \<Rightarrow> string option \<Rightarrow> (cad_fault, unit) result" where
  "text_within field hi v =
     demand (case v of None \<Rightarrow> True | Some s \<Rightarrow> 1 \<le> length s \<and> length s \<le> hi) (FieldOutOfRange field) (Inr ())"

definition number_within :: "string \<Rightarrow> rat \<Rightarrow> rat \<Rightarrow> rat option \<Rightarrow> (cad_fault, unit) result" where
  "number_within field lo hi v =
     demand (case v of None \<Rightarrow> True | Some x \<Rightarrow> lo \<le> x \<and> x \<le> hi) (FieldOutOfRange field) (Inr ())"

definition point_within :: "string \<Rightarrow> cad_point option \<Rightarrow> (cad_fault, unit) result" where
  "point_within field v =
     demand (case v of None \<Rightarrow> True | Some (x, y) \<Rightarrow> - 1000 \<le> x \<and> x \<le> 1000 \<and> - 1000 \<le> y \<and> y \<le> 1000)
       (FieldOutOfRange field) (Inr ())"

definition id_char :: "char \<Rightarrow> bool" where
  "id_char c = (c \<in> set ''ABCDEFGHIJKLMNOPQRSTUVWXYZabcdefghijklmnopqrstuvwxyz0123456789_.:-'')"

definition check_identifier :: "string \<Rightarrow> string \<Rightarrow> (cad_fault, unit) result" where
  "check_identifier field s = demand (8 \<le> length s \<and> length s \<le> 160 \<and> list_all id_char s) (FieldOutOfRange field) (Inr ())"

text \<open>A layer: a side or an inner layer with its number, then copper or silkscreen.\<close>

definition layer_side :: "string \<Rightarrow> bool" where
  "layer_side s = (s = ''F'' \<or> s = ''B'' \<or>
     (starts_with s ''In'' \<and> drop 2 s \<noteq> [] \<and> list_all (\<lambda>c. c \<in> set ''0123456789'') (drop 2 s)))"

definition layer_of :: "string \<Rightarrow> string \<Rightarrow> bool" where
  "layer_of material s = (ends_with s (CHR ''.'' # material) \<and> layer_side (take (length s - length material - 1) s))"

definition layer_name :: "string option \<Rightarrow> (cad_fault, unit) result" where
  "layer_name v =
     demand (case v of None \<Rightarrow> True | Some s \<Rightarrow> layer_of ''Cu'' s \<or> layer_of ''SilkS'' s) (FieldOutOfRange ''layer'') (Inr ())"

definition check_target :: "cad_target \<Rightarrow> (cad_fault, unit) result" where
  "check_target t =
     andthen (text_within ''reference'' 32 (ct_reference t))
    (andthen (text_within ''net'' 240 (ct_net t))
    (andthen (text_within ''item_uuid'' 160 (ct_item t))
    (andthen (text_within ''pin'' 48 (ct_pin t))
    (andthen (demand (ct_field t \<in> {None, Some ''reference'', Some ''value''}) (FieldOutOfRange ''field'') (Inr ()))
      (demand (case ct_kind t of
           FootprintKind \<Rightarrow> ct_reference t \<noteq> None
         | NetKind \<Rightarrow> ct_net t \<noteq> None
         | TrackKind \<Rightarrow> ct_item t \<noteq> None \<or> ct_net t \<noteq> None
         | ViaKind \<Rightarrow> ct_item t \<noteq> None \<or> ct_net t \<noteq> None
         | ZoneKind \<Rightarrow> True
         | SilkscreenKind \<Rightarrow> ct_reference t \<noteq> None \<and> ct_field t \<noteq> None
         | PinKind \<Rightarrow> ct_reference t \<noteq> None \<and> ct_pin t \<noteq> None) (TargetNotNamed (ct_kind t)) (Inr ()))))))"

definition check_precondition :: "cad_precondition \<Rightarrow> (cad_fault, unit) result" where
  "check_precondition p =
     andthen (point_within ''expected_position'' (pc_position p))
    (andthen (number_within ''expected_rotation_degrees'' (- 360) 360 (pc_rotation p))
    (andthen (text_within ''expected_net'' 240 (pc_net p))
    (andthen (layer_name (pc_layer p))
      (demand (case pc_count p of None \<Rightarrow> True | Some n \<Rightarrow> 0 \<le> n \<and> n \<le> 100000) (FieldOutOfRange ''expected_item_count'') (Inr ())))))"

fun expected_kinds :: "cad_operation \<Rightarrow> cad_kind list" where
  "expected_kinds MoveFootprint = [FootprintKind]"
| "expected_kinds RotateFootprint = [FootprintKind]"
| "expected_kinds SwapFootprints = [FootprintKind]"
| "expected_kinds RipupNet = [NetKind]"
| "expected_kinds AddTrack = [NetKind]"
| "expected_kinds AddVia = [NetKind]"
| "expected_kinds ResizeTrack = [TrackKind, NetKind]"
| "expected_kinds RefillZones = [ZoneKind]"
| "expected_kinds MoveSilkscreen = [SilkscreenKind]"
| "expected_kinds UpsertNetPin = [PinKind]"
| "expected_kinds RemoveNetPin = [PinKind]"
| "expected_kinds SetNoConnect = [PinKind]"

fun required_fields :: "cad_operation \<Rightarrow> string list" where
  "required_fields MoveFootprint = [''position'']"
| "required_fields RotateFootprint = [''rotation_degrees'']"
| "required_fields SwapFootprints = [''other_reference'']"
| "required_fields AddTrack = [''start'', ''end'', ''layer'', ''width_mm'']"
| "required_fields AddVia = [''position'', ''layer_pair'', ''diameter_mm'', ''drill_mm'']"
| "required_fields ResizeTrack = [''width_mm'']"
| "required_fields MoveSilkscreen = [''position'', ''layer'']"
| "required_fields _ = []"

definition given :: "string \<Rightarrow> 'a option \<Rightarrow> string list" where
  "given field v = (if v = None then [] else [field])"

definition provided_fields :: "cad_action \<Rightarrow> string list" where
  "provided_fields a =
     given ''position'' (ac_position a) @ given ''start'' (ac_start a) @ given ''end'' (ac_end a) @
     given ''rotation_degrees'' (ac_rotation a) @ given ''other_reference'' (ac_other a) @ given ''layer'' (ac_layer a) @
     given ''layer_pair'' (ac_layers a) @ given ''width_mm'' (ac_width a) @ given ''diameter_mm'' (ac_diameter a) @
     given ''drill_mm'' (ac_drill a)"

definition on_layer :: "string \<Rightarrow> string option \<Rightarrow> bool" where
  "on_layer suffix v = (case v of None \<Rightarrow> False | Some s \<Rightarrow> ends_with s suffix)"

definition check_via :: "cad_action \<Rightarrow> (cad_fault, unit) result" where
  "check_via a =
     andthen (demand (case (ac_drill a, ac_diameter a) of (Some d, Some w) \<Rightarrow> d < w | _ \<Rightarrow> True) DrillTooLarge (Inr ()))
       (case ac_layers a of
          None \<Rightarrow> Inr ()
        | Some (upper, lower) \<Rightarrow>
            andthen (demand (layer_of ''Cu'' upper \<and> layer_of ''Cu'' lower) NotCopper (Inr ()))
              (demand (upper \<noteq> lower) SameLayer (Inr ())))"

definition check_action :: "cad_action \<Rightarrow> (cad_fault, unit) result" where
  "check_action a =
     (let missing = filter (\<lambda>f. f \<notin> set (provided_fields a)) (required_fields (ac_operation a));
          unexpected = filter (\<lambda>f. f \<notin> set (required_fields (ac_operation a))) (provided_fields a)
      in andthen (check_identifier ''action_id'' (ac_id a))
        (andthen (check_target (ac_target a))
        (andthen (check_precondition (ac_pre a))
        (andthen (point_within ''position'' (ac_position a))
        (andthen (point_within ''start'' (ac_start a))
        (andthen (point_within ''end'' (ac_end a))
        (andthen (number_within ''rotation_degrees'' (- 360) 360 (ac_rotation a))
        (andthen (text_within ''other_reference'' 32 (ac_other a))
        (andthen (layer_name (ac_layer a))
        (andthen (number_within ''width_mm'' (25 / 1000) 20 (ac_width a))
        (andthen (number_within ''diameter_mm'' (1 / 10) 20 (ac_diameter a))
        (andthen (number_within ''drill_mm'' (5 / 100) 19 (ac_drill a))
        (andthen (demand (ct_kind (ac_target a) \<in> set (expected_kinds (ac_operation a)))
            (WrongTarget (ac_operation a) (ct_kind (ac_target a))) (Inr ()))
        (andthen (demand (missing = []) (MissingFields missing) (Inr ()))
        (andthen (demand (unexpected = []) (UnexpectedFields unexpected) (Inr ()))
        (andthen (demand (ac_operation a = AddTrack \<longrightarrow> ac_start a \<noteq> ac_end a) TrackWithoutLength (Inr ()))
        (andthen (demand (ac_operation a = AddTrack \<longrightarrow> on_layer ''.Cu'' (ac_layer a)) NotCopper (Inr ()))
        (andthen (if ac_operation a = AddVia then check_via a else Inr ())
        (andthen (demand (ac_operation a = MoveSilkscreen \<longrightarrow> on_layer ''.SilkS'' (ac_layer a)) NotSilkscreen (Inr ()))
        (andthen (demand (\<not> (ac_operation a = SwapFootprints \<and> ac_other a = ct_reference (ac_target a))) SwapWithItself (Inr ()))
          (demand (ac_operation a = UpsertNetPin \<longrightarrow> ct_net (ac_target a) \<noteq> None) NetNotNamed (Inr ()))))))))))))))))))))))"

fun allowed_owners :: "cad_operation \<Rightarrow> string list" where
  "allowed_owners MoveFootprint = [''layout_critical'', ''layout_general'', ''layout_write'', ''manufacture'']"
| "allowed_owners RotateFootprint = [''layout_critical'', ''layout_general'', ''layout_write'', ''manufacture'']"
| "allowed_owners SwapFootprints = [''layout_critical'', ''layout_general'', ''layout_write'', ''manufacture'']"
| "allowed_owners MoveSilkscreen = [''layout_write'', ''route_fab'', ''manufacture'']"
| "allowed_owners RipupNet = [''route_signals'', ''manufacture'']"
| "allowed_owners AddTrack = [''route_signals'', ''manufacture'']"
| "allowed_owners AddVia = [''route_signals'', ''manufacture'']"
| "allowed_owners ResizeTrack = [''route_signals'', ''manufacture'']"
| "allowed_owners RefillZones = [''route_planes'', ''route_signals'', ''manufacture'']"
| "allowed_owners UpsertNetPin = [''schematic_connections'']"
| "allowed_owners RemoveNetPin = [''schematic_connections'']"
| "allowed_owners SetNoConnect = [''schematic_connections'']"

definition owner_steps :: "string list" where
  "owner_steps = [''schematic_connections'', ''layout_partition'', ''layout_critical'', ''layout_general'', ''layout_write'',
     ''route_plan'', ''route_planes'', ''route_signals'', ''route_fab'', ''manufacture'']"

definition lower_hex64 :: "string \<Rightarrow> bool" where
  "lower_hex64 s = (length s = 64 \<and> list_all (\<lambda>c. c \<in> set ''0123456789abcdef'') s)"

definition check_cad_batch :: "cad_batch \<Rightarrow> (cad_fault, unit) result" where
  "check_cad_batch b =
     (let foreign = filter (\<lambda>p. cb_owner b \<notin> set (allowed_owners p)) (map ac_operation (cb_actions b))
      in andthen (check_identifier ''batch_id'' (cb_id b))
        (andthen (check_identifier ''idempotency_key'' (cb_key b))
        (andthen (demand (cb_owner b \<in> set owner_steps) (FieldOutOfRange ''owner_step'') (Inr ()))
        (andthen (demand (lower_hex64 (cb_base b)) (FieldOutOfRange ''base_artifact_fingerprint'') (Inr ()))
        (andthen (demand (1 \<le> length (cb_actions b) \<and> length (cb_actions b) \<le> 32) (FieldOutOfRange ''actions'') (Inr ()))
        (andthen (rbind (rmap check_action (cb_actions b)) (\<lambda>_. Inr ()))
        (andthen (demand (1 \<le> length (cb_checks b) \<and> length (cb_checks b) \<le> 32) (FieldOutOfRange ''success_checks'') (Inr ()))
        (andthen (demand (distinct (map ac_id (cb_actions b))) ActionIdsRepeat (Inr ()))
          (demand (foreign = []) (NotOwned foreign) (Inr ()))))))))))"

subsection \<open>What was observed\<close>

datatype cad_status = CadApplied | CadAlreadyApplied | CadRejected | CadError

datatype action_status = ActionApplied | ActionSkipped | ActionRejected | ActionError

record action_result =
  ar_action :: string
  ar_operation :: cad_operation
  ar_outcome :: action_status

record cad_observation =
  co_batch :: string
  co_key :: string
  co_status :: cad_status
  co_digest :: string
  co_before :: string
  co_after :: string
  co_results :: "action_result list"
  co_pending :: "string list"
  co_detail :: string

definition observed :: "cad_batch \<Rightarrow> cad_status \<Rightarrow> string \<Rightarrow> cad_observation" where
  "observed b status detail = \<lparr>co_batch = cb_id b, co_key = cb_key b, co_status = status, co_digest = [], co_before = [],
     co_after = [], co_results = [], co_pending = cb_checks b, co_detail = detail\<rparr>"

lemma action_fields:
  assumes "check_action a = Inr u"
  shows "set (provided_fields a) = set (required_fields (ac_operation a)) \<and>
    ct_kind (ac_target a) \<in> set (expected_kinds (ac_operation a))"
  using assms by (auto simp: check_action_def Let_def result_simps filter_empty_conv)

text \<open>An accepted batch has distinct actions that its owner may order, each with exactly its operation's fields.\<close>

lemma accepted_batch:
  assumes "check_cad_batch b = Inr u"
  shows "distinct (map ac_id (cb_actions b)) \<and> 1 \<le> length (cb_actions b) \<and> length (cb_actions b) \<le> 32 \<and>
    (\<forall>a\<in>set (cb_actions b). check_action a = Inr () \<and> cb_owner b \<in> set (allowed_owners (ac_operation a)))"
proof -
  obtain us where us: "rmap check_action (cb_actions b) = Inr us"
    using assms by (auto simp: check_cad_batch_def Let_def result_simps)
  have "check_action a = Inr ()" if "a \<in> set (cb_actions b)" for a
    using rmap_all2[OF us] that by (auto simp: list_all2_conv_all_nth in_set_conv_nth)
  then show ?thesis using assms by (auto simp: check_cad_batch_def Let_def result_simps filter_empty_conv)
qed

subsection \<open>Actions on the netlist\<close>

definition pin_assignment :: "netlist \<Rightarrow> logical_pin \<Rightarrow> string option" where
  "pin_assignment plan pin =
     (case find (\<lambda>n. list_ex (\<lambda>p. folded_key p = folded_key pin) (ni_pins n)) (nl_nets plan) of
        Some n \<Rightarrow> Some (ni_name n)
      | None \<Rightarrow> if list_ex (\<lambda>p. folded_key p = folded_key pin) (nl_no_connect plan) then Some ''__NO_CONNECT__'' else None)"

definition empty_patch :: "netlist \<Rightarrow> netlist_patch" where
  "empty_patch plan = \<lparr>np_parts = nl_additional_parts plan, np_remove_nets = [], np_remove_pins = [], np_upserts = [],
     np_add_no_connect = [], np_remove_no_connect = []\<rparr>"

text \<open>A target's reference and pin are given by its contract; \<^verbatim>\<open>str\<close> of a missing one is the word None.\<close>

definition python_str :: "string option \<Rightarrow> string" where
  "python_str v = (case v of None \<Rightarrow> ''None'' | Some s \<Rightarrow> s)"

definition target_pin :: "cad_action \<Rightarrow> logical_pin" where
  "target_pin a = \<lparr>lp_ref = python_str (ct_reference (ac_target a)), lp_pin = python_str (ct_pin (ac_target a))\<rparr>"

definition patch_of :: "netlist \<Rightarrow> cad_action \<Rightarrow> netlist_patch option" where
  "patch_of plan a =
     (let pin = target_pin a; name = python_str (ct_net (ac_target a)) in
      case ac_operation a of
        UpsertNetPin \<Rightarrow>
          Some ((empty_patch plan)\<lparr>np_upserts := [\<lparr>ni_name = name,
              ni_kind = (case netlist_net plan name of Some n \<Rightarrow> ni_kind n | None \<Rightarrow> ''signal''), ni_pins = [pin],
              ni_purpose = (case netlist_net plan name of Some n \<Rightarrow> ni_purpose n | None \<Rightarrow> [])\<rparr>],
            np_remove_no_connect := [pin]\<rparr>)
      | RemoveNetPin \<Rightarrow> Some ((empty_patch plan)\<lparr>np_remove_pins := [pin]\<rparr>)
      | SetNoConnect \<Rightarrow> Some ((empty_patch plan)\<lparr>np_add_no_connect := [pin]\<rparr>)
      | _ \<Rightarrow> None)"

definition applied_result :: "cad_action \<Rightarrow> action_result" where
  "applied_result a = \<lparr>ar_action = ac_id a, ar_operation = ac_operation a, ar_outcome = ActionApplied\<rparr>"

text \<open>
  The loop ends at the first action that is refused, with the results up to it. It also ends, with
  nothing, where the patch itself cannot be made: it carries the additional parts of the netlist, at
  most eight, while a netlist may have sixty-four.
\<close>

fun schematic_actions ::
  "netlist \<Rightarrow> action_result list \<Rightarrow> cad_action list \<Rightarrow>
     ((action_result list \<times> string) option, netlist \<times> action_result list) result" where
  "schematic_actions plan done [] = Inr (plan, done)"
| "schematic_actions plan done (a # as) =
     (if pc_net (ac_pre a) \<noteq> None \<and> pin_assignment plan (target_pin a) \<noteq> pc_net (ac_pre a)
      then Inl (Some (done @ [(applied_result a)\<lparr>ar_outcome := ActionRejected\<rparr>],
        ''a source-IR precondition failed; no action was committed''))
      else (case patch_of plan a of
          None \<Rightarrow> Inl (Some (done, ''not a source-IR action''))
        | Some patch \<Rightarrow>
            if 8 < length (np_parts patch) then Inl None
            else schematic_actions (apply_netlist_patch plan patch) (done @ [applied_result a]) as))"

text \<open>Nothing stands for the exception of a patch that cannot be made.\<close>

definition apply_schematic_batch :: "(netlist \<Rightarrow> string) \<Rightarrow> netlist \<Rightarrow> cad_batch \<Rightarrow> (netlist \<times> cad_observation) option" where
  "apply_schematic_batch sha plan b =
     (let before = sha plan; seen = (\<lambda>status detail. (observed b status detail)\<lparr>co_before := before\<rparr>) in
      if before \<noteq> cb_base b then Some (plan, seen CadRejected ''source-IR fingerprint no longer matches the planned batch'')
      else (case schematic_actions plan [] (cb_actions b) of
          Inl None \<Rightarrow> None
        | Inl (Some (results, detail)) \<Rightarrow> Some (plan, (seen CadRejected detail)\<lparr>co_results := results\<rparr>)
        | Inr (out, results) \<Rightarrow>
            Some (out, (seen (if sha out \<noteq> before then CadApplied else CadRejected)
                (if sha out \<noteq> before then ''typed source-IR actions committed; deterministic connection gates pending''
                 else ''batch produced no source-IR change''))\<lparr>co_after := sha out, co_results := results\<rparr>)))"

text \<open>What one action does to the pin it targets, and what it leaves.\<close>

definition settled_pin :: "cad_action \<Rightarrow> netlist \<Rightarrow> bool" where
  "settled_pin a n =
     (let k = folded_key (target_pin a) in
      case ac_operation a of
        UpsertNetPin \<Rightarrow> (\<exists>name. casefold name = casefold (python_str (ct_net (ac_target a))) \<and> on_net k name (nl_nets n))
      | RemoveNetPin \<Rightarrow> (\<forall>name. \<not> on_net k name (nl_nets n))
      | SetNoConnect \<Rightarrow> k \<in> folded_keys (nl_no_connect n) \<and> (\<forall>name. \<not> on_net k name (nl_nets n))
      | _ \<Rightarrow> False)"

definition same_pin :: "string \<Rightarrow> netlist \<Rightarrow> netlist \<Rightarrow> bool" where
  "same_pin k m n = ((\<forall>name. on_net k name (nl_nets m) = on_net k name (nl_nets n)) \<and>
     (k \<in> folded_keys (nl_no_connect m)) = (k \<in> folded_keys (nl_no_connect n)))"

lemma same_pin_trans: "same_pin k l m \<Longrightarrow> same_pin k m n \<Longrightarrow> same_pin k l n"
  by (simp add: same_pin_def)

lemma settled_same: "same_pin (folded_key (target_pin a)) m n \<Longrightarrow> settled_pin a m = settled_pin a n"
  by (simp add: settled_pin_def same_pin_def split: cad_operation.split)

lemma action_step:
  assumes ex: "exclusive plan" and patch: "patch_of plan a = Some patch"
  shows "exclusive (apply_netlist_patch plan patch) \<and> settled_pin a (apply_netlist_patch plan patch) \<and>
    (\<forall>k. k \<noteq> folded_key (target_pin a) \<longrightarrow> same_pin k (apply_netlist_patch plan patch) plan)"
proof -
  note facts = patch_facts[OF ex refl, of patch]
  have pins: "folded_keys (concat (map ni_pins (np_upserts patch))) \<union> folded_keys (np_add_no_connect patch) \<union>
      folded_keys (np_remove_pins patch) \<union> folded_keys (np_remove_no_connect patch) \<subseteq> {folded_key (target_pin a)}"
    "np_remove_nets patch = []" "distinct (map folded_key (concat (map ni_pins (np_upserts patch))))"
    using patch by (auto simp: patch_of_def empty_patch_def Let_def split: cad_operation.splits)
  have same: "same_pin k (apply_netlist_patch plan patch) plan" if "k \<noteq> folded_key (target_pin a)" for k
  proof -
    have k: "k \<notin> folded_keys (concat (map ni_pins (np_upserts patch))) \<union> folded_keys (np_add_no_connect patch)"
      "k \<notin> folded_keys (np_remove_pins patch)" "k \<notin> folded_keys (np_remove_no_connect patch)" using pins(1) that by auto
    then show ?thesis using facts pins(2) by (simp add: same_pin_def)
  qed
  have "settled_pin a (apply_netlist_patch plan patch)"
    using facts patch
    by (auto simp: settled_pin_def patch_of_def empty_patch_def Let_def split: cad_operation.splits)
  then show ?thesis using facts same by blast
qed

lemma schematic_actions_ok:
  "exclusive plan \<Longrightarrow> schematic_actions plan before as = Inr (out, results) \<Longrightarrow>
     exclusive out \<and> results = before @ map applied_result as \<and>
     (\<forall>k. k \<notin> folded_keys (map target_pin as) \<longrightarrow> same_pin k out plan) \<and>
     (distinct (map (folded_key \<circ> target_pin) as) \<longrightarrow> (\<forall>a\<in>set as. settled_pin a out))"
proof (induction as arbitrary: plan before)
  case (Cons a as)
  obtain patch where patch: "patch_of plan a = Some patch"
    and rest: "schematic_actions (apply_netlist_patch plan patch) (before @ [applied_result a]) as = Inr (out, results)"
    using Cons.prems(2) by (auto split: if_splits option.splits)
  note step = action_step[OF Cons.prems(1) patch]
  have ih: "exclusive out" "results = (before @ [applied_result a]) @ map applied_result as"
    "k \<notin> folded_keys (map target_pin as) \<Longrightarrow> same_pin k out (apply_netlist_patch plan patch)"
    "distinct (map (folded_key \<circ> target_pin) as) \<Longrightarrow> \<forall>a\<in>set as. settled_pin a out" for k
    using Cons.IH[OF _ rest] step by blast+
  have "settled_pin a out" if "distinct (map (folded_key \<circ> target_pin) (a # as))"
  proof -
    have "folded_key (target_pin a) \<notin> folded_keys (map target_pin as)" using that by (auto simp: folded_keys_def)
    then show ?thesis using settled_same[OF ih(3)] step by blast
  qed
  moreover have "same_pin k out plan" if "k \<notin> folded_keys (map target_pin (a # as))" for k
  proof -
    have "k \<noteq> folded_key (target_pin a)" "k \<notin> folded_keys (map target_pin as)" using that by simp_all
    then show ?thesis using ih(3)[of k] step same_pin_trans by blast
  qed
  ultimately show ?case using ih by (simp add: comp_def)
qed (simp add: same_pin_def)

text \<open>
  C31: A batch of actions on the netlist is atomic and exact. Either it is rejected and the netlist
  keeps its fingerprint, or it was planned on this very netlist, every action is applied and changes
  only the pin it targets, which ends on its net, off every net, or as a no-connect. The netlist
  stays exclusive in either case.
\<close>

theorem schematic_batch_exact:
  assumes "exclusive plan" and "apply_schematic_batch sha plan b = Some (out, obs)"
  shows "exclusive out \<and> co_status obs \<in> {CadApplied, CadRejected} \<and>
    (co_status obs = CadRejected \<longrightarrow> sha out = sha plan) \<and>
    (co_status obs = CadApplied \<longrightarrow> cb_base b = sha plan \<and> sha out \<noteq> sha plan \<and> co_after obs = sha out \<and>
      co_results obs = map applied_result (cb_actions b) \<and>
      (\<forall>k. k \<notin> folded_keys (map target_pin (cb_actions b)) \<longrightarrow> same_pin k out plan) \<and>
      (distinct (map (folded_key \<circ> target_pin) (cb_actions b)) \<longrightarrow> (\<forall>a\<in>set (cb_actions b). settled_pin a out)))"
  using assms schematic_actions_ok[OF assms(1), of "[]" "cb_actions b"]
  by (auto simp: apply_schematic_batch_def observed_def Let_def split: if_splits sum.splits option.splits)

definition pin_action :: "cad_operation \<Rightarrow> string \<Rightarrow> string option \<Rightarrow> string option \<Rightarrow> cad_action" where
  "pin_action operation pin net expected = \<lparr>ac_id = ''action-'' @ pin, ac_operation = operation,
     ac_target = \<lparr>ct_kind = PinKind, ct_reference = Some ''U1'', ct_net = net, ct_item = None, ct_pin = Some pin, ct_field = None\<rparr>,
     ac_pre = \<lparr>pc_position = None, pc_rotation = None, pc_net = expected, pc_layer = None, pc_count = None, pc_unlocked = True\<rparr>,
     ac_position = None, ac_start = None, ac_end = None, ac_rotation = None, ac_other = None, ac_layer = None, ac_layers = None,
     ac_width = None, ac_diameter = None, ac_drill = None\<rparr>"

definition pin_batch :: "cad_action list \<Rightarrow> cad_batch" where
  "pin_batch actions = \<lparr>cb_id = ''batch-01'', cb_key = ''key-0001'', cb_owner = ''schematic_connections'', cb_base = ''n1'',
     cb_actions = actions, cb_checks = [''erc'']\<rparr>"

definition count_nets :: "netlist \<Rightarrow> string" where
  "count_nets n = CHR ''n'' # nat_str (length (nl_nets n))"

lemma schematic_batch_exact_witness:
  "\<exists>out obs. apply_schematic_batch count_nets small_plan
      (pin_batch [pin_action UpsertNetPin ''2'' (Some ''SDA'') (Some ''__NO_CONNECT__''), pin_action SetNoConnect ''1'' None (Some ''VCC'')]) =
        Some (out, obs) \<and>
     co_status obs = CadApplied \<and> exclusive out \<and> (\<exists>name. casefold name = ''sda'' \<and> on_net ''u1:2'' name (nl_nets out))"
proof -
  let ?a = "pin_action UpsertNetPin ''2'' (Some ''SDA'') (Some ''__NO_CONNECT__'')"
  let ?as = "[?a, pin_action SetNoConnect ''1'' None (Some ''VCC'')]"
  have "distinct (map folded_key (concat (map ni_pins (nl_nets small_plan)) @ nl_no_connect small_plan))" by code_simp
  then have plan: "exclusive small_plan" by (rule exclusive_by_keys)
  have "map_option (co_status \<circ> snd) (apply_schematic_batch count_nets small_plan (pin_batch ?as)) = Some CadApplied" by code_simp
  then obtain out obs where run: "apply_schematic_batch count_nets small_plan (pin_batch ?as) = Some (out, obs)"
    and applied: "co_status obs = CadApplied" by auto
  have keys: "distinct (map (folded_key \<circ> target_pin) ?as)" "folded_key (target_pin ?a) = ''u1:2''" "casefold ''SDA'' = ''sda''"
    by code_simp+
  have actions: "cb_actions (pin_batch ?as) = ?as" by (simp add: pin_batch_def)
  have "settled_pin ?a out" using schematic_batch_exact[OF plan run] applied keys(1) unfolding actions by simp
  moreover have "ac_operation ?a = UpsertNetPin" "python_str (ct_net (ac_target ?a)) = ''SDA''"
    by (simp_all add: pin_action_def python_str_def)
  ultimately have "\<exists>name. casefold name = ''sda'' \<and> on_net ''u1:2'' name (nl_nets out)"
    unfolding settled_pin_def Let_def keys(2) by (simp add: keys(3))
  then show ?thesis using run applied schematic_batch_exact[OF plan run] by blast
qed

text \<open>A netlist with nine additional parts has no actions at all: making the patch raises.\<close>

lemma many_parts_raise:
  "apply_schematic_batch count_nets
     (small_plan\<lparr>nl_additional_parts := replicate 9 \<lparr>sp_ref = ''R1'', sp_symbol = [], sp_value = [], sp_footprint = [], sp_role = []\<rparr>\<rparr>)
     (pin_batch [pin_action RemoveNetPin ''1'' None None]) = None"
  by code_simp

subsection \<open>Actions on the placement\<close>

record placement =
  pp_ref :: string
  pp_x :: rat
  pp_y :: rat
  pp_rotation :: rat
  pp_side :: string

record placement_plan =
  pl_width :: rat
  pl_height :: rat
  pl_placements :: "placement list"

definition by_ref :: "placement list \<Rightarrow> (string, nat) dict" where
  "by_ref ps = foldl (\<lambda>d (i, p). dset (pp_ref p) i d) [] (enumerate 0 ps)"

text \<open>\<^verbatim>\<open>math.isclose\<close> with the absolute tolerance of the code, and the remainder of a rotation.\<close>

definition close_to :: "rat \<Rightarrow> rat \<Rightarrow> bool" where
  "close_to a b = (abs (a - b) \<le> max (max (abs a) (abs b) / 1000000000) (1 / 1000000))"

definition full_turn :: "rat \<Rightarrow> rat" where
  "full_turn r = r - 360 * of_int (floor (r / 360))"

definition placement_precondition :: "cad_action \<Rightarrow> placement \<Rightarrow> (string, unit) result" where
  "placement_precondition a p =
     andthen (demand (case pc_position (ac_pre a) of None \<Rightarrow> True
         | Some (x, y) \<Rightarrow> close_to (pp_x p) x \<and> close_to (pp_y p) y) ''position precondition failed'' (Inr ()))
    (andthen (demand (case pc_rotation (ac_pre a) of None \<Rightarrow> True
         | Some r \<Rightarrow> close_to (full_turn (pp_rotation p)) (full_turn r)) ''rotation precondition failed'' (Inr ()))
      (demand (pc_net (ac_pre a) = None \<and> pc_layer (ac_pre a) = None \<and> pc_count (ac_pre a) = None)
         ''PCB-only precondition cannot be verified on placement IR'' (Inr ())))"

definition place_action :: "placement list \<Rightarrow> cad_action \<Rightarrow> (string, placement list) result" where
  "place_action ps a =
     (case dget (by_ref ps) (python_str (ct_reference (ac_target a))) of
        None \<Rightarrow> Inl ''no such footprint''
      | Some i \<Rightarrow>
          andthen (placement_precondition a (ps ! i))
            (case (ac_operation a, ac_position a) of
               (MoveFootprint, Some (x, y)) \<Rightarrow> Inr (ps[i := (ps ! i)\<lparr>pp_x := x, pp_y := y\<rparr>])
             | (RotateFootprint, _) \<Rightarrow>
                 (case ac_rotation a of None \<Rightarrow> Inl ''no rotation'' | Some r \<Rightarrow> Inr (ps[i := (ps ! i)\<lparr>pp_rotation := full_turn r\<rparr>]))
             | (SwapFootprints, _) \<Rightarrow>
                 (case dget (by_ref ps) (python_str (ac_other a)) of
                    None \<Rightarrow> Inl ''no such footprint''
                  | Some j \<Rightarrow> Inr (ps[i := (ps ! i)\<lparr>pp_x := pp_x (ps ! j), pp_y := pp_y (ps ! j)\<rparr>,
                                     j := (ps ! j)\<lparr>pp_x := pp_x (ps ! i), pp_y := pp_y (ps ! i)\<rparr>]))
             | _ \<Rightarrow> Inl ''not a placement IR action''))"

definition placement_ok :: "placement \<Rightarrow> bool" where
  "placement_ok p = (- 10000 \<le> pp_x p \<and> pp_x p \<le> 10000 \<and> - 10000 \<le> pp_y p \<and> pp_y p \<le> 10000 \<and>
     0 \<le> pp_rotation p \<and> pp_rotation p < 360)"

definition apply_placement_batch :: "(placement_plan \<Rightarrow> string) \<Rightarrow> placement_plan \<Rightarrow> cad_batch \<Rightarrow> placement_plan \<times> cad_observation" where
  "apply_placement_batch sha plan b =
     (let before = sha plan; seen = (\<lambda>status detail. (observed b status detail)\<lparr>co_before := before\<rparr>) in
      if before \<noteq> cb_base b then (plan, seen CadRejected ''placement IR changed since inspection; inspect the new baseline'')
      else (case rfold place_action (pl_placements plan) (cb_actions b) of
          Inl why \<Rightarrow> (plan, seen CadRejected (''atomic placement batch rejected, no changes committed: '' @ why))
        | Inr ps \<Rightarrow>
            if \<not> (list_all placement_ok ps \<and> distinct (map pp_ref ps))
            then (plan, seen CadRejected ''atomic placement batch rejected, no changes committed: invalid placement'')
            else let out = plan\<lparr>pl_placements := ps\<rparr> in
              (out, (seen (if sha out \<noteq> before then CadApplied else CadRejected) ''candidate only; all layout gates must still pass'')
                \<lparr>co_after := sha out, co_results := map applied_result (cb_actions b)\<rparr>)))"

lemma by_ref_from:
  "dget (foldl (\<lambda>d (i, p). dset (pp_ref p) i d) d es) r = Some i \<Longrightarrow> dget d r = Some i \<or> (\<exists>p. (i, p) \<in> set es \<and> pp_ref p = r)"
  by (induction es arbitrary: d) (fastforce simp: dict_simps split: if_splits)+

lemma by_ref_nth: "dget (by_ref ps) r = Some i \<Longrightarrow> i < length ps \<and> pp_ref (ps ! i) = r"
  using by_ref_from[of "[]" "enumerate 0 ps" r i] by (auto simp: by_ref_def in_set_enumerate_eq)

text \<open>An action keeps the footprints, their order and sides, and moves only those it names.\<close>

definition moves_only :: "string set \<Rightarrow> placement list \<Rightarrow> placement list \<Rightarrow> bool" where
  "moves_only R ps qs = list_all2 (\<lambda>p q. pp_ref q = pp_ref p \<and> pp_side q = pp_side p \<and> (pp_ref p \<notin> R \<longrightarrow> q = p)) ps qs"

lemma moves_only_update:
  "i < length ps \<Longrightarrow> pp_ref q = pp_ref (ps ! i) \<Longrightarrow> pp_side q = pp_side (ps ! i) \<Longrightarrow> pp_ref q \<in> R \<Longrightarrow> moves_only R ps (ps[i := q])"
  by (simp add: moves_only_def list_all2_conv_all_nth nth_list_update)

lemma moves_only_trans: "moves_only R ps qs \<Longrightarrow> moves_only S qs rs \<Longrightarrow> moves_only (R \<union> S) ps rs"
  by (fastforce simp: moves_only_def list_all2_conv_all_nth)

definition named_refs :: "cad_action \<Rightarrow> string set" where
  "named_refs a = {python_str (ct_reference (ac_target a)), python_str (ac_other a)}"

lemma place_action_moves:
  assumes "place_action ps a = Inr qs"
  shows "moves_only (named_refs a) ps qs"
proof -
  obtain i where i: "dget (by_ref ps) (python_str (ct_reference (ac_target a))) = Some i"
    using assms by (auto simp: place_action_def split: option.splits)
  note at = by_ref_nth[OF i]
  show ?thesis
  proof (cases "\<exists>j. ac_operation a = SwapFootprints \<and> dget (by_ref ps) (python_str (ac_other a)) = Some j")
    case True
    then obtain j where swap: "ac_operation a = SwapFootprints" and j: "dget (by_ref ps) (python_str (ac_other a)) = Some j" by blast
    have "qs = ps[i := (ps ! i)\<lparr>pp_x := pp_x (ps ! j), pp_y := pp_y (ps ! j)\<rparr>,
        j := (ps ! j)\<lparr>pp_x := pp_x (ps ! i), pp_y := pp_y (ps ! i)\<rparr>]"
      using assms i j swap by (auto simp: place_action_def result_simps)
    then show ?thesis using at by_ref_nth[OF j]
      by (auto simp: moves_only_def list_all2_conv_all_nth nth_list_update named_refs_def)
  next
    case False
    then obtain q where "qs = ps[i := q]" "pp_ref q = pp_ref (ps ! i)" "pp_side q = pp_side (ps ! i)"
      using assms i by (auto simp: place_action_def result_simps split: cad_operation.splits option.splits prod.splits)
    then show ?thesis using at moves_only_update[of i ps q] by (simp add: named_refs_def)
  qed
qed

lemma place_actions_move: "rfold place_action ps as = Inr qs \<Longrightarrow> moves_only (\<Union> (named_refs ` set as)) ps qs"
proof (induction as arbitrary: ps)
  case Nil
  then show ?case by (simp add: moves_only_def list_all2_refl)
next
  case (Cons a as)
  then obtain rs where "place_action ps a = Inr rs" "rfold place_action rs as = Inr qs" by (auto simp: result_simps)
  then show ?case using moves_only_trans[OF place_action_moves] Cons.IH by simp
qed

lemma placement_batch_frame:
  assumes "apply_placement_batch sha plan b = (out, obs)"
  shows "pl_width out = pl_width plan \<and> pl_height out = pl_height plan \<and>
    moves_only (\<Union> (named_refs ` set (cb_actions b))) (pl_placements plan) (pl_placements out) \<and>
    (co_status obs = CadApplied \<longrightarrow> cb_base b = sha plan \<and> sha out \<noteq> sha plan \<and> list_all placement_ok (pl_placements out)) \<and>
    (co_status obs \<noteq> CadApplied \<longrightarrow> sha out = sha plan)"
  using assms place_actions_move[of "pl_placements plan" "cb_actions b"]
  by (auto simp: apply_placement_batch_def observed_def Let_def moves_only_def list_all2_refl split: if_splits sum.splits)

subsection \<open>Actions on the board\<close>

text \<open>What a run's directory holds for this: the board, and the receipts by the digest of their key.\<close>

record cad_files =
  cf_board :: "string option"
  cf_receipts :: "(string, string \<times> cad_observation option) dict"

record cad_digests =
  cd_sha :: "string \<Rightarrow> string"
  cd_dump :: "cad_batch \<Rightarrow> string"

definition batch_digest :: "cad_digests \<Rightarrow> cad_batch \<Rightarrow> string" where
  "batch_digest H b = cd_sha H (cd_dump H b)"

text \<open>The board lies inside the run's directory and has the suffix; both paths are resolved, as their parts.\<close>

definition run_scoped :: "string list \<Rightarrow> string list \<Rightarrow> bool" where
  "run_scoped dir path = (take (length dir) path = dir \<and> path \<noteq> [] \<and> casefold (name_suffix (last path)) = ''.kicad_pcb'')"

text \<open>
  How the worker answers: not at all, without a result, with results that are malformed, or with
  success or not, its error, the digest it reports, the results, and the candidate file.
\<close>

datatype worker_answer =
    WorkerFailed | NoResult | MalformedResults
  | WorkerAnswer bool string string "action_result list" "string option"

definition board_observed :: "cad_digests \<Rightarrow> cad_batch \<Rightarrow> cad_status \<Rightarrow> string \<Rightarrow> string \<Rightarrow> cad_observation" where
  "board_observed H b status before detail = (observed b status detail)\<lparr>co_digest := batch_digest H b, co_before := before\<rparr>"

text \<open>Before the worker runs: an answer that needs no work, or the digest of the board it starts from.\<close>

definition admit_batch ::
  "cad_digests \<Rightarrow> string list \<Rightarrow> string list \<Rightarrow> bool \<Rightarrow> cad_batch \<Rightarrow> cad_files \<Rightarrow> (cad_observation, string) result" where
  "admit_batch H dir path kicad b F =
     (case cf_board F of
        None \<Rightarrow> Inl (board_observed H b CadRejected [] ''PCB artifact is missing'')
      | Some board \<Rightarrow>
          if \<not> run_scoped dir path \<or> board = [] then Inl (board_observed H b CadRejected [] ''PCB artifact is out of scope'')
          else let before = cd_sha H board;
                   go_on = (if before \<noteq> cb_base b
                     then Inl (board_observed H b CadRejected before ''artifact fingerprint no longer matches the planned CAD batch'')
                     else if \<not> kicad then Inl (board_observed H b CadError before ''KiCad-python is unavailable'')
                     else Inr before)
            in case dget (cf_receipts F) (cd_sha H (cb_key b)) of
                 None \<Rightarrow> go_on
               | Some (digest, prior) \<Rightarrow>
                   if digest \<noteq> batch_digest H b
                   then Inl (board_observed H b CadRejected before ''idempotency key is already bound to a different CAD batch'')
                   else (case prior of
                       None \<Rightarrow> go_on
                     | Some o' \<Rightarrow>
                         if co_status o' \<in> {CadApplied, CadAlreadyApplied} \<and> co_after o' \<noteq> [] \<and> before = co_after o'
                         then Inl (o'\<lparr>co_status := CadAlreadyApplied,
                           co_detail := ''idempotent replay; artifact already contains the batch''\<rparr>)
                         else go_on))"

definition judge_worker ::
  "cad_digests \<Rightarrow> cad_batch \<Rightarrow> string \<Rightarrow> worker_answer \<Rightarrow> (cad_observation, string \<times> action_result list) result" where
  "judge_worker H b before answer =
     (case answer of
        WorkerFailed \<Rightarrow> Inl (board_observed H b CadError before ''CAD worker invocation failed'')
      | NoResult \<Rightarrow> Inl (board_observed H b CadError before ''CAD worker returned no structured result'')
      | MalformedResults \<Rightarrow> Inl (board_observed H b CadError before ''CAD worker returned an invalid action receipt'')
      | WorkerAnswer success fault reported results file \<Rightarrow>
          (let seen = (\<lambda>status detail. (board_observed H b status before detail)\<lparr>co_results := results\<rparr>) in
           if \<not> success \<or> fault \<noteq> [] then Inl (seen CadError (if fault \<noteq> [] then fault else ''CAD worker rejected the candidate''))
           else (case file of
               None \<Rightarrow> Inl (seen CadError ''CAD worker reported success without a candidate artifact'')
             | Some new \<Rightarrow>
                 if new = [] then Inl (seen CadError ''CAD worker reported success without a candidate artifact'')
                 else if reported \<noteq> cd_sha H new then Inl (seen CadError ''CAD candidate fingerprint differs from the worker receipt'')
                 else if cd_sha H new = before
                 then Inl ((seen CadRejected ''CAD batch produced no artifact change'')\<lparr>co_after := cd_sha H new\<rparr>)
                 else Inr (new, results))))"

definition commit_candidate :: "cad_digests \<Rightarrow> cad_batch \<Rightarrow> string \<Rightarrow> string \<times> action_result list \<Rightarrow> cad_files \<Rightarrow> cad_observation \<times> cad_files" where
  "commit_candidate H b before candidate F =
     (let new = fst candidate;
          seen = (board_observed H b CadApplied before ''candidate committed; downstream success checks are required'')
            \<lparr>co_after := cd_sha H new, co_results := snd candidate\<rparr>
      in (seen, F\<lparr>cf_board := Some new, cf_receipts := dset (cd_sha H (cb_key b)) (batch_digest H b, Some seen) (cf_receipts F)\<rparr>))"

text \<open>
  The whole call; what others do to the files while the worker runs is a function. Nothing stands for
  the exception of a board that vanished meanwhile.
\<close>

definition apply_cad_batch ::
  "cad_digests \<Rightarrow> string list \<Rightarrow> string list \<Rightarrow> bool \<Rightarrow> cad_batch \<Rightarrow> worker_answer \<Rightarrow> (cad_files \<Rightarrow> cad_files) \<Rightarrow> cad_files \<Rightarrow>
     (cad_observation \<times> cad_files) option" where
  "apply_cad_batch H dir path kicad b answer others F =
     (case admit_batch H dir path kicad b F of
        Inl obs \<Rightarrow> Some (obs, F)
      | Inr before \<Rightarrow>
          (let F1 = others F in
           case judge_worker H b before answer of
             Inl obs \<Rightarrow> Some (obs, F1)
           | Inr candidate \<Rightarrow>
               (case cf_board F1 of
                  None \<Rightarrow> None
                | Some now \<Rightarrow>
                    if cd_sha H now \<noteq> before
                    then Some ((board_observed H b CadRejected before ''source PCB changed concurrently; candidate was discarded'')
                      \<lparr>co_results := snd candidate\<rparr>, F1)
                    else Some (commit_candidate H b before candidate F1))))"

lemma admit_not_applied: "admit_batch H dir path kicad b F = Inl obs \<Longrightarrow> co_status obs \<noteq> CadApplied"
  by (auto simp: admit_batch_def board_observed_def observed_def Let_def split: option.splits if_splits)

lemma admitted: "admit_batch H dir path kicad b F = Inr before \<Longrightarrow> 
     \<exists>board. cf_board F = Some board \<and> cd_sha H board = before \<and> before = cb_base b \<and> run_scoped dir path"
  by (auto simp: admit_batch_def Let_def split: option.splits if_splits)

lemma judge_not_applied: "judge_worker H b before answer = Inl obs \<Longrightarrow> co_status obs \<noteq> CadApplied"
  by (auto simp: judge_worker_def board_observed_def observed_def Let_def split: worker_answer.splits option.splits if_splits)

lemma judged: "judge_worker H b before answer = Inr (new, results) \<Longrightarrow>
    answer = WorkerAnswer True [] (cd_sha H new) results (Some new) \<and> new \<noteq> [] \<and> cd_sha H new \<noteq> before"
  by (auto simp: judge_worker_def Let_def split: worker_answer.splits option.splits if_splits)

lemma replayed:
  assumes "co_status o' = CadApplied" "co_after o' \<noteq> []" "cf_board F = Some board" "cd_sha H board = co_after o'"
    "dget (cf_receipts F) (cd_sha H (cb_key b)) = Some (batch_digest H b, Some o')" "run_scoped dir path" "board \<noteq> []"
  shows "apply_cad_batch H dir path kicad b answer others F =
    Some (o'\<lparr>co_status := CadAlreadyApplied, co_detail := ''idempotent replay; artifact already contains the batch''\<rparr>, F)"
  using assms by (simp add: apply_cad_batch_def admit_batch_def Let_def)

lemma key_taken:
  assumes "dget (cf_receipts F) (cd_sha H (cb_key b)) = Some (digest, prior)" "digest \<noteq> batch_digest H b" "cf_board F = Some board"
    "run_scoped dir path" "board \<noteq> []"
  shows "\<exists>o'. co_status o' = CadRejected \<and> apply_cad_batch H dir path kicad b answer others F = Some (o', F)"
  using assms by (simp add: apply_cad_batch_def admit_batch_def board_observed_def observed_def Let_def)

text \<open>
  C32: The board is changed by a batch only when it was planned on the very board found at the start
  and again after the worker, and then to the candidate the worker reported, a different board, with a
  receipt. A batch that was applied is not applied again: its replay on that board changes nothing
  and needs no worker, and another batch under its key is rejected.
\<close>

theorem cad_batch_safe:
  assumes "apply_cad_batch H dir path kicad b answer others F = Some (obs, F')" and digest: "\<And>s. cd_sha H s \<noteq> []"
  shows "(co_status obs \<noteq> CadApplied \<longrightarrow> F' = F \<or> F' = others F) \<and>
    (co_status obs = CadApplied \<longrightarrow>
      (\<exists>old now new results. cf_board F = Some old \<and> cd_sha H old = cb_base b \<and>
        cf_board (others F) = Some now \<and> cd_sha H now = cb_base b \<and>
        answer = WorkerAnswer True [] (cd_sha H new) results (Some new) \<and> new \<noteq> [] \<and> cd_sha H new \<noteq> cb_base b \<and>
        cf_board F' = Some new \<and> co_before obs = cb_base b \<and> co_after obs = cd_sha H new) \<and>
      (\<forall>kicad' answer' others'. apply_cad_batch H dir path kicad' b answer' others' F' =
        Some (obs\<lparr>co_status := CadAlreadyApplied, co_detail := ''idempotent replay; artifact already contains the batch''\<rparr>, F')) \<and>
      (\<forall>b' kicad' answer' others'. cb_key b' = cb_key b \<longrightarrow> batch_digest H b' \<noteq> batch_digest H b \<longrightarrow>
        (\<exists>o'. co_status o' = CadRejected \<and> apply_cad_batch H dir path kicad' b' answer' others' F' = Some (o', F'))))"
proof (cases "admit_batch H dir path kicad b F")
  case (Inl o')
  then show ?thesis using assms(1) admit_not_applied[OF Inl] by (auto simp: apply_cad_batch_def)
next
  case admit: (Inr before)
  obtain old where old: "cf_board F = Some old" "cd_sha H old = before" "before = cb_base b" "run_scoped dir path"
    using admitted[OF admit] by blast
  show ?thesis
  proof (cases "judge_worker H b before answer")
    case (Inl o')
    then show ?thesis using assms(1) admit judge_not_applied[OF Inl] by (auto simp: apply_cad_batch_def Let_def)
  next
    case (Inr candidate)
    obtain new results where c: "candidate = (new, results)" by (cases candidate)
    note ok = judged[OF Inr[unfolded c]]
    obtain now where now: "cf_board (others F) = Some now"
      using assms(1) admit Inr by (auto simp: apply_cad_batch_def Let_def split: option.splits)
    show ?thesis
    proof (cases "cd_sha H now = before")
      case False
      then show ?thesis using assms(1) admit Inr now by (auto simp: apply_cad_batch_def board_observed_def observed_def Let_def)
    next
      case True
      then have run: "(obs, F') = commit_candidate H b before candidate (others F)"
        using assms(1) admit Inr now by (simp add: apply_cad_batch_def Let_def)
      then have obs: "co_status obs = CadApplied" "co_before obs = before" "co_after obs = cd_sha H new"
        and F': "cf_board F' = Some new" "dget (cf_receipts F') (cd_sha H (cb_key b)) = Some (batch_digest H b, Some obs)"
        by (auto simp: commit_candidate_def board_observed_def observed_def Let_def c dict_simps)
      have "apply_cad_batch H dir path kicad' b answer' others' F' =
          Some (obs\<lparr>co_status := CadAlreadyApplied, co_detail := ''idempotent replay; artifact already contains the batch''\<rparr>, F')"
        for kicad' answer' others'
        using obs F' digest old(4) ok by (intro replayed[of _ _ new]) simp_all
      moreover have "\<exists>o'. co_status o' = CadRejected \<and> apply_cad_batch H dir path kicad' b' answer' others' F' = Some (o', F')"
        if "cb_key b' = cb_key b" "batch_digest H b' \<noteq> batch_digest H b" for b' kicad' answer' others'
        using that F' old(4) ok by (intro key_taken[of _ _ _ "batch_digest H b" "Some obs" new]) simp_all
      moreover have "\<exists>old now new results. cf_board F = Some old \<and> cd_sha H old = cb_base b \<and>
          cf_board (others F) = Some now \<and> cd_sha H now = cb_base b \<and>
          answer = WorkerAnswer True [] (cd_sha H new) results (Some new) \<and> new \<noteq> [] \<and> cd_sha H new \<noteq> cb_base b \<and>
          cf_board F' = Some new \<and> co_before obs = cb_base b \<and> co_after obs = cd_sha H new"
        by (intro exI[of _ old] exI[of _ now] exI[of _ new] exI[of _ results]) (use obs F' ok old now True in simp)
      ultimately show ?thesis using obs(1) by simp
    qed
  qed
qed

definition sample_digests :: cad_digests where
  "sample_digests = \<lparr>cd_sha = (\<lambda>s. CHR ''h'' # s), cd_dump = cb_id\<rparr>"

definition board_batch :: "string \<Rightarrow> cad_batch" where
  "board_batch base = (pin_batch [])\<lparr>cb_owner := ''route_signals'', cb_base := base\<rparr>"

definition sample_run :: "(cad_observation \<times> cad_files) option" where
  "sample_run = apply_cad_batch sample_digests [''out''] [''out'', ''b.kicad_pcb''] True (board_batch ''hA'') (WorkerAnswer True [] ''hB'' [] (Some ''B'')) (\<lambda>F. F)
     \<lparr>cf_board = Some ''A'', cf_receipts = []\<rparr>"

lemma cad_batch_safe_witness:
  "\<exists>obs F. sample_run = Some (obs, F) \<and> cf_board F = Some ''B'' \<and>
     (\<exists>o'. apply_cad_batch sample_digests [''out''] [''out'', ''b.kicad_pcb''] False (board_batch ''hA'') WorkerFailed (\<lambda>F. F) F = Some (o', F))"
proof -
  have "map_option (co_status \<circ> fst) sample_run = Some CadApplied" by code_simp
  then obtain obs F where run: "sample_run = Some (obs, F)" and applied: "co_status obs = CadApplied" by auto
  have sha: "cd_sha sample_digests s \<noteq> []" for s by (simp add: sample_digests_def)
  have "map_option (cf_board \<circ> snd) sample_run = Some (Some ''B'')" by code_simp
  then have "cf_board F = Some ''B''" unfolding run by simp
  moreover have "\<exists>o'. apply_cad_batch sample_digests [''out''] [''out'', ''b.kicad_pcb''] False (board_batch ''hA'') WorkerFailed (\<lambda>F. F) F = Some (o', F)"
    using cad_batch_safe[OF run[unfolded sample_run_def] sha] applied by blast
  ultimately show ?thesis using run by blast
qed

text \<open>
  A crash between the replacement of the board and its receipt: the batch is in the board, and its
  replay is rejected as planned on another board.
\<close>

lemma crash_forgets:
  "map_option (\<lambda>(o', F). (co_status o', co_detail o'))
     (apply_cad_batch sample_digests [''out''] [''out'', ''b.kicad_pcb''] True (board_batch ''hA'') (WorkerAnswer True [] ''hB'' [] (Some ''B'')) (\<lambda>F. F)
        \<lparr>cf_board = Some ''B'', cf_receipts = []\<rparr>) =
   Some (CadRejected, ''artifact fingerprint no longer matches the planned CAD batch'')"
  by code_simp

end
