(* ===== verification/Spec2Isabelle.thy ===== *)
theory Spec2Isabelle
  imports Sexpr Connectivity RunRegistry ConnectionPlan Workflow BoardHost RepairTransaction DriverAudit SharedExecution AuditRelay Decisions WarningContract CadActions
begin

text \<open>
  A verification library for the KiCad design multi-agent system. The program turns a requirement
  into a KiCad project: a service accepts a request and owns its run, a Temporal workflow or the
  service itself executes the design pipeline, the pipeline's steps propose, check and repair
  artifacts (topology, parts, connections, placement, routing, review), and a repair session may let
  a model change one board inside a sandbox. All paths below are under \<^verbatim>\<open>src/src/\<close>.

  Theories and what they model.

  \<^item> \<open>Prelude\<close>: results with an error, Python strings (characters up to code point 255), dictionaries
    in insertion order, and the lemma collections the components share. \<open>Json\<close>: JSON values and
    their canonical text. \<open>Systems\<close>: reachable states, and the locales \<open>safe_system\<close> (an invariant of
    every step), \<open>monotone_system\<close> (with a version that never decreases) and \<open>codec\<close> (a writer and its
    reader).
  \<^item> \<open>Sexpr\<close>, \<open>Connectivity\<close>: \<^verbatim>\<open>ratsnestpro/eda/vendor/sexpr.py\<close> and \<^verbatim>\<open>connectivity.py\<close>: the parser and
    writer of KiCad's text format, and the nets of a schematic by union-find. The interpretation
    \<open>sx\<close> of \<open>codec\<close> is the round trip; \<open>uf\<close> is the equivalence of the optimised find and union with
    the equivalence closure of the unioned pairs.
  \<^item> \<open>DesignContracts\<close>: \<^verbatim>\<open>orchestration/pipeline_contracts.py\<close>, the artifacts the steps exchange.
    \<open>ConnectionContracts\<close>, \<open>ConnectionMerge\<close>, \<open>ConnectionPlan\<close>: \<^verbatim>\<open>orchestration/connection_synthesis.py\<close>:
    batches of references under token estimates, the merge of one delta into the checkpoint, the
    plan, its fingerprint and its resumption. The planning loops are structural or carry measures.
    \<open>NetlistPatch\<close>: the bounded repair of a netlist in \<^verbatim>\<open>pipeline.py\<close>. \<open>CadActions\<close>: typed mutations and
    their batches on the netlist (by such patches), the placement and the board,
    \<^verbatim>\<open>orchestration/entity_repairs.py\<close>, \<^verbatim>\<open>pipeline.py\<close> and \<^verbatim>\<open>eda/routing.py\<close>.
  \<^item> \<open>Ahe\<close>, \<open>CandidateFiles\<close>, \<open>PipelineState\<close>, \<open>StepRepair\<close>, \<open>StepContract\<close>: \<^verbatim>\<open>orchestration/ahe.py\<close> and the
    engine of \<^verbatim>\<open>orchestration/pipeline.py\<close>: failures and their attribution, the snapshots of a run's
    files, the state, and \<^verbatim>\<open>PipelineStepBase.run\<close> with its repair loop. What a concrete step does is a
    record of functions that may fail at any point; what an action may do is stated by the calculus
    of \<open>outcome_in\<close>: what holds after it returned and what holds after it raised.
  \<^item> \<open>PipelineDriver\<close>, \<open>DriverOutcomes\<close>, \<open>DriverGates\<close>, \<open>DriverAudit\<close>: \<^verbatim>\<open>Pipeline.run\<close>: the loop over
    the steps, the verdicts, recovery turns and replans. It relies on the locale \<open>step_engine\<close>, which
    \<open>eng\<close> interprets by \<open>step_run\<close>; \<open>named_engine\<close> extends it with the names of failures (\<open>ids\<close>). The
    driver refines the abstract audit system \<open>audit_step\<close>, whose potential decreases.
  \<^item> \<open>RepairContracts\<close>, \<open>RepairSession\<close>, \<open>BoardHost\<close>, \<open>RepairTransaction\<close>, \<open>RepairAdmission\<close>:
    \<^verbatim>\<open>ratsnestpro/repair/\<close>: proposals and file contracts, the session loop, the host that commits one
    board, journaled commits with their recovery after a crash, and what admits a paid session. The
    session is proved in the locale \<open>repair_host\<close>; \<open>bhost\<close> interprets it by the board host, \<open>ledger\<close>
    is the ledger as a safe system.
  \<^item> \<open>TemporalContracts\<close>, \<open>Workflow\<close>: \<^verbatim>\<open>agents/ratsnestpro/temporal/contracts.py\<close> and \<^verbatim>\<open>workflow.py\<close>:
    receipts and identities, and the durable workflow as a step relation with its signals, failing
    activities, compensation and reconciliation (\<open>hw\<close> interprets \<open>monotone_system\<close>).
  \<^item> \<open>RunRegistry\<close>: \<^verbatim>\<open>service/run_registry.py\<close>: the registry of one process, its tasks and their
    interleavings (\<open>registry\<close>). \<open>SharedRegistry\<close>, \<open>SharedSafety\<close>, \<open>SharedExecution\<close>:
    \<^verbatim>\<open>service/redis_run_registry.py\<close>: the registry several instances share. Each Lua script is one
    atomic function on the server; \<open>shared_step\<close> is any script with any arguments at any time, the
    expiry of an ended run, or the relay; \<open>shared\<close> interprets \<open>safe_system\<close>. An execution is a sequence
    of phases with the steps of other instances between them.
  \<^item> \<open>AuditRelay\<close>: \<^verbatim>\<open>service/kafka_relay.py\<close> and \<^verbatim>\<open>service/kafka_audit.py\<close>: the relays that publish the audit
    outbox of the shared registry, as machines over the answers of Redis and Kafka (\<open>outboxes\<close>
    interprets \<open>safe_system\<close>); to the registry they are its step \<open>relayed\<close>.
  \<^item> \<open>Evaluation\<close>, \<open>PatchGovernance\<close>: \<^verbatim>\<open>evolution/evaluator.py\<close> and \<^verbatim>\<open>evolution/optimizer.py\<close>: the graders
    of a run's evidence, their report, the comparison that promotes a candidate of the harness, and the
    validation of the patches a model proposes: normal paths, globs, sealed and denied paths.
  \<^item> \<open>Decisions\<close>: \<^verbatim>\<open>agents/ratsnestpro/decision_engine.py\<close>: the questions left to the user, the check of
    structured answers, and the answers written into the requirement as lines. \<open>WarningContract\<close>:
    \<^verbatim>\<open>agents/ratsnestpro/warning_contract.py\<close>: the dispositions of KiCad's warnings, their waivers, and the
    evidence for embedded symbols, whose trees are equal by the interpretation \<open>sx\<close>.

  What the lemmas show. Every component has its well-formedness invariant and the lemma of every
  operation that keeps it (type and frame lemmas), the functional behaviour of its operations on every
  branch, errors included, and the safety properties that follow under every interleaving. The
  numbered properties are the summits; a witness applies each to a concrete input.

  Bounds and fuel. Loops that may not end are option-valued (\<open>find_root\<close>, \<open>compress\<close>), and their
  ending is proved for well-formed forests. The driver loop carries fuel, and \<open>pipeline_terminates\<close>
  shows that for every run some amount of fuel is enough, by the decreasing potential of the audit. A
  repair session is bounded by its turns; an execution of the shared registry rests after sixteen steps of its own, and a turn of a relay after four answers for each
  entry of its batch and two more. Python's integers are \<open>int\<close> or \<open>nat\<close>, floats that
  are only compared and added are rationals.

  Parameters. SHA-256, KiCad, the sandbox, the language model, the clock, the file system's failures
  and what concrete steps do are arguments of the definitions; the hypotheses about them are
  documented behaviour (a digest is a function, a temporary directory is new).

  Not modelled: the concrete pipeline steps (LLM proposals, floating point geometry and KiCad files;
  the helpers among them rest on regular expressions over requirement texts), component resolution
  and release checks for the same reason, the conversation graph with its prompts and web tools, the
  tables and regular expressions of the decision engine, the
  clients and servers of Temporal, gRPC and HTTP, the connections to Kafka, the container executors, configuration and
  telemetry. Failing connections to Redis are outside the model of the shared registry.
\<close>

end
